(* ===== verification/Prelude.thy ===== *)
theory Prelude
  imports Main "HOL-Library.Word"
begin

text \<open>
  Vocabulary shared by every component of the model: the fixed-width integer types of the
  code, \<open>size_t\<close> arithmetic written out modulo 2^64, the exceptions the modelled code can
  throw as one datatype, the exception monad as a bind on \<open>exn + 'a\<close>, network byte order,
  and generic lemmas on list slices.  The collections \<open>exn_simps\<close> and \<open>slice_simps\<close>
  carry the component proofs.
\<close>

unbundle bit_operations_syntax

named_theorems exn_simps and slice_simps and byte_simps

section \<open>Integer types of the code\<close>

type_synonym u8 = "8 word"
type_synonym u16 = "16 word"
type_synonym u32 = "32 word"
type_synonym u64 = "64 word"

section \<open>Exceptions as values\<close>

text \<open>\<open>BufferException::Status\<close> of \<open>buffer/buffer.hpp\<close>.\<close>

datatype buf_status =
    buffer_full
  | buffer_headroom
  | buffer_underflow
  | buffer_overflow
  | buffer_offset
  | buffer_index
  | buffer_const_index
  | buffer_push_front_headroom
  | buffer_no_reset_impl
  | buffer_pop_back
  | buffer_set_size
  | buffer_range

text \<open>
  One constructor per exception type of the modelled headers.  \<open>bad_alloc\<close> is what
  \<open>operator new\<close> throws for a request above the implementation's object size limit.
  \<open>undefined_behaviour\<close> is no exception: it marks an execution to which C++ gives no meaning
  (\<open>front()\<close> of an empty deque, say), and the theorems show where it is not reached.
\<close>

datatype exn =
    Buffer_exception buf_status
  | bad_alloc
  | get_time_error
  | frame_context_index
  | packet_id_wrap
  | packet_id_not_initialized
  | message_window_ref_by_id
  | message_window_rm_head
  | embedded_packet_size_error
  | packet_not_fully_formed
  | base64_bad_map
  | base64_decode_error
  | base64_decode_out_of_bound_error
  | parse_hex_error
  | unknown_status_from_ssl_layer
  | static_key_bad_size
  | static_key_parse_error
  | ovpn_hmac_context_digest_size
  | ovpn_hmac_context_bad_sizing
  | ovpn_tls_crypt_context_digest_size
  | ovpn_tls_crypt_wrong_mode
  | aead_error string
  | mbedtls_aead_error string
  | mbedtls_cipher_uninitialized
  | openssl_gcm_error string
  | chm_unsupported_cipher_mode
  | cipher_mode_error
  | cipher_init_insufficient_key_material
  | cipher_internal_error
  | cipher_output_buffer
  | crypto_alg string
  | crypto_alg_index
  | crypto_dc_select string
  | no_data_channel_factory
  | tls_auth_pre_validate
  | tls_crypt_pre_validate
  | tls_crypt_v2_pre_validate
  | select_key_context_error
  | tlsprf_uninitialized
  | tlsprf_client_server_mismatch
  | error_code string
  | proto_error string
  | ipv4_exception string
  | ipv6_exception string
  | option_error string
  | number_parse_exception string
  | plain_exception string
  | undefined_behaviour

type_synonym 'a res = "exn + 'a"

definition bindE :: "'e + 'a \<Rightarrow> ('a \<Rightarrow> 'e + 'b) \<Rightarrow> 'e + 'b" where
  "bindE m f = (case m of Inl e \<Rightarrow> Inl e | Inr a \<Rightarrow> f a)"

lemma bindE_Inl [simp]: "bindE (Inl e) f = Inl e"
  by (simp add: bindE_def)

lemma bindE_Inr [simp]: "bindE (Inr a) f = f a"
  by (simp add: bindE_def)

lemma bindE_eq_Inr [exn_simps]: "bindE m f = Inr y \<longleftrightarrow> (\<exists>a. m = Inr a \<and> f a = Inr y)"
  by (cases m) simp_all

lemma bindE_eq_Inl [exn_simps]:
  "bindE m f = Inl e \<longleftrightarrow> m = Inl e \<or> (\<exists>a. m = Inr a \<and> f a = Inl e)"
  by (cases m) simp_all

lemma bindE_cong [fundef_cong]:
  "m = m' \<Longrightarrow> (\<And>a. m' = Inr a \<Longrightarrow> f a = g a) \<Longrightarrow> bindE m f = bindE m' g"
  by (cases m') simp_all

lemma bindE_assoc: "bindE (bindE m f) g = bindE m (\<lambda>a. bindE (f a) g)"
  by (cases m) simp_all

text \<open>
  Code that both changes state and may throw: the state survives the exception.
\<close>

type_synonym ('a, 's) st = "'s \<Rightarrow> 'a res \<times> 's"

definition bindS :: "('a, 's) st \<Rightarrow> ('a \<Rightarrow> ('b, 's) st) \<Rightarrow> ('b, 's) st" where
  "bindS m f s = (case m s of (Inl e, s) \<Rightarrow> (Inl e, s) | (Inr a, s) \<Rightarrow> f a s)"

lemma bindS_Inl [simp]: "m s = (Inl e, t) \<Longrightarrow> bindS m f s = (Inl e, t)"
  by (simp add: bindS_def)

lemma bindS_Inr [simp]: "m s = (Inr a, t) \<Longrightarrow> bindS m f s = f a t"
  by (simp add: bindS_def)

lemma bindS_eq [exn_simps]: "bindS m f s = (r, t) \<longleftrightarrow>
    (\<exists>e. m s = (Inl e, t) \<and> r = Inl e) \<or> (\<exists>a u. m s = (Inr a, u) \<and> f a u = (r, t))"
  by (auto simp: bindS_def split: prod.splits sum.splits)

section \<open>size\_t arithmetic\<close>

text \<open>
  \<open>size_t\<close> is 64 bits wide on the platforms of the package.  Sizes are \<open>nat\<close>s below
  \<open>SZ\<close>; the operations that can wrap do so explicitly.
\<close>

abbreviation SZ :: nat where "SZ \<equiv> 18446744073709551616"

definition sz_add :: "nat \<Rightarrow> nat \<Rightarrow> nat" where
  "sz_add a b = (a + b) mod SZ"

definition sz_sub :: "nat \<Rightarrow> nat \<Rightarrow> nat" where
  "sz_sub a b = (a + (SZ - b mod SZ)) mod SZ"

definition sz_mul :: "nat \<Rightarrow> nat \<Rightarrow> nat" where
  "sz_mul a b = (a * b) mod SZ"

lemma sz_add_small [simp]: "a + b < SZ \<Longrightarrow> sz_add a b = a + b"
  by (simp add: sz_add_def)

lemma sz_mul_small [simp]: "a * b < SZ \<Longrightarrow> sz_mul a b = a * b"
  by (simp add: sz_mul_def)

lemma sz_sub_small [simp]:
  assumes "b \<le> a" and "a < SZ"
  shows "sz_sub a b = a - b"
proof -
  have "a + (SZ - b) = SZ + (a - b)" using assms by simp
  moreover have "(SZ + (a - b)) mod SZ = (a - b) mod SZ" by simp
  ultimately show ?thesis using assms by (simp add: sz_sub_def)
qed

lemma sz_sub_wrap:
  assumes "a < b" and "b < SZ"
  shows "sz_sub a b = SZ - (b - a)"
  using assms by (simp add: sz_sub_def)

lemma sz_add_less [simp]: "sz_add a b < SZ"
  by (simp add: sz_add_def)

lemma sz_sub_less [simp]: "sz_sub a b < SZ"
  by (simp add: sz_sub_def)

section \<open>Slices of arrays\<close>

text \<open>\<open>memcpy\<close> of \<open>src\<close> into the array \<open>dst\<close> at index \<open>pos\<close>.\<close>

definition blit :: "'a list \<Rightarrow> nat \<Rightarrow> 'a list \<Rightarrow> 'a list" where
  "blit dst pos src = take pos dst @ src @ drop (pos + length src) dst"

definition slice :: "nat \<Rightarrow> nat \<Rightarrow> 'a list \<Rightarrow> 'a list" where
  "slice pos n xs = take n (drop pos xs)"

lemma length_blit [simp]:
  "pos + length src \<le> length dst \<Longrightarrow> length (blit dst pos src) = length dst"
  by (simp add: blit_def)

lemma length_slice [simp]: "pos + n \<le> length xs \<Longrightarrow> length (slice pos n xs) = n"
  by (simp add: slice_def)

lemma slice_0 [simp]: "slice pos 0 xs = []"
  by (simp add: slice_def)

lemma slice_split [slice_simps]:
  "slice pos (m + n) xs = slice pos m xs @ slice (pos + m) n xs"
  by (simp add: slice_def take_add drop_drop add.commute)

lemma slice_blit_same:
  "pos + length src \<le> length dst \<Longrightarrow> slice pos (length src) (blit dst pos src) = src"
  by (simp add: slice_def blit_def)

lemma slice_blit_before:
  assumes "p + n \<le> pos" and "pos + length src \<le> length dst"
  shows "slice p n (blit dst pos src) = slice p n dst"
proof -
  have "take n (drop p (take pos dst @ src @ drop (pos + length src) dst))
      = take n (drop p (take pos dst))"
    using assms by simp
  also have "\<dots> = take n (drop p dst)"
    using assms by (simp add: drop_take min_def)
  finally show ?thesis by (simp add: slice_def blit_def)
qed

lemma slice_blit_after:
  assumes "pos + length src \<le> p" and "pos + length src \<le> length dst"
  shows "slice p n (blit dst pos src) = slice p n dst"
proof -
  have "drop p (take pos dst @ src @ drop (pos + length src) dst)
      = drop (p - pos) (src @ drop (pos + length src) dst)"
    using assms by simp
  also have "\<dots> = drop (p - pos - length src) (drop (pos + length src) dst)"
    using assms by simp
  also have "\<dots> = drop p dst"
    using assms by simp
  finally show ?thesis by (simp add: slice_def blit_def)
qed

lemma slice_take_prefix: "k \<le> n \<Longrightarrow> take k (slice pos n xs) = slice pos k xs"
  by (simp add: slice_def min_def)

lemma slice_drop_prefix: "drop k (slice pos n xs) = slice (pos + k) (n - k) xs"
  by (simp add: slice_def drop_take add.commute)

lemma nth_slice: "i < n \<Longrightarrow> pos + n \<le> length xs \<Longrightarrow> slice pos n xs ! i = xs ! (pos + i)"
  by (simp add: slice_def)

lemma slice_Suc:
  "pos < length xs \<Longrightarrow> slice pos (Suc n) xs = xs ! pos # slice (Suc pos) n xs"
  by (simp add: slice_def Cons_nth_drop_Suc [symmetric])

lemma slice_snoc:
  "pos + n < length xs \<Longrightarrow> slice pos (Suc n) xs = slice pos n xs @ [xs ! (pos + n)]"
  using slice_split [of pos n 1 xs] by (simp add: slice_def take_Suc_conv_app_nth)

lemma list_update_blit: "i < length xs \<Longrightarrow> xs[i := v] = blit xs i [v]"
  by (simp add: blit_def upd_conv_take_nth_drop)

section \<open>Network byte order\<close>

text \<open>
  The bytes in memory of \<open>htonl(x)\<close>, and \<open>ntohl\<close> of four bytes read from memory: on
  either host endianness, most significant byte first.
\<close>

definition be16 :: "u16 \<Rightarrow> u8 list" where
  "be16 w = [ucast (drop_bit 8 w), ucast w]"

definition be32 :: "u32 \<Rightarrow> u8 list" where
  "be32 w = [ucast (drop_bit 24 w), ucast (drop_bit 16 w), ucast (drop_bit 8 w), ucast w]"

fun of_be16 :: "u8 list \<Rightarrow> u16" where
  "of_be16 [a, b] = push_bit 8 (ucast a) OR ucast b"
| "of_be16 _ = 0"

fun of_be32 :: "u8 list \<Rightarrow> u32" where
  "of_be32 [a, b, c, d] =
     push_bit 24 (ucast a) OR push_bit 16 (ucast b) OR push_bit 8 (ucast c) OR ucast d"
| "of_be32 _ = 0"

lemma length_be16 [simp]: "length (be16 w) = 2"
  by (simp add: be16_def)

lemma length_be32 [simp]: "length (be32 w) = 4"
  by (simp add: be32_def)

lemma of_be16_be16 [simp]: "of_be16 (be16 w) = w"
  unfolding be16_def of_be16.simps
  by (intro bit_word_eqI) (auto simp: bit_simps not_le dest: less_imp_add_positive)

lemma of_be32_be32 [simp]: "of_be32 (be32 w) = w"
proof (rule bit_word_eqI)
  fix n
  assume n: "n < LENGTH(32)"
  consider "n < 8" | "8 \<le> n" "n < 16" | "16 \<le> n" "n < 24" | "24 \<le> n"
    by linarith
  then show "bit (of_be32 (be32 w)) n = bit w n"
    using n by cases (auto simp: be32_def bit_simps)
qed

section \<open>Counting with words\<close>

lemma unat_plus_one:
  fixes i d :: "'a::len word"
  assumes "i < d"
  shows "unat (i + 1) = Suc (unat i)"
proof -
  have "unat d < 2 ^ LENGTH('a)" by simp
  moreover have "unat i < unat d" using assms by (simp only: word_less_nat_alt)
  ultimately have "Suc (unat i) < 2 ^ LENGTH('a)" by linarith
  then show ?thesis
    using unat_word_ariths(1) [of i 1] by simp
qed

lemma unat_minus:
  fixes a b :: "'a::len word"
  assumes "b \<le> a"
  shows "unat (a - b) = unat a - unat b"
  using assms by (simp add: unat_sub)

end
