(* ===== verification/Buffers.thy ===== *)
theory Buffers
  imports Prelude
begin

text \<open>
  \<open>openvpn/buffer/buffer.hpp\<close>: \<open>BufferType<unsigned char>\<close> (\<open>Buffer\<close>) and its owning
  subclass \<open>BufferAllocatedType\<close> (\<open>BufferAllocated\<close>).

  A buffer is a record of the four fields of the class and its dynamic class.  The array
  behind \<open>data_\<close> is a byte list (empty for a null pointer); \<open>offset_\<close>, \<open>size_\<close> and
  \<open>capacity_\<close> are \<open>size_t\<close> values, and every sum the code forms from them is taken
  modulo 2^64 as in the code.  The two virtual methods \<open>resize\<close> and \<open>reset_impl\<close>
  dispatch on the class.  A throwing operation returns \<open>Inl\<close>.  Freshly allocated cells
  hold \<open>uninit\<close>, a constant about which nothing is known.  A pointer returned into the
  array is the index of the cell; sharing of one array by two buffers is not modelled.

  \<open>buf_wf\<close> is the class invariant, \<open>content\<close> the abstraction to the byte string a buffer
  stands for; the lemmas give each operation's effect on \<open>content\<close>, the exact condition
  under which it throws, and preservation of \<open>buf_wf\<close>.  The locale \<open>wire_buffer\<close> is the
  contract the protocol code relies on; \<open>wire_codec\<close> extends it by a fixed-width codec.
\<close>

section \<open>State\<close>

datatype buf_kind = Plain | Allocated u32

record buffer =
  b_data :: "u8 list"
  b_off :: nat
  b_size :: nat
  b_cap :: nat
  b_kind :: buf_kind

definition uninit :: u8 where
  "uninit = undefined"

text \<open>Flags of \<open>BufferAllocatedType\<close>.\<close>

definition CONSTRUCT_ZERO :: u32 where "CONSTRUCT_ZERO = 1"
definition DESTRUCT_ZERO :: u32 where "DESTRUCT_ZERO = 2"
definition GROW :: u32 where "GROW = 4"
definition ARRAY :: u32 where "ARRAY = 8"

definition flag_set :: "u32 \<Rightarrow> u32 \<Rightarrow> bool" where
  "flag_set flags m \<longleftrightarrow> flags AND m \<noteq> 0"

text \<open>\<open>new unsigned char[n]\<close>: fails above the largest object sz.\<close>

abbreviation MAX_OBJECT :: nat where "MAX_OBJECT \<equiv> 9223372036854775808"

definition new_array :: "nat \<Rightarrow> u8 list res" where
  "new_array n = (if n < MAX_OBJECT then Inr (replicate n uninit) else Inl bad_alloc)"

section \<open>BufferType\<close>

definition buf_default :: buffer where
  "buf_default = \<lparr>b_data = [], b_off = 0, b_size = 0, b_cap = 0, b_kind = Plain\<rparr>"

definition buf_of_array :: "u8 list \<Rightarrow> bool \<Rightarrow> buffer" where
  "buf_of_array d filled =
     \<lparr>b_data = d, b_off = 0, b_size = (if filled then length d else 0),
      b_cap = length d, b_kind = Plain\<rparr>"

definition buf_init_headroom :: "nat \<Rightarrow> buffer \<Rightarrow> buffer res" where
  "buf_init_headroom headroom b =
     (if headroom > b_cap b then Inl (Buffer_exception buffer_headroom)
      else Inr (b\<lparr>b_off := headroom, b_size := 0\<rparr>))"

definition buf_reset_offset :: "nat \<Rightarrow> buffer \<Rightarrow> buffer res" where
  "buf_reset_offset offset b =
     (let sz = sz_sub (sz_add (b_size b) (b_off b)) offset in
      if offset > b_cap b \<or> sz > b_cap b \<or> sz_add offset sz > b_cap b
      then Inl (Buffer_exception buffer_offset)
      else Inr (b\<lparr>b_off := offset, b_size := sz\<rparr>))"

definition buf_reset_size :: "buffer \<Rightarrow> buffer" where
  "buf_reset_size b = b\<lparr>b_size := 0\<rparr>"

definition buf_reset_content :: "buffer \<Rightarrow> buffer" where
  "buf_reset_content b = b\<lparr>b_off := 0, b_size := 0\<rparr>"

text \<open>The bytes from \<open>c_data()\<close> to \<open>c_data_end()\<close>.\<close>

definition content :: "buffer \<Rightarrow> u8 list" where
  "content b = slice (b_off b) (b_size b) (b_data b)"

definition buf_defined :: "buffer \<Rightarrow> bool" where
  "buf_defined b \<longleftrightarrow> b_size b > 0"

definition buf_allocated :: "buffer \<Rightarrow> bool" where
  "buf_allocated b \<longleftrightarrow> b_data b \<noteq> []"

definition buf_empty :: "buffer \<Rightarrow> bool" where
  "buf_empty b \<longleftrightarrow> b_size b = 0"

definition buf_remaining :: "nat \<Rightarrow> buffer \<Rightarrow> nat" where
  "buf_remaining tailroom b =
     (let r = sz_sub (b_cap b) (sz_add (sz_add (b_off b) (b_size b)) tailroom) in
      if r \<le> b_cap b then r else 0)"

definition buf_max_size :: "buffer \<Rightarrow> nat" where
  "buf_max_size b = (let r = sz_sub (b_cap b) (b_off b) in if r \<le> b_cap b then r else 0)"

definition buf_max_size_tailroom :: "nat \<Rightarrow> buffer \<Rightarrow> nat" where
  "buf_max_size_tailroom tailroom b =
     (let r = sz_sub (b_cap b) (sz_add (b_off b) tailroom) in if r \<le> b_cap b then r else 0)"

definition buf_set_size :: "nat \<Rightarrow> buffer \<Rightarrow> buffer res" where
  "buf_set_size sz b =
     (if sz > buf_max_size b then Inl (Buffer_exception buffer_set_size)
      else Inr (b\<lparr>b_size := sz\<rparr>))"

definition buf_inc_size :: "nat \<Rightarrow> buffer \<Rightarrow> buffer res" where
  "buf_inc_size delta b = buf_set_size (sz_add (b_size b) delta) b"

text \<open>
  \<open>realloc_\<close> moves the contents to a larger array; \<open>resize\<close> is the virtual method:
  a plain buffer cannot grow, an allocated one doubles its capacity if \<open>GROW\<close> is set.
\<close>

definition buf_realloc_to :: "nat \<Rightarrow> buffer \<Rightarrow> buffer res" where
  "buf_realloc_to newcap b =
     bindE (new_array newcap) (\<lambda>d.
       Inr (b\<lparr>b_data := (if b_size b \<noteq> 0 then blit d (b_off b) (content b) else d),
              b_cap := newcap\<rparr>))"

definition alloc_resize :: "u32 \<Rightarrow> nat \<Rightarrow> buffer \<Rightarrow> buffer res" where
  "alloc_resize flags new_capacity b =
     (let newcap = max new_capacity (sz_mul (b_cap b) 2) in
      if newcap > b_cap b then
        (if flag_set flags GROW then buf_realloc_to newcap b
         else Inl (Buffer_exception buffer_full))
      else Inr b)"

definition buf_resize :: "nat \<Rightarrow> buffer \<Rightarrow> buffer res" where
  "buf_resize new_capacity b =
     (case b_kind b of
        Plain \<Rightarrow> if new_capacity > b_cap b then Inl (Buffer_exception buffer_full) else Inr b
      | Allocated flags \<Rightarrow> alloc_resize flags new_capacity b)"

definition buf_reserve :: "nat \<Rightarrow> buffer \<Rightarrow> buffer res" where
  "buf_reserve n b = (if n > b_cap b then buf_resize n b else Inr b)"

definition buf_push_back :: "u8 \<Rightarrow> buffer \<Rightarrow> buffer res" where
  "buf_push_back v b =
     bindE (if buf_remaining 0 b = 0 then buf_resize (sz_add (sz_add (b_off b) (b_size b)) 1) b
            else Inr b) (\<lambda>b.
       Inr (b\<lparr>b_data := (b_data b)[b_off b + b_size b := v], b_size := sz_add (b_size b) 1\<rparr>))"

definition buf_push_front :: "u8 \<Rightarrow> buffer \<Rightarrow> buffer res" where
  "buf_push_front v b =
     (if b_off b = 0 then Inl (Buffer_exception buffer_push_front_headroom)
      else Inr (b\<lparr>b_off := b_off b - 1, b_size := sz_add (b_size b) 1,
                  b_data := (b_data b)[b_off b - 1 := v]\<rparr>))"

definition buf_pop_back :: "buffer \<Rightarrow> (u8 \<times> buffer) res" where
  "buf_pop_back b =
     (if b_size b = 0 then Inl (Buffer_exception buffer_pop_back)
      else Inr (b_data b ! (b_off b + (b_size b - 1)), b\<lparr>b_size := b_size b - 1\<rparr>))"

text \<open>The two index operators (non-const and const) throw different statuses.\<close>

definition buf_index :: "nat \<Rightarrow> buffer \<Rightarrow> u8 res" where
  "buf_index i b =
     (if i \<ge> b_size b then Inl (Buffer_exception buffer_index)
      else Inr (b_data b ! (b_off b + i)))"

definition buf_const_index :: "nat \<Rightarrow> buffer \<Rightarrow> u8 res" where
  "buf_const_index i b =
     (if i \<ge> b_size b then Inl (Buffer_exception buffer_const_index)
      else Inr (b_data b ! (b_off b + i)))"

definition buf_index_ptr :: "nat \<Rightarrow> buffer \<Rightarrow> nat res" where
  "buf_index_ptr i b =
     (if i \<ge> b_size b then Inl (Buffer_exception buffer_index) else Inr (b_off b + i))"

definition buf_c_index_ptr :: "nat \<Rightarrow> buffer \<Rightarrow> nat res" where
  "buf_c_index_ptr i b =
     (if i \<ge> b_size b then Inl (Buffer_exception buffer_const_index) else Inr (b_off b + i))"

definition buf_pop_front :: "buffer \<Rightarrow> (u8 \<times> buffer) res" where
  "buf_pop_front b =
     bindE (buf_index 0 b) (\<lambda>v. Inr (v, b\<lparr>b_off := b_off b + 1, b_size := b_size b - 1\<rparr>))"

definition buf_front :: "buffer \<Rightarrow> u8 res" where
  "buf_front b = buf_const_index 0 b"

definition buf_back :: "buffer \<Rightarrow> u8 res" where
  "buf_back b = buf_const_index (sz_sub (b_size b) 1) b"

definition buf_set_trailer :: "u8 \<Rightarrow> buffer \<Rightarrow> buffer res" where
  "buf_set_trailer v b =
     bindE (if buf_remaining 0 b = 0 then buf_resize (sz_add (sz_add (b_off b) (b_size b)) 1) b
            else Inr b) (\<lambda>b.
       Inr (b\<lparr>b_data := (b_data b)[b_off b + b_size b := v]\<rparr>))"

definition buf_null_terminate :: "buffer \<Rightarrow> buffer res" where
  "buf_null_terminate b =
     (if buf_empty b then buf_push_back 0 b
      else bindE (buf_back b) (\<lambda>v. if v \<noteq> 0 then buf_push_back 0 b else Inr b))"

definition buf_advance :: "nat \<Rightarrow> buffer \<Rightarrow> buffer res" where
  "buf_advance delta b =
     (if delta > b_size b then Inl (Buffer_exception buffer_overflow)
      else Inr (b\<lparr>b_off := b_off b + delta, b_size := b_size b - delta\<rparr>))"

text \<open>The scans of \<open>contains_null\<close> and \<open>is_zeroed\<close>, from \<open>c_data()\<close> to \<open>c_data_end()\<close>.\<close>

fun contains_null_scan :: "u8 list \<Rightarrow> bool" where
  "contains_null_scan [] = False"
| "contains_null_scan (p # ps) = (if p = 0 then True else contains_null_scan ps)"

definition buf_contains_null :: "buffer \<Rightarrow> bool" where
  "buf_contains_null b = contains_null_scan (content b)"

fun is_zeroed_scan :: "u8 list \<Rightarrow> bool" where
  "is_zeroed_scan [] = True"
| "is_zeroed_scan (p # ps) = (if p \<noteq> 0 then False else is_zeroed_scan ps)"

definition buf_is_zeroed :: "buffer \<Rightarrow> bool" where
  "buf_is_zeroed b = is_zeroed_scan (content b)"

definition buf_eq :: "buffer \<Rightarrow> buffer \<Rightarrow> bool" where
  "buf_eq b other =
     (if b_size b \<noteq> b_size other then False else content b = content other)"

definition buf_realign :: "nat \<Rightarrow> buffer \<Rightarrow> buffer res" where
  "buf_realign headroom b =
     (if headroom \<noteq> b_off b then
        (if sz_add headroom (b_size b) > b_cap b then Inl (Buffer_exception buffer_headroom)
         else Inr (b\<lparr>b_data := blit (b_data b) headroom (content b), b_off := headroom\<rparr>))
      else Inr b)"

definition buf_write_alloc :: "nat \<Rightarrow> buffer \<Rightarrow> (nat \<times> buffer) res" where
  "buf_write_alloc sz b =
     bindE (if sz > buf_remaining 0 b
            then buf_resize (sz_add (sz_add (b_off b) (b_size b)) sz) b else Inr b) (\<lambda>b.
       Inr (b_off b + b_size b, b\<lparr>b_size := sz_add (b_size b) sz\<rparr>))"

definition buf_write :: "u8 list \<Rightarrow> buffer \<Rightarrow> buffer res" where
  "buf_write d b =
     bindE (buf_write_alloc (length d) b) (\<lambda>(p, b). Inr (b\<lparr>b_data := blit (b_data b) p d\<rparr>))"

definition buf_prepend_alloc :: "nat \<Rightarrow> buffer \<Rightarrow> (nat \<times> buffer) res" where
  "buf_prepend_alloc sz b =
     (if sz \<le> b_off b then
        Inr (b_off b - sz, b\<lparr>b_off := b_off b - sz, b_size := sz_add (b_size b) sz\<rparr>)
      else Inl (Buffer_exception buffer_headroom))"

definition buf_prepend :: "u8 list \<Rightarrow> buffer \<Rightarrow> buffer res" where
  "buf_prepend d b =
     bindE (buf_prepend_alloc (length d) b) (\<lambda>(p, b). Inr (b\<lparr>b_data := blit (b_data b) p d\<rparr>))"

definition buf_read_alloc :: "nat \<Rightarrow> buffer \<Rightarrow> (nat \<times> buffer) res" where
  "buf_read_alloc sz b =
     (if sz \<le> b_size b then
        Inr (b_off b, b\<lparr>b_off := b_off b + sz, b_size := b_size b - sz\<rparr>)
      else Inl (Buffer_exception buffer_underflow))"

definition buf_read :: "nat \<Rightarrow> buffer \<Rightarrow> (u8 list \<times> buffer) res" where
  "buf_read sz b =
     bindE (buf_read_alloc sz b) (\<lambda>(p, b). Inr (slice p sz (b_data b), b))"

definition buf_read_alloc_buf :: "nat \<Rightarrow> buffer \<Rightarrow> (buffer \<times> buffer) res" where
  "buf_read_alloc_buf sz b =
     (if sz \<le> b_size b then
        Inr (\<lparr>b_data = b_data b, b_off = b_off b, b_size = sz, b_cap = b_cap b,
              b_kind = Plain\<rparr>,
             b\<lparr>b_off := b_off b + sz, b_size := b_size b - sz\<rparr>)
      else Inl (Buffer_exception buffer_underflow))"

definition buf_append :: "buffer \<Rightarrow> buffer \<Rightarrow> buffer res" where
  "buf_append other b = buf_write (content other) b"

text \<open>
  \<open>range\<close> clips a length to the buffer and returns a plain buffer whose array starts at
  \<open>data_ + offset_\<close>, with the given offset and with the clipped length as its sz and
  its capacity.
\<close>

definition buf_range :: "nat \<Rightarrow> nat \<Rightarrow> buffer \<Rightarrow> buffer" where
  "buf_range offset len b =
     (let len' = (if sz_add offset len > b_size b
                  then (if offset < b_size b then b_size b - offset else 0) else len) in
      \<lparr>b_data = drop (b_off b) (b_data b), b_off = offset, b_size = len', b_cap = len',
       b_kind = Plain\<rparr>)"

section \<open>BufferAllocatedType\<close>

definition alloc_default :: buffer where
  "alloc_default = buf_default\<lparr>b_kind := Allocated 0\<rparr>"

definition alloc_ctor :: "nat \<Rightarrow> u32 \<Rightarrow> buffer res" where
  "alloc_ctor capacity flags =
     bindE (if capacity \<noteq> 0 then new_array capacity else Inr []) (\<lambda>d.
       Inr \<lparr>b_data = (if capacity \<noteq> 0 \<and> flag_set flags CONSTRUCT_ZERO
                      then replicate capacity 0 else d),
            b_off = 0,
            b_size = (if capacity \<noteq> 0 \<and> flag_set flags ARRAY then capacity else 0),
            b_cap = capacity, b_kind = Allocated flags\<rparr>)"

definition alloc_ctor_data :: "u8 list \<Rightarrow> u32 \<Rightarrow> buffer res" where
  "alloc_ctor_data data flags =
     bindE (if data \<noteq> [] then new_array (length data) else Inr []) (\<lambda>d.
       Inr \<lparr>b_data = (if data \<noteq> [] then blit d 0 data else d), b_off = 0,
            b_size = length data, b_cap = length data, b_kind = Allocated flags\<rparr>)"

text \<open>
  The copy constructors: the array is allocated afresh, the window is copied, the rest
  of the array is not.  \<open>alloc_copy_from\<close> is the one with explicit flags.
\<close>

definition alloc_copy_from :: "buffer \<Rightarrow> u32 \<Rightarrow> buffer res" where
  "alloc_copy_from other flags =
     bindE (if b_cap other \<noteq> 0 then new_array (b_cap other) else Inr []) (\<lambda>d.
       Inr \<lparr>b_data = (if b_cap other \<noteq> 0 \<and> b_size other \<noteq> 0
                      then blit d (b_off other) (content other) else d),
            b_off = b_off other, b_size = b_size other, b_cap = b_cap other,
            b_kind = Allocated flags\<rparr>)"

definition kind_flags :: "buffer \<Rightarrow> u32" where
  "kind_flags b = (case b_kind b of Allocated f \<Rightarrow> f | Plain \<Rightarrow> 0)"

definition alloc_copy :: "buffer \<Rightarrow> buffer res" where
  "alloc_copy other = alloc_copy_from other (kind_flags other)"

definition alloc_erase :: "buffer \<Rightarrow> buffer" where
  "alloc_erase b = b\<lparr>b_data := [], b_cap := 0\<rparr>"

text \<open>Copy assignment of two distinct objects.\<close>

definition alloc_assign :: "buffer \<Rightarrow> buffer \<Rightarrow> buffer res" where
  "alloc_assign b other =
     bindE (if b_cap b \<noteq> b_cap other
            then (if b_cap other \<noteq> 0
                  then bindE (new_array (b_cap other)) (\<lambda>d. Inr ((alloc_erase b)\<lparr>b_data := d\<rparr>))
                  else Inr (alloc_erase b))
            else Inr b) (\<lambda>b.
       let b = b\<lparr>b_cap := b_cap other, b_off := b_off other, b_size := b_size other,
                 b_kind := Allocated (kind_flags other)\<rparr> in
       Inr (if b_size other \<noteq> 0
            then b\<lparr>b_data := blit (b_data b) (b_off other) (content other)\<rparr> else b))"

definition alloc_init :: "nat \<Rightarrow> u32 \<Rightarrow> buffer \<Rightarrow> buffer res" where
  "alloc_init capacity flags b =
     bindE (if b_cap b \<noteq> capacity
            then (if capacity \<noteq> 0 then new_array capacity else Inr [])
            else Inr (b_data b)) (\<lambda>d.
       Inr \<lparr>b_data = (if flag_set flags CONSTRUCT_ZERO \<and> capacity \<noteq> 0
                      then replicate capacity 0 else d),
            b_off = 0,
            b_size = (if flag_set flags ARRAY then capacity else 0),
            b_cap = capacity, b_kind = Allocated flags\<rparr>)"

definition alloc_init_data :: "u8 list \<Rightarrow> u32 \<Rightarrow> buffer \<Rightarrow> buffer res" where
  "alloc_init_data data flags b =
     bindE (if length data \<noteq> b_cap b
            then (if length data \<noteq> 0 then new_array (length data) else Inr [])
            else Inr (b_data b)) (\<lambda>d.
       Inr \<lparr>b_data = blit d 0 data, b_off = 0, b_size = length data,
            b_cap = length data, b_kind = Allocated flags\<rparr>)"

definition alloc_realloc :: "nat \<Rightarrow> buffer \<Rightarrow> buffer res" where
  "alloc_realloc newcap b = (if newcap > b_cap b then buf_realloc_to newcap b else Inr b)"

definition alloc_reset :: "nat \<Rightarrow> u32 \<Rightarrow> buffer \<Rightarrow> buffer res" where
  "alloc_reset min_capacity flags b =
     (if min_capacity > b_cap b then alloc_init min_capacity flags b else Inr b)"

definition alloc_reset_headroom :: "nat \<Rightarrow> nat \<Rightarrow> u32 \<Rightarrow> buffer \<Rightarrow> buffer res" where
  "alloc_reset_headroom headroom min_capacity flags b =
     bindE (alloc_reset min_capacity flags b) (buf_init_headroom headroom)"

text \<open>The virtual \<open>reset_impl\<close>, and the \<open>reset\<close> methods of the base class.\<close>

definition buf_reset_impl :: "nat \<Rightarrow> u32 \<Rightarrow> buffer \<Rightarrow> buffer res" where
  "buf_reset_impl min_capacity flags b =
     (case b_kind b of
        Plain \<Rightarrow> Inl (Buffer_exception buffer_no_reset_impl)
      | Allocated _ \<Rightarrow> alloc_init min_capacity flags b)"

definition buf_reset :: "nat \<Rightarrow> u32 \<Rightarrow> buffer \<Rightarrow> buffer res" where
  "buf_reset min_capacity flags b =
     (if min_capacity > b_cap b then buf_reset_impl min_capacity flags b else Inr b)"

definition buf_reset_headroom :: "nat \<Rightarrow> nat \<Rightarrow> u32 \<Rightarrow> buffer \<Rightarrow> buffer res" where
  "buf_reset_headroom headroom min_capacity flags b =
     bindE (buf_reset min_capacity flags b) (buf_init_headroom headroom)"

text \<open>
  \<open>move_\<close> and \<open>move\<close> return the receiver and the emptied source; \<open>swap\<close> the pair.
\<close>

definition alloc_move_from :: "buffer \<Rightarrow> buffer \<times> buffer" where
  "alloc_move_from other =
     (other, other\<lparr>b_data := [], b_off := 0, b_size := 0, b_cap := 0\<rparr>)"

definition alloc_move :: "buffer \<Rightarrow> buffer \<Rightarrow> buffer \<times> buffer" where
  "alloc_move b other = alloc_move_from other"

definition alloc_swap :: "buffer \<Rightarrow> buffer \<Rightarrow> buffer \<times> buffer" where
  "alloc_swap b other = (other, b)"

definition alloc_clear :: "buffer \<Rightarrow> buffer" where
  "alloc_clear b = (alloc_erase b)\<lparr>b_kind := Allocated 0, b_size := 0, b_off := 0\<rparr>"

definition alloc_or_flags :: "u32 \<Rightarrow> buffer \<Rightarrow> buffer" where
  "alloc_or_flags flags b = b\<lparr>b_kind := Allocated (kind_flags b OR flags)\<rparr>"

definition alloc_and_flags :: "u32 \<Rightarrow> buffer \<Rightarrow> buffer" where
  "alloc_and_flags flags b = b\<lparr>b_kind := Allocated (kind_flags b AND flags)\<rparr>"

section \<open>Class invariant\<close>

text \<open>
  The array has \<open>capacity_\<close> cells, the window lies inside it, and an array is never
  larger than the largest object.
\<close>

definition buf_wf :: "buffer \<Rightarrow> bool" where
  "buf_wf b \<longleftrightarrow> length (b_data b) = b_cap b \<and> b_off b + b_size b \<le> b_cap b \<and> b_cap b < MAX_OBJECT"

lemma length_content [simp]: "buf_wf b \<Longrightarrow> length (content b) = b_size b"
  by (simp add: buf_wf_def content_def)

lemma content_empty [simp]: "b_size b = 0 \<Longrightarrow> content b = []"
  by (simp add: content_def)

lemma buf_wf_default [simp]: "buf_wf buf_default" "buf_wf alloc_default"
  by (simp_all add: buf_wf_def buf_default_def alloc_default_def)

lemma content_default [simp]: "content buf_default = []" "content alloc_default = []"
  by (simp_all add: content_def buf_default_def alloc_default_def)

lemma buf_wf_of_array: "length d < MAX_OBJECT \<Longrightarrow> buf_wf (buf_of_array d filled)"
  by (simp add: buf_wf_def buf_of_array_def)

lemma content_of_array:
  "content (buf_of_array d True) = d" "content (buf_of_array d False) = []"
  by (simp_all add: content_def buf_of_array_def slice_def)

text \<open>
  \<open>remaining\<close> relies on unsigned wrap-around: it is the free room after the window and
  the tailroom, and zero when there is none.
\<close>

lemma buf_remaining_eq:
  assumes "buf_wf b" and "t < MAX_OBJECT"
  shows "buf_remaining t b = b_cap b - (b_off b + b_size b + t)"
proof -
  from assms have s: "sz_add (sz_add (b_off b) (b_size b)) t = b_off b + b_size b + t"
    by (simp add: buf_wf_def)
  show ?thesis
  proof (cases "b_off b + b_size b + t \<le> b_cap b")
    case True
    with assms show ?thesis by (simp add: buf_remaining_def s buf_wf_def Let_def)
  next
    case False
    with assms have "sz_sub (b_cap b) (b_off b + b_size b + t)
        = SZ - (b_off b + b_size b + t - b_cap b)"
      by (intro sz_sub_wrap) (simp_all add: buf_wf_def)
    with False assms show ?thesis by (simp add: buf_remaining_def s buf_wf_def Let_def) linarith
  qed
qed

lemma buf_max_size_eq: "buf_wf b \<Longrightarrow> buf_max_size b = b_cap b - b_off b"
  by (simp add: buf_max_size_def buf_wf_def)

lemma buf_max_size_tailroom_eq:
  assumes "buf_wf b" and "t < MAX_OBJECT"
  shows "buf_max_size_tailroom t b = b_cap b - (b_off b + t)"
proof -
  from assms have s: "sz_add (b_off b) t = b_off b + t"
    by (simp add: buf_wf_def)
  show ?thesis
  proof (cases "b_off b + t \<le> b_cap b")
    case True
    with assms show ?thesis by (simp add: buf_max_size_tailroom_def s buf_wf_def Let_def)
  next
    case False
    with assms have "sz_sub (b_cap b) (b_off b + t) = SZ - (b_off b + t - b_cap b)"
      by (intro sz_sub_wrap) (simp_all add: buf_wf_def)
    with False assms show ?thesis by (simp add: buf_max_size_tailroom_def s buf_wf_def Let_def) linarith
  qed
qed

section \<open>Growth\<close>

lemma new_array_Inr: "new_array n = Inr d \<longleftrightarrow> n < MAX_OBJECT \<and> d = replicate n uninit"
  by (auto simp: new_array_def)

lemma buf_realloc_to_ok:
  assumes "buf_wf b" and "buf_realloc_to newcap b = Inr b'" and "b_cap b \<le> newcap"
  shows "buf_wf b' \<and> content b' = content b \<and> b_off b' = b_off b \<and> b_size b' = b_size b
    \<and> b_kind b' = b_kind b \<and> b_cap b' = newcap"
proof -
  from assms have cap: "newcap < MAX_OBJECT"
    and b': "b' = b\<lparr>b_data := (if b_size b \<noteq> 0 then blit (replicate newcap uninit) (b_off b) (content b)
                          else replicate newcap uninit), b_cap := newcap\<rparr>"
    by (auto simp: buf_realloc_to_def exn_simps new_array_Inr)
  have "slice (b_off b) (b_size b) (blit (replicate newcap uninit) (b_off b) (content b)) = content b"
    using slice_blit_same [of "b_off b" "content b" "replicate newcap uninit"] assms
    by (simp add: buf_wf_def)
  with assms cap show ?thesis
    by (auto simp: b' buf_wf_def content_def)
qed

lemma buf_resize_ok:
  assumes "buf_wf b" and "buf_resize n b = Inr b'"
  shows "buf_wf b' \<and> content b' = content b \<and> b_off b' = b_off b \<and> b_size b' = b_size b
    \<and> b_kind b' = b_kind b \<and> n \<le> b_cap b' \<and> b_cap b \<le> b_cap b'"
  using assms buf_realloc_to_ok [OF assms(1), of "max n (sz_mul (b_cap b) 2)" b']
  by (auto simp: buf_resize_def alloc_resize_def Let_def split: buf_kind.splits if_splits)

lemma buf_resize_plain:
  "b_kind b = Plain \<Longrightarrow>
   buf_resize n b = (if n \<le> b_cap b then Inr b else Inl (Buffer_exception buffer_full))"
  by (simp add: buf_resize_def)

lemma buf_resize_fits:
  "buf_wf b \<Longrightarrow> n \<le> b_cap b \<Longrightarrow> b_kind b = Plain \<Longrightarrow> buf_resize n b = Inr b"
  by (simp add: buf_resize_plain)

section \<open>Appending\<close>

lemma content_extend:
  assumes "buf_wf b" and "b_off b + b_size b + length d \<le> b_cap b"
  shows "slice (b_off b) (b_size b + length d) (blit (b_data b) (b_off b + b_size b) d)
       = content b @ d"
  using assms
  by (simp add: slice_split slice_blit_same slice_blit_before content_def buf_wf_def)

lemma buf_write_alloc_ok:
  assumes "buf_wf b" and "buf_write_alloc n b = Inr (p, b')" and "n < MAX_OBJECT"
  shows "\<exists>b0. buf_wf b0 \<and> content b0 = content b \<and> b_off b0 = b_off b \<and> b_size b0 = b_size b
    \<and> b_kind b0 = b_kind b \<and> b_cap b \<le> b_cap b0
    \<and> b_off b + b_size b + n \<le> b_cap b0 \<and> p = b_off b + b_size b
    \<and> b' = b0\<lparr>b_size := b_size b + n\<rparr>"
proof -
  have nw: "sz_add (sz_add (b_off b) (b_size b)) n = b_off b + b_size b + n"
    using assms by (simp add: buf_wf_def)
  obtain b0 where b0: "(if n > buf_remaining 0 b
      then buf_resize (b_off b + b_size b + n) b else Inr b) = Inr b0"
    and p: "p = b_off b0 + b_size b0" and b': "b' = b0\<lparr>b_size := sz_add (b_size b0) n\<rparr>"
    using assms(2) unfolding buf_write_alloc_def nw by (auto simp: exn_simps)
  have "buf_wf b0 \<and> content b0 = content b \<and> b_off b0 = b_off b \<and> b_size b0 = b_size b
    \<and> b_kind b0 = b_kind b \<and> b_cap b \<le> b_cap b0 \<and> b_off b + b_size b + n \<le> b_cap b0"
  proof (cases "n > buf_remaining 0 b")
    case True
    with b0 buf_resize_ok [OF assms(1)] show ?thesis by auto
  next
    case False
    with b0 assms show ?thesis by (auto simp: buf_remaining_eq buf_wf_def)
  qed
  moreover from this assms(3) have "sz_add (b_size b0) n = b_size b + n"
    by (simp add: buf_wf_def)
  ultimately show ?thesis using p b' by auto
qed

lemma buf_write_ok:
  assumes "buf_wf b" and "buf_write d b = Inr b'" and "length d < MAX_OBJECT"
  shows "buf_wf b' \<and> content b' = content b @ d \<and> b_off b' = b_off b \<and> b_kind b' = b_kind b
    \<and> b_size b' = b_size b + length d \<and> b_cap b \<le> b_cap b'"
proof -
  obtain p b1 where w: "buf_write_alloc (length d) b = Inr (p, b1)"
    and b': "b' = b1\<lparr>b_data := blit (b_data b1) p d\<rparr>"
    using assms(2) by (auto simp: buf_write_def exn_simps)
  obtain b0 where "buf_wf b0" "content b0 = content b" "b_off b0 = b_off b" "b_size b0 = b_size b"
    "b_kind b0 = b_kind b" "b_cap b \<le> b_cap b0" "b_off b + b_size b + length d \<le> b_cap b0"
    "p = b_off b + b_size b" "b1 = b0\<lparr>b_size := b_size b + length d\<rparr>"
    using buf_write_alloc_ok [OF assms(1) w assms(3)] by blast
  then show ?thesis
    using content_extend [of b0 d] by (auto simp: b' buf_wf_def content_def)
qed

text \<open>A write that fits never throws and never reallocates.\<close>

lemma buf_write_fits:
  assumes "buf_wf b" and "b_off b + b_size b + length d \<le> b_cap b"
  shows "\<exists>b'. buf_write d b = Inr b' \<and> b_cap b' = b_cap b"
proof -
  have "\<not> length d > buf_remaining 0 b"
    using assms by (simp add: buf_remaining_eq)
  then show ?thesis by (simp add: buf_write_def buf_write_alloc_def)
qed

lemma buf_write_plain_full:
  assumes "buf_wf b" and "b_kind b = Plain" and "length d < MAX_OBJECT"
    and "b_cap b < b_off b + b_size b + length d"
  shows "buf_write d b = Inl (Buffer_exception buffer_full)"
proof -
  have "length d > buf_remaining 0 b"
    using assms by (simp add: buf_remaining_eq buf_wf_def) linarith
  moreover have "sz_add (sz_add (b_off b) (b_size b)) (length d) = b_off b + b_size b + length d"
    using assms by (simp add: buf_wf_def)
  ultimately show ?thesis
    using assms by (simp add: buf_write_def buf_write_alloc_def buf_resize_def)
qed

lemma buf_push_back_write:
  assumes "buf_wf b"
  shows "buf_push_back v b = buf_write [v] b"
proof -
  have g: "buf_remaining 0 b = 0 \<longleftrightarrow> 1 > buf_remaining 0 b" by linarith
  have "buf_wf b0 \<Longrightarrow> b_off b0 + b_size b0 + 1 \<le> b_cap b0 \<Longrightarrow>
      (b_data b0)[b_off b0 + b_size b0 := v] = blit (b_data b0) (b_off b0 + b_size b0) [v]" for b0
    by (intro list_update_blit) (simp add: buf_wf_def)
  moreover have "buf_resize (sz_add (sz_add (b_off b) (b_size b)) 1) b = Inr b0 \<Longrightarrow>
      buf_wf b0 \<and> b_off b0 + b_size b0 + 1 \<le> b_cap b0" for b0
    using buf_resize_ok [OF assms, of "sz_add (sz_add (b_off b) (b_size b)) 1" b0] assms
    by (auto simp: buf_wf_def)
  moreover have "buf_remaining 0 b \<noteq> 0 \<Longrightarrow> b_off b + b_size b + 1 \<le> b_cap b"
    using assms by (simp add: buf_remaining_eq)
  ultimately show ?thesis
    using assms
    by (cases "buf_remaining 0 b = 0";
        cases "buf_resize (sz_add (sz_add (b_off b) (b_size b)) 1) b")
      (auto simp: buf_push_back_def buf_write_def buf_write_alloc_def)
qed

lemmas buf_push_back_ok = buf_write_ok [where d = "[v]" for v, simplified]

section \<open>Prepending\<close>

lemma buf_prepend_ok:
  assumes "buf_wf b" and "length d \<le> b_off b"
  shows "\<exists>b'. buf_prepend d b = Inr b' \<and> buf_wf b' \<and> content b' = d @ content b
    \<and> b_off b' = b_off b - length d \<and> b_size b' = b_size b + length d
    \<and> b_cap b' = b_cap b \<and> b_kind b' = b_kind b"
proof -
  let ?p = "b_off b - length d"
  have len: "?p + length d \<le> length (b_data b)"
    using assms by (simp add: buf_wf_def)
  have sz: "sz_add (b_size b) (length d) = b_size b + length d"
    using assms by (simp add: buf_wf_def)
  have "slice ?p (length d + b_size b) (blit (b_data b) ?p d) = d @ content b"
    using assms len by (simp add: slice_split slice_blit_same slice_blit_after content_def)
  with assms len sz show ?thesis
    by (simp add: buf_prepend_def buf_prepend_alloc_def buf_wf_def content_def add.commute)
qed

lemma buf_prepend_full:
  "b_off b < length d \<Longrightarrow> buf_prepend d b = Inl (Buffer_exception buffer_headroom)"
  by (simp add: buf_prepend_def buf_prepend_alloc_def)

lemma buf_prepend_Inr:
  assumes "buf_wf b" and "buf_prepend d b = Inr b'"
  shows "buf_wf b' \<and> content b' = d @ content b \<and> length d \<le> b_off b
    \<and> b_off b' = b_off b - length d \<and> b_size b' = b_size b + length d
    \<and> b_cap b' = b_cap b \<and> b_kind b' = b_kind b"
proof -
  have "length d \<le> b_off b"
    using assms(2) buf_prepend_full [of b d] by (cases "b_off b < length d") auto
  with buf_prepend_ok [OF assms(1), of d] assms(2) show ?thesis by auto
qed

lemma buf_push_front_prepend:
  assumes "buf_wf b" and "b_off b \<noteq> 0"
  shows "buf_push_front v b = buf_prepend [v] b"
proof -
  have "b_off b - 1 < length (b_data b)"
    using assms by (auto simp: buf_wf_def)
  from list_update_blit [OF this] assms show ?thesis
    by (simp add: buf_push_front_def buf_prepend_def buf_prepend_alloc_def)
qed

section \<open>Consuming\<close>

lemma buf_read_alloc_wf:
  "buf_wf b \<Longrightarrow> n \<le> b_size b \<Longrightarrow>
   buf_wf (b\<lparr>b_off := b_off b + n, b_size := b_size b - n\<rparr>)"
  by (simp add: buf_wf_def)

lemma content_advance:
  "n \<le> b_size b \<Longrightarrow>
   content (b\<lparr>b_off := b_off b + n, b_size := b_size b - n\<rparr>) = drop n (content b)"
  by (simp add: content_def slice_drop_prefix)

lemma buf_read_eq:
  "buf_read n b =
     (if n \<le> b_size b
      then Inr (take n (content b), b\<lparr>b_off := b_off b + n, b_size := b_size b - n\<rparr>)
      else Inl (Buffer_exception buffer_underflow))"
  by (simp add: buf_read_def buf_read_alloc_def content_def slice_take_prefix)

lemma buf_pop_front_eq:
  assumes "buf_wf b"
  shows "buf_pop_front b =
     (if b_size b = 0 then Inl (Buffer_exception buffer_index)
      else Inr (hd (content b), b\<lparr>b_off := b_off b + 1, b_size := b_size b - 1\<rparr>))"
proof (cases "b_size b")
  case 0
  then show ?thesis by (simp add: buf_pop_front_def buf_index_def)
next
  case (Suc m)
  with assms have "content b = b_data b ! b_off b # slice (Suc (b_off b)) m (b_data b)"
    by (simp add: content_def slice_Suc buf_wf_def)
  with Suc show ?thesis by (simp add: buf_pop_front_def buf_index_def)
qed

lemma buf_pop_back_eq:
  assumes "buf_wf b"
  shows "buf_pop_back b =
     (if b_size b = 0 then Inl (Buffer_exception buffer_pop_back)
      else Inr (last (content b), b\<lparr>b_size := b_size b - 1\<rparr>))"
proof (cases "b_size b")
  case 0
  then show ?thesis by (simp add: buf_pop_back_def)
next
  case (Suc m)
  with assms have "content b = slice (b_off b) m (b_data b) @ [b_data b ! (b_off b + m)]"
    unfolding content_def by (simp add: buf_wf_def slice_snoc)
  with Suc show ?thesis by (simp add: buf_pop_back_def)
qed

lemma content_pop_back:
  "buf_wf b \<Longrightarrow> content (b\<lparr>b_size := b_size b - 1\<rparr>) = butlast (content b)"
  by (simp add: content_def butlast_conv_take slice_take_prefix buf_wf_def)

lemma buf_index_eq:
  "buf_wf b \<Longrightarrow>
   buf_index i b = (if i < b_size b then Inr (content b ! i) else Inl (Buffer_exception buffer_index))"
  by (simp add: buf_index_def content_def nth_slice buf_wf_def)

section \<open>Repositioning\<close>

lemma buf_realign_ok:
  assumes "buf_wf b" and "h + b_size b \<le> b_cap b"
  shows "\<exists>b'. buf_realign h b = Inr b' \<and> buf_wf b' \<and> content b' = content b
    \<and> b_off b' = h \<and> b_size b' = b_size b \<and> b_cap b' = b_cap b \<and> b_kind b' = b_kind b"
proof (cases "h = b_off b")
  case True
  with assms show ?thesis by (simp add: buf_realign_def)
next
  case False
  have len: "length (content b) = b_size b"
    using assms by simp
  have "slice h (b_size b) (blit (b_data b) h (content b)) = content b"
    using slice_blit_same [of h "content b" "b_data b"] assms len by (simp add: buf_wf_def)
  with False assms len show ?thesis
    by (auto simp: buf_realign_def buf_wf_def content_def)
qed

lemma buf_realign_full:
  "buf_wf b \<Longrightarrow> b_cap b < h + b_size b \<Longrightarrow> h < MAX_OBJECT \<Longrightarrow>
   buf_realign h b = Inl (Buffer_exception buffer_headroom)"
  by (auto simp: buf_realign_def buf_wf_def)

lemma buf_init_headroom_eq:
  "buf_wf b \<Longrightarrow> buf_init_headroom h b = Inr b' \<Longrightarrow>
   buf_wf b' \<and> content b' = [] \<and> b_off b' = h \<and> b_size b' = 0 \<and> b_cap b' = b_cap b
   \<and> h \<le> b_cap b \<and> b_kind b' = b_kind b"
  by (auto simp: buf_init_headroom_def buf_wf_def split: if_splits)

lemma buf_set_size_ok:
  "buf_wf b \<Longrightarrow> buf_set_size n b = Inr b' \<Longrightarrow> buf_wf b' \<and> b_size b' = n \<and> b_off b' = b_off b"
  by (auto simp: buf_set_size_def buf_max_size_eq buf_wf_def split: if_splits)

text \<open>
  \<open>reset_offset\<close> keeps the end of the window where it is; the wrapped size of an offset
  beyond the end is what its check rejects.
\<close>

lemma buf_reset_offset_eq:
  assumes "buf_wf b" and "offset < MAX_OBJECT"
  shows "buf_reset_offset offset b =
     (if offset \<le> b_off b + b_size b
      then Inr (b\<lparr>b_off := offset, b_size := b_off b + b_size b - offset\<rparr>)
      else Inl (Buffer_exception buffer_offset))"
proof (cases "offset \<le> b_off b + b_size b")
  case True
  have "sz_sub (sz_add (b_size b) (b_off b)) offset = b_off b + b_size b - offset"
    using assms True by (simp add: buf_wf_def)
  with True assms show ?thesis by (auto simp: buf_reset_offset_def buf_wf_def Let_def)
next
  case False
  have "sz_sub (b_size b + b_off b) offset = SZ - (offset - (b_size b + b_off b))"
    using assms False by (intro sz_sub_wrap) simp_all
  with False assms show ?thesis
    by (simp add: buf_reset_offset_def buf_wf_def Let_def) linarith
qed

lemma buf_reset_offset_ok:
  assumes "buf_wf b" and "offset < MAX_OBJECT" and "buf_reset_offset offset b = Inr b'"
  shows "buf_wf b' \<and> b_off b' + b_size b' = b_off b + b_size b \<and> b_off b' = offset"
  using assms by (auto simp: buf_reset_offset_eq buf_wf_def split: if_splits)

section \<open>Allocation\<close>

lemma alloc_init_ok:
  assumes "buf_wf b" and "alloc_init capacity flags b = Inr b'"
  shows "buf_wf b' \<and> b_cap b' = capacity \<and> b_off b' = 0 \<and> b_kind b' = Allocated flags
    \<and> b_size b' = (if flag_set flags ARRAY then capacity else 0)"
  using assms
  by (auto simp: alloc_init_def exn_simps new_array_Inr buf_wf_def split: if_splits)

lemma alloc_init_total:
  assumes "capacity < MAX_OBJECT"
  shows "\<exists>b'. alloc_init capacity flags b = Inr b'"
  using assms by (cases "b_cap b = capacity"; cases "capacity = 0")
    (simp_all add: alloc_init_def new_array_def)

lemma alloc_ctor_total:
  assumes "capacity < MAX_OBJECT"
  shows "\<exists>b. alloc_ctor capacity flags = Inr b \<and> buf_wf b \<and> b_cap b = capacity
    \<and> b_kind b = Allocated flags"
  using assms by (cases "capacity = 0") (simp_all add: alloc_ctor_def new_array_def buf_wf_def)

lemma buf_reset_ok:
  assumes "buf_wf b" and "buf_reset n flags b = Inr b'"
  shows "buf_wf b' \<and> n \<le> b_cap b'"
  using assms alloc_init_ok [OF assms(1)]
  by (auto simp: buf_reset_def buf_reset_impl_def split: if_splits buf_kind.splits)

lemma alloc_ctor_data_ok:
  assumes "alloc_ctor_data d flags = Inr b"
  shows "buf_wf b \<and> content b = d \<and> b_off b = 0 \<and> b_kind b = Allocated flags"
  using assms slice_blit_same [of 0 d "replicate (length d) uninit"]
  by (auto simp: alloc_ctor_data_def exn_simps new_array_Inr buf_wf_def content_def split: if_splits)

lemma alloc_copy_from_ok:
  assumes "buf_wf other" and "alloc_copy_from other flags = Inr b"
  shows "buf_wf b \<and> content b = content other \<and> b_off b = b_off other \<and> b_cap b = b_cap other"
proof -
  have "b_off other + length (content other) \<le> length (replicate (b_cap other) uninit)"
    using assms by (simp add: buf_wf_def)
  from slice_blit_same [OF this] assms show ?thesis
    by (auto simp: alloc_copy_from_def exn_simps new_array_Inr buf_wf_def content_def split: if_splits)
qed

lemma alloc_assign_ok:
  assumes "buf_wf b" and "buf_wf other" and "alloc_assign b other = Inr b'"
  shows "buf_wf b' \<and> content b' = content other"
proof -
  have "length d = b_cap other \<Longrightarrow>
      slice (b_off other) (b_size other) (blit d (b_off other) (content other)) = content other" for d
    using slice_blit_same [of "b_off other" "content other" d] assms by (simp add: buf_wf_def)
  with assms show ?thesis
    by (auto simp: alloc_assign_def exn_simps new_array_Inr buf_wf_def content_def alloc_erase_def
        Let_def split: if_splits)
qed

text \<open>
  \<open>range\<close> shows the intended bytes, clipped to the buffer.
\<close>

lemma content_range:
  assumes "buf_wf b" and "offset + len < SZ"
  shows "content (buf_range offset len b) = slice offset len (content b)"
proof -
  have "slice offset n (drop (b_off b) (b_data b)) = slice offset n (content b)"
    if "offset + n \<le> b_size b" for n
    using that by (simp add: content_def slice_def drop_take min_def)
  moreover have "slice offset len (content b) = slice offset (b_size b - offset) (content b)"
    if "b_size b < offset + len"
    using that assms by (simp add: slice_def)
  ultimately show ?thesis
    using assms by (auto simp: buf_range_def content_def Let_def)
qed

section \<open>The contract of a wire buffer\<close>

text \<open>
  What the protocol code assumes of a buffer: reads take from the front or throw, prepends
  use headroom or throw, writes extend at the end.
\<close>

locale wire_buffer =
  fixes inv :: "'b \<Rightarrow> bool"
    and bytes :: "'b \<Rightarrow> u8 list"
    and headroom :: "'b \<Rightarrow> nat"
    and rd :: "nat \<Rightarrow> 'b \<Rightarrow> (u8 list \<times> 'b) res"
    and pre :: "u8 list \<Rightarrow> 'b \<Rightarrow> 'b res"
    and wr :: "u8 list \<Rightarrow> 'b \<Rightarrow> 'b res"
  assumes rd_ok: "inv b \<Longrightarrow> n \<le> length (bytes b) \<Longrightarrow>
      \<exists>b'. rd n b = Inr (take n (bytes b), b') \<and> inv b' \<and> bytes b' = drop n (bytes b)
        \<and> headroom b' = headroom b + n"
    and rd_short: "inv b \<Longrightarrow> length (bytes b) < n \<Longrightarrow>
      rd n b = Inl (Buffer_exception buffer_underflow)"
    and pre_ok: "inv b \<Longrightarrow> length d \<le> headroom b \<Longrightarrow>
      \<exists>b'. pre d b = Inr b' \<and> inv b' \<and> bytes b' = d @ bytes b \<and> headroom b' = headroom b - length d"
    and pre_short: "inv b \<Longrightarrow> headroom b < length d \<Longrightarrow>
      pre d b = Inl (Buffer_exception buffer_headroom)"
    and wr_ok: "inv b \<Longrightarrow> length d < MAX_OBJECT \<Longrightarrow> wr d b = Inr b' \<Longrightarrow>
      inv b' \<and> bytes b' = bytes b @ d \<and> headroom b' = headroom b"
begin

lemma read_prefix:
  assumes "inv b" and "bytes b = d @ rest" and "length d = n"
  shows "\<exists>b'. rd n b = Inr (d, b') \<and> inv b' \<and> bytes b' = rest \<and> headroom b' = headroom b + n"
  using rd_ok [OF assms(1), of n] assms by auto

lemma read_cases:
  assumes "inv b"
  obtains (short) "length (bytes b) < n" "rd n b = Inl (Buffer_exception buffer_underflow)"
  | (full) b' where "n \<le> length (bytes b)" "rd n b = Inr (take n (bytes b), b')" "inv b'"
      "bytes b' = drop n (bytes b)" "headroom b' = headroom b + n"
  using rd_ok [OF assms, of n] rd_short [OF assms, of n] by (cases "length (bytes b) < n") auto

lemma prepend_then_read:
  assumes "inv b" and "length d \<le> headroom b"
  shows "\<exists>b1 b2. pre d b = Inr b1 \<and> rd (length d) b1 = Inr (d, b2) \<and> inv b2
    \<and> bytes b2 = bytes b \<and> headroom b2 = headroom b"
proof -
  obtain b1 where b1: "pre d b = Inr b1" "inv b1" "bytes b1 = d @ bytes b"
    "headroom b1 = headroom b - length d"
    using pre_ok [OF assms] by blast
  obtain b2 where "rd (length d) b1 = Inr (d, b2)" "inv b2" "bytes b2 = bytes b"
    "headroom b2 = headroom b1 + length d"
    using read_prefix [OF b1(2,3)] by blast
  with b1 assms show ?thesis by auto
qed

lemma prepend_Inr:
  assumes "inv b" and "pre d b = Inr b'"
  shows "inv b' \<and> bytes b' = d @ bytes b \<and> length d \<le> headroom b \<and> headroom b' = headroom b - length d"
  using pre_ok [OF assms(1), of d] pre_short [OF assms(1), of d] assms(2)
  by (cases "headroom b < length d") auto

end

text \<open>A fixed-width encoding of values on such a buffer.\<close>

locale wire_codec = wire_buffer +
  fixes enc :: "'v \<Rightarrow> u8 list"
    and dec :: "u8 list \<Rightarrow> 'v"
    and width :: nat
    and valid :: "'v \<Rightarrow> bool"
  assumes dec_enc: "valid x \<Longrightarrow> dec (enc x) = x"
    and length_enc: "valid x \<Longrightarrow> length (enc x) = width"
begin

lemma decode_front:
  assumes "inv b" and "bytes b = enc x @ rest" and "valid x"
  shows "\<exists>b'. bindE (rd width b) (\<lambda>(bs, b). Inr (dec bs, b)) = Inr (x, b')
    \<and> inv b' \<and> bytes b' = rest \<and> headroom b' = headroom b + width"
  using read_prefix [OF assms(1,2), of width] assms(3) by (auto simp: dec_enc length_enc)

lemma encode_front:
  assumes "inv b" and "valid x" and "width \<le> headroom b"
  shows "\<exists>b'. pre (enc x) b = Inr b' \<and> inv b' \<and> bytes b' = enc x @ bytes b
    \<and> headroom b' = headroom b - width"
  using pre_ok [OF assms(1), of "enc x"] assms by (simp add: length_enc)

lemma encode_decode:
  assumes "inv b" and "valid x" and "pre (enc x) b = Inr b1"
  shows "\<exists>b2. bindE (rd width b1) (\<lambda>(bs, b). Inr (dec bs, b)) = Inr (x, b2)
    \<and> inv b2 \<and> bytes b2 = bytes b \<and> headroom b2 = headroom b"
proof -
  have b1: "inv b1" "bytes b1 = enc x @ bytes b" "width \<le> headroom b"
    "headroom b1 = headroom b - width"
    using prepend_Inr [OF assms(1,3)] assms(2) by (auto simp: length_enc)
  from decode_front [OF b1(1,2) assms(2)] b1 show ?thesis by auto
qed

end

interpretation wire: wire_buffer buf_wf content b_off buf_read buf_prepend buf_write
proof
  show "\<exists>b'. buf_read n b = Inr (take n (content b), b') \<and> buf_wf b' \<and> content b' = drop n (content b)
      \<and> b_off b' = b_off b + n" if "buf_wf b" "n \<le> length (content b)" for b n
    using that by (simp add: buf_read_eq buf_read_alloc_wf content_advance)
  show "buf_read n b = Inl (Buffer_exception buffer_underflow)"
    if "buf_wf b" "length (content b) < n" for b n
    using that by (simp add: buf_read_eq)
  show "\<exists>b'. buf_prepend d b = Inr b' \<and> buf_wf b' \<and> content b' = d @ content b
      \<and> b_off b' = b_off b - length d" if "buf_wf b" "length d \<le> b_off b" for b d
    using buf_prepend_ok [OF that] by blast
  show "buf_prepend d b = Inl (Buffer_exception buffer_headroom)"
    if "buf_wf b" "b_off b < length d" for b d
    using that by (simp add: buf_prepend_full)
  show "buf_wf b' \<and> content b' = content b @ d \<and> b_off b' = b_off b"
    if "buf_wf b" "length d < MAX_OBJECT" "buf_write d b = Inr b'" for b d b'
    using buf_write_ok [OF that(1,3,2)] by blast
qed

text \<open>The two integer encodings of the protocol headers.\<close>

interpretation wire32: wire_codec buf_wf content b_off buf_read buf_prepend buf_write
  be32 of_be32 4 "\<lambda>_. True"
  by unfold_locales simp_all

interpretation wire16: wire_codec buf_wf content b_off buf_read buf_prepend buf_write
  be16 of_be16 2 "\<lambda>_. True"
  by unfold_locales simp_all

section \<open>Operation sequences against a byte deque\<close>

text \<open>
  \<open>buf_exec\<close> runs one public operation, returning the bytes it hands out; \<open>deque_exec\<close> is
  the specification, on the byte string alone.
\<close>

datatype buf_op =
    PushBack u8 | PushFront u8 | PopBack | PopFront
  | Write "u8 list" | Prepend "u8 list" | Read nat | Advance nat
  | Realign nat | ResetSize | Reserve nat

fun buf_exec :: "buf_op \<Rightarrow> buffer \<Rightarrow> (u8 list \<times> buffer) res" where
  "buf_exec (PushBack v) b = bindE (buf_push_back v b) (\<lambda>b. Inr ([], b))"
| "buf_exec (PushFront v) b = bindE (buf_push_front v b) (\<lambda>b. Inr ([], b))"
| "buf_exec PopBack b = bindE (buf_pop_back b) (\<lambda>(v, b). Inr ([v], b))"
| "buf_exec PopFront b = bindE (buf_pop_front b) (\<lambda>(v, b). Inr ([v], b))"
| "buf_exec (Write d) b = bindE (buf_write d b) (\<lambda>b. Inr ([], b))"
| "buf_exec (Prepend d) b = bindE (buf_prepend d b) (\<lambda>b. Inr ([], b))"
| "buf_exec (Read n) b = buf_read n b"
| "buf_exec (Advance n) b = bindE (buf_advance n b) (\<lambda>b. Inr ([], b))"
| "buf_exec (Realign h) b = bindE (buf_realign h b) (\<lambda>b. Inr ([], b))"
| "buf_exec ResetSize b = Inr ([], buf_reset_size b)"
| "buf_exec (Reserve n) b = bindE (buf_reserve n b) (\<lambda>b. Inr ([], b))"

fun deque_exec :: "buf_op \<Rightarrow> u8 list \<Rightarrow> u8 list \<times> u8 list" where
  "deque_exec (PushBack v) xs = ([], xs @ [v])"
| "deque_exec (PushFront v) xs = ([], v # xs)"
| "deque_exec PopBack xs = ([last xs], butlast xs)"
| "deque_exec PopFront xs = ([hd xs], tl xs)"
| "deque_exec (Write d) xs = ([], xs @ d)"
| "deque_exec (Prepend d) xs = ([], d @ xs)"
| "deque_exec (Read n) xs = (take n xs, drop n xs)"
| "deque_exec (Advance n) xs = ([], drop n xs)"
| "deque_exec (Realign h) xs = ([], xs)"
| "deque_exec ResetSize xs = ([], [])"
| "deque_exec (Reserve n) xs = ([], xs)"

fun op_sized :: "buf_op \<Rightarrow> bool" where
  "op_sized (Write d) \<longleftrightarrow> length d < MAX_OBJECT"
| "op_sized (Realign h) \<longleftrightarrow> h < MAX_OBJECT"
| "op_sized _ \<longleftrightarrow> True"

fun buf_run :: "buf_op list \<Rightarrow> buffer \<Rightarrow> (u8 list \<times> buffer) res" where
  "buf_run [] b = Inr ([], b)"
| "buf_run (op # ops) b =
     bindE (buf_exec op b) (\<lambda>(out, b). bindE (buf_run ops b) (\<lambda>(outs, b). Inr (out @ outs, b)))"

fun deque_run :: "buf_op list \<Rightarrow> u8 list \<Rightarrow> u8 list \<times> u8 list" where
  "deque_run [] xs = ([], xs)"
| "deque_run (op # ops) xs =
     (let (out, xs) = deque_exec op xs; (outs, xs) = deque_run ops xs in (out @ outs, xs))"

lemma buf_realign_Inr:
  assumes "buf_wf b" and "h < MAX_OBJECT" and "buf_realign h b = Inr b'"
  shows "buf_wf b' \<and> content b' = content b"
  using assms buf_realign_ok [OF assms(1), of h] buf_realign_full [OF assms(1), of h]
  by (cases "h + b_size b \<le> b_cap b") auto

lemma buf_push_front_Inr:
  "buf_wf b \<Longrightarrow> buf_push_front v b = Inr b' \<Longrightarrow> buf_wf b' \<and> content b' = v # content b"
  using buf_prepend_Inr [of b "[v]" b'] buf_push_front_prepend [of b v]
  by (cases "b_off b = 0") (auto simp: buf_push_front_def)

lemma buf_push_back_Inr:
  "buf_wf b \<Longrightarrow> buf_push_back v b = Inr b' \<Longrightarrow> buf_wf b' \<and> content b' = content b @ [v]"
  using buf_write_ok [of b "[v]" b'] by (simp add: buf_push_back_write)

lemma buf_exec_ok:
  assumes "buf_wf b" and "op_sized op" and "buf_exec op b = Inr (out, b')"
  shows "buf_wf b' \<and> deque_exec op (content b) = (out, content b')"
proof (cases op)
  case PopBack
  have "buf_wf (b\<lparr>b_size := b_size b - 1\<rparr>)"
    using assms(1) by (auto simp: buf_wf_def)
  with PopBack assms content_pop_back [OF assms(1)] show ?thesis
    by (auto simp: exn_simps buf_pop_back_eq split: if_splits)
next
  case PopFront
  with assms content_advance [of 1 b] buf_read_alloc_wf [OF assms(1), of 1] show ?thesis
    by (auto simp: exn_simps buf_pop_front_eq drop_Suc split: if_splits)
next
  case (Read n)
  with assms show ?thesis
    by (auto simp: buf_read_eq content_advance buf_read_alloc_wf split: if_splits)
next
  case (Advance n)
  with assms show ?thesis
    by (auto simp: exn_simps buf_advance_def content_advance buf_read_alloc_wf split: if_splits)
next
  case ResetSize
  with assms show ?thesis by (auto simp: buf_reset_size_def buf_wf_def)
next
  case (Reserve n)
  with assms buf_resize_ok [OF assms(1)] show ?thesis
    by (auto simp: exn_simps buf_reserve_def split: if_splits)
qed (use assms in \<open>auto simp: exn_simps dest: buf_write_ok buf_prepend_Inr buf_realign_Inr
      buf_push_front_Inr buf_push_back_Inr\<close>)

lemma buf_run_ok:
  "buf_wf b \<Longrightarrow> \<forall>op \<in> set ops. op_sized op \<Longrightarrow> buf_run ops b = Inr (out, b') \<Longrightarrow>
   buf_wf b' \<and> deque_run ops (content b) = (out, content b')"
proof (induction ops arbitrary: b out)
  case Nil
  then show ?case by simp
next
  case (Cons op ops)
  from Cons.prems(3) obtain o1 b1 o2 where "buf_exec op b = Inr (o1, b1)"
    and "buf_run ops b1 = Inr (o2, b')" and "out = o1 @ o2"
    by (auto simp: exn_simps)
  with Cons.prems Cons.IH [of b1 o2] buf_exec_ok [of b op o1 b1] show ?case by auto
qed

section \<open>Properties\<close>

text \<open>
  C1. Refinement: on a buffer that satisfies the class invariant, every sequence of public
  operations that does not throw hands out the same bytes, and leaves the same contents, as
  the operations of a plain byte deque, and re-establishes the invariant, whatever the
  buffer's class, flags, headroom and reallocations.
\<close>

theorem buf_run_refines_deque:
  assumes "buf_wf b" and "\<forall>op \<in> set ops. op_sized op" and "buf_run ops b = Inr (out, b')"
  shows "buf_wf b' \<and> deque_run ops (content b) = (out, content b')"
  using buf_run_ok [OF assms] .

definition demo_buffer :: buffer where
  "demo_buffer = \<lparr>b_data = [0, 0, 7, 8, 0], b_off = 2, b_size = 2, b_cap = 5, b_kind = Plain\<rparr>"

theorem buf_run_refines_deque_witness:
  "\<exists>b'. buf_run [PushBack 9, Prepend [5, 6], Read 3, PopBack] demo_buffer = Inr ([5, 6, 7, 9], b')
     \<and> buf_wf b' \<and> deque_run [PushBack 9, Prepend [5, 6], Read 3, PopBack] (content demo_buffer)
         = ([5, 6, 7, 9], content b')"
proof -
  let ?ops = "[PushBack 9, Prepend [5, 6], Read 3, PopBack]"
  have wf: "buf_wf demo_buffer" by (simp add: buf_wf_def demo_buffer_def)
  have run: "\<exists>b'. buf_run ?ops demo_buffer = Inr ([5, 6, 7, 9], b')"
    by (simp add: demo_buffer_def buf_push_back_def buf_remaining_def buf_prepend_def Let_def
        buf_prepend_alloc_def buf_read_def buf_read_alloc_def buf_pop_back_def blit_def slice_def)
  then obtain b' where b': "buf_run ?ops demo_buffer = Inr ([5, 6, 7, 9], b')" ..
  show ?thesis using b' buf_run_refines_deque [OF wf _ b'] by auto
qed

text \<open>
  Error behaviour of \<open>write\<close> on a buffer that cannot grow: it throws
  \<open>buffer_full\<close> exactly when the bytes do not fit behind the window, although the check in
  the code is an unsigned subtraction that wraps.
\<close>

theorem buf_write_throws_iff_no_room:
  assumes "buf_wf b" and "length d < MAX_OBJECT"
    and "b_kind b = Plain \<or> (\<exists>fl. b_kind b = Allocated fl \<and> \<not> flag_set fl GROW)"
  shows "buf_write d b = Inl (Buffer_exception buffer_full)
    \<longleftrightarrow> b_cap b < b_off b + b_size b + length d"
proof (cases "b_cap b < b_off b + b_size b + length d")
  case True
  have "length d > buf_remaining 0 b"
    using assms True by (auto simp: buf_remaining_eq buf_wf_def)
  moreover have "sz_add (sz_add (b_off b) (b_size b)) (length d) = b_off b + b_size b + length d"
    using assms by (simp add: buf_wf_def)
  ultimately show ?thesis
    using assms True
    by (auto simp: buf_write_def buf_write_alloc_def buf_resize_def alloc_resize_def Let_def)
next
  case False
  with buf_write_fits [OF assms(1), of d] show ?thesis by auto
qed

theorem buf_write_throws_iff_no_room_witness:
  "buf_write [1, 2] demo_buffer = Inl (Buffer_exception buffer_full)"
proof -
  have "buf_wf demo_buffer" "length [1, 2 :: u8] < MAX_OBJECT" "b_kind demo_buffer = Plain"
    by (simp_all add: buf_wf_def demo_buffer_def)
  then show ?thesis
    using buf_write_throws_iff_no_room [of demo_buffer "[1, 2]"] by (simp add: demo_buffer_def)
qed

text \<open>
  The buffer returned by \<open>range\<close> shows the right bytes (\<open>content_range\<close>), but for a
  non-zero offset it does not satisfy the class invariant: its capacity is the clipped
  length although its window starts at the offset.
\<close>

lemma buf_range_breaks_invariant:
  "buf_wf (buf_of_array [1, 2, 3, 4] True)
   \<and> content (buf_range 2 2 (buf_of_array [1, 2, 3, 4] True)) = [3, 4]
   \<and> \<not> buf_wf (buf_range 2 2 (buf_of_array [1, 2, 3, 4] True))"
  by (simp add: buf_wf_def buf_of_array_def buf_range_def content_def slice_def)

end
