(* ===== verification/Times.thy ===== *)
theory Times
  imports Prelude "HOL-Library.Signed_Division"
begin

text \<open>
  \<open>openvpn/time/time.hpp\<close>: \<open>TimeType<oulong>\<close> and its \<open>Duration\<close>, in binary milliseconds
  (1/1024 s) as 64-bit unsigned values, the largest one standing for infinity.  The static
  \<open>base_\<close> and the result of \<open>gettimeofday\<close> are arguments; \<open>time_t\<close> values are integers.
  The Windows clock and the floating-point views are not modelled.

  The lemmas show where the saturating operations agree with arithmetic, that infinity
  absorbs, and how far the millisecond conversions are from being inverse.
\<close>

section \<open>Duration\<close>

datatype duration = Duration (dur_raw: u64)

definition T_max :: u64 where
  "T_max = -1"

definition prec :: int where "prec = 1024"

definition dur_seconds :: "u64 \<Rightarrow> duration" where
  "dur_seconds v = Duration (v * 1024)"

definition dur_binary_ms :: "u64 \<Rightarrow> duration" where
  "dur_binary_ms v = Duration v"

definition dur_infinite :: duration where
  "dur_infinite = Duration T_max"

definition dur_milliseconds :: "u64 \<Rightarrow> duration" where
  "dur_milliseconds v = Duration (v + v * 3 div 128)"

definition dur_zero :: duration where
  "dur_zero = Duration 0"

definition dur_defined :: "duration \<Rightarrow> bool" where
  "dur_defined d \<longleftrightarrow> dur_raw d \<noteq> 0"

definition dur_is_infinite :: "duration \<Rightarrow> bool" where
  "dur_is_infinite d \<longleftrightarrow> dur_raw d = T_max"

definition dur_enabled :: "duration \<Rightarrow> bool" where
  "dur_enabled d \<longleftrightarrow> dur_defined d \<and> \<not> dur_is_infinite d"

definition dur_add :: "duration \<Rightarrow> duration \<Rightarrow> duration" where
  "dur_add a d =
     (if dur_is_infinite a \<or> dur_is_infinite d then dur_infinite
      else Duration (dur_raw a + dur_raw d))"

text \<open>Addition of a (32-bit) \<open>int\<close>, saturating at zero from above.\<close>

definition dur_add_int :: "duration \<Rightarrow> 32 word \<Rightarrow> duration" where
  "dur_add_int a delta =
     (if sint delta \<ge> 0 then Duration (dur_raw a + word_of_int (sint delta))
      else let ndelta = (- delta :: u32) in
        if dur_raw a \<ge> ucast ndelta then Duration (dur_raw a - ucast ndelta) else Duration 0)"

definition dur_mult :: "duration \<Rightarrow> u32 \<Rightarrow> duration" where
  "dur_mult a m = Duration (dur_raw a * ucast m)"

definition dur_min :: "duration \<Rightarrow> duration \<Rightarrow> duration" where
  "dur_min a d = (if dur_raw d < dur_raw a then Duration (dur_raw d) else a)"

definition dur_max :: "duration \<Rightarrow> duration \<Rightarrow> duration" where
  "dur_max a d = (if dur_raw d > dur_raw a then Duration (dur_raw d) else a)"

definition dur_sub :: "duration \<Rightarrow> duration \<Rightarrow> duration" where
  "dur_sub a d =
     (if dur_raw d \<ge> dur_raw a then Duration 0
      else if dur_is_infinite a then dur_infinite
      else Duration (dur_raw a - dur_raw d))"

text \<open>The assigning forms \<open>+=\<close> and \<open>-=\<close>.\<close>

definition dur_add_assign :: "duration \<Rightarrow> duration \<Rightarrow> duration" where
  "dur_add_assign a d =
     (if dur_is_infinite a \<or> dur_is_infinite d then Duration T_max
      else Duration (dur_raw a + dur_raw d))"

definition dur_sub_assign :: "duration \<Rightarrow> duration \<Rightarrow> duration" where
  "dur_sub_assign a d =
     (if dur_raw d \<ge> dur_raw a then Duration 0
      else if \<not> dur_is_infinite a then Duration (dur_raw a - dur_raw d) else a)"

definition dur_to_seconds :: "duration \<Rightarrow> u64" where
  "dur_to_seconds d = dur_raw d div 1024"

definition dur_to_milliseconds :: "duration \<Rightarrow> u64" where
  "dur_to_milliseconds d = dur_raw d - dur_raw d * 3 div 128"

text \<open>The relational operators of the class.\<close>

instantiation duration :: linorder
begin

definition less_eq_duration :: "duration \<Rightarrow> duration \<Rightarrow> bool" where
  "less_eq_duration a b \<longleftrightarrow> dur_raw a \<le> dur_raw b"

definition less_duration :: "duration \<Rightarrow> duration \<Rightarrow> bool" where
  "less_duration a b \<longleftrightarrow> dur_raw a < dur_raw b"

instance
  by standard (auto simp: less_eq_duration_def less_duration_def duration.expand)

end

section \<open>Time points\<close>

datatype time_pt = Time (time_raw: u64)

definition time_zero :: time_pt where
  "time_zero = Time 0"

definition time_infinite :: time_pt where
  "time_infinite = Time T_max"

definition time_from_seconds_since_epoch :: "int \<Rightarrow> int \<Rightarrow> time_pt" where
  "time_from_seconds_since_epoch base t =
     (if t \<le> base then Time 1 else Time (word_of_int ((t - base) * prec)))"

definition time_is_infinite :: "time_pt \<Rightarrow> bool" where
  "time_is_infinite t \<longleftrightarrow> time_raw t = T_max"

definition time_defined :: "time_pt \<Rightarrow> bool" where
  "time_defined t \<longleftrightarrow> time_raw t \<noteq> 0"

definition time_seconds_since_epoch :: "int \<Rightarrow> time_pt \<Rightarrow> int" where
  "time_seconds_since_epoch base t = sint (word_of_int base + time_raw t div 1024 :: u64)"

definition time_fractional_binary_ms :: "time_pt \<Rightarrow> u64" where
  "time_fractional_binary_ms t = time_raw t mod 1024"

text \<open>\<open>now_\<close>, with the outcome of \<open>gettimeofday\<close>: seconds and microseconds, or failure.\<close>

definition time_now :: "int \<Rightarrow> (int \<times> int) option \<Rightarrow> time_pt res" where
  "time_now base tv =
     (case tv of None \<Rightarrow> Inl get_time_error
      | Some (sec, usec) \<Rightarrow>
          Inr (Time (word_of_int ((sec - base) * prec + (usec * prec) sdiv 1000000))))"

definition time_add :: "time_pt \<Rightarrow> duration \<Rightarrow> time_pt" where
  "time_add t d =
     (if time_is_infinite t \<or> dur_is_infinite d then time_infinite
      else Time (time_raw t + dur_raw d))"

definition time_sub :: "time_pt \<Rightarrow> time_pt \<Rightarrow> duration" where
  "time_sub a t =
     (if time_raw t \<ge> time_raw a then Duration 0
      else if time_is_infinite a then dur_infinite
      else Duration (time_raw a - time_raw t))"

definition time_add_assign :: "time_pt \<Rightarrow> duration \<Rightarrow> time_pt" where
  "time_add_assign t d =
     (if time_is_infinite t \<or> dur_is_infinite d then Time T_max
      else Time (time_raw t + dur_raw d))"

definition time_min :: "time_pt \<Rightarrow> time_pt \<Rightarrow> time_pt" where
  "time_min a t = (if time_raw t < time_raw a then Time (time_raw t) else a)"

definition time_max :: "time_pt \<Rightarrow> time_pt \<Rightarrow> time_pt" where
  "time_max a t = (if time_raw t > time_raw a then Time (time_raw t) else a)"

text \<open>Signed differences: \<open>long\<close> is 64 bits, its division truncates.\<close>

definition time_delta_prec :: "time_pt \<Rightarrow> time_pt \<Rightarrow> int" where
  "time_delta_prec a t = sint (time_raw a - time_raw t)"

definition time_delta :: "time_pt \<Rightarrow> time_pt \<Rightarrow> int" where
  "time_delta a t = time_delta_prec a t sdiv prec"

instantiation time_pt :: linorder
begin

definition less_eq_time_pt :: "time_pt \<Rightarrow> time_pt \<Rightarrow> bool" where
  "less_eq_time_pt a b \<longleftrightarrow> time_raw a \<le> time_raw b"

definition less_time_pt :: "time_pt \<Rightarrow> time_pt \<Rightarrow> bool" where
  "less_time_pt a b \<longleftrightarrow> time_raw a < time_raw b"

instance
  by standard (auto simp: less_eq_time_pt_def less_time_pt_def time_pt.expand)

end

section \<open>Lemmas\<close>

lemma T_max_ge [simp]: "x \<le> T_max"
  by (simp add: T_max_def)

lemma dur_min_eq: "dur_min a d = min a d"
  by (cases a; cases d) (auto simp: dur_min_def min_def less_eq_duration_def)

lemma dur_max_eq: "dur_max a d = max a d"
  by (cases a; cases d) (auto simp: dur_max_def max_def less_eq_duration_def)

lemma dur_le_infinite [simp]: "d \<le> dur_infinite"
  by (simp add: less_eq_duration_def dur_infinite_def)

lemma dur_zero_le [simp]: "Duration 0 \<le> d"
  by (simp add: less_eq_duration_def)

lemma dur_add_assign_eq: "dur_add_assign a d = dur_add a d"
  by (simp add: dur_add_assign_def dur_add_def dur_infinite_def)

lemma dur_sub_assign_eq: "dur_sub_assign a d = dur_sub a d"
  by (cases a) (simp add: dur_sub_assign_def dur_sub_def dur_infinite_def dur_is_infinite_def)

lemma time_add_assign_eq: "time_add_assign t d = time_add t d"
  by (simp add: time_add_assign_def time_add_def time_infinite_def)

lemma time_sub_self [simp]: "time_sub t t = Duration 0"
  by (simp add: time_sub_def)

text \<open>A time \<open>d\<close> after \<open>t\<close> is \<open>d\<close> after \<open>t\<close>, as long as the sum does not wrap.\<close>

lemma time_add_sub_nat:
  assumes "unat (time_raw t) + unat (dur_raw d) < SZ"
    and "\<not> time_is_infinite t" and "\<not> dur_is_infinite d"
  shows "unat (time_raw (time_add t d)) = unat (time_raw t) + unat (dur_raw d)"
  using assms by (simp add: time_add_def unat_word_ariths)

lemma time_add_ge:
  assumes "unat (time_raw t) + unat (dur_raw d) < SZ"
  shows "t \<le> time_add t d"
proof (cases "time_is_infinite t \<or> dur_is_infinite d")
  case True
  then show ?thesis by (simp add: time_add_def time_infinite_def less_eq_time_pt_def)
next
  case False
  with time_add_sub_nat [OF assms] show ?thesis
    by (simp add: less_eq_time_pt_def word_le_nat_alt)
qed

lemma div128_bounds: "128 * (x div 128) \<le> (x :: nat)" "(x :: nat) < 128 * (x div 128) + 128"
  by simp_all

section \<open>Properties\<close>

text \<open>
  Bounds: \<open>to_milliseconds\<close> after \<open>milliseconds\<close> never exceeds the original value and
  loses at most 9/16384 of it plus one, for every value up to 2^60 (where neither
  multiplication wraps).
\<close>

theorem milliseconds_roundtrip_bounds:
  assumes "unat v \<le> 2 ^ 60"
  defines "w \<equiv> dur_to_milliseconds (dur_milliseconds v)"
  shows "unat w \<le> unat v \<and> 16384 * (unat v - unat w) \<le> 9 * unat v + 16384"
proof -
  define n where "n = unat v"
  define d where "d = n + n * 3 div 128"
  have n: "n \<le> 1152921504606846976" using assms by (simp add: n_def)
  have raw: "unat (dur_raw (dur_milliseconds v)) = d"
    using n by (simp add: dur_milliseconds_def d_def n_def unat_word_ariths unat_div)
  have w: "unat w = d - d * 3 div 128"
  proof -
    have "unat (dur_raw (dur_milliseconds v) * 3 div 128) = d * 3 div 128"
      using n raw by (simp add: unat_word_ariths unat_div d_def)
    then show ?thesis
      unfolding w_def dur_to_milliseconds_def using raw
      by (subst unat_sub) (auto simp: word_le_nat_alt)
  qed
  define q where "q = d * 3 div 128"
  obtain p where p: "d = n + p" "128 * p \<le> n * 3" "n * 3 < 128 * p + 128"
    using div128_bounds [of "n * 3"] d_def by blast
  have q: "128 * q \<le> d * 3" "d * 3 < 128 * q + 128"
    unfolding q_def by (rule div128_bounds)+
  have "unat w = d - q" using w by (simp add: q_def)
  with p q show ?thesis
    unfolding n_def [symmetric] by linarith
qed

theorem milliseconds_roundtrip_bounds_witness:
  "unat (dur_to_milliseconds (dur_milliseconds 10000)) \<le> unat (10000 :: u64)"
  using milliseconds_roundtrip_bounds [of 10000] by simp

end
