(* ===== verification/Frames.thy ===== *)
theory Frames
  imports Buffers
begin

text \<open>
  \<open>openvpn/frame/frame.hpp\<close>: the allocation and alignment parameters of a packet buffer
  (\<open>Frame::Context\<close>) and the table of one context per use (\<open>Frame\<close>).

  The address of the array a buffer owns comes from the allocator; where the code reads it
  (\<open>c_data_raw()\<close>) the definitions take it as an argument \<open>base\<close>.  The lemmas show that
  the computed headroom aligns the payload, and that a prepared buffer has room for the
  payload and the tailroom behind it.
\<close>

section \<open>Context\<close>

record ctx =
  f_headroom :: nat
  f_payload :: nat
  f_tailroom :: nat
  f_align_adjust :: nat
  f_align_block :: nat
  f_flags :: u32
  f_adj_headroom :: nat
  f_adj_capacity :: nat

text \<open>The default constructor leaves \<open>align_block_\<close> as it finds it: an argument.\<close>

definition ctx_default :: "nat \<Rightarrow> ctx" where
  "ctx_default align_block =
     \<lparr>f_headroom = 0, f_payload = 0, f_tailroom = 0, f_align_adjust = 0,
      f_align_block = align_block, f_flags = 0, f_adj_headroom = 0, f_adj_capacity = 0\<rparr>"

definition ctx_recalc_derived :: "ctx \<Rightarrow> ctx" where
  "ctx_recalc_derived c =
     (let ah = sz_add (f_headroom c) (f_align_block c) in
      c\<lparr>f_adj_headroom := ah,
        f_adj_capacity := sz_add (sz_add ah (f_payload c)) (f_tailroom c)\<rparr>)"

definition ctx_make :: "nat \<Rightarrow> nat \<Rightarrow> nat \<Rightarrow> nat \<Rightarrow> nat \<Rightarrow> u32 \<Rightarrow> ctx" where
  "ctx_make headroom payload tailroom align_adjust align_block buffer_flags =
     ctx_recalc_derived
       \<lparr>f_headroom = headroom, f_payload = payload, f_tailroom = tailroom,
        f_align_adjust = align_adjust, f_align_block = align_block, f_flags = buffer_flags,
        f_adj_headroom = 0, f_adj_capacity = 0\<rparr>"

definition ctx_reset_align_adjust :: "nat \<Rightarrow> ctx \<Rightarrow> ctx" where
  "ctx_reset_align_adjust align_adjust c = c\<lparr>f_align_adjust := align_adjust\<rparr>"

definition ctx_actual_headroom :: "ctx \<Rightarrow> nat \<Rightarrow> nat" where
  "ctx_actual_headroom c base =
     sz_add (f_headroom c)
       (sz_sub 0 (sz_add (sz_add base (f_headroom c)) (f_align_adjust c))
        AND sz_sub (f_align_block c) 1)"

text \<open>\<open>headroom()\<close>, \<open>capacity()\<close> are the adjusted values.\<close>

definition ctx_headroom :: "ctx \<Rightarrow> nat" where
  "ctx_headroom c = f_adj_headroom c"

definition ctx_capacity :: "ctx \<Rightarrow> nat" where
  "ctx_capacity c = f_adj_capacity c"

definition ctx_prepare :: "ctx \<Rightarrow> nat \<Rightarrow> buffer \<Rightarrow> (nat \<times> buffer) res" where
  "ctx_prepare c base b =
     bindE (buf_reset (ctx_capacity c) (f_flags c) b) (\<lambda>b.
     bindE (buf_init_headroom (ctx_actual_headroom c base) b) (\<lambda>b. Inr (f_payload c, b)))"

definition ctx_realign :: "ctx \<Rightarrow> nat \<Rightarrow> buffer \<Rightarrow> buffer res" where
  "ctx_realign c base b = buf_realign (ctx_actual_headroom c base) b"

definition ctx_copy :: "ctx \<Rightarrow> nat \<Rightarrow> u8 list \<Rightarrow> buffer res" where
  "ctx_copy c base data =
     (let cap = sz_add (sz_add (length data) (ctx_headroom c)) (f_tailroom c) in
      bindE (alloc_ctor cap (f_flags c)) (\<lambda>b.
      bindE (buf_init_headroom (ctx_actual_headroom c base) b) (buf_write data)))"

text \<open>Copy of a buffer pointer, which may be null.\<close>

definition ctx_copy_buf :: "ctx \<Rightarrow> nat \<Rightarrow> buffer option \<Rightarrow> buffer res" where
  "ctx_copy_buf c base ob =
     (let sz = (case ob of Some b \<Rightarrow> b_size b | None \<Rightarrow> 0);
          cap = sz_add (sz_add sz (ctx_headroom c)) (f_tailroom c) in
      bindE (alloc_ctor cap (f_flags c)) (\<lambda>b.
      bindE (buf_init_headroom (ctx_actual_headroom c base) b) (\<lambda>b.
        if sz \<noteq> 0 then (case ob of Some src \<Rightarrow> buf_write (content src) b | None \<Rightarrow> Inr b)
        else Inr b)))"

definition ctx_remaining_payload :: "ctx \<Rightarrow> buffer \<Rightarrow> nat" where
  "ctx_remaining_payload c b =
     (if f_payload c > b_size b then f_payload c - b_size b else 0)"

definition ctx_standardize_capacity :: "nat \<Rightarrow> ctx \<Rightarrow> ctx" where
  "ctx_standardize_capacity newcap c =
     (if newcap > f_adj_capacity c then c\<lparr>f_adj_capacity := newcap\<rparr> else c)"

section \<open>Frame\<close>

definition N_ALIGN_CONTEXTS :: nat where "N_ALIGN_CONTEXTS = 16"

type_synonym frame = "ctx list"

definition frame_set_default_context :: "ctx \<Rightarrow> frame" where
  "frame_set_default_context c = replicate N_ALIGN_CONTEXTS c"

definition frame_index :: "nat \<Rightarrow> frame \<Rightarrow> ctx res" where
  "frame_index i f = (if i \<ge> N_ALIGN_CONTEXTS then Inl frame_context_index else Inr (f ! i))"

definition frame_prepare :: "nat \<Rightarrow> nat \<Rightarrow> buffer \<Rightarrow> frame \<Rightarrow> (nat \<times> buffer) res" where
  "frame_prepare context base b f = bindE (frame_index context f) (\<lambda>c. ctx_prepare c base b)"

definition frame_prepare_new :: "nat \<Rightarrow> nat \<Rightarrow> frame \<Rightarrow> buffer res" where
  "frame_prepare_new context base f =
     bindE (frame_prepare context base alloc_default f) (\<lambda>(_, b). Inr b)"

text \<open>The two loops of \<open>standardize_capacity\<close> over the contexts and the shifted msk.\<close>

fun max_cap_loop :: "ctx list \<Rightarrow> u32 \<Rightarrow> nat \<Rightarrow> nat" where
  "max_cap_loop [] msk max_cap = max_cap"
| "max_cap_loop (c # cs) msk max_cap =
     max_cap_loop cs (drop_bit 1 msk)
       (if msk AND 1 \<noteq> 0 \<and> ctx_capacity c > max_cap then ctx_capacity c else max_cap)"

fun set_cap_loop :: "ctx list \<Rightarrow> u32 \<Rightarrow> nat \<Rightarrow> ctx list" where
  "set_cap_loop [] msk max_cap = []"
| "set_cap_loop (c # cs) msk max_cap =
     (if msk AND 1 \<noteq> 0 then ctx_standardize_capacity max_cap c else c)
     # set_cap_loop cs (drop_bit 1 msk) max_cap"

definition frame_standardize_capacity :: "u32 \<Rightarrow> frame \<Rightarrow> frame" where
  "frame_standardize_capacity context_mask f =
     set_cap_loop f context_mask (max_cap_loop f context_mask 0)"

section \<open>Alignment\<close>

text \<open>
  The parameters of a context as its constructor leaves them: a power-of-two block and
  sizes far below the address space.
\<close>

definition ctx_ok :: "nat \<Rightarrow> ctx \<Rightarrow> bool" where
  "ctx_ok k c \<longleftrightarrow> f_align_block c = 2 ^ k \<and> k < 63
     \<and> f_adj_headroom c = f_headroom c + f_align_block c
     \<and> f_adj_headroom c + f_payload c + f_tailroom c \<le> f_adj_capacity c
     \<and> f_adj_capacity c < MAX_OBJECT \<and> f_align_adjust c < MAX_OBJECT"

lemma ctx_make_ok:
  assumes "ab = 2 ^ k" and "k < 63" and "h + ab + p + t < MAX_OBJECT" and "aa < MAX_OBJECT"
  shows "ctx_ok k (ctx_make h p t aa ab fl)"
  using assms by (simp add: ctx_ok_def ctx_make_def ctx_recalc_derived_def Let_def)

lemma and_block:
  assumes "k < 63"
  shows "x AND sz_sub (2 ^ k) 1 = (x :: nat) mod 2 ^ k"
proof -
  have "(2 :: nat) ^ k < 2 ^ 63"
    using assms by (rule power_strict_increasing) simp
  then have "sz_sub (2 ^ k) 1 = mask k"
    by (simp add: mask_eq_exp_minus_1)
  then show ?thesis by (simp add: take_bit_eq_mask [symmetric] take_bit_eq_mod)
qed

lemma sz_neg_mod:
  assumes "k < 63"
  shows "(sz_sub 0 x + x) mod 2 ^ k = 0"
proof -
  have dvd: "(2 :: nat) ^ k dvd SZ"
    using le_imp_power_dvd [of k 64 "2 :: nat"] assms by simp
  have "(sz_sub 0 x + x) mod SZ = ((SZ - x mod SZ) mod SZ + x) mod SZ"
    by (simp add: sz_sub_def)
  also have "\<dots> = ((SZ - x mod SZ) + x mod SZ) mod SZ"
    by presburger
  also have "\<dots> = 0"
    by (simp add: le_less)
  finally have "SZ dvd sz_sub 0 x + x" by presburger
  with dvd show ?thesis by (meson dvd_imp_mod_0 dvd_trans)
qed

lemma sz_add_mod:
  assumes "k < 63"
  shows "sz_add a b mod 2 ^ k = (a + b) mod 2 ^ k"
  using le_imp_power_dvd [of k 64 "2 :: nat"] assms by (simp add: sz_add_def mod_mod_cancel)

lemma ctx_actual_headroom_eq:
  assumes "ctx_ok k c"
  shows "ctx_actual_headroom c base = f_headroom c
    + sz_sub 0 (sz_add (sz_add base (f_headroom c)) (f_align_adjust c)) mod 2 ^ k"
proof -
  from assms have k: "k < 63" and lt: "f_headroom c + 2 ^ k < MAX_OBJECT"
    by (auto simp: ctx_ok_def)
  let ?r = "sz_sub 0 (sz_add (sz_add base (f_headroom c)) (f_align_adjust c)) mod 2 ^ k"
  have "?r < 2 ^ k" by simp
  with lt have "f_headroom c + ?r < SZ" by linarith
  moreover have "f_align_block c = 2 ^ k" using assms by (simp add: ctx_ok_def)
  ultimately show ?thesis
    unfolding ctx_actual_headroom_def by (simp only: and_block [OF k] sz_add_small)
qed

lemma ctx_actual_headroom_bounds:
  assumes "ctx_ok k c"
  shows "f_headroom c \<le> ctx_actual_headroom c base"
    and "ctx_actual_headroom c base < f_adj_headroom c"
  using assms by (simp_all add: ctx_actual_headroom_eq) (simp add: ctx_ok_def)

lemma ctx_actual_headroom_aligned:
  assumes "ctx_ok k c"
  shows "(base + ctx_actual_headroom c base + f_align_adjust c) mod 2 ^ k = 0"
proof -
  from assms have k: "k < 63" by (simp add: ctx_ok_def)
  let ?x = "sz_add (sz_add base (f_headroom c)) (f_align_adjust c)"
  have x: "?x mod 2 ^ k = (base + f_headroom c + f_align_adjust c) mod 2 ^ k"
    using k by (metis (no_types, lifting) mod_add_left_eq sz_add_mod)
  have "(base + ctx_actual_headroom c base + f_align_adjust c) mod 2 ^ k
      = (sz_sub 0 ?x mod 2 ^ k + (base + f_headroom c + f_align_adjust c)) mod 2 ^ k"
    by (simp add: ctx_actual_headroom_eq [OF assms] ac_simps)
  also have "\<dots> = (sz_sub 0 ?x mod 2 ^ k + ?x mod 2 ^ k) mod 2 ^ k"
    using x by (metis mod_add_right_eq)
  also have "\<dots> = (sz_sub 0 ?x + ?x) mod 2 ^ k"
    by (rule mod_add_eq)
  also have "\<dots> = 0"
    using k by (rule sz_neg_mod)
  finally show ?thesis .
qed

lemma ctx_prepare_ok:
  assumes "ctx_ok k c" and "buf_wf b" and "b_kind b \<noteq> Plain"
  shows "\<exists>b'. ctx_prepare c base b = Inr (f_payload c, b') \<and> buf_wf b' \<and> content b' = []
    \<and> b_off b' = ctx_actual_headroom c base \<and> b_size b' = 0 \<and> f_adj_capacity c \<le> b_cap b'
    \<and> b_kind b' \<noteq> Plain"
proof -
  from assms(1) have cap: "f_adj_capacity c < MAX_OBJECT" by (simp add: ctx_ok_def)
  obtain b0 where b0: "buf_reset (ctx_capacity c) (f_flags c) b = Inr b0" "b_kind b0 \<noteq> Plain"
    using assms(3) alloc_init_total [OF cap, of "f_flags c" b] alloc_init_ok [OF assms(2)]
    by (cases "b_kind b"; cases "b_cap b < f_adj_capacity c")
      (auto simp: buf_reset_def buf_reset_impl_def ctx_capacity_def)
  with buf_reset_ok [OF assms(2)] have wf0: "buf_wf b0" and cap0: "f_adj_capacity c \<le> b_cap b0"
    by (auto simp: ctx_capacity_def)
  have "ctx_actual_headroom c base \<le> b_cap b0"
    using ctx_actual_headroom_bounds(2) [OF assms(1), of base] assms(1) cap0
    by (simp add: ctx_ok_def)
  with b0 wf0 cap0 show ?thesis
    by (simp add: ctx_prepare_def buf_init_headroom_def buf_wf_def)
qed

lemma ctx_copy_ok:
  assumes "ctx_ok k c" and "length data + f_adj_headroom c + f_tailroom c < MAX_OBJECT"
  shows "\<exists>b. ctx_copy c base data = Inr b \<and> buf_wf b \<and> content b = data
    \<and> b_off b = ctx_actual_headroom c base"
proof -
  let ?cap = "length data + f_adj_headroom c + f_tailroom c"
  have cap: "sz_add (sz_add (length data) (ctx_headroom c)) (f_tailroom c) = ?cap"
    using assms(2) by (simp add: ctx_headroom_def)
  obtain b0 where b0: "alloc_ctor ?cap (f_flags c) = Inr b0" "buf_wf b0" "b_cap b0 = ?cap"
    using alloc_ctor_total [OF assms(2), of "f_flags c"] by blast
  have h: "ctx_actual_headroom c base + length data \<le> ?cap"
    using ctx_actual_headroom_bounds(2) [OF assms(1), of base] by simp
  let ?b1 = "b0\<lparr>b_off := ctx_actual_headroom c base, b_size := 0\<rparr>"
  have b1: "buf_init_headroom (ctx_actual_headroom c base) b0 = Inr ?b1" "buf_wf ?b1"
    using h b0 by (auto simp: buf_init_headroom_def buf_wf_def)
  obtain b where b: "buf_write data ?b1 = Inr b"
    using buf_write_fits [OF b1(2), of data] h b0 by auto
  have "ctx_copy c base data = Inr b"
    unfolding ctx_copy_def Let_def cap using b0 b1 b by simp
  with buf_write_ok [OF b1(2) b] assms(2) show ?thesis by simp
qed

section \<open>Capacity groups\<close>

lemma set_cap_loop_length [simp]: "length (set_cap_loop cs m x) = length cs"
  by (induction cs m x rule: set_cap_loop.induct) auto

lemma max_cap_loop_ge:
  "mx \<le> max_cap_loop cs m mx \<and>
   (\<forall>i < length cs. bit m i \<longrightarrow> f_adj_capacity (cs ! i) \<le> max_cap_loop cs m mx)"
proof (induction cs m mx rule: max_cap_loop.induct)
  case (1 m mx)
  then show ?case by simp
next
  case (2 c cs m mx)
  let ?mx = "if m AND 1 \<noteq> 0 \<and> ctx_capacity c > mx then ctx_capacity c else mx"
  have le: "mx \<le> ?mx" "?mx \<le> max_cap_loop cs (drop_bit 1 m) ?mx"
    using "2.IH" by auto
  have hd: "f_adj_capacity c \<le> ?mx" if "bit m 0"
    using that by (auto simp: ctx_capacity_def and_one_eq bit_0 odd_iff_mod_2_eq_one)
  have "f_adj_capacity ((c # cs) ! i) \<le> max_cap_loop cs (drop_bit 1 m) ?mx"
    if "i < length (c # cs)" "bit m i" for i
  proof (cases i)
    case 0
    with that hd le show ?thesis by simp
  next
    case (Suc j)
    with that "2.IH" show ?thesis by (simp add: bit_drop_bit_eq)
  qed
  with le show ?case by simp
qed

lemma max_cap_loop_attained:
  "max_cap_loop cs m mx = mx \<or>
   (\<exists>i < length cs. bit m i \<and> max_cap_loop cs m mx = f_adj_capacity (cs ! i))"
proof (induction cs m mx rule: max_cap_loop.induct)
  case (1 m mx)
  then show ?case by simp
next
  case (2 c cs m mx)
  let ?mx = "if m AND 1 \<noteq> 0 \<and> ctx_capacity c > mx then ctx_capacity c else mx"
  show ?case
  proof (cases "max_cap_loop cs (drop_bit 1 m) ?mx = ?mx")
    case True
    then show ?thesis
      by (auto simp: ctx_capacity_def and_one_eq bit_0 odd_iff_mod_2_eq_one)
  next
    case False
    with "2.IH" obtain j where "j < length cs" "bit m (Suc j)"
      "max_cap_loop cs (drop_bit 1 m) ?mx = f_adj_capacity (cs ! j)"
      by (auto simp: bit_drop_bit_eq)
    then show ?thesis by (intro disjI2 exI [of _ "Suc j"]) simp
  qed
qed

lemma set_cap_loop_nth:
  "i < length cs \<Longrightarrow> set_cap_loop cs m x ! i =
     (if bit m i then ctx_standardize_capacity x (cs ! i) else cs ! i)"
proof (induction cs m x arbitrary: i rule: set_cap_loop.induct)
  case (1 m x)
  then show ?case by simp
next
  case (2 c cs m x)
  then show ?case
    by (cases i) (auto simp: bit_drop_bit_eq and_one_eq bit_0 odd_iff_mod_2_eq_one)
qed

section \<open>Properties\<close>

text \<open>
  C4. Bounds and alignment: for every context with a power-of-two alignment block, a
  prepared allocated buffer starts between the requested headroom and one block more, the
  byte \<open>align_adjust\<close> positions after its start is aligned, and the payload and the
  tailroom fit behind it without reallocation.
\<close>

theorem prepared_buffer_aligned_with_room:
  assumes "ctx_ok k c" and "buf_wf b" and "b_kind b \<noteq> Plain"
  shows "\<exists>b'. ctx_prepare c base b = Inr (f_payload c, b') \<and> buf_wf b' \<and> content b' = []
    \<and> f_headroom c \<le> b_off b' \<and> b_off b' < f_headroom c + 2 ^ k
    \<and> (base + b_off b' + f_align_adjust c) mod 2 ^ k = 0
    \<and> f_payload c + f_tailroom c \<le> buf_remaining 0 b'"
proof -
  obtain b' where b': "ctx_prepare c base b = Inr (f_payload c, b')" "buf_wf b'" "content b' = []"
    "b_off b' = ctx_actual_headroom c base" "b_size b' = 0" "f_adj_capacity c \<le> b_cap b'"
    using ctx_prepare_ok [OF assms] by blast
  have room: "f_payload c + f_tailroom c \<le> b_cap b' - b_off b'"
    using ctx_actual_headroom_bounds(2) [OF assms(1), of base] assms(1) b'
    by (auto simp: ctx_ok_def)
  show ?thesis
    using b' room ctx_actual_headroom_bounds [OF assms(1), of base]
      ctx_actual_headroom_aligned [OF assms(1), of base] assms(1)
    by (auto simp: buf_remaining_eq ctx_ok_def)
qed

theorem prepared_buffer_aligned_with_room_witness:
  "\<exists>b'. ctx_prepare (ctx_make 512 2048 512 1 16 0) 1000 alloc_default = Inr (2048, b')
     \<and> (1000 + b_off b' + 1) mod 16 = 0"
proof -
  have "ctx_ok 4 (ctx_make 512 2048 512 1 16 0)"
    by (rule ctx_make_ok) simp_all
  moreover have "b_kind alloc_default \<noteq> Plain" by (simp add: alloc_default_def)
  ultimately have "\<exists>b'. ctx_prepare (ctx_make 512 2048 512 1 16 0) 1000 alloc_default
        = Inr (f_payload (ctx_make 512 2048 512 1 16 0), b')
      \<and> (1000 + b_off b' + f_align_adjust (ctx_make 512 2048 512 1 16 0)) mod 2 ^ 4 = 0"
    using prepared_buffer_aligned_with_room [of 4 _ alloc_default 1000] by fastforce
  then show ?thesis
    by (simp add: ctx_make_def ctx_recalc_derived_def Let_def)
qed

text \<open>
  \<open>standardize_capacity\<close> gives every context of the mask the largest capacity
  among them, and changes nothing else.
\<close>

theorem standardize_capacity_equalises:
  assumes "i < length f" and "bit msk i"
  shows "(\<forall>j < length f. bit msk j \<longrightarrow>
      f_adj_capacity (frame_standardize_capacity msk f ! j)
        = f_adj_capacity (frame_standardize_capacity msk f ! i)
      \<and> f_adj_capacity (f ! j) \<le> f_adj_capacity (frame_standardize_capacity msk f ! i))
    \<and> (\<exists>j < length f. bit msk j
      \<and> f_adj_capacity (frame_standardize_capacity msk f ! i) = f_adj_capacity (f ! j))
    \<and> (\<forall>j < length f. \<not> bit msk j \<longrightarrow> frame_standardize_capacity msk f ! j = f ! j)"
proof -
  define mx where "mx = max_cap_loop f msk 0"
  have ge: "f_adj_capacity (f ! j) \<le> mx" if "j < length f" "bit msk j" for j
    using max_cap_loop_ge [of 0 f msk] that mx_def by simp
  have cap: "f_adj_capacity (frame_standardize_capacity msk f ! j) = mx"
    if "j < length f" "bit msk j" for j
    using that ge [OF that]
    by (simp add: frame_standardize_capacity_def set_cap_loop_nth ctx_standardize_capacity_def
        mx_def [symmetric])
  have "\<exists>j < length f. bit msk j \<and> mx = f_adj_capacity (f ! j)"
    using max_cap_loop_attained [of f msk 0] ge [OF assms] assms by (auto simp: mx_def)
  with cap ge assms show ?thesis
    by (simp add: frame_standardize_capacity_def set_cap_loop_nth)
qed

theorem standardize_capacity_equalises_witness:
  "f_adj_capacity (frame_standardize_capacity 3
      [ctx_make 8 100 0 0 16 0, ctx_make 8 200 0 0 16 0] ! 0) = 224"
proof -
  let ?f = "[ctx_make 8 100 0 0 16 0, ctx_make 8 200 0 0 16 0]"
  have h: "0 < length ?f" "bit (3 :: u32) 0" by simp_all
  have "f_adj_capacity (?f ! 1) = 224" "f_adj_capacity (?f ! 0) = 124"
    by (simp_all add: ctx_make_def ctx_recalc_derived_def Let_def)
  moreover have "bit (3 :: u32) 1" by (simp add: bit_numeral_rec)
  ultimately show ?thesis
    using standardize_capacity_equalises [OF h] by (auto simp: less_Suc_eq)
qed

end
