(* ===== verification/PacketId.thy ===== *)
theory PacketId
  imports Buffers
begin

text \<open>
  \<open>openvpn/crypto/packet_id.hpp\<close>: packet IDs on the wire, the sender's counter and the
  receiver's replay window, for the parameters of \<open>PacketIDReceive\<close> (a window of 2048
  bits, expiry of 30 seconds).  \<open>time_t\<close> values are integers, IDs are 32-bit words.

  The receiver's state is the code's, down to the bytes of \<open>history\<close>.  The abstraction
  used in the proofs is the set of packet IDs accepted so far; \<open>pidr_inv\<close> ties the bitmap to
  it, and the verdict of \<open>do_test_add\<close> is characterised by \<open>pidr_verdict\<close>, which looks at that
  set and not at the bitmap.
\<close>

section \<open>Packet IDs on the wire\<close>

record packet_id =
  p_id :: u32
  p_time :: int

definition SHORT_FORM :: int where "SHORT_FORM = 0"
definition LONG_FORM :: int where "LONG_FORM = 1"

definition pid_size :: "int \<Rightarrow> nat" where
  "pid_size form = (if form = LONG_FORM then 8 else 4)"

definition pid_is_valid :: "packet_id \<Rightarrow> bool" where
  "pid_is_valid p \<longleftrightarrow> p_id p \<noteq> 0"

definition pid_reset :: "packet_id" where
  "pid_reset = \<lparr>p_id = 0, p_time = 0\<rparr>"

definition pid_read :: "int \<Rightarrow> buffer \<Rightarrow> (packet_id \<times> buffer) res" where
  "pid_read form b =
     bindE (bindE (buf_read 4 b) (\<lambda>(bs, b). Inr (of_be32 bs, b))) (\<lambda>(i, b).
       if form = LONG_FORM
       then bindE (bindE (buf_read 4 b) (\<lambda>(bs, b). Inr (of_be32 bs, b))) (\<lambda>(t, b).
              Inr (\<lparr>p_id = i, p_time = uint t\<rparr>, b))
       else Inr (\<lparr>p_id = i, p_time = 0\<rparr>, b))"

definition pid_write :: "packet_id \<Rightarrow> int \<Rightarrow> bool \<Rightarrow> buffer \<Rightarrow> buffer res" where
  "pid_write p form prepend b =
     (let net_id = be32 (p_id p); net_time = be32 (word_of_int (p_time p)) in
      if prepend then
        bindE (if form = LONG_FORM then buf_prepend net_time b else Inr b) (buf_prepend net_id)
      else
        bindE (buf_write net_id b) (\<lambda>b.
          if form = LONG_FORM then buf_write net_time b else Inr b))"

definition pid_construct :: "int \<Rightarrow> u32 \<Rightarrow> packet_id" where
  "pid_construct v_time v_id = \<lparr>p_id = v_id, p_time = v_time\<rparr>"

section \<open>Sender\<close>

record pid_send =
  s_pid :: packet_id
  s_form :: int

definition pids_init :: "int \<Rightarrow> pid_send" where
  "pids_init form = \<lparr>s_pid = \<lparr>p_id = 0, p_time = 0\<rparr>, s_form = form\<rparr>"

definition pids_default :: pid_send where
  "pids_default = pids_init SHORT_FORM"

text \<open>\<open>next\<close> returns the state also when it throws: the counter has been stepped by then.\<close>

definition pids_next :: "int \<Rightarrow> pid_send \<Rightarrow> packet_id res \<times> pid_send" where
  "pids_next now s =
     (let pid = s_pid s;
          pid = (if p_time pid = 0 then pid\<lparr>p_time := now\<rparr> else pid);
          pid = pid\<lparr>p_id := p_id pid + 1\<rparr> in
      if p_id pid = 0 then
        (if s_form s \<noteq> LONG_FORM then (Inl packet_id_wrap, s\<lparr>s_pid := pid\<rparr>)
         else let pid = \<lparr>p_id = 1, p_time = now\<rparr> in (Inr pid, s\<lparr>s_pid := pid\<rparr>))
      else (Inr \<lparr>p_id = p_id pid, p_time = p_time pid\<rparr>, s\<lparr>s_pid := pid\<rparr>))"

definition pids_write_next :: "bool \<Rightarrow> int \<Rightarrow> buffer \<Rightarrow> pid_send \<Rightarrow> buffer res \<times> pid_send" where
  "pids_write_next prepend now b s =
     (let (r, s') = pids_next now s in
      (bindE r (\<lambda>pid. pid_write pid (s_form s) prepend b), s'))"

definition pids_wrap_warning :: "pid_send \<Rightarrow> bool" where
  "pids_wrap_warning s \<longleftrightarrow> p_id (s_pid s) \<ge> 0xFF000000"

section \<open>Receiver\<close>

text \<open>The values of \<open>Error::Type\<close> that \<open>do_test_add\<close> returns.\<close>

datatype pkt_err =
    SUCCESS
  | PKTID_INVALID
  | PKTID_BACKTRACK
  | PKTID_EXPIRE
  | PKTID_REPLAY
  | PKTID_TIME_BACKTRACK

definition REPLAY_WINDOW_BYTES :: nat where "REPLAY_WINDOW_BYTES = 256"
definition REPLAY_WINDOW_SIZE :: u32 where "REPLAY_WINDOW_SIZE = 2048"
definition PKTID_RECV_EXPIRE :: int where "PKTID_RECV_EXPIRE = 30"

record pid_recv =
  r_initialized :: bool
  r_base :: u32
  r_extent :: u32
  r_expire :: int
  r_id_high :: u32
  r_time_high :: int
  r_id_floor :: u32
  r_max_backtrack :: u32
  r_mode :: int
  r_form :: int
  r_unit :: int
  r_name :: string
  r_history :: "u8 list"

definition pidr_init :: "int \<Rightarrow> int \<Rightarrow> string \<Rightarrow> int \<Rightarrow> pid_recv" where
  "pidr_init mode form name unit =
     \<lparr>r_initialized = True, r_base = 0, r_extent = 0, r_expire = 0, r_id_high = 0,
      r_time_high = 0, r_id_floor = 0, r_max_backtrack = 0, r_mode = mode, r_form = form,
      r_unit = unit, r_name = name, r_history = replicate REPLAY_WINDOW_BYTES 0\<rparr>"

definition REPLAY_INDEX :: "u32 \<Rightarrow> u32 \<Rightarrow> u32" where
  "REPLAY_INDEX base i = (base + i) AND (REPLAY_WINDOW_SIZE - 1)"

text \<open>\<open>history[i / 8] |= 1 << (i % 8)\<close>, its complement and the test.\<close>

definition hist_set :: "u32 \<Rightarrow> u8 list \<Rightarrow> u8 list" where
  "hist_set i h = (let j = unat (i div 8) in h[j := h ! j OR push_bit (unat (i mod 8)) 1])"

definition hist_clear :: "u32 \<Rightarrow> u8 list \<Rightarrow> u8 list" where
  "hist_clear i h = (let j = unat (i div 8) in h[j := h ! j AND NOT (push_bit (unat (i mod 8)) 1)])"

definition hist_test :: "u32 \<Rightarrow> u8 list \<Rightarrow> bool" where
  "hist_test i h \<longleftrightarrow> h ! unat (i div 8) AND push_bit (unat (i mod 8)) 1 \<noteq> 0"

text \<open>\<open>for (unsigned i = 1; i < delta; ++i)\<close> clearing the skipped positions.\<close>

function clear_loop :: "u32 \<Rightarrow> u32 \<Rightarrow> u32 \<Rightarrow> u8 list \<Rightarrow> u8 list" where
  "clear_loop base i delta h =
     (if i < delta then clear_loop base (i + 1) delta (hist_clear (REPLAY_INDEX base i) h) else h)"
  by pat_completeness auto
termination
  by (relation "measure (\<lambda>(base, i, delta, h). unat delta - unat i)")
    (auto simp: word_less_nat_alt unat_plus_one)

declare clear_loop.simps [simp del]

text \<open>The three branches on the ID: successor, jump forward, backtrack.\<close>

definition pidr_successor :: "packet_id \<Rightarrow> bool \<Rightarrow> pid_recv \<Rightarrow> pkt_err \<times> pid_recv" where
  "pidr_successor pin md s =
     (if \<not> md then (SUCCESS, s)
      else let base = REPLAY_INDEX (r_base s) (-1) in
        (SUCCESS, s\<lparr>r_base := base, r_history := hist_set base (r_history s),
                    r_extent := (if r_extent s < REPLAY_WINDOW_SIZE then r_extent s + 1
                                 else r_extent s),
                    r_id_high := p_id pin\<rparr>))"

definition pidr_jump :: "packet_id \<Rightarrow> bool \<Rightarrow> pid_recv \<Rightarrow> pkt_err \<times> pid_recv" where
  "pidr_jump pin md s =
     (if \<not> md then (SUCCESS, s)
      else let delta = p_id pin - r_id_high s in
        if delta < REPLAY_WINDOW_SIZE then
          (let base = REPLAY_INDEX (r_base s) (- delta);
               h = hist_set base (r_history s);
               extent = r_extent s + delta;
               extent = (if extent > REPLAY_WINDOW_SIZE then REPLAY_WINDOW_SIZE else extent) in
           (SUCCESS, s\<lparr>r_base := base, r_history := clear_loop base 1 delta h,
                       r_extent := extent, r_id_high := p_id pin\<rparr>))
        else
          (SUCCESS, s\<lparr>r_base := 0, r_extent := REPLAY_WINDOW_SIZE,
                      r_history := (replicate REPLAY_WINDOW_BYTES 0)[0 := 1],
                      r_id_high := p_id pin\<rparr>))"

definition pidr_backtrack :: "packet_id \<Rightarrow> bool \<Rightarrow> pid_recv \<Rightarrow> pkt_err \<times> pid_recv" where
  "pidr_backtrack pin md s =
     (let delta = r_id_high s - p_id pin;
          s = (if delta > r_max_backtrack s then s\<lparr>r_max_backtrack := delta\<rparr> else s) in
      if delta < r_extent s then
        (if p_id pin > r_id_floor s then
           (let ri = REPLAY_INDEX (r_base s) delta in
            if hist_test ri (r_history s) then (PKTID_REPLAY, s)
            else if \<not> md then (SUCCESS, s)
            else (SUCCESS, s\<lparr>r_history := hist_set ri (r_history s)\<rparr>))
         else (PKTID_EXPIRE, s))
      else (PKTID_BACKTRACK, s))"

definition pidr_check_id :: "packet_id \<Rightarrow> bool \<Rightarrow> pid_recv \<Rightarrow> pkt_err \<times> pid_recv" where
  "pidr_check_id pin md s =
     (if p_id pin = r_id_high s + 1 then pidr_successor pin md s
      else if p_id pin > r_id_high s then pidr_jump pin md s
      else pidr_backtrack pin md s)"

text \<open>The time-out of old backtracks and the check of the ID's time.\<close>

definition pidr_expire :: "int \<Rightarrow> pid_recv \<Rightarrow> pid_recv" where
  "pidr_expire now s =
     (if now \<ge> r_expire s then s\<lparr>r_id_floor := r_id_high s\<rparr> else s)
       \<lparr>r_expire := now + PKTID_RECV_EXPIRE\<rparr>"

definition pidr_new_time :: "int \<Rightarrow> pid_recv \<Rightarrow> pid_recv" where
  "pidr_new_time t s =
     s\<lparr>r_base := 0, r_extent := 0, r_id_high := 0, r_time_high := t, r_id_floor := 0\<rparr>"

definition pidr_do_test_add :: "packet_id \<Rightarrow> int \<Rightarrow> bool \<Rightarrow> pid_recv \<Rightarrow> (pkt_err \<times> pid_recv) res" where
  "pidr_do_test_add pin now md s =
     (if \<not> r_initialized s then Inl packet_id_not_initialized
      else let s = pidr_expire now s in
        Inr (if \<not> pid_is_valid pin then (PKTID_INVALID, s)
             else if p_time pin \<noteq> r_time_high s then
               (if p_time pin > r_time_high s then
                  (if \<not> md then (SUCCESS, s)
                   else pidr_check_id pin md (pidr_new_time (p_time pin) s))
                else (PKTID_TIME_BACKTRACK, s))
             else pidr_check_id pin md s))"

text \<open>\<open>test_add\<close>, with the error it reports to the session statistics.\<close>

definition pidr_test_add ::
    "packet_id \<Rightarrow> int \<Rightarrow> bool \<Rightarrow> pid_recv \<Rightarrow> (bool \<times> pkt_err option \<times> pid_recv) res" where
  "pidr_test_add pin now md s =
     bindE (pidr_do_test_add pin now md s) (\<lambda>(err, s).
       Inr (if err \<noteq> SUCCESS then (False, Some err, s) else (True, None, s)))"

definition pidr_read_next :: "buffer \<Rightarrow> pid_recv \<Rightarrow> (packet_id \<times> buffer) res" where
  "pidr_read_next b s =
     (if \<not> r_initialized s then Inl packet_id_not_initialized else pid_read (r_form s) b)"

section \<open>The bitmap\<close>

text \<open>\<open>hb h j\<close>: bit \<open>j\<close> of the history bytes.\<close>

definition hb :: "u8 list \<Rightarrow> nat \<Rightarrow> bool" where
  "hb h j \<longleftrightarrow> bit (h ! (j div 8)) (j mod 8)"

lemma unat_add_mod_2048: "unat (x + y :: u32) mod 2048 = (unat x + unat y) mod 2048"
  by (simp add: unat_word_ariths mod_mod_cancel)

lemma unat_REPLAY_INDEX: "unat (REPLAY_INDEX b i) = unat (b + i) mod 2048"
proof -
  have "(b + i) AND (REPLAY_WINDOW_SIZE - 1) = take_bit 11 (b + i)"
    by (simp add: REPLAY_WINDOW_SIZE_def take_bit_eq_mask mask_eq_exp_minus_1)
  then show ?thesis
    by (simp add: REPLAY_INDEX_def unsigned_take_bit_eq take_bit_eq_mod unat_mod)
qed

lemma unat_REPLAY_INDEX_less [simp]: "unat (REPLAY_INDEX b i) < 2048"
  by (simp add: unat_REPLAY_INDEX)

lemma unat_REPLAY_INDEX_plus: "unat (REPLAY_INDEX b i) = (unat b + unat i) mod 2048"
  by (simp add: unat_REPLAY_INDEX unat_add_mod_2048)

text \<open>Moving the base back by \<open>d\<close> shifts every position up by \<open>d\<close>.\<close>

lemma REPLAY_INDEX_back:
  assumes "unat d \<le> k"
  shows "(unat (REPLAY_INDEX b (- d)) + k) mod 2048 = (unat b + (k - unat d)) mod 2048"
proof -
  have "(unat (b + - d) mod 2048 + unat d) mod 2048 = unat b mod 2048"
    using unat_add_mod_2048 [of "b + - d" d] by (simp add: mod_add_left_eq)
  then have "(unat (b + - d) mod 2048 + unat d + (k - unat d)) mod 2048
      = (unat b + (k - unat d)) mod 2048"
    by (metis mod_add_left_eq)
  with assms show ?thesis by (simp add: unat_REPLAY_INDEX)
qed

lemma window_pos_inj:
  assumes "k < 2048" and "l < 2048"
  shows "((a :: nat) + k) mod 2048 = (a + l) mod 2048 \<longleftrightarrow> k = l"
proof
  assume "(a + k) mod 2048 = (a + l) mod 2048"
  then have "int ((a + k) mod 2048) = int ((a + l) mod 2048)" by simp
  then have "(int a + int k) mod 2048 = (int a + int l) mod 2048"
    by (simp add: zmod_int)
  then have "2048 dvd int k - int l"
    by (simp add: mod_eq_dvd_iff)
  moreover have "\<bar>int k - int l\<bar> < 2048"
    using assms by linarith
  ultimately have "int k - int l = 0"
    using dvd_imp_le_int [of "int k - int l" 2048] by force
  then show "k = l" by simp
qed simp

lemma length_hist_set [simp]: "length (hist_set i h) = length h"
  by (simp add: hist_set_def Let_def)

lemma length_hist_clear [simp]: "length (hist_clear i h) = length h"
  by (simp add: hist_clear_def Let_def)

lemma hist_test_eq: "hist_test i h = hb h (unat i)"
  by (simp add: hist_test_def hb_def bit_iff_and_push_bit_not_eq_0 unat_div unat_mod)

lemma div_mod_8_eq: "(j :: nat) div 8 = i div 8 \<Longrightarrow> j mod 8 = i mod 8 \<Longrightarrow> j = i"
  by (metis div_mult_mod_eq)

lemma hb_set:
  assumes "length h = 256" and "unat i < 2048"
  shows "hb (hist_set i h) j \<longleftrightarrow> j = unat i \<or> hb h j"
  using assms div_mod_8_eq [of j "unat i"]
  by (auto simp: hb_def hist_set_def Let_def nth_list_update unat_div unat_mod bit_simps)

lemma hb_clear:
  assumes "length h = 256" and "unat i < 2048"
  shows "hb (hist_clear i h) j \<longleftrightarrow> j \<noteq> unat i \<and> hb h j"
  using assms div_mod_8_eq [of j "unat i"]
  by (auto simp: hb_def hist_clear_def Let_def nth_list_update unat_div unat_mod bit_simps)

lemma length_clear_loop [simp]: "length (clear_loop base i delta h) = length h"
  by (induction base i delta h rule: clear_loop.induct) (simp add: clear_loop.simps)

lemma hb_clear_loop:
  "length h = 256 \<Longrightarrow>
   hb (clear_loop base i delta h) j \<longleftrightarrow>
     hb h j \<and> (\<forall>k \<in> {unat i..<unat delta}. j \<noteq> (unat base + k) mod 2048)"
proof (induction base i delta h rule: clear_loop.induct)
  case (1 base i delta h)
  show ?case
  proof (cases "i < delta")
    case False
    then show ?thesis by (auto simp: clear_loop.simps [of base i] word_less_nat_alt)
  next
    case True
    then have i: "unat (i + 1) = Suc (unat i)" by (rule unat_plus_one)
    have ivl: "{unat i..<unat delta} = insert (unat i) {Suc (unat i)..<unat delta}"
      using True by (auto simp: word_less_nat_alt)
    show ?thesis
      unfolding ivl using True "1.IH" "1.prems" i
      by (simp add: clear_loop.simps [of base i] hb_clear unat_REPLAY_INDEX_plus) blast
  qed
qed

lemma hb_zero: "j < 2048 \<Longrightarrow> \<not> hb (replicate 256 0) j"
  by (simp add: hb_def)

lemma hb_one: "j < 2048 \<Longrightarrow> hb ((replicate 256 0)[0 := 1]) j \<longleftrightarrow> j = 0"
  by (cases "j < 8") (auto simp: hb_def nth_list_update bit_1_iff)

section \<open>Invariant of the replay window\<close>

text \<open>
  \<open>A\<close> is the set of IDs accepted so far, with their times.  Within the extent of the window
  the bitmap records exactly the accepted IDs of the current time; everything accepted lies
  at or below the high mark.
\<close>

definition pidr_inv :: "(int \<times> nat) set \<Rightarrow> pid_recv \<Rightarrow> bool" where
  "pidr_inv A s \<longleftrightarrow> r_initialized s \<and> length (r_history s) = 256 \<and> unat (r_extent s) \<le> 2048
     \<and> (\<forall>(t, i) \<in> A. 0 < i \<and> t \<le> r_time_high s \<and> (t = r_time_high s \<longrightarrow> i \<le> unat (r_id_high s)))
     \<and> (\<forall>k < unat (r_extent s). k < unat (r_id_high s) \<longrightarrow>
          (hb (r_history s) ((unat (r_base s) + k) mod 2048)
           \<longleftrightarrow> (r_time_high s, unat (r_id_high s) - k) \<in> A))"

lemma pidr_invD:
  assumes "pidr_inv A s"
  shows "r_initialized s" "length (r_history s) = 256" "unat (r_extent s) \<le> 2048"
    and "(t, i) \<in> A \<Longrightarrow> 0 < i \<and> t \<le> r_time_high s"
    and "(r_time_high s, i) \<in> A \<Longrightarrow> i \<le> unat (r_id_high s)"
    and "k < unat (r_extent s) \<Longrightarrow> k < unat (r_id_high s) \<Longrightarrow>
      hb (r_history s) ((unat (r_base s) + k) mod 2048)
      \<longleftrightarrow> (r_time_high s, unat (r_id_high s) - k) \<in> A"
  using assms unfolding pidr_inv_def by auto

lemma pidr_inv_init [simp]: "pidr_inv {} (pidr_init mode form name unit)"
  by (simp add: pidr_inv_def pidr_init_def REPLAY_WINDOW_BYTES_def)

lemma pidr_inv_expire [simp]: "pidr_inv A (pidr_expire now s) \<longleftrightarrow> pidr_inv A s"
  by (simp add: pidr_inv_def pidr_expire_def)

lemma pidr_inv_new_time:
  "pidr_inv A s \<Longrightarrow> r_time_high s < t \<Longrightarrow> pidr_inv A (pidr_new_time t s)"
  by (fastforce simp: pidr_inv_def pidr_new_time_def)

lemma pidr_successor_inv:
  assumes inv: "pidr_inv A s" and id: "p_id pin = r_id_high s + 1" "p_id pin \<noteq> 0"
  shows "pidr_inv (insert (r_time_high s, unat (p_id pin)) A) (snd (pidr_successor pin True s))"
proof -
  note D = pidr_invD [OF inv]
  have idn: "unat (p_id pin) = Suc (unat (r_id_high s))"
    using id unatSuc [of "r_id_high s"] by (simp add: add.commute)
  define base where "base = REPLAY_INDEX (r_base s) (- 1)"
  define ext where "ext = (if r_extent s < REPLAY_WINDOW_SIZE then r_extent s + 1 else r_extent s)"
  have ext: "unat ext \<le> 2048" "unat ext \<le> Suc (unat (r_extent s))"
    using D(3) unat_plus_one [of "r_extent s" REPLAY_WINDOW_SIZE]
    by (auto simp: ext_def REPLAY_WINDOW_SIZE_def word_less_nat_alt)
  have base: "unat base < 2048" by (simp add: base_def)
  have win: "hb (hist_set base (r_history s)) ((unat base + k) mod 2048)
      \<longleftrightarrow> (r_time_high s, unat (p_id pin) - k) \<in> insert (r_time_high s, unat (p_id pin)) A"
    if k: "k < unat ext" "k < unat (p_id pin)" for k
  proof (cases k)
    case 0
    with D(2) base show ?thesis by (simp add: hb_set)
  next
    case (Suc m)
    have "(unat base + k) mod 2048 = (unat (r_base s) + m) mod 2048"
      using REPLAY_INDEX_back [of 1 k "r_base s"] Suc by (simp add: base_def)
    moreover have "(unat base + k) mod 2048 \<noteq> unat base"
      using window_pos_inj [of k 0 "unat base"] k ext base Suc by simp
    moreover have "unat (p_id pin) - k = unat (r_id_high s) - m" "m < unat (r_extent s)"
      "m < unat (r_id_high s)"
      using Suc idn k ext by simp_all
    ultimately show ?thesis
      using D(2) base D(6) [of m] idn Suc by (auto simp: hb_set)
  qed
  have old: "0 < i \<and> t \<le> r_time_high s \<and> (t = r_time_high s \<longrightarrow> i \<le> unat (p_id pin))"
    if "(t, i) \<in> insert (r_time_high s, unat (p_id pin)) A" for t i
    using that D(4) [of t i] D(5) [of i] idn by auto
  have "pidr_successor pin True s = (SUCCESS, s\<lparr>r_base := base,
      r_history := hist_set base (r_history s), r_extent := ext, r_id_high := p_id pin\<rparr>)"
    by (simp add: pidr_successor_def base_def ext_def Let_def)
  with win old ext D(1,2) show ?thesis
    by (simp add: pidr_inv_def) blast
qed

lemma pidr_jump_near_inv:
  assumes inv: "pidr_inv A s" and gt: "p_id pin > r_id_high s"
    and near: "p_id pin - r_id_high s < REPLAY_WINDOW_SIZE"
  shows "pidr_inv (insert (r_time_high s, unat (p_id pin)) A) (snd (pidr_jump pin True s))"
proof -
  note D = pidr_invD [OF inv]
  define delta where "delta = p_id pin - r_id_high s"
  define base where "base = REPLAY_INDEX (r_base s) (- delta)"
  define h where "h = clear_loop base 1 delta (hist_set base (r_history s))"
  define ext where "ext = (if r_extent s + delta > REPLAY_WINDOW_SIZE then REPLAY_WINDOW_SIZE
    else r_extent s + delta)"
  have dn: "unat delta = unat (p_id pin) - unat (r_id_high s)" "unat (r_id_high s) < unat (p_id pin)"
    using unat_minus [OF less_imp_le [OF gt]] gt by (simp_all add: delta_def word_less_nat_alt)
  have d: "0 < unat delta" "unat delta < 2048"
    using near dn by (simp_all add: delta_def [symmetric] word_less_nat_alt REPLAY_WINDOW_SIZE_def)
  have "unat (r_extent s + delta) = unat (r_extent s) + unat delta"
    using D(3) d by (simp add: unat_word_ariths)
  then have ext: "unat ext \<le> 2048" "unat ext \<le> unat (r_extent s) + unat delta"
    by (auto simp: ext_def REPLAY_WINDOW_SIZE_def word_less_nat_alt)
  have base: "unat base < 2048" by (simp add: base_def)
  have lh: "length h = 256" using D(2) by (simp add: h_def)
  have hb_h: "hb h j \<longleftrightarrow> (j = unat base \<or> hb (r_history s) j)
      \<and> (\<forall>k \<in> {1..<unat delta}. j \<noteq> (unat base + k) mod 2048)" for j
    using D(2) base by (simp add: h_def hb_clear_loop hb_set)
  have win: "hb h ((unat base + k) mod 2048)
      \<longleftrightarrow> (r_time_high s, unat (p_id pin) - k) \<in> insert (r_time_high s, unat (p_id pin)) A"
    if k: "k < unat ext" "k < unat (p_id pin)" for k
  proof -
    have inj: "(unat base + k) mod 2048 = (unat base + l) mod 2048 \<longleftrightarrow> k = l" if "l < 2048" for l
      using window_pos_inj [of k l "unat base"] k ext that by simp
    have at_base: "(unat base + k) mod 2048 = unat base \<longleftrightarrow> k = 0"
      using inj [of 0] base by simp
    have clr: "(\<forall>l \<in> {1..<unat delta}. (unat base + k) mod 2048 \<noteq> (unat base + l) mod 2048)
        \<longleftrightarrow> k \<notin> {1..<unat delta}"
      using inj d by auto
    consider "k = 0" | "k \<in> {1..<unat delta}" | "unat delta \<le> k"
      by fastforce
    then show ?thesis
    proof cases
      case 1
      then show ?thesis using clr at_base by (simp add: hb_h)
    next
      case 2
      then have "unat (r_id_high s) < unat (p_id pin) - k"
        using dn by auto
      then have "(r_time_high s, unat (p_id pin) - k) \<notin> A"
        using D(5) [of "unat (p_id pin) - k"] by auto
      with 2 k clr show ?thesis by (auto simp: hb_h)
    next
      case 3
      then have "(unat base + k) mod 2048 = (unat (r_base s) + (k - unat delta)) mod 2048"
        unfolding base_def by (rule REPLAY_INDEX_back)
      moreover have "unat (p_id pin) - k = unat (r_id_high s) - (k - unat delta)"
        "k - unat delta < unat (r_extent s)" "k - unat delta < unat (r_id_high s)"
        using 3 k dn ext by simp_all
      ultimately show ?thesis
        using 3 d clr at_base dn D(6) [of "k - unat delta"] by (auto simp: hb_h)
    qed
  qed
  have old: "0 < i \<and> t \<le> r_time_high s \<and> (t = r_time_high s \<longrightarrow> i \<le> unat (p_id pin))"
    if "(t, i) \<in> insert (r_time_high s, unat (p_id pin)) A" for t i
    using that D(4) [of t i] D(5) [of i] dn by auto
  have "pidr_jump pin True s = (SUCCESS, s\<lparr>r_base := base, r_history := h, r_extent := ext,
      r_id_high := p_id pin\<rparr>)"
    using near by (simp add: pidr_jump_def Let_def delta_def base_def h_def ext_def)
  with win old ext D(1) lh show ?thesis
    by (simp add: pidr_inv_def) blast
qed

lemma pidr_jump_far_inv:
  assumes inv: "pidr_inv A s" and gt: "p_id pin > r_id_high s"
    and far: "\<not> p_id pin - r_id_high s < REPLAY_WINDOW_SIZE"
  shows "pidr_inv (insert (r_time_high s, unat (p_id pin)) A) (snd (pidr_jump pin True s))"
proof -
  note D = pidr_invD [OF inv]
  have gap: "unat (r_id_high s) + 2048 \<le> unat (p_id pin)"
    using far gt by (simp add: unat_minus word_less_nat_alt REPLAY_WINDOW_SIZE_def)
  have win: "hb ((replicate 256 0)[0 := 1]) (k mod 2048)
      \<longleftrightarrow> (r_time_high s, unat (p_id pin) - k) \<in> insert (r_time_high s, unat (p_id pin)) A"
    if k: "k < 2048" for k
  proof -
    have "(r_time_high s, unat (p_id pin) - k) \<notin> A"
      using D(5) [of "unat (p_id pin) - k"] gap k by auto
    with k gap show ?thesis by (auto simp: hb_one)
  qed
  have old: "0 < i \<and> t \<le> r_time_high s \<and> (t = r_time_high s \<longrightarrow> i \<le> unat (p_id pin))"
    if "(t, i) \<in> insert (r_time_high s, unat (p_id pin)) A" for t i
    using that D(4) [of t i] D(5) [of i] gap by auto
  have "pidr_jump pin True s = (SUCCESS, s\<lparr>r_base := 0, r_extent := REPLAY_WINDOW_SIZE,
      r_history := (replicate 256 0)[0 := 1], r_id_high := p_id pin\<rparr>)"
    using far by (simp add: pidr_jump_def Let_def REPLAY_WINDOW_BYTES_def)
  moreover have "unat REPLAY_WINDOW_SIZE = 2048"
    by (simp add: REPLAY_WINDOW_SIZE_def)
  ultimately show ?thesis
    using win old D(1) by (simp add: pidr_inv_def) blast
qed

text \<open>
  The backtrack branch: its verdict read off the accepted set, and the state it leaves.
\<close>

lemma pidr_backtrack_spec:
  assumes inv: "pidr_inv A s" and le: "p_id pin \<le> r_id_high s" and id: "p_id pin \<noteq> 0"
  shows "fst (pidr_backtrack pin md s) =
      (if unat (r_extent s) \<le> unat (r_id_high s) - unat (p_id pin) then PKTID_BACKTRACK
       else if p_id pin \<le> r_id_floor s then PKTID_EXPIRE
       else if (r_time_high s, unat (p_id pin)) \<in> A then PKTID_REPLAY else SUCCESS)"
    and "pidr_inv (if md \<and> fst (pidr_backtrack pin md s) = SUCCESS
                   then insert (r_time_high s, unat (p_id pin)) A else A)
          (snd (pidr_backtrack pin md s))"
proof -
  note D = pidr_invD [OF inv]
  define delta where "delta = r_id_high s - p_id pin"
  define s1 where "s1 = (if delta > r_max_backtrack s then s\<lparr>r_max_backtrack := delta\<rparr> else s)"
  define ri where "ri = REPLAY_INDEX (r_base s) delta"
  have s1: "r_extent s1 = r_extent s" "r_id_floor s1 = r_id_floor s" "r_base s1 = r_base s"
    "r_history s1 = r_history s" "r_id_high s1 = r_id_high s" "r_time_high s1 = r_time_high s"
    "r_initialized s1 = r_initialized s"
    by (simp_all add: s1_def)
  have inv1: "pidr_inv A s1" using inv by (simp add: pidr_inv_def s1)
  have dn: "unat delta = unat (r_id_high s) - unat (p_id pin)" "unat (p_id pin) \<le> unat (r_id_high s)"
    "0 < unat (p_id pin)"
    using le id by (simp_all add: delta_def unat_minus word_le_nat_alt unat_gt_0)
  have ri: "unat ri < 2048" "unat ri = (unat (r_base s) + unat delta) mod 2048"
    by (simp_all add: ri_def unat_REPLAY_INDEX_plus)
  have bt: "pidr_backtrack pin md s =
      (if delta < r_extent s then
         (if p_id pin > r_id_floor s then
            (if hist_test ri (r_history s) then (PKTID_REPLAY, s1)
             else if \<not> md then (SUCCESS, s1)
             else (SUCCESS, s1\<lparr>r_history := hist_set ri (r_history s)\<rparr>))
          else (PKTID_EXPIRE, s1))
       else (PKTID_BACKTRACK, s1))"
    by (simp add: pidr_backtrack_def Let_def delta_def [symmetric] s1_def [symmetric] s1 ri_def)
  have test: "hist_test ri (r_history s) \<longleftrightarrow> (r_time_high s, unat (p_id pin)) \<in> A"
    if "delta < r_extent s"
    using D(6) [of "unat delta"] that dn by (simp add: hist_test_eq ri(2) word_less_nat_alt)
  then show "fst (pidr_backtrack pin md s) =
      (if unat (r_extent s) \<le> unat (r_id_high s) - unat (p_id pin) then PKTID_BACKTRACK
       else if p_id pin \<le> r_id_floor s then PKTID_EXPIRE
       else if (r_time_high s, unat (p_id pin)) \<in> A then PKTID_REPLAY else SUCCESS)"
    using dn by (auto simp: bt word_less_nat_alt word_le_nat_alt)
  have mark: "pidr_inv (insert (r_time_high s, unat (p_id pin)) A)
      (s1\<lparr>r_history := hist_set ri (r_history s)\<rparr>)" if lt: "delta < r_extent s"
  proof -
    have win: "hb (hist_set ri (r_history s)) ((unat (r_base s) + k) mod 2048)
        \<longleftrightarrow> (r_time_high s, unat (r_id_high s) - k) \<in> insert (r_time_high s, unat (p_id pin)) A"
      if k: "k < unat (r_extent s)" "k < unat (r_id_high s)" for k
    proof -
      have "unat delta < 2048" using lt D(3) by (simp add: word_less_nat_alt)
      then have "(unat (r_base s) + k) mod 2048 = unat ri \<longleftrightarrow> k = unat delta"
        using window_pos_inj [of k "unat delta" "unat (r_base s)"] k D(3) by (simp add: ri(2))
      moreover have "k = unat delta \<longleftrightarrow> unat (r_id_high s) - k = unat (p_id pin)"
        using dn k by arith
      ultimately show ?thesis
        using D(2) ri(1) D(6) [OF k] by (simp add: hb_set)
    qed
    have old: "0 < i \<and> t \<le> r_time_high s \<and> (t = r_time_high s \<longrightarrow> i \<le> unat (r_id_high s))"
      if "(t, i) \<in> insert (r_time_high s, unat (p_id pin)) A" for t i
      using that D(4) [of t i] D(5) [of i] dn by auto
    show ?thesis using win old D(1-3) by (simp add: pidr_inv_def s1) blast
  qed
  show "pidr_inv (if md \<and> fst (pidr_backtrack pin md s) = SUCCESS
                   then insert (r_time_high s, unat (p_id pin)) A else A)
          (snd (pidr_backtrack pin md s))"
    using inv1 mark by (auto simp: bt)
qed

section \<open>The verdict\<close>

text \<open>
  Specification of \<open>do_test_add\<close>: the decision in terms of the set \<open>A\<close> of accepted IDs, the
  high mark, the floor and the extent of the window, without the bitmap.
\<close>

definition pidr_verdict :: "(int \<times> nat) set \<Rightarrow> pid_recv \<Rightarrow> packet_id \<Rightarrow> pkt_err" where
  "pidr_verdict A s pin =
     (let i = unat (p_id pin); high = unat (r_id_high s) in
      if i = 0 then PKTID_INVALID
      else if p_time pin < r_time_high s then PKTID_TIME_BACKTRACK
      else if p_time pin > r_time_high s \<or> high < i then SUCCESS
      else if unat (r_extent s) \<le> high - i then PKTID_BACKTRACK
      else if i \<le> unat (r_id_floor s) then PKTID_EXPIRE
      else if (p_time pin, i) \<in> A then PKTID_REPLAY
      else SUCCESS)"

lemma pidr_check_id_spec:
  assumes inv: "pidr_inv A s" and id: "p_id pin \<noteq> 0" and t: "p_time pin = r_time_high s"
  shows "fst (pidr_check_id pin md s) = pidr_verdict A s pin
    \<and> pidr_inv (if md \<and> fst (pidr_check_id pin md s) = SUCCESS
                 then insert (p_time pin, unat (p_id pin)) A else A)
        (snd (pidr_check_id pin md s))"
proof -
  have i0: "unat (p_id pin) \<noteq> 0" using id by (simp add: unat_eq_0)
  consider (succ) "p_id pin = r_id_high s + 1" | (jump) "p_id pin \<noteq> r_id_high s + 1" "p_id pin > r_id_high s"
    | (below) "p_id pin \<noteq> r_id_high s + 1" "p_id pin \<le> r_id_high s"
    by fastforce
  then show ?thesis
  proof cases
    case succ
    then have "unat (p_id pin) = Suc (unat (r_id_high s))"
      using id unatSuc [of "r_id_high s"] by (simp add: add.commute)
    then have "pidr_verdict A s pin = SUCCESS" using t by (simp add: pidr_verdict_def Let_def)
    with succ pidr_successor_inv [OF inv succ id] inv t show ?thesis
      by (cases md) (auto simp: pidr_check_id_def pidr_successor_def Let_def)
  next
    case jump
    have v: "pidr_verdict A s pin = SUCCESS"
      using jump t i0 by (simp add: pidr_verdict_def Let_def word_less_nat_alt)
    have f: "fst (pidr_jump pin md s) = SUCCESS" by (simp add: pidr_jump_def Let_def)
    have "pidr_inv (insert (r_time_high s, unat (p_id pin)) A) (snd (pidr_jump pin True s))"
      using pidr_jump_near_inv [OF inv jump(2)] pidr_jump_far_inv [OF inv jump(2)] by blast
    with jump inv t v f show ?thesis
      by (cases md) (auto simp: pidr_check_id_def, simp add: pidr_jump_def)
  next
    case below
    from below(2) have "unat (p_id pin) \<le> unat (r_id_high s)"
      by (simp add: word_le_nat_alt)
    then have v: "pidr_verdict A s pin = fst (pidr_backtrack pin md s)"
      using t i0 by (simp add: pidr_backtrack_spec(1) [OF inv below(2) id] pidr_verdict_def Let_def
          word_le_nat_alt)
    have "pidr_check_id pin md s = pidr_backtrack pin md s"
      using below by (auto simp: pidr_check_id_def)
    with v t pidr_backtrack_spec(2) [OF inv below(2) id, of md] show ?thesis
      by (auto split: if_splits)
  qed
qed

lemma pidr_do_test_add_spec:
  assumes inv: "pidr_inv A s"
  shows "\<exists>s'. pidr_do_test_add pin now md s = Inr (pidr_verdict A (pidr_expire now s) pin, s')
    \<and> pidr_inv (if md \<and> pidr_verdict A (pidr_expire now s) pin = SUCCESS
                 then insert (p_time pin, unat (p_id pin)) A else A) s'"
proof -
  define s1 where "s1 = pidr_expire now s"
  have inv1: "pidr_inv A s1" using inv by (simp add: s1_def)
  have init: "r_initialized s" using pidr_invD(1) [OF inv] .
  consider (invalid) "p_id pin = 0" | (old) "p_id pin \<noteq> 0" "p_time pin < r_time_high s1"
    | (new) "p_id pin \<noteq> 0" "r_time_high s1 < p_time pin"
    | (same) "p_id pin \<noteq> 0" "p_time pin = r_time_high s1"
    by fastforce
  then show ?thesis
  proof cases
    case invalid
    with init inv1 show ?thesis
      by (simp add: pidr_do_test_add_def Let_def s1_def [symmetric] pid_is_valid_def pidr_verdict_def)
  next
    case old
    with init inv1 show ?thesis
      by (simp add: pidr_do_test_add_def Let_def s1_def [symmetric] pid_is_valid_def pidr_verdict_def
          unat_eq_0)
  next
    case new
    let ?s2 = "pidr_new_time (p_time pin) s1"
    have inv2: "pidr_inv A ?s2" using pidr_inv_new_time [OF inv1 new(2)] .
    have th: "p_time pin = r_time_high ?s2" by (simp add: pidr_new_time_def)
    have v: "pidr_verdict A s1 pin = SUCCESS" "pidr_verdict A ?s2 pin = SUCCESS"
      using new by (auto simp: pidr_verdict_def Let_def pidr_new_time_def unat_eq_0 unat_gt_0)
    show ?thesis
      using init new inv1 v pidr_check_id_spec [OF inv2 new(1) th, of md]
      by (cases md; cases "pidr_check_id pin md ?s2")
        (auto simp: pidr_do_test_add_def Let_def s1_def [symmetric] pid_is_valid_def)
  next
    case same
    show ?thesis
      using init same pidr_check_id_spec [OF inv1 same, of md]
      by (cases "pidr_check_id pin md s1")
        (auto simp: pidr_do_test_add_def Let_def s1_def [symmetric] pid_is_valid_def)
  qed
qed

section \<open>Runs of the receiver\<close>

text \<open>
  A run is a list of \<open>do_test_add\<close> calls, each with a packet ID, the current time and the
  \<open>mod\<close> flag; \<open>pidr_accepted\<close> collects the IDs admitted with \<open>mod\<close> set, in order.
\<close>

type_synonym pid_call = "packet_id \<times> int \<times> bool"

fun pidr_run :: "pid_call list \<Rightarrow> pid_recv \<Rightarrow> ((int \<times> nat) list \<times> pid_recv) res" where
  "pidr_run [] s = Inr ([], s)"
| "pidr_run ((pin, now, md) # calls) s =
     bindE (pidr_do_test_add pin now md s) (\<lambda>(err, s).
     bindE (pidr_run calls s) (\<lambda>(acc, s).
       Inr (if md \<and> err = SUCCESS then (p_time pin, unat (p_id pin)) # acc else acc, s)))"

lemma pidr_verdict_fresh:
  assumes "pidr_inv A s" and "pidr_verdict A (pidr_expire now s) pin = SUCCESS"
  shows "(p_time pin, unat (p_id pin)) \<notin> A"
proof
  assume mem: "(p_time pin, unat (p_id pin)) \<in> A"
  have "pidr_inv A (pidr_expire now s)" using assms(1) by simp
  note D = pidr_invD [OF this]
  from D(4) [OF mem] D(5) [of "unat (p_id pin)"] mem
  have "p_time pin \<le> r_time_high (pidr_expire now s)"
    "p_time pin = r_time_high (pidr_expire now s) \<longrightarrow> unat (p_id pin) \<le> unat (r_id_high (pidr_expire now s))"
    by auto
  with assms(2) mem show False
    by (auto simp: pidr_verdict_def Let_def split: if_splits)
qed

lemma pidr_run_spec:
  "pidr_inv A s \<Longrightarrow> \<exists>acc s'. pidr_run calls s = Inr (acc, s') \<and> pidr_inv (A \<union> set acc) s'
     \<and> distinct acc \<and> set acc \<inter> A = {}"
proof (induction calls arbitrary: A s)
  case Nil
  then show ?case by simp
next
  case (Cons c calls)
  obtain pin now md where c: "c = (pin, now, md)" by (cases c)
  let ?v = "pidr_verdict A (pidr_expire now s) pin"
  let ?x = "(p_time pin, unat (p_id pin))"
  let ?A = "if md \<and> ?v = SUCCESS then insert ?x A else A"
  obtain s1 where s1: "pidr_do_test_add pin now md s = Inr (?v, s1)" "pidr_inv ?A s1"
    using pidr_do_test_add_spec [OF Cons.prems] by blast
  obtain acc s' where acc: "pidr_run calls s1 = Inr (acc, s')" "pidr_inv (?A \<union> set acc) s'"
    "distinct acc" "set acc \<inter> ?A = {}"
    using Cons.IH [OF s1(2)] by blast
  show ?case
    using c s1 acc pidr_verdict_fresh [OF Cons.prems, of now pin]
    by (cases "md \<and> ?v = SUCCESS") auto
qed

section \<open>Runs of the sender\<close>

fun pids_run :: "int list \<Rightarrow> pid_send \<Rightarrow> packet_id res list \<times> pid_send" where
  "pids_run [] s = ([], s)"
| "pids_run (now # nows) s =
     (let (r, s) = pids_next now s; (rs, s) = pids_run nows s in (r # rs, s))"

lemma pids_next_ok:
  assumes "unat (p_id (s_pid s)) + 1 < 2 ^ 32"
  shows "\<exists>p. pids_next now s = (Inr p, s\<lparr>s_pid := p\<rparr>) \<and> unat (p_id p) = unat (p_id (s_pid s)) + 1
    \<and> p_time p = (if p_time (s_pid s) = 0 then now else p_time (s_pid s))"
proof -
  have u: "unat (p_id (s_pid s) + 1) = unat (p_id (s_pid s)) + 1"
    using assms by (simp add: unat_word_ariths)
  then have "p_id (s_pid s) + 1 \<noteq> 0" by (metis add_is_0 unat_0 zero_neq_one)
  with u show ?thesis by (simp add: pids_next_def Let_def)
qed

lemma pids_run_ids:
  "unat (p_id (s_pid s)) + length nows < 2 ^ 32 \<Longrightarrow>
   \<exists>ps. fst (pids_run nows s) = map Inr ps
     \<and> map (unat \<circ> p_id) ps = [Suc (unat (p_id (s_pid s)))..<Suc (unat (p_id (s_pid s)) + length nows)]"
proof (induction nows arbitrary: s)
  case Nil
  then show ?case by simp
next
  case (Cons now nows)
  obtain p where p: "pids_next now s = (Inr p, s\<lparr>s_pid := p\<rparr>)"
    "unat (p_id p) = unat (p_id (s_pid s)) + 1"
    using pids_next_ok [of s now] Cons.prems by auto
  define s1 where "s1 = s\<lparr>s_pid := p\<rparr>"
  have s1: "s_pid s1 = p" by (simp add: s1_def)
  have "unat (p_id p) + length nows < 2 ^ 32"
    using Cons.prems p by simp
  then obtain ps where ps: "fst (pids_run nows s1) = map Inr ps"
    "map (unat \<circ> p_id) ps = [Suc (unat (p_id p))..<Suc (unat (p_id p) + length nows)]"
    using Cons.IH [of s1, unfolded s1] by blast
  have "fst (pids_run (now # nows) s) = map Inr (p # ps)"
    using p(1) ps(1) by (cases "pids_run nows s1") (simp add: Let_def s1_def [symmetric])
  moreover have "map (unat \<circ> p_id) (p # ps)
      = [Suc (unat (p_id (s_pid s)))..<Suc (unat (p_id (s_pid s)) + length (now # nows))]"
    using ps p by (simp add: upt_conv_Cons del: upt_Suc)
  ultimately show ?case by blast
qed

section \<open>Wire format\<close>

lemma pid_read_prefix:
  assumes "buf_wf b" and "0 \<le> t" and "t < 2 ^ 32"
    and "content b = be32 i @ (if form = LONG_FORM then be32 (word_of_int t) else []) @ rest"
  shows "\<exists>b'. pid_read form b
      = Inr (\<lparr>p_id = i, p_time = (if form = LONG_FORM then t else 0)\<rparr>, b')
    \<and> buf_wf b' \<and> content b' = rest"
proof -
  obtain b1 where b1: "bindE (buf_read 4 b) (\<lambda>(bs, b). Inr (of_be32 bs, b)) = Inr (i, b1)"
    "buf_wf b1" "content b1 = (if form = LONG_FORM then be32 (word_of_int t) else []) @ rest"
    using wire32.decode_front [OF assms(1,4)] by blast
  show ?thesis
  proof (cases "form = LONG_FORM")
    case False
    with b1 show ?thesis by (simp add: pid_read_def)
  next
    case True
    have "uint (word_of_int t :: u32) = t"
      using assms(2,3) by (simp add: uint_word_of_int)
    moreover obtain b2 where "bindE (buf_read 4 b1) (\<lambda>(bs, b). Inr (of_be32 bs, b))
        = Inr (word_of_int t, b2)" "buf_wf b2" "content b2 = rest"
      using wire32.decode_front [OF b1(2), of "word_of_int t" rest] b1(3) True by auto
    ultimately show ?thesis
      using True b1(1) by (simp add: pid_read_def)
  qed
qed

lemma pid_write_content:
  assumes "buf_wf b" and "pid_write p form prepend b = Inr b'"
  shows "buf_wf b' \<and> content b' =
    (let w = be32 (p_id p) @ (if form = LONG_FORM then be32 (word_of_int (p_time p)) else [])
     in if prepend then w @ content b else content b @ w)"
proof (cases prepend)
  case True
  then obtain b0 where b0: "(if form = LONG_FORM then buf_prepend (be32 (word_of_int (p_time p))) b
      else Inr b) = Inr b0" and b': "buf_prepend (be32 (p_id p)) b0 = Inr b'"
    using assms(2) by (auto simp: pid_write_def Let_def exn_simps)
  have "buf_wf b0 \<and> content b0
      = (if form = LONG_FORM then be32 (word_of_int (p_time p)) else []) @ content b"
    using b0 assms(1) buf_prepend_Inr [OF assms(1)] by (cases "form = LONG_FORM") auto
  with True buf_prepend_Inr [OF _ b'] show ?thesis by (simp add: Let_def)
next
  case False
  then obtain b0 where b0: "buf_write (be32 (p_id p)) b = Inr b0"
    and b': "(if form = LONG_FORM then buf_write (be32 (word_of_int (p_time p))) b0
      else Inr b0) = Inr b'"
    using assms(2) by (auto simp: pid_write_def Let_def exn_simps)
  note w0 = buf_write_ok [OF assms(1) b0]
  with b' buf_write_ok [of b0 "be32 (word_of_int (p_time p))" b'] False show ?thesis
    by (cases "form = LONG_FORM") (simp_all add: Let_def)
qed

section \<open>Properties\<close>

text \<open>
  C6. Replay protection: whatever sequence of packet IDs, arrival times and \<open>mod\<close> flags a
  freshly initialised receiver is given, it always answers, and no (time, ID) pair is
  admitted twice.
\<close>

theorem replay_window_never_accepts_twice:
  "\<exists>acc s. pidr_run calls (pidr_init mode form name unit) = Inr (acc, s) \<and> distinct acc"
  using pidr_run_spec [OF pidr_inv_init, of calls] by blast

text \<open>
  C7. Exact verdicts: after any run, the verdict of \<open>do_test_add\<close> on the next packet ID is
  the one the set of IDs admitted so far determines: in particular an ID above the high mark
  is always accepted, and an ID inside the window and above the floor is refused as a
  replay exactly when it was admitted before.
\<close>

theorem replay_window_verdict_exact:
  assumes "pidr_run calls (pidr_init mode form name unit) = Inr (acc, s)"
  shows "\<exists>s'. pidr_do_test_add pin now md s
    = Inr (pidr_verdict (set acc) (pidr_expire now s) pin, s')"
proof -
  have "pidr_inv (set acc) s"
    using pidr_run_spec [OF pidr_inv_init, of calls mode form name unit] assms by auto
  from pidr_do_test_add_spec [OF this] show ?thesis by blast
qed

definition demo_calls :: "pid_call list" where
  "demo_calls = [(\<lparr>p_id = 1, p_time = 0\<rparr>, 100, True), (\<lparr>p_id = 3, p_time = 0\<rparr>, 100, True)]"

lemma demo_run:
  "\<exists>s. pidr_run demo_calls (pidr_init 0 0 [] 0) = Inr ([(0, 1), (0, 3)], s)
     \<and> r_time_high s = 0 \<and> r_id_high s = 3 \<and> r_extent s = 3 \<and> r_id_floor s = 0
     \<and> r_expire s = 130"
  by (simp add: demo_calls_def pidr_init_def pidr_do_test_add_def pidr_expire_def Let_def
      pid_is_valid_def pidr_check_id_def pidr_successor_def pidr_jump_def
      PKTID_RECV_EXPIRE_def REPLAY_WINDOW_SIZE_def)

theorem replay_window_verdict_exact_witness:
  "\<exists>acc s s'. pidr_run demo_calls (pidr_init 0 0 [] 0) = Inr (acc, s)
     \<and> pidr_do_test_add \<lparr>p_id = 1, p_time = 0\<rparr> 101 True s = Inr (PKTID_REPLAY, s')"
proof -
  obtain s where s: "pidr_run demo_calls (pidr_init 0 0 [] 0) = Inr ([(0, 1), (0, 3)], s)"
    "r_time_high s = 0" "r_id_high s = 3" "r_extent s = 3" "r_id_floor s = 0" "r_expire s = 130"
    using demo_run by blast
  have "pidr_verdict (set [(0, 1), (0, 3)]) (pidr_expire 101 s) \<lparr>p_id = 1, p_time = 0\<rparr> = PKTID_REPLAY"
    using s by (simp add: pidr_verdict_def pidr_expire_def Let_def)
  with replay_window_verdict_exact [OF s(1), of "\<lparr>p_id = 1, p_time = 0\<rparr>" 101 True] s(1)
  show ?thesis by auto
qed

text \<open>
  The sender's IDs: fewer than 2^32 calls of \<open>next\<close> on a fresh counter all succeed and
  number the packets 1, 2, 3, ..., whatever the form and the clock.
\<close>

theorem sender_ids_consecutive:
  assumes "length nows < 2 ^ 32"
  shows "\<exists>ps. fst (pids_run nows (pids_init form)) = map Inr ps
    \<and> map (unat \<circ> p_id) ps = [1..<Suc (length nows)]"
  using pids_run_ids [of "pids_init form" nows] assms by (simp add: pids_init_def del: upt_Suc)

theorem sender_ids_consecutive_witness:
  "\<exists>ps. fst (pids_run [5, 5, 6] (pids_init SHORT_FORM)) = map Inr ps
    \<and> map (unat \<circ> p_id) ps = [1..<4]"
proof -
  have h: "length [5, 5, 6 :: int] < 2 ^ 32" by simp
  have "Suc (length [5, 5, 6 :: int]) = 4" by simp
  with sender_ids_consecutive [OF h, of SHORT_FORM] show ?thesis by (simp only:)
qed

text \<open>
  C9. Error path of the counter: a short-form counter that has used up its IDs throws
  \<open>packet_id_wrap\<close>, but the exception leaves the counter at zero, so that a caller who
  carries on is given the ID 1, with the same time, a second time.
\<close>

theorem short_form_wrap_restarts:
  assumes "s_form s \<noteq> LONG_FORM" and "p_id (s_pid s) = -1" and "p_time (s_pid s) \<noteq> 0"
  shows "fst (pids_next now s) = Inl packet_id_wrap
    \<and> fst (pids_next now' (snd (pids_next now s))) = Inr \<lparr>p_id = 1, p_time = p_time (s_pid s)\<rparr>"
  using assms by (simp add: pids_next_def Let_def)

theorem short_form_wrap_restarts_witness:
  "fst (pids_next 7 \<lparr>s_pid = \<lparr>p_id = -1, p_time = 5\<rparr>, s_form = SHORT_FORM\<rparr>) = Inl packet_id_wrap"
  using short_form_wrap_restarts [of "\<lparr>s_pid = \<lparr>p_id = -1, p_time = 5\<rparr>, s_form = SHORT_FORM\<rparr>" 7]
  by (simp add: SHORT_FORM_def LONG_FORM_def)

text \<open>
  Round trip: a packet ID written to a buffer, by prepending or by appending to an
  empty one, is read back as it was, in the long form with its time and in the short form
  with time zero, and the rest of the buffer is unchanged.
\<close>

theorem packet_id_wire_roundtrip:
  assumes "buf_wf b" and "prepend \<or> content b = []"
    and "0 \<le> p_time p" and "p_time p < 2 ^ 32"
    and "pid_write p form prepend b = Inr b1"
  shows "\<exists>b2. pid_read form b1
      = Inr (if form = LONG_FORM then p else p\<lparr>p_time := 0\<rparr>, b2)
    \<and> buf_wf b2 \<and> content b2 = content b"
proof -
  have wf: "buf_wf b1" and c: "content b1 = be32 (p_id p)
      @ (if form = LONG_FORM then be32 (word_of_int (p_time p)) else []) @ content b"
    using pid_write_content [OF assms(1,5)] assms(2) by (auto simp: Let_def split: if_splits)
  show ?thesis
    using pid_read_prefix [OF wf assms(3,4) c] by (cases p) (auto split: if_splits)
qed

theorem packet_id_wire_roundtrip_witness:
  "\<exists>b1 b2. pid_write \<lparr>p_id = 258, p_time = 77\<rparr> LONG_FORM False (buf_of_array (replicate 16 0) False) = Inr b1
    \<and> pid_read LONG_FORM b1 = Inr (\<lparr>p_id = 258, p_time = 77\<rparr>, b2)"
proof -
  let ?b = "buf_of_array (replicate 16 0) False"
  have wf: "buf_wf ?b" by (simp add: buf_wf_of_array)
  have e: "False \<or> content ?b = []" by (simp add: content_of_array)
  obtain b1 where b1: "buf_write (be32 258) ?b = Inr b1" "b_cap b1 = b_cap ?b"
    using buf_write_fits [OF wf, of "be32 258"] by (auto simp: buf_of_array_def)
  note w = buf_write_ok [OF wf b1(1)]
  obtain b2 where b2: "buf_write (be32 77) b1 = Inr b2"
    using buf_write_fits [of b1 "be32 77"] w b1(2) by (auto simp: buf_of_array_def)
  have "pid_write \<lparr>p_id = 258, p_time = 77\<rparr> LONG_FORM False ?b = Inr b2"
    using b1 b2 by (simp add: pid_write_def Let_def)
  with packet_id_wire_roundtrip [OF wf e _ _ this] show ?thesis by auto
qed

end
