(* ===== verification/MsgWindow.thy ===== *)
theory MsgWindow
  imports Prelude
begin

text \<open>
  \<open>MessageWindow\<close> of \<open>common/msgwin.hpp\<close>, the object under both sides of the reliability layer:
  a deque of messages of which the first has the ID \<open>head_id_\<close>, and a window of \<open>span_\<close> IDs
  from there on.  The template parameter \<open>M\<close> is a record of the operations the template calls
  on it; what those operations owe the window is the locale \<open>window_message\<close>, interpreted on
  the message classes of \<open>reliable/\<close> in the theory \<open>Reliable\<close>.  The parameter \<open>id_t\<close> is
  \<open>std::uint32_t\<close>, as in every use of the template.
\<close>

section \<open>The window and its operations\<close>

text \<open>What the template needs of \<open>M\<close>: \<open>M()\<close>, \<open>defined()\<close>, \<open>erased()\<close> and \<open>erase()\<close>.\<close>

record 'm msg_class =
  m_new :: 'm
  m_defined :: "'m \<Rightarrow> bool"
  m_erased :: "'m \<Rightarrow> bool"
  m_erase :: "'m \<Rightarrow> 'm"

record 'm window =
  w_head :: u32
  w_span :: u32
  w_q :: "'m list"

definition win_default :: "'m window" where
  "win_default = \<lparr>w_head = 0, w_span = 0, w_q = []\<rparr>"

definition win_init :: "u32 \<Rightarrow> u32 \<Rightarrow> 'm window" where
  "win_init starting_head_id span = \<lparr>w_head = starting_head_id, w_span = span, w_q = []\<rparr>"

definition in_window :: "'m window \<Rightarrow> u32 \<Rightarrow> bool" where
  "in_window w i \<longleftrightarrow> i \<ge> w_head w \<and> i < w_head w + w_span w"

definition pre_window :: "'m window \<Rightarrow> u32 \<Rightarrow> bool" where
  "pre_window w i \<longleftrightarrow> i < w_head w"

definition tail_id :: "'m window \<Rightarrow> u32" where
  "tail_id w = w_head w + w_span w"

text \<open>\<open>grow\<close> appends default messages until \<open>needed_index\<close> is an index of the deque.\<close>

function grow_loop :: "'m msg_class \<Rightarrow> nat \<Rightarrow> 'm list \<Rightarrow> 'm list" where
  "grow_loop M needed q = (if length q \<le> needed then grow_loop M needed (q @ [m_new M]) else q)"
  by pat_completeness auto
termination
  by (relation "measure (\<lambda>(M, needed, q). Suc needed - length q)") auto

declare grow_loop.simps [simp del]

definition win_grow :: "'m msg_class \<Rightarrow> u32 \<Rightarrow> 'm window \<Rightarrow> 'm window" where
  "win_grow M i w = w\<lparr>w_q := grow_loop M (unat (i - w_head w)) (w_q w)\<rparr>"

text \<open>
  \<open>ref_by_id\<close> returns a reference into the deque: here the index of the message, beside the
  grown window.
\<close>

definition win_ref_by_id :: "'m msg_class \<Rightarrow> u32 \<Rightarrow> 'm window \<Rightarrow> (nat \<times> 'm window) res" where
  "win_ref_by_id M i w =
     (if in_window w i then Inr (unat (i - w_head w), win_grow M i w)
      else Inl message_window_ref_by_id)"

fun purge_loop :: "'m msg_class \<Rightarrow> u32 \<Rightarrow> 'm list \<Rightarrow> u32 \<times> 'm list" where
  "purge_loop M h [] = (h, [])"
| "purge_loop M h (m # q) = (if m_erased M m then purge_loop M (h + 1) q else (h, m # q))"

definition win_purge :: "'m msg_class \<Rightarrow> 'm window \<Rightarrow> 'm window" where
  "win_purge M w = (let (h, q) = purge_loop M (w_head w) (w_q w) in w\<lparr>w_head := h, w_q := q\<rparr>)"

definition win_rm_by_id :: "'m msg_class \<Rightarrow> u32 \<Rightarrow> 'm window \<Rightarrow> 'm window" where
  "win_rm_by_id M i w =
     win_purge M
       (if in_window w i then
          let w = win_grow M i w; k = unat (i - w_head w) in
          w\<lparr>w_q := (w_q w)[k := m_erase M (w_q w ! k)]\<rparr>
        else w)"

definition head_defined :: "'m msg_class \<Rightarrow> 'm window \<Rightarrow> bool" where
  "head_defined M w \<longleftrightarrow> w_q w \<noteq> [] \<and> m_defined M (hd (w_q w))"

definition win_ref_head :: "'m window \<Rightarrow> 'm res" where
  "win_ref_head w = (case w_q w of [] \<Rightarrow> Inl undefined_behaviour | m # _ \<Rightarrow> Inr m)"

text \<open>The head is erased before it is popped; only the pop is visible in the result.\<close>

definition win_rm_head_nocheck :: "'m msg_class \<Rightarrow> 'm window \<Rightarrow> 'm window res" where
  "win_rm_head_nocheck M w =
     (case w_q w of [] \<Rightarrow> Inl undefined_behaviour
      | m # q \<Rightarrow> Inr (w\<lparr>w_q := tl (m_erase M m # q), w_head := w_head w + 1\<rparr>))"

definition win_rm_head :: "'m msg_class \<Rightarrow> 'm window \<Rightarrow> 'm window res" where
  "win_rm_head M w =
     (if head_defined M w then win_rm_head_nocheck M w else Inl message_window_rm_head)"

section \<open>Loops in closed form\<close>

lemma grow_loop_eq: "grow_loop M n q = q @ replicate (Suc n - length q) (m_new M)"
proof (induction M n q rule: grow_loop.induct)
  case (1 M needed q)
  show ?case
  proof (cases "length q \<le> needed")
    case True
    then have "Suc needed - length q = Suc (Suc needed - length (q @ [m_new M]))" by simp
    then show ?thesis
      using 1 [OF True] True by (simp add: grow_loop.simps [of M needed q])
  next
    case False
    then show ?thesis by (simp add: grow_loop.simps [of M needed q])
  qed
qed

lemma purge_loop_eq:
  "purge_loop M h q =
     (h + of_nat (length (takeWhile (m_erased M) q)), dropWhile (m_erased M) q)"
  by (induction q arbitrary: h) (simp_all add: ac_simps)

text \<open>
  Invariant: the deque never reaches past the last 32-bit ID.  It needs no bound on the number
  of messages: once \<open>head_id_ + span_\<close> wraps, no ID is in the window any more.
\<close>

definition win_wf :: "'m window \<Rightarrow> bool" where
  "win_wf w \<longleftrightarrow> unat (w_head w) + length (w_q w) < 2 ^ 32"

text \<open>The message with number \<open>k\<close>: what \<open>ref_by_id\<close> refers to after it has grown the deque.\<close>

definition win_at :: "'m msg_class \<Rightarrow> 'm window \<Rightarrow> nat \<Rightarrow> 'm" where
  "win_at M w k =
     (if unat (w_head w) \<le> k \<and> k < unat (w_head w) + length (w_q w)
      then w_q w ! (k - unat (w_head w)) else m_new M)"

lemma in_window_nat:
  "in_window w i \<longleftrightarrow>
     unat (w_head w) \<le> unat i \<and> unat i < unat (w_head w) + unat (w_span w) \<and>
     unat (w_head w) + unat (w_span w) < 2 ^ 32"
proof (cases "unat (w_head w) + unat (w_span w) < 2 ^ 32")
  case True
  then have "unat (w_head w + w_span w) = unat (w_head w) + unat (w_span w)"
    by (simp add: unat_word_ariths)
  then show ?thesis
    using True by (simp add: in_window_def word_le_nat_alt word_less_nat_alt)
next
  case False
  have b: "unat (w_head w) < 2 ^ 32" "unat (w_span w) < 2 ^ 32"
    using unsigned_less [of "w_head w"] unsigned_less [of "w_span w"] by simp_all
  then have "unat (w_head w + w_span w) = unat (w_head w) + unat (w_span w) - 2 ^ 32"
    using False by (simp add: unat_word_ariths mod_if)
  then have "unat (w_head w + w_span w) \<le> unat (w_head w)" using b by linarith
  then have "\<not> in_window w i"
    by (auto simp: in_window_def word_le_nat_alt word_less_nat_alt)
  then show ?thesis using False by simp
qed

lemma pre_window_nat: "pre_window w i \<longleftrightarrow> unat i < unat (w_head w)"
  by (simp add: pre_window_def word_less_nat_alt)

lemma win_wf_init [simp]: "win_wf (win_init h span)"
  using unsigned_less [of h] by (simp add: win_wf_def win_init_def)

lemma win_grow_simps [simp]:
  "w_head (win_grow M i w) = w_head w"
  "w_span (win_grow M i w) = w_span w"
  by (simp_all add: win_grow_def)

lemma win_grow_length:
  "length (w_q (win_grow M i w)) = max (length (w_q w)) (Suc (unat (i - w_head w)))"
  by (simp add: win_grow_def grow_loop_eq)

lemma win_grow_wf: "win_wf w \<Longrightarrow> in_window w i \<Longrightarrow> win_wf (win_grow M i w)"
  by (auto simp: win_wf_def win_grow_length in_window_nat unat_minus word_le_nat_alt)

lemma win_grow_at [simp]: "win_at M (win_grow M i w) = win_at M w"
  by (rule ext) (auto simp: win_at_def win_grow_def grow_loop_eq nth_append)

lemma win_at_set:
  assumes "in_window w i" and "k = unat (i - w_head w)" and "k < length (w_q w)"
  shows "win_at M (w\<lparr>w_q := (w_q w)[k := m]\<rparr>) = (win_at M w)(unat i := m)"
  using assms by (auto simp: fun_eq_iff win_at_def in_window_nat unat_minus word_le_nat_alt)

lemma win_ref_by_id_iff: "win_ref_by_id M i w = Inl message_window_ref_by_id \<longleftrightarrow> \<not> in_window w i"
  by (simp add: win_ref_by_id_def)

lemma win_ref_by_id_ok:
  assumes "win_wf w" and "in_window w i"
  obtains k w' where "win_ref_by_id M i w = Inr (k, w')"
    "w_head w' = w_head w" "w_span w' = w_span w" "win_wf w'" "win_at M w' = win_at M w"
    "k = unat i - unat (w_head w)" "k < length (w_q w')" "w_q w' ! k = win_at M w (unat i)"
    "\<And>m. win_at M (w'\<lparr>w_q := (w_q w')[k := m]\<rparr>) = (win_at M w)(unat i := m)"
    "\<And>m. win_wf (w'\<lparr>w_q := (w_q w')[k := m]\<rparr>)"
proof
  let ?w = "win_grow M i w" and ?k = "unat (i - w_head w)"
  have le: "w_head w \<le> i" using assms(2) by (simp add: in_window_def)
  show "win_ref_by_id M i w = Inr (?k, ?w)"
    using assms(2) by (simp add: win_ref_by_id_def)
  show wf: "win_wf ?w" using assms by (rule win_grow_wf)
  show k: "?k = unat i - unat (w_head w)" using le by (simp add: unat_minus)
  show len: "?k < length (w_q ?w)" by (simp add: win_grow_length)
  have "win_at M ?w (unat i) = w_q ?w ! ?k"
    using len k le unfolding win_at_def [of M "win_grow M i w"] word_le_nat_alt
    by (simp del: win_grow_at) linarith
  then show "w_q ?w ! ?k = win_at M w (unat i)" by simp
  show "win_at M (?w\<lparr>w_q := (w_q ?w)[?k := m]\<rparr>) = (win_at M w)(unat i := m)" for m
    using win_at_set [of ?w i ?k M m] assms(2) len by (simp add: in_window_def)
  show "win_wf (?w\<lparr>w_q := (w_q ?w)[?k := m]\<rparr>)" for m
    using wf by (simp add: win_wf_def)
qed simp_all

lemma win_rm_head_nocheck_ok:
  assumes "win_wf w" and "w_q w \<noteq> []"
  obtains w' where "win_rm_head_nocheck M w = Inr w'" "win_wf w'" "w_span w' = w_span w"
    "unat (w_head w') = Suc (unat (w_head w))" "w_q w' = tl (w_q w)"
    "win_at M w' = (win_at M w)(unat (w_head w) := m_new M)"
proof -
  obtain m q where q: "w_q w = m # q" using assms(2) by (cases "w_q w") auto
  have "unat (w_head w) + Suc (length q) < 2 ^ 32" using assms(1) q by (simp add: win_wf_def)
  then have "Suc (unat (w_head w)) < 2 ^ 32" by linarith
  then have h: "unat (w_head w + 1) = Suc (unat (w_head w))"
    by (simp add: unat_word_ariths)
  let ?w = "w\<lparr>w_q := q, w_head := w_head w + 1\<rparr>"
  show thesis
  proof (rule that [of ?w])
    show "win_at M ?w = (win_at M w)(unat (w_head w) := m_new M)"
      using h q by (auto simp: fun_eq_iff win_at_def nth_Cons' Suc_le_eq)
  qed (use q h assms(1) in \<open>simp_all add: win_rm_head_nocheck_def win_wf_def\<close>)
qed

section \<open>What the message class promises\<close>

locale window_message =
  fixes M :: "'m msg_class"
  assumes new_defined: "\<not> m_defined M (m_new M)"
    and new_erased: "\<not> m_erased M (m_new M)"
    and erase_defined: "\<not> m_defined M (m_erase M m)"
    and erase_erased: "m_erased M (m_erase M m)"
begin

text \<open>The head of a purged window is no erased message.\<close>

lemma purge_head: "w_q (win_purge M w) \<noteq> [] \<Longrightarrow> \<not> m_erased M (hd (w_q (win_purge M w)))"
  by (simp add: win_purge_def purge_loop_eq hd_dropWhile)

lemma purge_ok:
  assumes wf: "win_wf w"
  shows "win_wf (win_purge M w)"
    and "w_span (win_purge M w) = w_span w"
    and "unat (w_head (win_purge M w)) =
           unat (w_head w) + length (takeWhile (m_erased M) (w_q w))"
    and "unat (w_head (win_purge M w)) \<le> k \<Longrightarrow> win_at M (win_purge M w) k = win_at M w k"
    and "unat (w_head w) \<le> k \<Longrightarrow> k < unat (w_head (win_purge M w)) \<Longrightarrow> m_erased M (win_at M w k)"
proof -
  let ?n = "length (takeWhile (m_erased M) (w_q w))"
  have n: "?n \<le> length (w_q w)" by (rule length_takeWhile_le)
  have len: "length (dropWhile (m_erased M) (w_q w)) = length (w_q w) - ?n"
    using arg_cong [OF takeWhile_dropWhile_id [of "m_erased M" "w_q w"], of length]
    unfolding length_append by linarith
  have "unat (w_head w) + ?n < 2 ^ 32" using n wf unfolding win_wf_def by linarith
  moreover from this have "unat (of_nat ?n :: u32) = ?n"
    by (simp add: unat_of_nat)
  ultimately have h: "unat (w_head w + of_nat ?n) = unat (w_head w) + ?n"
    by (simp add: unat_word_ariths)
  have head: "w_head (win_purge M w) = w_head w + of_nat ?n"
    and q: "w_q (win_purge M w) = drop ?n (w_q w)"
    by (simp_all add: win_purge_def purge_loop_eq dropWhile_eq_drop)
  show "w_span (win_purge M w) = w_span w" by (simp add: win_purge_def purge_loop_eq)
  show hd': "unat (w_head (win_purge M w)) = unat (w_head w) + ?n" using head h by simp
  show "win_wf (win_purge M w)" using wf n unfolding win_wf_def hd' q by simp
  show "unat (w_head (win_purge M w)) \<le> k \<Longrightarrow> win_at M (win_purge M w) k = win_at M w k"
    unfolding win_at_def hd' q by (auto simp: n)
  assume k: "unat (w_head w) \<le> k" "k < unat (w_head (win_purge M w))"
  then have "k - unat (w_head w) < ?n" using hd' by linarith
  moreover have "w_q w ! (k - unat (w_head w)) = takeWhile (m_erased M) (w_q w) ! (k - unat (w_head w))"
    using calculation by (simp add: takeWhile_nth)
  ultimately have "m_erased M (w_q w ! (k - unat (w_head w)))"
    using nth_mem set_takeWhileD by metis
  moreover have "k < unat (w_head w) + length (w_q w)" using k hd' n by linarith
  ultimately show "m_erased M (win_at M w k)" using k by (simp add: win_at_def)
qed

text \<open>
  \<open>rm_by_id\<close>: an ID of the window is erased and the head moves over erased messages only; any
  other ID leaves every message as it is.
\<close>

lemma rm_by_id_ok:
  fixes i :: u32
  assumes wf: "win_wf w"
  defines "v \<equiv> win_rm_by_id M i w"
  defines "f \<equiv> (if in_window w i then (win_at M w)(unat i := m_erase M (win_at M w (unat i)))
                else win_at M w)"
  shows "win_wf v" and "w_span v = w_span w" and "w_head w \<le> w_head v"
    and "unat (w_head v) \<le> unat (w_head w) + max (length (w_q w)) (if in_window w i then Suc (unat i - unat (w_head w)) else 0)"
    and "unat (w_head v) \<le> k \<Longrightarrow> win_at M v k = f k"
    and "unat (w_head w) \<le> k \<Longrightarrow> k < unat (w_head v) \<Longrightarrow> m_erased M (f k)"
    and "w_q v \<noteq> [] \<Longrightarrow> \<not> m_erased M (hd (w_q v))"
proof -
  define u where "u = (if in_window w i then
      let w = win_grow M i w; k = unat (i - w_head w) in
      w\<lparr>w_q := (w_q w)[k := m_erase M (w_q w ! k)]\<rparr> else w)"
  have v: "v = win_purge M u" by (simp add: v_def u_def win_rm_by_id_def)
  have u: "win_wf u \<and> w_span u = w_span w \<and> w_head u = w_head w \<and> win_at M u = f
    \<and> length (w_q u) = max (length (w_q w)) (if in_window w i then Suc (unat i - unat (w_head w)) else 0)"
  proof (cases "in_window w i")
    case True
    then have "w_head w \<le> i" by (simp add: in_window_def)
    with True show ?thesis
      by (rule_tac win_ref_by_id_ok [OF wf True, of M])
        (auto simp: win_ref_by_id_def u_def f_def Let_def win_grow_length unat_minus)
  next
    case False
    then show ?thesis using wf by (simp add: u_def f_def)
  qed
  note p = purge_ok [of u, folded v]
  show "win_wf v" "w_span v = w_span w" using p(1,2) u by simp_all
  have h: "unat (w_head v) = unat (w_head w) + length (takeWhile (m_erased M) (w_q u))"
    using p(3) u by simp
  then show "w_head w \<le> w_head v" by (simp add: word_le_nat_alt)
  show "unat (w_head v) \<le> unat (w_head w) + max (length (w_q w)) (if in_window w i then Suc (unat i - unat (w_head w)) else 0)"
    using h u length_takeWhile_le [of "m_erased M" "w_q u"] by simp
  show "unat (w_head v) \<le> k \<Longrightarrow> win_at M v k = f k" using p(4) u by simp
  show "unat (w_head w) \<le> k \<Longrightarrow> k < unat (w_head v) \<Longrightarrow> m_erased M (f k)" using p(5) u by simp
  show "w_q v \<noteq> [] \<Longrightarrow> \<not> m_erased M (hd (w_q v))" using purge_head v by simp
qed

end

end
