(* ===== verification/Reliable.thy ===== *)
theory Reliable
  imports MsgWindow Buffers Times
begin

text \<open>
  The reliability layer of the control channel: \<open>reliable/relcommon.hpp\<close> (the message classes),
  \<open>reliable/relrecv.hpp\<close> (\<open>rr_*\<close>), \<open>reliable/relsend.hpp\<close> (\<open>rs_*\<close>) and
  \<open>reliable/relack.hpp\<close> (\<open>ra_*\<close>).  The template parameter \<open>PACKET\<close>, a smart-pointer like
  class with a null state, is \<open>'p option\<close>.  References into the window are indices of its
  deque.  Operations that can throw half way return the state they leave behind beside the
  result.
\<close>

section \<open>Messages\<close>

text \<open>\<open>ReliableMessageBase\<close>; the two \<open>Message\<close> classes derive from it.\<close>

record 'p rel_message =
  rm_packet :: "'p option"
  rm_id :: u32
  rm_erased :: bool

record 'p send_message = "'p rel_message" +
  rm_retransmit_at :: time_pt

definition rel_defined :: "('p, 'z) rel_message_scheme \<Rightarrow> bool" where
  "rel_defined m \<longleftrightarrow> rm_packet m \<noteq> None"

definition rel_erase :: "('p, 'z) rel_message_scheme \<Rightarrow> ('p, 'z) rel_message_scheme" where
  "rel_erase m = m\<lparr>rm_id := 0, rm_packet := None, rm_erased := True\<rparr>"

definition recv_message_new :: "'p rel_message" where
  "recv_message_new = \<lparr>rm_packet = None, rm_id = 0, rm_erased = False\<rparr>"

definition send_message_new :: "'p send_message" where
  "send_message_new =
     \<lparr>rm_packet = None, rm_id = 0, rm_erased = False, rm_retransmit_at = time_zero\<rparr>"

definition recv_class :: "'p rel_message msg_class" where
  "recv_class = \<lparr>m_new = recv_message_new, m_defined = rel_defined, m_erased = rm_erased,
                 m_erase = rel_erase\<rparr>"

definition send_class :: "'p send_message msg_class" where
  "send_class = \<lparr>m_new = send_message_new, m_defined = rel_defined, m_erased = rm_erased,
                 m_erase = rel_erase\<rparr>"

lemma recv_class_simps [simp]:
  "m_new recv_class = recv_message_new" "m_defined recv_class = rel_defined"
  "m_erased recv_class = rm_erased" "m_erase recv_class = rel_erase"
  by (simp_all add: recv_class_def)

lemma send_class_simps [simp]:
  "m_new send_class = send_message_new" "m_defined send_class = rel_defined"
  "m_erased send_class = rm_erased" "m_erase send_class = rel_erase"
  by (simp_all add: send_class_def)

interpretation rwin: window_message "recv_class :: 'p rel_message msg_class"
  by unfold_locales (simp_all add: recv_message_new_def rel_defined_def rel_erase_def)

interpretation swin: window_message "send_class :: 'p send_message msg_class"
  by unfold_locales (simp_all add: send_message_new_def rel_defined_def rel_erase_def)

section \<open>Receiver\<close>

type_synonym 'p rel_recv = "'p rel_message window"

definition ACK_TO_SENDER :: u32 where "ACK_TO_SENDER = 1"
definition IN_WINDOW :: u32 where "IN_WINDOW = 2"

definition rr_default :: "'p rel_recv" where
  "rr_default = win_default"

definition rr_init :: "u32 \<Rightarrow> 'p rel_recv" where
  "rr_init span = win_init 0 span"

definition rr_receive :: "'p option \<Rightarrow> u32 \<Rightarrow> 'p rel_recv \<Rightarrow> (u32 \<times> 'p rel_recv) res" where
  "rr_receive p i w =
     (if in_window w i then
        bindE (win_ref_by_id recv_class i w) (\<lambda>(k, w).
          Inr (ACK_TO_SENDER OR IN_WINDOW,
               w\<lparr>w_q := (w_q w)[k := (w_q w ! k)\<lparr>rm_id := i, rm_packet := p\<rparr>]\<rparr>))
      else Inr (if pre_window w i then ACK_TO_SENDER else 0, w))"

definition rr_ready :: "'p rel_recv \<Rightarrow> bool" where
  "rr_ready w \<longleftrightarrow> head_defined recv_class w"

definition rr_next_sequenced :: "'p rel_recv \<Rightarrow> 'p rel_message res" where
  "rr_next_sequenced w = win_ref_head w"

definition rr_advance :: "'p rel_recv \<Rightarrow> 'p rel_recv res" where
  "rr_advance w = win_rm_head_nocheck recv_class w"

section \<open>Sender\<close>

record 'p rel_send =
  rs_next :: u32
  rs_window :: "'p send_message window"

definition msg_ready_retransmit :: "time_pt \<Rightarrow> 'p send_message \<Rightarrow> bool" where
  "msg_ready_retransmit now m \<longleftrightarrow> rel_defined m \<and> now \<ge> rm_retransmit_at m"

definition msg_until_retransmit :: "time_pt \<Rightarrow> 'p send_message \<Rightarrow> duration" where
  "msg_until_retransmit now m =
     (if now < rm_retransmit_at m then time_sub (rm_retransmit_at m) now else dur_zero)"

definition msg_reset_retransmit :: "time_pt \<Rightarrow> duration \<Rightarrow> 'p send_message \<Rightarrow> 'p send_message" where
  "msg_reset_retransmit now tls_timeout m = m\<lparr>rm_retransmit_at := time_add now tls_timeout\<rparr>"

definition rs_init :: "u32 \<Rightarrow> 'p rel_send" where
  "rs_init span = \<lparr>rs_next = 0, rs_window = win_init 0 span\<rparr>"

definition rs_head_id :: "'p rel_send \<Rightarrow> u32" where
  "rs_head_id s = w_head (rs_window s)"

definition rs_tail_id :: "'p rel_send \<Rightarrow> u32" where
  "rs_tail_id s = tail_id (rs_window s)"

definition rs_span :: "'p rel_send \<Rightarrow> u32" where
  "rs_span s = w_span (rs_window s)"

definition rs_ref_by_id :: "u32 \<Rightarrow> 'p rel_send \<Rightarrow> (nat \<times> 'p rel_send) res" where
  "rs_ref_by_id i s =
     bindE (win_ref_by_id send_class i (rs_window s)) (\<lambda>(k, w). Inr (k, s\<lparr>rs_window := w\<rparr>))"

definition rs_set :: "nat \<Rightarrow> 'p send_message \<Rightarrow> 'p rel_send \<Rightarrow> 'p rel_send" where
  "rs_set k m s = s\<lparr>rs_window := (rs_window s)\<lparr>w_q := (w_q (rs_window s))[k := m]\<rparr>\<rparr>"

definition rs_get :: "nat \<Rightarrow> 'p rel_send \<Rightarrow> 'p send_message" where
  "rs_get k s = w_q (rs_window s) ! k"

text \<open>
  The loops \<open>for (id_t i = head_id(); i < tail_id(); ++i)\<close> over \<open>ref_by_id(i)\<close>, with the value
  each computes.
\<close>

function until_loop ::
    "time_pt \<Rightarrow> u32 \<Rightarrow> u32 \<Rightarrow> duration \<Rightarrow> 'p rel_send \<Rightarrow> (duration \<times> 'p rel_send) res" where
  "until_loop now i tail ret s =
     (if i < tail then
        bindE (rs_ref_by_id i s) (\<lambda>(k, s).
          let msg = rs_get k s;
              ret = (if rel_defined msg then
                       let ut = msg_until_retransmit now msg in if ut < ret then ut else ret
                     else ret) in
          until_loop now (i + 1) tail ret s)
      else Inr (ret, s))"
  by pat_completeness auto
termination
  by (relation "measure (\<lambda>(now, i, tail, ret, s). unat tail - unat i)")
    (auto simp: word_less_nat_alt unat_plus_one)

declare until_loop.simps [simp del]

definition rs_until_retransmit :: "time_pt \<Rightarrow> 'p rel_send \<Rightarrow> (duration \<times> 'p rel_send) res" where
  "rs_until_retransmit now s = until_loop now (rs_head_id s) (rs_tail_id s) dur_infinite s"

function unacked_loop :: "u32 \<Rightarrow> u32 \<Rightarrow> u32 \<Rightarrow> 'p rel_send \<Rightarrow> (u32 \<times> 'p rel_send) res" where
  "unacked_loop i tail ret s =
     (if i < tail then
        bindE (rs_ref_by_id i s) (\<lambda>(k, s).
          unacked_loop (i + 1) tail (if rel_defined (rs_get k s) then ret + 1 else ret) s)
      else Inr (ret, s))"
  by pat_completeness auto
termination
  by (relation "measure (\<lambda>(i, tail, ret, s). unat tail - unat i)")
    (auto simp: word_less_nat_alt unat_plus_one)

declare unacked_loop.simps [simp del]

definition rs_n_unacked :: "'p rel_send \<Rightarrow> (u32 \<times> 'p rel_send) res" where
  "rs_n_unacked s = unacked_loop (rs_head_id s) (rs_tail_id s) 0 s"

definition rs_send :: "time_pt \<Rightarrow> duration \<Rightarrow> 'p rel_send \<Rightarrow> (nat \<times> 'p rel_send) res" where
  "rs_send now tls_timeout s =
     bindE (win_ref_by_id send_class (rs_next s) (rs_window s)) (\<lambda>(k, w).
       let msg = w_q w ! k;
           msg = msg\<lparr>rm_id := rs_next s\<rparr>;
           msg = msg_reset_retransmit now tls_timeout msg in
       Inr (k, rs_set k msg \<lparr>rs_next = rs_next s + 1, rs_window = w\<rparr>))"

definition rs_ready :: "'p rel_send \<Rightarrow> bool" where
  "rs_ready s \<longleftrightarrow> in_window (rs_window s) (rs_next s)"

definition rs_ack :: "u32 \<Rightarrow> 'p rel_send \<Rightarrow> 'p rel_send" where
  "rs_ack i s = s\<lparr>rs_window := win_rm_by_id send_class i (rs_window s)\<rparr>"

section \<open>Acknowledgements\<close>

record rel_ack =
  ra_max :: nat
  ra_data :: "u32 list"

definition ra_init :: "nat \<Rightarrow> rel_ack" where
  "ra_init max_ack_list =
     \<lparr>ra_max = (if max_ack_list \<noteq> 0 then max_ack_list else SZ - 1), ra_data = []\<rparr>"

definition ra_push_back :: "u32 \<Rightarrow> rel_ack \<Rightarrow> rel_ack" where
  "ra_push_back v a = a\<lparr>ra_data := ra_data a @ [v]\<rparr>"

definition ra_front :: "rel_ack \<Rightarrow> u32 res" where
  "ra_front a = (case ra_data a of [] \<Rightarrow> Inl undefined_behaviour | i # _ \<Rightarrow> Inr i)"

definition ra_pop_front :: "rel_ack \<Rightarrow> rel_ack res" where
  "ra_pop_front a = (case ra_data a of [] \<Rightarrow> Inl undefined_behaviour | _ # d \<Rightarrow> Inr (a\<lparr>ra_data := d\<rparr>))"

definition ra_read_id :: "buffer \<Rightarrow> (u32 \<times> buffer) res" where
  "ra_read_id b = bindE (buf_read 4 b) (\<lambda>(bs, b). Inr (of_be32 bs, b))"

definition ra_prepend_id :: "u32 \<Rightarrow> buffer \<Rightarrow> buffer res" where
  "ra_prepend_id i b = buf_prepend (be32 i) b"

text \<open>\<open>ack\<close>: the IDs before the one whose read throws have been acknowledged by then.\<close>

fun ack_loop :: "nat \<Rightarrow> bool \<Rightarrow> buffer \<Rightarrow> 'p rel_send \<Rightarrow> buffer res \<times> 'p rel_send" where
  "ack_loop 0 live b s = (Inr b, s)"
| "ack_loop (Suc n) live b s =
     (case ra_read_id b of
        Inl e \<Rightarrow> (Inl e, s)
      | Inr (i, b) \<Rightarrow> ack_loop n live b (if live then rs_ack i s else s))"

definition ra_ack :: "bool \<Rightarrow> buffer \<Rightarrow> 'p rel_send \<Rightarrow> (nat \<times> buffer) res \<times> 'p rel_send" where
  "ra_ack live b s =
     (case buf_pop_front b of
        Inl e \<Rightarrow> (Inl e, s)
      | Inr (len, b) \<Rightarrow>
          let (r, s) = ack_loop (unat len) live b s in (bindE r (\<lambda>b. Inr (unat len, b)), s))"

fun ack_skip_loop :: "nat \<Rightarrow> buffer \<Rightarrow> buffer res" where
  "ack_skip_loop 0 b = Inr b"
| "ack_skip_loop (Suc n) b = bindE (ra_read_id b) (\<lambda>(_, b). ack_skip_loop n b)"

definition ra_ack_skip :: "buffer \<Rightarrow> (nat \<times> buffer) res" where
  "ra_ack_skip b =
     bindE (buf_pop_front b) (\<lambda>(len, b).
       bindE (ack_skip_loop (unat len) b) (\<lambda>b. Inr (unat len, b)))"

fun ra_read_loop :: "nat \<Rightarrow> buffer \<Rightarrow> rel_ack \<Rightarrow> buffer res \<times> rel_ack" where
  "ra_read_loop 0 b a = (Inr b, a)"
| "ra_read_loop (Suc n) b a =
     (case ra_read_id b of
        Inl e \<Rightarrow> (Inl e, a)
      | Inr (i, b) \<Rightarrow> ra_read_loop n b (ra_push_back i a))"

definition ra_read :: "buffer \<Rightarrow> rel_ack \<Rightarrow> buffer res \<times> rel_ack" where
  "ra_read b a =
     (case buf_pop_front b of
        Inl e \<Rightarrow> (Inl e, a)
      | Inr (len, b) \<Rightarrow> ra_read_loop (unat len) b a)"

text \<open>\<open>prepend\<close> writes backwards, the last of the first \<open>len\<close> IDs first.\<close>

fun prepend_loop :: "nat \<Rightarrow> u32 list \<Rightarrow> buffer \<Rightarrow> buffer res" where
  "prepend_loop 0 d b = Inr b"
| "prepend_loop (Suc i) d b = bindE (ra_prepend_id (d ! i) b) (prepend_loop i d)"

definition ra_prepend :: "rel_ack \<Rightarrow> buffer \<Rightarrow> (buffer \<times> rel_ack) res" where
  "ra_prepend a b =
     (let len = min (length (ra_data a)) (ra_max a) in
      bindE (prepend_loop len (ra_data a) b) (\<lambda>b.
        bindE (buf_push_front (of_nat len) b) (\<lambda>b.
          Inr (b, a\<lparr>ra_data := drop len (ra_data a)\<rparr>))))"

section \<open>Receiver lemmas\<close>

text \<open>\<open>rr_at w k\<close>: the packet held for message \<open>k\<close>.\<close>

definition rr_at :: "'p rel_recv \<Rightarrow> nat \<Rightarrow> 'p option" where
  "rr_at w k = rm_packet (win_at recv_class w k)"

lemma rr_init_at [simp]: "rr_at (rr_init span) k = None"
  by (simp add: rr_at_def win_at_def rr_init_def win_init_def recv_message_new_def)

lemma rr_receive_in:
  assumes "win_wf w" and "in_window w i"
  shows "\<exists>w'. rr_receive p i w = Inr (3, w') \<and> win_wf w' \<and> w_head w' = w_head w
    \<and> w_span w' = w_span w \<and> rr_at w' = (rr_at w)(unat i := p)"
proof -
  obtain k w1 where r: "win_ref_by_id recv_class i w = Inr (k, w1)" "w_head w1 = w_head w"
    "w_span w1 = w_span w" and upd:
    "\<And>m. win_at recv_class (w1\<lparr>w_q := (w_q w1)[k := m]\<rparr>) = (win_at recv_class w)(unat i := m)"
    "\<And>m. win_wf (w1\<lparr>w_q := (w_q w1)[k := m]\<rparr>)"
    using win_ref_by_id_ok [OF assms, of recv_class] by metis
  show ?thesis
    using assms(2) r upd
    by (simp add: rr_receive_def ACK_TO_SENDER_def IN_WINDOW_def rr_at_def [abs_def] fun_eq_iff)
qed

lemma rr_receive_out:
  "\<not> in_window w i \<Longrightarrow>
   rr_receive p i w = Inr (if unat i < unat (w_head w) then 1 else 0, w)"
  by (simp add: rr_receive_def pre_window_nat ACK_TO_SENDER_def)

lemma rr_ready_at: "rr_ready w \<longleftrightarrow> rr_at w (unat (w_head w)) \<noteq> None"
  by (cases "w_q w")
    (simp_all add: rr_ready_def head_defined_def rr_at_def win_at_def rel_defined_def
      recv_message_new_def)

lemma rr_ready_next:
  "rr_ready w \<Longrightarrow> \<exists>m. rr_next_sequenced w = Inr m \<and> rm_packet m = rr_at w (unat (w_head w))"
  by (cases "w_q w")
    (simp_all add: rr_ready_def head_defined_def rr_at_def win_at_def rr_next_sequenced_def
      win_ref_head_def)

lemma rr_advance_ok:
  assumes "win_wf w" and "rr_ready w"
  shows "\<exists>w'. rr_advance w = Inr w' \<and> win_wf w' \<and> w_span w' = w_span w
    \<and> unat (w_head w') = Suc (unat (w_head w)) \<and> rr_at w' = (rr_at w)(unat (w_head w) := None)"
proof -
  have "w_q w \<noteq> []" using assms(2) by (simp add: rr_ready_def head_defined_def)
  then obtain w' where "win_rm_head_nocheck recv_class w = Inr w'" "win_wf w'"
    "w_span w' = w_span w" "unat (w_head w') = Suc (unat (w_head w))"
    "win_at recv_class w' = (win_at recv_class w)(unat (w_head w) := m_new recv_class)"
    using win_rm_head_nocheck_ok [OF assms(1), of recv_class] by metis
  then show ?thesis
    by (simp add: rr_advance_def rr_at_def [abs_def] fun_eq_iff recv_message_new_def)
qed

section \<open>Sender lemmas\<close>

definition rs_at :: "'p rel_send \<Rightarrow> nat \<Rightarrow> 'p send_message" where
  "rs_at s = win_at send_class (rs_window s)"

text \<open>
  The sender's invariant: no message is stored at or after the next ID.
\<close>

definition rs_inv :: "'p rel_send \<Rightarrow> bool" where
  "rs_inv s \<longleftrightarrow> win_wf (rs_window s) \<and> rs_head_id s \<le> rs_next s \<and>
     (\<forall>k \<ge> unat (rs_next s). rs_at s k = send_message_new)"

text \<open>Growing the deque is not visible: two states with the same messages.\<close>

definition rs_same :: "'p rel_send \<Rightarrow> 'p rel_send \<Rightarrow> bool" where
  "rs_same s s' \<longleftrightarrow> rs_next s' = rs_next s \<and> rs_head_id s' = rs_head_id s \<and> rs_span s' = rs_span s
     \<and> rs_at s' = rs_at s \<and> win_wf (rs_window s')"

lemma rs_same_refl: "win_wf (rs_window s) \<Longrightarrow> rs_same s s"
  by (simp add: rs_same_def)

lemma rs_same_trans: "rs_same s t \<Longrightarrow> rs_same t u \<Longrightarrow> rs_same s u"
  by (simp add: rs_same_def)

lemma rs_same_inv: "rs_same s s' \<Longrightarrow> rs_inv s \<Longrightarrow> rs_inv s'"
  by (simp add: rs_same_def rs_inv_def)

lemma rs_inv_init [simp]: "rs_inv (rs_init span)"
  by (simp add: rs_inv_def rs_init_def rs_head_id_def rs_at_def win_at_def)
    (simp add: win_init_def)

lemma rs_ref_by_id_ok:
  assumes "win_wf (rs_window s)" and "in_window (rs_window s) i"
  obtains k s' where "rs_ref_by_id i s = Inr (k, s')" "rs_same s s'"
    "rs_get k s' = rs_at s (unat i)"
    "\<And>m. rs_at (rs_set k m s') = (rs_at s)(unat i := m)"
    "\<And>m. win_wf (rs_window (rs_set k m s'))"
proof -
  obtain k w1 where w1: "win_ref_by_id send_class i (rs_window s) = Inr (k, w1)"
    "w_head w1 = w_head (rs_window s)" "w_span w1 = w_span (rs_window s)" "win_wf w1"
    "win_at send_class w1 = win_at send_class (rs_window s)"
    "w_q w1 ! k = win_at send_class (rs_window s) (unat i)"
    "\<And>m. win_at send_class (w1\<lparr>w_q := (w_q w1)[k := m]\<rparr>)
      = (win_at send_class (rs_window s))(unat i := m)"
    "\<And>m. win_wf (w1\<lparr>w_q := (w_q w1)[k := m]\<rparr>)"
    using win_ref_by_id_ok [OF assms, of send_class] by metis
  show thesis
    by (rule that [of k "s\<lparr>rs_window := w1\<rparr>"])
      (use w1 in \<open>simp_all add: rs_ref_by_id_def rs_same_def rs_head_id_def rs_span_def rs_at_def
        rs_get_def rs_set_def\<close>)
qed

text \<open>
  \<open>send\<close> and the caller's assignment of the packet: the message is stored under the next ID and
  nothing else changes.
\<close>

definition rs_send_packet :: "time_pt \<Rightarrow> duration \<Rightarrow> 'p \<Rightarrow> 'p rel_send \<Rightarrow> (u32 \<times> 'p rel_send) res" where
  "rs_send_packet now tls_timeout p s =
     bindE (rs_send now tls_timeout s) (\<lambda>(k, s).
       let m = (rs_get k s)\<lparr>rm_packet := Some p\<rparr> in Inr (rm_id m, rs_set k m s))"

lemma rs_ready_nat:
  "rs_ready s \<longleftrightarrow> unat (rs_head_id s) \<le> unat (rs_next s)
     \<and> unat (rs_next s) < unat (rs_head_id s) + unat (rs_span s)
     \<and> unat (rs_head_id s) + unat (rs_span s) < 2 ^ 32"
  by (simp add: rs_ready_def in_window_nat rs_head_id_def rs_span_def)

lemma rs_send_packet_ok:
  assumes "rs_inv s" and "rs_ready s"
  shows "\<exists>s'. rs_send_packet now t p s = Inr (rs_next s, s') \<and> rs_inv s'
    \<and> unat (rs_next s') = Suc (unat (rs_next s)) \<and> rs_head_id s' = rs_head_id s
    \<and> rs_span s' = rs_span s
    \<and> rs_at s' = (rs_at s)(unat (rs_next s) := \<lparr>rm_packet = Some p, rm_id = rs_next s,
         rm_erased = False, rm_retransmit_at = time_add now t\<rparr>)"
proof -
  let ?m = "\<lparr>rm_packet = Some p, rm_id = rs_next s, rm_erased = False,
              rm_retransmit_at = time_add now t\<rparr>"
  have wf: "win_wf (rs_window s)" and fresh: "rs_at s k = send_message_new"
    if "unat (rs_next s) \<le> k" for k
    using assms(1) that by (auto simp: rs_inv_def)
  obtain k w1 where w1: "win_ref_by_id send_class (rs_next s) (rs_window s) = Inr (k, w1)"
    "w_head w1 = w_head (rs_window s)" "w_span w1 = w_span (rs_window s)"
    "k < length (w_q w1)"
    "w_q w1 ! k = win_at send_class (rs_window s) (unat (rs_next s))"
    "\<And>m. win_at send_class (w1\<lparr>w_q := (w_q w1)[k := m]\<rparr>)
      = (win_at send_class (rs_window s))(unat (rs_next s) := m)"
    "\<And>m. win_wf (w1\<lparr>w_q := (w_q w1)[k := m]\<rparr>)"
    using win_ref_by_id_ok [of "rs_window s" "rs_next s" send_class] assms
    unfolding rs_ready_def rs_inv_def by metis
  have m0: "w_q w1 ! k = send_message_new"
    using w1(5) fresh [of "unat (rs_next s)"] by (simp add: rs_at_def)
  let ?w = "w1\<lparr>w_q := (w_q w1)[k := ?m]\<rparr>"
  have r: "rs_send_packet now t p s = Inr (rs_next s, \<lparr>rs_next = rs_next s + 1, rs_window = ?w\<rparr>)"
    using w1(1,4) m0
    by (simp add: rs_send_packet_def rs_send_def Let_def rs_set_def rs_get_def
        msg_reset_retransmit_def send_message_new_def)
  have "Suc (unat (rs_next s)) < 2 ^ 32" using assms(2) by (simp add: rs_ready_nat)
  then have n: "unat (rs_next s + 1) = Suc (unat (rs_next s))" by (simp add: unat_word_ariths)
  have at: "rs_at \<lparr>rs_next = rs_next s + 1, rs_window = ?w\<rparr> = (rs_at s)(unat (rs_next s) := ?m)"
    using w1(6) by (simp add: rs_at_def)
  have "rs_head_id s \<le> rs_next s" using assms(1) by (simp add: rs_inv_def)
  then have "w_head w1 \<le> rs_next s + 1"
    using n w1(2) by (simp add: rs_head_id_def word_le_nat_alt)
  with r n at w1 fresh show ?thesis
    by (intro exI [of _ "\<lparr>rs_next = rs_next s + 1, rs_window = ?w\<rparr>"])
      (auto simp: rs_inv_def rs_head_id_def rs_span_def)
qed

text \<open>
  An acknowledgement of a sent message erases it, whatever else it does to the window; the head
  only moves over erased messages.
\<close>

definition rs_erased_at :: "u32 \<Rightarrow> 'p rel_send \<Rightarrow> nat \<Rightarrow> 'p send_message" where
  "rs_erased_at i s =
     (if in_window (rs_window s) i then (rs_at s)(unat i := rel_erase (rs_at s (unat i)))
      else rs_at s)"

lemma rs_ack_ok:
  assumes inv: "rs_inv s" and i: "i < rs_next s"
  shows "rs_inv (rs_ack i s)" and "rs_next (rs_ack i s) = rs_next s"
    and "rs_span (rs_ack i s) = rs_span s" and "rs_head_id s \<le> rs_head_id (rs_ack i s)"
    and "unat (rs_head_id (rs_ack i s)) \<le> k \<Longrightarrow> rs_at (rs_ack i s) k = rs_erased_at i s k"
    and "unat (rs_head_id s) \<le> k \<Longrightarrow> k < unat (rs_head_id (rs_ack i s)) \<Longrightarrow>
           rm_erased (rs_erased_at i s k)"
proof -
  have wf: "win_wf (rs_window s)" using inv by (simp add: rs_inv_def)
  note r = swin.rm_by_id_ok [OF wf, where i = i, folded rs_at_def]
  have f: "(if in_window (rs_window s) i
      then (rs_at s)(unat i := m_erase send_class (rs_at s (unat i))) else rs_at s) = rs_erased_at i s"
    by (simp add: rs_erased_at_def)
  show next': "rs_next (rs_ack i s) = rs_next s" by (simp add: rs_ack_def)
  show "rs_span (rs_ack i s) = rs_span s" using r(2) by (simp add: rs_ack_def rs_span_def)
  show "rs_head_id s \<le> rs_head_id (rs_ack i s)"
    using r(3) by (simp add: rs_ack_def rs_head_id_def)
  have at': "rs_at (rs_ack i s) k = rs_erased_at i s k" if "unat (rs_head_id (rs_ack i s)) \<le> k" for k
    using r(5) [of k] that unfolding f by (simp add: rs_ack_def rs_head_id_def rs_at_def)
  then show "unat (rs_head_id (rs_ack i s)) \<le> k \<Longrightarrow> rs_at (rs_ack i s) k = rs_erased_at i s k" .
  have er: "rm_erased (rs_erased_at i s k)"
    if "unat (rs_head_id s) \<le> k" "k < unat (rs_head_id (rs_ack i s))" for k
    using r(6) [of k] that unfolding f by (simp add: rs_ack_def rs_head_id_def)
  then show "unat (rs_head_id s) \<le> k \<Longrightarrow> k < unat (rs_head_id (rs_ack i s)) \<Longrightarrow>
      rm_erased (rs_erased_at i s k)" .
  have fresh: "rs_erased_at i s k = send_message_new" if "unat (rs_next s) \<le> k" for k
    using that inv i by (auto simp: rs_erased_at_def rs_inv_def word_less_nat_alt)
  have "rs_head_id (rs_ack i s) \<le> rs_next s"
  proof (rule ccontr)
    assume "\<not> rs_head_id (rs_ack i s) \<le> rs_next s"
    then have "rm_erased (rs_erased_at i s (unat (rs_next s)))"
      using inv by (intro er) (simp_all add: rs_inv_def word_le_nat_alt)
    then show False using fresh [of "unat (rs_next s)"] by (simp add: send_message_new_def)
  qed
  moreover have "win_wf (rs_window (rs_ack i s))" using r(1) by (simp add: rs_ack_def)
  ultimately show "rs_inv (rs_ack i s)"
    using at' fresh next' by (auto simp: rs_inv_def word_le_nat_alt)
qed

text \<open>The loops over the window compute folds over the messages and never throw.\<close>

lemma in_window_tail:
  "w_head (rs_window s) \<le> i \<Longrightarrow> i < rs_tail_id s \<Longrightarrow> in_window (rs_window s) i"
  by (simp add: in_window_def rs_tail_id_def tail_id_def)

definition until_step :: "time_pt \<Rightarrow> 'p rel_send \<Rightarrow> nat \<Rightarrow> duration \<Rightarrow> duration" where
  "until_step now s k ret =
     (if rel_defined (rs_at s k) then min (msg_until_retransmit now (rs_at s k)) ret else ret)"

lemma upt_unat_less:
  fixes i tail :: u32
  assumes "i < tail"
  shows "[unat i ..< unat tail] = unat i # [unat (i + 1) ..< unat tail]"
  using assms by (simp add: unat_plus_one upt_conv_Cons word_less_nat_alt)

lemma until_loop_ok:
  assumes "win_wf (rs_window s)" and "rs_head_id s \<le> i" and "tail = rs_tail_id s"
  shows "\<exists>s'. until_loop now i tail ret s = Inr (fold (until_step now s) [unat i ..< unat tail] ret, s')
    \<and> rs_same s s'"
  using assms
proof (induction now i tail ret s rule: until_loop.induct)
  case (1 now i tail ret s)
  show ?case
  proof (cases "i < tail")
    case False
    then show ?thesis
      using 1(2) by (simp add: until_loop.simps [of now i] rs_same_refl word_less_nat_alt)
  next
    case True
    then have iw: "in_window (rs_window s) i"
      using in_window_tail [of s i] 1(3,4) by (simp add: rs_head_id_def)
    obtain k s1 where s1: "rs_ref_by_id i s = Inr (k, s1)" "rs_same s s1"
      "rs_get k s1 = rs_at s (unat i)"
      by (rule rs_ref_by_id_ok [OF 1(2) iw])
    have le: "rs_head_id s1 \<le> i + 1"
      using 1(3) s1(2) unat_plus_one [OF True] by (simp add: rs_same_def word_le_nat_alt)
    have tl: "tail = rs_tail_id s1"
      using 1(4) s1(2) by (simp add: rs_same_def rs_tail_id_def tail_id_def rs_head_id_def rs_span_def)
    have step: "until_step now s1 = until_step now s"
      using s1(2) by (simp add: fun_eq_iff until_step_def rs_same_def)
    have ret: "(if rel_defined (rs_get k s1) then let ut = msg_until_retransmit now (rs_get k s1)
        in if ut < ret then ut else ret else ret) = until_step now s (unat i) ret"
      by (auto simp: until_step_def s1(3) Let_def min_def)
    have wf: "win_wf (rs_window s1)" using s1(2) by (simp add: rs_same_def)
    have unroll: "until_loop now i tail ret s =
        until_loop now (i + 1) tail (until_step now s (unat i) ret) s1"
      using True s1(1) ret by (simp add: until_loop.simps [of now i] Let_def)
    have ih: "\<exists>s'. until_loop now (i + 1) tail (until_step now s (unat i) ret) s1 =
        Inr (fold (until_step now s1) [unat (i + 1) ..< unat tail] (until_step now s (unat i) ret), s')
        \<and> rs_same s1 s'"
      using 1(1) [OF True s1(1) refl refl refl wf le tl] unfolding ret .
    then show ?thesis
      using rs_same_trans [OF s1(2)] by (auto simp: unroll step upt_unat_less [OF True])
  qed
qed

lemma unacked_loop_ok:
  assumes "win_wf (rs_window s)" and "rs_head_id s \<le> i" and "tail = rs_tail_id s"
  shows "\<exists>s'. unacked_loop i tail ret s =
      Inr (ret + of_nat (length (filter (\<lambda>k. rel_defined (rs_at s k)) [unat i ..< unat tail])), s')
    \<and> rs_same s s'"
  using assms
proof (induction i tail ret s rule: unacked_loop.induct)
  case (1 i tail ret s)
  show ?case
  proof (cases "i < tail")
    case False
    then show ?thesis
      using 1(2) by (simp add: unacked_loop.simps [of i] rs_same_refl word_less_nat_alt)
  next
    case True
    then have iw: "in_window (rs_window s) i"
      using in_window_tail [of s i] 1(3,4) by (simp add: rs_head_id_def)
    obtain k s1 where s1: "rs_ref_by_id i s = Inr (k, s1)" "rs_same s s1"
      "rs_get k s1 = rs_at s (unat i)"
      by (rule rs_ref_by_id_ok [OF 1(2) iw])
    have le: "rs_head_id s1 \<le> i + 1"
      using 1(3) s1(2) unat_plus_one [OF True] by (simp add: rs_same_def word_le_nat_alt)
    have tl: "tail = rs_tail_id s1"
      using 1(4) s1(2) by (simp add: rs_same_def rs_tail_id_def tail_id_def rs_head_id_def rs_span_def)
    have at: "rs_at s1 = rs_at s" and wf: "win_wf (rs_window s1)"
      using s1(2) by (simp_all add: rs_same_def)
    from 1(1) [OF True s1(1) refl wf le tl] show ?thesis
      using True s1 rs_same_trans [of s s1]
      by (auto simp: unacked_loop.simps [of i] at upt_unat_less ac_simps)
  qed
qed

section \<open>Acknowledgements on the wire\<close>

definition ack_bytes :: "u32 list \<Rightarrow> u8 list" where
  "ack_bytes is = concat (map be32 is)"

lemma ack_bytes_simps [simp]:
  "ack_bytes [] = []" "ack_bytes (i # is) = be32 i @ ack_bytes is"
  "ack_bytes (is @ js) = ack_bytes is @ ack_bytes js"
  by (simp_all add: ack_bytes_def)

lemma length_ack_bytes [simp]: "length (ack_bytes is) = 4 * length is"
  by (induction "is") simp_all

lemma ra_read_id_ok:
  assumes "buf_wf b" and "content b = be32 i @ rest"
  shows "\<exists>b'. ra_read_id b = Inr (i, b') \<and> buf_wf b' \<and> content b' = rest \<and> b_off b' = b_off b + 4"
  using wire32.decode_front [OF assms] by (simp add: ra_read_id_def)

lemma prepend_loop_Inr:
  assumes "buf_wf b" and "prepend_loop n d b = Inr b'" and "n \<le> length d"
  shows "buf_wf b' \<and> content b' = ack_bytes (take n d) @ content b \<and> 4 * n \<le> b_off b
    \<and> b_off b' = b_off b - 4 * n"
  using assms
proof (induction n d b arbitrary: b' rule: prepend_loop.induct)
  case (2 i d b)
  obtain b1 where b1: "buf_prepend (be32 (d ! i)) b = Inr b1" "prepend_loop i d b1 = Inr b'"
    using 2(3) by (auto simp: ra_prepend_id_def exn_simps)
  have w: "buf_wf b1 \<and> content b1 = be32 (d ! i) @ content b \<and> 4 \<le> b_off b \<and> b_off b1 = b_off b - 4"
    using wire.prepend_Inr [OF 2(2) b1(1)] by simp
  have "ra_prepend_id (d ! i) b = Inr b1" using b1(1) by (simp add: ra_prepend_id_def)
  from 2(1) [OF this _ b1(2)] w 2(4) show ?case
    by (auto simp: take_Suc_conv_app_nth)
qed simp

lemma prepend_loop_ok:
  "buf_wf b \<Longrightarrow> 4 * n \<le> b_off b \<Longrightarrow> \<exists>b'. prepend_loop n d b = Inr b'"
proof (induction n d b rule: prepend_loop.induct)
  case (2 i d b)
  obtain b1 where b1: "buf_prepend (be32 (d ! i)) b = Inr b1" "buf_wf b1" "b_off b1 = b_off b - 4"
    using wire32.encode_front [OF 2(2), of "d ! i"] 2(3) by auto
  then have "ra_prepend_id (d ! i) b = Inr b1" by (simp add: ra_prepend_id_def)
  with 2(1) [OF this] b1 2(3) show ?case by auto
qed simp

lemma ack_loop_ok:
  "buf_wf b \<Longrightarrow> content b = ack_bytes is @ rest \<Longrightarrow>
   \<exists>b'. ack_loop (length is) live b s = (Inr b', if live then fold rs_ack is s else s)
     \<and> buf_wf b' \<and> content b' = rest \<and> b_off b' = b_off b + 4 * length is"
proof (induction "is" arbitrary: b s)
  case (Cons i "is")
  obtain b1 where b1: "ra_read_id b = Inr (i, b1)" "buf_wf b1" "content b1 = ack_bytes is @ rest"
    "b_off b1 = b_off b + 4"
    using ra_read_id_ok [OF Cons(2)] Cons(3) by (metis ack_bytes_simps(2) append.assoc)
  from Cons(1) [OF b1(2,3), of "if live then rs_ack i s else s"] b1 show ?case by auto
qed simp

lemma ack_skip_loop_ok:
  "buf_wf b \<Longrightarrow> content b = ack_bytes is @ rest \<Longrightarrow>
   \<exists>b'. ack_skip_loop (length is) b = Inr b' \<and> buf_wf b' \<and> content b' = rest
     \<and> b_off b' = b_off b + 4 * length is"
proof (induction "is" arbitrary: b)
  case (Cons i "is")
  obtain b1 where b1: "ra_read_id b = Inr (i, b1)" "buf_wf b1" "content b1 = ack_bytes is @ rest"
    "b_off b1 = b_off b + 4"
    using ra_read_id_ok [OF Cons(2)] Cons(3) by (metis ack_bytes_simps(2) append.assoc)
  from Cons(1) [OF b1(2,3)] b1 show ?case by auto
qed simp

lemma ra_read_loop_ok:
  "buf_wf b \<Longrightarrow> content b = ack_bytes is @ rest \<Longrightarrow>
   \<exists>b'. ra_read_loop (length is) b a = (Inr b', a\<lparr>ra_data := ra_data a @ is\<rparr>)
     \<and> buf_wf b' \<and> content b' = rest"
proof (induction "is" arbitrary: b a)
  case (Cons i "is")
  obtain b1 where b1: "ra_read_id b = Inr (i, b1)" "buf_wf b1" "content b1 = ack_bytes is @ rest"
    using ra_read_id_ok [OF Cons(2)] Cons(3) by (metis ack_bytes_simps(2) append.assoc)
  from Cons(1) [OF b1(2,3), of "ra_push_back i a"] b1 show ?case
    by (auto simp: ra_push_back_def)
qed simp

lemma ra_prepend_Inr:
  assumes "buf_wf b" and "ra_prepend a b = Inr (b', a')"
  defines "n \<equiv> min (length (ra_data a)) (ra_max a)"
  shows "buf_wf b' \<and> content b' = of_nat n # ack_bytes (take n (ra_data a)) @ content b
    \<and> a' = a\<lparr>ra_data := drop n (ra_data a)\<rparr> \<and> 4 * n < b_off b \<and> b_off b' = b_off b - 4 * n - 1"
proof -
  obtain b1 where b1: "prepend_loop n (ra_data a) b = Inr b1" "buf_push_front (of_nat n) b1 = Inr b'"
    and a': "a' = a\<lparr>ra_data := drop n (ra_data a)\<rparr>"
    using assms(2) by (auto simp: ra_prepend_def Let_def exn_simps n_def)
  have w1: "buf_wf b1 \<and> content b1 = ack_bytes (take n (ra_data a)) @ content b \<and> 4 * n \<le> b_off b
      \<and> b_off b1 = b_off b - 4 * n"
    by (rule prepend_loop_Inr [OF assms(1) b1(1)]) (simp add: n_def)
  then have off: "b_off b1 \<noteq> 0" and p: "buf_prepend [of_nat n] b1 = Inr b'"
    using b1(2) buf_push_front_prepend [of b1 "of_nat n"]
    by (auto simp: buf_push_front_def split: if_splits)
  from wire.prepend_Inr [OF conjunct1 [OF w1] p] w1 off a' show ?thesis by simp
qed

lemma ra_prepend_ok:
  assumes "buf_wf b" and "4 * min (length (ra_data a)) (ra_max a) < b_off b"
  shows "\<exists>b' a'. ra_prepend a b = Inr (b', a')"
proof -
  let ?n = "min (length (ra_data a)) (ra_max a)"
  obtain b1 where b1: "prepend_loop ?n (ra_data a) b = Inr b1"
    using prepend_loop_ok [OF assms(1), of ?n] assms(2) by auto
  have "b_off b1 \<noteq> 0"
    using prepend_loop_Inr [OF assms(1) b1] assms(2) by simp
  with b1 show ?thesis by (simp add: ra_prepend_def Let_def buf_push_front_def)
qed

lemma ra_pop_count:
  assumes "buf_wf b" and "content b = c # rest"
  shows "\<exists>b'. buf_pop_front b = Inr (c, b') \<and> buf_wf b' \<and> content b' = rest \<and> b_off b' = b_off b + 1"
proof -
  have "b_size b = Suc (length rest)" using assms length_content [of b] by simp
  then have "buf_pop_front b = Inr (hd (content b), b\<lparr>b_off := b_off b + 1, b_size := b_size b - 1\<rparr>)"
    using buf_pop_front_eq [OF assms(1)] by simp
  then show ?thesis
    using assms content_advance [where b = b and n = 1] buf_read_alloc_wf [where b = b and n = 1] \<open>b_size b = _\<close> by simp
qed

section \<open>Properties\<close>

lemma fold_until:
  defines "D \<equiv> \<lambda>s k. rel_defined (rs_at s k)"
  shows "fold (until_step now s) ks ret \<le> ret
    \<and> (\<forall>k\<in>set ks. D s k \<longrightarrow> fold (until_step now s) ks ret \<le> msg_until_retransmit now (rs_at s k))
    \<and> (fold (until_step now s) ks ret = ret
       \<or> (\<exists>k\<in>set ks. D s k \<and> fold (until_step now s) ks ret = msg_until_retransmit now (rs_at s k)))"
proof (induction ks arbitrary: ret)
  case (Cons k ks)
  have "until_step now s k ret \<le> ret" "D s k \<Longrightarrow> until_step now s k ret \<le> msg_until_retransmit now (rs_at s k)"
    "until_step now s k ret = ret \<or> D s k \<and> until_step now s k ret = msg_until_retransmit now (rs_at s k)"
    by (auto simp: until_step_def D_def min_def)
  with Cons [of "until_step now s k ret"] show ?case
    by (auto intro: order_trans)
qed simp

text \<open>The numbers of the messages in the window that await an acknowledgement.\<close>

definition rs_pending :: "'p rel_send \<Rightarrow> nat set" where
  "rs_pending s = {k. unat (rs_head_id s) \<le> k \<and> k < unat (rs_head_id s) + unat (rs_span s)
                      \<and> rel_defined (rs_at s k)}"

lemma rs_pending_set:
  assumes "unat (rs_head_id s) + unat (rs_span s) < 2 ^ 32"
  shows "rs_pending s = {k \<in> {unat (rs_head_id s) ..< unat (rs_tail_id s)}. rel_defined (rs_at s k)}"
proof -
  have "unat (rs_tail_id s) = unat (rs_head_id s) + unat (rs_span s)"
    using assms by (simp add: rs_tail_id_def tail_id_def rs_head_id_def rs_span_def unat_word_ariths)
  then show ?thesis by (auto simp: rs_pending_def)
qed

lemma rs_until_ok:
  assumes "rs_inv s" and "unat (rs_head_id s) + unat (rs_span s) < 2 ^ 32"
  shows "\<exists>d s1. rs_until_retransmit now s = Inr (d, s1) \<and> rs_same s s1
       \<and> (rs_pending s = {} \<longrightarrow> d = dur_infinite)
       \<and> (\<forall>k\<in>rs_pending s. d \<le> msg_until_retransmit now (rs_at s k))
       \<and> (rs_pending s \<noteq> {} \<longrightarrow> (\<exists>k\<in>rs_pending s. d = msg_until_retransmit now (rs_at s k)))"
proof -
  have wf: "win_wf (rs_window s)" using assms(1) by (simp add: rs_inv_def)
  define ks where "ks = [unat (rs_head_id s) ..< unat (rs_tail_id s)]"
  have p: "rs_pending s = {k \<in> set ks. rel_defined (rs_at s k)}"
    using rs_pending_set [OF assms(2)] by (simp add: ks_def)
  let ?d = "fold (until_step now s) ks dur_infinite"
  obtain s1 where s1: "rs_until_retransmit now s = Inr (?d, s1)" "rs_same s s1"
    using until_loop_ok [OF wf order_refl refl, of now dur_infinite]
    by (auto simp: rs_until_retransmit_def ks_def)
  note f = fold_until [of now s ks dur_infinite]
  have le: "\<forall>k\<in>rs_pending s. ?d \<le> msg_until_retransmit now (rs_at s k)"
    using f by (simp add: p)
  have "\<exists>k\<in>rs_pending s. ?d = msg_until_retransmit now (rs_at s k)" if "rs_pending s \<noteq> {}"
  proof (cases "?d = dur_infinite")
    case True
    then show ?thesis using le that dur_le_infinite by (metis antisym ex_in_conv)
  next
    case False
    then show ?thesis using f by (auto simp: p)
  qed
  moreover have "?d = dur_infinite" if "rs_pending s = {}"
    using f that by (auto simp: p)
  ultimately show ?thesis using s1 le by blast
qed

lemma rs_n_unacked_ok:
  assumes "rs_inv s" and "unat (rs_head_id s) + unat (rs_span s) < 2 ^ 32"
  shows "\<exists>s2. rs_n_unacked s = Inr (of_nat (card (rs_pending s)), s2) \<and> rs_same s s2"
proof -
  have wf: "win_wf (rs_window s)" using assms(1) by (simp add: rs_inv_def)
  define ks where "ks = [unat (rs_head_id s) ..< unat (rs_tail_id s)]"
  have "card (rs_pending s) = length (filter (\<lambda>k. rel_defined (rs_at s k)) ks)"
    unfolding rs_pending_set [OF assms(2)]
    using distinct_card [of "filter (\<lambda>k. rel_defined (rs_at s k)) ks"] by (simp add: ks_def)
  then show ?thesis
    using unacked_loop_ok [OF wf order_refl refl, of 0] by (auto simp: rs_n_unacked_def ks_def)
qed

text \<open>
  C11. Round trip: the acknowledgement list that \<open>ReliableAck::prepend\<close> puts in front of a message
  is read back exactly, in order, by \<open>ack\<close> (each ID acknowledged in the sender when the packet is
  live, none when it is not), by \<open>ack_skip\<close> and by \<open>read\<close>; the rest of the message is
  untouched, and the IDs not sent stay queued.  It holds for lists of fewer than 256 IDs, the
  count being one byte on the wire.
\<close>

theorem ack_list_roundtrip:
  assumes "buf_wf b" and "ra_prepend a b = Inr (b', a')"
    and "n = min (length (ra_data a)) (ra_max a)" and "n < 256"
  shows "(\<exists>r. ra_ack live b' s = (Inr (n, r), if live then fold rs_ack (take n (ra_data a)) s else s)
            \<and> content r = content b \<and> b_off r = b_off b)
       \<and> (\<exists>r. ra_ack_skip b' = Inr (n, r) \<and> content r = content b \<and> b_off r = b_off b)
       \<and> (\<exists>r. ra_read b' x = (Inr r, x\<lparr>ra_data := ra_data x @ take n (ra_data a)\<rparr>)
            \<and> content r = content b)
       \<and> take n (ra_data a) @ ra_data a' = ra_data a"
proof -
  define ids where "ids = take n (ra_data a)"
  have len: "length ids = n" and cnt: "unat (of_nat n :: u8) = length ids"
    using assms(3,4) by (simp_all add: ids_def unat_of_nat)
  have b': "buf_wf b'" "content b' = of_nat n # ack_bytes ids @ content b"
    "ra_data a' = drop n (ra_data a)" "4 * n < b_off b" "b_off b' = b_off b - 4 * n - 1"
    using ra_prepend_Inr [OF assms(1,2)] assms(3) by (auto simp: ids_def)
  obtain b1 where b1: "buf_pop_front b' = Inr (of_nat n, b1)" "buf_wf b1"
    "content b1 = ack_bytes ids @ content b" "b_off b1 = b_off b' + 1"
    using ra_pop_count [OF b'(1,2)] by blast
  obtain r where "ack_loop (length ids) live b1 s = (Inr r, if live then fold rs_ack ids s else s)"
    "content r = content b" "b_off r = b_off b1 + 4 * length ids"
    using ack_loop_ok [OF b1(2,3)] by blast
  moreover obtain r' where "ack_skip_loop (length ids) b1 = Inr r'" "content r' = content b"
    "b_off r' = b_off b1 + 4 * length ids"
    using ack_skip_loop_ok [OF b1(2,3)] by blast
  moreover obtain r'' where "ra_read_loop (length ids) b1 x = (Inr r'', x\<lparr>ra_data := ra_data x @ ids\<rparr>)"
    "content r'' = content b"
    using ra_read_loop_ok [OF b1(2,3)] by blast
  ultimately show ?thesis
    using b1(1,4) b'(3,4,5) len
    by (simp add: ra_ack_def ra_ack_skip_def ra_read_def cnt [simplified] ids_def [symmetric])
      (simp add: ids_def)
qed

text \<open>
  C12. Functional: \<open>until_retransmit\<close> never throws, leaves the messages as they are and returns
  the smallest time to a retransmission among all messages still unacknowledged, \<open>infinite\<close> when
  there is none; \<open>n_unacked\<close> returns their number.  So a retransmission timer set from it neither
  oversleeps a pending message nor fires for none.
\<close>

theorem retransmit_timer_exact:
  assumes "rs_inv s" and "unat (rs_head_id s) + unat (rs_span s) < 2 ^ 32"
  shows "\<exists>d s1 s2. rs_until_retransmit now s = Inr (d, s1) \<and> rs_same s s1
       \<and> (rs_pending s = {} \<longrightarrow> d = dur_infinite)
       \<and> (\<forall>k\<in>rs_pending s. d \<le> msg_until_retransmit now (rs_at s k))
       \<and> (rs_pending s \<noteq> {} \<longrightarrow> (\<exists>k\<in>rs_pending s. d = msg_until_retransmit now (rs_at s k)))
       \<and> rs_n_unacked s = Inr (of_nat (card (rs_pending s)), s2) \<and> rs_same s s2"
  using rs_until_ok [OF assms, of now] rs_n_unacked_ok [OF assms] by blast

definition demo_acks :: rel_ack where
  "demo_acks = \<lparr>ra_max = 2, ra_data = [7, 0x01020304, 9]\<rparr>"

definition demo_control :: buffer where
  "demo_control = \<lparr>b_data = replicate 20 0, b_off = 16, b_size = 4, b_cap = 20, b_kind = Plain\<rparr>"

lemma demo_control_wf: "buf_wf demo_control"
  by (simp add: demo_control_def buf_wf_def)

theorem ack_list_roundtrip_witness:
  "\<exists>b' a' r. ra_prepend demo_acks demo_control = Inr (b', a') \<and>
     ra_ack True b' (rs_init 4 :: nat rel_send) =
       (Inr (2, r), fold rs_ack [7, 0x01020304] (rs_init 4)) \<and>
     content r = content demo_control \<and> ra_data a' = [9]"
proof -
  obtain b' a' where p: "ra_prepend demo_acks demo_control = Inr (b', a')"
    using ra_prepend_ok [OF demo_control_wf, of demo_acks]
    by (auto simp: demo_acks_def demo_control_def)
  have n: "2 = min (length (ra_data demo_acks)) (ra_max demo_acks)" by (simp add: demo_acks_def)
  from ack_list_roundtrip [OF demo_control_wf p n, where live = True and s = "rs_init 4 :: nat rel_send"] p
  show ?thesis by (auto simp: demo_acks_def)
qed

definition demo_sender :: "nat rel_send" where
  "demo_sender = \<lparr>rs_next = 2, rs_window = \<lparr>w_head = 0, w_span = 4, w_q =
     [\<lparr>rm_packet = Some 70, rm_id = 0, rm_erased = False, rm_retransmit_at = Time 5000\<rparr>,
      \<lparr>rm_packet = Some 71, rm_id = 1, rm_erased = False, rm_retransmit_at = Time 3000\<rparr>]\<rparr>\<rparr>"

lemma demo_sender_inv: "rs_inv demo_sender"
  by (auto simp: rs_inv_def demo_sender_def win_wf_def rs_head_id_def rs_at_def win_at_def)

lemma demo_sender_pending: "rs_pending demo_sender = {0, 1}"
  by (auto simp: rs_pending_def demo_sender_def rs_head_id_def rs_span_def rs_at_def win_at_def
      rel_defined_def send_message_new_def nth_Cons' split: if_splits)

theorem retransmit_timer_exact_witness:
  "\<exists>s1 s2. rs_until_retransmit (Time 1000) demo_sender = Inr (Duration 2000, s1) \<and>
     rs_n_unacked demo_sender = Inr (2, s2)"
proof -
  have d: "unat (rs_head_id demo_sender) + unat (rs_span demo_sender) < 2 ^ 32"
    by (simp add: demo_sender_def rs_head_id_def rs_span_def)
  have t: "msg_until_retransmit (Time 1000) (rs_at demo_sender 0) = Duration 4000"
    "msg_until_retransmit (Time 1000) (rs_at demo_sender 1) = Duration 2000"
    by (simp_all add: demo_sender_def rs_at_def win_at_def msg_until_retransmit_def
        less_time_pt_def time_sub_def time_is_infinite_def T_max_def)
  obtain d s1 s2 where r: "rs_until_retransmit (Time 1000) demo_sender = Inr (d, s1)"
    "rs_n_unacked demo_sender = Inr (of_nat (card {0 :: nat, 1}), s2)"
    "d \<le> Duration 4000" "d \<le> Duration 2000" "d = Duration 4000 \<or> d = Duration 2000"
    using retransmit_timer_exact [OF demo_sender_inv d, of "Time 1000"]
    unfolding demo_sender_pending by (auto simp: t [simplified])
  then have "d = Duration 2000" by (auto simp: less_eq_duration_def)
  with r show ?thesis by simp
qed


end
