(* ===== verification/RelSystem.thy ===== *)
theory RelSystem
  imports Reliable
begin

text \<open>
  The two ends of the reliability layer joined by a network that loses, duplicates and reorders
  packets.  The sender's steps are the body of \<open>ProtoStackBase::down_stack_raw\<close> and the loop of
  \<open>ProtoStackBase::retransmit\<close>, the receiver's those of \<open>decapsulate\<close> and \<open>up_sequenced\<close>
  (\<open>ssl/protostack.hpp\<close>, \<open>ssl/proto.hpp\<close>), restricted to what they do to the reliability
  objects; acknowledgements travel as the bytes that \<open>ReliableAck\<close> writes.  The system is a step
  function on events, and \<open>rel_reach\<close> its reachable states; two ghost fields record what was
  sent and what was delivered.
\<close>

section \<open>Retransmission\<close>

text \<open>The loop of \<open>ProtoStackBase::retransmit\<close>; it returns the packets passed to \<open>net_send\<close>.\<close>

function retransmit_loop ::
    "time_pt \<Rightarrow> duration \<Rightarrow> u32 \<Rightarrow> u32 \<Rightarrow> (u32 \<times> 'p option) list \<Rightarrow> 'p rel_send
     \<Rightarrow> ((u32 \<times> 'p option) list \<times> 'p rel_send) res" where
  "retransmit_loop now t i tail out s =
     (if i < tail then
        bindE (rs_ref_by_id i s) (\<lambda>(k, s).
          let m = rs_get k s in
          if msg_ready_retransmit now m
          then retransmit_loop now t (i + 1) tail (out @ [(rm_id m, rm_packet m)])
                 (rs_set k (msg_reset_retransmit now t m) s)
          else retransmit_loop now t (i + 1) tail out s)
      else Inr (out, s))"
  by pat_completeness auto
termination
  by (relation "measure (\<lambda>(now, t, i, tail, out, s). unat tail - unat i)")
    (auto simp: word_less_nat_alt unat_plus_one)

declare retransmit_loop.simps [simp del]

definition rs_retransmit ::
    "time_pt \<Rightarrow> duration \<Rightarrow> 'p rel_send \<Rightarrow> ((u32 \<times> 'p option) list \<times> 'p rel_send) res" where
  "rs_retransmit now t s = retransmit_loop now t (rs_head_id s) (rs_tail_id s) [] s"

section \<open>The system\<close>

record 'p rel_sys =
  y_send :: "'p rel_send"
  y_recv :: "'p rel_recv"
  y_acks :: rel_ack
  y_net :: "(u32 \<times> 'p option) list"
  y_acknet :: "buffer list"
  y_sent :: "'p list"
  y_delivered :: "'p list"

datatype 'p rel_event =
    Send_ev 'p time_pt duration
  | Retransmit_ev time_pt duration
  | Deliver_ev nat
  | Lose_ev nat
  | Advance_ev
  | Ack_out_ev buffer
  | Ack_in_ev nat
  | Ack_lose_ev nat

definition rel_init :: "u32 \<Rightarrow> nat \<Rightarrow> 'p rel_sys" where
  "rel_init span max_ack =
     \<lparr>y_send = rs_init span, y_recv = rr_init span, y_acks = ra_init max_ack, y_net = [],
      y_acknet = [], y_sent = [], y_delivered = []\<rparr>"

definition remove_nth :: "nat \<Rightarrow> 'a list \<Rightarrow> 'a list" where
  "remove_nth n xs = take n xs @ drop (Suc n) xs"

text \<open>
  What each event does; \<open>None\<close> when it is not enabled or the operation throws.  A delivered
  packet stays in the network, so it can arrive again.
\<close>

fun rel_exec :: "'p rel_event \<Rightarrow> 'p rel_sys \<Rightarrow> 'p rel_sys option" where
  "rel_exec (Send_ev p now t) y =
     (if rs_ready (y_send y) then
        (case rs_send_packet now t p (y_send y) of
           Inl e \<Rightarrow> None
         | Inr (i, s) \<Rightarrow> Some (y\<lparr>y_send := s, y_net := y_net y @ [(i, Some p)],
                              y_sent := y_sent y @ [p]\<rparr>))
      else None)"
| "rel_exec (Retransmit_ev now t) y =
     (case rs_retransmit now t (y_send y) of
        Inl e \<Rightarrow> None
      | Inr (out, s) \<Rightarrow> Some (y\<lparr>y_send := s, y_net := y_net y @ out\<rparr>))"
| "rel_exec (Deliver_ev n) y =
     (if n < length (y_net y) then
        (case y_net y ! n of (i, p) \<Rightarrow>
          case rr_receive p i (y_recv y) of
            Inl e \<Rightarrow> None
          | Inr (rflags, r) \<Rightarrow>
              Some (y\<lparr>y_recv := r,
                      y_acks := (if rflags AND ACK_TO_SENDER \<noteq> 0 then ra_push_back i (y_acks y)
                                 else y_acks y)\<rparr>))
      else None)"
| "rel_exec (Lose_ev n) y = Some (y\<lparr>y_net := remove_nth n (y_net y)\<rparr>)"
| "rel_exec Advance_ev y =
     (if rr_ready (y_recv y) then
        (case rr_next_sequenced (y_recv y) of
           Inl e \<Rightarrow> None
         | Inr m \<Rightarrow>
             (case rr_advance (y_recv y) of
                Inl e \<Rightarrow> None
              | Inr r \<Rightarrow>
                  (case rm_packet m of
                     None \<Rightarrow> None
                   | Some p \<Rightarrow> Some (y\<lparr>y_recv := r, y_delivered := y_delivered y @ [p]\<rparr>))))
      else None)"
| "rel_exec (Ack_out_ev b) y =
     (if buf_wf b then
        (case ra_prepend (y_acks y) b of
           Inl e \<Rightarrow> None
         | Inr (b', a) \<Rightarrow> Some (y\<lparr>y_acks := a, y_acknet := y_acknet y @ [b']\<rparr>))
      else None)"
| "rel_exec (Ack_in_ev n) y =
     (if n < length (y_acknet y)
      then Some (y\<lparr>y_send := snd (ra_ack True (y_acknet y ! n) (y_send y))\<rparr>)
      else None)"
| "rel_exec (Ack_lose_ev n) y = Some (y\<lparr>y_acknet := remove_nth n (y_acknet y)\<rparr>)"

inductive rel_reach :: "u32 \<Rightarrow> 'p rel_sys \<Rightarrow> bool" for span where
  reach_init: "rel_reach span (rel_init span max_ack)"
| reach_step: "rel_reach span y \<Longrightarrow> rel_exec ev y = Some y' \<Longrightarrow> rel_reach span y'"

fun rel_run :: "'p rel_event list \<Rightarrow> 'p rel_sys \<Rightarrow> 'p rel_sys option" where
  "rel_run [] y = Some y"
| "rel_run (ev # evs) y = (case rel_exec ev y of None \<Rightarrow> None | Some y \<Rightarrow> rel_run evs y)"

lemma rel_reach_run: "rel_reach span y \<Longrightarrow> rel_run evs y = Some y' \<Longrightarrow> rel_reach span y'"
  by (induction evs arbitrary: y) (auto split: option.splits intro: reach_step)

lemma rel_run_append:
  "rel_run (evs @ evs') y = (case rel_run evs y of None \<Rightarrow> None | Some y \<Rightarrow> rel_run evs' y)"
  by (induction evs arbitrary: y) (auto split: option.splits)

lemma in_remove_nth: "x \<in> set (remove_nth n xs) \<Longrightarrow> x \<in> set xs"
  unfolding remove_nth_def by (auto dest: in_set_takeD in_set_dropD)

section \<open>The sender against the list of messages sent\<close>

text \<open>Message \<open>k\<close> of \<open>L\<close> is still in the send window, to be retransmitted.\<close>

definition rs_holds :: "'p list \<Rightarrow> 'p rel_send \<Rightarrow> nat \<Rightarrow> bool" where
  "rs_holds L s k \<longleftrightarrow> unat (rs_head_id s) \<le> k \<and> rm_packet (rs_at s k) = Some (L ! k)
     \<and> rm_id (rs_at s k) = of_nat k \<and> \<not> rm_erased (rs_at s k)"

definition snd_ok :: "'p list \<Rightarrow> (nat \<Rightarrow> bool) \<Rightarrow> 'p rel_send \<Rightarrow> bool" where
  "snd_ok L got s \<longleftrightarrow> rs_inv s \<and> length L = unat (rs_next s) \<and>
     length L \<le> unat (rs_head_id s) + unat (rs_span s) \<and>
     (\<forall>k < length L. rs_holds L s k \<or>
        got k \<and> (unat (rs_head_id s) \<le> k \<longrightarrow> rm_packet (rs_at s k) = None))"

lemma snd_ok_init: "snd_ok [] got (rs_init span)"
  by (simp add: snd_ok_def) (simp add: rs_init_def)

lemma snd_ok_mono: "snd_ok L got s \<Longrightarrow> (\<And>k. got k \<Longrightarrow> got' k) \<Longrightarrow> snd_ok L got' s"
  by (auto simp: snd_ok_def)

lemma snd_ok_same: "snd_ok L got s \<Longrightarrow> rs_same s s' \<Longrightarrow> snd_ok L got s'"
  using rs_same_inv [of s s'] by (simp add: snd_ok_def rs_holds_def rs_same_def)

lemma snd_ok_send:
  assumes "snd_ok L got s" and "rs_ready s"
  shows "\<exists>s'. rs_send_packet now t p s = Inr (rs_next s, s') \<and> snd_ok (L @ [p]) got s'
    \<and> rs_span s' = rs_span s"
proof -
  have inv: "rs_inv s" and len: "length L = unat (rs_next s)" using assms(1) by (simp_all add: snd_ok_def)
  obtain s' where s': "rs_send_packet now t p s = Inr (rs_next s, s')" "rs_inv s'"
    "unat (rs_next s') = Suc (unat (rs_next s))" "rs_head_id s' = rs_head_id s"
    "rs_span s' = rs_span s"
    "rs_at s' = (rs_at s)(unat (rs_next s) := \<lparr>rm_packet = Some p, rm_id = rs_next s,
       rm_erased = False, rm_retransmit_at = time_add now t\<rparr>)"
    using rs_send_packet_ok [OF inv assms(2)] by blast
  have old: "rs_holds (L @ [p]) s' k = rs_holds L s k" if "k < length L" for k
    using that s'(4,6) len by (simp add: rs_holds_def nth_append)
  have new: "rs_holds (L @ [p]) s' (length L)"
    using s'(4,6) len inv by (simp add: rs_holds_def rs_inv_def word_le_nat_alt nth_append)
  have "rs_at s' k = rs_at s k" if "k < length L" for k using s'(6) that len by simp
  then have "snd_ok (L @ [p]) got s'"
    using assms s'(2,3,4,5) len old new by (auto simp: snd_ok_def less_Suc_eq rs_ready_nat)
  with s'(1,5) show ?thesis by blast
qed

lemma snd_ok_ack:
  assumes ok: "snd_ok L got s" and i: "unat i < length L" and g: "got (unat i)"
  shows "snd_ok L got (rs_ack i s) \<and> rs_span (rs_ack i s) = rs_span s"
proof -
  have inv: "rs_inv s" and "i < rs_next s"
    using ok i by (simp_all add: snd_ok_def word_less_nat_alt)
  note a = rs_ack_ok [OF this]
  have "rs_holds L (rs_ack i s) k \<or>
      got k \<and> (unat (rs_head_id (rs_ack i s)) \<le> k \<longrightarrow> rm_packet (rs_at (rs_ack i s) k) = None)"
    if k: "k < length L" for k
  proof (cases "unat (rs_head_id (rs_ack i s)) \<le> k")
    case True
    then have h: "unat (rs_head_id s) \<le> k" using a(4) by (simp add: word_le_nat_alt)
    from a(5) [OF True] ok k g True h show ?thesis
      by (auto simp: snd_ok_def rs_holds_def rs_erased_at_def rel_erase_def)
  next
    case False
    have "got k"
    proof (cases "unat (rs_head_id s) \<le> k")
      case True
      with False have "rm_erased (rs_erased_at i s k)" by (intro a(6)) simp_all
      then show ?thesis
        using ok k g by (auto simp: rs_erased_at_def snd_ok_def rs_holds_def split: if_splits)
    next
      case False
      then show ?thesis using ok k by (auto simp: snd_ok_def rs_holds_def)
    qed
    with False show ?thesis by simp
  qed
  then show ?thesis using a(1,2,3,4) ok by (simp add: snd_ok_def word_le_nat_alt)
qed

lemma snd_ok_acks:
  "snd_ok L got s \<Longrightarrow> \<forall>i\<in>set is. got (unat i) \<and> unat i < length L \<Longrightarrow>
   snd_ok L got (fold rs_ack is s) \<and> rs_span (fold rs_ack is s) = rs_span s"
proof (induction "is" arbitrary: s)
  case (Cons i "is")
  with snd_ok_ack [of L got s i] show ?case by simp
qed simp

text \<open>
  The retransmission loop resends only stored messages, unchanged and under their IDs, and every
  message whose timer has run out.
\<close>

lemma retransmit_loop_ok:
  assumes "snd_ok L got s" and "rs_head_id s \<le> i" and "tail = rs_tail_id s"
  shows "\<exists>out' s'. retransmit_loop now t i tail out s = Inr (out @ out', s') \<and> snd_ok L got s'
    \<and> rs_next s' = rs_next s \<and> rs_head_id s' = rs_head_id s \<and> rs_span s' = rs_span s
    \<and> (\<forall>(j, p) \<in> set out'. unat j < length L \<and> p = Some (L ! unat j))
    \<and> (\<forall>k. unat i \<le> k \<and> k < unat tail \<and> k < length L \<and> rs_holds L s k
          \<and> now \<ge> rm_retransmit_at (rs_at s k) \<longrightarrow> (of_nat k, Some (L ! k)) \<in> set out')"
  using assms
proof (induction now t i tail out s rule: retransmit_loop.induct)
  case (1 now t i tail out s)
  have wf: "win_wf (rs_window s)" using 1(3) by (simp add: snd_ok_def rs_inv_def)
  show ?case
  proof (cases "i < tail")
    case False
    then show ?thesis
      using 1(3) by (simp add: retransmit_loop.simps [of now t i] word_less_nat_alt)
  next
    case True
    then have iw: "in_window (rs_window s) i"
      using in_window_tail [of s i] 1(4,5) by (simp add: rs_head_id_def)
    obtain k s1 where s1: "rs_ref_by_id i s = Inr (k, s1)" "rs_same s s1"
      "rs_get k s1 = rs_at s (unat i)"
      "\<And>m. rs_at (rs_set k m s1) = (rs_at s)(unat i := m)"
      "\<And>m. win_wf (rs_window (rs_set k m s1))"
      using rs_ref_by_id_ok [OF wf iw] by blast
    let ?m = "rs_at s (unat i)"
    let ?r = "msg_ready_retransmit now ?m"
    define s2 where "s2 = (if ?r then rs_set k (msg_reset_retransmit now t ?m) s1 else s1)"
    define o2 where "o2 = (if ?r then [(rm_id ?m, rm_packet ?m)] else [])"
    have unroll: "retransmit_loop now t i tail out s = retransmit_loop now t (i + 1) tail (out @ o2) s2"
      using True s1(1,3) by (simp add: retransmit_loop.simps [of now t i] Let_def s2_def o2_def)
    have fields: "rs_next s2 = rs_next s" "rs_head_id s2 = rs_head_id s" "rs_span s2 = rs_span s"
      using s1(2) by (simp_all add: s2_def rs_same_def rs_set_def rs_head_id_def rs_span_def)
    have at2: "rs_at s2 j = (if ?r \<and> j = unat i then msg_reset_retransmit now t ?m else rs_at s j)" for j
      using s1(2,4) by (simp add: s2_def rs_same_def)
    have defd: "?r \<Longrightarrow> unat i < length L \<and> rs_holds L s (unat i)"
    proof -
      assume "?r"
      then have d: "rm_packet ?m \<noteq> None" by (simp add: msg_ready_retransmit_def rel_defined_def)
      have "unat i < length L"
      proof (rule ccontr)
        assume "\<not> unat i < length L"
        then have "?m = send_message_new" using 1(3) by (simp add: snd_ok_def rs_inv_def)
        with d show False by (simp add: send_message_new_def)
      qed
      then show ?thesis
        using 1(3,4) d by (auto simp: snd_ok_def word_le_nat_alt)
    qed
    have holds2: "rs_holds L s2 j = rs_holds L s j" for j
      using fields(2) by (auto simp: rs_holds_def at2 msg_reset_retransmit_def)
    have ok2: "snd_ok L got s2"
    proof -
      have "rm_packet (rs_at s2 j) = rm_packet (rs_at s j)" for j
        by (simp add: at2 msg_reset_retransmit_def)
      moreover have "rs_inv s2"
      proof -
        have "win_wf (rs_window s2)" using s1(2,5) by (simp add: s2_def rs_same_def)
        moreover have "rs_at s2 j = send_message_new" if "unat (rs_next s) \<le> j" for j
          using that 1(3) defd by (auto simp: at2 snd_ok_def rs_inv_def)
        ultimately show ?thesis using 1(3) fields by (simp add: rs_inv_def snd_ok_def)
      qed
      ultimately show ?thesis using 1(3) fields holds2 by (simp add: snd_ok_def)
    qed
    have le: "rs_head_id s2 \<le> i + 1"
      using 1(4) fields(2) unat_plus_one [OF True] by (simp add: word_le_nat_alt)
    have tl: "tail = rs_tail_id s2"
      using 1(5) fields by (simp add: rs_tail_id_def tail_id_def rs_head_id_def rs_span_def)
    have ih: "\<exists>out' s'. retransmit_loop now t (i + 1) tail (out @ o2) s2 = Inr ((out @ o2) @ out', s')
      \<and> snd_ok L got s' \<and> rs_next s' = rs_next s2 \<and> rs_head_id s' = rs_head_id s2 \<and> rs_span s' = rs_span s2
      \<and> (\<forall>(j, p) \<in> set out'. unat j < length L \<and> p = Some (L ! unat j))
      \<and> (\<forall>k. unat (i + 1) \<le> k \<and> k < unat tail \<and> k < length L \<and> rs_holds L s2 k
          \<and> now \<ge> rm_retransmit_at (rs_at s2 k) \<longrightarrow> (of_nat k, Some (L ! k)) \<in> set out')"
    proof (cases ?r)
      case r: True
      then have "msg_ready_retransmit now (rs_get k s1)" using s1(3) by simp
      from 1(1) [OF True s1(1) refl refl this] r s1(3) ok2 le tl show ?thesis
        by (simp add: s2_def o2_def)
    next
      case r: False
      then have "\<not> msg_ready_retransmit now (rs_get k s1)" using s1(3) by simp
      from 1(2) [OF True s1(1) refl refl this] r ok2 le tl show ?thesis
        by (simp add: s2_def o2_def)
    qed
    then obtain out' s' where o: "retransmit_loop now t (i + 1) tail (out @ o2) s2 = Inr (out @ (o2 @ out'), s')"
      "snd_ok L got s'" "rs_next s' = rs_next s" "rs_head_id s' = rs_head_id s" "rs_span s' = rs_span s"
      and o': "\<forall>(j, p) \<in> set out'. unat j < length L \<and> p = Some (L ! unat j)"
      "\<And>k. unat (i + 1) \<le> k \<Longrightarrow> k < unat tail \<Longrightarrow> k < length L \<Longrightarrow> rs_holds L s2 k
          \<Longrightarrow> now \<ge> rm_retransmit_at (rs_at s2 k) \<Longrightarrow> (of_nat k, Some (L ! k)) \<in> set out'"
      using fields by auto
    have o2: "?r \<Longrightarrow> o2 = [(i, Some (L ! unat i))]"
      using defd by (simp add: o2_def rs_holds_def)
    have sound: "\<forall>(j, p) \<in> set (o2 @ out'). unat j < length L \<and> p = Some (L ! unat j)"
      using o'(1) o2 defd by (cases ?r) (auto simp: o2_def)
    have complete: "(of_nat k, Some (L ! k)) \<in> set (o2 @ out')"
      if k: "unat i \<le> k" "k < unat tail" "k < length L" "rs_holds L s k"
        "now \<ge> rm_retransmit_at (rs_at s k)" for k
    proof (cases "k = unat i")
      case True
      then have ?r using k(4,5) by (simp add: msg_ready_retransmit_def rel_defined_def rs_holds_def)
      then show ?thesis using o2 True by simp
    next
      case False
      then have "(of_nat k, Some (L ! k)) \<in> set out'"
        using k holds2 by (intro o'(2)) (simp_all add: at2 unat_plus_one [OF True])
      then show ?thesis by simp
    qed
    show ?thesis
      unfolding unroll using o sound complete by blast
  qed
qed

section \<open>The receiver against the list of messages sent\<close>

definition rcv_got :: "'p list \<Rightarrow> 'p rel_recv \<Rightarrow> nat \<Rightarrow> bool" where
  "rcv_got D r k \<longleftrightarrow> k < length D \<or> rr_at r k \<noteq> None"

definition rcv_ok :: "'p list \<Rightarrow> 'p list \<Rightarrow> 'p rel_recv \<Rightarrow> bool" where
  "rcv_ok L D r \<longleftrightarrow> win_wf r \<and> unat (w_head r) = length D \<and> D = take (length D) L \<and>
     (\<forall>k. rr_at r k \<noteq> None \<longrightarrow> k < length L \<and> rr_at r k = Some (L ! k))"

lemma rcv_ok_init: "rcv_ok [] [] (rr_init span)"
  by (simp add: rcv_ok_def) (simp add: rr_init_def win_wf_def win_init_def)

lemma rcv_ok_length: "rcv_ok L D r \<Longrightarrow> length D \<le> length L"
  by (auto simp: rcv_ok_def) (metis length_take min.cobounded1)

lemma rcv_ok_sent: "rcv_ok L D r \<Longrightarrow> rcv_ok (L @ [p]) D r"
  using rcv_ok_length [of L D r] by (auto simp: rcv_ok_def nth_append)

lemma rcv_got_sent: "rcv_ok L D r \<Longrightarrow> rcv_got D r k \<Longrightarrow> k < length L"
  using rcv_ok_length [of L D r] by (auto simp: rcv_ok_def rcv_got_def)

lemma rcv_ok_receive:
  assumes ok: "rcv_ok L D r" and i: "unat i < length L"
  shows "\<exists>fl r'. rr_receive (Some (L ! unat i)) i r = Inr (fl, r') \<and> rcv_ok L D r'
    \<and> w_span r' = w_span r \<and> w_head r' = w_head r \<and> (\<forall>k. rcv_got D r k \<longrightarrow> rcv_got D r' k)
    \<and> (in_window r i \<longrightarrow> rr_at r' (unat i) \<noteq> None)
    \<and> (fl AND ACK_TO_SENDER \<noteq> 0 \<longrightarrow> rcv_got D r' (unat i))"
proof (cases "in_window r i")
  case True
  then show ?thesis
    using rr_receive_in [of r i "Some (L ! unat i)"] ok i
    by (auto simp: rcv_ok_def rcv_got_def)
next
  case False
  then show ?thesis
    using rr_receive_out [OF False, of "Some (L ! unat i)"] ok
    by (auto simp: rcv_ok_def rcv_got_def ACK_TO_SENDER_def)
qed

lemma rcv_ok_advance:
  assumes ok: "rcv_ok L D r" and rdy: "rr_ready r"
  shows "\<exists>m r'. rr_next_sequenced r = Inr m \<and> rr_advance r = Inr r' \<and>
    rm_packet m = Some (L ! length D) \<and> length D < length L \<and> rcv_ok L (D @ [L ! length D]) r'
    \<and> w_span r' = w_span r \<and> (\<forall>k. rcv_got D r k \<longrightarrow> rcv_got (D @ [L ! length D]) r' k)
    \<and> (\<forall>k. length D < k \<longrightarrow> rr_at r' k = rr_at r k)"
proof -
  have h: "unat (w_head r) = length D" and D: "D = take (length D) L"
    and at: "\<And>k. rr_at r k \<noteq> None \<Longrightarrow> k < length L \<and> rr_at r k = Some (L ! k)"
    using ok by (auto simp: rcv_ok_def)
  have n: "length D < length L" "rr_at r (length D) = Some (L ! length D)"
    using at [of "length D"] rdy h by (auto simp: rr_ready_at)
  have "take (Suc (length D)) L = take (length D) L @ [L ! length D]"
    using n(1) by (simp add: take_Suc_conv_app_nth)
  then have T: "D @ [L ! length D] = take (length (D @ [L ! length D])) L"
    using D by simp
  obtain r' where r': "rr_advance r = Inr r'" "win_wf r'" "w_span r' = w_span r"
    "unat (w_head r') = Suc (length D)" "rr_at r' = (rr_at r)(length D := None)"
    using rr_advance_ok [of r] rdy ok h by (auto simp: rcv_ok_def)
  have "rcv_ok L (D @ [L ! length D]) r'"
    unfolding rcv_ok_def using r' T at n(1) by (auto simp: min_def)
  moreover have "\<forall>k. rcv_got D r k \<longrightarrow> rcv_got (D @ [L ! length D]) r' k"
    using r'(5) by (auto simp: rcv_got_def)
  ultimately show ?thesis
    using rr_ready_next [OF rdy] h n r' by auto
qed

section \<open>The system invariant\<close>

definition ackpkt_ok :: "(nat \<Rightarrow> bool) \<Rightarrow> buffer \<Rightarrow> bool" where
  "ackpkt_ok got b \<longleftrightarrow> buf_wf b \<and>
     (\<exists>c is rest. content b = c # ack_bytes is @ rest \<and> unat c \<le> length is
        \<and> (\<forall>i\<in>set is. got (unat i)))"

definition sys_ok :: "u32 \<Rightarrow> 'p rel_sys \<Rightarrow> bool" where
  "sys_ok span y \<longleftrightarrow>
     (let L = y_sent y; D = y_delivered y; got = rcv_got D (y_recv y) in
      snd_ok L got (y_send y) \<and> rs_span (y_send y) = span \<and>
      rcv_ok L D (y_recv y) \<and> w_span (y_recv y) = span \<and>
      (\<forall>(i, p)\<in>set (y_net y). unat i < length L \<and> p = Some (L ! unat i)) \<and>
      (\<forall>i\<in>set (ra_data (y_acks y)). got (unat i)) \<and>
      (\<forall>b\<in>set (y_acknet y). ackpkt_ok got b))"

lemma ackpkt_ok_mono: "ackpkt_ok got b \<Longrightarrow> (\<And>k. got k \<Longrightarrow> got' k) \<Longrightarrow> ackpkt_ok got' b"
  by (auto simp: ackpkt_ok_def)

lemma snd_ok_ackpkt:
  assumes ok: "snd_ok L got s" and b: "ackpkt_ok got b" and sent: "\<And>k. got k \<Longrightarrow> k < length L"
  shows "snd_ok L got (snd (ra_ack live b s)) \<and> rs_span (snd (ra_ack live b s)) = rs_span s"
proof -
  obtain c ids rest where c: "buf_wf b" "content b = c # ack_bytes ids @ rest" "unat c \<le> length ids"
    "\<forall>i\<in>set ids. got (unat i)"
    using b by (auto simp: ackpkt_ok_def)
  obtain b1 where b1: "buf_pop_front b = Inr (c, b1)" "buf_wf b1" "content b1 = ack_bytes ids @ rest"
    using ra_pop_count [OF c(1,2)] by blast
  define js where "js = take (unat c) ids"
  have "content b1 = ack_bytes js @ (ack_bytes (drop (unat c) ids) @ rest)"
    using b1(3) append_take_drop_id [of "unat c" ids] ack_bytes_simps(3) [of js "drop (unat c) ids"]
    by (simp add: js_def)
  moreover have "length js = unat c" using c(3) by (simp add: js_def)
  ultimately obtain b2 where "ack_loop (unat c) live b1 s = (Inr b2, if live then fold rs_ack js s else s)"
    using ack_loop_ok [OF b1(2)] by metis
  then have r: "snd (ra_ack live b s) = (if live then fold rs_ack js s else s)"
    using b1(1) by (simp add: ra_ack_def)
  have "\<forall>i\<in>set js. got (unat i) \<and> unat i < length L"
    using c(4) sent by (auto simp: js_def dest: in_set_takeD)
  with snd_ok_acks [OF ok] ok show ?thesis by (simp add: r)
qed

lemma ackpkt_ok_prepend:
  assumes "buf_wf b" and "ra_prepend a b = Inr (b', a')" and "\<forall>i\<in>set (ra_data a). got (unat i)"
  shows "ackpkt_ok got b' \<and> set (ra_data a') \<subseteq> set (ra_data a)"
proof -
  define n where "n = min (length (ra_data a)) (ra_max a)"
  have p: "buf_wf b'" "content b' = of_nat n # ack_bytes (take n (ra_data a)) @ content b"
    "a' = a\<lparr>ra_data := drop n (ra_data a)\<rparr>"
    using ra_prepend_Inr [OF assms(1,2)] by (simp_all add: n_def)
  have "unat (of_nat n :: u8) \<le> length (take n (ra_data a))"
    unfolding unat_of_nat using mod_less_eq_dividend [of n "2 ^ LENGTH(8)"] by (simp add: n_def)
  moreover have "\<forall>i\<in>set (take n (ra_data a)). got (unat i)"
    using assms(3) by (auto dest: in_set_takeD)
  ultimately have "ackpkt_ok got b'"
    unfolding ackpkt_ok_def using p(1,2) by blast
  then show ?thesis using p(3) by (auto dest: in_set_dropD)
qed

lemma sys_ok_init: "sys_ok span (rel_init span max_ack)"
  by (simp add: sys_ok_def rel_init_def Let_def snd_ok_init rcv_ok_init ra_init_def)
    (simp add: rs_init_def rr_init_def rs_span_def win_init_def)

lemma sys_ok_got: "sys_ok span y \<Longrightarrow> rcv_got (y_delivered y) (y_recv y) k \<Longrightarrow> k < length (y_sent y)"
  using rcv_got_sent by (auto simp: sys_ok_def Let_def)

text \<open>Changing the receiver so that it keeps what it has got preserves everything else.\<close>

lemma sys_ok_recv:
  assumes "sys_ok span y" and "rcv_ok (y_sent y) D r" and "w_span r = span"
    and "\<And>k. rcv_got (y_delivered y) (y_recv y) k \<Longrightarrow> rcv_got D r k"
    and "\<forall>i\<in>set (ra_data a). i \<in> set (ra_data (y_acks y)) \<or> rcv_got D r (unat i)"
  shows "sys_ok span (y\<lparr>y_recv := r, y_delivered := D, y_acks := a\<rparr>)"
  using assms snd_ok_mono [of "y_sent y" _ "y_send y" "rcv_got D r"]
    ackpkt_ok_mono [of _ _ "rcv_got D r"]
  by (auto simp: sys_ok_def Let_def)

lemma sys_ok_send:
  "sys_ok span y \<Longrightarrow> snd_ok (y_sent y) (rcv_got (y_delivered y) (y_recv y)) s \<Longrightarrow>
   rs_span s = span \<Longrightarrow> sys_ok span (y\<lparr>y_send := s\<rparr>)"
  by (simp add: sys_ok_def Let_def)

lemma step_send:
  assumes ok: "sys_ok span y" and ex: "rel_exec (Send_ev p now t) y = Some y'"
  shows "sys_ok span y'"
proof -
  have s: "snd_ok (y_sent y) (rcv_got (y_delivered y) (y_recv y)) (y_send y)"
    and r: "rcv_ok (y_sent y) (y_delivered y) (y_recv y)"
    using ok by (simp_all add: sys_ok_def Let_def)
  have rdy: "rs_ready (y_send y)" using ex by (simp split: if_splits)
  obtain s' where s': "rs_send_packet now t p (y_send y) = Inr (rs_next (y_send y), s')"
    "snd_ok (y_sent y @ [p]) (rcv_got (y_delivered y) (y_recv y)) s'"
    "rs_span s' = rs_span (y_send y)"
    using snd_ok_send [OF s rdy] by blast
  have y': "y' = y\<lparr>y_send := s', y_net := y_net y @ [(rs_next (y_send y), Some p)],
      y_sent := y_sent y @ [p]\<rparr>"
    using ex rdy s'(1) by simp
  have len: "length (y_sent y) = unat (rs_next (y_send y))" using s by (simp add: snd_ok_def)
  have "\<forall>(i, q)\<in>set (y_net y'). unat i < length (y_sent y') \<and> q = Some (y_sent y' ! unat i)"
    using ok len by (auto simp: y' sys_ok_def Let_def nth_append)
  then show ?thesis
    using ok s'(2,3) rcv_ok_sent [OF r, of p] by (simp add: y' sys_ok_def Let_def)
qed

lemma step_retransmit:
  assumes ok: "sys_ok span y" and ex: "rel_exec (Retransmit_ev now t) y = Some y'"
  shows "sys_ok span y'"
proof -
  have s: "snd_ok (y_sent y) (rcv_got (y_delivered y) (y_recv y)) (y_send y)"
    using ok by (simp add: sys_ok_def Let_def)
  obtain out s' where o: "rs_retransmit now t (y_send y) = Inr (out, s')"
    "snd_ok (y_sent y) (rcv_got (y_delivered y) (y_recv y)) s'" "rs_span s' = rs_span (y_send y)"
    "\<forall>(j, p)\<in>set out. unat j < length (y_sent y) \<and> p = Some (y_sent y ! unat j)"
    using retransmit_loop_ok [OF s order_refl refl, of now t "[]"] by (auto simp: rs_retransmit_def)
  then have "y' = y\<lparr>y_send := s', y_net := y_net y @ out\<rparr>" using ex by simp
  with ok o show ?thesis by (auto simp: sys_ok_def Let_def)
qed

lemma step_deliver:
  assumes ok: "sys_ok span y" and ex: "rel_exec (Deliver_ev n) y = Some y'"
  shows "sys_ok span y'"
proof -
  have n: "n < length (y_net y)" using ex by (simp split: if_splits)
  obtain i q where iq: "y_net y ! n = (i, q)" by fastforce
  then have i: "unat i < length (y_sent y)" "q = Some (y_sent y ! unat i)"
    using ok n nth_mem [OF n] by (auto simp: sys_ok_def Let_def)
  obtain fl r' where r': "rr_receive q i (y_recv y) = Inr (fl, r')"
    "rcv_ok (y_sent y) (y_delivered y) r'" "w_span r' = w_span (y_recv y)"
    "\<forall>k. rcv_got (y_delivered y) (y_recv y) k \<longrightarrow> rcv_got (y_delivered y) r' k"
    "fl AND ACK_TO_SENDER \<noteq> 0 \<longrightarrow> rcv_got (y_delivered y) r' (unat i)"
    using rcv_ok_receive [of "y_sent y" "y_delivered y" "y_recv y" i] ok i
    by (auto simp: sys_ok_def Let_def)
  define a where "a = (if fl AND ACK_TO_SENDER \<noteq> 0 then ra_push_back i (y_acks y) else y_acks y)"
  have y': "y' = y\<lparr>y_recv := r', y_delivered := y_delivered y, y_acks := a\<rparr>"
    using ex n iq r'(1) by (simp add: a_def)
  have "\<forall>j\<in>set (ra_data a). j \<in> set (ra_data (y_acks y)) \<or> rcv_got (y_delivered y) r' (unat j)"
    using r'(5) by (auto simp: a_def ra_push_back_def)
  moreover have "w_span r' = span" using ok r'(3) by (simp add: sys_ok_def Let_def)
  ultimately show ?thesis unfolding y' using ok r'(2,4) by (intro sys_ok_recv) simp_all
qed

lemma step_advance:
  assumes ok: "sys_ok span y" and ex: "rel_exec Advance_ev y = Some y'"
  shows "sys_ok span y'"
proof -
  have r: "rcv_ok (y_sent y) (y_delivered y) (y_recv y)" and rdy: "rr_ready (y_recv y)"
    using ok ex by (simp_all add: sys_ok_def Let_def split: if_splits)
  let ?p = "y_sent y ! length (y_delivered y)"
  obtain m r' where m: "rr_next_sequenced (y_recv y) = Inr m" "rr_advance (y_recv y) = Inr r'"
    "rm_packet m = Some ?p" "rcv_ok (y_sent y) (y_delivered y @ [?p]) r'"
    "w_span r' = w_span (y_recv y)"
    "\<forall>k. rcv_got (y_delivered y) (y_recv y) k \<longrightarrow> rcv_got (y_delivered y @ [?p]) r' k"
    using rcv_ok_advance [OF r rdy] by blast
  have y': "y' = y\<lparr>y_recv := r', y_delivered := y_delivered y @ [?p], y_acks := y_acks y\<rparr>"
    using ex rdy m(1,2,3) by (cases y) auto
  have "w_span r' = span" using ok m(5) by (simp add: sys_ok_def Let_def)
  then show ?thesis unfolding y' using ok m(4,6) by (intro sys_ok_recv) simp_all
qed

lemma step_ack_in:
  assumes ok: "sys_ok span y" and ex: "rel_exec (Ack_in_ev n) y = Some y'"
  shows "sys_ok span y'"
proof -
  let ?b = "y_acknet y ! n"
  have n: "n < length (y_acknet y)" and y': "y' = y\<lparr>y_send := snd (ra_ack True ?b (y_send y))\<rparr>"
    using ex by (auto split: if_splits)
  have s: "snd_ok (y_sent y) (rcv_got (y_delivered y) (y_recv y)) (y_send y)"
    and b: "ackpkt_ok (rcv_got (y_delivered y) (y_recv y)) ?b" and sp: "rs_span (y_send y) = span"
    using ok n by (simp_all add: sys_ok_def Let_def)
  from snd_ok_ackpkt [OF s b sys_ok_got [OF ok], of True] sp show ?thesis
    unfolding y' by (intro sys_ok_send [OF ok]) simp_all
qed

lemma step_ack_out:
  assumes ok: "sys_ok span y" and ex: "rel_exec (Ack_out_ev b) y = Some y'"
  shows "sys_ok span y'"
proof -
  obtain b' a where a: "buf_wf b" "ra_prepend (y_acks y) b = Inr (b', a)"
    and y': "y' = y\<lparr>y_acks := a, y_acknet := y_acknet y @ [b']\<rparr>"
    using ex by (auto split: if_splits sum.splits)
  have "\<forall>i\<in>set (ra_data (y_acks y)). rcv_got (y_delivered y) (y_recv y) (unat i)"
    using ok by (simp add: sys_ok_def Let_def)
  from ackpkt_ok_prepend [OF a this] ok show ?thesis
    by (auto simp: y' sys_ok_def Let_def)
qed

lemma step_lose:
  "sys_ok span y \<Longrightarrow> rel_exec (Lose_ev n) y = Some y' \<Longrightarrow> sys_ok span y'"
  "sys_ok span y \<Longrightarrow> rel_exec (Ack_lose_ev n) y = Some y' \<Longrightarrow> sys_ok span y'"
  by (simp_all only: rel_exec.simps option.inject)
    (auto simp: sys_ok_def Let_def dest!: in_remove_nth)

lemma sys_ok_step: "sys_ok span y \<Longrightarrow> rel_exec ev y = Some y' \<Longrightarrow> sys_ok span y'"
  by (cases ev)
    (blast intro: step_send step_retransmit step_deliver step_advance step_ack_in step_ack_out
      step_lose)+

lemma sys_ok_reach: "rel_reach span y \<Longrightarrow> sys_ok span y"
  by (induction rule: rel_reach.induct) (auto intro: sys_ok_init sys_ok_step)

section \<open>Properties\<close>

text \<open>
  C14. Safety: over a network that loses, duplicates and reorders packets and acknowledgements,
  the messages the receiver hands up are, in order and without gap or repetition, a prefix of
  the messages sent.
\<close>

theorem delivered_is_prefix_of_sent:
  assumes "rel_reach span y"
  shows "\<exists>rest. y_sent y = y_delivered y @ rest"
proof -
  have "y_delivered y = take (length (y_delivered y)) (y_sent y)"
    using sys_ok_reach [OF assms] by (simp add: sys_ok_def Let_def rcv_ok_def)
  then show ?thesis by (metis append_take_drop_id)
qed


text \<open>One more message can always be delivered, whatever the network has lost.\<close>

lemma sys_ok_can_resend:
  assumes ok: "sys_ok span y" and k: "k < length (y_sent y)"
    and room: "length (y_sent y) + unat span < 2 ^ 32"
    and held: "rs_holds (y_sent y) (y_send y) k"
  shows "\<exists>y'. rel_exec (Retransmit_ev time_infinite t) y = Some y'
    \<and> (of_nat k, Some (y_sent y ! k)) \<in> set (y_net y')
    \<and> y_recv y' = y_recv y \<and> y_sent y' = y_sent y \<and> y_delivered y' = y_delivered y"
proof -
  let ?L = "y_sent y" and ?s = "y_send y"
  have s: "snd_ok ?L (rcv_got (y_delivered y) (y_recv y)) ?s" and sp: "rs_span ?s = span"
    using ok by (simp_all add: sys_ok_def Let_def)
  have len: "length ?L = unat (rs_next ?s)" "length ?L \<le> unat (rs_head_id ?s) + unat span"
    "unat (rs_head_id ?s) \<le> length ?L"
    using s sp by (auto simp: snd_ok_def rs_inv_def word_le_nat_alt)
  have "unat (rs_tail_id ?s) = unat (rs_head_id ?s) + unat span"
    using room len(3) sp
    by (simp add: rs_tail_id_def tail_id_def rs_head_id_def rs_span_def unat_word_ariths)
  then have tl: "k < unat (rs_tail_id ?s)" using k len(2) by simp
  have h: "unat (rs_head_id ?s) \<le> k" using held by (simp add: rs_holds_def)
  have now: "rm_retransmit_at (rs_at ?s k) \<le> time_infinite"
    by (simp add: less_eq_time_pt_def time_infinite_def)
  obtain out s' where "rs_retransmit time_infinite t ?s = Inr (out, s')"
    "(of_nat k, Some (?L ! k)) \<in> set out"
    using retransmit_loop_ok [OF s order_refl refl, of time_infinite t "[]"] h tl k held now
    by (auto simp: rs_retransmit_def)
  then show ?thesis by simp
qed

lemma sys_ok_can_deliver:
  assumes ok: "sys_ok span y" and k: "length (y_delivered y) < length (y_sent y)"
    and room: "length (y_sent y) + unat span < 2 ^ 32" and span: "0 < span"
    and net: "(of_nat (length (y_delivered y)), Some (y_sent y ! length (y_delivered y))) \<in> set (y_net y)"
  shows "\<exists>n y'. rel_exec (Deliver_ev n) y = Some y' \<and> rr_ready (y_recv y')
    \<and> y_sent y' = y_sent y \<and> y_delivered y' = y_delivered y"
proof -
  let ?k = "length (y_delivered y)" and ?r = "y_recv y"
  obtain n where n: "n < length (y_net y)" "y_net y ! n = (of_nat ?k, Some (y_sent y ! ?k))"
    using net by (auto simp: in_set_conv_nth)
  have r: "rcv_ok (y_sent y) (y_delivered y) ?r" and sp: "w_span ?r = span"
    using ok by (simp_all add: sys_ok_def Let_def)
  have u: "unat (of_nat ?k :: u32) = ?k" using k room by (simp add: unat_of_nat)
  have hd: "unat (w_head ?r) = ?k" using r by (simp add: rcv_ok_def)
  have "0 < unat span" using span by (simp add: word_less_nat_alt)
  then have iw: "in_window ?r (of_nat ?k)" using u hd sp room k by (simp add: in_window_nat)
  obtain fl r' where r': "rr_receive (Some (y_sent y ! ?k)) (of_nat ?k) ?r = Inr (fl, r')"
    "w_head r' = w_head ?r" "rr_at r' ?k \<noteq> None"
    using rcv_ok_receive [OF r, of "of_nat ?k"] u k iw by auto
  then have "rr_ready r'" using hd by (simp add: rr_ready_at)
  with n r' show ?thesis by (intro exI [of _ n]) simp
qed

lemma sys_ok_can_advance:
  assumes ok: "sys_ok span y" and rdy: "rr_ready (y_recv y)"
  shows "\<exists>y'. rel_exec Advance_ev y = Some y' \<and> y_sent y' = y_sent y
    \<and> length (y_delivered y') = Suc (length (y_delivered y))"
proof -
  have r: "rcv_ok (y_sent y) (y_delivered y) (y_recv y)" using ok by (simp add: sys_ok_def Let_def)
  from rcv_ok_advance [OF r rdy] rdy show ?thesis by auto
qed

lemma sys_ok_progress:
  assumes ok: "sys_ok span y" and k: "length (y_delivered y) < length (y_sent y)"
    and room: "length (y_sent y) + unat span < 2 ^ 32" and span: "0 < span"
  shows "\<exists>evs y'. rel_run evs y = Some y' \<and> sys_ok span y' \<and> y_sent y' = y_sent y
    \<and> length (y_delivered y') = Suc (length (y_delivered y))"
proof -
  let ?k = "length (y_delivered y)"
  have adv: "\<exists>y'. rel_exec Advance_ev z = Some y' \<and> sys_ok span y' \<and> y_sent y' = y_sent z
      \<and> length (y_delivered y') = Suc (length (y_delivered z))"
    if "sys_ok span z" "rr_ready (y_recv z)" for z :: "'a rel_sys"
    using sys_ok_can_advance [OF that] sys_ok_step [OF that(1)] by blast
  have hd: "unat (w_head (y_recv y)) = ?k" using ok by (simp add: sys_ok_def Let_def rcv_ok_def)
  show ?thesis
  proof (cases "rr_ready (y_recv y)")
    case True
    then obtain y' where "rel_exec Advance_ev y = Some y'" "sys_ok span y'" "y_sent y' = y_sent y"
      "length (y_delivered y') = Suc ?k"
      using adv [OF ok] by blast
    then show ?thesis by (intro exI [of _ "[Advance_ev]"]) simp
  next
    case False
    then have "\<not> rcv_got (y_delivered y) (y_recv y) ?k" using hd by (simp add: rr_ready_at rcv_got_def)
    then have "rs_holds (y_sent y) (y_send y) ?k"
      using ok k by (auto simp: sys_ok_def Let_def snd_ok_def)
    then obtain y1 where y1: "rel_exec (Retransmit_ev time_infinite dur_zero) y = Some y1"
      "(of_nat ?k, Some (y_sent y ! ?k)) \<in> set (y_net y1)" "y_sent y1 = y_sent y"
      "y_delivered y1 = y_delivered y"
      using sys_ok_can_resend [OF ok k room] by blast
    have ok1: "sys_ok span y1" using sys_ok_step [OF ok y1(1)] .
    obtain n y2 where y2: "rel_exec (Deliver_ev n) y1 = Some y2" "rr_ready (y_recv y2)"
      "y_sent y2 = y_sent y1" "y_delivered y2 = y_delivered y1"
      using sys_ok_can_deliver [OF ok1 _ _ span] k room y1 by auto
    obtain y3 where "rel_exec Advance_ev y2 = Some y3" "sys_ok span y3" "y_sent y3 = y_sent y"
      "length (y_delivered y3) = Suc ?k"
      using adv [OF sys_ok_step [OF ok1 y2(1)] y2(2)] y2 y1 by auto
    then show ?thesis
      using y1(1) y2(1)
      by (intro exI [of _ "[Retransmit_ev time_infinite dur_zero, Deliver_ev n, Advance_ev]"]) simp
  qed
qed

lemma sys_ok_completes:
  assumes "sys_ok span y" and "length (y_sent y) + unat span < 2 ^ 32" and "0 < span"
  shows "\<exists>evs y'. rel_run evs y = Some y' \<and> sys_ok span y' \<and> y_sent y' = y_sent y
    \<and> y_delivered y' = y_sent y"
  using assms
proof (induction "length (y_sent y) - length (y_delivered y)" arbitrary: y)
  case 0
  then have d: "length (y_sent y) \<le> length (y_delivered y)"
    "y_delivered y = take (length (y_delivered y)) (y_sent y)"
    by (simp_all add: sys_ok_def Let_def rcv_ok_def)
  then have "y_delivered y = y_sent y" by simp
  with 0 show ?case by (intro exI [of _ "[]"]) simp
next
  case (Suc m)
  then have k: "length (y_delivered y) < length (y_sent y)" by simp
  obtain evs y1 where y1: "rel_run evs y = Some y1" "sys_ok span y1" "y_sent y1 = y_sent y"
    "length (y_delivered y1) = Suc (length (y_delivered y))"
    using sys_ok_progress [OF Suc(3) k Suc(4,5)] by blast
  have m: "m = length (y_sent y1) - length (y_delivered y1)" using Suc(2) y1(3,4) by simp
  obtain evs' y2 where "rel_run evs' y1 = Some y2" "sys_ok span y2" "y_sent y2 = y_sent y"
    "y_delivered y2 = y_sent y"
    using Suc(1) [OF m y1(2)] y1(3) Suc(4,5) by auto
  then show ?case using y1(1) by (intro exI [of _ "evs @ evs'"]) (simp add: rel_run_append)
qed


text \<open>
  A run with a reordered arrival, a loss, an acknowledgement and a retransmission: two messages
  sent, the second arrives first, the first is lost.
\<close>

definition demo_run :: "nat rel_event list" where
  "demo_run = [Send_ev 10 (Time 100) (Duration 50), Send_ev 20 (Time 110) (Duration 50),
     Deliver_ev 1, Lose_ev 0, Lose_ev 0]"

definition demo_sys :: "nat rel_sys" where
  "demo_sys = the (rel_run demo_run (rel_init 4 4))"

lemma demo_run_some: "rel_run demo_run (rel_init 4 4) \<noteq> None \<and> y_sent demo_sys = [10, 20]
    \<and> y_delivered demo_sys = [] \<and> y_net demo_sys = []"
  by code_simp

lemma demo_sys_reach: "rel_reach 4 demo_sys"
proof -
  have "rel_run demo_run (rel_init 4 4) = Some demo_sys"
    using demo_run_some by (auto simp: demo_sys_def)
  then show ?thesis by (rule rel_reach_run [OF reach_init])
qed

theorem delivered_is_prefix_of_sent_witness:
  "\<exists>y rest. rel_run (demo_run @ [Retransmit_ev (Time 160) (Duration 50), Deliver_ev 0, Advance_ev])
       (rel_init 4 4) = Some y \<and> y_delivered y = [10] \<and> y_sent y = [10] @ rest"
proof -
  let ?r = "rel_run (demo_run @ [Retransmit_ev (Time 160) (Duration 50), Deliver_ev 0, Advance_ev])
       (rel_init 4 4) :: nat rel_sys option"
  have "(case ?r of None \<Rightarrow> False | Some y \<Rightarrow> y_delivered y = [10])" by code_simp
  then obtain y where y: "?r = Some y" "y_delivered y = [10]" by (auto split: option.splits)
  from delivered_is_prefix_of_sent [OF rel_reach_run [OF reach_init y(1)]] y show ?thesis by auto
qed



end
