(* ===== verification/PktStream.thy ===== *)
theory PktStream
  imports Frames
begin

text \<open>
  \<open>PacketStream\<close> of \<open>transport/pktstream.hpp\<close>: packets on a byte stream, each behind its length
  as a 16-bit word.  The address of the array that a \<open>realign\<close> or \<open>prepare\<close> looks at is the
  argument \<open>base\<close>.  The abstraction of a stream's state is \<open>ps_pending\<close>, the bytes of the
  unfinished packet including its length word; \<open>put\<close> moves bytes from the input to it and
  neither drops nor invents one, whatever the fragmentation.
\<close>

section \<open>The packet stream\<close>

record pkt_stream =
  ps_declared_size :: nat
  ps_declared_size_defined :: bool
  ps_buffer :: buffer

text \<open>\<open>declared_size\<close> is uninitialised until it is defined: an argument.\<close>

definition ps_new :: "nat \<Rightarrow> pkt_stream" where
  "ps_new any =
     \<lparr>ps_declared_size = any, ps_declared_size_defined = False, ps_buffer = alloc_default\<rparr>"

definition ps_size_defined :: "buffer \<Rightarrow> bool" where
  "ps_size_defined b \<longleftrightarrow> b_size b \<ge> 2"

definition ps_read_size :: "buffer \<Rightarrow> (nat \<times> buffer) res" where
  "ps_read_size b =
     bindE (bindE (buf_read 2 b) (\<lambda>(bs, b). Inr (of_be16 bs, b))) (\<lambda>(net_len, b).
       Inr (unat net_len, b))"

definition ps_validate_size :: "nat \<Rightarrow> ctx \<Rightarrow> unit res" where
  "ps_validate_size sz c =
     (if sz = 0 \<or> sz > f_payload c then Inl embedded_packet_size_error else Inr ())"

definition ps_extract_size :: "buffer \<Rightarrow> ctx \<Rightarrow> (nat \<times> buffer) res" where
  "ps_extract_size b c =
     bindE (ps_read_size b) (\<lambda>(sz, b). bindE (ps_validate_size sz c) (\<lambda>_. Inr (sz, b)))"

text \<open>First fragment of a packet, of at least two bytes: the three cases on its size.\<close>

definition ps_put_first :: "buffer \<Rightarrow> ctx \<Rightarrow> nat \<Rightarrow> pkt_stream \<Rightarrow> (buffer \<times> pkt_stream) res" where
  "ps_put_first b c base ps =
     bindE (ps_extract_size b c) (\<lambda>(sz, b).
       let ps = ps\<lparr>ps_declared_size := sz, ps_declared_size_defined := True\<rparr> in
       if b_size b = sz then Inr (ps_buffer ps, ps\<lparr>ps_buffer := b\<rparr>)
       else if b_size b < sz then
         (if sz_add (sz_add (b_off b) sz) (f_tailroom c) \<le> b_cap b
          then Inr (ps_buffer ps, ps\<lparr>ps_buffer := b\<rparr>)
          else bindE (ctx_realign c base b) (\<lambda>b'. Inr (ps_buffer ps, ps\<lparr>ps_buffer := b'\<rparr>)))
       else
         bindE (ctx_prepare c base (ps_buffer ps)) (\<lambda>(_, pb).
         bindE (buf_read sz b) (\<lambda>(data, b).
         bindE (buf_write data pb) (\<lambda>pb. Inr (b, ps\<lparr>ps_buffer := pb\<rparr>)))))"

text \<open>Later fragment: the length word is completed byte by byte, then the packet is filled.\<close>

function ps_push_loop :: "buffer \<Rightarrow> ctx \<Rightarrow> pkt_stream \<Rightarrow> (buffer \<times> pkt_stream) res" where
  "ps_push_loop b c ps =
     (if ps_declared_size_defined ps then Inr (b, ps)
      else if buf_empty b then Inr (b, ps)
      else bindE (buf_pop_front b) (\<lambda>(v, b).
           bindE (buf_push_back v (ps_buffer ps)) (\<lambda>pb.
             if ps_size_defined pb then
               bindE (ps_extract_size pb c) (\<lambda>(sz, pb).
                 ps_push_loop b c (ps\<lparr>ps_buffer := pb, ps_declared_size := sz,
                                      ps_declared_size_defined := True\<rparr>))
             else ps_push_loop b c (ps\<lparr>ps_buffer := pb\<rparr>))))"
  by pat_completeness auto
termination
  by (relation "measure (\<lambda>(b, c, ps). b_size b)")
    (auto simp: buf_pop_front_def buf_index_def buf_empty_def exn_simps split: if_splits)

declare ps_push_loop.simps [simp del]

definition ps_fill :: "buffer \<Rightarrow> pkt_stream \<Rightarrow> (buffer \<times> pkt_stream) res" where
  "ps_fill b ps =
     (if b_size (ps_buffer ps) < ps_declared_size ps then
        (let needed = min (ps_declared_size ps - b_size (ps_buffer ps)) (b_size b) in
         bindE (buf_read needed b) (\<lambda>(data, b).
         bindE (buf_write data (ps_buffer ps)) (\<lambda>pb. Inr (b, ps\<lparr>ps_buffer := pb\<rparr>))))
      else Inr (b, ps))"

definition ps_put :: "buffer \<Rightarrow> ctx \<Rightarrow> nat \<Rightarrow> pkt_stream \<Rightarrow> (buffer \<times> pkt_stream) res" where
  "ps_put b c base ps =
     (if buf_defined b then
        (if \<not> ps_declared_size_defined ps \<and> \<not> buf_defined (ps_buffer ps) then
           (if ps_size_defined b then ps_put_first b c base ps
            else bindE (ctx_realign c base b) (\<lambda>b'. Inr (ps_buffer ps, ps\<lparr>ps_buffer := b'\<rparr>)))
         else
           bindE (ps_push_loop b c ps) (\<lambda>(b, ps).
             if \<not> ps_declared_size_defined ps then Inr (b, ps) else ps_fill b ps))
      else Inr (b, ps))"

definition ps_ready :: "pkt_stream \<Rightarrow> bool" where
  "ps_ready ps \<longleftrightarrow> ps_declared_size_defined ps \<and> b_size (ps_buffer ps) \<ge> ps_declared_size ps"

definition ps_get :: "buffer \<Rightarrow> pkt_stream \<Rightarrow> (buffer \<times> pkt_stream) res" where
  "ps_get ret ps =
     (if ps_declared_size_defined ps \<and> b_size (ps_buffer ps) = ps_declared_size ps
      then Inr (ps_buffer ps,
                ps\<lparr>ps_buffer := buf_reset_content ret, ps_declared_size_defined := False\<rparr>)
      else Inl packet_not_fully_formed)"

definition ps_prepend_size :: "buffer \<Rightarrow> buffer res" where
  "ps_prepend_size b = buf_prepend (be16 (of_nat (b_size b))) b"

section \<open>The invariant\<close>

text \<open>The bytes of the unfinished packet, length word included.\<close>

definition ps_pending :: "pkt_stream \<Rightarrow> u8 list" where
  "ps_pending ps =
     (if ps_declared_size_defined ps then be16 (of_nat (ps_declared_size ps)) else [])
     @ content (ps_buffer ps)"

text \<open>
  In a packet the buffer has room for the rest of it; before the length word is complete the
  buffer holds less than two bytes and has room for the word and the largest packet.
\<close>

definition ps_inv :: "ctx \<Rightarrow> pkt_stream \<Rightarrow> bool" where
  "ps_inv c ps \<longleftrightarrow> buf_wf (ps_buffer ps) \<and> b_kind (ps_buffer ps) \<noteq> Plain \<and>
     (if ps_declared_size_defined ps
      then 0 < ps_declared_size ps \<and> ps_declared_size ps \<le> f_payload c \<and> ps_declared_size ps < 65536
        \<and> b_size (ps_buffer ps) \<le> ps_declared_size ps
        \<and> b_off (ps_buffer ps) + ps_declared_size ps \<le> b_cap (ps_buffer ps)
      else b_size (ps_buffer ps) < 2
        \<and> (b_size (ps_buffer ps) = 1 \<longrightarrow>
             b_off (ps_buffer ps) + 2 + f_payload c \<le> b_cap (ps_buffer ps)))"

text \<open>
  An input buffer: what \<open>queue_recv\<close> receives into, or what is left of it.  It holds at most
  the payload and its array has the capacity of the context.
\<close>

definition ps_input :: "ctx \<Rightarrow> buffer \<Rightarrow> bool" where
  "ps_input c b \<longleftrightarrow> buf_wf b \<and> b_kind b \<noteq> Plain \<and> (b_size b \<noteq> 0 \<longrightarrow> f_adj_capacity c \<le> b_cap b)"

lemma ps_inv_new: "ps_inv c (ps_new any)"
  by (simp add: ps_inv_def ps_new_def) (simp add: alloc_default_def buf_default_def)

lemma ps_pending_new [simp]: "ps_pending (ps_new any) = []"
  by (simp add: ps_pending_def ps_new_def)

lemma ps_extract_size_eq:
  assumes "buf_wf b" and "2 \<le> b_size b"
  defines "n \<equiv> unat (of_be16 (take 2 (content b)))"
  shows "ps_extract_size b c =
    (if n = 0 \<or> f_payload c < n then Inl embedded_packet_size_error
     else Inr (n, b\<lparr>b_off := b_off b + 2, b_size := b_size b - 2\<rparr>))"
  using assms by (simp add: ps_extract_size_def ps_read_size_def buf_read_eq ps_validate_size_def)

text \<open>
  A byte string with a bad length word in front.  Contexts: room for the length word behind the
  largest packet, and sizes for which the sum in \<open>put\<close> does not wrap.
\<close>

definition bad_length :: "ctx \<Rightarrow> u8 list \<Rightarrow> bool" where
  "bad_length c s \<longleftrightarrow> 2 \<le> length s \<and>
     (unat (of_be16 (take 2 s)) = 0 \<or> f_payload c < unat (of_be16 (take 2 s)))"

definition ps_ctx :: "nat \<Rightarrow> ctx \<Rightarrow> bool" where
  "ps_ctx k c \<longleftrightarrow> ctx_ok k c \<and> 1 \<le> f_tailroom c \<and> f_adj_capacity c < 2 ^ 62"

lemma ps_ctx_bounds:
  assumes "ps_ctx k c"
  shows "ctx_actual_headroom c base + f_payload c + f_tailroom c < f_adj_capacity c"
  using assms ctx_actual_headroom_bounds(2) [of k c base] by (auto simp: ps_ctx_def ctx_ok_def)

lemma unat_u16: "unat (w :: u16) < 65536"
proof -
  have "unat w < 2 ^ LENGTH(16)" by (rule unsigned_less)
  then show ?thesis by simp
qed

lemma two_bytes: "length bs = 2 \<Longrightarrow> be16 (of_be16 bs) = bs"
proof -
  assume "length bs = 2"
  then obtain x y where bs: "bs = [x, y]" by (auto simp: numeral_2_eq_2 length_Suc_conv)
  have "be16 (of_be16 [x, y]) = [x, y]"
    unfolding be16_def of_be16.simps
    by (auto intro!: bit_word_eqI simp: bit_simps) (drule bit_imp_le_length, simp)
  then show ?thesis by (simp add: bs)
qed

lemma split_length_word:
  assumes "2 \<le> length s"
  shows "be16 (of_nat (unat (of_be16 (take 2 s)))) @ drop 2 s = s"
  using assms two_bytes [of "take 2 s"] by simp

lemma ps_put_first_bad:
  assumes "buf_wf b" and "bad_length c (content b)"
  shows "ps_put_first b c base ps = Inl embedded_packet_size_error"
  using assms ps_extract_size_eq [of b c]
  by (auto simp: ps_put_first_def bad_length_def)

text \<open>What \<open>put\<close> promises: it makes progress, keeps the bytes, and stops only at a full packet.\<close>

definition put_ok :: "ctx \<Rightarrow> buffer \<Rightarrow> pkt_stream \<Rightarrow> (buffer \<times> pkt_stream) res \<Rightarrow> bool" where
  "put_ok c b ps r \<longleftrightarrow> (\<exists>b' ps'. r = Inr (b', ps') \<and> ps_inv c ps' \<and> ps_input c b'
     \<and> ps_pending ps' @ content b' = ps_pending ps @ content b
     \<and> b_size b' < b_size b \<and> (b_size b' \<noteq> 0 \<longrightarrow> ps_ready ps'))"

text \<open>The fragment becomes the stream's buffer; what the caller gets back is empty.\<close>

lemma put_ok_swap:
  assumes "ps_inv c (ps\<lparr>ps_declared_size := sz, ps_declared_size_defined := d, ps_buffer := pb\<rparr>)"
    and "buf_wf (ps_buffer ps)" and "b_kind (ps_buffer ps) \<noteq> Plain" and "b_size (ps_buffer ps) = 0"
    and "0 < b_size b"
    and "ps_pending ps = []"
    and "(if d then be16 (of_nat sz) else []) @ content pb = content b"
  shows "put_ok c b ps
    (Inr (ps_buffer ps, ps\<lparr>ps_declared_size := sz, ps_declared_size_defined := d, ps_buffer := pb\<rparr>))"
  unfolding put_ok_def
  using assms by (intro exI conjI) (auto simp: ps_input_def ps_pending_def)

lemma ps_put_first_ok:
  assumes c: "ps_ctx k c" and inv: "ps_inv c ps" and b: "ps_input c b"
    and nd: "\<not> ps_declared_size_defined ps" "b_size (ps_buffer ps) = 0"
    and two: "2 \<le> b_size b" and good: "\<not> bad_length c (content b)"
  shows "put_ok c b ps (ps_put_first b c base ps)"
proof -
  have wf: "buf_wf b" and kd: "b_kind b \<noteq> Plain" and cap: "f_adj_capacity c \<le> b_cap b"
    using b two by (auto simp: ps_input_def)
  have pw: "buf_wf (ps_buffer ps)" "b_kind (ps_buffer ps) \<noteq> Plain" and pe: "ps_pending ps = []"
    using inv nd by (auto simp: ps_inv_def ps_pending_def)
  define sz where "sz = unat (of_be16 (take 2 (content b)))"
  define b1 where "b1 = b\<lparr>b_off := b_off b + 2, b_size := b_size b - 2\<rparr>"
  have sz: "0 < sz" "sz \<le> f_payload c" using good two wf by (auto simp: bad_length_def sz_def)
  have sz16: "sz < 65536"
    unfolding sz_def by (rule unat_u16)
  have ex: "ps_extract_size b c = Inr (sz, b1)"
    using ps_extract_size_eq [OF wf two, of c] sz by (simp add: sz_def b1_def)
  have b1: "buf_wf b1" "content b1 = drop 2 (content b)"
    using buf_read_alloc_wf [OF wf two] content_advance [OF two] by (simp_all add: b1_def)
  have bytes: "be16 (of_nat sz) @ content b1 = content b"
    using split_length_word [of "content b"] two wf b1(2) by (simp add: sz_def)
  note swap = put_ok_swap [where c = c and ps = ps and b = b and sz = sz and d = True, OF _ pw nd(2) _ pe]
  have b0: "0 < b_size b" using two by simp
  let ?ps = "ps\<lparr>ps_declared_size := sz, ps_declared_size_defined := True\<rparr>"
  consider (eq) "b_size b1 = sz" | (under) "b_size b1 < sz" | (over) "sz < b_size b1" by linarith
  then show ?thesis
  proof cases
    case eq
    then have "ps_inv c (?ps\<lparr>ps_buffer := b1\<rparr>)"
      using b1 sz sz16 kd by (auto simp: ps_inv_def b1_def buf_wf_def)
    from swap [OF this b0] bytes eq show ?thesis by (simp add: ps_put_first_def ex)
  next
    case under
    show ?thesis
    proof (cases "sz_add (sz_add (b_off b1) sz) (f_tailroom c) \<le> b_cap b1")
      case True
      have "f_tailroom c < 2 ^ 62" using c by (simp add: ps_ctx_def ctx_ok_def)
      moreover have "b_off b1 < MAX_OBJECT" using b1(1) by (simp add: buf_wf_def)
      ultimately have "b_off b1 + sz \<le> b_cap b1" using True sz16 by simp
      then have "ps_inv c (?ps\<lparr>ps_buffer := b1\<rparr>)"
        using b1 sz sz16 kd under by (auto simp: ps_inv_def b1_def)
      from swap [OF this b0] bytes under True show ?thesis by (simp add: ps_put_first_def ex)
    next
      case False
      let ?h = "ctx_actual_headroom c base"
      have room: "?h + sz \<le> b_cap b1"
        using ps_ctx_bounds [OF c, of base] sz(2) cap by (simp add: b1_def)
      then obtain b2 where b2: "ctx_realign c base b1 = Inr b2" "buf_wf b2" "content b2 = content b1"
        "b_off b2 = ?h" "b_size b2 = b_size b1" "b_cap b2 = b_cap b1" "b_kind b2 = b_kind b1"
        using buf_realign_ok [OF b1(1), of ?h] under by (auto simp: ctx_realign_def)
      then have "ps_inv c (?ps\<lparr>ps_buffer := b2\<rparr>)"
        using sz sz16 kd under room by (auto simp: ps_inv_def b1_def)
      from swap [OF this b0] bytes under False b2(1,3) show ?thesis
        by (simp add: ps_put_first_def ex)
    qed
  next
    case over
    obtain pb where pb: "ctx_prepare c base (ps_buffer ps) = Inr (f_payload c, pb)" "buf_wf pb"
      "content pb = []" "b_off pb = ctx_actual_headroom c base" "b_size pb = 0"
      "f_adj_capacity c \<le> b_cap pb" "b_kind pb \<noteq> Plain"
      using ctx_prepare_ok [OF _ pw, of k c base] c by (auto simp: ps_ctx_def)
    define b2 where "b2 = b1\<lparr>b_off := b_off b1 + sz, b_size := b_size b1 - sz\<rparr>"
    have rd: "buf_read sz b1 = Inr (take sz (content b1), b2)" "buf_wf b2"
      "content b2 = drop sz (content b1)"
      using over buf_read_alloc_wf [OF b1(1), of sz] content_advance [of sz b1]
      by (simp_all add: buf_read_eq b2_def)
    have len: "length (take sz (content b1)) = sz" using over b1(1) by simp
    have room: "b_off pb + sz \<le> b_cap pb"
      using ps_ctx_bounds [OF c, of base] sz(2) pb(4,6) by simp
    then obtain pb' where pb': "buf_write (take sz (content b1)) pb = Inr pb'" "b_cap pb' = b_cap pb"
      using buf_write_fits [OF pb(2), of "take sz (content b1)"] len pb(5) by auto
    have w: "buf_wf pb'" "content pb' = take sz (content b1)" "b_off pb' = b_off pb"
      "b_kind pb' = b_kind pb" "b_size pb' = sz"
      using buf_write_ok [OF pb(2) pb'(1)] len sz16 pb(3,5) by simp_all
    have "ps_put_first b c base ps = Inr (b2, ?ps\<lparr>ps_buffer := pb'\<rparr>)"
      using over pb(1) rd(1) pb'(1) by (simp add: ps_put_first_def ex Let_def)
    moreover have "ps_inv c (?ps\<lparr>ps_buffer := pb'\<rparr>)"
      using w pb pb' sz sz16 room by (auto simp: ps_inv_def)
    moreover have "ps_input c b2" using rd(2) kd cap by (simp add: ps_input_def b2_def b1_def)
    moreover have "ps_pending (?ps\<lparr>ps_buffer := pb'\<rparr>) @ content b2 = ps_pending ps @ content b"
      using w(2) rd(3) bytes pe by (simp add: ps_pending_def)
    moreover have "b_size b2 < b_size b" using two by (simp add: b2_def b1_def)
    moreover have "ps_ready (?ps\<lparr>ps_buffer := pb'\<rparr>)" using w(5) by (simp add: ps_ready_def)
    ultimately show ?thesis unfolding put_ok_def by blast
  qed
qed

text \<open>Filling a packet whose length is known.\<close>

lemma ps_fill_ok:
  assumes inv: "ps_inv c ps" and d: "ps_declared_size_defined ps"
    and nr: "b_size (ps_buffer ps) < ps_declared_size ps" and b: "ps_input c b"
  shows "\<exists>b' ps'. ps_fill b ps = Inr (b', ps') \<and> ps_inv c ps' \<and> ps_input c b'
     \<and> ps_pending ps' @ content b' = ps_pending ps @ content b
     \<and> (b_size b \<noteq> 0 \<longrightarrow> b_size b' < b_size b) \<and> b_size b' \<le> b_size b
     \<and> (b_size b' \<noteq> 0 \<longrightarrow> ps_ready ps')"
proof -
  let ?pb = "ps_buffer ps"
  define n where "n = min (ps_declared_size ps - b_size ?pb) (b_size b)"
  have wf: "buf_wf b" "b_kind b \<noteq> Plain" "b_size b \<noteq> 0 \<Longrightarrow> f_adj_capacity c \<le> b_cap b"
    using b by (auto simp: ps_input_def)
  have pw: "buf_wf ?pb" "b_kind ?pb \<noteq> Plain" "b_off ?pb + ps_declared_size ps \<le> b_cap ?pb"
    "ps_declared_size ps < 65536" using inv d by (auto simp: ps_inv_def)
  define b1 where "b1 = b\<lparr>b_off := b_off b + n, b_size := b_size b - n\<rparr>"
  have nb: "n \<le> b_size b" by (simp add: n_def)
  have rd: "buf_read n b = Inr (take n (content b), b1)" "buf_wf b1" "content b1 = drop n (content b)"
    using nb buf_read_alloc_wf [OF wf(1) nb] content_advance [OF nb]
    by (simp_all add: buf_read_eq b1_def)
  have len: "length (take n (content b)) = n" using nb wf(1) by simp
  have nn: "b_size ?pb + n \<le> ps_declared_size ps" using nr by (simp add: n_def)
  obtain pb' where pb': "buf_write (take n (content b)) ?pb = Inr pb'" "b_cap pb' = b_cap ?pb"
    using buf_write_fits [OF pw(1), of "take n (content b)"] len pw(3) nn by auto
  have w: "buf_wf pb'" "content pb' = content ?pb @ take n (content b)" "b_off pb' = b_off ?pb"
    "b_kind pb' = b_kind ?pb" "b_size pb' = b_size ?pb + n"
    using buf_write_ok [OF pw(1) pb'(1)] len nn pw(4) by simp_all
  let ?ps = "ps\<lparr>ps_buffer := pb'\<rparr>"
  have "ps_fill b ps = Inr (b1, ?ps)"
    using nr rd(1) pb'(1) by (simp add: ps_fill_def Let_def n_def [symmetric])
  moreover have "ps_inv c ?ps" using inv d w pb' nn by (auto simp: ps_inv_def)
  moreover have "ps_input c b1" using rd(2) wf by (auto simp: ps_input_def b1_def)
  moreover have "ps_pending ?ps @ content b1 = ps_pending ps @ content b"
    using w(2) rd(3) d by (simp add: ps_pending_def)
  moreover have "b_size b \<noteq> 0 \<longrightarrow> b_size b1 < b_size b" using nr by (simp add: b1_def n_def)
  moreover have "b_size b1 \<noteq> 0 \<longrightarrow> ps_ready ?ps"
    using d w(5) nr by (auto simp: ps_ready_def b1_def n_def)
  ultimately show ?thesis by (auto simp: b1_def)
qed

text \<open>One byte of the length word is there, the next fragment brings the other.\<close>

lemma ps_push_loop_ok:
  assumes c: "ps_ctx k c" and inv: "ps_inv c ps" and b: "ps_input c b"
    and nd: "\<not> ps_declared_size_defined ps" "b_size (ps_buffer ps) = 1" and ne: "b_size b \<noteq> 0"
  shows "if bad_length c (content (ps_buffer ps) @ content b)
    then ps_push_loop b c ps = Inl embedded_packet_size_error
    else \<exists>b' ps'. ps_push_loop b c ps = Inr (b', ps') \<and> ps_inv c ps' \<and> ps_input c b'
      \<and> ps_declared_size_defined ps' \<and> b_size (ps_buffer ps') < ps_declared_size ps'
      \<and> ps_pending ps' @ content b' = ps_pending ps @ content b \<and> b_size b' < b_size b"
proof -
  let ?pb = "ps_buffer ps"
  have wf: "buf_wf b" "b_kind b \<noteq> Plain" "f_adj_capacity c \<le> b_cap b"
    using b ne by (auto simp: ps_input_def)
  have pw: "buf_wf ?pb" "b_kind ?pb \<noteq> Plain" "b_off ?pb + 2 + f_payload c \<le> b_cap ?pb"
    using inv nd by (auto simp: ps_inv_def)
  obtain u where u: "content ?pb = [u]" using pw(1) nd(2) length_content [OF pw(1)]
    by (metis One_nat_def length_0_conv length_Suc_conv)
  obtain v rest where v: "content b = v # rest"
    using length_content [OF wf(1)] ne by (cases "content b") auto
  define b1 where "b1 = b\<lparr>b_off := b_off b + 1, b_size := b_size b - 1\<rparr>"
  have one: "1 \<le> b_size b" using ne by simp
  have pop: "buf_pop_front b = Inr (v, b1)" "buf_wf b1" "content b1 = rest" "b_size b1 < b_size b"
    using buf_pop_front_eq [OF wf(1)] ne v buf_read_alloc_wf [OF wf(1) one]
      content_advance [OF one] by (simp_all add: b1_def)
  obtain pb where pb: "buf_write [v] ?pb = Inr pb" "b_cap pb = b_cap ?pb"
    using buf_write_fits [OF pw(1), of "[v]"] pw(3) nd(2) by auto
  have w: "buf_wf pb" "content pb = [u, v]" "b_off pb = b_off ?pb" "b_kind pb = b_kind ?pb"
    "b_size pb = 2"
    using buf_write_ok [OF pw(1) pb(1)] u nd(2) by simp_all
  define n where "n = unat (of_be16 [u, v])"
  define pb2 where "pb2 = pb\<lparr>b_off := b_off pb + 2, b_size := b_size pb - 2\<rparr>"
  have ex: "ps_extract_size pb c = (if n = 0 \<or> f_payload c < n then Inl embedded_packet_size_error
      else Inr (n, pb2))"
    using ps_extract_size_eq [OF w(1), of c] w(2,5) by (simp add: n_def pb2_def)
  have bad: "bad_length c (content ?pb @ content b) \<longleftrightarrow> n = 0 \<or> f_payload c < n"
    by (simp add: u v bad_length_def n_def)
  have pb2: "buf_wf pb2" "content pb2 = []"
    using buf_read_alloc_wf [OF w(1), of 2] w(5) by (simp_all add: pb2_def)
  let ?ps = "ps\<lparr>ps_buffer := pb2, ps_declared_size := n, ps_declared_size_defined := True\<rparr>"
  have push: "buf_push_back v ?pb = Inr pb" using buf_push_back_write [OF pw(1)] pb(1) by simp
  have step: "ps_push_loop b c ps = bindE (ps_extract_size pb c) (\<lambda>(sz, pb).
      ps_push_loop b1 c (ps\<lparr>ps_buffer := pb, ps_declared_size := sz, ps_declared_size_defined := True\<rparr>))"
    using nd ne pop(1) push w(5)
    by (simp add: ps_push_loop.simps [of b c ps] buf_empty_def ps_size_defined_def)
  show ?thesis
  proof (cases "n = 0 \<or> f_payload c < n")
    case True
    then show ?thesis using bad step ex by simp
  next
    case False
    have "ps_push_loop b c ps = Inr (b1, ?ps)"
      using False step ex by (simp add: ps_push_loop.simps [of b1])
    moreover have "ps_inv c ?ps"
      using False pb2(1) pw(2,3) w(3,4,5) pb(2) unat_u16 [of "of_be16 [u, v]"]
      by (auto simp: ps_inv_def pb2_def n_def)
    moreover have "ps_input c b1" using pop(2) wf by (simp add: ps_input_def b1_def)
    moreover have "b_size (ps_buffer ?ps) < ps_declared_size ?ps"
      using False w(5) by (simp add: pb2_def)
    moreover have "ps_pending ?ps @ content b1 = ps_pending ps @ content b"
      using nd(1) u v pop(3) pb2(2) two_bytes [of "[u, v]"] by (simp add: ps_pending_def n_def)
    ultimately show ?thesis using bad False pop(4) by auto
  qed
qed

lemma bad_length_pending:
  assumes "ps_inv c ps" and "ps_declared_size_defined ps"
  shows "\<not> bad_length c (ps_pending ps @ s)"
proof -
  have "of_be16 (be16 (of_nat (ps_declared_size ps))) = of_nat (ps_declared_size ps)" by simp
  then show ?thesis
    using assms by (auto simp: bad_length_def ps_pending_def ps_inv_def unat_of_nat)
qed

lemma ps_put_ok:
  assumes c: "ps_ctx k c" and inv: "ps_inv c ps" and nr: "\<not> ps_ready ps"
    and b: "ps_input c b" and ne: "b_size b \<noteq> 0"
  shows "if bad_length c (ps_pending ps @ content b)
    then ps_put b c base ps = Inl embedded_packet_size_error
    else put_ok c b ps (ps_put b c base ps)"
proof -
  let ?pb = "ps_buffer ps"
  have wf: "buf_wf b" "b_kind b \<noteq> Plain" "f_adj_capacity c \<le> b_cap b"
    using b ne by (auto simp: ps_input_def)
  consider (first) "\<not> ps_declared_size_defined ps" "b_size ?pb = 0"
    | (second) "\<not> ps_declared_size_defined ps" "b_size ?pb = 1"
    | (fill) "ps_declared_size_defined ps"
    using inv by (fastforce simp: ps_inv_def less_2_cases_iff split: if_splits)
  then show ?thesis
  proof cases
    case first
    have pe: "ps_pending ps = []" using first by (simp add: ps_pending_def)
    show ?thesis
    proof (cases "2 \<le> b_size b")
      case True
      then have "ps_put b c base ps = ps_put_first b c base ps"
        using first by (simp add: ps_put_def buf_defined_def ps_size_defined_def)
      then show ?thesis
        using ps_put_first_bad [OF wf(1)] ps_put_first_ok [OF c inv b first True] pe by simp
    next
      case False
      then have one: "b_size b = 1" using ne by simp
      let ?h = "ctx_actual_headroom c base"
      have room: "?h + 2 + f_payload c \<le> b_cap b"
        using ps_ctx_bounds [OF c, of base] c wf(3) by (simp add: ps_ctx_def)
      obtain b2 where b2: "ctx_realign c base b = Inr b2" "buf_wf b2" "content b2 = content b"
        "b_off b2 = ?h" "b_size b2 = 1" "b_cap b2 = b_cap b" "b_kind b2 = b_kind b"
        using buf_realign_ok [OF wf(1), of ?h] one room by (auto simp: ctx_realign_def)
      have r: "ps_put b c base ps = Inr (?pb, ps\<lparr>ps_buffer := b2\<rparr>)"
        using first one b2(1) by (simp add: ps_put_def buf_defined_def ps_size_defined_def)
      have "ps_inv c (ps\<lparr>ps_buffer := b2\<rparr>)"
        using b2 wf(2) room first by (simp add: ps_inv_def)
      moreover have "\<not> bad_length c (ps_pending ps @ content b)"
        using one wf(1) pe by (simp add: bad_length_def)
      ultimately show ?thesis
        using r inv first b2(3) one
        by (auto simp: put_ok_def ps_inv_def ps_input_def ps_pending_def)
    qed
  next
    case second
    have pe: "ps_pending ps = content ?pb" using second by (simp add: ps_pending_def)
    have r: "ps_put b c base ps = bindE (ps_push_loop b c ps) (\<lambda>(b, ps).
        if \<not> ps_declared_size_defined ps then Inr (b, ps) else ps_fill b ps)"
      using second ne by (simp add: ps_put_def buf_defined_def)
    show ?thesis
    proof (cases "bad_length c (content ?pb @ content b)")
      case True
      then show ?thesis using ps_push_loop_ok [OF c inv b second ne] r pe by simp
    next
      case False
      then obtain b1 ps1 where s1: "ps_push_loop b c ps = Inr (b1, ps1)" "ps_inv c ps1" "ps_input c b1"
        "ps_declared_size_defined ps1" "b_size (ps_buffer ps1) < ps_declared_size ps1"
        "ps_pending ps1 @ content b1 = ps_pending ps @ content b" "b_size b1 < b_size b"
        using ps_push_loop_ok [OF c inv b second ne] by auto
      from ps_fill_ok [OF s1(2,4,5,3)] s1 r False pe show ?thesis
        by (fastforce simp: put_ok_def)
    qed
  next
    case fill
    have "ps_put b c base ps = ps_fill b ps"
      using fill ne by (simp add: ps_put_def buf_defined_def ps_push_loop.simps [of b])
    moreover have "b_size ?pb < ps_declared_size ps" using nr fill by (simp add: ps_ready_def)
    ultimately show ?thesis
      using ps_fill_ok [OF inv fill _ b] bad_length_pending [OF inv fill] ne
      by (auto simp: put_ok_def)
  qed
qed

text \<open>A ready stream hands out its packet and starts over.\<close>

lemma ps_get_ok:
  assumes "ps_inv c ps" and "ps_ready ps" and "buf_wf ret" and "b_kind ret \<noteq> Plain"
  shows "\<exists>pkt ps'. ps_get ret ps = Inr (pkt, ps') \<and> buf_wf pkt \<and> b_kind pkt \<noteq> Plain
    \<and> ps_inv c ps' \<and> \<not> ps_ready ps' \<and> ps_pending ps' = []
    \<and> 0 < b_size pkt \<and> b_size pkt \<le> f_payload c \<and> b_size pkt < 65536
    \<and> ps_pending ps = be16 (of_nat (length (content pkt))) @ content pkt"
proof -
  have sz: "b_size (ps_buffer ps) = ps_declared_size ps" "ps_declared_size_defined ps"
    "buf_wf (ps_buffer ps)" "b_kind (ps_buffer ps) \<noteq> Plain"
    using assms(1,2) by (auto simp: ps_inv_def ps_ready_def)
  then show ?thesis
    using assms by (auto simp: ps_get_def ps_inv_def ps_ready_def ps_pending_def
        buf_reset_content_def buf_wf_def)
qed
end
