(* ===== verification/TcpLink.thy ===== *)
theory TcpLink
  imports PktStream
begin

text \<open>
  The TCP link of \<open>transport/tcplinkcommon.hpp\<close> and \<open>transport/tcplink.hpp\<close>: a send queue with
  its outstanding asynchronous send, and a receiver that cuts the byte stream into packets.  The
  callbacks of the read handler and of the optional stream mutator are the fields of
  \<open>link_env\<close>, over a state \<open>'h\<close> of their own; they are not given the link, so calls back into it
  are not modelled.  \<open>socket.async_send\<close> and \<open>async_receive\<close> leave the bytes offered and the
  buffer to fill in the state; the completion handlers are the operations that end them.  The
  addresses of arrays come from the oracle \<open>addr\<close>.  The state of the packet stream after an
  exception is not modelled: the receive path stops the link then.
\<close>

section \<open>State\<close>

datatype link_error = TCP_OVERFLOW | NETWORK_SEND_ERROR | NETWORK_RECV_ERROR | TCP_SIZE_ERROR

record 'h link_env =
  e_read_handler :: "buffer \<Rightarrow> 'h \<Rightarrow> bool \<times> buffer \<times> 'h"
  e_error_handler :: "string \<Rightarrow> 'h \<Rightarrow> 'h"
  e_eof_handler :: "'h \<Rightarrow> 'h"
  e_needs_send :: "'h \<Rightarrow> 'h"
  e_pre_send :: "(buffer \<Rightarrow> buffer) option"
  e_post_recv :: "(buffer \<Rightarrow> buffer) option"

record 'h link =
  l_raw_only :: bool
  l_halt :: bool
  l_ctx :: ctx
  l_queue_max :: nat
  l_free_max :: nat
  l_queue :: "buffer list"
  l_free :: "buffer list"
  l_pkts :: pkt_stream
  l_raw_read :: bool
  l_raw_write :: bool
  l_async_send :: "u8 list option"
  l_async_recv :: "buffer option"
  l_bytes_in :: u64
  l_packets_in :: u64
  l_bytes_out :: u64
  l_packets_out :: u64
  l_errors :: "link_error list"
  l_user :: 'h

definition link_set_raw_mode_read :: "bool \<Rightarrow> 'h link \<Rightarrow> 'h link" where
  "link_set_raw_mode_read md l = l\<lparr>l_raw_read := (if l_raw_only l then True else md)\<rparr>"

definition link_set_raw_mode_write :: "bool \<Rightarrow> 'h link \<Rightarrow> 'h link" where
  "link_set_raw_mode_write md l = l\<lparr>l_raw_write := (if l_raw_only l then True else md)\<rparr>"

definition link_set_raw_mode :: "bool \<Rightarrow> 'h link \<Rightarrow> 'h link" where
  "link_set_raw_mode md l = link_set_raw_mode_write md (link_set_raw_mode_read md l)"

definition link_new :: "bool \<Rightarrow> nat \<Rightarrow> nat \<Rightarrow> ctx \<Rightarrow> 'h \<Rightarrow> 'h link" where
  "link_new raw_only queue_max free_max c h =
     link_set_raw_mode False
       \<lparr>l_raw_only = raw_only, l_halt = False, l_ctx = c, l_queue_max = queue_max,
        l_free_max = free_max, l_queue = [], l_free = [], l_pkts = ps_new 0, l_raw_read = False,
        l_raw_write = False, l_async_send = None, l_async_recv = None, l_bytes_in = 0,
        l_packets_in = 0, l_bytes_out = 0, l_packets_out = 0, l_errors = [], l_user = h\<rparr>"

definition link_is_raw_mode_read :: "'h link \<Rightarrow> bool" where
  "link_is_raw_mode_read l = (if l_raw_only l then True else l_raw_read l)"

definition link_is_raw_mode_write :: "'h link \<Rightarrow> bool" where
  "link_is_raw_mode_write l = (if l_raw_only l then True else l_raw_write l)"

definition link_is_raw_mode :: "'h link \<Rightarrow> bool" where
  "link_is_raw_mode l \<longleftrightarrow> link_is_raw_mode_read l \<and> link_is_raw_mode_write l"

definition link_reset_align_adjust :: "nat \<Rightarrow> 'h link \<Rightarrow> 'h link" where
  "link_reset_align_adjust align_adjust l =
     l\<lparr>l_ctx := ctx_reset_align_adjust
         (sz_add align_adjust (if link_is_raw_mode l then 0 else 2)) (l_ctx l)\<rparr>"

definition link_stop :: "'h link \<Rightarrow> 'h link" where
  "link_stop l = l\<lparr>l_halt := True\<rparr>"

definition link_send_queue_size :: "'h link \<Rightarrow> u32" where
  "link_send_queue_size l = of_nat (length (l_queue l))"

definition link_send_queue_empty :: "'h link \<Rightarrow> bool" where
  "link_send_queue_empty l \<longleftrightarrow> link_send_queue_size l = 0"

text \<open>\<open>stats->error\<close>, \<open>tcp_error_handler\<close> and \<open>stop\<close>, in this order wherever the link fails.\<close>

definition link_fail :: "'h link_env \<Rightarrow> link_error \<Rightarrow> string \<Rightarrow> 'h link \<Rightarrow> 'h link" where
  "link_fail E err msg l =
     link_stop (l\<lparr>l_errors := l_errors l @ [err], l_user := e_error_handler E msg (l_user l)\<rparr>)"

section \<open>Sending\<close>

definition link_queue_send :: "'h link \<Rightarrow> 'h link res" where
  "link_queue_send l =
     (case l_queue l of [] \<Rightarrow> Inl undefined_behaviour
      | b # _ \<Rightarrow> Inr (l\<lparr>l_async_send := Some (content b)\<rparr>))"

definition link_queue_send_buffer :: "buffer \<Rightarrow> 'h link \<Rightarrow> 'h link res" where
  "link_queue_send_buffer b l =
     (let l = l\<lparr>l_queue := l_queue l @ [b]\<rparr> in
      if length (l_queue l) = 1 then link_queue_send l else Inr l)"

text \<open>
  \<open>send\<close> swaps the caller's buffer with a recycled or a fresh one: the second component of the
  result.
\<close>

definition link_send :: "'h link_env \<Rightarrow> buffer \<Rightarrow> 'h link \<Rightarrow> bool res \<times> buffer \<times> 'h link" where
  "link_send E b l =
     (if l_halt l then (Inr False, b, l)
      else if l_queue_max l \<noteq> 0 \<and> unat (link_send_queue_size l) \<ge> l_queue_max l then
        (Inr False, b, link_fail E TCP_OVERFLOW ''TCP_OVERFLOW'' l)
      else
        let (spare, l) = (case l_free l of f # fs \<Rightarrow> (f, l\<lparr>l_free := fs\<rparr>) | [] \<Rightarrow> (alloc_default, l));
            (buf, b) = alloc_swap spare b in
        case (if \<not> link_is_raw_mode_write l then ps_prepend_size buf else Inr buf) of
          Inl e \<Rightarrow> (Inl e, b, l)
        | Inr buf \<Rightarrow>
            let buf = (case e_pre_send E of None \<Rightarrow> buf | Some f \<Rightarrow> f buf) in
            (case link_queue_send_buffer buf l of
               Inl e \<Rightarrow> (Inl e, b, l)
             | Inr l \<Rightarrow> (Inr True, b, l)))"

text \<open>Completion of a send: \<open>error\<close> or the number of bytes the socket took.\<close>

definition link_handle_send :: "'h link_env \<Rightarrow> bool \<Rightarrow> nat \<Rightarrow> 'h link \<Rightarrow> 'h link res" where
  "link_handle_send E err bytes_sent l0 =
     (let l = l0\<lparr>l_async_send := None\<rparr> in
      if l_halt l then Inr l
      else if err then Inr (link_fail E NETWORK_SEND_ERROR ''NETWORK_SEND_ERROR'' l)
      else
        let l = l\<lparr>l_bytes_out := l_bytes_out l + of_nat bytes_sent,
                  l_packets_out := l_packets_out l + 1\<rparr> in
        (case l_queue l of
           [] \<Rightarrow> Inl undefined_behaviour
         | b # q \<Rightarrow>
             if bytes_sent > b_size b then
               Inr (link_fail E TCP_OVERFLOW ''TCP_INTERNAL_ERROR'' l)
             else
               bindE (if bytes_sent = b_size b then
                        Inr (l\<lparr>l_queue := q,
                               l_free := (if length (l_free l) < l_free_max l
                                          then l_free l @ [buf_reset_content b] else l_free l)\<rparr>)
                      else bindE (buf_advance bytes_sent b) (\<lambda>b. Inr (l\<lparr>l_queue := b # q\<rparr>)))
                 (\<lambda>l. if l_queue l \<noteq> [] then link_queue_send l
                      else Inr (l\<lparr>l_user := e_needs_send E (l_user l)\<rparr>))))"

section \<open>Receiving\<close>

text \<open>The loop of \<open>put_pktstream\<close>; what has been delivered when it throws stays delivered.\<close>

type_synonym 'h put_result = "bool res \<times> buffer \<times> buffer \<times> pkt_stream \<times> 'h"

partial_function (option) put_pktstream_loop ::
    "'h link_env \<Rightarrow> ctx \<Rightarrow> (nat \<Rightarrow> nat) \<Rightarrow> bool \<Rightarrow> buffer \<Rightarrow> buffer \<Rightarrow> pkt_stream \<Rightarrow> 'h
     \<Rightarrow> 'h put_result option" where
  "put_pktstream_loop E c addr requeue buf pkt ps h =
     (if b_size buf = 0 then Some (Inr requeue, buf, pkt, ps, h)
      else case ps_put buf c (addr (b_size buf)) ps of
        Inl e \<Rightarrow> Some (Inl e, buf, pkt, ps, h)
      | Inr (buf, ps) \<Rightarrow>
          if ps_ready ps then
            (case ps_get pkt ps of
               Inl e \<Rightarrow> Some (Inl e, buf, pkt, ps, h)
             | Inr (pkt, ps) \<Rightarrow>
                 (case e_read_handler E pkt h of
                    (requeue, pkt, h) \<Rightarrow> put_pktstream_loop E c addr requeue buf pkt ps h))
          else put_pktstream_loop E c addr requeue buf pkt ps h)"

definition link_put_pktstream ::
    "'h link_env \<Rightarrow> (nat \<Rightarrow> nat) \<Rightarrow> buffer \<Rightarrow> buffer \<Rightarrow> 'h link
     \<Rightarrow> (bool res \<times> buffer \<times> buffer \<times> 'h link) option" where
  "link_put_pktstream E addr buf pkt l =
     (let l = l\<lparr>l_bytes_in := l_bytes_in l + of_nat (b_size buf), l_packets_in := l_packets_in l + 1\<rparr>;
          buf = (case e_post_recv E of None \<Rightarrow> buf | Some f \<Rightarrow> f buf) in
      map_option (\<lambda>(r, buf, pkt, ps, h). (r, buf, pkt, l\<lparr>l_pkts := ps, l_user := h\<rparr>))
        (put_pktstream_loop E (l_ctx l) addr True buf pkt (l_pkts l) (l_user l)))"

definition link_process_recv_buffer ::
    "'h link_env \<Rightarrow> (nat \<Rightarrow> nat) \<Rightarrow> buffer \<Rightarrow> 'h link \<Rightarrow> (bool \<times> buffer \<times> 'h link) option" where
  "link_process_recv_buffer E addr buf l =
     (if \<not> link_is_raw_mode_read l then
        map_option (\<lambda>(r, buf, pkt, l).
          case r of
            Inl e \<Rightarrow> (False, buf, link_fail E TCP_SIZE_ERROR ''TCP_SIZE_ERROR'' l)
          | Inr requeue \<Rightarrow>
              (requeue,
               (if \<not> buf_allocated buf \<and> buf_allocated pkt then fst (alloc_move buf pkt) else buf), l))
          (link_put_pktstream E addr buf alloc_default l)
      else
        let buf = (case e_post_recv E of None \<Rightarrow> buf | Some f \<Rightarrow> f buf);
            (requeue, buf, h) = e_read_handler E buf (l_user l) in
        Some (requeue, buf, l\<lparr>l_user := h\<rparr>))"

definition link_queue_recv :: "nat \<Rightarrow> buffer option \<Rightarrow> 'h link \<Rightarrow> 'h link res" where
  "link_queue_recv base tcpfrom l =
     (let b = (case tcpfrom of None \<Rightarrow> alloc_default | Some b \<Rightarrow> b) in
      bindE (ctx_prepare (l_ctx l) base b) (\<lambda>(_, b). Inr (l\<lparr>l_async_recv := Some b\<rparr>)))"

definition link_start :: "nat \<Rightarrow> 'h link \<Rightarrow> 'h link res" where
  "link_start base l = (if \<not> l_halt l then link_queue_recv base None l else Inr l)"

text \<open>
  \<open>recv_buffer\<close> of \<open>tcplink.hpp\<close>, under the handler that \<open>queue_recv\<close> wraps around it: an
  exception is reported as \<open>TCP_SIZE_ERROR\<close> and stops the link.
\<close>

definition link_recv_buffer ::
    "'h link_env \<Rightarrow> (nat \<Rightarrow> nat) \<Rightarrow> nat \<Rightarrow> buffer \<Rightarrow> nat \<Rightarrow> 'h link \<Rightarrow> 'h link option" where
  "link_recv_buffer E addr base pfp bytes_recvd l =
     (let fail = link_fail E TCP_SIZE_ERROR ''TCP_SIZE_ERROR'' in
      case buf_set_size bytes_recvd pfp of
        Inl e \<Rightarrow> Some (fail l)
      | Inr buf \<Rightarrow>
          map_option (\<lambda>(requeue, buf, l).
            if \<not> l_halt l \<and> requeue then
              (case link_queue_recv base (Some buf) l of Inl e \<Rightarrow> fail l | Inr l \<Rightarrow> l)
            else l)
            (link_process_recv_buffer E addr buf l))"

datatype recv_status = Recv_ok | Recv_eof | Recv_error

definition link_handle_recv ::
    "'h link_env \<Rightarrow> (nat \<Rightarrow> nat) \<Rightarrow> nat \<Rightarrow> buffer \<Rightarrow> recv_status \<Rightarrow> nat \<Rightarrow> 'h link \<Rightarrow> 'h link option" where
  "link_handle_recv E addr base pfp err bytes_recvd l =
     (if \<not> l_halt l then
        (case err of
           Recv_ok \<Rightarrow> link_recv_buffer E addr base pfp bytes_recvd l
         | Recv_eof \<Rightarrow> Some (l\<lparr>l_user := e_eof_handler E (l_user l)\<rparr>)
         | Recv_error \<Rightarrow> Some (link_fail E NETWORK_RECV_ERROR ''NETWORK_RECV_ERROR'' l))
      else Some l)"

text \<open>\<open>inject\<close> feeds bytes as if they had been received; its exceptions go to the caller.\<close>

definition link_inject ::
    "'h link_env \<Rightarrow> (nat \<Rightarrow> nat) \<Rightarrow> nat \<Rightarrow> buffer \<Rightarrow> 'h link \<Rightarrow> (unit res \<times> 'h link) option" where
  "link_inject E addr base src l =
     (if b_size src \<noteq> 0 \<and> \<not> l_raw_only l then
        (case bindE (ctx_prepare (l_ctx l) base alloc_default) (\<lambda>(_, b). buf_write (content src) b) of
           Inl e \<Rightarrow> Some (Inl e, l)
         | Inr b \<Rightarrow>
             map_option (\<lambda>(r, _, _, l). (bindE r (\<lambda>_. Inr ()), l))
               (link_put_pktstream E addr b alloc_default l))
      else Some (Inr (), l))"


section \<open>The byte stream as packets\<close>

text \<open>
  Reference semantics of the receive side, on byte strings alone: the complete packets at the
  front, the rest, and whether the rest starts with a bad length word.
\<close>

function deframe :: "ctx \<Rightarrow> u8 list \<Rightarrow> u8 list list \<times> u8 list \<times> bool" where
  "deframe c s =
     (if length s < 2 then ([], s, False)
      else let n = unat (of_be16 (take 2 s)) in
        if n = 0 \<or> f_payload c < n then ([], s, True)
        else if length s - 2 < n then ([], s, False)
        else let (pkts, r, bad) = deframe c (drop (2 + n) s) in
          (take n (drop 2 s) # pkts, r, bad))"
  by pat_completeness auto
termination by (relation "measure (\<lambda>(c, s). length s)") auto

declare deframe.simps [simp del]

definition pkt_frame :: "u8 list \<Rightarrow> u8 list" where
  "pkt_frame p = be16 (of_nat (length p)) @ p"

definition pkt_ok :: "ctx \<Rightarrow> u8 list \<Rightarrow> bool" where
  "pkt_ok c p \<longleftrightarrow> p \<noteq> [] \<and> length p \<le> f_payload c \<and> length p < 65536"

lemma deframe_Nil [simp]: "deframe c [] = ([], [], False)"
  by (simp add: deframe.simps)

lemma deframe_bad: "bad_length c s \<Longrightarrow> deframe c s = ([], s, True)"
  by (auto simp: deframe.simps [of c s] bad_length_def)

lemma deframe_frame:
  assumes "pkt_ok c p"
  shows "deframe c (pkt_frame p @ s) = (let (pkts, r, bad) = deframe c s in (p # pkts, r, bad))"
proof -
  have n: "unat (of_be16 (take 2 (pkt_frame p @ s))) = length p"
    using assms by (simp add: pkt_frame_def pkt_ok_def unat_of_nat)
  have d: "drop (2 + length p) (pkt_frame p @ s) = s" "take (length p) (drop 2 (pkt_frame p @ s)) = p"
    and l: "length (pkt_frame p @ s) = 2 + length p + length s"
    by (simp_all add: pkt_frame_def)
  show ?thesis
    unfolding deframe.simps [of c "pkt_frame p @ s"] Let_def n d l
    using assms by (auto simp: pkt_ok_def)
qed

lemma deframe_short:
  "\<not> bad_length c s \<Longrightarrow> length s < 2 \<or> length s - 2 < unat (of_be16 (take 2 s)) \<Longrightarrow>
   deframe c s = ([], s, False)"
  by (auto simp: deframe.simps [of c s] bad_length_def Let_def)

lemma deframe_append:
  "deframe c (s @ t) =
     (let (pkts, r, bad) = deframe c s in
      if bad then (pkts, r @ t, True)
      else let (pkts', r', bad') = deframe c (r @ t) in (pkts @ pkts', r', bad'))"
proof (induction c s rule: deframe.induct)
  case (1 c s)
  let ?n = "unat (of_be16 (take 2 s))"
  consider (short) "length s < 2" | (bad) "bad_length c s"
    | (part) "2 \<le> length s" "\<not> bad_length c s" "length s - 2 < ?n"
    | (full) "2 \<le> length s" "\<not> bad_length c s" "?n \<le> length s - 2"
    by linarith
  then show ?case
  proof cases
    case bad
    then have "bad_length c (s @ t)" by (auto simp: bad_length_def)
    with bad show ?thesis by (simp add: deframe_bad)
  next
    case full
    then have n: "?n \<noteq> 0" "?n \<le> f_payload c" by (auto simp: bad_length_def)
    have l: "\<not> length s < 2" "\<not> (?n = 0 \<or> f_payload c < ?n)" "\<not> length s - 2 < ?n"
      using full n by simp_all
    have l2: "\<not> length s + length t - 2 < ?n" using full by linarith
    have z: "Suc (Suc ?n) - length s = 0" using full by linarith
    note ih = 1 [OF l(1) refl l(2,3)]
    have "deframe c (s @ t) = (let (pkts, r, bad) = deframe c (drop (2 + ?n) s @ t) in
        (take ?n (drop 2 s) # pkts, r, bad))"
      using full(1) n l2 z by (simp add: deframe.simps [of c "s @ t"] Let_def)
    moreover have "deframe c s = (let (pkts, r, bad) = deframe c (drop (2 + ?n) s) in
        (take ?n (drop 2 s) # pkts, r, bad))"
      using full n by (simp add: deframe.simps [of c s] Let_def)
    ultimately show ?thesis unfolding ih by (auto simp: Let_def split: prod.splits)
  qed (simp_all add: deframe.simps [of c s] Let_def bad_length_def)
qed

lemma deframe_frames:
  "\<forall>p\<in>set pkts. pkt_ok c p \<Longrightarrow> deframe c (concat (map pkt_frame pkts)) = (pkts, [], False)"
  by (induction pkts) (simp_all add: deframe_frame)

section \<open>The receive loop against it\<close>

text \<open>
  A read handler that records the packets and gives back a buffer of the same kind.  In a live
  stream the pending bytes are a proper part of a packet.
\<close>

definition collects :: "'h link_env \<Rightarrow> ('h \<Rightarrow> u8 list list) \<Rightarrow> bool" where
  "collects E out \<longleftrightarrow> e_post_recv E = None \<and>
     (\<forall>b h. buf_wf b \<and> b_kind b \<noteq> Plain \<longrightarrow>
       (case e_read_handler E b h of (requeue, b', h') \<Rightarrow>
          requeue \<and> buf_wf b' \<and> b_kind b' \<noteq> Plain \<and> out h' = out h @ [content b]))
     \<and> (\<forall>msg h. out (e_error_handler E msg h) = out h)"

definition ps_live :: "ctx \<Rightarrow> pkt_stream \<Rightarrow> bool" where
  "ps_live c ps \<longleftrightarrow> ps_inv c ps \<and> \<not> ps_ready ps"

lemma ps_live_deframe:
  assumes "ps_live c ps"
  shows "deframe c (ps_pending ps) = ([], ps_pending ps, False)"
proof (cases "ps_declared_size_defined ps")
  case True
  have inv: "ps_inv c ps" using assms by (simp add: ps_live_def)
  have "\<not> bad_length c (ps_pending ps)" using bad_length_pending [OF inv True, of "[]"] by simp
  moreover have "length (ps_pending ps) - 2 < unat (of_be16 (take 2 (ps_pending ps)))"
    using assms True
    by (auto simp: ps_live_def ps_ready_def ps_pending_def ps_inv_def unat_of_nat)
  ultimately show ?thesis by (intro deframe_short) auto
next
  case False
  then have "length (ps_pending ps) < 2"
    using assms by (auto simp: ps_live_def ps_inv_def ps_pending_def)
  then show ?thesis by (intro deframe_short) (auto simp: bad_length_def)
qed

text \<open>The outcome of the loop is the one that \<open>deframe\<close> gives for the pending and the new bytes.\<close>

definition loop_ok ::
    "ctx \<Rightarrow> ('h \<Rightarrow> u8 list list) \<Rightarrow> u8 list \<Rightarrow> 'h \<Rightarrow> 'h put_result option \<Rightarrow> bool" where
  "loop_ok c out s h r \<longleftrightarrow> (\<exists>q buf pkt ps h'. r = Some (q, buf, pkt, ps, h')
     \<and> buf_wf buf \<and> b_kind buf \<noteq> Plain \<and> buf_wf pkt \<and> b_kind pkt \<noteq> Plain
     \<and> (case deframe c s of (pkts, rest, bad) \<Rightarrow>
          out h' = out h @ pkts \<and>
          (if bad then q = Inl embedded_packet_size_error
           else q = Inr True \<and> ps_live c ps \<and> ps_pending ps = rest)))"

lemma put_pktstream_loop_ok:
  assumes c: "ps_ctx k c" and E: "collects E out"
  shows "ps_live c ps \<Longrightarrow> ps_input c buf \<Longrightarrow> buf_wf pkt \<Longrightarrow> b_kind pkt \<noteq> Plain \<Longrightarrow>
    loop_ok c out (ps_pending ps @ content buf) h
      (put_pktstream_loop E c addr True buf pkt ps h)"
proof (induction "b_size buf" arbitrary: buf pkt ps h rule: less_induct)
  case less
  let ?s = "ps_pending ps @ content buf"
  have inv: "ps_inv c ps" "\<not> ps_ready ps" using less(2) by (simp_all add: ps_live_def)
  have bw: "buf_wf buf" "b_kind buf \<noteq> Plain" using less(3) by (simp_all add: ps_input_def)
  note unfold = put_pktstream_loop.simps [of E c addr True buf pkt ps h]
  show ?case
  proof (cases "b_size buf = 0")
    case True
    then show ?thesis
      using ps_live_deframe [OF less(2)] less(2,4,5) bw by (simp add: unfold loop_ok_def)
  next
    case False
    note put = ps_put_ok [OF c inv less(3) False, of "addr (b_size buf)"]
    show ?thesis
    proof (cases "bad_length c ?s")
      case True
      then show ?thesis
        using put False less(4,5) bw by (simp add: unfold loop_ok_def deframe_bad)
    next
      case good: False
      obtain b1 ps1 where p1: "ps_put buf c (addr (b_size buf)) ps = Inr (b1, ps1)" "ps_inv c ps1"
        "ps_input c b1" "ps_pending ps1 @ content b1 = ?s" "b_size b1 < b_size buf"
        "b_size b1 \<noteq> 0 \<longrightarrow> ps_ready ps1"
        using put good by (auto simp: put_ok_def)
      show ?thesis
      proof (cases "ps_ready ps1")
        case False
        then have live: "ps_live c ps1" using p1(2) by (simp add: ps_live_def)
        have "put_pktstream_loop E c addr True buf pkt ps h
            = put_pktstream_loop E c addr True b1 pkt ps1 h"
          using p1(1) False \<open>b_size buf \<noteq> 0\<close> by (simp add: unfold)
        then show ?thesis using less(1) [OF p1(5) live p1(3) less(4,5)] p1(4) by simp
      next
        case True
        obtain pk ps2 where g: "ps_get pkt ps1 = Inr (pk, ps2)" "buf_wf pk" "b_kind pk \<noteq> Plain"
          "ps_inv c ps2" "\<not> ps_ready ps2" "ps_pending ps2 = []" "0 < b_size pk"
          "b_size pk \<le> f_payload c" "b_size pk < 65536" "ps_pending ps1 = pkt_frame (content pk)"
          using ps_get_ok [OF p1(2) True less(4,5)] by (auto simp: pkt_frame_def)
        obtain rq pk' h' where rh: "e_read_handler E pk h = (rq, pk', h')" by (metis prod_cases3)
        have "\<forall>b h. buf_wf b \<and> b_kind b \<noteq> Plain \<longrightarrow> (case e_read_handler E b h of (requeue, b', h') \<Rightarrow>
            requeue \<and> buf_wf b' \<and> b_kind b' \<noteq> Plain \<and> out h' = out h @ [content b])"
          using E by (simp add: collects_def)
        from this [rule_format, of pk h] rh g(2,3)
        have "rq \<and> buf_wf pk' \<and> b_kind pk' \<noteq> Plain \<and> out h' = out h @ [content pk]" by simp
        then have E': "rq" "buf_wf pk'" "b_kind pk' \<noteq> Plain" "out h' = out h @ [content pk]"
          by simp_all
        have live: "ps_live c ps2" using g(4,5) by (simp add: ps_live_def)
        have ok: "pkt_ok c (content pk)"
          using g(7,8,9) length_content [OF g(2)] by (cases "content pk") (simp_all add: pkt_ok_def)
        have s: "?s = pkt_frame (content pk) @ content b1" using p1(4) g(10) by simp
        have "put_pktstream_loop E c addr True buf pkt ps h
            = put_pktstream_loop E c addr True b1 pk' ps2 h'"
          using p1(1) True \<open>b_size buf \<noteq> 0\<close> g(1) rh E'(1) by (simp add: unfold)
        moreover have "loop_ok c out (content b1) h' (put_pktstream_loop E c addr True b1 pk' ps2 h')"
          using less(1) [OF p1(5) live p1(3) E'(2,3)] g(6) by simp
        ultimately show ?thesis
          unfolding s loop_ok_def deframe_frame [OF ok] using E'(4)
          by (fastforce simp: Let_def split: prod.splits)
      qed
    qed
  qed
qed

section \<open>A link fed with the bytes of a stream\<close>

text \<open>
  The environment of the receive side: each chunk is written where the outstanding
  \<open>async_receive\<close> wants it, and the completion handler runs.
\<close>

fun link_feed ::
    "'h link_env \<Rightarrow> (nat \<Rightarrow> nat \<Rightarrow> nat) \<Rightarrow> (nat \<Rightarrow> nat) \<Rightarrow> u8 list list \<Rightarrow> 'h link \<Rightarrow> 'h link option" where
  "link_feed E addr base [] l = Some l"
| "link_feed E addr base (d # ds) l =
     (case l_async_recv l of
        None \<Rightarrow> Some l
      | Some b \<Rightarrow>
          (case link_handle_recv E (addr (length ds)) (base (length ds))
                  (b\<lparr>b_data := blit (b_data b) (b_off b) d\<rparr>) Recv_ok (length d)
                  (l\<lparr>l_async_recv := None\<rparr>) of
             None \<Rightarrow> None
           | Some l \<Rightarrow> link_feed E addr base ds l))"

definition recv_pending :: "ctx \<Rightarrow> buffer \<Rightarrow> bool" where
  "recv_pending c b \<longleftrightarrow> buf_wf b \<and> b_kind b \<noteq> Plain \<and> b_size b = 0 \<and> f_adj_capacity c \<le> b_cap b
     \<and> b_off b + f_payload c \<le> b_cap b"

definition link_live :: "ctx \<Rightarrow> 'h link \<Rightarrow> bool" where
  "link_live c l \<longleftrightarrow> l_ctx l = c \<and> \<not> l_halt l \<and> \<not> l_raw_only l \<and> \<not> l_raw_read l \<and> l_errors l = []
     \<and> ps_live c (l_pkts l) \<and> (\<exists>b. l_async_recv l = Some b \<and> recv_pending c b)"

definition link_failed :: "link_error \<Rightarrow> 'h link \<Rightarrow> bool" where
  "link_failed e l \<longleftrightarrow> l_halt l \<and> l_errors l = [e] \<and> l_async_recv l = None"

text \<open>What receiving the bytes \<open>s\<close> (after those pending) means, in terms of \<open>deframe\<close>.\<close>

definition received ::
    "ctx \<Rightarrow> ('h \<Rightarrow> u8 list list) \<Rightarrow> u8 list \<Rightarrow> u8 list list \<Rightarrow> 'h link option \<Rightarrow> bool" where
  "received c out s before r \<longleftrightarrow> (\<exists>l'. r = Some l' \<and>
     (case deframe c s of (pkts, rest, bad) \<Rightarrow>
        out (l_user l') = before @ pkts \<and>
        (if bad then link_failed TCP_SIZE_ERROR l'
         else link_live c l' \<and> ps_pending (l_pkts l') = rest)))"

lemma queue_recv_ok:
  assumes c: "ps_ctx k c" and l: "l_ctx l = c" and b: "buf_wf b" "b_kind b \<noteq> Plain"
  shows "\<exists>b'. link_queue_recv base (Some b) l = Inr (l\<lparr>l_async_recv := Some b'\<rparr>) \<and> recv_pending c b'"
proof -
  obtain b' where "ctx_prepare c base b = Inr (f_payload c, b')" "buf_wf b'" "b_size b' = 0"
    "b_off b' = ctx_actual_headroom c base" "f_adj_capacity c \<le> b_cap b'" "b_kind b' \<noteq> Plain"
    using ctx_prepare_ok [OF _ b, of k c base] c by (auto simp: ps_ctx_def)
  then show ?thesis
    using ps_ctx_bounds [OF c, of base] l
    by (intro exI [of _ b']) (simp add: link_queue_recv_def recv_pending_def)
qed

lemma recv_buffer_ok:
  assumes c: "ps_ctx k c" and E: "collects E out"
    and l: "l_ctx l = c" "\<not> l_halt l" "\<not> l_raw_only l" "\<not> l_raw_read l" "l_errors l = []"
      "ps_live c (l_pkts l)" "l_async_recv l = None"
    and b: "ps_input c b"
  shows "received c out (ps_pending (l_pkts l) @ content b) (out (l_user l))
    (map_option (\<lambda>(requeue, buf, l).
            if \<not> l_halt l \<and> requeue then
              (case link_queue_recv base (Some buf) l of
                 Inl e \<Rightarrow> link_fail E TCP_SIZE_ERROR ''TCP_SIZE_ERROR'' l | Inr l \<Rightarrow> l)
            else l)
            (link_process_recv_buffer E addr b l))"
proof -
  have dk: "b_kind alloc_default \<noteq> Plain" by (simp add: alloc_default_def)
  obtain q buf pkt ps h' where r: "put_pktstream_loop E c addr True b alloc_default (l_pkts l) (l_user l)
      = Some (q, buf, pkt, ps, h')" "buf_wf buf" "b_kind buf \<noteq> Plain" "buf_wf pkt" "b_kind pkt \<noteq> Plain"
    and d: "case deframe c (ps_pending (l_pkts l) @ content b) of (pkts, rest, bad) \<Rightarrow>
          out h' = out (l_user l) @ pkts \<and>
          (if bad then q = Inl embedded_packet_size_error
           else q = Inr True \<and> ps_live c ps \<and> ps_pending ps = rest)"
    using put_pktstream_loop_ok [OF c E l(6) b buf_wf_default(2) dk, of "l_user l" addr]
    by (auto simp: loop_ok_def)
  obtain pkts rest bad where df: "deframe c (ps_pending (l_pkts l) @ content b) = (pkts, rest, bad)"
    by (metis prod_cases3)
  have err: "out (e_error_handler E m h) = out h" for m h using E by (simp add: collects_def)
  define l1 where "l1 = l\<lparr>l_bytes_in := l_bytes_in l + of_nat (b_size b),
      l_packets_in := l_packets_in l + 1, l_pkts := ps, l_user := h'\<rparr>"
  have put: "link_put_pktstream E addr b alloc_default l = Some (q, buf, pkt, l1)"
    using r(1) l(1) E by (simp add: link_put_pktstream_def collects_def l1_def)
  show ?thesis
  proof (cases bad)
    case True
    then show ?thesis
      using d df put l err
      by (simp add: link_process_recv_buffer_def link_is_raw_mode_read_def received_def
          link_failed_def link_fail_def link_stop_def l1_def)
  next
    case False
    define nb where "nb = (if \<not> buf_allocated buf \<and> buf_allocated pkt then fst (alloc_move buf pkt) else buf)"
    have nb: "buf_wf nb" "b_kind nb \<noteq> Plain"
      using r by (auto simp: nb_def alloc_move_def alloc_move_from_def)
    have l1: "l_ctx l1 = c" "\<not> l_halt l1" using l by (simp_all add: l1_def)
    obtain b' where b': "link_queue_recv base (Some nb) l1 = Inr (l1\<lparr>l_async_recv := Some b'\<rparr>)"
      "recv_pending c b'"
      using queue_recv_ok [OF c l1(1) nb] by blast
    have "link_process_recv_buffer E addr b l = Some (True, nb, l1)"
      using False d df put l by (simp add: link_process_recv_buffer_def link_is_raw_mode_read_def nb_def)
    then show ?thesis
      using False d df b' l l1(2)
      by (simp add: received_def link_live_def l1_def)
  qed
qed

lemma handle_recv_ok:
  assumes c: "ps_ctx k c" and E: "collects E out" and l: "link_live c l"
    and b: "l_async_recv l = Some b" and d: "length d \<le> f_payload c"
  shows "received c out (ps_pending (l_pkts l) @ d) (out (l_user l))
    (link_handle_recv E addr base (b\<lparr>b_data := blit (b_data b) (b_off b) d\<rparr>) Recv_ok (length d)
       (l\<lparr>l_async_recv := None\<rparr>))"
proof -
  have p: "buf_wf b" "b_kind b \<noteq> Plain" "f_adj_capacity c \<le> b_cap b" "b_off b + f_payload c \<le> b_cap b"
    using l b by (auto simp: link_live_def recv_pending_def)
  let ?b = "b\<lparr>b_data := blit (b_data b) (b_off b) d\<rparr>"
  have fit: "b_off b + length d \<le> length (b_data b)" using p d by (simp add: buf_wf_def)
  have wb: "buf_wf ?b" using p(1) fit by (simp add: buf_wf_def)
  have set: "buf_set_size (length d) ?b = Inr (?b\<lparr>b_size := length d\<rparr>)"
    using buf_max_size_eq [OF wb] fit p(1) by (simp add: buf_set_size_def buf_wf_def)
  have cont: "content (?b\<lparr>b_size := length d\<rparr>) = d"
    using slice_blit_same [OF fit] by (simp add: content_def)
  have inp: "ps_input c (?b\<lparr>b_size := length d\<rparr>)"
    using wb fit p by (auto simp: ps_input_def buf_wf_def)
  show ?thesis
    using recv_buffer_ok [OF c E _ _ _ _ _ _ _ inp, of "l\<lparr>l_async_recv := None\<rparr>"] l
    unfolding cont
    by (simp add: link_handle_recv_def link_recv_buffer_def set link_live_def)
qed

lemma link_feed_failed: "l_async_recv l = None \<Longrightarrow> link_feed E addr base ds l = Some l"
  by (cases ds) simp_all

lemma link_feed_ok:
  assumes c: "ps_ctx k c" and E: "collects E out"
  shows "link_live c l \<Longrightarrow> \<forall>d\<in>set ds. length d \<le> f_payload c \<Longrightarrow>
    received c out (ps_pending (l_pkts l) @ concat ds) (out (l_user l)) (link_feed E addr base ds l)"
proof (induction ds arbitrary: l)
  case Nil
  then show ?case
    using ps_live_deframe [of c "l_pkts l"] by (simp add: received_def link_live_def)
next
  case (Cons d ds)
  obtain b where b: "l_async_recv l = Some b" using Cons(2) by (auto simp: link_live_def)
  have dl: "length d \<le> f_payload c" using Cons(3) by simp
  let ?s = "ps_pending (l_pkts l) @ d"
  obtain pkts rest bad where df: "deframe c ?s = (pkts, rest, bad)" by (metis prod_cases3)
  obtain l1 where l1: "link_handle_recv E (addr (length ds)) (base (length ds))
      (b\<lparr>b_data := blit (b_data b) (b_off b) d\<rparr>) Recv_ok (length d) (l\<lparr>l_async_recv := None\<rparr>) = Some l1"
    "out (l_user l1) = out (l_user l) @ pkts"
    "if bad then link_failed TCP_SIZE_ERROR l1 else link_live c l1 \<and> ps_pending (l_pkts l1) = rest"
    using handle_recv_ok [OF c E Cons(2) b dl, of "addr (length ds)" "base (length ds)"] df
    by (auto simp: received_def)
  have step: "link_feed E addr base (d # ds) l = link_feed E addr base ds l1" using b l1(1) by simp
  have ap: "deframe c (ps_pending (l_pkts l) @ concat (d # ds)) = (if bad then (pkts, rest @ concat ds, True)
      else let (pkts', r', bad') = deframe c (rest @ concat ds) in (pkts @ pkts', r', bad'))"
    using deframe_append [of c ?s "concat ds"] df by simp
  show ?case
  proof (cases bad)
    case True
    then show ?thesis
      unfolding step received_def ap using l1 link_feed_failed [of l1] by (simp add: link_failed_def)
  next
    case False
    then have "received c out (rest @ concat ds) (out (l_user l1)) (link_feed E addr base ds l1)"
      using Cons(1) [of l1] l1(3) Cons(3) by simp
    then show ?thesis
      unfolding step received_def ap using False l1(2) by (auto simp: Let_def split: prod.splits)
  qed
qed

lemma link_start_ok:
  assumes "ps_ctx k c"
  shows "\<exists>l. link_start base (link_new False qm fm c h) = Inr l \<and> link_live c l \<and> l_user l = h
    \<and> ps_pending (l_pkts l) = []"
proof -
  let ?l = "link_new False qm fm c h"
  have l: "l_ctx ?l = c" "\<not> l_halt ?l" "\<not> l_raw_only ?l" "\<not> l_raw_read ?l" "l_errors ?l = []"
    "l_pkts ?l = ps_new 0" "l_user ?l = h"
    by (simp_all add: link_new_def link_set_raw_mode_def link_set_raw_mode_read_def
        link_set_raw_mode_write_def)
  have dk: "b_kind alloc_default \<noteq> Plain" by (simp add: alloc_default_def)
  have q: "link_queue_recv base None ?l = link_queue_recv base (Some alloc_default) ?l"
    by (simp add: link_queue_recv_def)
  obtain b' where b': "link_queue_recv base (Some alloc_default) ?l = Inr (?l\<lparr>l_async_recv := Some b'\<rparr>)"
    "recv_pending c b'"
    using queue_recv_ok [OF assms l(1) buf_wf_default(2) dk] by blast
  have "\<not> ps_ready (ps_new 0)" by (simp add: ps_ready_def ps_new_def)
  then have "ps_live c (ps_new 0)" using ps_inv_new by (simp add: ps_live_def)
  then show ?thesis
    using b' l by (simp add: link_start_def q link_live_def)
qed

section \<open>The send side\<close>

text \<open>
  A run of the send side: the application sends, and the socket takes any part of what
  \<open>async_send\<close> offers it.  Beside the link it keeps the packets accepted and the bytes taken.
\<close>

datatype send_ev = App_send buffer | Sock_took nat

fun link_send_run ::
    "'h link_env \<Rightarrow> send_ev list \<Rightarrow> 'h link \<times> u8 list list \<times> u8 list \<Rightarrow> 'h link \<times> u8 list list \<times> u8 list"
  where
  "link_send_run E [] st = st"
| "link_send_run E (App_send b # evs) (l, acc, wire) =
     (case link_send E b l of (r, _, l) \<Rightarrow>
        link_send_run E evs (l, if r = Inr True then acc @ [content b] else acc, wire))"
| "link_send_run E (Sock_took n # evs) (l, acc, wire) =
     (case l_async_send l of
        None \<Rightarrow> link_send_run E evs (l, acc, wire)
      | Some bs \<Rightarrow>
          if length bs < n then link_send_run E evs (l, acc, wire)
          else (case link_handle_send E False n l of
                  Inl e \<Rightarrow> (l, acc, wire)
                | Inr l \<Rightarrow> link_send_run E evs (l, acc, wire @ take n bs)))"

definition queue_bytes :: "'h link \<Rightarrow> u8 list" where
  "queue_bytes l = concat (map content (l_queue l))"

text \<open>
  While the link runs, the bytes taken and those queued are the frames of the packets accepted;
  after it has stopped, what is still offered continues them.
\<close>

definition send_inv :: "'h link \<times> u8 list list \<times> u8 list \<Rightarrow> bool" where
  "send_inv st = (case st of (l, acc, wire) \<Rightarrow>
     \<not> l_raw_only l \<and> \<not> l_raw_write l \<and> (\<forall>b\<in>set (l_queue l) \<union> set (l_free l). buf_wf b) \<and>
     (if l_halt l
      then \<exists>rest. wire @ (case l_async_send l of None \<Rightarrow> [] | Some bs \<Rightarrow> bs) @ rest
             = concat (map pkt_frame acc)
      else wire @ queue_bytes l = concat (map pkt_frame acc)
        \<and> l_async_send l = (case l_queue l of [] \<Rightarrow> None | b # _ \<Rightarrow> Some (content b))))"

lemma ps_prepend_size_ok:
  assumes "buf_wf b" and "ps_prepend_size b = Inr b'"
  shows "buf_wf b' \<and> content b' = pkt_frame (content b)"
  using wire.prepend_Inr [OF assms(1)] assms by (auto simp: ps_prepend_size_def pkt_frame_def)

lemma send_inv_fail:
  assumes "send_inv (l, acc, wire)"
  shows "send_inv (link_fail E e m l, acc, wire)"
  using assms by (cases "l_queue l")
    (auto simp: send_inv_def link_fail_def link_stop_def queue_bytes_def split: if_splits)

lemma send_inv_queue:
  assumes inv: "send_inv (l, acc, wire)" and nh: "\<not> l_halt l" and b: "buf_wf b"
  shows "\<exists>l'. link_queue_send_buffer b l = Inr l' \<and> send_inv (l', acc', wire) \<or>
     pkt_frame p \<noteq> content b \<or> acc' \<noteq> acc @ [p]"
  using assms by (cases "l_queue l")
    (auto simp: send_inv_def link_queue_send_buffer_def link_queue_send_def queue_bytes_def Let_def)

lemma send_inv_send:
  assumes inv: "send_inv (l, acc, wire)" and b: "buf_wf b" and E: "e_pre_send E = None"
    and r: "link_send E b l = (r, b', l')"
  shows "send_inv (l', if r = Inr True then acc @ [content b] else acc, wire)"
proof (cases "l_halt l")
  case True
  then show ?thesis using inv r by (auto simp: link_send_def)
next
  case nh: False
  show ?thesis
  proof (cases "l_queue_max l \<noteq> 0 \<and> unat (link_send_queue_size l) \<ge> l_queue_max l")
    case True
    then have "(r, b', l') = (Inr False, b, link_fail E TCP_OVERFLOW ''TCP_OVERFLOW'' l)"
      using r nh by (simp add: link_send_def)
    then show ?thesis using send_inv_fail [OF inv] by simp
  next
    case False
    define l1 where "l1 = (case l_free l of [] \<Rightarrow> l | f # fs \<Rightarrow> l\<lparr>l_free := fs\<rparr>)"
    define spare where "spare = (case l_free l of [] \<Rightarrow> alloc_default | f # fs \<Rightarrow> f)"
    have inv1: "send_inv (l1, acc, wire)" and nh1: "\<not> l_halt l1"
      using inv nh by (auto simp: l1_def send_inv_def queue_bytes_def split: list.splits)
    have nr: "\<not> link_is_raw_mode_write l1"
      using inv1 by (simp add: send_inv_def link_is_raw_mode_write_def)
    have s: "link_send E b l = (case ps_prepend_size b of Inl e \<Rightarrow> (Inl e, spare, l1)
        | Inr buf \<Rightarrow> (case link_queue_send_buffer buf l1 of Inl e \<Rightarrow> (Inl e, spare, l1)
           | Inr l \<Rightarrow> (Inr True, spare, l)))"
      using nh False nr E
      by (cases "l_free l")
        (auto simp: link_send_def l1_def spare_def alloc_swap_def Let_def split: sum.splits)
    show ?thesis
    proof (cases "ps_prepend_size b")
      case (Inl e)
      then show ?thesis using r inv1 by (auto simp: s)
    next
      case (Inr buf)
      then have "buf_wf buf" "content buf = pkt_frame (content b)"
        using ps_prepend_size_ok [OF b] by simp_all
      then obtain l2 where "link_queue_send_buffer buf l1 = Inr l2"
        "send_inv (l2, acc @ [content b], wire)"
        using send_inv_queue [OF inv1 nh1, of buf "acc @ [content b]" "content b"] by auto
      then show ?thesis using r Inr by (auto simp: s)
    qed
  qed
qed

lemma take_drop_append [slice_simps, simp]: "take n xs @ drop n xs @ ys = xs @ ys"
  by (simp add: append_assoc [symmetric] del: append_assoc)

lemma send_inv_took:
  assumes inv: "send_inv (l, acc, wire)" and bs: "l_async_send l = Some bs" and n: "n \<le> length bs"
  shows "\<exists>l'. link_handle_send E False n l = Inr l' \<and> send_inv (l', acc, wire @ take n bs)"
proof (cases "l_halt l")
  case True
  obtain rest where "wire @ bs @ rest = concat (map pkt_frame acc)"
    using inv bs True by (auto simp: send_inv_def)
  then have "\<exists>rest. wire @ take n bs @ rest = concat (map pkt_frame acc)"
    by (intro exI [of _ "drop n bs @ rest"]) simp
  then show ?thesis
    using True inv by (auto simp: link_handle_send_def Let_def send_inv_def)
next
  case nh: False
  obtain b q where q: "l_queue l = b # q" and cb: "content b = bs" and wb: "buf_wf b"
    using inv bs nh by (cases "l_queue l") (auto simp: send_inv_def)
  have len: "length bs = b_size b" using cb length_content [OF wb] by simp
  show ?thesis
  proof (cases "n = b_size b")
    case True
    moreover have "buf_wf (buf_reset_content b)" using wb by (simp add: buf_wf_def buf_reset_content_def)
    ultimately show ?thesis
      using q cb len nh inv
      by (cases q) (auto simp: link_handle_send_def Let_def link_queue_send_def send_inv_def queue_bytes_def)
  next
    case False
    then have lt: "n < b_size b" using n len by simp
    let ?b = "b\<lparr>b_off := b_off b + n, b_size := b_size b - n\<rparr>"
    have adv: "buf_advance n b = Inr ?b" using lt by (simp add: buf_advance_def)
    have "buf_wf ?b" "content ?b = drop n bs"
      using buf_read_alloc_wf [OF wb] content_advance [of n b] lt cb by simp_all
    then show ?thesis
      using q cb len nh inv lt adv
      by (auto simp: link_handle_send_def Let_def link_queue_send_def send_inv_def queue_bytes_def)
  qed
qed

lemma send_run_inv:
  "e_pre_send E = None \<Longrightarrow> send_inv st \<Longrightarrow> \<forall>ev\<in>set evs. (case ev of App_send b \<Rightarrow> buf_wf b | Sock_took n \<Rightarrow> True) \<Longrightarrow>
    send_inv (link_send_run E evs st)"
proof (induction E evs st rule: link_send_run.induct)
  case (2 E b evs l acc wire)
  obtain r b' l' where r: "link_send E b l = (r, b', l')" by (metis prod_cases3)
  have "send_inv (l', if r = Inr True then acc @ [content b] else acc, wire)"
    using send_inv_send [OF 2(3) _ 2(2) r] 2(4) by simp
  then show ?case using 2(1) [OF r [symmetric] refl 2(2)] 2(4) r by simp
next
  case (3 E n evs l acc wire)
  then show ?case
    using send_inv_took [of l acc wire _ n E] by (fastforce split: option.splits)
qed simp

section \<open>Properties\<close>

text \<open>
  C17. Refinement: however the bytes of a TCP stream are cut into reads, a link delivers to its
  read handler exactly the packets that the reference \<open>deframe\<close> finds in the whole byte string,
  once and in order, and holds back exactly the rest. It reports \<open>TCP_SIZE_ERROR\<close> and stops
  exactly when a length word is zero or above the payload of its context, after delivering the
  packets before it; no other error occurs, whatever addresses the buffers have.
\<close>

theorem link_receives_deframed_stream:
  assumes "ps_ctx k c" and "collects E out" and "link_start b0 (link_new False qm fm c h) = Inr l"
    and "\<forall>d\<in>set chunks. length d \<le> f_payload c"
  shows "\<exists>l'. link_feed E addr base chunks l = Some l' \<and>
    (case deframe c (concat chunks) of (pkts, rest, bad) \<Rightarrow>
       out (l_user l') = out h @ pkts \<and> l_halt l' = bad \<and>
       l_errors l' = (if bad then [TCP_SIZE_ERROR] else []) \<and>
       (\<not> bad \<longrightarrow> ps_pending (l_pkts l') = rest))"
proof -
  have l: "link_live c l" "l_user l = h" "ps_pending (l_pkts l) = []"
    using link_start_ok [OF assms(1), of b0 qm fm h] assms(3) by auto
  have "received c out (concat chunks) (out h) (link_feed E addr base chunks l)"
    using link_feed_ok [OF assms(1,2) l(1) assms(4), of addr base] l(2,3) by simp
  moreover obtain pkts rest bad where "deframe c (concat chunks) = (pkts, rest, bad)"
    by (metis prod_cases3)
  ultimately show ?thesis
    by (cases bad) (auto simp: received_def link_live_def link_failed_def)
qed

lemma deframe_prefix:
  assumes "\<forall>p\<in>set acc. pkt_ok c p" and "wire @ rest = concat (map pkt_frame acc)"
  shows "\<exists>pkts r more. deframe c wire = (pkts, r, False) \<and> acc = pkts @ more"
proof -
  obtain pkts r bad where d: "deframe c wire = (pkts, r, bad)" by (metis prod_cases3)
  have "deframe c (wire @ rest) = (acc, [], False)"
    unfolding assms(2) using deframe_frames [OF assms(1)] .
  then show ?thesis
    using d deframe_append [of c wire rest] by (auto simp: Let_def split: if_splits prod.splits)
qed

text \<open>
  C18. Refinement, end to end: whatever the application sends, however the socket splits the
  sends and the reads, the packets delivered at the far end are a prefix of those accepted by
  \<open>send\<close>, without an error at the receiver; when all bytes queued have been taken and arrived,
  they are all of them.
\<close>

theorem tcp_link_end_to_end:
  assumes "ps_ctx k c" and "collects E out" and "link_start b0 (link_new False qm fm c h) = Inr r"
    and "e_pre_send S = None"
    and "link_send_run S evs (link_new False qm' fm' c' h', [], []) = (l, acc, wire)"
    and "\<forall>ev\<in>set evs. (case ev of App_send b \<Rightarrow> buf_wf b | Sock_took n \<Rightarrow> True)"
    and "\<forall>p\<in>set acc. pkt_ok c p"
    and "concat chunks = wire" and "\<forall>d\<in>set chunks. length d \<le> f_payload c"
  shows "\<exists>r' pkts more. link_feed E addr base chunks r = Some r' \<and> l_errors r' = []
    \<and> out (l_user r') = out h @ pkts \<and> acc = pkts @ more
    \<and> (\<not> l_halt l \<and> l_queue l = [] \<longrightarrow> pkts = acc)"
proof -
  let ?l0 = "link_new False qm' fm' c' h'"
  have "send_inv (?l0, [], [])"
    by (simp add: send_inv_def link_new_def link_set_raw_mode_def link_set_raw_mode_read_def
        link_set_raw_mode_write_def queue_bytes_def)
  then have inv: "send_inv (l, acc, wire)"
    using send_run_inv [OF assms(4) _ assms(6)] assms(5) by metis
  obtain rest where rest: "wire @ rest = concat (map pkt_frame acc)"
    "\<not> l_halt l \<and> l_queue l = [] \<Longrightarrow> rest = []"
    using inv by (cases "l_halt l") (auto simp: send_inv_def queue_bytes_def)
  obtain pkts rm more where d: "deframe c wire = (pkts, rm, False)" "acc = pkts @ more"
    using deframe_prefix [OF assms(7) rest(1)] by blast
  have all: "pkts = acc" if "\<not> l_halt l \<and> l_queue l = []"
    using rest that deframe_frames [OF assms(7)] d(1) by simp
  have r: "link_live c r" "l_user r = h" "ps_pending (l_pkts r) = []"
    using link_start_ok [OF assms(1), of b0 qm fm h] assms(3) by auto
  have "received c out wire (out h) (link_feed E addr base chunks r)"
    using link_feed_ok [OF assms(1,2) r(1) assms(9), of addr base] r(2,3) assms(8) by simp
  then obtain r' where "link_feed E addr base chunks r = Some r'" "out (l_user r') = out h @ pkts"
    "l_errors r' = []"
    using d(1) by (auto simp: received_def link_live_def)
  then show ?thesis using d(2) all by blast
qed

text \<open>A small context, a handler that keeps the packets, and a buffer with headroom.\<close>

definition demo_ctx :: ctx where
  "demo_ctx = ctx_make 4 16 4 0 4 0"

definition demo_env :: "u8 list list link_env" where
  "demo_env = \<lparr>e_read_handler = (\<lambda>b h. (True, b, h @ [content b])), e_error_handler = (\<lambda>_ h. h),
     e_eof_handler = (\<lambda>h. h), e_needs_send = (\<lambda>h. h), e_pre_send = None, e_post_recv = None\<rparr>"

definition demo_packet :: buffer where
  "demo_packet = \<lparr>b_data = [0, 0, 0, 7, 8], b_off = 3, b_size = 2, b_cap = 5, b_kind = Allocated 0\<rparr>"

lemma demo_ctx_ok: "ps_ctx 2 demo_ctx"
  by (simp add: ps_ctx_def ctx_ok_def demo_ctx_def ctx_make_def ctx_recalc_derived_def Let_def)

lemma demo_ctx_payload: "f_payload demo_ctx = 16"
  by (simp add: demo_ctx_def ctx_make_def ctx_recalc_derived_def Let_def)

lemma demo_env_collects: "collects demo_env (\<lambda>h. h)"
  by (simp add: collects_def demo_env_def)

lemma demo_start: "\<exists>l. link_start 0 (link_new False 0 0 demo_ctx ([] :: u8 list list)) = Inr l"
  using link_start_ok [OF demo_ctx_ok, of 0 0 0 "[] :: u8 list list"] by auto

theorem link_receives_deframed_stream_witness:
  "\<exists>l l'. link_start 0 (link_new False 0 0 demo_ctx []) = Inr l \<and>
     link_feed demo_env (\<lambda>_ _. 0) (\<lambda>_. 0) [[0], [3, 1, 2], [3, 0, 0, 9]] l = Some l' \<and>
     l_user l' = [[1, 2, 3]] \<and> l_errors l' = [TCP_SIZE_ERROR]"
proof -
  obtain l where l: "link_start 0 (link_new False 0 0 demo_ctx ([] :: u8 list list)) = Inr l"
    using demo_start by blast
  have f: "[0, 3, 1, 2, 3, 0, 0, 9] = pkt_frame [1, 2, 3] @ [0, 0, 9]"
    by (simp add: pkt_frame_def be16_def)
  have "pkt_ok demo_ctx [1, 2, 3]" "bad_length demo_ctx [0, 0, 9]"
    by (simp_all add: pkt_ok_def demo_ctx_payload bad_length_def)
  then have d: "deframe demo_ctx [0, 3, 1, 2, 3, 0, 0, 9] = ([[1, 2, 3]], [0, 0, 9], True)"
    unfolding f by (simp add: deframe_frame deframe_bad)
  from link_receives_deframed_stream [OF demo_ctx_ok demo_env_collects l,
      of "[[0], [3, 1, 2], [3, 0, 0, 9]]" "\<lambda>_ _. 0" "\<lambda>_. 0"] l
  show ?thesis by (auto simp: demo_ctx_payload d)
qed

theorem tcp_link_end_to_end_witness:
  "\<exists>r r'. link_start 0 (link_new False 0 0 demo_ctx []) = Inr r \<and>
     link_feed demo_env (\<lambda>_ _. 0) (\<lambda>_. 0) [[0], [2, 7], [8]] r = Some r' \<and> l_user r' = [[7, 8]]"
proof -
  let ?l = "link_new False 0 0 demo_ctx [] :: u8 list list link"
  let ?evs = "[App_send demo_packet, Sock_took 3, Sock_took 1]"
  obtain r where r: "link_start 0 (link_new False 0 0 demo_ctx ([] :: u8 list list)) = Inr r"
    using demo_start by blast
  obtain l acc wire where run: "link_send_run demo_env ?evs (?l, [], []) = (l, acc, wire)"
    by (metis prod_cases3)
  have "case link_send_run demo_env ?evs (?l, [], []) of (l, acc, wire) \<Rightarrow>
      \<not> l_halt l \<and> l_queue l = [] \<and> acc = [[7, 8]] \<and> wire = [0, 2, 7, 8]"
    by (simp add: demo_env_def demo_packet_def link_new_def link_set_raw_mode_def Let_def
        link_set_raw_mode_read_def link_set_raw_mode_write_def link_send_def alloc_swap_def
        link_is_raw_mode_write_def ps_prepend_size_def buf_prepend_def buf_prepend_alloc_def
        be16_def blit_def link_queue_send_buffer_def link_queue_send_def content_def slice_def
        link_handle_send_def buf_advance_def)
  then have a: "\<not> l_halt l" "l_queue l = []" "acc = [[7, 8]]" "wire = [0, 2, 7, 8]"
    unfolding run by simp_all
  have pre: "e_pre_send demo_env = None" by (simp add: demo_env_def)
  from tcp_link_end_to_end [OF demo_ctx_ok demo_env_collects r pre run,
      of "[[0], [2, 7], [8]]" "\<lambda>_ _. 0" "\<lambda>_. 0"] a r
  show ?thesis
    by (auto simp: demo_ctx_payload pkt_ok_def demo_packet_def buf_wf_def)
qed

end
