(* ===== verification/ProtoStack.thy ===== *)
theory ProtoStack
  imports RelSystem Frames
begin

text \<open>
  \<open>ProtoStackBase\<close> of \<open>ssl/protostack.hpp\<close>: the pump between the network, the reliability layer,
  the TLS session and the application.  The packet class, the TLS session (\<open>SSLAPI\<close>, implemented
  over third-party libraries) and the methods of the derived class (CRTP) are the fields of an
  environment.  The derived class may re-enter the stack from \<open>app_recv\<close>, \<open>raw_recv\<close> and
  \<open>decapsulate\<close>, which therefore get the whole state; \<open>encapsulate\<close>, \<open>generate_ack\<close> and
  \<open>net_send\<close> see the acknowledgement list and the derived class's own state, as their
  implementations in \<open>ssl/proto.hpp\<close> do.

  The loops that send are measured; those that call back into the derived class, or that depend
  on it making progress, are \<open>partial_function\<close>s with \<open>None\<close> for a loop that does not end.
\<close>

section \<open>State and environment\<close>

text \<open>The values of \<open>Error::Type\<close> that this class and the control channel set, any other by number.\<close>

datatype stack_reason =
    Err_SUCCESS
  | Err_SSL_ERROR
  | Err_ENCAPSULATION_ERROR
  | Err_CC_ERROR
  | Err_HMAC_ERROR
  | Err_DECRYPT_ERROR
  | Err_REPLAY_ERROR
  | Err_BUFFER_ERROR
  | Err_TLS_CRYPT_META_FAIL
  | Err_other nat

datatype net_send_type = NET_SEND_SSL | NET_SEND_RAW | NET_SEND_ACK | NET_SEND_RETRANSMIT

record ('p, 's, 'u) stack =
  k_tls_timeout :: duration
  k_ssl :: 's
  k_frame :: frame
  k_reentry :: int
  k_invalidated :: bool
  k_reason :: stack_reason
  k_ssl_started :: bool
  k_next_retransmit :: time_pt
  k_ack_buf :: 'p
  k_app_queue :: "buffer list"
  k_raw_queue :: "'p list"
  k_errors :: "stack_reason list"
  k_now :: time_pt
  k_recv :: "'p rel_recv"
  k_send :: "'p rel_send"
  k_acks :: rel_ack
  k_user :: 'u

record ('p, 's, 'u) stack_env =
  p_of_buffer :: "buffer \<Rightarrow> 'p"
  p_default :: 'p
  p_is_raw :: "'p \<Rightarrow> bool"
  p_buffer :: "'p \<Rightarrow> buffer"
  p_frame_prepare :: "frame \<Rightarrow> nat \<Rightarrow> 'p \<Rightarrow> 'p res"
  s_start_handshake :: "(unit, 's) st"
  s_write_cleartext :: "u8 list \<Rightarrow> (int, 's) st"
  s_read_cleartext_ready :: "'s \<Rightarrow> bool"
  s_read_cleartext :: "nat \<Rightarrow> (int \<times> u8 list, 's) st"
  s_read_ciphertext_ready :: "'s \<Rightarrow> bool"
  s_read_ciphertext :: "(buffer, 's) st"
  s_write_ciphertext :: "buffer \<Rightarrow> (unit, 's) st"
  d_encapsulate :: "u32 \<Rightarrow> 'p \<Rightarrow> rel_ack \<times> 'u \<Rightarrow> unit res \<times> 'p \<times> rel_ack \<times> 'u"
  d_generate_ack :: "'p \<Rightarrow> rel_ack \<times> 'u \<Rightarrow> unit res \<times> 'p \<times> rel_ack \<times> 'u"
  d_net_send :: "'p \<Rightarrow> net_send_type \<Rightarrow> (unit, 'u) st"
  d_decapsulate :: "'p \<Rightarrow> (bool, ('p, 's, 'u) stack) st"
  d_app_recv :: "buffer \<Rightarrow> (unit, ('p, 's, 'u) stack) st"
  d_raw_recv :: "'p \<Rightarrow> (unit, ('p, 's, 'u) stack) st"
  d_invalidate_callback :: "('p, 's, 'u) stack \<Rightarrow> ('p, 's, 'u) stack"

text \<open>Return values of \<open>SSLConst\<close> and contexts of \<open>Frame\<close>.\<close>

definition SHOULD_RETRY :: int where "SHOULD_RETRY = -1"
definition PEER_CLOSE_NOTIFY :: int where "PEER_CLOSE_NOTIFY = -2"
definition WRITE_ACK_STANDALONE :: nat where "WRITE_ACK_STANDALONE = 12"
definition READ_SSL_CLEARTEXT :: nat where "READ_SSL_CLEARTEXT = 9"

definition ks_new ::
    "('p, 's, 'u) stack_env \<Rightarrow> 's \<Rightarrow> time_pt \<Rightarrow> duration \<Rightarrow> frame \<Rightarrow> u32 \<Rightarrow> nat \<Rightarrow> 'u
     \<Rightarrow> ('p, 's, 'u) stack" where
  "ks_new E ssl now tls_timeout frame span max_ack_list u =
     \<lparr>k_tls_timeout = tls_timeout, k_ssl = ssl, k_frame = frame, k_reentry = 0,
      k_invalidated = False, k_reason = Err_SUCCESS, k_ssl_started = False,
      k_next_retransmit = time_infinite, k_ack_buf = p_default E, k_app_queue = [],
      k_raw_queue = [], k_errors = [], k_now = now, k_recv = rr_init span,
      k_send = rs_init span, k_acks = ra_init max_ack_list, k_user = u\<rparr>"

section \<open>Errors\<close>

definition ks_invalidate ::
    "('p, 's, 'u) stack_env \<Rightarrow> stack_reason \<Rightarrow> ('p, 's, 'u) stack \<Rightarrow> ('p, 's, 'u) stack" where
  "ks_invalidate E reason k =
     (if \<not> k_invalidated k
      then d_invalidate_callback E (k\<lparr>k_invalidated := True, k_reason := reason\<rparr>) else k)"

definition ks_error ::
    "('p, 's, 'u) stack_env \<Rightarrow> stack_reason \<Rightarrow> ('p, 's, 'u) stack \<Rightarrow> ('p, 's, 'u) stack" where
  "ks_error E reason k = ks_invalidate E reason (k\<lparr>k_errors := k_errors k @ [reason]\<rparr>)"

section \<open>Down the stack\<close>

definition ks_net_send ::
    "('p, 's, 'u) stack_env \<Rightarrow> 'p \<Rightarrow> net_send_type \<Rightarrow> (unit, ('p, 's, 'u) stack) st" where
  "ks_net_send E p t k = (let (r, u) = d_net_send E p t (k_user k) in (r, k\<lparr>k_user := u\<rparr>))"

text \<open>
  Encapsulation of the packet of message \<open>i\<close> of the send window, an error of which invalidates
  the session, and its transmission.
\<close>

definition ks_transmit ::
    "('p, 's, 'u) stack_env \<Rightarrow> nat \<Rightarrow> 'p \<Rightarrow> net_send_type \<Rightarrow> (unit, ('p, 's, 'u) stack) st" where
  "ks_transmit E i p t k =
     (let m = rs_get i (k_send k);
          (r, p, acks, u) = d_encapsulate E (rm_id m) p (k_acks k, k_user k);
          k = k\<lparr>k_send := rs_set i (m\<lparr>rm_packet := Some p\<rparr>) (k_send k),
                k_acks := acks, k_user := u\<rparr> in
      case r of Inl e \<Rightarrow> (Inl e, ks_error E Err_ENCAPSULATION_ERROR k)
      | Inr _ \<Rightarrow> ks_net_send E p t k)"

lemma ks_transmit_send:
  "ks_transmit E i p t k = (Inr (), k') \<Longrightarrow>
   \<exists>p'. k_send k' = rs_set i ((rs_get i (k_send k))\<lparr>rm_packet := Some p'\<rparr>) (k_send k)
     \<and> k_raw_queue k' = k_raw_queue k \<and> k_ssl k' = k_ssl k"
  by (auto simp: ks_transmit_def ks_net_send_def Let_def split: prod.splits sum.splits)

lemma rs_send_next:
  assumes "rs_send now t s = Inr (i, s')"
  shows "rs_next s' = rs_next s + 1 \<and> rs_head_id s' = rs_head_id s \<and> rs_span s' = rs_span s"
  using assms
  by (auto simp: rs_send_def win_ref_by_id_def win_grow_def rs_set_def rs_head_id_def rs_span_def
      Let_def exn_simps split: if_splits)

lemma rs_set_fields [simp]:
  "rs_next (rs_set i m s) = rs_next s" "rs_head_id (rs_set i m s) = rs_head_id s"
  "rs_span (rs_set i m s) = rs_span s" "rs_tail_id (rs_set i m s) = rs_tail_id s"
  by (simp_all add: rs_set_def rs_head_id_def rs_span_def rs_tail_id_def tail_id_def)

text \<open>\<open>down_stack_raw\<close>.\<close>

function raw_loop :: "('p, 's, 'u) stack_env \<Rightarrow> (unit, ('p, 's, 'u) stack) st" where
  "raw_loop E k =
     (case k_raw_queue k of
        [] \<Rightarrow> (Inr (), k)
      | p # q \<Rightarrow>
          if \<not> rs_ready (k_send k) then (Inr (), k)
          else case rs_send (k_now k) (k_tls_timeout k) (k_send k) of
            Inl e \<Rightarrow> (Inl e, k)
          | Inr (i, s) \<Rightarrow>
              (case ks_transmit E i p NET_SEND_RAW
                  (k\<lparr>k_send := rs_set i ((rs_get i s)\<lparr>rm_packet := Some p\<rparr>) s, k_raw_queue := q\<rparr>) of
                 (Inl e, k) \<Rightarrow> (Inl e, k)
               | (Inr _, k) \<Rightarrow> raw_loop E k))"
  by pat_completeness auto
termination
  by (relation "measure (\<lambda>(E, k). length (k_raw_queue k))")
    (auto dest!: ks_transmit_send [OF sym])

declare raw_loop.simps [simp del]

text \<open>The two loops of \<open>down_stack_app\<close>.\<close>

function cleartext_loop :: "('p, 's, 'u) stack_env \<Rightarrow> (unit, ('p, 's, 'u) stack) st" where
  "cleartext_loop E k =
     (case k_app_queue k of
        [] \<Rightarrow> (Inr (), k)
      | b # q \<Rightarrow>
          (case s_write_cleartext E (content b) (k_ssl k) of
             (Inl e, s) \<Rightarrow> (Inl e, ks_error E Err_SSL_ERROR (k\<lparr>k_ssl := s\<rparr>))
           | (Inr sz, s) \<Rightarrow>
               let k = k\<lparr>k_ssl := s\<rparr> in
               if sz = int (b_size b) then cleartext_loop E (k\<lparr>k_app_queue := q\<rparr>)
               else if sz = SHOULD_RETRY then (Inr (), k)
               else if sz \<ge> 0 then
                 (case buf_advance (nat sz) b of Inl e \<Rightarrow> (Inl e, k)
                  | Inr b \<Rightarrow> (Inr (), k\<lparr>k_app_queue := b # q\<rparr>))
               else (Inl unknown_status_from_ssl_layer, ks_error E Err_SSL_ERROR k)))"
  by pat_completeness auto
termination
  by (relation "measure (\<lambda>(E, k). length (k_app_queue k))") auto

declare cleartext_loop.simps [simp del]

lemma cipher_measure:
  assumes "rs_ready s" and "rs_send now t s = Inr (i, s')"
  shows "unat (rs_tail_id s') - unat (rs_next s') < unat (rs_tail_id s) - unat (rs_next s)"
proof -
  have tl: "rs_tail_id s' = rs_tail_id s"
    using rs_send_next [OF assms(2)] by (simp add: rs_tail_id_def tail_id_def rs_head_id_def rs_span_def)
  have "rs_next s < rs_tail_id s"
    using assms(1) by (simp add: rs_ready_def in_window_def rs_tail_id_def tail_id_def)
  then show ?thesis
    using tl rs_send_next [OF assms(2)] unat_plus_one [of "rs_next s" "rs_tail_id s"]
    by (simp add: word_less_nat_alt)
qed

function cipher_loop :: "('p, 's, 'u) stack_env \<Rightarrow> (unit, ('p, 's, 'u) stack) st" where
  "cipher_loop E k =
     (if s_read_ciphertext_ready E (k_ssl k) \<and> rs_ready (k_send k) then
        case rs_send (k_now k) (k_tls_timeout k) (k_send k) of
          Inl e \<Rightarrow> (Inl e, k)
        | Inr (i, s) \<Rightarrow>
            (case s_read_ciphertext E (k_ssl k) of
               (Inl e, ssl) \<Rightarrow> (Inl e, k\<lparr>k_send := s, k_ssl := ssl\<rparr>)
             | (Inr b, ssl) \<Rightarrow>
                 let p = p_of_buffer E b in
                 (case ks_transmit E i p NET_SEND_SSL
                     (k\<lparr>k_send := rs_set i ((rs_get i s)\<lparr>rm_packet := Some p\<rparr>) s, k_ssl := ssl\<rparr>) of
                    (Inl e, k) \<Rightarrow> (Inl e, k)
                  | (Inr _, k) \<Rightarrow> cipher_loop E k))
      else (Inr (), k))"
  by pat_completeness auto
termination
  by (relation "measure (\<lambda>(E, k). unat (rs_tail_id (k_send k)) - unat (rs_next (k_send k)))")
    (auto dest!: ks_transmit_send [OF sym] cipher_measure)

declare cipher_loop.simps [simp del]

definition down_stack_raw :: "('p, 's, 'u) stack_env \<Rightarrow> (unit, ('p, 's, 'u) stack) st" where
  "down_stack_raw E = raw_loop E"

definition down_stack_app :: "('p, 's, 'u) stack_env \<Rightarrow> (unit, ('p, 's, 'u) stack) st" where
  "down_stack_app E k =
     (if k_ssl_started k then bindS (cleartext_loop E) (\<lambda>_. cipher_loop E) k else (Inr (), k))"

definition update_retransmit :: "(unit, ('p, 's, 'u) stack) st" where
  "update_retransmit k =
     (case rs_until_retransmit (k_now k) (k_send k) of
        Inl e \<Rightarrow> (Inl e, k)
      | Inr (d, s) \<Rightarrow> (Inr (), k\<lparr>k_send := s, k_next_retransmit := time_add (k_now k) d\<rparr>))"

definition ks_flush :: "('p, 's, 'u) stack_env \<Rightarrow> (unit, ('p, 's, 'u) stack) st" where
  "ks_flush E k =
     (if \<not> k_invalidated k \<and> k_reentry k = 0
      then bindS (down_stack_raw E) (\<lambda>_. bindS (down_stack_app E) (\<lambda>_. update_retransmit)) k
      else (Inr (), k))"

text \<open>\<open>send_pending_acks\<close>: its loop ends only if \<open>generate_ack\<close> takes IDs off the list.\<close>

partial_function (option) acks_loop ::
    "('p, 's, 'u) stack_env \<Rightarrow> ('p, 's, 'u) stack \<Rightarrow> (unit res \<times> ('p, 's, 'u) stack) option" where
  "acks_loop E k =
     (if ra_data (k_acks k) = [] then Some (Inr (), k)
      else case p_frame_prepare E (k_frame k) WRITE_ACK_STANDALONE (k_ack_buf k) of
        Inl e \<Rightarrow> Some (Inl e, k)
      | Inr p \<Rightarrow>
          (case d_generate_ack E p (k_acks k, k_user k) of (r, p, acks, u) \<Rightarrow>
             (case r of
                Inl e \<Rightarrow> Some (Inl e, k\<lparr>k_ack_buf := p, k_acks := acks, k_user := u\<rparr>)
              | Inr _ \<Rightarrow>
                  (case ks_net_send E p NET_SEND_ACK (k\<lparr>k_ack_buf := p, k_acks := acks, k_user := u\<rparr>) of
                     (Inl e, k) \<Rightarrow> Some (Inl e, k)
                   | (Inr _, k) \<Rightarrow> acks_loop E k))))"

definition ks_send_pending_acks ::
    "('p, 's, 'u) stack_env \<Rightarrow> ('p, 's, 'u) stack \<Rightarrow> (unit res \<times> ('p, 's, 'u) stack) option" where
  "ks_send_pending_acks E k = (if \<not> k_invalidated k then acks_loop E k else Some (Inr (), k))"

text \<open>\<open>retransmit\<close>.\<close>

lemma rs_ref_by_id_fields:
  "rs_ref_by_id i s = Inr (k, s') \<Longrightarrow>
   rs_next s' = rs_next s \<and> rs_head_id s' = rs_head_id s \<and> rs_tail_id s' = rs_tail_id s"
  by (auto simp: rs_ref_by_id_def win_ref_by_id_def win_grow_def rs_head_id_def rs_tail_id_def
      tail_id_def Let_def exn_simps split: if_splits)

function rtx_loop :: "('p, 's, 'u) stack_env \<Rightarrow> u32 \<Rightarrow> (unit, ('p, 's, 'u) stack) st" where
  "rtx_loop E i k =
     (if i < rs_tail_id (k_send k) then
        case rs_ref_by_id i (k_send k) of
          Inl e \<Rightarrow> (Inl e, k)
        | Inr (j, s) \<Rightarrow>
            let m = rs_get j s; k = k\<lparr>k_send := s\<rparr> in
            (case rm_packet m of
               Some p \<Rightarrow>
                 if msg_ready_retransmit (k_now k) m then
                   (case d_net_send E p NET_SEND_RETRANSMIT (k_user k) of
                      (Inl e, u) \<Rightarrow> (Inl e, k\<lparr>k_user := u\<rparr>)
                    | (Inr _, u) \<Rightarrow> rtx_loop E (i + 1)
                        (k\<lparr>k_user := u,
                           k_send := rs_set j (msg_reset_retransmit (k_now k) (k_tls_timeout k) m) s\<rparr>))
                 else rtx_loop E (i + 1) k
             | None \<Rightarrow> rtx_loop E (i + 1) k)
      else (Inr (), k))"
  by pat_completeness auto
termination
  by (relation "measure (\<lambda>(E, i, k). unat (rs_tail_id (k_send k)) - unat i)")
    (auto dest!: rs_ref_by_id_fields simp: unat_plus_one word_less_nat_alt)

declare rtx_loop.simps [simp del]

definition ks_retransmit :: "('p, 's, 'u) stack_env \<Rightarrow> (unit, ('p, 's, 'u) stack) st" where
  "ks_retransmit E k =
     (if \<not> k_invalidated k \<and> k_now k \<ge> k_next_retransmit k
      then bindS (rtx_loop E (rs_head_id (k_send k))) (\<lambda>_. update_retransmit) k else (Inr (), k))"

definition ks_next_retransmit :: "('p, 's, 'u) stack \<Rightarrow> time_pt" where
  "ks_next_retransmit k = (if \<not> k_invalidated k then k_next_retransmit k else time_infinite)"

definition ks_app_send :: "buffer \<Rightarrow> ('p, 's, 'u) stack \<Rightarrow> ('p, 's, 'u) stack" where
  "ks_app_send b k = (if \<not> k_invalidated k then k\<lparr>k_app_queue := k_app_queue k @ [b]\<rparr> else k)"

definition ks_raw_send :: "'p \<Rightarrow> ('p, 's, 'u) stack \<Rightarrow> ('p, 's, 'u) stack" where
  "ks_raw_send p k = (if \<not> k_invalidated k then k\<lparr>k_raw_queue := k_raw_queue k @ [p]\<rparr> else k)"

section \<open>Up the stack\<close>

text \<open>
  The loop over sequenced packets.  A message without a packet cannot be at the head of a ready
  window.  An SSL packet stops the loop while the handshake has not started.
\<close>

partial_function (option) seq_loop ::
    "('p, 's, 'u) stack_env \<Rightarrow> ('p, 's, 'u) stack \<Rightarrow> (unit res \<times> ('p, 's, 'u) stack) option" where
  "seq_loop E k =
     (if \<not> rr_ready (k_recv k) then Some (Inr (), k)
      else case rr_next_sequenced (k_recv k) of
        Inl e \<Rightarrow> Some (Inl e, k)
      | Inr m \<Rightarrow>
          (case rm_packet m of
             None \<Rightarrow> Some (Inl undefined_behaviour, k)
           | Some p \<Rightarrow>
               if \<not> p_is_raw E p \<and> \<not> k_ssl_started k then Some (Inr (), k)
               else
                 (case (if p_is_raw E p then d_raw_recv E p k
                        else let (r, ssl) = s_write_ciphertext E (p_buffer E p) (k_ssl k) in
                          (r, k\<lparr>k_ssl := ssl\<rparr>)) of
                    (Inl e, k) \<Rightarrow> Some (Inl e, k)
                  | (Inr _, k) \<Rightarrow>
                      (case rr_advance (k_recv k) of
                         Inl e \<Rightarrow> Some (Inl e, k)
                       | Inr w \<Rightarrow> seq_loop E (k\<lparr>k_recv := w\<rparr>)))))"

text \<open>
  One round of the loop that reads cleartext; \<open>Inr True\<close> asks for another round.  \<open>base\<close> is the
  address of the buffer allocated.
\<close>

definition read_round ::
    "('p, 's, 'u) stack_env \<Rightarrow> nat \<Rightarrow> (bool, ('p, 's, 'u) stack) st" where
  "read_round E base k =
     (case frame_prepare_new READ_SSL_CLEARTEXT base (k_frame k) of
        Inl e \<Rightarrow> (Inl e, k)
      | Inr b \<Rightarrow>
          (case s_read_cleartext E (buf_max_size b) (k_ssl k) of
             (Inl e, s) \<Rightarrow> (Inl e, ks_error E Err_SSL_ERROR (k\<lparr>k_ssl := s\<rparr>))
           | (Inr (sz, d), s) \<Rightarrow>
               let k = k\<lparr>k_ssl := s\<rparr> in
               if sz \<ge> 0 then
                 (case buf_set_size (nat sz) (b\<lparr>b_data := blit (b_data b) (b_off b) d\<rparr>) of
                    Inl e \<Rightarrow> (Inl e, k)
                  | Inr b \<Rightarrow> bindS (d_app_recv E b) (\<lambda>_ k. (Inr True, k)) k)
               else if sz = SHOULD_RETRY then (Inr False, k)
               else if sz = PEER_CLOSE_NOTIFY then
                 (Inl (error_code ''SSL Close Notify received''), ks_error E Err_SSL_ERROR k)
               else (Inl unknown_status_from_ssl_layer, ks_error E Err_SSL_ERROR k)))"

partial_function (option) read_loop ::
    "('p, 's, 'u) stack_env \<Rightarrow> nat \<Rightarrow> ('p, 's, 'u) stack \<Rightarrow> (unit res \<times> ('p, 's, 'u) stack) option" where
  "read_loop E base k =
     (if \<not> s_read_cleartext_ready E (k_ssl k) then Some (Inr (), k)
      else case read_round E base k of
        (Inl e, k) \<Rightarrow> Some (Inl e, k)
      | (Inr again, k) \<Rightarrow> if again then read_loop E base k else Some (Inr (), k))"

definition up_sequenced ::
    "('p, 's, 'u) stack_env \<Rightarrow> nat \<Rightarrow> ('p, 's, 'u) stack \<Rightarrow> (unit res \<times> ('p, 's, 'u) stack) option" where
  "up_sequenced E base k =
     (case seq_loop E k of
        None \<Rightarrow> None
      | Some (Inl e, k) \<Rightarrow> Some (Inl e, k)
      | Some (Inr _, k) \<Rightarrow> if k_ssl_started k then read_loop E base k else Some (Inr (), k))"

text \<open>\<open>UseCount\<close> counts the level down on every way out.\<close>

definition up_stack ::
    "('p, 's, 'u) stack_env \<Rightarrow> nat \<Rightarrow> 'p \<Rightarrow> ('p, 's, 'u) stack \<Rightarrow> (bool res \<times> ('p, 's, 'u) stack) option" where
  "up_stack E base p k =
     map_option (\<lambda>(r, k). (r, k\<lparr>k_reentry := k_reentry k - 1\<rparr>))
       (case d_decapsulate E p (k\<lparr>k_reentry := k_reentry k + 1\<rparr>) of
          (Inl e, k) \<Rightarrow> Some (Inl e, k)
        | (Inr True, k) \<Rightarrow> map_option (\<lambda>(r, k). (map_sum id (\<lambda>_. True) r, k)) (up_sequenced E base k)
        | (Inr False, k) \<Rightarrow> Some (Inr False, k))"

definition ks_net_recv ::
    "('p, 's, 'u) stack_env \<Rightarrow> nat \<Rightarrow> 'p \<Rightarrow> ('p, 's, 'u) stack \<Rightarrow> (bool res \<times> ('p, 's, 'u) stack) option" where
  "ks_net_recv E base p k =
     (if \<not> k_invalidated k then up_stack E base p k else Some (Inr False, k))"

definition ks_start_handshake ::
    "('p, 's, 'u) stack_env \<Rightarrow> nat \<Rightarrow> ('p, 's, 'u) stack \<Rightarrow> (unit res \<times> ('p, 's, 'u) stack) option" where
  "ks_start_handshake E base k =
     (if \<not> k_invalidated k then
        case s_start_handshake E (k_ssl k) of
          (Inl e, s) \<Rightarrow> Some (Inl e, k\<lparr>k_ssl := s\<rparr>)
        | (Inr _, s) \<Rightarrow> up_sequenced E base (k\<lparr>k_ssl := s, k_ssl_started := True\<rparr>)
      else Some (Inr (), k))"

section \<open>The sender under the stack\<close>

abbreviation rs_put :: "nat \<Rightarrow> 'p \<Rightarrow> 'p rel_send \<Rightarrow> 'p rel_send" where
  "rs_put i p s \<equiv> rs_set i ((rs_get i s)\<lparr>rm_packet := Some p\<rparr>) s"

lemma rs_send_put:
  assumes "rs_inv s" and "rs_ready s"
  obtains i s' where "rs_send now t s = Inr (i, s')" and "i < length (w_q (rs_window s'))"
    and "\<And>p. rs_inv (rs_put i p s')"
    and "rs_head_id s' = rs_head_id s" and "rs_span s' = rs_span s"
proof -
  have "\<not> isl (rs_send now t s)"
    using rs_send_packet_ok [OF assms, of now t undefined]
    by (cases "rs_send now t s") (simp_all add: rs_send_packet_def)
  then obtain i s' where i: "rs_send now t s = Inr (i, s')" by (cases "rs_send now t s") auto
  have "rs_inv (rs_put i p s')" for p
    using rs_send_packet_ok [OF assms, of now t p] i by (auto simp: rs_send_packet_def Let_def)
  moreover have "i < length (w_q (rs_window s'))"
    using i by (auto simp: rs_send_def win_ref_by_id_def rs_set_def Let_def exn_simps win_grow_length
        split: if_splits)
  ultimately show thesis using rs_send_next [OF i] by (intro that [OF i]) auto
qed

lemma rs_put_put:
  "i < length (w_q (rs_window s)) \<Longrightarrow> rs_put i p' (rs_put i p s) = rs_put i p' s"
  by (simp add: rs_set_def rs_get_def)

text \<open>What a loop that sends leaves alone when it ends without an exception.\<close>

definition ks_keeps :: "('p, 's, 'u) stack \<Rightarrow> ('p, 's, 'u) stack \<Rightarrow> bool" where
  "ks_keeps k k' \<longleftrightarrow> rs_inv (k_send k') \<and> rs_head_id (k_send k') = rs_head_id (k_send k)
     \<and> rs_span (k_send k') = rs_span (k_send k) \<and> k_now k' = k_now k
     \<and> k_invalidated k' = k_invalidated k \<and> k_reentry k' = k_reentry k
     \<and> k_ssl_started k' = k_ssl_started k"

lemma ks_keeps_refl: "rs_inv (k_send k) \<Longrightarrow> ks_keeps k k"
  by (simp add: ks_keeps_def)

lemma ks_keeps_trans: "ks_keeps a b \<Longrightarrow> ks_keeps b c \<Longrightarrow> ks_keeps a c"
  by (simp add: ks_keeps_def)

text \<open>
  Every exception of the sending loops comes from \<open>error\<close>, when \<open>net_send\<close> does not throw and the
  TLS session takes no more than it is given.
\<close>

definition ks_failed :: "('p, 's, 'u) stack_env \<Rightarrow> ('p, 's, 'u) stack \<Rightarrow> bool" where
  "ks_failed E k' \<longleftrightarrow> (\<exists>k0 reason. k' = ks_error E reason k0 \<and> \<not> k_invalidated k0
     \<and> reason \<in> {Err_SSL_ERROR, Err_ENCAPSULATION_ERROR})"

lemma ks_failedI:
  "\<not> k_invalidated k \<Longrightarrow> ks_failed E (ks_error E Err_SSL_ERROR k)"
  "\<not> k_invalidated k \<Longrightarrow> ks_failed E (ks_error E Err_ENCAPSULATION_ERROR k)"
  unfolding ks_failed_def by blast+

definition ks_io_ok :: "('p, 's, 'u) stack_env \<Rightarrow> bool" where
  "ks_io_ok E \<longleftrightarrow> (\<forall>p t u. fst (d_net_send E p t u) = Inr ())
     \<and> (\<forall>d s n. fst (s_write_cleartext E d s) = Inr n \<longrightarrow> n \<le> int (length d))
     \<and> (\<forall>s. s_read_ciphertext_ready E s \<longrightarrow> (\<exists>b. fst (s_read_ciphertext E s) = Inr b))"

text \<open>Encapsulating and sending the message just taken from \<open>send\<close>.\<close>

lemma ks_transmit_ok:
  assumes s: "rs_send now t s0 = Inr (i, s)" "rs_inv s0" "rs_ready s0"
    and k: "k_send k = rs_put i p s" and tr: "ks_transmit E i p nst k = (r, k')"
  shows "(\<forall>u. r = Inr u \<longrightarrow> rs_inv (k_send k') \<and> rs_head_id (k_send k') = rs_head_id s0
      \<and> rs_span (k_send k') = rs_span s0 \<and> k_now k' = k_now k
      \<and> k_invalidated k' = k_invalidated k \<and> k_reentry k' = k_reentry k
      \<and> k_ssl_started k' = k_ssl_started k \<and> k_raw_queue k' = k_raw_queue k
      \<and> k_app_queue k' = k_app_queue k \<and> k_ssl k' = k_ssl k)
    \<and> (\<forall>e. r = Inl e \<longrightarrow> ks_io_ok E \<and> \<not> k_invalidated k \<longrightarrow> ks_failed E k')"
proof -
  obtain i' s' where i': "rs_send now t s0 = Inr (i', s')" "i' < length (w_q (rs_window s'))"
    "\<And>p. rs_inv (rs_put i' p s')" "rs_head_id s' = rs_head_id s0" "rs_span s' = rs_span s0"
    by (rule rs_send_put [OF s(2,3), of now t]) blast
  then have i: "i < length (w_q (rs_window s))" "\<And>p. rs_inv (rs_put i p s)"
    "rs_head_id s = rs_head_id s0" "rs_span s = rs_span s0"
    using s(1) by auto
  obtain re p' acks u where e: "d_encapsulate E (rm_id (rs_get i (k_send k))) p (k_acks k, k_user k)
      = (re, p', acks, u)"
    by (metis prod_cases4)
  define k1 where "k1 = k\<lparr>k_send := rs_put i p' (k_send k), k_acks := acks, k_user := u\<rparr>"
  have k1: "k_send k1 = rs_put i p' s"
    unfolding k1_def k using rs_put_put [OF i(1), of p' p] by simp
  show ?thesis
  proof (cases re)
    case (Inl x)
    then have "r = Inl x" "k' = ks_error E Err_ENCAPSULATION_ERROR k1"
      using tr e by (simp_all add: ks_transmit_def k1_def)
    moreover have "k_invalidated k1 = k_invalidated k" by (simp add: k1_def)
    ultimately show ?thesis using ks_failedI(2) [of k1 E] by simp
  next
    case (Inr x)
    then have n: "ks_net_send E p' nst k1 = (r, k')"
      using tr e by (simp add: ks_transmit_def k1_def)
    show ?thesis
    proof (intro conjI allI impI)
      fix ua assume "r = Inr ua"
      show "rs_inv (k_send k')" "rs_head_id (k_send k') = rs_head_id s0"
        "rs_span (k_send k') = rs_span s0" "k_now k' = k_now k" "k_invalidated k' = k_invalidated k"
        "k_reentry k' = k_reentry k" "k_ssl_started k' = k_ssl_started k"
        "k_raw_queue k' = k_raw_queue k" "k_app_queue k' = k_app_queue k" "k_ssl k' = k_ssl k"
        using n k1 i(2) [of p'] i(3,4)
        by (auto simp: ks_net_send_def k1_def split: prod.splits)
    next
      fix y assume "r = Inl y" and "ks_io_ok E \<and> \<not> k_invalidated k"
      then show "ks_failed E k'"
        using n by (auto simp: ks_net_send_def ks_io_ok_def split: prod.splits) (metis fst_conv sum.distinct(1))
    qed
  qed
qed

lemma raw_loop_ok:
  assumes "rs_inv (k_send k)" and "raw_loop E k = (r, k')"
  shows "(\<forall>u. r = Inr u \<longrightarrow> ks_keeps k k' \<and> k_app_queue k' = k_app_queue k
      \<and> (k_raw_queue k' = [] \<or> \<not> rs_ready (k_send k')))
    \<and> (\<forall>e. r = Inl e \<longrightarrow> ks_io_ok E \<and> \<not> k_invalidated k \<longrightarrow> ks_failed E k')"
  using assms
proof (induction E k rule: raw_loop.induct)
  case (1 E k)
  show ?case
  proof (cases "k_raw_queue k")
    case Nil
    then show ?thesis using 1(2,3) by (auto simp: raw_loop.simps [of E k] ks_keeps_refl)
  next
    case (Cons p q)
    show ?thesis
    proof (cases "rs_ready (k_send k)")
      case False
      then show ?thesis using 1(2,3) Cons by (auto simp: raw_loop.simps [of E k] ks_keeps_refl)
    next
      case True
      obtain i s where s: "rs_send (k_now k) (k_tls_timeout k) (k_send k) = Inr (i, s)"
        by (rule rs_send_put [OF 1(2) True]) blast
      let ?k = "k\<lparr>k_send := rs_put i p s, k_raw_queue := q\<rparr>"
      obtain re k1 where t: "ks_transmit E i p NET_SEND_RAW ?k = (re, k1)" by fastforce
      have tr: "(\<forall>u. re = Inr u \<longrightarrow> ks_keeps k k1 \<and> k_app_queue k1 = k_app_queue k)
        \<and> (\<forall>e. re = Inl e \<longrightarrow> ks_io_ok E \<and> \<not> k_invalidated k \<longrightarrow> ks_failed E k1)"
        using ks_transmit_ok [OF s 1(2) True _ t] by (simp add: ks_keeps_def)
      have step: "raw_loop E k = (case re of Inl e \<Rightarrow> (Inl e, k1) | Inr u \<Rightarrow> raw_loop E k1)"
        using True s t by (simp add: raw_loop.simps [of E k] Cons split: sum.splits)
      show ?thesis
      proof (cases re)
        case (Inl e)
        then show ?thesis using 1(3) step tr by auto
      next
        case (Inr u)
        then have "ks_keeps k k1" "k_app_queue k1 = k_app_queue k" using tr by auto
        moreover have "raw_loop E k1 = (r, k')" using 1(3) step Inr by simp
        ultimately show ?thesis
          using 1(1) [OF Cons _ s refl, of re k1 u] True t Inr ks_keeps_trans [of k k1 k']
          by (auto simp: ks_keeps_def)
      qed
    qed
  qed
qed

lemma cleartext_loop_ok:
  assumes "cleartext_loop E k = (r, k')"
  shows "(\<forall>u. r = Inr u \<longrightarrow> (\<exists>ssl q. k' = k\<lparr>k_ssl := ssl, k_app_queue := q\<rparr>))
    \<and> (\<forall>e. r = Inl e \<and> \<not> k_invalidated k \<and> ks_io_ok E \<and> (\<forall>b\<in>set (k_app_queue k). buf_wf b)
         \<longrightarrow> ks_failed E k')"
  using assms
proof (induction E k rule: cleartext_loop.induct)
  case (1 E k)
  note step = cleartext_loop.simps [of E k] and run = \<open>cleartext_loop E k = (r, k')\<close>
  show ?case
  proof (cases "k_app_queue k")
    case Nil
    then show ?thesis using run by (auto simp: step intro!: exI [of _ "k_ssl k"] exI [of _ "[]"])
  next
    case (Cons b q)
    obtain w s where w: "s_write_cleartext E (content b) (k_ssl k) = (w, s)" by fastforce
    let ?k = "k\<lparr>k_ssl := s\<rparr>"
    show ?thesis
    proof (cases w)
      case (Inl e)
      then show ?thesis using run Cons w ks_failedI(1) [of ?k E] by (auto simp: step)
    next
      case (Inr sz)
      have le: "sz \<le> int (b_size b)" if "ks_io_ok E" "buf_wf b"
      proof -
        have "fst (s_write_cleartext E (content b) (k_ssl k)) = Inr sz" using w Inr by simp
        then have "sz \<le> int (length (content b))" using that(1) unfolding ks_io_ok_def by blast
        then show ?thesis using that(2) by simp
      qed
      consider "sz = int (b_size b)" | "sz \<noteq> int (b_size b)" "sz = SHOULD_RETRY"
        | "sz \<noteq> int (b_size b)" "sz \<noteq> SHOULD_RETRY" "0 \<le> sz"
        | "sz \<noteq> int (b_size b)" "sz \<noteq> SHOULD_RETRY" "sz < 0" by linarith
      then show ?thesis
      proof cases
        case 1
        have eq: "cleartext_loop E (?k\<lparr>k_app_queue := q\<rparr>) = (r, k')"
          using run Cons w Inr 1 by (simp add: step)
        note ih = "1.IH" [OF Cons w [symmetric] Inr refl 1 eq]
        show ?thesis
          using ih Cons by auto
      next
        case 2
        then show ?thesis using run Cons w Inr
          by (auto simp: step intro!: exI [of _ s] exI [of _ "k_app_queue k"])
      next
        case 3
        then show ?thesis using run Cons w Inr le
          by (auto simp: step buf_advance_def intro!: exI [of _ s] split: if_splits)
      next
        case 4
        then show ?thesis using run Cons w Inr ks_failedI(1) [of ?k E] by (auto simp: step)
      qed
    qed
  qed
qed

lemma cipher_loop_ok:
  assumes "rs_inv (k_send k)" and "cipher_loop E k = (r, k')"
  shows "(\<forall>u. r = Inr u \<longrightarrow> ks_keeps k k' \<and> k_raw_queue k' = k_raw_queue k
      \<and> (s_read_ciphertext_ready E (k_ssl k') \<longrightarrow> \<not> rs_ready (k_send k')))
    \<and> (\<forall>e. r = Inl e \<longrightarrow> ks_io_ok E \<and> \<not> k_invalidated k \<longrightarrow> ks_failed E k')"
  using assms
proof (induction E k rule: cipher_loop.induct)
  case (1 E k)
  note step = cipher_loop.simps [of E k]
  show ?case
  proof (cases "s_read_ciphertext_ready E (k_ssl k) \<and> rs_ready (k_send k)")
    case False
    then have "r = Inr ()" "k' = k" using 1(3) by (auto simp: step split: if_splits)
    then show ?thesis using False 1(2) by (auto simp: ks_keeps_refl)
  next
    case True
    then have rdy: "rs_ready (k_send k)" by simp
    obtain i s where s: "rs_send (k_now k) (k_tls_timeout k) (k_send k) = Inr (i, s)"
      by (rule rs_send_put [OF 1(2) rdy]) blast
    obtain w ssl where w: "s_read_ciphertext E (k_ssl k) = (w, ssl)" by fastforce
    show ?thesis
    proof (cases w)
      case (Inl e)
      then have "r = Inl e" using 1(3) True s w by (simp add: step)
      moreover have "\<not> ks_io_ok E" using True w Inl by (force simp: ks_io_ok_def)
      ultimately show ?thesis by simp
    next
      case (Inr b)
      let ?p = "p_of_buffer E b"
      let ?k = "k\<lparr>k_send := rs_put i ?p s, k_ssl := ssl\<rparr>"
      obtain re k1 where t: "ks_transmit E i ?p NET_SEND_SSL ?k = (re, k1)" by fastforce
      have tr: "(\<forall>u. re = Inr u \<longrightarrow> ks_keeps k k1 \<and> k_raw_queue k1 = k_raw_queue k)
        \<and> (\<forall>e. re = Inl e \<longrightarrow> ks_io_ok E \<and> \<not> k_invalidated k \<longrightarrow> ks_failed E k1)"
        using ks_transmit_ok [OF s 1(2) rdy _ t] by (simp add: ks_keeps_def)
      have eq: "cipher_loop E k = (case re of Inl e \<Rightarrow> (Inl e, k1) | Inr u \<Rightarrow> cipher_loop E k1)"
        using True s t w Inr by (simp add: step split: sum.splits)
      show ?thesis
      proof (cases re)
        case (Inl e)
        then show ?thesis using 1(3) eq tr by auto
      next
        case (Inr u)
        then have k1: "ks_keeps k k1" "k_raw_queue k1 = k_raw_queue k" using tr by auto
        have "cipher_loop E k1 = (r, k')" using 1(3) eq Inr by simp
        moreover have "rs_inv (k_send k1)" using k1(1) by (simp add: ks_keeps_def)
        ultimately have ih: "(\<forall>u. r = Inr u \<longrightarrow> ks_keeps k1 k' \<and> k_raw_queue k' = k_raw_queue k1
            \<and> (s_read_ciphertext_ready E (k_ssl k') \<longrightarrow> \<not> rs_ready (k_send k')))
          \<and> (\<forall>e. r = Inl e \<longrightarrow> ks_io_ok E \<and> \<not> k_invalidated k1 \<longrightarrow> ks_failed E k')"
          using 1(1) [OF True s refl w [symmetric] \<open>w = Inr b\<close> refl t [symmetric] Inr] by blast
        then show ?thesis using k1 ks_keeps_trans [of k k1 k'] by (auto simp: ks_keeps_def)
      qed
    qed
  qed
qed

text \<open>A time and the time left until it.\<close>

lemma time_add_until: "time_add now (msg_until_retransmit now m) = max now (rm_retransmit_at m)"
proof (cases "now < rm_retransmit_at m")
  case False
  then show ?thesis
    by (cases now) (auto simp: msg_until_retransmit_def time_add_def dur_zero_def max_def
        time_is_infinite_def dur_is_infinite_def time_infinite_def T_max_def not_less)
next
  case True
  obtain n r where nr: "now = Time n" "rm_retransmit_at m = Time r" by (metis time_pt.exhaust)
  have lt: "n < r" using True nr by (simp add: less_time_pt_def)
  then have "n \<noteq> T_max" using T_max_ge [of r] by (meson leD)
  moreover have "r - n \<noteq> T_max" if "r \<noteq> T_max"
  proof
    assume "r - n = T_max"
    then have "r = n - 1" by (simp add: T_max_def algebra_simps)
    then show False using lt that by (cases "n = 0") (auto simp: T_max_def word_less_nat_alt unat_minus_one)
  qed
  ultimately show ?thesis
    using True lt nr by (auto simp: msg_until_retransmit_def time_sub_def time_add_def max_def not_le
        time_is_infinite_def dur_is_infinite_def time_infinite_def dur_infinite_def less_imp_le)
qed

text \<open>The order of durations is the order of the times they lead to, from \<open>now\<close>.\<close>

lemma until_mono:
  assumes "msg_until_retransmit now m \<le> msg_until_retransmit now m'"
  shows "max now (rm_retransmit_at m) \<le> max now (rm_retransmit_at m')"
proof -
  obtain n r r' where t: "now = Time n" "rm_retransmit_at m = Time r" "rm_retransmit_at m' = Time r'"
    by (metis time_pt.exhaust)
  have "unat r \<le> unat (- 1 :: u64)" by (simp only: word_le_nat_alt [symmetric] word_n1_ge)
  then show ?thesis
    using assms t
    by (auto simp: msg_until_retransmit_def time_sub_def less_time_pt_def less_eq_time_pt_def max_def
        less_eq_duration_def dur_zero_def time_is_infinite_def dur_infinite_def not_le not_less
        word_le_nat_alt word_less_nat_alt unat_sub_if' T_max_def split: if_splits)
qed

section \<open>Flushing\<close>

lemma down_stack_app_ok:
  assumes "rs_inv (k_send k)" and "down_stack_app E k = (r, k')"
  shows "(\<forall>u. r = Inr u \<longrightarrow> ks_keeps k k' \<and> k_raw_queue k' = k_raw_queue k
      \<and> (\<not> rs_ready (k_send k) \<longrightarrow> k_send k' = k_send k)
      \<and> (k_ssl_started k \<and> s_read_ciphertext_ready E (k_ssl k') \<longrightarrow> \<not> rs_ready (k_send k')))
    \<and> (\<forall>e. r = Inl e \<and> \<not> k_invalidated k \<and> ks_io_ok E \<and> (\<forall>b\<in>set (k_app_queue k). buf_wf b)
         \<longrightarrow> ks_failed E k')"
proof (cases "k_ssl_started k")
  case False
  then show ?thesis using assms by (auto simp: down_stack_app_def ks_keeps_refl)
next
  case True
  obtain rc k1 where c: "cleartext_loop E k = (rc, k1)" by fastforce
  note cl = cleartext_loop_ok [OF c]
  show ?thesis
  proof (cases rc)
    case (Inl e)
    then have "r = Inl e" "k' = k1" using assms(2) True c by (simp_all add: down_stack_app_def)
    then show ?thesis using cl Inl by auto
  next
    case (Inr u)
    then have e: "cipher_loop E k1 = (r, k')" using assms(2) True c by (simp add: down_stack_app_def)
    obtain ssl q where k1: "k1 = k\<lparr>k_ssl := ssl, k_app_queue := q\<rparr>" using cl Inr by auto
    have "k_send k' = k_send k" if "\<not> rs_ready (k_send k)"
      using e that by (auto simp: k1 cipher_loop.simps [of E "k\<lparr>k_ssl := ssl, k_app_queue := q\<rparr>"])
    moreover have "rs_inv (k_send k1)" using assms(1) k1 by simp
    ultimately show ?thesis using cipher_loop_ok [OF _ e] by (auto simp: k1 ks_keeps_def)
  qed
qed

lemma rs_same_ready: "rs_same s s' \<Longrightarrow> rs_ready s' = rs_ready s"
  by (simp add: rs_same_def rs_ready_nat)

lemma rs_same_pending: "rs_same s s' \<Longrightarrow> rs_pending s' = rs_pending s \<and> rs_at s' = rs_at s"
  by (simp add: rs_same_def rs_pending_def)

text \<open>\<open>next_retransmit_\<close> is the earliest time a message stored may have to be resent.\<close>

definition timer_exact :: "('p, 's, 'u) stack \<Rightarrow> bool" where
  "timer_exact k \<longleftrightarrow>
     (rs_pending (k_send k) = {} \<longrightarrow> k_next_retransmit k = time_infinite)
     \<and> (\<forall>j\<in>rs_pending (k_send k).
          k_next_retransmit k \<le> max (k_now k) (rm_retransmit_at (rs_at (k_send k) j)))
     \<and> (rs_pending (k_send k) \<noteq> {} \<longrightarrow> (\<exists>j\<in>rs_pending (k_send k).
          k_next_retransmit k = max (k_now k) (rm_retransmit_at (rs_at (k_send k) j))))"

lemma update_retransmit_ok:
  assumes "rs_inv (k_send k)" and "unat (rs_head_id (k_send k)) + unat (rs_span (k_send k)) < 2 ^ 32"
  shows "\<exists>k' s. update_retransmit k = (Inr (), k') \<and> k' = k\<lparr>k_send := s, k_next_retransmit := k_next_retransmit k'\<rparr>
    \<and> rs_same (k_send k) s \<and> timer_exact k'"
proof -
  obtain d s where d: "rs_until_retransmit (k_now k) (k_send k) = Inr (d, s)" "rs_same (k_send k) s"
    "rs_pending (k_send k) = {} \<longrightarrow> d = dur_infinite"
    "\<forall>j\<in>rs_pending (k_send k). d \<le> msg_until_retransmit (k_now k) (rs_at (k_send k) j)"
    "rs_pending (k_send k) \<noteq> {} \<longrightarrow> (\<exists>j\<in>rs_pending (k_send k).
        d = msg_until_retransmit (k_now k) (rs_at (k_send k) j))"
    using rs_until_ok [OF assms, of "k_now k"] by blast
  let ?k = "k\<lparr>k_send := s, k_next_retransmit := time_add (k_now k) d\<rparr>"
  note sm = rs_same_pending [OF d(2)]
  have "timer_exact ?k"
  proof (cases "rs_pending (k_send k) = {}")
    case True
    then show ?thesis
      using d(3) sm by (simp add: timer_exact_def time_add_def dur_infinite_def dur_is_infinite_def)
  next
    case False
    then obtain j where j: "j \<in> rs_pending (k_send k)"
      "d = msg_until_retransmit (k_now k) (rs_at (k_send k) j)" using d(5) by blast
    then have n: "time_add (k_now k) d = max (k_now k) (rm_retransmit_at (rs_at (k_send k) j))"
      by (simp add: time_add_until)
    have "max (k_now k) (rm_retransmit_at (rs_at (k_send k) j))
        \<le> max (k_now k) (rm_retransmit_at (rs_at (k_send k) j'))"
      if "j' \<in> rs_pending (k_send k)" for j'
      using d(4) that j(2) by (intro until_mono) simp
    then show ?thesis using False sm n j(1) by (auto simp: timer_exact_def)
  qed
  then show ?thesis using d(1,2) by (intro exI [of _ ?k] exI [of _ s]) (simp add: update_retransmit_def)
qed

lemma ks_flush_ok:
  assumes "rs_inv (k_send k)" and "unat (rs_head_id (k_send k)) + unat (rs_span (k_send k)) < 2 ^ 32"
    and "\<not> k_invalidated k" and "k_reentry k = 0" and "ks_flush E k = (r, k')"
  shows "(\<forall>u. r = Inr u \<longrightarrow> ks_keeps k k' \<and> timer_exact k'
      \<and> (k_raw_queue k' = [] \<or> \<not> rs_ready (k_send k'))
      \<and> (k_ssl_started k \<and> s_read_ciphertext_ready E (k_ssl k') \<longrightarrow> \<not> rs_ready (k_send k')))
    \<and> (\<forall>e. r = Inl e \<and> ks_io_ok E \<and> (\<forall>b\<in>set (k_app_queue k). buf_wf b) \<longrightarrow> ks_failed E k')"
proof -
  obtain r1 k1 where k1: "raw_loop E k = (r1, k1)" by fastforce
  note a = raw_loop_ok [OF assms(1) k1]
  show ?thesis
  proof (cases r1)
    case (Inl e)
    then have "r = Inl e" "k' = k1"
      using assms(3-5) k1 by (simp_all add: ks_flush_def down_stack_raw_def)
    then show ?thesis using a Inl assms(3) by auto
  next
    case (Inr u1)
    then have a1: "ks_keeps k k1" "k_app_queue k1 = k_app_queue k"
      "k_raw_queue k1 = [] \<or> \<not> rs_ready (k_send k1)" using a by auto
    obtain r2 k2 where k2: "down_stack_app E k1 = (r2, k2)" by fastforce
    have i1: "rs_inv (k_send k1)" using a1(1) by (simp add: ks_keeps_def)
    note b = down_stack_app_ok [OF i1 k2]
    show ?thesis
    proof (cases r2)
      case (Inl e)
      then have "r = Inl e" "k' = k2"
        using assms(3-5) k1 k2 Inr by (simp_all add: ks_flush_def down_stack_raw_def)
      then show ?thesis using b Inl assms(3) a1(1,2) by (auto simp: ks_keeps_def)
    next
      case (Inr u2)
      then have b1: "ks_keeps k1 k2" "k_raw_queue k2 = k_raw_queue k1"
        "\<not> rs_ready (k_send k1) \<longrightarrow> k_send k2 = k_send k1"
        "k_ssl_started k1 \<and> s_read_ciphertext_ready E (k_ssl k2) \<longrightarrow> \<not> rs_ready (k_send k2)"
        using b by auto
      have k02: "ks_keeps k k2" using ks_keeps_trans [OF a1(1) b1(1)] .
      then obtain k3 s where k3: "update_retransmit k2 = (Inr (), k3)"
        "k3 = k2\<lparr>k_send := s, k_next_retransmit := k_next_retransmit k3\<rparr>"
        "rs_same (k_send k2) s" "timer_exact k3"
        using update_retransmit_ok [of k2] assms(2) by (auto simp: ks_keeps_def)
      have "r = Inr ()" "k' = k3"
        using assms(3-5) k1 k2 \<open>r1 = Inr u1\<close> Inr k3(1)
        by (simp_all add: ks_flush_def down_stack_raw_def)
      moreover have "k_send k3 = s" "k_raw_queue k3 = k_raw_queue k2" "k_ssl k3 = k_ssl k2"
        using arg_cong [OF k3(2), of k_send] arg_cong [OF k3(2), of k_raw_queue]
          arg_cong [OF k3(2), of k_ssl] by simp_all
      moreover have "ks_keeps k k3"
        using k02 k3(3) rs_same_inv [OF k3(3)]
        by (subst k3(2)) (simp add: ks_keeps_def rs_same_def)
      ultimately show ?thesis
        using k3(4) a1(1,3) b1(2-4) rs_same_ready [OF k3(3)] by (auto simp: ks_keeps_def)
    qed
  qed
qed

section \<open>Retransmission\<close>

text \<open>The loop of \<open>retransmit\<close> against the one of RelSystem that only lists what it sends.\<close>

lemma rs_ref_same_tail: "rs_ref_by_id i s = Inr (k, s') \<Longrightarrow> rs_tail_id s' = rs_tail_id s"
  using rs_ref_by_id_fields by blast

lemma rtx_loop_logs:
  assumes "\<And>p u. d_net_send E p NET_SEND_RETRANSMIT u = (Inr (), u @ [p])"
    and "retransmit_loop now t i tail out s = Inr (out', s')"
    and "tail = rs_tail_id s" and "k_now k = now" and "k_tls_timeout k = t" and "k_send k = s"
  shows "\<exists>new. out' = out @ new
    \<and> rtx_loop E i k = (Inr (), k\<lparr>k_user := k_user k @ map (\<lambda>(j, p). the p) new, k_send := s'\<rparr>)"
  using assms(2-)
proof (induction now t i tail out s arbitrary: k rule: retransmit_loop.induct)
  case (1 now t i tail out s)
  show ?case
  proof (cases "i < tail")
    case False
    then show ?thesis
      using 1(3-) by (auto simp: retransmit_loop.simps [of now t i] rtx_loop.simps [of E i])
  next
    case True
    then obtain j s1 where j: "rs_ref_by_id i s = Inr (j, s1)"
      using 1(3) by (auto simp: retransmit_loop.simps [of now t i] exn_simps)
    have tl: "tail = rs_tail_id s1" "\<And>m. tail = rs_tail_id (rs_set j m s1)"
      using 1(4) rs_ref_same_tail [OF j] by simp_all
    let ?m = "rs_get j s1"
    show ?thesis
    proof (cases "msg_ready_retransmit now ?m")
      case r: True
      then obtain p where p: "rm_packet ?m = Some p"
        by (auto simp: msg_ready_retransmit_def rel_defined_def)
      let ?s = "rs_set j (msg_reset_retransmit now t ?m) s1"
      let ?k = "k\<lparr>k_user := k_user k @ [p], k_send := ?s\<rparr>"
      have "retransmit_loop now t (i + 1) tail (out @ [(rm_id ?m, rm_packet ?m)]) ?s = Inr (out', s')"
        using 1(3) True j r by (simp add: retransmit_loop.simps [of now t i] Let_def)
      then obtain new where new: "out' = (out @ [(rm_id ?m, rm_packet ?m)]) @ new"
        "rtx_loop E (i + 1) ?k
          = (Inr (), ?k\<lparr>k_user := k_user ?k @ map (\<lambda>(j, p). the p) new, k_send := s'\<rparr>)"
        using 1(1) [OF True j refl refl r _ tl(2), of ?k] 1(5,6) by auto
      have "rtx_loop E i k = rtx_loop E (i + 1) ?k"
        using True j r p 1(4-) assms(1) by (simp add: rtx_loop.simps [of E i k] Let_def)
      then show ?thesis
        using new p by (intro exI [of _ "(rm_id ?m, rm_packet ?m) # new"]) simp
    next
      case r: False
      let ?k = "k\<lparr>k_send := s1\<rparr>"
      have "retransmit_loop now t (i + 1) tail out s1 = Inr (out', s')"
        using 1(3) True j r by (simp add: retransmit_loop.simps [of now t i] Let_def)
      then obtain new where new: "out' = out @ new" "rtx_loop E (i + 1) ?k
          = (Inr (), ?k\<lparr>k_user := k_user ?k @ map (\<lambda>(j, p). the p) new, k_send := s'\<rparr>)"
        using 1(2) [OF True j refl refl r _ tl(1), of ?k] 1(5,6) by auto
      have "rtx_loop E i k = rtx_loop E (i + 1) ?k"
        using True j r 1(4-)
        by (cases "rm_packet ?m") (simp_all add: rtx_loop.simps [of E i k] Let_def)
      then show ?thesis using new by auto
    qed
  qed
qed

section \<open>Standalone acknowledgements\<close>

text \<open>
  What \<open>send_pending_acks\<close> needs of the derived class: a \<open>generate_ack\<close> that returns has taken IDs
  off the list.  The control channel provides it.
\<close>

locale ack_generator =
  fixes E :: "('p, 's, 'u) stack_env"
    and ok :: "rel_ack \<Rightarrow> bool"
  assumes gen_shortens: "d_generate_ack E p (a, u) = (Inr (), p', a', u') \<Longrightarrow> ok a \<Longrightarrow> ra_data a \<noteq> [] \<Longrightarrow>
    ok a' \<and> length (ra_data a') < length (ra_data a)"
begin

lemma acks_loop_returns:
  "ok (k_acks k) \<Longrightarrow>
   \<exists>r k'. acks_loop E k = Some (r, k') \<and> (r = Inr () \<longrightarrow> ra_data (k_acks k') = [])"
proof (induction "length (ra_data (k_acks k))" arbitrary: k rule: less_induct)
  case less
  note step = acks_loop.simps [of E k]
  show ?case
  proof (cases "ra_data (k_acks k) = []")
    case True
    then show ?thesis by (simp add: step)
  next
    case ne: False
    show ?thesis
    proof (cases "p_frame_prepare E (k_frame k) WRITE_ACK_STANDALONE (k_ack_buf k)")
      case (Inl e)
      then show ?thesis using ne by (simp add: step)
    next
      case (Inr p)
      obtain g p' a u where g: "d_generate_ack E p (k_acks k, k_user k) = (g, p', a, u)"
        by (metis prod_cases4)
      let ?k = "k\<lparr>k_ack_buf := p', k_acks := a, k_user := u\<rparr>"
      show ?thesis
      proof (cases g)
        case Inl
        then show ?thesis using ne Inr g by (simp add: step)
      next
        case g': (Inr x)
        obtain n v where n: "d_net_send E p' NET_SEND_ACK u = (n, v)" by fastforce
        let ?k' = "?k\<lparr>k_user := v\<rparr>"
        have lt: "length (ra_data (k_acks ?k')) < length (ra_data (k_acks k))" "ok (k_acks ?k')"
          using gen_shortens [of p "k_acks k" "k_user k" p' a u] g g' ne less.prems by simp_all
        show ?thesis
        proof (cases n)
          case (Inl e)
          then show ?thesis using ne Inr g g' n by (simp add: step ks_net_send_def)
        next
          case (Inr y)
          then have "acks_loop E k = acks_loop E ?k'"
            using ne \<open>p_frame_prepare E _ _ _ = Inr p\<close> g g' n by (simp add: step ks_net_send_def)
          then show ?thesis using less.hyps [OF lt] by simp
        qed
      qed
    qed
  qed
qed

lemma send_pending_acks_returns:
  "ok (k_acks k) \<Longrightarrow> \<exists>r k'. ks_send_pending_acks E k = Some (r, k')
     \<and> (r = Inr () \<and> \<not> k_invalidated k \<longrightarrow> ra_data (k_acks k') = [])"
  using acks_loop_returns [of k] by (auto simp: ks_send_pending_acks_def)

end

section \<open>Properties\<close>

text \<open>
  C26.  When \<open>flush\<close> returns, nothing that could be sent is left behind: the raw queue is empty or
  the send window is full, the same for the TLS session's ciphertext once the handshake has
  started, and \<open>next_retransmit_\<close> is the earliest time at which an unacknowledged message is due.
\<close>

theorem flush_sends_all_and_sets_timer:
  assumes "rs_inv (k_send k)" and "unat (rs_head_id (k_send k)) + unat (rs_span (k_send k)) < 2 ^ 32"
    and "\<not> k_invalidated k" and "k_reentry k = 0" and "ks_flush E k = (Inr (), k')"
  shows "(k_raw_queue k' = [] \<or> \<not> rs_ready (k_send k'))
    \<and> (k_ssl_started k \<and> s_read_ciphertext_ready E (k_ssl k') \<longrightarrow> \<not> rs_ready (k_send k'))
    \<and> timer_exact k' \<and> rs_inv (k_send k')"
  using ks_flush_ok [OF assms] by (simp add: ks_keeps_def)



section \<open>Concrete stacks\<close>

text \<open>
  Packets are numbers, the TLS session is the list of its ciphertext buffers, and the derived class
  keeps a log of what it sent.  Packet 199 cannot be encapsulated.
\<close>

definition demo_stack_env :: "(nat, buffer list, nat list) stack_env" where
  "demo_stack_env =
     \<lparr>p_of_buffer = b_size, p_default = 0, p_is_raw = (\<lambda>p. p \<ge> 100), p_buffer = (\<lambda>_. buf_default),
      p_frame_prepare = (\<lambda>_ _ p. Inr p), s_start_handshake = (\<lambda>s. (Inr (), s)),
      s_write_cleartext = (\<lambda>d s. (Inr (int (length d)), s)),
      s_read_cleartext_ready = (\<lambda>_. False), s_read_cleartext = (\<lambda>_ s. (Inr (SHOULD_RETRY, []), s)),
      s_read_ciphertext_ready = (\<lambda>s. s \<noteq> []), s_read_ciphertext = (\<lambda>s. (Inr (hd s), tl s)),
      s_write_ciphertext = (\<lambda>_ s. (Inr (), s)),
      d_encapsulate = (\<lambda>i p (a, u).
        (if p = 199 then Inl (Buffer_exception buffer_headroom) else Inr (), p + 1000, a, u)),
      d_generate_ack = (\<lambda>p (a, u). (Inr (), p, a\<lparr>ra_data := drop 1 (ra_data a)\<rparr>, u)),
      d_net_send = (\<lambda>p _ u. (Inr (), u @ [p])), d_decapsulate = (\<lambda>_ k. (Inr True, k)),
      d_app_recv = (\<lambda>_ k. (Inr (), k)), d_raw_recv = (\<lambda>_ k. (Inr (), k)),
      d_invalidate_callback = (\<lambda>k. k)\<rparr>"

definition demo_cipher :: buffer where
  "demo_cipher = \<lparr>b_data = [1, 2, 3], b_off = 0, b_size = 3, b_cap = 3, b_kind = Plain\<rparr>"

definition demo_stack :: "nat list \<Rightarrow> (nat, buffer list, nat list) stack" where
  "demo_stack raw =
     (ks_new demo_stack_env [demo_cipher] (Time 1000) (Duration 2048)
        (frame_set_default_context (ctx_default 0)) 4 4 [])
     \<lparr>k_send := demo_sender, k_raw_queue := raw, k_ssl_started := True, k_app_queue := [demo_cipher]\<rparr>"

lemma demo_cipher_wf: "buf_wf demo_cipher"
  by (simp add: demo_cipher_def buf_wf_def)

lemma demo_stack_env_ok: "ks_io_ok demo_stack_env"
  by (auto simp: ks_io_ok_def demo_stack_env_def)

lemma demo_stack_ok:
  "rs_inv (k_send (demo_stack raw))"
  "unat (rs_head_id (k_send (demo_stack raw))) + unat (rs_span (k_send (demo_stack raw))) < 2 ^ 32"
  "\<not> k_invalidated (demo_stack raw)" "k_reentry (demo_stack raw) = 0"
  "\<forall>b\<in>set (k_app_queue (demo_stack raw)). buf_wf b"
  using demo_sender_inv demo_cipher_wf
  by (simp_all add: demo_stack_def ks_new_def) (simp add: demo_sender_def rs_head_id_def rs_span_def)

theorem flush_sends_all_and_sets_timer_witness:
  "\<exists>k'. ks_flush demo_stack_env (demo_stack [172]) = (Inr (), k') \<and> k_user k' = [1172, 1003]
     \<and> k_raw_queue k' = [] \<and> timer_exact k' \<and> k_next_retransmit k' = Time 3000"
proof -
  let ?r = "ks_flush demo_stack_env (demo_stack [172])"
  have r: "fst ?r = Inr () \<and> k_user (snd ?r) = [1172, 1003] \<and> k_raw_queue (snd ?r) = []
    \<and> k_next_retransmit (snd ?r) = Time 3000" by code_simp
  then have "?r = (Inr (), snd ?r)" by (metis prod.collapse)
  from flush_sends_all_and_sets_timer [OF demo_stack_ok(1-4) this] r this show ?thesis by blast
qed


definition demo_due :: "(nat, buffer list, nat list) stack" where
  "demo_due = (demo_stack [])\<lparr>k_now := Time 4000, k_next_retransmit := Time 3000\<rparr>"


end
