(* ===== verification/StackInv.thy ===== *)
theory StackInv
  imports ProtoStack
begin

text \<open>
  What the derived class of the protocol stack keeps of its own members, the stack keeps: a contract
  for the methods it calls back, and the operations of the stack under the contract.
\<close>

definition keeps :: "('s \<Rightarrow> bool) \<Rightarrow> ('a, 's) st \<Rightarrow> bool" where
  "keeps Q m \<longleftrightarrow> (\<forall>s r s'. Q s \<longrightarrow> m s = (r, s') \<longrightarrow> Q s')"

definition keepsO :: "('s \<Rightarrow> bool) \<Rightarrow> ('s \<Rightarrow> ('a res \<times> 's) option) \<Rightarrow> bool" where
  "keepsO Q m \<longleftrightarrow> (\<forall>s r s'. Q s \<longrightarrow> m s = Some (r, s') \<longrightarrow> Q s')"

lemma keepsI: "(\<And>s. Q s \<Longrightarrow> Q (snd (m s))) \<Longrightarrow> keeps Q m"
  by (metis keeps_def snd_conv)

lemma keepsD: "keeps Q m \<Longrightarrow> m s = (r, s') \<Longrightarrow> Q s \<Longrightarrow> Q s'"
  by (auto simp: keeps_def)

lemma keeps_snd: "keeps Q m \<Longrightarrow> Q s \<Longrightarrow> Q (snd (m s))"
  by (metis keeps_def prod.collapse)

lemma keepsOD: "keepsO Q m \<Longrightarrow> m s = Some (r, s') \<Longrightarrow> Q s \<Longrightarrow> Q s'"
  by (auto simp: keepsO_def)

lemma keeps_then: "keeps Q m \<Longrightarrow> (\<And>a. keeps Q (f a)) \<Longrightarrow> keeps Q (bindS m f)"
proof (rule keepsI)
  fix s assume m: "keeps Q m" and f: "\<And>a. keeps Q (f a)" and s: "Q s"
  obtain r s' where r: "m s = (r, s')" by fastforce
  then have "Q s'" using keepsD [OF m] s by blast
  then show "Q (snd (bindS m f s))" using r keeps_snd [OF f] by (cases r) (simp_all add: bindS_def)
qed

locale user_contract =
  fixes E :: "('p, 's, 'u) stack_env" and P :: "'u \<Rightarrow> bool"
  assumes net_send: "P u \<Longrightarrow> P (snd (d_net_send E p t u))"
    and encapsulate: "P u \<Longrightarrow> P (snd (snd (snd (d_encapsulate E i p (a, u)))))"
    and generate_ack: "P u \<Longrightarrow> P (snd (snd (snd (d_generate_ack E p (a, u)))))"
    and decapsulate: "P (k_user k) \<Longrightarrow> P (k_user (snd (d_decapsulate E p k)))"
    and app_recv: "P (k_user k) \<Longrightarrow> P (k_user (snd (d_app_recv E b k)))"
    and raw_recv: "P (k_user k) \<Longrightarrow> P (k_user (snd (d_raw_recv E p k)))"
    and invalidate_callback: "P (k_user k) \<Longrightarrow> P (k_user (d_invalidate_callback E k))"
begin

abbreviation Q :: "('p, 's, 'u) stack \<Rightarrow> bool" where
  "Q k \<equiv> P (k_user k)"

lemma keeps_error: "Q k \<Longrightarrow> Q (ks_error E e k)"
  by (simp add: ks_error_def ks_invalidate_def invalidate_callback)

lemma keeps_net_send: "keeps Q (ks_net_send E p t)"
  by (rule keepsI) (simp add: ks_net_send_def split_beta Let_def net_send)

lemma keeps_transmit: "keeps Q (ks_transmit E i p t)"
proof (rule keepsI)
  fix k assume k: "Q k"
  obtain r q a u where d: "d_encapsulate E (rm_id (rs_get i (k_send k))) p (k_acks k, k_user k) = (r, q, a, u)"
    by (metis prod_cases4)
  then have "P u" using encapsulate [OF k, of "rm_id (rs_get i (k_send k))" p "k_acks k"] by simp
  with d show "Q (snd (ks_transmit E i p t k))"
    by (auto simp: ks_transmit_def Let_def intro!: keeps_error keeps_snd [OF keeps_net_send] split: sum.splits)
qed

lemma keeps_raw_loop: "keeps Q (raw_loop E)"
proof (rule keepsI)
  fix k :: "('p, 's, 'u) stack"
  assume "Q k"
  then show "Q (snd (raw_loop E k))"
  proof (induction "length (k_raw_queue k)" arbitrary: k rule: less_induct)
    case less
    show ?case
    proof (cases "k_raw_queue k")
      case (Cons p q)
      show ?thesis
      proof (cases "rs_send (k_now k) (k_tls_timeout k) (k_send k)")
        case (Inr x)
        obtain i s where x: "x = (i, s)" by fastforce
        let ?k = "k\<lparr>k_send := rs_set i ((rs_get i s)\<lparr>rm_packet := Some p\<rparr>) s, k_raw_queue := q\<rparr>"
        obtain r k' where t: "ks_transmit E i p NET_SEND_RAW ?k = (r, k')" by fastforce
        have "Q k'" using keepsD [OF keeps_transmit t] less(2) by simp
        moreover have "r = Inr () \<Longrightarrow> length (k_raw_queue k') < length (k_raw_queue k)"
          using ks_transmit_send [of E i p NET_SEND_RAW ?k k'] t Cons by auto
        ultimately show ?thesis
          using less Cons Inr x t by (subst raw_loop.simps) (auto split: sum.splits)
      qed (use Cons less(2) in \<open>simp add: raw_loop.simps\<close>)
    qed (use less(2) in \<open>simp add: raw_loop.simps\<close>)
  qed
qed

lemma keeps_cleartext_loop: "keeps Q (cleartext_loop E)"
proof (rule keepsI)
  fix k :: "('p, 's, 'u) stack"
  assume "Q k"
  then show "Q (snd (cleartext_loop E k))"
  proof (induction "length (k_app_queue k)" arbitrary: k rule: less_induct)
    case less
    show ?case
      by (subst cleartext_loop.simps)
        (use less in \<open>auto simp: Let_def keeps_error split: list.splits prod.splits sum.splits\<close>)
  qed
qed

lemma keeps_cipher_loop: "keeps Q (cipher_loop E)"
proof (rule keepsI)
  fix k :: "('p, 's, 'u) stack"
  assume "Q k"
  then show "Q (snd (cipher_loop E k))"
  proof (induction "unat (rs_tail_id (k_send k)) - unat (rs_next (k_send k))" arbitrary: k rule: less_induct)
    case less
    show ?case
    proof (cases "s_read_ciphertext_ready E (k_ssl k) \<and> rs_ready (k_send k)")
      case True
      show ?thesis
      proof (cases "rs_send (k_now k) (k_tls_timeout k) (k_send k)")
        case (Inr x)
        obtain i s where x: "x = (i, s)" by fastforce
        obtain y ssl where y: "s_read_ciphertext E (k_ssl k) = (y, ssl)" by fastforce
        show ?thesis
        proof (cases y)
          case (Inr b)
          let ?p = "p_of_buffer E b"
          let ?k = "k\<lparr>k_send := rs_set i ((rs_get i s)\<lparr>rm_packet := Some ?p\<rparr>) s, k_ssl := ssl\<rparr>"
          obtain r k' where t: "ks_transmit E i ?p NET_SEND_SSL ?k = (r, k')" by fastforce
          have "Q k'" using keepsD [OF keeps_transmit t] less(2) by simp
          moreover have "unat (rs_tail_id (k_send k')) - unat (rs_next (k_send k'))
              < unat (rs_tail_id (k_send k)) - unat (rs_next (k_send k))" if "r = Inr ()"
            using cipher_measure [of "k_send k" "k_now k" "k_tls_timeout k" i s] True
              \<open>rs_send _ _ _ = Inr x\<close> x ks_transmit_send [of E i ?p NET_SEND_SSL ?k k'] t that by auto
          ultimately show ?thesis
            using less True \<open>rs_send _ _ _ = Inr x\<close> x y Inr t
            by (subst cipher_loop.simps) (auto simp: Let_def split: sum.splits)
        qed (use True Inr x y less(2) in \<open>simp add: cipher_loop.simps\<close>)
      qed (use True less(2) in \<open>simp add: cipher_loop.simps\<close>)
    next
      case False
      have "cipher_loop E k = (Inr (), k)" by (simp only: cipher_loop.simps [of E k] False if_False)
      then show ?thesis using less(2) by simp
    qed
  qed
qed

lemma keeps_update_retransmit: "keeps Q update_retransmit"
  by (rule keepsI) (auto simp: update_retransmit_def split: sum.splits prod.splits)

lemma keeps_flush: "keeps Q (ks_flush E)"
proof -
  have app: "keeps Q (down_stack_app E)"
    using keeps_then [OF keeps_cleartext_loop keeps_cipher_loop]
    by (auto simp: keeps_def down_stack_app_def)
  have "keeps Q (bindS (down_stack_raw E) (\<lambda>_. bindS (down_stack_app E) (\<lambda>_. update_retransmit)))"
    by (intro keeps_then app keeps_update_retransmit) (simp add: down_stack_raw_def keeps_raw_loop)
  then show ?thesis by (auto simp: keeps_def ks_flush_def)
qed

lemma keeps_rtx_loop: "keeps Q (rtx_loop E i)"
proof (rule keepsI)
  fix k :: "('p, 's, 'u) stack"
  assume "Q k"
  then show "Q (snd (rtx_loop E i k))"
  proof (induction "unat (rs_tail_id (k_send k)) - unat i" arbitrary: i k rule: less_induct)
    case less
    show ?case
    proof (cases "i < rs_tail_id (k_send k)")
      case True
      show ?thesis
      proof (cases "rs_ref_by_id i (k_send k)")
        case (Inr x)
        obtain j s where x: "x = (j, s)" by fastforce
        have tail: "rs_tail_id (rs_set j' m s) = rs_tail_id (k_send k)" "rs_tail_id s = rs_tail_id (k_send k)" for j' m
          using rs_ref_by_id_fields [of i "k_send k" j s] Inr x by simp_all
        have nxt: "unat (rs_tail_id (k_send k)) - unat (i + 1) < unat (rs_tail_id (k_send k)) - unat i"
          using True by (simp add: unat_plus_one word_less_nat_alt)
        have send: "P u" if "d_net_send E p NET_SEND_RETRANSMIT (k_user k) = (r, u)" for p r u
          using net_send [of "k_user k" p NET_SEND_RETRANSMIT] that less(2) by simp
        show ?thesis
          by (subst rtx_loop.simps)
            (use less True Inr x tail nxt in
              \<open>auto simp: Let_def send split: prod.splits sum.splits option.splits\<close>)
      qed (use True less(2) in \<open>simp add: rtx_loop.simps\<close>)
    qed (use less(2) in \<open>simp add: rtx_loop.simps\<close>)
  qed
qed

lemma keeps_retransmit: "keeps Q (ks_retransmit E)"
  using keeps_then [OF keeps_rtx_loop keeps_update_retransmit]
  by (auto simp: keeps_def ks_retransmit_def)

lemma keeps_acks_loop: "keepsO Q (acks_loop E)"
proof -
  have "E = F \<longrightarrow> Q k \<longrightarrow> Q (snd x)" if "acks_loop F k = Some x" for F k x
  proof (rule acks_loop.raw_induct [where P = "\<lambda>F k x. E = F \<longrightarrow> Q k \<longrightarrow> Q (snd x)", OF _ that], goal_cases)
    case (1 loop F k x)
    show ?case
    proof (intro impI)
      assume F: "E = F" and k: "Q k"
      show "Q (snd x)"
      proof (cases "ra_data (k_acks k) = []")
        case False
        show ?thesis
        proof (cases "p_frame_prepare F (k_frame k) WRITE_ACK_STANDALONE (k_ack_buf k)")
          case (Inr p)
          obtain r p' a u where g: "d_generate_ack F p (k_acks k, k_user k) = (r, p', a, u)" by (metis prod_cases4)
          have u: "P u" using generate_ack [of "k_user k" p "k_acks k"] g k F by simp
          let ?k = "k\<lparr>k_ack_buf := p', k_acks := a, k_user := u\<rparr>"
          obtain s k' where n: "ks_net_send F p' NET_SEND_ACK ?k = (s, k')" by fastforce
          have "Q k'" using keepsD [OF keeps_net_send, of p' NET_SEND_ACK ?k s k'] n u F by simp
          then show ?thesis
            using 1(1) [of F k'] 1(2) u False Inr g n F by (cases r; cases s) auto
        qed (use 1(2) k False in auto)
      qed (use 1(2) k in auto)
    qed
  qed
  then show ?thesis by (metis snd_conv keepsO_def)
qed

lemma keeps_send_pending_acks: "keepsO Q (ks_send_pending_acks E)"
  using keeps_acks_loop by (auto simp: keepsO_def ks_send_pending_acks_def)

lemma keeps_seq_step: "keeps Q (\<lambda>k. if p_is_raw E p then d_raw_recv E p k
    else let (r, ssl) = s_write_ciphertext E b (k_ssl k) in (r, k\<lparr>k_ssl := ssl\<rparr>))"
  by (rule keepsI) (simp add: raw_recv split_beta Let_def)

lemma keeps_seq_loop: "keepsO Q (seq_loop E)"
proof -
  have "E = F \<longrightarrow> Q k \<longrightarrow> Q (snd x)" if "seq_loop F k = Some x" for F k x
  proof (rule seq_loop.raw_induct [where P = "\<lambda>F k x. E = F \<longrightarrow> Q k \<longrightarrow> Q (snd x)", OF _ that], goal_cases)
    case (1 loop F k x)
    show ?case
    proof (intro impI)
      assume F: "E = F" and k: "Q k"
      show "Q (snd x)"
      proof (cases "rr_ready (k_recv k)")
        case True
        show ?thesis
        proof (cases "rr_next_sequenced (k_recv k)")
          case (Inr m)
          show ?thesis
          proof (cases "rm_packet m")
            case (Some p)
            obtain r k1 where s: "(if p_is_raw F p then d_raw_recv F p k
              else let (r, ssl) = s_write_ciphertext F (p_buffer F p) (k_ssl k) in (r, k\<lparr>k_ssl := ssl\<rparr>)) = (r, k1)"
              by fastforce
            have "Q k1" using keepsD [OF keeps_seq_step s [folded F]] k by blast
            moreover note 1(2) [simplified True Inr Some not_True_eq_False if_False sum.case option.case s prod.case]
            ultimately show ?thesis
              using 1(1) [of F] F k by (cases r) (auto split: if_splits sum.splits)
          qed (use 1(2) k True Inr in auto)
        qed (use 1(2) k True in auto)
      qed (use 1(2) k in auto)
    qed
  qed
  then show ?thesis by (metis snd_conv keepsO_def)
qed

lemma keeps_read_round: "keeps Q (read_round E base)"
proof (rule keepsI)
  fix k assume k: "Q k"
  have app: "Q (snd (bindS (d_app_recv E b) (\<lambda>_ k. (Inr True, k)) k1))" if "Q k1" for b k1
  proof (rule keeps_snd [where Q = Q, OF keeps_then])
    show "keeps Q (d_app_recv E b)" by (rule keepsI) (rule app_recv)
  qed (use that in \<open>auto simp: keeps_def\<close>)
  show "Q (snd (read_round E base k))"
    using k by (auto simp: read_round_def Let_def keeps_error intro!: app split: sum.splits prod.splits)
qed

lemma keeps_read_loop: "keepsO Q (read_loop E base)"
proof -
  have "E = F \<longrightarrow> base = n \<longrightarrow> Q k \<longrightarrow> Q (snd x)" if "read_loop F n k = Some x" for F n k x
  proof (rule read_loop.raw_induct [where P = "\<lambda>F n k x. E = F \<longrightarrow> base = n \<longrightarrow> Q k \<longrightarrow> Q (snd x)", OF _ that], goal_cases)
    case (1 loop F n k x)
    show ?case
    proof (intro impI)
      assume F: "E = F" "base = n" and k: "Q k"
      obtain r k' where r: "read_round F n k = (r, k')" by fastforce
      have "Q k'" using keepsD [OF keeps_read_round r [folded F]] k by blast
      then show "Q (snd x)" using 1(1) [of F n k'] 1(2) r F k by (auto split: if_splits sum.splits)
    qed
  qed
  then show ?thesis by (metis snd_conv keepsO_def)
qed

lemma keeps_up_sequenced: "keepsO Q (up_sequenced E base)"
  using keepsOD [OF keeps_seq_loop] keepsOD [OF keeps_read_loop [of base]]
  by (fastforce simp: keepsO_def up_sequenced_def split: option.splits prod.splits sum.splits if_splits)

lemma keeps_net_recv: "keepsO Q (ks_net_recv E base p)"
  unfolding keepsO_def
proof (intro allI impI)
  fix k r k' assume k: "Q k" and r: "ks_net_recv E base p k = Some (r, k')"
  show "Q k'"
  proof (cases "k_invalidated k")
    case False
    obtain d k1 where d: "d_decapsulate E p (k\<lparr>k_reentry := k_reentry k + 1\<rparr>) = (d, k1)" by fastforce
    have "Q k1" using decapsulate [of "k\<lparr>k_reentry := k_reentry k + 1\<rparr>" p] d k by simp
    then show ?thesis
      using r d False keepsOD [OF keeps_up_sequenced [of base]]
      by (fastforce simp: ks_net_recv_def up_stack_def split: sum.splits bool.splits)
  qed (use k r in \<open>simp add: ks_net_recv_def\<close>)
qed

lemma keeps_start_handshake: "keepsO Q (ks_start_handshake E base)"
  using keepsOD [OF keeps_up_sequenced [of base]]
  by (fastforce simp: keepsO_def ks_start_handshake_def split: prod.splits sum.splits if_splits)

end

end
