(* ===== verification/HexCodec.thy ===== *)
theory HexCodec
  imports Prelude
begin

text \<open>
  Hexadecimal text of \<open>common/hexstr.hpp\<close>: digits, byte strings with and without separator, and
  numbers of any width.  Text is \<open>string\<close>; a byte above 127, negative as a \<open>char\<close>, is no digit
  for either signedness.  \<open>dump_hex\<close>, a debugging aid, is not modelled.
\<close>

section \<open>Digits\<close>

definition render_hex_char :: "int \<Rightarrow> bool \<Rightarrow> char" where
  "render_hex_char c caps =
     (if c < 10 then char_of (48 + c)
      else if c < 16 then char_of ((if caps then 65 else 97) - 10 + c)
      else CHR ''?'')"

definition parse_hex_char :: "char \<Rightarrow> int" where
  "parse_hex_char ch =
     (let c = of_char ch :: int in
      if c \<ge> 48 \<and> c \<le> 57 then c - 48
      else if c \<ge> 97 \<and> c \<le> 102 then c - 97 + 10
      else if c \<ge> 65 \<and> c \<le> 70 then c - 65 + 10
      else -1)"

text \<open>\<open>RenderHexByte\<close>: its two characters.\<close>

definition render_hex_byte :: "u8 \<Rightarrow> bool \<Rightarrow> char \<times> char" where
  "render_hex_byte b caps =
     (render_hex_char (uint (drop_bit 4 b)) caps, render_hex_char (uint (b AND 0x0F)) caps)"

section \<open>Byte strings\<close>

text \<open>\<open>render_hex\<close> of a pointer: null renders as \<open>NULL\<close>.\<close>

fun render_hex_loop :: "u8 list \<Rightarrow> bool \<Rightarrow> string \<Rightarrow> string" where
  "render_hex_loop [] caps ret = ret"
| "render_hex_loop (b # d) caps ret =
     (case render_hex_byte b caps of (c1, c2) \<Rightarrow> render_hex_loop d caps (ret @ [c1] @ [c2]))"

definition render_hex :: "u8 list option \<Rightarrow> bool \<Rightarrow> string" where
  "render_hex data caps =
     (case data of None \<Rightarrow> ''NULL'' | Some d \<Rightarrow> render_hex_loop d caps [])"

fun render_hex_sep_loop :: "u8 list \<Rightarrow> char \<Rightarrow> bool \<Rightarrow> bool \<Rightarrow> string \<Rightarrow> string" where
  "render_hex_sep_loop [] sep caps prsep ret = ret"
| "render_hex_sep_loop (b # d) sep caps prsep ret =
     (let ret = (if prsep then ret @ [sep] else ret) in
      case render_hex_byte b caps of (c1, c2) \<Rightarrow>
        render_hex_sep_loop d sep caps True (ret @ [c1] @ [c2]))"

definition render_hex_sep :: "u8 list option \<Rightarrow> char \<Rightarrow> bool \<Rightarrow> string" where
  "render_hex_sep data sep caps =
     (case data of None \<Rightarrow> ''NULL'' | Some d \<Rightarrow> render_hex_sep_loop d sep caps False [])"

definition render_hex_generic :: "u8 list \<Rightarrow> bool \<Rightarrow> string" where
  "render_hex_generic data caps = render_hex_loop data caps []"

text \<open>\<open>parse_hex\<close> appends to \<open>dest\<close>; the bytes before an error are there when it throws.\<close>

fun parse_hex :: "u8 list \<Rightarrow> string \<Rightarrow> unit res \<times> u8 list" where
  "parse_hex dest [] = (Inr (), dest)"
| "parse_hex dest [c] = (Inl parse_hex_error, dest)"
| "parse_hex dest (a # b # s) =
     (let high = parse_hex_char a; low = parse_hex_char b in
      if high = -1 \<or> low = -1 then (Inl parse_hex_error, dest)
      else parse_hex (dest @ [word_of_int (high * 16 + low)]) s)"

section \<open>Numbers\<close>

text \<open>The terminating null of the C string is the end of the list, or a null before it.\<close>

fun parse_hex_number_loop :: "'a::len word \<Rightarrow> string \<Rightarrow> 'a word option" where
  "parse_hex_number_loop ret [] = Some ret"
| "parse_hex_number_loop ret (c # s) =
     (let hd = parse_hex_char c in
      if hd \<ge> 0 then parse_hex_number_loop (ret * 16 + word_of_int hd) s
      else if of_char c = (0 :: int) then Some ret
      else None)"

definition parse_hex_number :: "string \<Rightarrow> 'a::len word option" where
  "parse_hex_number str =
     (case str of [] \<Rightarrow> None
      | c # _ \<Rightarrow> if of_char c = (0 :: int) then None else parse_hex_number_loop 0 str)"

definition parse_hex_number_throw :: "string \<Rightarrow> 'a::len word res" where
  "parse_hex_number_throw str =
     (case parse_hex_number str of None \<Rightarrow> Inl parse_hex_error | Some v \<Rightarrow> Inr v)"

text \<open>\<open>for (size_t i = sizeof(T); i --> 0 ;)\<close>: the bytes of the value, last first.\<close>

fun number_bytes :: "nat \<Rightarrow> 'a::len word \<Rightarrow> u8 list \<Rightarrow> u8 list" where
  "number_bytes 0 v buf = buf"
| "number_bytes (Suc i) v buf = number_bytes i (drop_bit 8 v) (ucast (v AND 0xFF) # buf)"

definition render_hex_number :: "'a::len word \<Rightarrow> bool \<Rightarrow> string" where
  "render_hex_number v caps = render_hex (Some (number_bytes (LENGTH('a) div 8) v [])) caps"

section \<open>Lemmas\<close>

lemma digit_cases:
  "0 \<le> (n :: int) \<Longrightarrow> n < 16 \<Longrightarrow> n \<in> {0, 1, 2, 3, 4, 5, 6, 7, 8, 9, 10, 11, 12, 13, 14, 15}"
  by (simp, arith)

lemma parse_render_hex_char [simp]:
  assumes "0 \<le> n" and "n < 16"
  shows "parse_hex_char (render_hex_char n caps) = n"
  using digit_cases [OF assms] by (cases caps) (auto simp: parse_hex_char_def render_hex_char_def)

lemma render_hex_char_not_null:
  assumes "0 \<le> n" and "n < 16"
  shows "of_char (render_hex_char n caps) \<noteq> (0 :: int)"
  using digit_cases [OF assms] by (cases caps) (auto simp: render_hex_char_def)

lemma high_digit: "uint (drop_bit 4 (b :: u8)) = uint b div 16" "uint (drop_bit 4 (b :: u8)) < 16"
proof -
  have lt: "uint b < 256" using unsigned_less [of b] by simp
  have "uint (drop_bit 4 b) = drop_bit 4 (take_bit LENGTH(8) (uint b))"
    by (rule unsigned_drop_bit_eq)
  also have "\<dots> = uint b div 16" using lt by (simp add: drop_bit_eq_div take_bit_int_eq_self)
  finally show "uint (drop_bit 4 b) = uint b div 16" .
  with lt show "uint (drop_bit 4 b) < 16" by simp
qed

lemma uint_not_minus_one [simp]: "uint (x :: 'a::len word) \<noteq> - 1"
proof -
  have "0 \<le> uint x" by (rule unsigned_greater_eq)
  then show ?thesis by linarith
qed

lemma low_digit: "uint ((b :: u8) AND 0x0F) = uint b mod 16" "uint b mod 16 < (16 :: int)"
proof -
  have "uint (b AND 0x0F) = uint b AND mask 4"
    by (simp add: unsigned_and_eq mask_eq_exp_minus_1)
  then show "uint (b AND 0x0F) = uint b mod 16"
    by (simp add: take_bit_eq_mask [symmetric] take_bit_eq_mod)
qed simp

lemma digits_byte: "uint (drop_bit 4 (b :: u8)) * 16 + uint (b AND 0x0F) = uint b"
  unfolding high_digit(1) low_digit(1) by simp

lemma render_hex_loop_acc: "render_hex_loop d caps ret = ret @ render_hex_loop d caps []"
proof (induction d arbitrary: ret)
  case (Cons b d)
  obtain c1 c2 where c: "render_hex_byte b caps = (c1, c2)" by (cases "render_hex_byte b caps")
  show ?case
    using Cons [of "ret @ [c1] @ [c2]"] Cons [of "[c1, c2]"] by (simp add: c)
qed simp

lemma render_hex_loop_Cons:
  "render_hex_loop (b # d) caps [] =
     render_hex_char (uint (drop_bit 4 b)) caps # render_hex_char (uint (b AND 0x0F)) caps
     # render_hex_loop d caps []"
  by (simp add: render_hex_byte_def
      render_hex_loop_acc [of d caps "[render_hex_char (uint (drop_bit 4 b)) caps,
        render_hex_char (uint (b AND 15)) caps]"])

lemma parse_hex_two:
  assumes "0 \<le> h" "h < 16" "0 \<le> l" "l < 16"
  shows "parse_hex dest (render_hex_char h caps # render_hex_char l caps # s)
    = parse_hex (dest @ [word_of_int (h * 16 + l)]) s"
  using assms by (simp add: Let_def)

lemma digits_bounds:
  "0 \<le> uint (drop_bit 4 (b :: u8))" "0 \<le> uint ((b :: u8) AND 0x0F)" "uint ((b :: u8) AND 0x0F) < 16"
  unfolding low_digit(1) using low_digit(2) by simp_all

lemma parse_hex_render: "parse_hex dest (render_hex_loop d caps []) = (Inr (), dest @ d)"
proof (induction d arbitrary: dest)
  case (Cons b d)
  have "parse_hex dest (render_hex_loop (b # d) caps []) = parse_hex (dest @ [b]) (render_hex_loop d caps [])"
    unfolding render_hex_loop_Cons parse_hex_two [OF digits_bounds(1) high_digit(2) digits_bounds(2,3)]
      digits_byte by simp
  with Cons show ?case by simp
qed simp

lemma length_render_hex: "length (render_hex_loop d caps []) = 2 * length d"
proof (induction d)
  case (Cons b d)
  then show ?case by (simp only: render_hex_loop_Cons) simp
qed simp

lemma number_loop_byte:
  "parse_hex_number_loop ret (render_hex_loop (b # d) caps [])
     = parse_hex_number_loop (ret * 256 + ucast b) (render_hex_loop d caps [])"
proof -
  let ?h = "uint (drop_bit 4 b)" and ?l = "uint (b AND 0x0F)"
  have "(ret * 16 + word_of_int ?h) * 16 + word_of_int ?l = ret * 256 + word_of_int (?h * 16 + ?l)"
    by (simp add: algebra_simps wi_hom_syms)
  also have "\<dots> = ret * 256 + ucast b" unfolding digits_byte by simp
  finally have "(ret * 16 + word_of_int ?h) * 16 + word_of_int ?l = ret * 256 + ucast b" .
  then show ?thesis
    unfolding render_hex_loop_Cons parse_hex_number_loop.simps Let_def
      parse_render_hex_char [OF digits_bounds(1) high_digit(2)]
      parse_render_hex_char [OF digits_bounds(2,3)]
    by (simp only: digits_bounds if_True)
qed

lemma number_loop_bytes:
  "parse_hex_number_loop ret (render_hex_loop d caps [])
     = Some (foldl (\<lambda>r b. r * 256 + ucast b) ret d)"
proof (induction d arbitrary: ret)
  case (Cons b d)
  then show ?case unfolding number_loop_byte by simp
qed simp

lemma number_bytes_acc: "number_bytes n v buf = number_bytes n v [] @ buf"
proof (induction n arbitrary: v buf)
  case (Suc n)
  show ?case
    using Suc [of "drop_bit 8 v" "ucast (v AND 0xFF) # buf"] Suc [of "drop_bit 8 v" "[ucast (v AND 0xFF)]"]
    by simp
qed simp

lemma length_number_bytes: "length (number_bytes n v buf) = n + length buf"
  by (induction n arbitrary: v buf) simp_all

lemma low_byte: "(ucast (ucast (v AND 0xFF) :: u8) :: 'a::len word) = take_bit 8 v"
proof -
  have "v AND 0xFF = v AND mask 8" by (simp add: mask_eq_exp_minus_1)
  then have "v AND 0xFF = take_bit 8 v" by (simp add: take_bit_eq_mask)
  then show ?thesis by (auto intro!: bit_word_eqI simp: bit_simps)
qed

lemma number_bytes_value:
  "foldl (\<lambda>r b. r * 256 + ucast b) 0 (number_bytes n v []) = take_bit (8 * n) (v :: 'a::len word)"
proof (induction n arbitrary: v)
  case (Suc n)
  have e: "number_bytes (Suc n) v [] = number_bytes n (drop_bit 8 v) [] @ [ucast (v AND 0xFF)]"
    using number_bytes_acc [of n "drop_bit 8 v" "[ucast (v AND 0xFF)]"] by simp
  have "foldl (\<lambda>r b. r * 256 + ucast b) 0 (number_bytes (Suc n) v [])
      = push_bit 8 (take_bit (8 * n) (drop_bit 8 v)) + take_bit 8 v"
    unfolding e foldl_append Suc.IH foldl.simps low_byte by (simp add: push_bit_eq_mult)
  also have "\<dots> = push_bit 8 (drop_bit 8 (take_bit (8 * Suc n) v)) + take_bit 8 (take_bit (8 * Suc n) v)"
    by (simp add: drop_bit_take_bit)
  also have "\<dots> = take_bit (8 * Suc n) v" by (rule bits_ident)
  finally show ?case .
qed simp

lemma number_roundtrip:
  assumes "LENGTH('a::len) = 8 * n" and "0 < n"
  shows "parse_hex_number (render_hex_number (v :: 'a word) caps) = Some v"
proof -
  let ?d = "number_bytes n v []"
  have r: "render_hex_number v caps = render_hex_loop ?d caps []"
    using assms(1) by (simp add: render_hex_number_def render_hex_def)
  obtain b d where d: "?d = b # d"
    using length_number_bytes [of n v "[]"] assms(2) by (cases ?d) auto
  obtain c s where cs: "render_hex_loop ?d caps [] = c # s" "of_char c \<noteq> (0 :: int)"
    unfolding d render_hex_loop_Cons
    using render_hex_char_not_null [OF digits_bounds(1) high_digit(2)] by blast
  have "parse_hex_number (render_hex_loop ?d caps []) =
      (parse_hex_number_loop 0 (render_hex_loop ?d caps []) :: 'a word option)"
    unfolding cs(1) using cs(2) by (simp add: parse_hex_number_def del: parse_hex_number_loop.simps)
  also have "\<dots> = Some (take_bit (8 * n) v)"
    unfolding number_loop_bytes number_bytes_value ..
  finally show ?thesis using assms(1) r by (simp add: take_bit_word_eq_self)
qed

section \<open>Properties\<close>

text \<open>
  Round trip: parsing the hexadecimal text of any byte string, in lower or upper case,
  appends exactly its bytes; and a number of one of the widths of the code, rendered at its full
  width, parses back to itself.
\<close>

theorem hex_roundtrip:
  "parse_hex dest (render_hex (Some d) caps) = (Inr (), dest @ d)
   \<and> parse_hex_number_throw (render_hex_number (w8 :: u8) caps) = Inr w8
   \<and> parse_hex_number_throw (render_hex_number (w16 :: u16) caps) = Inr w16
   \<and> parse_hex_number_throw (render_hex_number (w32 :: u32) caps) = Inr w32
   \<and> parse_hex_number_throw (render_hex_number (w64 :: u64) caps) = Inr w64"
proof -
  have "parse_hex_number (render_hex_number w8 caps) = Some w8"
    "parse_hex_number (render_hex_number w16 caps) = Some w16"
    "parse_hex_number (render_hex_number w32 caps) = Some w32"
    "parse_hex_number (render_hex_number w64 caps) = Some w64"
    by (rule number_roundtrip [of 1] number_roundtrip [of 2] number_roundtrip [of 4]
        number_roundtrip [of 8]; simp)+
  then show ?thesis
    by (simp add: render_hex_def parse_hex_render parse_hex_number_throw_def)
qed

end
