(* ===== verification/IPv4.thy ===== *)
theory IPv4
  imports HexCodec
begin

text \<open>
  \<open>IPv4::Addr\<close> of \<open>addr/ipv4.hpp\<close> with \<open>find_last_set\<close> of \<open>common/ffs.hpp\<close> and \<open>format_error\<close>
  of \<open>addr/iperr.hpp\<close>.  An address is its 32-bit host value; byte \<open>e4(i)\<close> of the union is byte
  \<open>i\<close> from the least significant one on either host.  Operations on the address in network
  order are modelled where they fill memory.  The address parser of asio is a parameter.
  \<open>1 << 31\<close> on \<open>int\<close> is taken as the bit pattern that every supported compiler produces.
\<close>

section \<open>Addresses\<close>

datatype ipv4 = Addr4 (v4: u32)

instantiation ipv4 :: linorder
begin

definition less_eq_ipv4 :: "ipv4 \<Rightarrow> ipv4 \<Rightarrow> bool" where
  "a \<le> b \<longleftrightarrow> v4 a \<le> v4 b"

definition less_ipv4 :: "ipv4 \<Rightarrow> ipv4 \<Rightarrow> bool" where
  "a < b \<longleftrightarrow> v4 a < v4 b"

instance
  by standard (auto simp: less_eq_ipv4_def less_ipv4_def intro: ipv4.expand)

end

definition V4_SIZE :: nat where "V4_SIZE = 32"

definition v4_from_uint32 :: "u32 \<Rightarrow> ipv4" where
  "v4_from_uint32 a = Addr4 a"

definition v4_to_uint32 :: "ipv4 \<Rightarrow> u32" where
  "v4_to_uint32 a = v4 a"

definition v4_to_byte_string :: "ipv4 \<Rightarrow> u8 list" where
  "v4_to_byte_string a = be32 (v4 a)"

definition v4_from_bytes_net :: "u8 list \<Rightarrow> ipv4" where
  "v4_from_bytes_net bytes = Addr4 (of_be32 (take 4 bytes))"

definition v4_from_ulong :: "u64 \<Rightarrow> ipv4" where
  "v4_from_ulong ul = Addr4 (ucast ul)"

definition v4_to_ulong :: "ipv4 \<Rightarrow> u64" where
  "v4_to_ulong a = ucast (v4 a)"

definition v4_from_long :: "int \<Rightarrow> ipv4" where
  "v4_from_long ul = Addr4 (word_of_int ul)"

definition v4_to_long :: "ipv4 \<Rightarrow> int" where
  "v4_to_long a = sint (v4 a)"

definition v4_from_zero :: ipv4 where "v4_from_zero = Addr4 0"
definition v4_from_one :: ipv4 where "v4_from_one = Addr4 1"
definition v4_from_zero_complement :: ipv4 where "v4_from_zero_complement = Addr4 (NOT 0)"

section \<open>Netmasks\<close>

definition prefix_len_to_netmask_unchecked :: "nat \<Rightarrow> u32" where
  "prefix_len_to_netmask_unchecked n =
     (if n \<noteq> 0 then NOT (push_bit (V4_SIZE - n) 1 - 1) else 0)"

definition prefix_len_to_netmask :: "nat \<Rightarrow> u32 res" where
  "prefix_len_to_netmask n =
     (if n \<le> V4_SIZE then Inr (prefix_len_to_netmask_unchecked n)
      else Inl (ipv4_exception ''bad prefix len''))"

definition netmask_from_prefix_len :: "nat \<Rightarrow> ipv4 res" where
  "netmask_from_prefix_len n = bindE (prefix_len_to_netmask n) (\<lambda>m. Inr (Addr4 m))"

text \<open>The binary search of \<open>prefix_len_32\<close>, at most \<open>i\<close> more probes.\<close>

fun prefix_search :: "nat \<Rightarrow> nat \<Rightarrow> nat \<Rightarrow> u32 \<Rightarrow> int" where
  "prefix_search 0 high low a = -1"
| "prefix_search (Suc i) high low a =
     (let mid = (high + low) div 2; test = prefix_len_to_netmask_unchecked mid in
      if a = test then int mid
      else if a > test then prefix_search i high mid a
      else prefix_search i mid low a)"

definition prefix_len_32 :: "u32 \<Rightarrow> int" where
  "prefix_len_32 a =
     (if a = NOT 0 then 32 else if a = 0 then 0 else prefix_search 5 32 1 a)"

definition v4_prefix_len :: "ipv4 \<Rightarrow> nat res" where
  "v4_prefix_len a =
     (let ret = prefix_len_32 (v4 a) in
      if ret \<ge> 0 then Inr (nat ret) else Inl (ipv4_exception ''malformed netmask''))"

definition v4_prefix_len_nothrow :: "ipv4 \<Rightarrow> int" where
  "v4_prefix_len_nothrow a = prefix_len_32 (v4 a)"

definition v4_host_len :: "ipv4 \<Rightarrow> nat res" where
  "v4_host_len a = bindE (v4_prefix_len a) (\<lambda>n. Inr (V4_SIZE - n))"

definition v4_extent_from_netmask_uint32 :: "ipv4 \<Rightarrow> u32 res" where
  "v4_extent_from_netmask_uint32 a =
     bindE (v4_host_len a) (\<lambda>hl.
       if hl < V4_SIZE then Inr (push_bit hl 1)
       else if hl = V4_SIZE then Inr 0
       else Inl (ipv4_exception ''extent overflow''))"

definition v4_extent_from_netmask :: "ipv4 \<Rightarrow> ipv4 res" where
  "v4_extent_from_netmask a = bindE (v4_extent_from_netmask_uint32 a) (\<lambda>e. Inr (Addr4 e))"

text \<open>\<open>__builtin_clz\<close> counts the zero bits above the highest one.\<close>

definition clz32 :: "u32 \<Rightarrow> nat" where
  "clz32 v = length (takeWhile (\<lambda>i. \<not> bit v i) (rev [0..<32]))"

definition find_last_set :: "u32 \<Rightarrow> nat" where
  "find_last_set v = (if v = 0 then 0 else 32 - clz32 v)"

definition v4_netmask_from_extent :: "ipv4 \<Rightarrow> ipv4 res" where
  "v4_netmask_from_extent a = netmask_from_prefix_len (V4_SIZE - find_last_set (v4 a - 1))"

definition v4_network_addr :: "nat \<Rightarrow> ipv4 \<Rightarrow> ipv4 res" where
  "v4_network_addr n a = bindE (prefix_len_to_netmask n) (\<lambda>m. Inr (Addr4 (v4 a AND m)))"

section \<open>Text\<close>

definition ip_format_error :: "string \<Rightarrow> string \<Rightarrow> string \<Rightarrow> string \<Rightarrow> string" where
  "ip_format_error ipstr title ipver message =
     ''error parsing'' @ (if title \<noteq> [] then '' '' @ title else []) @ '' IP'' @ ipver
     @ '' address '' @ [char_of (39 :: int)] @ ipstr @ [char_of (39 :: int)]
     @ (if message \<noteq> [] then '' : '' @ message else [])"

definition v4_from_string :: "(string \<Rightarrow> string + u32) \<Rightarrow> string \<Rightarrow> string \<Rightarrow> ipv4 res" where
  "v4_from_string make_address ipstr title =
     (case make_address ipstr of
        Inl msg \<Rightarrow> Inl (ipv4_exception (ip_format_error ipstr title ''v4'' msg))
      | Inr a \<Rightarrow> Inr (Addr4 a))"

text \<open>Setting and reading byte \<open>k\<close> of the union, from the least significant one.\<close>

definition set_byte :: "nat \<Rightarrow> u8 \<Rightarrow> u32 \<Rightarrow> u32" where
  "set_byte k b a = (a AND NOT (push_bit (8 * k) 0xFF)) OR push_bit (8 * k) (ucast b)"

definition get_byte :: "nat \<Rightarrow> u32 \<Rightarrow> u8" where
  "get_byte k a = ucast (drop_bit (8 * k) a)"

text \<open>
  The loop of \<open>from_hex\<close> over the digits: pairs from the front, a missing first digit of an odd
  number read as zero.
\<close>

fun from_hex_loop :: "nat \<Rightarrow> string \<Rightarrow> u32 \<Rightarrow> u32 res" where
  "from_hex_loop di (a # b # s) addr =
     (let bh = parse_hex_char a; bl = parse_hex_char b in
      if bh = -1 \<or> bl = -1 then Inl (ipv4_exception ''parse hex error'')
      else from_hex_loop (di - 1) s (set_byte di (word_of_int (bh * 16 + bl)) addr))"
| "from_hex_loop di s addr = Inr addr"

definition v4_from_hex :: "string \<Rightarrow> ipv4 res" where
  "v4_from_hex s =
     (let s = (if s \<noteq> [] \<and> last s = CHR ''L'' then butlast s else s);
          d = (if length s \<ge> 2 \<and> s ! 0 = CHR ''0'' \<and> s ! 1 = CHR ''x'' then drop 2 s else s);
          len = length d in
      if len < 1 \<or> len > 8 then Inl (ipv4_exception ''parse hex error'')
      else
        bindE (from_hex_loop ((len - 1) div 2) (if odd len then CHR ''0'' # d else d) 0)
          (\<lambda>a. Inr (Addr4 a)))"

fun to_hex_loop :: "nat list \<Rightarrow> bool \<Rightarrow> u32 \<Rightarrow> string \<Rightarrow> string" where
  "to_hex_loop [] firstnonzero a ret = ret"
| "to_hex_loop (i # is) firstnonzero a ret =
     (let b = get_byte (3 - i) a in
      if b \<noteq> 0 \<or> firstnonzero \<or> i = 3 then
        let bh = drop_bit 4 b;
            ret = (if bh \<noteq> 0 \<or> firstnonzero then ret @ [render_hex_char (uint bh) False] else ret) in
        to_hex_loop is True a (ret @ [render_hex_char (uint (b AND 0x0F)) False])
      else to_hex_loop is firstnonzero a ret)"

definition v4_to_hex :: "ipv4 \<Rightarrow> string" where
  "v4_to_hex a = to_hex_loop [0, 1, 2, 3] False (v4 a) []"

section \<open>Arithmetic and tests\<close>

definition v4_and :: "ipv4 \<Rightarrow> ipv4 \<Rightarrow> ipv4" where "v4_and a b = Addr4 (v4 a AND v4 b)"
definition v4_or :: "ipv4 \<Rightarrow> ipv4 \<Rightarrow> ipv4" where "v4_or a b = Addr4 (v4 a OR v4 b)"
definition v4_add_long :: "ipv4 \<Rightarrow> int \<Rightarrow> ipv4" where "v4_add_long a d = Addr4 (v4 a + word_of_int d)"
definition v4_add :: "ipv4 \<Rightarrow> ipv4 \<Rightarrow> ipv4" where "v4_add a b = Addr4 (v4 a + v4 b)"
definition v4_sub_long :: "ipv4 \<Rightarrow> int \<Rightarrow> ipv4" where "v4_sub_long a d = v4_add_long a (- d)"
definition v4_sub :: "ipv4 \<Rightarrow> ipv4 \<Rightarrow> ipv4" where "v4_sub a b = Addr4 (v4 a - v4 b)"
definition v4_mult :: "ipv4 \<Rightarrow> ipv4 \<Rightarrow> ipv4" where "v4_mult a b = Addr4 (v4 a * v4 b)"

text \<open>Division by zero and shifts by 32 or more have no defined result.\<close>

definition v4_div :: "ipv4 \<Rightarrow> ipv4 \<Rightarrow> ipv4 res" where
  "v4_div a b = (if v4 b = 0 then Inl undefined_behaviour else Inr (Addr4 (v4 a div v4 b)))"

definition v4_mod :: "ipv4 \<Rightarrow> ipv4 \<Rightarrow> ipv4 res" where
  "v4_mod a b = (if v4 b = 0 then Inl undefined_behaviour else Inr (Addr4 (v4 a mod v4 b)))"

definition v4_shl :: "ipv4 \<Rightarrow> nat \<Rightarrow> ipv4 res" where
  "v4_shl a n = (if n \<ge> 32 then Inl undefined_behaviour else Inr (Addr4 (push_bit n (v4 a))))"

definition v4_shr :: "ipv4 \<Rightarrow> nat \<Rightarrow> ipv4 res" where
  "v4_shr a n = (if n \<ge> 32 then Inl undefined_behaviour else Inr (Addr4 (drop_bit n (v4 a))))"

definition v4_not :: "ipv4 \<Rightarrow> ipv4" where "v4_not a = Addr4 (NOT (v4 a))"

definition v4_all_zeros :: "ipv4 \<Rightarrow> bool" where "v4_all_zeros a \<longleftrightarrow> v4 a = 0"
definition v4_all_ones :: "ipv4 \<Rightarrow> bool" where "v4_all_ones a \<longleftrightarrow> NOT (v4 a) = 0"
definition v4_unspecified :: "ipv4 \<Rightarrow> bool" where "v4_unspecified a \<longleftrightarrow> v4_all_zeros a"
definition v4_specified :: "ipv4 \<Rightarrow> bool" where "v4_specified a \<longleftrightarrow> \<not> v4_unspecified a"

definition v4_is_loopback :: "ipv4 \<Rightarrow> bool" where
  "v4_is_loopback a \<longleftrightarrow> v4 a AND 0x7F000000 = 0x7F000000"

definition v4_inc :: "ipv4 \<Rightarrow> ipv4" where "v4_inc a = Addr4 (v4 a + 1)"


section \<open>Lemmas on netmasks\<close>

lemma prefix_search_sound:
  "prefix_search i high low a = r \<Longrightarrow> 0 \<le> r \<Longrightarrow> high \<le> 32 \<Longrightarrow> low \<le> 32 \<Longrightarrow>
   nat r \<le> 32 \<and> prefix_len_to_netmask_unchecked (nat r) = a"
  by (induction i high low a rule: prefix_search.induct) (auto simp: Let_def split: if_splits)

lemma prefix_search_numeral: "prefix_search (numeral k) high low a = (
   let mid = (high + low) div 2; test = prefix_len_to_netmask_unchecked mid in
      if a = test then int mid
      else if a > test then prefix_search (pred_numeral k) high mid a
      else prefix_search (pred_numeral k) mid low a)"
  unfolding numeral_eq_Suc [of k] by (rule prefix_search.simps(2))

definition prefix_lens :: "nat list" where
  "prefix_lens = [0, 1, 2, 3, 4, 5, 6, 7, 8, 9, 10, 11, 12, 13, 14, 15, 16, 17, 18, 19, 20, 21, 22, 23, 24, 25, 26, 27, 28, 29, 30, 31, 32]"

lemma prefix_lens_upto: "n \<le> 32 \<Longrightarrow> n \<in> set prefix_lens"
  unfolding prefix_lens_def by simp presburger

text \<open>The 33 netmasks, one by one.\<close>

lemma netmasks_computed:
  "list_all (\<lambda>n. prefix_len_32 (prefix_len_to_netmask_unchecked n) = int n) prefix_lens"
  unfolding prefix_lens_def list.pred_inject
  by (intro conjI TrueI)
    (simp_all add: prefix_len_32_def prefix_len_to_netmask_unchecked_def V4_SIZE_def Let_def prefix_search_numeral)

lemma prefix_len_32_inverse:
  "n \<le> 32 \<Longrightarrow> prefix_len_32 (prefix_len_to_netmask_unchecked n) = int n"
  using netmasks_computed prefix_lens_upto by (simp add: list_all_iff)

lemma prefix_len_32_sound:
  assumes "prefix_len_32 a = r" and "0 \<le> r"
  shows "nat r \<le> 32 \<and> prefix_len_to_netmask_unchecked (nat r) = a"
proof (cases "a = NOT 0 \<or> a = 0")
  case True
  then show ?thesis
    using assms(1) by (auto simp: prefix_len_32_def prefix_len_to_netmask_unchecked_def V4_SIZE_def)
next
  case False
  then show ?thesis
    using assms prefix_search_sound [of 5 32 1 a r] by (simp add: prefix_len_32_def)
qed

lemma find_last_set_mask:
  assumes "k \<le> 32"
  shows "find_last_set (mask k) = k"
proof (cases "k = 0")
  case False
  have b: "bit (mask k :: u32) i \<longleftrightarrow> i < k" if "i < 32" for i
    using that assms by (simp add: bit_mask_iff)
  then have "bit (mask k :: u32) 0" using False by simp
  then have nz: "(mask k :: u32) \<noteq> 0" by (metis bit_0_eq bot_fun_def bot_bool_def)
  have up: "[0..<32] = [0..<k] @ [k..<32]" using assms upt_add_eq_append [of 0 k "32 - k"] by simp
  have "takeWhile (\<lambda>i. \<not> bit (mask k :: u32) i) (rev [0..<32])
      = rev [k..<32] @ takeWhile (\<lambda>i. \<not> bit (mask k :: u32) i) (rev [0..<k])"
    unfolding up rev_append by (rule takeWhile_append2) (auto simp: b)
  also have "takeWhile (\<lambda>i. \<not> bit (mask k :: u32) i) (rev [0..<k]) = []"
    using False b assms by (cases k) simp_all
  finally show ?thesis using nz assms by (simp add: find_last_set_def clz32_def)
qed (simp add: find_last_set_def)

lemma extent_minus_one: "(push_bit k 1 :: u32) - 1 = mask k"
  by (simp add: mask_eq_exp_minus_1 push_bit_eq_mult)

lemma netmask_from_extent_inverse:
  assumes "n \<le> 32"
  defines "m \<equiv> Addr4 (prefix_len_to_netmask_unchecked n)"
  defines "x \<equiv> Addr4 (push_bit (32 - n) 1)"
  shows "v4_extent_from_netmask m = Inr x" and "v4_netmask_from_extent x = Inr m"
proof -
  have "v4_prefix_len m = Inr n"
    using prefix_len_32_inverse [OF assms(1)] by (simp add: v4_prefix_len_def m_def)
  moreover have "(push_bit 32 1 :: u32) = 0"
    by (simp add: push_bit_eq_mult)
  ultimately show "v4_extent_from_netmask m = Inr x"
    using assms(1)
    by (auto simp: v4_extent_from_netmask_def v4_extent_from_netmask_uint32_def v4_host_len_def
        V4_SIZE_def x_def)
  show "v4_netmask_from_extent x = Inr m"
    using find_last_set_mask [of "32 - n", unfolded mask_eq_exp_minus_1] assms(1)
    by (simp add: v4_netmask_from_extent_def x_def extent_minus_one m_def V4_SIZE_def
        netmask_from_prefix_len_def prefix_len_to_netmask_def)
qed

lemma mod_128_cases:
  fixes n :: nat
  assumes "n < 256"
  shows "n mod 128 = 127 \<longleftrightarrow> n = 127 \<or> n = 255"
proof (cases "n < 128")
  case False
  then have "n mod 128 = n - 128" using assms by (simp add: le_mod_geq)
  with False show ?thesis by linarith
qed simp

section \<open>Properties\<close>

text \<open>
  Functional: \<open>prefix_len\<close>, a binary search of at most five probes, inverts
  \<open>netmask_from_prefix_len\<close>: it returns \<open>n\<close> exactly for the netmask of length \<open>n\<close>, 0 to 32, and so
  throws for every address that is no netmask.
\<close>

theorem prefix_len_inverts_netmask:
  "v4_prefix_len a = Inr n \<longleftrightarrow> netmask_from_prefix_len n = Inr a"
proof
  assume "v4_prefix_len a = Inr n"
  then have "0 \<le> prefix_len_32 (v4 a)" "nat (prefix_len_32 (v4 a)) = n"
    by (auto simp: v4_prefix_len_def Let_def split: if_splits)
  then have "n \<le> 32 \<and> prefix_len_to_netmask_unchecked n = v4 a"
    using prefix_len_32_sound [OF refl] by blast
  then show "netmask_from_prefix_len n = Inr a"
    by (cases a) (simp add: netmask_from_prefix_len_def prefix_len_to_netmask_def V4_SIZE_def)
next
  assume "netmask_from_prefix_len n = Inr a"
  then have "n \<le> 32" "a = Addr4 (prefix_len_to_netmask_unchecked n)"
    by (auto simp: netmask_from_prefix_len_def prefix_len_to_netmask_def V4_SIZE_def split: if_splits)
  then show "v4_prefix_len a = Inr n"
    using prefix_len_32_inverse [of n] by (simp add: v4_prefix_len_def)
qed

text \<open>
  Round trip: for every netmask the number of addresses it spans, computed by
  \<open>extent_from_netmask\<close>, leads \<open>netmask_from_extent\<close> back to it; the extent is 2^(32-n), which for
  the empty prefix wraps to 0.
\<close>

theorem netmask_extent_roundtrip:
  assumes "netmask_from_prefix_len n = Inr m"
  shows "v4_extent_from_netmask m = Inr (Addr4 (2 ^ (32 - n)))
    \<and> v4_netmask_from_extent (Addr4 (2 ^ (32 - n))) = Inr m"
proof -
  have "n \<le> 32" "m = Addr4 (prefix_len_to_netmask_unchecked n)"
    using assms
    by (auto simp: netmask_from_prefix_len_def prefix_len_to_netmask_def V4_SIZE_def split: if_splits)
  moreover have "(push_bit (32 - n) 1 :: u32) = 2 ^ (32 - n)"
    by (simp add: push_bit_eq_mult)
  ultimately show ?thesis using netmask_from_extent_inverse [of n] by simp
qed

theorem netmask_extent_roundtrip_witness:
  "v4_extent_from_netmask (Addr4 0xFFFFFF00) = Inr (Addr4 256)
    \<and> v4_netmask_from_extent (Addr4 256) = Inr (Addr4 0xFFFFFF00)"
proof -
  have "netmask_from_prefix_len 24 = Inr (Addr4 0xFFFFFF00)"
    by (simp add: netmask_from_prefix_len_def prefix_len_to_netmask_def V4_SIZE_def
        prefix_len_to_netmask_unchecked_def)
  from netmask_extent_roundtrip [OF this] show ?thesis by simp
qed

text \<open>
  Functional: which addresses \<open>is_loopback\<close> accepts. It tests only the seven bits of the
  mask 0x7F000000, so beside 127.0.0.0/8 it accepts all of 255.0.0.0/8, the broadcast address
  included.
\<close>

theorem is_loopback_characterised:
  "v4_is_loopback a \<longleftrightarrow> drop_bit 24 (v4 a) = 127 \<or> drop_bit 24 (v4 a) = 255"
proof -
  let ?x = "drop_bit 24 (v4 a)"
  have m: "(0x7F000000 :: u32) = push_bit 24 (mask 7)" by (simp add: mask_eq_exp_minus_1)
  have "v4_is_loopback a \<longleftrightarrow> (\<forall>i < 32. 24 \<le> i \<and> i < 31 \<longrightarrow> bit (v4 a) i)"
    unfolding v4_is_loopback_def m by (auto simp: bit_eq_iff bit_simps)
  also have "\<dots> \<longleftrightarrow> (\<forall>j < 7. bit ?x j)"
  proof (intro iffI allI impI)
    fix i :: nat
    assume b: "\<forall>j < 7. bit ?x j" and "i < 32" "24 \<le> i \<and> i < 31"
    then have "bit ?x (i - 24)" by auto
    then show "bit (v4 a) i" using \<open>24 \<le> i \<and> i < 31\<close> by (simp add: bit_drop_bit_eq)
  qed (simp add: bit_drop_bit_eq)
  also have "\<dots> \<longleftrightarrow> take_bit 7 ?x = mask 7"
  proof
    assume t: "take_bit 7 ?x = mask 7"
    have "bit (take_bit 7 ?x) j" if "j < 7" for j using that unfolding t by (simp add: bit_mask_iff)
    then show "\<forall>j < 7. bit ?x j" by (simp add: bit_take_bit_iff)
  qed (auto simp: bit_eq_iff bit_simps)
  also have "\<dots> \<longleftrightarrow> unat ?x mod 128 = 127"
    by (simp add: take_bit_eq_mod mask_eq_exp_minus_1 word_unat_eq_iff unat_mod)
  also have "\<dots> \<longleftrightarrow> unat ?x = 127 \<or> unat ?x = 255"
  proof -
    have "unat (v4 a) < 2 ^ LENGTH(32)" by (rule unsigned_less)
    then have "unat ?x < 256" by (simp add: drop_bit_eq_div unat_div)
    then show ?thesis by (rule mod_128_cases)
  qed
  finally show ?thesis by (simp add: word_unat_eq_iff)
qed

end
