(* ===== verification/DataLimit.thy ===== *)
theory DataLimit
  imports Prelude
begin

text \<open>
  \<open>DataLimit\<close> of \<open>ssl/datalimit.hpp\<close>: two byte counters, for encryption and decryption, that
  pass from None over Green to Red, and the flags through which each transition is reported at
  most once and Encrypt-Red is held back until Decrypt-Green.  The byte counter is an
  \<open>unsigned int\<close> and wraps.
\<close>

section \<open>Components\<close>

datatype dl_mode = Encrypt | Decrypt

datatype dl_state = DL_None | Green | Red

text \<open>The values of the enumerations.\<close>

fun mode_int :: "dl_mode \<Rightarrow> nat" where
  "mode_int Encrypt = 0"
| "mode_int Decrypt = 1"

fun state_int :: "dl_state \<Rightarrow> nat" where
  "state_int DL_None = 0"
| "state_int Green = 1"
| "state_int Red = 2"

record dl_comp =
  c_red_limit :: u32
  c_bytes :: u32
  c_state :: dl_state

definition comp_new :: "u32 \<Rightarrow> dl_comp" where
  "comp_new red_limit = \<lparr>c_red_limit = red_limit, c_bytes = 0, c_state = DL_None\<rparr>"

definition comp_transition :: "dl_state \<Rightarrow> dl_comp \<Rightarrow> dl_state" where
  "comp_transition s c =
     (case s of
        DL_None \<Rightarrow> if c_bytes c \<noteq> 0 then Green else DL_None
      | Green \<Rightarrow> if c_red_limit c \<noteq> 0 \<and> c_bytes c \<ge> c_red_limit c then Red else DL_None
      | Red \<Rightarrow> DL_None)"

definition comp_update_state :: "dl_state \<Rightarrow> dl_comp \<Rightarrow> dl_state \<times> dl_comp" where
  "comp_update_state newstate c =
     (if state_int newstate > state_int (c_state c) then (newstate, c\<lparr>c_state := newstate\<rparr>)
      else (DL_None, c))"

definition comp_add :: "u32 \<Rightarrow> dl_comp \<Rightarrow> dl_state \<times> dl_comp" where
  "comp_add n c =
     (let c = c\<lparr>c_bytes := c_bytes c + n\<rparr> in comp_update_state (comp_transition (c_state c) c) c)"

section \<open>The limit\<close>

record data_limit =
  dl_encrypt :: dl_comp
  dl_decrypt :: dl_comp
  dl_flags :: u32

definition dl_new :: "u32 \<Rightarrow> u32 \<Rightarrow> data_limit" where
  "dl_new encrypt_red_limit decrypt_red_limit =
     \<lparr>dl_encrypt = comp_new encrypt_red_limit, dl_decrypt = comp_new decrypt_red_limit, dl_flags = 0\<rparr>"

fun dl_component :: "dl_mode \<Rightarrow> data_limit \<Rightarrow> dl_comp" where
  "dl_component Encrypt d = dl_encrypt d"
| "dl_component Decrypt d = dl_decrypt d"

fun dl_set_component :: "dl_mode \<Rightarrow> dl_comp \<Rightarrow> data_limit \<Rightarrow> data_limit" where
  "dl_set_component Encrypt c d = d\<lparr>dl_encrypt := c\<rparr>"
| "dl_set_component Decrypt c d = d\<lparr>dl_decrypt := c\<rparr>"

definition EG :: u32 where "EG = 1"
definition ER :: u32 where "ER = 2"
definition DG :: u32 where "DG = 4"
definition DR :: u32 where "DR = 8"

definition dl_elgible :: "dl_mode \<Rightarrow> dl_state \<Rightarrow> data_limit \<Rightarrow> dl_state \<times> data_limit" where
  "dl_elgible md st d =
     (if state_int st > 0 then
        (let msk = push_bit ((state_int st - 1) + 2 * mode_int md) 1 in
         if dl_flags d AND msk = 0 then
           (let d = d\<lparr>dl_flags := dl_flags d OR msk\<rparr> in
            if msk AND (ER OR DG) \<noteq> 0 \<and> dl_flags d AND (ER OR DG) = ER OR DG then (Red, d)
            else if msk AND ER \<noteq> 0 then (DL_None, d)
            else (st, d))
         else (DL_None, d))
      else (DL_None, d))"

definition dl_update_state :: "dl_mode \<Rightarrow> dl_state \<Rightarrow> data_limit \<Rightarrow> dl_state \<times> data_limit" where
  "dl_update_state md newstate d =
     (let (st, c) = comp_update_state newstate (dl_component md d) in
      dl_elgible md st (dl_set_component md c d))"

definition dl_add :: "dl_mode \<Rightarrow> u32 \<Rightarrow> data_limit \<Rightarrow> dl_state \<times> data_limit" where
  "dl_add md n d =
     (let (st, c) = comp_add n (dl_component md d) in
      dl_elgible md st (dl_set_component md c d))"

definition dl_is_decrypt_green :: "data_limit \<Rightarrow> bool" where
  "dl_is_decrypt_green d \<longleftrightarrow> state_int (c_state (dl_decrypt d)) \<ge> state_int Green"

fun dl_mode_str :: "dl_mode \<Rightarrow> string" where
  "dl_mode_str Encrypt = ''Encrypt''"
| "dl_mode_str Decrypt = ''Decrypt''"

fun dl_state_str :: "dl_state \<Rightarrow> string" where
  "dl_state_str DL_None = ''None''"
| "dl_state_str Green = ''Green''"
| "dl_state_str Red = ''Red''"

section \<open>Calls and what they report\<close>

datatype dl_call = Add_call dl_mode u32 | Update_call dl_mode dl_state

fun dl_exec :: "dl_call \<Rightarrow> data_limit \<Rightarrow> dl_state \<times> data_limit" where
  "dl_exec (Add_call md n) d = dl_add md n d"
| "dl_exec (Update_call md st) d = dl_update_state md st d"

fun dl_run :: "dl_call list \<Rightarrow> data_limit \<Rightarrow> dl_state list \<times> data_limit" where
  "dl_run [] d = ([], d)"
| "dl_run (call # calls) d =
     (let (st, d) = dl_exec call d; (sts, d) = dl_run calls d in (st # sts, d))"

text \<open>The flags as booleans.\<close>

definition fl :: "data_limit \<Rightarrow> nat \<Rightarrow> bool" where
  "fl d k \<longleftrightarrow> bit (dl_flags d) k"


lemma flag_tests:
  "dl_flags d AND 1 = 0 \<longleftrightarrow> \<not> fl d 0" "dl_flags d AND 2 = 0 \<longleftrightarrow> \<not> fl d 1"
  "dl_flags d AND 4 = 0 \<longleftrightarrow> \<not> fl d 2" "dl_flags d AND 8 = 0 \<longleftrightarrow> \<not> fl d 3"
  using and_exp_eq_0_iff_not_bit [of "dl_flags d" 0] and_exp_eq_0_iff_not_bit [of "dl_flags d" 1]
    and_exp_eq_0_iff_not_bit [of "dl_flags d" 2] and_exp_eq_0_iff_not_bit [of "dl_flags d" 3]
  by (simp_all add: fl_def)

lemma six_bits: "bit (6 :: u32) n \<longleftrightarrow> n = 1 \<or> n = 2"
proof -
  have "(6 :: u32) = 2 ^ 1 OR 2 ^ 2" by simp
  then show ?thesis by (simp only: bit_or_iff bit_exp_iff) auto
qed

lemma flags_six: "w AND 6 = (6 :: u32) \<longleftrightarrow> bit w 1 \<and> bit w 2"
proof
  assume t: "w AND 6 = 6"
  have "bit (w AND 6) 1" "bit (w AND 6) 2" unfolding t by (simp_all add: six_bits [simplified])
  then show "bit w 1 \<and> bit w 2" by (simp only: bit_and_iff)
next
  assume "bit w 1 \<and> bit w 2"
  then show "w AND 6 = 6" by (intro bit_word_eqI) (auto simp only: bit_and_iff six_bits)
qed

lemma fl_or:
  "fl (d\<lparr>dl_flags := dl_flags d OR 1\<rparr>) k \<longleftrightarrow> fl d k \<or> k = 0"
  "fl (d\<lparr>dl_flags := dl_flags d OR 2\<rparr>) k \<longleftrightarrow> fl d k \<or> k = 1"
  "fl (d\<lparr>dl_flags := dl_flags d OR 4\<rparr>) k \<longleftrightarrow> fl d k \<or> k = 2"
  "fl (d\<lparr>dl_flags := dl_flags d OR 8\<rparr>) k \<longleftrightarrow> fl d k \<or> k = 3"
  using bit_exp_iff [of 0 k, where 'a = "32 word"] bit_exp_iff [of 1 k, where 'a = "32 word"]
    bit_exp_iff [of 2 k, where 'a = "32 word"] bit_exp_iff [of 3 k, where 'a = "32 word"]
  by (auto simp: fl_def bit_or_iff)

text \<open>\<open>elgible\<close> case by case.\<close>

lemma elgible_None: "dl_elgible md DL_None d = (DL_None, d)"
  by (simp add: dl_elgible_def)

lemma elgible_EG: "dl_elgible Encrypt Green d =
     (if fl d 0 then (DL_None, d) else (Green, d\<lparr>dl_flags := dl_flags d OR 1\<rparr>))"
  by (simp add: dl_elgible_def flag_tests ER_def DG_def)

lemma elgible_ER: "dl_elgible Encrypt Red d =
     (if fl d 1 then (DL_None, d)
      else (if fl d 2 then Red else DL_None, d\<lparr>dl_flags := dl_flags d OR 2\<rparr>))"
proof -
  have "(dl_flags d OR 2) AND 6 = 6 \<longleftrightarrow> fl d 2"
    using fl_or(2) [of d 1] fl_or(2) [of d 2] by (simp add: flags_six fl_def)
  then show ?thesis by (simp add: dl_elgible_def flag_tests ER_def DG_def)
qed

lemma elgible_DG: "dl_elgible Decrypt Green d =
     (if fl d 2 then (DL_None, d)
      else (if fl d 1 then Red else Green, d\<lparr>dl_flags := dl_flags d OR 4\<rparr>))"
proof -
  have "(dl_flags d OR 4) AND 6 = 6 \<longleftrightarrow> fl d 1"
    using fl_or(3) [of d 1] fl_or(3) [of d 2] by (simp add: flags_six fl_def)
  then show ?thesis by (simp add: dl_elgible_def flag_tests ER_def DG_def)
qed

lemma elgible_DR: "dl_elgible Decrypt Red d =
     (if fl d 3 then (DL_None, d) else (Red, d\<lparr>dl_flags := dl_flags d OR 8\<rparr>))"
  by (simp add: dl_elgible_def flag_tests ER_def DG_def)

lemmas elgible_cases = elgible_EG elgible_ER elgible_DG elgible_DR

text \<open>
  The invariant, with the list of results so far: a flag is set exactly when its component has
  reached the state, and the results are bounded by the flags.  It is stated on the values it
  speaks of: the two states, the four flags and the numbers of Greens and Reds reported.
\<close>

definition dl_rel ::
    "dl_state \<Rightarrow> dl_state \<Rightarrow> bool \<Rightarrow> bool \<Rightarrow> bool \<Rightarrow> bool \<Rightarrow> nat \<Rightarrow> nat \<Rightarrow> bool" where
  "dl_rel e r f0 f1 f2 f3 g n \<longleftrightarrow>
     (f0 \<longrightarrow> e \<noteq> DL_None) \<and> (f1 \<longleftrightarrow> e = Red) \<and> (e = Green \<longrightarrow> f0) \<and>
     (f2 \<longrightarrow> r \<noteq> DL_None) \<and> (f3 \<longleftrightarrow> r = Red) \<and> (r = Green \<longrightarrow> f2) \<and>
     g \<le> of_bool f0 + of_bool f2 \<and> n \<le> of_bool (f1 \<and> f2) + of_bool f3 \<and>
     (f1 \<and> f2 \<or> f3 \<longrightarrow> 0 < n)"

lemma dl_rel_EG: "dl_rel DL_None r f0 f1 f2 f3 g n \<Longrightarrow> \<not> f0 \<and> dl_rel Green r True f1 f2 f3 (Suc g) n"
  by (auto simp: dl_rel_def)

lemma dl_rel_ER: "dl_rel e r f0 f1 f2 f3 g n \<Longrightarrow> e \<noteq> Red \<Longrightarrow>
    \<not> f1 \<and> dl_rel Red r f0 True f2 f3 g (n + of_bool f2)"
  by (cases f2; cases f0) (auto simp: dl_rel_def)

lemma dl_rel_DG: "dl_rel e DL_None f0 f1 f2 f3 g n \<Longrightarrow>
    \<not> f2 \<and> dl_rel e Green f0 f1 True f3 (g + of_bool (\<not> f1)) (n + of_bool f1)"
  by (cases f1; cases f0) (auto simp: dl_rel_def)

lemma dl_rel_DR: "dl_rel e r f0 f1 f2 f3 g n \<Longrightarrow> r \<noteq> Red \<Longrightarrow>
    \<not> f3 \<and> dl_rel e Red f0 f1 f2 True g (Suc n)"
  by (cases f1; cases f2) (auto simp: dl_rel_def)

lemma dl_rel_bounds: "dl_rel e r f0 f1 f2 f3 g n \<Longrightarrow> g \<le> 2 \<and> n \<le> 2"
  unfolding dl_rel_def by (cases f0; cases f1; cases f2; cases f3) simp_all

definition dl_inv :: "dl_state list \<Rightarrow> data_limit \<Rightarrow> bool" where
  "dl_inv rs d \<longleftrightarrow> dl_rel (c_state (dl_encrypt d)) (c_state (dl_decrypt d))
     (fl d 0) (fl d 1) (fl d 2) (fl d 3) (count_list rs Green) (count_list rs Red)"

lemma fl_set_fields [simp]: "fl (d\<lparr>dl_encrypt := c\<rparr>) k = fl d k" "fl (d\<lparr>dl_decrypt := c\<rparr>) k = fl d k"
  "fl (d\<lparr>dl_encrypt := c, dl_flags := w\<rparr>) k = fl (d\<lparr>dl_flags := w\<rparr>) k"
  "fl (d\<lparr>dl_decrypt := c, dl_flags := w\<rparr>) k = fl (d\<lparr>dl_flags := w\<rparr>) k"
  by (simp_all add: fl_def)

lemma fl_set_component [simp]: "fl (dl_set_component md c d) k = fl d k"
  by (cases md) (simp_all add: fl_def)

lemma dl_inv_new: "dl_inv [] (dl_new e r)"
  by (simp add: dl_inv_def dl_rel_def dl_new_def comp_new_def fl_def)

text \<open>What one report of \<open>elgible\<close> does to the invariant, per mode and state entered.\<close>

lemma dl_inv_enter:
  assumes inv: "dl_inv rs d" and up: "state_int new > state_int (c_state (dl_component md d))"
    and r: "dl_elgible md new (dl_set_component md c d) = (res, d')" and c: "c_state c = new"
  shows "dl_inv (rs @ [res]) d'"
proof -
  note inv = inv [unfolded dl_inv_def]
  consider "md = Encrypt" "new = Green" | "md = Encrypt" "new = Red"
    | "md = Decrypt" "new = Green" | "md = Decrypt" "new = Red"
    using up by (cases md; cases new) auto
  then show ?thesis
  proof cases
    case 1
    then have "c_state (dl_encrypt d) = DL_None" using up by (cases "c_state (dl_encrypt d)") auto
    then have "\<not> fl d 0 \<and> dl_rel Green (c_state (dl_decrypt d)) True (fl d 1) (fl d 2) (fl d 3)
        (Suc (count_list rs Green)) (count_list rs Red)"
      using inv by (intro dl_rel_EG) simp
    with 1 show ?thesis using r c
      by (auto simp: elgible_EG dl_inv_def fl_or split: if_splits)
  next
    case 2
    then have "c_state (dl_encrypt d) \<noteq> Red" using up by auto
    from dl_rel_ER [OF inv this] 2 show ?thesis using r c
      by (cases "fl d 2") (auto simp: elgible_ER dl_inv_def fl_or split: if_splits)
  next
    case 3
    then have "c_state (dl_decrypt d) = DL_None" using up by (cases "c_state (dl_decrypt d)") auto
    then have "\<not> fl d 2 \<and> dl_rel (c_state (dl_encrypt d)) Green (fl d 0) (fl d 1) True (fl d 3)
        (count_list rs Green + of_bool (\<not> fl d 1)) (count_list rs Red + of_bool (fl d 1))"
      using inv by (intro dl_rel_DG) simp
    with 3 show ?thesis using r c
      by (cases "fl d 1") (auto simp: elgible_DG dl_inv_def fl_or split: if_splits)
  next
    case 4
    then have "c_state (dl_decrypt d) \<noteq> Red" using up by auto
    from dl_rel_DR [OF inv this] 4 show ?thesis using r c
      by (auto simp: elgible_DR dl_inv_def fl_or split: if_splits)
  qed
qed

text \<open>A component moves to \<open>newstate\<close> or stays; other fields of it do not matter.\<close>

lemma dl_inv_step:
  assumes inv: "dl_inv rs d"
    and c: "(st, c') = comp_update_state newstate c" "c_state c = c_state (dl_component md d)"
    and r: "dl_elgible md st (dl_set_component md c' d) = (res, d')"
  shows "dl_inv (rs @ [res]) d'"
proof (cases "state_int newstate > state_int (c_state c)")
  case False
  then have "st = DL_None" "c' = c" using c(1) by (auto simp: comp_update_state_def)
  then have "d' = dl_set_component md c d" "res = DL_None" using r by (auto simp: elgible_None)
  then show ?thesis using inv c(2) by (cases md) (auto simp: dl_inv_def fl_def)
next
  case True
  then have st: "st = newstate" "c' = c\<lparr>c_state := newstate\<rparr>"
    using c(1) by (auto simp: comp_update_state_def)
  show ?thesis using True c(2) r st by (intro dl_inv_enter [OF inv, where new = newstate and md = md and c = c']) simp_all
qed

lemma dl_inv_exec:
  assumes "dl_inv rs d" and "dl_exec call d = (res, d')"
  shows "dl_inv (rs @ [res]) d'"
proof (cases call)
  case (Add_call md n)
  let ?c = "(dl_component md d)\<lparr>c_bytes := c_bytes (dl_component md d) + n\<rparr>"
  obtain st c' where u: "comp_update_state (comp_transition (c_state ?c) ?c) ?c = (st, c')"
    by (cases "comp_update_state (comp_transition (c_state ?c) ?c) ?c")
  have "dl_elgible md st (dl_set_component md c' d) = (res, d')"
    using assms(2) u by (simp add: Add_call dl_add_def comp_add_def Let_def)
  then show ?thesis by (intro dl_inv_step [OF assms(1) u [symmetric]]) simp_all
next
  case (Update_call md new)
  obtain st c' where u: "comp_update_state new (dl_component md d) = (st, c')"
    by (cases "comp_update_state new (dl_component md d)")
  have "dl_elgible md st (dl_set_component md c' d) = (res, d')"
    using assms(2) u by (simp add: Update_call dl_update_state_def)
  then show ?thesis by (intro dl_inv_step [OF assms(1) u [symmetric]]) simp_all
qed

lemma dl_inv_run: "dl_inv rs d \<Longrightarrow> dl_run calls d = (sts, d') \<Longrightarrow> dl_inv (rs @ sts) d'"
proof (induction calls arbitrary: rs d sts)
  case (Cons call calls)
  obtain st d1 where e: "dl_exec call d = (st, d1)" by (cases "dl_exec call d")
  obtain sts' where "dl_run calls d1 = (sts', d')" "sts = st # sts'"
    using Cons(3) e by (auto split: prod.splits)
  then show ?case using Cons(1) [OF dl_inv_exec [OF Cons(2) e]] by simp
qed simp

section \<open>Properties\<close>

text \<open>
  C23. Invariant: whatever bytes are counted and states forced, in any order, a Red is never
  reported before decryption has been Green; it has been reported once encryption is Red and
  decryption Green; and no run reports more than two Greens and two Reds.
\<close>

theorem data_limit_reports:
  assumes "dl_run calls (dl_new elim dlim) = (sts, d)"
  shows "(Red \<in> set sts \<longrightarrow> dl_is_decrypt_green d)
    \<and> (c_state (dl_encrypt d) = Red \<and> dl_is_decrypt_green d \<longrightarrow> Red \<in> set sts)
    \<and> count_list sts Red \<le> 2 \<and> count_list sts Green \<le> 2"
proof -
  have inv: "dl_rel (c_state (dl_encrypt d)) (c_state (dl_decrypt d)) (fl d 0) (fl d 1) (fl d 2)
      (fl d 3) (count_list sts Green) (count_list sts Red)"
    using dl_inv_run [OF dl_inv_new assms] by (simp add: dl_inv_def)
  have g: "dl_is_decrypt_green d \<longleftrightarrow> c_state (dl_decrypt d) \<noteq> DL_None"
    by (cases "c_state (dl_decrypt d)") (simp_all add: dl_is_decrypt_green_def)
  have n: "Red \<in> set sts \<longleftrightarrow> 0 < count_list sts Red" by (metis count_list_0_iff gr0I less_numeral_extra(3))
  have "0 < count_list sts Red \<Longrightarrow> fl d 2 \<or> fl d 3" using inv unfolding dl_rel_def by (auto intro: ccontr)
  then show ?thesis
    using dl_rel_bounds [OF inv] inv unfolding g n dl_rel_def by (cases "c_state (dl_decrypt d)") auto
qed

theorem data_limit_reports_witness:
  "\<exists>d. dl_run [Add_call Encrypt 5, Add_call Encrypt 90, Add_call Decrypt 1] (dl_new 64 0)
       = ([Green, DL_None, Red], d) \<and> dl_is_decrypt_green d"
proof -
  obtain sts d where r: "dl_run [Add_call Encrypt 5, Add_call Encrypt 90, Add_call Decrypt 1]
      (dl_new 64 0) = (sts, d)"
    by (meson surj_pair)
  then have "sts = [Green, DL_None, Red]"
    by (auto simp: dl_add_def comp_add_def comp_update_state_def comp_transition_def Let_def
        dl_new_def comp_new_def dl_elgible_def ER_def DG_def)
  with r data_limit_reports [OF r] show ?thesis by auto
qed

end
