(* ===== verification/Psid.thy ===== *)
theory Psid
  imports Buffers HexCodec
begin

text \<open>
  The session ID of a peer (\<open>ProtoSessionID\<close>, \<open>ssl/psid.hpp\<close>) and the constant-time comparison it
  is matched with (\<open>common/memneq.hpp\<close>), in the variants the header selects by architecture.  An
  area of memory is its address and its bytes; words are loaded in little-endian order, the order
  of the package's platforms.
\<close>

section \<open>Constant-time comparison\<close>

text \<open>\<open>Other\<close> is the portable variant; OpenSSL's own comparison on 32-bit ARM is left out.\<close>

datatype arch = X86_64 | Arm32 | Other

definition is_aligned :: "nat \<Rightarrow> nat \<Rightarrow> bool" where
  "is_aligned n addr \<longleftrightarrow> (of_nat addr :: u64) AND (of_nat n - 1) = 0"

definition memneq_deref_ok :: "bool \<Rightarrow> nat \<Rightarrow> nat \<Rightarrow> nat \<Rightarrow> bool" where
  "memneq_deref_ok unaligned_ok n a b \<longleftrightarrow> unaligned_ok \<or> (is_aligned n a \<or> is_aligned n b)"

text \<open>The two loops; the type of the accumulator is \<open>memneq_t\<close>.\<close>

function memneq_words ::
    "'a::len word \<Rightarrow> nat \<Rightarrow> u8 list \<Rightarrow> u8 list \<Rightarrow> 'a word \<times> nat \<times> u8 list \<times> u8 list" where
  "memneq_words neq sz a b =
     (let n = LENGTH('a) div 8 in
      if 0 < n \<and> n \<le> sz then
        memneq_words (neq OR (word_rcat (rev (take n a)) XOR word_rcat (rev (take n b))))
          (sz - n) (drop n a) (drop n b)
      else (neq, sz, a, b))"
  by pat_completeness auto
termination
  by (relation "measure (\<lambda>(neq, sz, a, b). sz)") auto

declare memneq_words.simps [simp del]

fun memneq_bytes :: "'a::len word \<Rightarrow> nat \<Rightarrow> u8 list \<Rightarrow> u8 list \<Rightarrow> 'a word" where
  "memneq_bytes neq (Suc n) (x # a) (y # b) = memneq_bytes (neq OR ucast (x XOR y)) n a b"
| "memneq_bytes neq _ _ _ = neq"

definition memneq_in ::
    "'a::len word \<Rightarrow> bool \<Rightarrow> nat \<times> u8 list \<Rightarrow> nat \<times> u8 list \<Rightarrow> nat \<Rightarrow> bool" where
  "memneq_in zero unaligned_ok a b sz =
     (let (neq, sz, p, q) =
        (if memneq_deref_ok unaligned_ok (LENGTH('a) div 8) (fst a) (fst b)
         then memneq_words zero sz (snd a) (snd b) else (zero, sz, snd a, snd b)) in
      memneq_bytes neq sz p q \<noteq> 0)"

fun memneq :: "arch \<Rightarrow> nat \<times> u8 list \<Rightarrow> nat \<times> u8 list \<Rightarrow> nat \<Rightarrow> bool" where
  "memneq X86_64 a b sz = memneq_in (0 :: u64) True a b sz"
| "memneq Other a b sz = memneq_in (0 :: u32) False a b sz"
| "memneq Arm32 a b sz = (memneq_bytes (0 :: u8) sz (snd a) (snd b) \<noteq> 0)"

section \<open>The session ID\<close>

definition PSID_SIZE :: nat where "PSID_SIZE = 8"

record psid =
  psid_defined :: bool
  psid_id :: "u8 list"

definition psid_reset :: psid where
  "psid_reset = \<lparr>psid_defined = False, psid_id = replicate PSID_SIZE 0\<rparr>"

definition psid_of_buffer :: "buffer \<Rightarrow> (psid \<times> buffer) res" where
  "psid_of_buffer b =
     bindE (buf_read PSID_SIZE b) (\<lambda>(d, b). Inr (\<lparr>psid_defined = True, psid_id = d\<rparr>, b))"

text \<open>\<open>assert_crypto\<close> and \<open>rand_bytes\<close> of the random number generator are parameters.\<close>

definition psid_randomize ::
    "('r \<Rightarrow> unit res) \<Rightarrow> (nat \<Rightarrow> 'r \<Rightarrow> u8 list \<times> 'r) \<Rightarrow> 'r \<Rightarrow> psid \<Rightarrow> (psid \<times> 'r) res" where
  "psid_randomize assert_crypto rand_bytes r p =
     bindE (assert_crypto r) (\<lambda>_. let (d, r) = rand_bytes PSID_SIZE r in
       Inr (p\<lparr>psid_id := d, psid_defined := True\<rparr>, r))"

definition psid_read :: "buffer \<Rightarrow> psid \<Rightarrow> (psid \<times> buffer) res" where
  "psid_read b p =
     bindE (buf_read PSID_SIZE b) (\<lambda>(d, b). Inr (p\<lparr>psid_id := d, psid_defined := True\<rparr>, b))"

definition psid_write :: "psid \<Rightarrow> buffer \<Rightarrow> buffer res" where
  "psid_write p b = buf_write (psid_id p) b"

definition psid_prepend :: "psid \<Rightarrow> buffer \<Rightarrow> buffer res" where
  "psid_prepend p b = buf_prepend (psid_id p) b"

text \<open>\<open>pa\<close> and \<open>pb\<close> are the addresses of the two \<open>id_\<close> members.\<close>

definition psid_match :: "arch \<Rightarrow> nat \<Rightarrow> nat \<Rightarrow> psid \<Rightarrow> psid \<Rightarrow> bool" where
  "psid_match ar pa pb p q \<longleftrightarrow> psid_defined p \<and> psid_defined q
     \<and> \<not> memneq ar (pa, psid_id p) (pb, psid_id q) PSID_SIZE"

definition psid_str :: "psid \<Rightarrow> string" where
  "psid_str p = render_hex (Some (psid_id p)) False"

definition psid_wf :: "psid \<Rightarrow> bool" where
  "psid_wf p \<longleftrightarrow> length (psid_id p) = PSID_SIZE"

section \<open>The comparison is exact\<close>

lemma or_xor_eq_0: "(w OR (x XOR y) = 0) = (w = 0 \<and> x = (y :: 'a::len word))"
proof -
  have "x XOR y = 0 \<longleftrightarrow> x = y"
  proof
    assume "x XOR y = 0"
    then have "(x XOR y) XOR y = y" by simp
    then show "x = y" by (simp add: xor.assoc)
  qed simp
  then show ?thesis by (simp add: or_eq_0_iff)
qed

lemma bit_rcat: "n < LENGTH('a) \<Longrightarrow> bit (word_rcat (rev ws) :: 'a::len word) n
    \<longleftrightarrow> n div 8 < length ws \<and> bit ((ws :: u8 list) ! (n div 8)) (n mod 8)"
  by (simp add: word_rcat_def bit_word_of_int_iff
      bit_horner_sum_uint_exp_iff [where 'a = 8, simplified])

lemma ucast_xor_eq_0:
  assumes "8 \<le> LENGTH('a)"
  shows "(ucast (x XOR y) :: 'a::len word) = 0 \<longleftrightarrow> x = (y :: u8)"
proof
  assume z: "(ucast (x XOR y) :: 'a word) = 0"
  show "x = y"
  proof (rule bit_word_eqI)
    fix k assume k: "k < LENGTH(8)"
    have "\<not> bit (ucast (x XOR y) :: 'a word) k" unfolding z by simp
    then show "bit x k = bit y k" using k assms by (auto simp: bit_ucast_iff bit_xor_iff)
  qed
qed simp

lemma memneq_bytes_eq_0:
  assumes "8 \<le> LENGTH('a)" and "length a = n" and "length b = n"
  shows "memneq_bytes (w :: 'a::len word) n a b = 0 \<longleftrightarrow> w = 0 \<and> a = b"
  using assms(2,3)
proof (induction n arbitrary: w a b)
  case (Suc n)
  then obtain x a' y b' where l: "a = x # a'" "b = y # b'" by (metis length_Suc_conv)
  show ?case using Suc ucast_xor_eq_0 [OF assms(1), of x y] by (auto simp: l or_eq_0_iff)
qed simp

lemma rcat_inj:
  assumes "length a = LENGTH('a) div 8" and "length b = LENGTH('a) div 8" and "8 dvd LENGTH('a)"
    and "(word_rcat (rev a) :: 'a::len word) = word_rcat (rev (b :: u8 list))"
  shows "a = b"
proof (rule nth_equalityI)
  fix i assume i: "i < length a"
  show "a ! i = b ! i"
  proof (rule bit_word_eqI)
    fix k assume k: "k < LENGTH(8)"
    have "bit (word_rcat (rev a) :: 'a word) (8 * i + k) = bit (word_rcat (rev b) :: 'a word) (8 * i + k)"
      using assms(4) by simp
    moreover have "8 * i + k < LENGTH('a)" using i k assms(1,3) by auto
    ultimately show "bit (a ! i) k = bit (b ! i) k"
      using i k assms(1,2) by (simp add: bit_rcat)
  qed
qed (use assms in simp)

lemma memneq_words_eq:
  assumes "8 dvd LENGTH('a)"
  shows "length a = sz \<Longrightarrow> length b = sz \<Longrightarrow>
    \<exists>w' sz' a' b'. memneq_words (w :: 'a::len word) sz a b = (w', sz', a', b')
      \<and> length a' = sz' \<and> length b' = sz' \<and> (w' = 0 \<and> a' = b' \<longleftrightarrow> w = 0 \<and> a = b)"
proof (induction w sz a b rule: memneq_words.induct)
  case (1 w sz a b)
  let ?n = "LENGTH('a) div 8"
  show ?case
  proof (cases "0 < ?n \<and> ?n \<le> sz")
    case True
    let ?w = "w OR (word_rcat (rev (take ?n a)) XOR word_rcat (rev (take ?n b)))"
    have "take ?n a = take ?n b"
      if "(word_rcat (rev (take ?n a)) :: 'a word) = word_rcat (rev (take ?n b))"
      using that True 1(2,3) assms by (intro rcat_inj [where 'a = 'a]) auto
    then have "(?w = 0 \<and> drop ?n a = drop ?n b) = (w = 0 \<and> a = b)"
      unfolding or_xor_eq_0 by (metis append_take_drop_id)
    moreover have "memneq_words w sz a b = memneq_words ?w (sz - ?n) (drop ?n a) (drop ?n b)"
      using True by (simp add: memneq_words.simps [of w] Let_def)
    ultimately show ?thesis using 1(1) [OF refl True] 1(2,3) by simp
  next
    case False
    then have "memneq_words w sz a b = (w, sz, a, b)"
      by (subst memneq_words.simps) (auto simp: Let_def)
    then show ?thesis using 1(2,3) by simp
  qed
qed

lemma memneq_in_iff:
  assumes "8 dvd LENGTH('a)" and "length a = sz" and "length b = sz"
  shows "memneq_in (0 :: 'a::len word) un (pa, a) (pb, b) sz \<longleftrightarrow> a \<noteq> b"
proof -
  have l8: "8 \<le> LENGTH('a)" using assms(1) by (simp add: dvd_imp_le)
  obtain w' sz' a' b' where w: "memneq_words (0 :: 'a word) sz a b = (w', sz', a', b')"
    "length a' = sz'" "length b' = sz'" "(w' = 0 \<and> a' = b') = (a = b)"
    using memneq_words_eq [OF assms, where w = 0] by auto
  show ?thesis
    using memneq_bytes_eq_0 [OF l8 w(2,3), of w'] memneq_bytes_eq_0 [OF l8 assms(2,3), of 0] w
    by (simp add: memneq_in_def)
qed

lemma memneq_iff:
  "length a = sz \<Longrightarrow> length b = sz \<Longrightarrow> memneq ar (pa, a) (pb, b) sz \<longleftrightarrow> a \<noteq> b"
  by (cases ar) (simp_all add: memneq_in_iff memneq_bytes_eq_0)

text \<open>
  The guard in front of the word loop lets through pairs of which one is not aligned, although
  the loop loads words from both.
\<close>

lemma memneq_deref_ok_one_unaligned:
  "memneq_deref_ok False 4 1024 1025 \<and> \<not> is_aligned 4 1025"
  by (simp add: memneq_deref_ok_def is_aligned_def)

section \<open>Properties\<close>



end
