(* ===== verification/Base64.thy ===== *)
theory Base64
  imports Prelude
begin

text \<open>
  \<open>Base64\<close> of \<open>common/base64.hpp\<close>: the encoding and decoding maps built for an alphabet, encoding,
  decoding into a growing container or a bounded region, and the syntax check.  Text is the list
  of its bytes; \<open>char\<close> is signed, as on the platforms of the package, so that a byte above 127
  never equals the padding byte.
\<close>

section \<open>The maps\<close>

record base64 =
  b64_enc :: "u8 list"
  b64_dec :: "u8 list"
  b64_equal :: u8

text \<open>\<open>enc_loop n j\<close> lists the values \<open>enc[62-n..61]\<close>.\<close>

fun enc_loop :: "nat \<Rightarrow> u32 \<Rightarrow> u8 list" where
  "enc_loop 0 j = []"
| "enc_loop (Suc n) j =
     ucast j # enc_loop n (let j = j + 1 in if j = 91 then 97 else if j = 123 then 48 else j)"

fun dec_loop :: "u8 list \<Rightarrow> nat \<Rightarrow> u8 list \<Rightarrow> u8 list res" where
  "dec_loop [] i dec = Inr dec"
| "dec_loop (c # cs) i dec =
     (if c \<ge> 128 then Inl base64_bad_map else dec_loop cs (Suc i) (dec[unat c := of_nat i]))"

definition strlen :: "u8 list \<Rightarrow> nat" where
  "strlen s = length (takeWhile (\<lambda>c. c \<noteq> 0) s)"

definition base64_new :: "u8 list option \<Rightarrow> base64 res" where
  "base64_new altmap =
     (let alt = (case altmap of None \<Rightarrow> [43, 47, 61] | Some a \<Rightarrow> a) in
      if strlen alt \<noteq> 3 then Inl base64_bad_map
      else let enc = enc_loop 62 65 @ [alt ! 0, alt ! 1] in
        bindE (dec_loop enc 0 (replicate 128 0xFF)) (\<lambda>dec.
          Inr \<lparr>b64_enc = enc, b64_dec = dec, b64_equal = alt ! 2\<rparr>))"

section \<open>Encoding\<close>

definition encode_size_max :: "nat \<Rightarrow> nat" where
  "encode_size_max n = sz_add (sz_mul n 4 div 3) 4"

definition decode_size_max :: "nat \<Rightarrow> nat" where
  "decode_size_max n = n"

function encode_loop :: "base64 \<Rightarrow> u8 list \<Rightarrow> nat \<Rightarrow> u8 list" where
  "encode_loop B data i =
     (if i < length data then
        let sz = length data;
            c = push_bit 8 (ucast (data ! i)) :: u32;
            c = (if i + 1 < sz then c + ucast (data ! (i + 1)) else c);
            c = push_bit 8 c;
            c = (if i + 2 < sz then c + ucast (data ! (i + 2)) else c);
            e = (\<lambda>w. b64_enc B ! unat (w :: u32)) in
        [e (drop_bit 18 (c AND 0x00fc0000)), e (drop_bit 12 (c AND 0x0003f000)),
         (if i + 3 > sz + 1 then b64_equal B else e (drop_bit 6 (c AND 0x00000fc0))),
         (if i + 3 > sz then b64_equal B else e (c AND 0x0000003f))] @ encode_loop B data (i + 3)
      else [])"
  by pat_completeness auto
termination
  by (relation "measure (\<lambda>(B, data, i). length data - i)") auto

declare encode_loop.simps [simp del]

text \<open>The result is the C string in the scratch array.\<close>

definition b64_encode :: "base64 \<Rightarrow> u8 list \<Rightarrow> u8 list" where
  "b64_encode B data = takeWhile (\<lambda>c. c \<noteq> 0) (encode_loop B data 0)"

section \<open>Decoding\<close>

definition is_base64_char :: "base64 \<Rightarrow> u8 \<Rightarrow> bool" where
  "is_base64_char B c \<longleftrightarrow> c < 128 \<and> b64_dec B ! unat c \<noteq> 0xFF"

definition decode_base64_char :: "base64 \<Rightarrow> u8 \<Rightarrow> u32 res" where
  "decode_base64_char B c =
     (if c \<ge> 128 then Inl base64_decode_error
      else if b64_dec B ! unat c = 0xFF then Inl base64_decode_error
      else Inr (ucast (b64_dec B ! unat c)))"

definition char_is_equal :: "base64 \<Rightarrow> u8 \<Rightarrow> bool" where
  "char_is_equal B c \<longleftrightarrow> c < 128 \<and> c = b64_equal B"

fun token_loop :: "base64 \<Rightarrow> u8 list \<Rightarrow> u32 \<Rightarrow> u32 \<Rightarrow> (u32 \<times> u32) res" where
  "token_loop B [] val marker = Inr (val, marker)"
| "token_loop B (c # cs) val marker =
     (let val = push_bit 6 val in
      if char_is_equal B c then token_loop B cs val (marker + 1)
      else if marker > 0 then Inl base64_decode_error
      else bindE (decode_base64_char B c) (\<lambda>v. token_loop B cs (val + v) marker))"

definition token_decode :: "base64 \<Rightarrow> u8 list \<Rightarrow> (u32 \<times> u32) res" where
  "token_decode B token =
     (if length token < 4 then Inl base64_decode_error
      else bindE (token_loop B (take 4 token) 0 0) (\<lambda>(val, marker).
        if marker > 2 then Inl base64_decode_error else Inr (val, marker)))"

text \<open>\<open>push_back\<close> of the container: a vector, or \<open>UCharWrap\<close> over a region of \<open>n\<close> bytes.\<close>

fun b64_push :: "nat option \<Rightarrow> u8 \<Rightarrow> unit res \<times> u8 list \<Rightarrow> unit res \<times> u8 list" where
  "b64_push cap x (Inl e, dest) = (Inl e, dest)"
| "b64_push None x (Inr u, dest) = (Inr u, dest @ [x])"
| "b64_push (Some n) x (Inr u, dest) =
     (if length dest \<ge> n then (Inl base64_decode_out_of_bound_error, dest)
      else (Inr u, dest @ [x]))"

function b64_decode :: "base64 \<Rightarrow> nat option \<Rightarrow> u8 list \<Rightarrow> u8 list \<Rightarrow> unit res \<times> u8 list" where
  "b64_decode B cap dest str =
     (if str = [] then (Inr (), dest)
      else case token_decode B (take 4 str) of
        Inl e \<Rightarrow> (Inl e, dest)
      | Inr (val, marker) \<Rightarrow>
          let r = b64_push cap (ucast (drop_bit 16 val AND 0xff)) (Inr (), dest);
              r = (if marker < 2 then b64_push cap (ucast (drop_bit 8 val AND 0xff)) r else r);
              r = (if marker < 1 then b64_push cap (ucast (val AND 0xff)) r else r) in
          case r of (Inl e, dest) \<Rightarrow> (Inl e, dest)
          | (Inr u, dest) \<Rightarrow> b64_decode B cap dest (drop 4 str))"
  by pat_completeness auto
termination
  by (relation "measure (\<lambda>(B, cap, dest, str). length str)") auto

declare b64_decode.simps [simp del]

section \<open>The syntax check\<close>

definition encoded_len :: "nat \<Rightarrow> nat" where
  "encoded_len n = unat ((of_nat (sz_add (sz_mul n 4 div 3) 3) :: u64) AND NOT 3)"

definition num_eq :: "nat \<Rightarrow> nat" where
  "num_eq n = sz_sub (SZ - 1) n mod 3"

definition is_base64 :: "base64 \<Rightarrow> u8 list \<Rightarrow> nat \<Rightarrow> bool" where
  "is_base64 B data n \<longleftrightarrow>
     (let sz = length data; eq_begin = sz_sub sz (num_eq n) in
      sz = encoded_len n
      \<and> list_all (\<lambda>i. if i < eq_begin then is_base64_char B (data ! i)
                        else char_is_equal B (data ! i)) [0..<sz])"

section \<open>Groups of three bytes\<close>

text \<open>The reference: a group is a number below 2^24, written with four digits of base 64.\<close>

definition group :: "u8 \<Rightarrow> u8 \<Rightarrow> u8 \<Rightarrow> nat" where
  "group a b c = unat a * 65536 + unat b * 256 + unat c"

definition digit :: "base64 \<Rightarrow> nat \<Rightarrow> nat \<Rightarrow> u8" where
  "digit B k n = b64_enc B ! (n div 64 ^ k mod 64)"

fun encode_ref :: "base64 \<Rightarrow> u8 list \<Rightarrow> u8 list" where
  "encode_ref B [] = []"
| "encode_ref B [a] =
     [digit B 3 (group a 0 0), digit B 2 (group a 0 0), b64_equal B, b64_equal B]"
| "encode_ref B [a, b] =
     [digit B 3 (group a b 0), digit B 2 (group a b 0), digit B 1 (group a b 0), b64_equal B]"
| "encode_ref B (a # b # c # d) =
     [digit B 3 (group a b c), digit B 2 (group a b c), digit B 1 (group a b c),
      digit B 0 (group a b c)] @ encode_ref B d"

lemma unat_u8_less: "unat (x :: u8) < 256"
proof -
  have "unat x < 2 ^ LENGTH(8)" by (rule unsigned_less)
  then show ?thesis by simp
qed

lemma group_less: "group a b c < 2 ^ 24"
  using unat_u8_less [of a] unat_u8_less [of b] unat_u8_less [of c] by (simp add: group_def)

lemma group_word:
  "push_bit 8 (push_bit 8 (ucast a) + ucast b) + ucast c = (of_nat (group a b c) :: u32)"
  by (simp add: group_def push_bit_eq_mult algebra_simps unsigned_ucast_eq)

lemma masked_digit:
  "drop_bit k (w AND push_bit k (mask 6)) = take_bit 6 (drop_bit k (w :: u32))"
  by (rule bit_word_eqI) (auto simp: bit_simps dest: bit_imp_le_length)

lemma unat_digit: "unat (take_bit 6 (drop_bit k (w :: u32))) = unat w div 2 ^ k mod 64"
proof -
  have "unat (take_bit 6 (drop_bit k w)) = take_bit 6 (unat (drop_bit k w))"
    by (rule unsigned_take_bit_eq)
  also have "\<dots> = unat (drop_bit k w) mod 2 ^ 6" by (rule take_bit_eq_mod)
  also have "unat (drop_bit k w) = drop_bit k (unat w)" by (rule unat_drop_bit_eq)
  also have "\<dots> = unat w div 2 ^ k" by (rule drop_bit_eq_div)
  finally show ?thesis by simp
qed

lemma unat_group: "unat (of_nat (group a b c) :: u32) = group a b c"
  using group_less [of a b c] by (simp add: unat_of_nat)

lemma group_digits:
  fixes a b c
  defines "w \<equiv> of_nat (group a b c) :: u32"
  shows "b64_enc B ! unat (drop_bit 18 (w AND 0x00fc0000)) = digit B 3 (group a b c)"
    and "b64_enc B ! unat (drop_bit 12 (w AND 0x0003f000)) = digit B 2 (group a b c)"
    and "b64_enc B ! unat (drop_bit 6 (w AND 0x00000fc0)) = digit B 1 (group a b c)"
    and "b64_enc B ! unat (w AND 0x0000003f) = digit B 0 (group a b c)"
proof -
  have m: "(0x00fc0000 :: u32) = push_bit 18 (mask 6)" "(0x0003f000 :: u32) = push_bit 12 (mask 6)"
    "(0x00000fc0 :: u32) = push_bit 6 (mask 6)" "(0x0000003f :: u32) = push_bit 0 (mask 6)"
    by (simp_all add: mask_eq_exp_minus_1)
  show "b64_enc B ! unat (drop_bit 18 (w AND 0x00fc0000)) = digit B 3 (group a b c)"
    "b64_enc B ! unat (drop_bit 12 (w AND 0x0003f000)) = digit B 2 (group a b c)"
    "b64_enc B ! unat (drop_bit 6 (w AND 0x00000fc0)) = digit B 1 (group a b c)"
    unfolding m masked_digit unat_digit w_def unat_group digit_def by simp_all
  show "b64_enc B ! unat (w AND 0x0000003f) = digit B 0 (group a b c)"
    using masked_digit [of 0 w] unat_digit [of 0 w] unfolding m(4) w_def
    by (simp add: digit_def unat_group)
qed

lemma encode_loop_ref: "encode_loop B data i = encode_ref B (drop i data)"
proof (induction B data i rule: encode_loop.induct)
  case (1 B data i)
  note step = encode_loop.simps [of B data i]
  consider "length data \<le> i" | a where "drop i data = [a]" | a b where "drop i data = [a, b]"
    | a b c r where "drop i data = a # b # c # r"
    by (metis drop_eq_Nil neq_Nil_conv)
  then show ?case
  proof cases
    case 1
    then show ?thesis by (simp add: step)
  next
    case (2 a)
    then have "length (drop i data) = 1" by simp
    then have l: "length data = i + 1" by simp
    have n: "data ! i = a" using 2 l by (metis hd_drop_conv_nth less_add_one list.sel(1))
    show ?thesis
      using group_digits [of B a 0 0] group_word [of a 0 0]
      by (simp add: step l n 2 Let_def encode_loop.simps [of B data "i + 3"])
  next
    case (3 a b)
    then have "length (drop i data) = 2" by simp
    then have l: "length data = i + 2" by simp
    have n: "data ! i = a" "data ! (i + 1) = b"
      using arg_cong [OF 3, of "\<lambda>x. x ! 0"] arg_cong [OF 3, of "\<lambda>x. x ! 1"] l by simp_all
    show ?thesis
      using group_digits [of B a b 0] group_word [of a b 0]
      by (simp add: step l n [simplified] 3 Let_def encode_loop.simps [of B data "i + 3"])
  next
    case (4 a b c r)
    then have "length (drop i data) = 3 + length r" by simp
    then have l: "i + 2 < length data" by simp
    have n: "data ! i = a" "data ! (i + 1) = b" "data ! (i + 2) = c"
      using arg_cong [OF 4, of "\<lambda>x. x ! 0"] arg_cong [OF 4, of "\<lambda>x. x ! 1"]
        arg_cong [OF 4, of "\<lambda>x. x ! 2"] l by simp_all
    have d: "drop (i + 3) data = r"
      using arg_cong [OF 4, of "drop 3"] by (simp add: add.commute)
    have "encode_loop B data (i + 3) = encode_ref B r"
      using 1 [OF _ refl refl refl refl refl refl] l d by (simp add: 1)
    then show ?thesis
      using group_digits [of B a b c] group_word [of a b c] l
      by (simp add: step n [simplified] 4 Let_def)
  qed
qed

section \<open>The alphabet\<close>

definition b64_ok :: "base64 \<Rightarrow> bool" where
  "b64_ok B \<longleftrightarrow> (\<forall>k<64. b64_enc B ! k < 128 \<and> b64_enc B ! k \<noteq> 0 \<and> b64_enc B ! k \<noteq> b64_equal B
       \<and> b64_dec B ! unat (b64_enc B ! k) = of_nat k)
     \<and> b64_equal B < 128 \<and> b64_equal B \<noteq> 0"

lemma enc_loop_62: "enc_loop 62 65 =
   [65, 66, 67, 68, 69, 70, 71, 72, 73, 74, 75, 76, 77, 78, 79, 80, 81, 82, 83, 84, 85, 86, 87, 88,
    89, 90, 97, 98, 99, 100, 101, 102, 103, 104, 105, 106, 107, 108, 109, 110, 111, 112, 113, 114,
    115, 116, 117, 118, 119, 120, 121, 122, 48, 49, 50, 51, 52, 53, 54, 55, 56, 57]"
  by code_simp

lemma dec_loop_ok:
  assumes "dec_loop cs i dec = Inr dec'" and "distinct cs" and "length dec = 128"
  shows "(\<forall>c\<in>set cs. c < 128) \<and> (\<forall>k<length cs. dec' ! unat (cs ! k) = of_nat (i + k))
    \<and> (\<forall>x<128. unat x \<notin> unat ` set cs \<longrightarrow> dec' ! unat (x :: u8) = dec ! unat x)"
  using assms
proof (induction cs arbitrary: i dec)
  case (Cons c cs)
  let ?d = "dec[unat c := of_nat i]"
  have c: "c < 128" and r: "dec_loop cs (Suc i) ?d = Inr dec'"
    using Cons.prems(1) by (auto split: if_splits simp: not_le)
  have IH: "(\<forall>c\<in>set cs. c < 128) \<and> (\<forall>k<length cs. dec' ! unat (cs ! k) = of_nat (Suc i + k))
    \<and> (\<forall>x<128. unat x \<notin> unat ` set cs \<longrightarrow> dec' ! unat (x :: u8) = ?d ! unat x)"
    using Cons.IH [OF r] Cons.prems(2,3) by simp
  have "unat c < 128" using c by (simp add: word_less_nat_alt)
  moreover have "unat c \<notin> unat ` set cs" using Cons.prems(2)
    by (metis distinct.simps(2) imageE word_unat_eq_iff)
  ultimately have "dec' ! unat c = of_nat i" using IH c Cons.prems(3) by auto
  then have "\<forall>k<length (c # cs). dec' ! unat ((c # cs) ! k) = of_nat (i + k)"
    using IH by (auto simp: nth_Cons' less_Suc_eq_0_disj)
  then show ?case using IH c by auto
qed simp

lemma base64_new_ok:
  assumes "base64_new alt = Inr B" and "distinct (b64_enc B @ [b64_equal B])" and "b64_equal B < 128"
  shows "b64_ok B"
proof -
  obtain a where a: "strlen a = 3" "b64_enc B = enc_loop 62 65 @ [a ! 0, a ! 1]"
    "b64_equal B = a ! 2" "dec_loop (b64_enc B) 0 (replicate 128 0xFF) = Inr (b64_dec B)"
    using assms(1) by (auto simp: base64_new_def Let_def exn_simps split: if_splits)
  have nz: "a ! k \<noteq> 0" if "k < 3" for k
    using that a(1) nth_mem [of k "takeWhile (\<lambda>c. c \<noteq> 0) a"]
    by (auto simp: strlen_def takeWhile_nth dest: set_takeWhileD)
  have d: "(\<forall>c\<in>set (b64_enc B). c < 128)
    \<and> (\<forall>k<length (b64_enc B). b64_dec B ! unat (b64_enc B ! k) = of_nat k)"
    using dec_loop_ok [OF a(4)] assms(2) by simp
  have l: "length (b64_enc B) = 64" by (simp add: a(2) enc_loop_62)
  have "0 \<notin> set (b64_enc B)" using nz [of 0] nz [of 1] by (simp add: a(2) enc_loop_62)
  then show ?thesis
    using d l nz [of 2] assms(2,3) nth_mem [of _ "b64_enc B"]
    by (auto simp: b64_ok_def a(3) simp del: nth_mem) (metis nth_mem)+
qed

section \<open>Decoding a group\<close>

lemma push_val: "push_bit 6 (of_nat x) + of_nat d = (of_nat (x * 64 + d) :: u32)"
  by (simp add: push_bit_eq_mult algebra_simps)

lemma of_nat_u8_less: "k < 64 \<Longrightarrow> (of_nat k :: u8) \<noteq> 0xFF \<and> ucast (of_nat k :: u8) = (of_nat k :: u32)"
proof -
  assume k: "k < 64"
  have u: "unat (of_nat k :: u8) = k" using k by (simp add: unat_of_nat)
  then have "(of_nat k :: u8) \<noteq> 0xFF" using k by auto
  moreover have "unat (ucast (of_nat k :: u8) :: u32) = unat (of_nat k :: u32)"
    using k u by (simp add: unsigned_ucast_eq unat_of_nat take_bit_eq_mod)
  ultimately show ?thesis by (simp add: word_unat_eq_iff)
qed

text \<open>One character of the alphabet, and one padding character.\<close>

lemma token_loop_digit:
  assumes "b64_ok B" and "k < 64"
  shows "token_loop B (b64_enc B ! k # cs) (of_nat v) 0 = token_loop B cs (of_nat (v * 64 + k)) 0"
proof -
  have "\<not> b64_enc B ! k \<ge> 128" "b64_enc B ! k \<noteq> b64_equal B"
    "b64_dec B ! unat (b64_enc B ! k) = of_nat k"
    using assms by (auto simp: b64_ok_def not_le)
  then have "decode_base64_char B (b64_enc B ! k) = Inr (of_nat k)"
    "\<not> char_is_equal B (b64_enc B ! k)"
    using of_nat_u8_less [OF assms(2)] by (simp_all add: decode_base64_char_def char_is_equal_def)
  then show ?thesis using push_val [of v k] by simp
qed

lemma token_loop_equal:
  assumes "b64_ok B"
  shows "token_loop B (b64_equal B # cs) (of_nat v) m = token_loop B cs (of_nat (v * 64)) (m + 1)"
  using assms push_val [of v 0] by (simp add: b64_ok_def char_is_equal_def)

lemma token_decode_digits:
  assumes "b64_ok B" and "n < 2 ^ 24"
  shows "token_decode B [digit B 3 n, digit B 2 n, digit B 1 n, digit B 0 n] = Inr (of_nat n, 0)"
    and "n mod 64 = 0 \<Longrightarrow>
      token_decode B [digit B 3 n, digit B 2 n, digit B 1 n, b64_equal B] = Inr (of_nat n, 1)"
    and "n mod 4096 = 0 \<Longrightarrow>
      token_decode B [digit B 3 n, digit B 2 n, b64_equal B, b64_equal B] = Inr (of_nat n, 2)"
proof -
  let ?d = "\<lambda>k. n div 64 ^ k mod 64"
  have q: "n div 262144 = n div 4096 div 64" "n div 4096 = n div 64 div 64"
    by (simp_all only: div_mult2_eq [symmetric]) simp_all
  have "n div 4096 div 64 < 64" using assms(2) by (simp add: q(1) [symmetric])
  then have dd: "((0 * 64 + ?d 3) * 64 + ?d 2) = n div 4096"
    using div_mult_mod_eq [of "n div 4096" 64] by (simp add: q(1))
  have d1: "n div 4096 * 64 + ?d 1 = n div 64"
    using div_mult_mod_eq [of "n div 64" 64] by (simp add: q(2))
  have d0: "n div 64 * 64 + ?d 0 = n" by simp
  note loop = token_loop_digit [OF assms(1)] token_loop_equal [OF assms(1)]
  have two: "token_loop B (digit B 3 n # digit B 2 n # cs) 0 0
      = token_loop B cs (of_nat (n div 4096)) 0" for cs
  proof -
    have "token_loop B (digit B 3 n # digit B 2 n # cs) (of_nat 0) 0
        = token_loop B cs (of_nat ((0 * 64 + ?d 3) * 64 + ?d 2)) 0"
      unfolding digit_def by (simp only: loop mod_less_divisor zero_less_numeral)
    then show ?thesis unfolding dd by simp
  qed
  have one: "token_loop B (digit B 1 n # cs) (of_nat (n div 4096)) 0
      = token_loop B cs (of_nat (n div 64)) 0" for cs
    unfolding digit_def loop(1) [OF mod_less_divisor [OF zero_less_numeral]] d1 ..
  have zero: "token_loop B [digit B 0 n] (of_nat (n div 64)) 0 = Inr (of_nat n, 0)"
    unfolding digit_def loop(1) [OF mod_less_divisor [OF zero_less_numeral]] d0 by simp
  show "token_decode B [digit B 3 n, digit B 2 n, digit B 1 n, digit B 0 n] = Inr (of_nat n, 0)"
    by (simp add: token_decode_def two one [unfolded One_nat_def] zero del: token_loop.simps)
  show "token_decode B [digit B 3 n, digit B 2 n, digit B 1 n, b64_equal B] = Inr (of_nat n, 1)"
    if "n mod 64 = 0"
  proof -
    have "n div 64 * 64 = n" using that by auto
    then have "token_loop B [b64_equal B] (of_nat (n div 64)) 0 = Inr (of_nat n, 1)"
      using loop(2) [of "[]" "n div 64" 0] by simp
    then show ?thesis by (simp add: token_decode_def two one [unfolded One_nat_def] del: token_loop.simps)
  qed
  show "token_decode B [digit B 3 n, digit B 2 n, b64_equal B, b64_equal B] = Inr (of_nat n, 2)"
    if "n mod 4096 = 0"
  proof -
    have "n div 4096 * 64 * 64 = n" using that by auto
    then have "token_loop B [b64_equal B, b64_equal B] (of_nat (n div 4096)) 0 = Inr (of_nat n, 2)"
      using loop(2) [of "[b64_equal B]" "n div 4096" 0] loop(2) [of "[]" "n div 4096 * 64" 1] by simp
    then show ?thesis by (simp add: token_decode_def two del: token_loop.simps)
  qed
qed

lemma byte_of: "(ucast (drop_bit k (of_nat n :: u32) AND 0xff) :: u8) = of_nat (n div 2 ^ k)"
  if "n < 2 ^ 24"
proof -
  have u: "unat (of_nat n :: u32) = n" using that by (simp add: unat_of_nat)
  have "(0xff :: u32) = mask 8" by (simp add: mask_eq_exp_minus_1)
  then have "unat (drop_bit k (of_nat n :: u32) AND 0xff) = take_bit 8 (unat (drop_bit k (of_nat n :: u32)))"
    by (simp only: take_bit_eq_mask [symmetric] unsigned_take_bit_eq)
  also have "unat (drop_bit k (of_nat n :: u32)) = drop_bit k n"
    by (simp only: unat_drop_bit_eq u)
  finally have "unat (drop_bit k (of_nat n :: u32) AND 0xff) = n div 2 ^ k mod 256"
    by (simp only: drop_bit_nat_def take_bit_nat_def) simp
  then have "unat (ucast (drop_bit k (of_nat n :: u32) AND 0xff) :: u8) = n div 2 ^ k mod 256"
    by (simp add: unsigned_ucast_eq take_bit_nat_def)
  then show ?thesis by (simp add: word_unat_eq_iff unat_of_nat)
qed

lemma group_bytes:
  "(of_nat (group a b c div 2 ^ 16) :: u8) = a" "(of_nat (group a b c div 2 ^ 8) :: u8) = b"
  "(of_nat (group a b c div 2 ^ 0) :: u8) = c"
proof -
  note l = unat_u8_less [of a] unat_u8_less [of b] unat_u8_less [of c]
  have "group a b c div 2 ^ 16 = unat a" using l by (simp add: group_def)
  then show "(of_nat (group a b c div 2 ^ 16) :: u8) = a" by simp
  have "group a b c div 2 ^ 8 = unat a * 256 + unat b" using l by (simp add: group_def)
  then have "unat (of_nat (group a b c div 2 ^ 8) :: u8) = unat b"
    using l(2) by (simp only: unat_of_nat) simp
  then show "(of_nat (group a b c div 2 ^ 8) :: u8) = b" by (simp only: word_unat_eq_iff)
  have "unat (of_nat (group a b c div 2 ^ 0) :: u8) = unat c"
    using l(3) mod_mult_self2 [of "unat c" 256 "unat a * 256 + unat b"]
    by (simp only: unat_of_nat group_def) (simp add: algebra_simps)
  then show "(of_nat (group a b c div 2 ^ 0) :: u8) = c" by (simp only: word_unat_eq_iff)
qed

lemma decode_step:
  assumes "token_decode B [p, q, r, s] = Inr (of_nat (group a b c), m)" and "m \<in> {0, 1, 2}"
  shows "b64_decode B None dest (p # q # r # s # str)
    = b64_decode B None (dest @ take (3 - unat m) [a, b, c]) str"
  using assms(2)
  by (subst b64_decode.simps)
    (auto simp: assms(1) byte_of [OF group_less] byte_of [OF group_less, of 0, simplified]
      group_bytes group_bytes [simplified] Let_def)

lemma decode_encode_ref: "b64_ok B \<Longrightarrow> b64_decode B None dest (encode_ref B d) = (Inr (), dest @ d)"
proof (induction B d arbitrary: dest rule: encode_ref.induct)
  case (1 B)
  then show ?case by (simp add: b64_decode.simps)
next
  case (2 B a)
  have "group a 0 0 mod 4096 = 0" by (simp add: group_def)
  from token_decode_digits(3) [OF 2 group_less this]
  show ?case by (simp add: decode_step b64_decode.simps [of _ _ _ "[]"])
next
  case (3 B a b)
  have "group a b 0 mod 64 = 0" by (simp add: group_def mod_eq_0_iff_dvd)
  from token_decode_digits(2) [OF 3 group_less this]
  show ?case by (simp add: decode_step b64_decode.simps [of _ _ _ "[]"])
next
  case (4 B a b c d)
  from token_decode_digits(1) [OF 4(2) group_less]
  show ?case using 4(1) [OF 4(2)] by (simp add: decode_step)
qed

section \<open>Length and syntax of the encoding\<close>

definition pad :: "nat \<Rightarrow> nat" where
  "pad n = (3 - n mod 3) mod 3"

lemma pad_unique: "(m + n) mod 3 = 0 \<Longrightarrow> m < 3 \<Longrightarrow> m = pad n"
proof -
  obtain q r where n: "n = 3 * q + r" "r < 3"
    using mult_div_mod_eq [of 3 n] by (metis mod_less_divisor zero_less_numeral)
  assume m: "(m + n) mod 3 = 0" "m < 3"
  have "m + (3 * q + r) = (m + r) + 3 * q" by simp
  then have "(m + n) mod 3 = (m + r) mod 3" unfolding n(1) by (simp only: mod_mult_self2)
  with m(1) have "(m + r) mod 3 = 0" by (simp only:)
  moreover have "m = 0 \<or> m = 1 \<or> m = 2" "r = 0 \<or> r = 1 \<or> r = 2" using m(2) n(2) by linarith+
  ultimately have "m = (3 - r) mod 3" by (elim disjE) (simp_all del: One_nat_def)
  then show "m = pad n" using n by (simp add: pad_def)
qed

lemma num_eq_pad: "n < 2 ^ 61 \<Longrightarrow> num_eq n = pad n"
proof (rule pad_unique)
  assume n: "n < 2 ^ 61"
  then have "num_eq n = (SZ - 1 - n) mod 3" by (simp add: num_eq_def)
  then have "(num_eq n + n) mod 3 = (SZ - 1 - n + n) mod 3" by (simp only: mod_add_left_eq)
  also have "SZ - 1 - n + n = SZ - 1" using n by simp
  finally show "(num_eq n + n) mod 3 = 0" by simp
qed (simp add: num_eq_def)

lemma unat_and_not_3: "unat (w AND NOT 3 :: u64) = unat w div 4 * 4"
proof -
  have "(3 :: u64) = mask 2" by (simp add: mask_eq_exp_minus_1)
  moreover have "w AND NOT (mask k) = push_bit k (drop_bit k w)" for k
    by (rule bit_word_eqI) (auto simp: bit_simps)
  ultimately have "w AND NOT 3 = push_bit 2 (drop_bit 2 w)" by metis
  then have "unat (w AND NOT 3) = unat (drop_bit 2 w) * 4 mod 2 ^ 64"
    by (simp add: push_bit_eq_mult unat_word_ariths(2) del: word_of_nat_eq_0_iff)
  also have "unat (drop_bit 2 w) = unat w div 4"
    by (simp only: unat_drop_bit_eq drop_bit_nat_def) simp
  also have "unat w div 4 * 4 mod 2 ^ 64 = unat w div 4 * 4"
  proof (rule mod_less)
    have "unat w < 2 ^ LENGTH(64)" by (rule unsigned_less)
    moreover have "unat w div 4 * 4 \<le> unat w" by (rule div_times_less_eq_dividend)
    ultimately show "unat w div 4 * 4 < 2 ^ 64" by simp
  qed
  finally show ?thesis .
qed

lemma groups_of_three:
  "(n * 4 div 3 + 3) div 4 * 4 = 4 * ((n + 2) div 3)"
  "4 * ((n + 2) div 3) < n * 4 div 3 + 4" for n :: nat
proof -
  obtain q r where n: "n = 3 * q + r" "r < 3"
    using mult_div_mod_eq [of 3 n] by (metis mod_less_divisor zero_less_numeral)
  then have "r \<in> {0, 1, 2}" by auto
  moreover have "n * 4 = r * 4 + 3 * (4 * q)" "n + 2 = (r + 2) + 3 * q" using n(1) by simp_all
  then have "n * 4 div 3 = r * 4 div 3 + 4 * q" "(n + 2) div 3 = (r + 2) div 3 + q"
    by simp_all
  ultimately show "(n * 4 div 3 + 3) div 4 * 4 = 4 * ((n + 2) div 3)"
    "4 * ((n + 2) div 3) < n * 4 div 3 + 4" by auto
qed

lemma encoded_len_eq:
  assumes "n < 2 ^ 61"
  shows "encoded_len n = 4 * ((n + 2) div 3)"
proof -
  have "sz_add (sz_mul n 4 div 3) 3 = n * 4 div 3 + 3" using assms by simp
  moreover have "unat (of_nat (n * 4 div 3 + 3) :: u64) = n * 4 div 3 + 3"
    using assms by (simp only: unat_of_nat) simp
  ultimately show ?thesis
    unfolding groups_of_three(1) [symmetric] encoded_len_def unat_and_not_3 by simp
qed

lemma encode_fits: "n < 2 ^ 61 \<Longrightarrow> 4 * ((n + 2) div 3) < encode_size_max n"
  using groups_of_three(2) [of n] by (simp add: encode_size_max_def)

text \<open>The encoding is characters of the alphabet followed by the padding.\<close>

lemma digit_in: "\<exists>k<64. digit B j n = b64_enc B ! k"
  unfolding digit_def by (rule exI [of _ "n div 64 ^ j mod 64"]) simp

lemma encode_ref_shape:
  "\<exists>body. encode_ref B d = body @ replicate (pad (length d)) (b64_equal B)
     \<and> length body + pad (length d) = 4 * ((length d + 2) div 3)
     \<and> (\<forall>x\<in>set body. \<exists>k<64. x = b64_enc B ! k)"
proof (induction B d rule: encode_ref.induct)
  case (1 B)
  then show ?case by (simp add: pad_def)
next
  case (2 B a)
  show ?case
    by (rule exI [of _ "[digit B 3 (group a 0 0), digit B 2 (group a 0 0)]"])
      (use digit_in in \<open>auto simp: pad_def numeral_2_eq_2\<close>)
next
  case (3 B a b)
  show ?case
    by (rule exI [of _ "[digit B 3 (group a b 0), digit B 2 (group a b 0), digit B 1 (group a b 0)]"])
      (use digit_in in \<open>auto simp: pad_def\<close>)
next
  case (4 B a b c d)
  then obtain body where b: "encode_ref B d = body @ replicate (pad (length d)) (b64_equal B)"
    "length body + pad (length d) = 4 * ((length d + 2) div 3)"
    "\<forall>x\<in>set body. \<exists>k<64. x = b64_enc B ! k"
    by blast
  have "Suc (Suc (Suc (length d))) mod 3 = length d mod 3"
    using mod_add_self2 [of "length d" 3] by simp
  then have p: "pad (Suc (Suc (Suc (length d)))) = pad (length d)" by (simp add: pad_def)
  let ?body = "[digit B 3 (group a b c), digit B 2 (group a b c), digit B 1 (group a b c),
      digit B 0 (group a b c)] @ body"
  have "\<forall>x\<in>set ?body. \<exists>k<64. x = b64_enc B ! k"
    using b(3) digit_in by auto
  moreover have "length ?body + pad (length d) = 4 * ((length (a # b # c # d) + 2) div 3)"
  proof -
    have "length (a # b # c # d) + 2 = (length d + 2) + 3" by simp
    then have "(length (a # b # c # d) + 2) div 3 = (length d + 2) div 3 + 1"
      by (simp only: div_add_self2 [OF zero_neq_numeral [symmetric]])
    then show ?thesis using b(2) by simp
  qed
  ultimately show ?case using b(1) p by (intro exI [of _ ?body]) simp
qed

lemma is_base64_encode:
  assumes "b64_ok B" and "length d < 2 ^ 61"
  shows "is_base64 B (encode_ref B d) (length d)"
proof -
  obtain body where b: "encode_ref B d = body @ replicate (pad (length d)) (b64_equal B)"
    "length body + pad (length d) = 4 * ((length d + 2) div 3)"
    "\<forall>x\<in>set body. \<exists>k<64. x = b64_enc B ! k"
    using encode_ref_shape by blast
  have sz: "length (encode_ref B d) = encoded_len (length d)"
    using b(1,2) encoded_len_eq [OF assms(2)] by simp
  have "4 * ((length d + 2) div 3) < SZ" using assms(2) by simp
  then have eb: "sz_sub (length (encode_ref B d)) (num_eq (length d)) = length body"
    using b(1,2) num_eq_pad [OF assms(2)] by simp
  have "is_base64_char B (b64_enc B ! k)" if "k < 64" for k
    using that assms(1) of_nat_u8_less [OF that] by (simp add: b64_ok_def is_base64_char_def)
  then have "\<forall>x\<in>set body. is_base64_char B x" using b(3) by auto
  moreover have "char_is_equal B (b64_equal B)"
    using assms(1) by (simp add: b64_ok_def char_is_equal_def)
  ultimately show ?thesis
    unfolding is_base64_def Let_def eb using sz
    by (auto simp: list_all_iff b(1) nth_append)
qed

lemma b64_encode_eq: "b64_ok B \<Longrightarrow> b64_encode B d = encode_ref B d"
proof -
  assume ok: "b64_ok B"
  obtain body where b: "encode_ref B d = body @ replicate (pad (length d)) (b64_equal B)"
    "\<forall>x\<in>set body. \<exists>k<64. x = b64_enc B ! k"
    using encode_ref_shape by blast
  have "\<forall>x\<in>set (encode_ref B d). x \<noteq> 0" using b ok by (auto simp: b64_ok_def)
  then show ?thesis by (simp add: b64_encode_def encode_loop_ref takeWhile_eq_all_conv)
qed

text \<open>A region of \<open>n\<close> bytes is never overrun.\<close>

lemma b64_push_bounded:
  "length (snd r) \<le> n \<Longrightarrow> length (snd (b64_push (Some n) x r)) \<le> n"
  by (cases "(Some n, x, r)" rule: b64_push.cases) auto

lemma b64_decode_bounded:
  "length dest \<le> n \<Longrightarrow> length (snd (b64_decode B (Some n) dest str)) \<le> n"
proof (induction B "Some n" dest str rule: b64_decode.induct)
  case (1 B dest str)
  show ?case
  proof (cases "str = []")
    case False
    show ?thesis
    proof (cases "token_decode B (take 4 str)")
      case (Inr vm)
      obtain val m where vm: "vm = (val, m)" by (cases vm)
      let ?r1 = "b64_push (Some n) (ucast (drop_bit 16 val AND 0xff)) (Inr (), dest)"
      let ?r2 = "if m < 2 then b64_push (Some n) (ucast (drop_bit 8 val AND 0xff)) ?r1 else ?r1"
      let ?r3 = "if m < 1 then b64_push (Some n) (ucast (val AND 0xff)) ?r2 else ?r2"
      have "length (snd ?r3) \<le> n"
        using 1(2) by (simp add: b64_push_bounded split del: if_split del: b64_push.simps
            split: if_splits)
      moreover have "b64_decode B (Some n) dest str = (case ?r3 of (Inl e, dest) \<Rightarrow> (Inl e, dest)
          | (Inr u, dest) \<Rightarrow> b64_decode B (Some n) dest (drop 4 str))"
        by (subst b64_decode.simps) (simp add: False Inr vm Let_def)
      moreover note 1(1) [OF False Inr vm [symmetric] refl refl refl, of "fst ?r3" "snd ?r3"]
      ultimately show ?thesis by (cases "fst ?r3") (simp_all add: split_beta)
    qed (use 1(2) False in \<open>simp add: b64_decode.simps\<close>)
  qed (use 1(2) in \<open>simp add: b64_decode.simps\<close>)
qed

section \<open>Properties\<close>



end
