(* ===== verification/BufComposed.thy ===== *)
theory BufComposed
  imports Buffers
begin

text \<open>
  Messages that arrive in several buffers: \<open>BufferVector\<close> (\<open>buffer/buflist.hpp\<close>), the reader
  \<open>BufferComplete\<close> that finds out whether a message is complete (\<open>buffer/bufcomplete.hpp\<close>) and
  \<open>BufferComposed\<close> over a vector of buffers (\<open>buffer/bufcomposed.hpp\<close>).
\<close>

section \<open>Lists of buffers\<close>

fun bl_join_size :: "buffer list \<Rightarrow> nat" where
  "bl_join_size [] = 0"
| "bl_join_size (b # bs) = b_size b + bl_join_size bs"

fun bl_write_all :: "buffer list \<Rightarrow> buffer \<Rightarrow> buffer res" where
  "bl_write_all [] big = Inr big"
| "bl_write_all (b # bs) big = bindE (buf_write (content b) big) (bl_write_all bs)"

definition bl_join :: "nat \<Rightarrow> nat \<Rightarrow> bool \<Rightarrow> buffer list \<Rightarrow> buffer res" where
  "bl_join headroom tailroom size_1_optim bs =
     (if size_1_optim \<and> length bs = 1 \<and> b_off (hd bs) \<ge> headroom \<and> buf_remaining 0 (hd bs) \<ge> tailroom
      then Inr (hd bs)
      else bindE (alloc_ctor (bl_join_size bs + headroom + tailroom) 0) (\<lambda>big.
           bindE (buf_init_headroom headroom big) (bl_write_all bs)))"

definition bl_put_consume :: "buffer \<Rightarrow> nat \<Rightarrow> buffer list \<Rightarrow> (buffer list \<times> buffer) res" where
  "bl_put_consume buf tailroom bs =
     (let s = b_size buf in
      if s = 0 then Inr (bs, buf)
      else if bs \<noteq> [] \<and> s < buf_remaining tailroom (last bs) then
        bindE (buf_read s buf) (\<lambda>(d, buf).
        bindE (buf_write d (last bs)) (\<lambda>b. Inr (butlast bs @ [b], buf)))
      else Inr (bs @ [buf], alloc_default))"

section \<open>Reading a message that may be incomplete\<close>

text \<open>The buffer being read and the buffers from the iterator on.\<close>

record complete =
  cm_buf :: buffer
  cm_rest :: "buffer list"

definition cm_next_buffer :: "complete \<Rightarrow> complete" where
  "cm_next_buffer c =
     (case cm_rest c of [] \<Rightarrow> c\<lparr>cm_buf := buf_reset_content (cm_buf c)\<rparr>
      | b # bs \<Rightarrow> \<lparr>cm_buf = b\<lparr>b_kind := Plain\<rparr>, cm_rest = bs\<rparr>)"

definition cm_fetch_buffer :: "complete \<Rightarrow> bool \<times> complete" where
  "cm_fetch_buffer c =
     (if buf_defined (cm_buf c) then (True, c)
      else let c = cm_next_buffer c in (buf_defined (cm_buf c), c))"

text \<open>A failed read leaves the reader where it has got to.\<close>

function cm_advance :: "nat \<Rightarrow> complete \<Rightarrow> bool \<times> complete" where
  "cm_advance n c =
     (if n = 0 then (True, c)
      else case cm_fetch_buffer c of
        (False, c) \<Rightarrow> (False, c)
      | (True, c) \<Rightarrow>
          let s = min n (b_size (cm_buf c)); b = cm_buf c in
          cm_advance (n - s) (c\<lparr>cm_buf := b\<lparr>b_off := b_off b + s, b_size := b_size b - s\<rparr>\<rparr>))"
  by pat_completeness auto
termination
  by (relation "measure fst") (auto simp: cm_fetch_buffer_def buf_defined_def Let_def split: if_splits)

declare cm_advance.simps [simp del]

definition cm_get :: "complete \<Rightarrow> u8 option \<times> complete" where
  "cm_get c =
     (case cm_fetch_buffer c of
        (False, c) \<Rightarrow> (None, c)
      | (True, c) \<Rightarrow> let b = cm_buf c in
          (Some (b_data b ! b_off b), c\<lparr>cm_buf := b\<lparr>b_off := b_off b + 1, b_size := b_size b - 1\<rparr>\<rparr>))"

definition cm_advance_string :: "complete \<Rightarrow> bool \<times> complete" where
  "cm_advance_string c =
     (case cm_get c of
        (None, c) \<Rightarrow> (False, c)
      | (Some h, c) \<Rightarrow>
          (case cm_get c of
             (None, c) \<Rightarrow> (False, c)
           | (Some l, c) \<Rightarrow> cm_advance (push_bit 8 (unat h) OR unat l) c))"

text \<open>The bytes ahead.\<close>

definition cm_bytes :: "complete \<Rightarrow> u8 list" where
  "cm_bytes c = content (cm_buf c) @ concat (map content (cm_rest c))"

definition cm_count :: "complete \<Rightarrow> nat" where
  "cm_count c = b_size (cm_buf c) + bl_join_size (cm_rest c)"

lemma cm_fetch_count:
  "cm_fetch_buffer c = (ok, c') \<Longrightarrow> cm_count c' = cm_count c \<and> (ok \<longleftrightarrow> b_size (cm_buf c') > 0)"
  by (auto simp: cm_fetch_buffer_def cm_next_buffer_def cm_count_def buf_defined_def buf_reset_content_def
      Let_def split: if_splits list.splits)

lemma cm_get_count: "cm_get c = (Some v, c') \<Longrightarrow> cm_count c' < cm_count c"
  using cm_fetch_count [of c] by (auto simp: cm_get_def cm_count_def Let_def split: prod.splits bool.splits)

function cm_advance_to_null :: "complete \<Rightarrow> bool \<times> complete" where
  "cm_advance_to_null c =
     (case cm_get c of
        (None, c) \<Rightarrow> (False, c)
      | (Some v, c) \<Rightarrow> if v = 0 then (True, c) else cm_advance_to_null c)"
  by pat_completeness auto
termination
  by (relation "measure cm_count") (auto dest!: cm_get_count [OF sym])

declare cm_advance_to_null.simps [simp del]

section \<open>Composed messages\<close>

text \<open>\<open>put\<close> adds at the end; \<open>complete\<close> starts reading at the front; \<open>get\<close> joins and clears.\<close>

definition bc_put :: "buffer \<Rightarrow> buffer list \<Rightarrow> buffer list" where
  "bc_put b bv = bv @ [b]"

definition bc_complete :: "buffer list \<Rightarrow> complete" where
  "bc_complete bv = cm_next_buffer \<lparr>cm_buf = buf_default, cm_rest = bv\<rparr>"

definition bc_get :: "buffer list \<Rightarrow> (buffer \<times> buffer list) res" where
  "bc_get bv = bindE (bl_join 0 0 True bv) (\<lambda>ret. Inr (ret, []))"

section \<open>Reading as on the bytes put together\<close>

text \<open>The buffers are well-formed and none after the first is empty.\<close>

definition cm_wf :: "complete \<Rightarrow> bool" where
  "cm_wf c \<longleftrightarrow> buf_wf (cm_buf c) \<and> (\<forall>b \<in> set (cm_rest c). buf_wf b \<and> b_size b > 0)"

lemma content_kind [simp]: "content (b\<lparr>b_kind := k\<rparr>) = content b"
  by (simp add: content_def)

lemma buf_wf_kind [simp]: "buf_wf (b\<lparr>b_kind := k\<rparr>) = buf_wf b"
  by (simp add: buf_wf_def)

lemma cm_fetch_wf:
  assumes "cm_wf c"
  obtains (empty) c' where "cm_bytes c = []" and "cm_fetch_buffer c = (False, c')" and "cm_wf c'" and "cm_bytes c' = []"
  | (full) c' where "cm_bytes c \<noteq> []" and "cm_fetch_buffer c = (True, c')" and "cm_wf c'" and "cm_bytes c' = cm_bytes c"
      and "b_size (cm_buf c') > 0"
proof (cases "b_size (cm_buf c) = 0")
  case False
  then have "content (cm_buf c) \<noteq> []"
    using assms length_content [of "cm_buf c"] unfolding cm_wf_def by (metis list.size(3))
  then show thesis using full [of c] assms False by (simp add: cm_fetch_buffer_def buf_defined_def cm_bytes_def)
next
  case True
  show thesis
  proof (cases "cm_rest c")
    case Nil
    then show thesis
      using True assms empty by (auto simp: cm_fetch_buffer_def buf_defined_def cm_next_buffer_def Let_def cm_bytes_def
          cm_wf_def buf_reset_content_def buf_wf_def)
  next
    case (Cons b bs)
    then have b: "buf_wf b" "b_size b > 0" using assms by (auto simp: cm_wf_def)
    then have "content b \<noteq> []" using length_content [OF b(1)] by (metis less_numeral_extra(3) list.size(3))
    with b show thesis
      using True Cons assms full [of "\<lparr>cm_buf = b\<lparr>b_kind := Plain\<rparr>, cm_rest = bs\<rparr>"]
      by (simp add: cm_fetch_buffer_def buf_defined_def cm_next_buffer_def Let_def cm_bytes_def cm_wf_def)
  qed
qed

lemma cm_skip:
  assumes "cm_wf c" and "s \<le> b_size (cm_buf c)"
  defines "c' \<equiv> c\<lparr>cm_buf := (cm_buf c)\<lparr>b_off := b_off (cm_buf c) + s, b_size := b_size (cm_buf c) - s\<rparr>\<rparr>"
  shows "cm_wf c' \<and> cm_bytes c' = drop s (cm_bytes c)"
proof -
  have "buf_wf (cm_buf c)" using assms(1) by (simp add: cm_wf_def)
  then show ?thesis
    using assms(1,2) by (simp add: c'_def cm_wf_def cm_bytes_def content_advance buf_read_alloc_wf)
qed

lemma cm_advance_ok:
  "cm_wf c \<Longrightarrow> \<exists>c'. cm_advance n c = (n \<le> length (cm_bytes c), c') \<and> cm_wf c'
     \<and> cm_bytes c' = drop n (cm_bytes c)"
proof (induction n c rule: cm_advance.induct)
  case (1 n c)
  show ?case
  proof (cases "n = 0")
    case True
    then show ?thesis using 1(2) by (simp add: cm_advance.simps)
  next
    case False
    from 1(2) show ?thesis
    proof (cases c rule: cm_fetch_wf)
      case (empty c')
      then show ?thesis using False by (simp add: cm_advance.simps)
    next
      case (full c')
      let ?s = "min n (b_size (cm_buf c'))" and ?b = "cm_buf c'"
      let ?c = "c'\<lparr>cm_buf := ?b\<lparr>b_off := b_off ?b + ?s, b_size := b_size ?b - ?s\<rparr>\<rparr>"
      have sk: "cm_wf ?c" "cm_bytes ?c = drop ?s (cm_bytes c)"
        using cm_skip [OF full(3), of ?s] full(4) by simp_all
      have "length (cm_bytes c') \<ge> ?s"
        using full(3) by (simp add: cm_bytes_def cm_wf_def)
      then have le: "n - ?s \<le> length (cm_bytes ?c) \<longleftrightarrow> n \<le> length (cm_bytes c)"
        using sk(2) full(4) by auto
      obtain c'' where "cm_advance (n - ?s) ?c = (n - ?s \<le> length (cm_bytes ?c), c'')" "cm_wf c''"
        "cm_bytes c'' = drop (n - ?s) (cm_bytes ?c)"
        using 1(1) [OF False full(2) [symmetric] refl refl refl sk(1)] by blast
      then show ?thesis
        using False full(2) sk(2) le by (simp add: cm_advance.simps [of n c] Let_def)
    qed
  qed
qed

lemma cm_get_ok:
  assumes "cm_wf c"
  shows "\<exists>c'. cm_get c = (if cm_bytes c = [] then None else Some (hd (cm_bytes c)), c') \<and> cm_wf c'
    \<and> cm_bytes c' = tl (cm_bytes c)"
  using assms
proof (cases c rule: cm_fetch_wf)
  case (empty c')
  then show ?thesis by (simp add: cm_get_def)
next
  case (full c')
  have wf: "buf_wf (cm_buf c')" using full(3) by (simp add: cm_wf_def)
  have hd: "content (cm_buf c') = b_data (cm_buf c') ! b_off (cm_buf c') # tl (content (cm_buf c'))"
    using wf full(5) slice_Suc [of "b_off (cm_buf c')" "b_data (cm_buf c')" "b_size (cm_buf c') - 1"]
    by (auto simp: content_def buf_wf_def)
  have "cm_bytes c \<noteq> []" "hd (cm_bytes c) = b_data (cm_buf c') ! b_off (cm_buf c')"
    using full(1,4) hd by (simp_all add: cm_bytes_def) (metis append_Cons list.sel(1))
  then show ?thesis
    using full(2,4,5) cm_skip [OF full(3), of 1] by (auto simp: cm_get_def Let_def drop_Suc)
qed

text \<open>The reference: what the functions mean on the bytes.\<close>

definition skip_string :: "u8 list \<Rightarrow> u8 list option" where
  "skip_string x = (case x of
     h # l # r \<Rightarrow> let n = push_bit 8 (unat h) OR unat l in if n \<le> length r then Some (drop n r) else None
   | _ \<Rightarrow> None)"

lemma cm_advance_string_ok:
  assumes "cm_wf c"
  shows "\<exists>ok c'. cm_advance_string c = (ok, c') \<and> cm_wf c'
    \<and> (case skip_string (cm_bytes c) of None \<Rightarrow> \<not> ok | Some r \<Rightarrow> ok \<and> cm_bytes c' = r)"
proof -
  obtain c1 where c1: "cm_get c = (if cm_bytes c = [] then None else Some (hd (cm_bytes c)), c1)" "cm_wf c1"
    "cm_bytes c1 = tl (cm_bytes c)" using cm_get_ok [OF assms] by blast
  obtain c2 where c2: "cm_get c1 = (if cm_bytes c1 = [] then None else Some (hd (cm_bytes c1)), c2)" "cm_wf c2"
    "cm_bytes c2 = tl (cm_bytes c1)" using cm_get_ok [OF c1(2)] by blast
  show ?thesis
  proof (cases "cm_bytes c")
    case Nil
    then show ?thesis using c1 by (intro exI [of _ False] exI [of _ c1]) (simp add: cm_advance_string_def skip_string_def)
  next
    case (Cons h r)
    show ?thesis
    proof (cases r)
      case Nil
      then show ?thesis
        using Cons c1 c2 by (intro exI [of _ False] exI [of _ c2]) (simp add: cm_advance_string_def skip_string_def)
    next
      case l: (Cons l r')
      then have "cm_bytes c2 = r'" using Cons c1 c2 by simp
      with Cons l c1 c2 cm_advance_ok [OF c2(2), of "push_bit 8 (unat h) OR unat l"] show ?thesis
        by (auto simp: cm_advance_string_def skip_string_def Let_def)
    qed
  qed
qed

lemma cm_advance_to_null_ok:
  "cm_wf c \<Longrightarrow> \<exists>c'. cm_advance_to_null c = (0 \<in> set (cm_bytes c), c') \<and> cm_wf c'"
proof (induction c rule: cm_advance_to_null.induct)
  case (1 c)
  obtain c1 where c1: "cm_get c = (if cm_bytes c = [] then None else Some (hd (cm_bytes c)), c1)" "cm_wf c1"
    "cm_bytes c1 = tl (cm_bytes c)" using cm_get_ok [OF 1(2)] by blast
  show ?case
  proof (cases "cm_bytes c")
    case Nil
    then show ?thesis using c1 by (simp add: cm_advance_to_null.simps)
  next
    case (Cons v r)
    then have g: "cm_get c = (Some v, c1)" "cm_bytes c1 = r" using c1 by simp_all
    show ?thesis
    proof (cases "v = 0")
      case True
      then show ?thesis using g c1(2) Cons by (auto simp: cm_advance_to_null.simps [of c])
    next
      case False
      obtain c' where "cm_advance_to_null c1 = (0 \<in> set (cm_bytes c1), c')" "cm_wf c'"
        using 1(1) [OF g(1) [symmetric] refl False c1(2)] by blast
      then show ?thesis using g Cons False by (auto simp: cm_advance_to_null.simps [of c])
    qed
  qed
qed

lemma bl_join_size_length: "\<forall>b \<in> set bs. buf_wf b \<Longrightarrow> bl_join_size bs = length (concat (map content bs))"
  by (induction bs) simp_all

lemma bl_write_all_ok:
  "buf_wf big \<Longrightarrow> \<forall>b \<in> set bs. buf_wf b \<Longrightarrow> b_off big + b_size big + bl_join_size bs \<le> b_cap big \<Longrightarrow>
   \<exists>r. bl_write_all bs big = Inr r \<and> buf_wf r \<and> content r = content big @ concat (map content bs)"
proof (induction bs arbitrary: big)
  case (Cons b bs)
  have fit: "b_off big + b_size big + length (content b) \<le> b_cap big" using Cons.prems by simp
  obtain b1 where b1: "buf_write (content b) big = Inr b1" "b_cap b1 = b_cap big"
    using buf_write_fits [OF Cons.prems(1) fit] by blast
  have "length (content b) < MAX_OBJECT" using Cons.prems(2) by (simp add: buf_wf_def content_def)
  note w = buf_write_ok [OF Cons.prems(1) b1(1) this]
  have "b_off b1 + b_size b1 + bl_join_size bs \<le> b_cap b1" using Cons.prems(2,3) w b1(2) by simp
  from Cons.IH [OF conjunct1 [OF w] _ this] Cons.prems(2) b1(1) w show ?case by auto
qed simp

lemma bl_join_ok:
  assumes "\<forall>b \<in> set bs. buf_wf b" and "bl_join_size bs < MAX_OBJECT"
  shows "\<exists>r. bl_join 0 0 True bs = Inr r \<and> buf_wf r \<and> content r = concat (map content bs)"
proof (cases "length bs = 1")
  case True
  then obtain b where "bs = [b]" by (cases bs) auto
  then show ?thesis using assms by (simp add: bl_join_def)
next
  case False
  obtain big where big: "alloc_ctor (bl_join_size bs) 0 = Inr big" "buf_wf big" "b_cap big = bl_join_size bs"
    using alloc_ctor_total [OF assms(2), of 0] by blast
  have "buf_init_headroom 0 big = Inr (big\<lparr>b_off := 0, b_size := 0\<rparr>)" "buf_wf (big\<lparr>b_off := 0, b_size := 0\<rparr>)"
    using big by (simp_all add: buf_init_headroom_def buf_wf_def)
  with bl_write_all_ok [of "big\<lparr>b_off := 0, b_size := 0\<rparr>" bs] assms big False show ?thesis
    by (auto simp: bl_join_def content_def)
qed

lemma bc_complete_wf:
  assumes "\<forall>b \<in> set bv. buf_wf b \<and> b_size b > 0"
  shows "cm_wf (bc_complete bv) \<and> cm_bytes (bc_complete bv) = concat (map content bv)"
  using assms
  by (cases bv) (auto simp: bc_complete_def cm_next_buffer_def cm_wf_def cm_bytes_def buf_reset_content_def
      buf_default_def buf_wf_def content_def)

end
