(* ===== verification/StaticKey.thy ===== *)
theory StaticKey
  imports Buffers HexCodec
begin

text \<open>
  The static key of tls-auth and tls-crypt (\<open>OpenVPNStaticKey\<close>, \<open>crypto/static_key.hpp\<close>): its four
  parts and which of them a direction selects, and its text form, read line by line with
  \<open>SplitLines\<close> (\<open>common/splitlines.hpp\<close>).  The key is the buffer that holds it.
\<close>

section \<open>Lines\<close>

definition ends_with_crlf :: "string \<Rightarrow> bool" where
  "ends_with_crlf s \<longleftrightarrow> s \<noteq> [] \<and> (last s = CHR 0x0A \<or> last s = CHR 0x0D)"

function trim_crlf :: "string \<Rightarrow> string" where
  "trim_crlf s = (if ends_with_crlf s then trim_crlf (butlast s) else s)"
  by pat_completeness auto
termination
  by (relation "measure length") (auto simp: ends_with_crlf_def)

declare trim_crlf.simps [simp del]

text \<open>\<open>data[index]\<close> up to \<open>size\<close> is the list of characters not read yet.\<close>

record split_lines =
  sl_rest :: string
  sl_index :: nat
  sl_max_line_len :: nat
  sl_line :: string
  sl_overflow :: bool

definition sl_new :: "string \<Rightarrow> nat \<Rightarrow> split_lines" where
  "sl_new str max_line_len = \<lparr>sl_rest = str, sl_index = 0, sl_max_line_len = max_line_len,
     sl_line = [], sl_overflow = False\<rparr>"

fun sl_scan :: "nat \<Rightarrow> bool \<Rightarrow> string \<Rightarrow> split_lines \<Rightarrow> bool \<times> split_lines" where
  "sl_scan overflow_index trim [] s = (False, s\<lparr>sl_rest := []\<rparr>)"
| "sl_scan overflow_index trim (c # rest) s =
     (if sl_max_line_len s \<noteq> 0 \<and> sl_index s \<ge> overflow_index
      then (True, s\<lparr>sl_overflow := True, sl_rest := c # rest\<rparr>)
      else let s = s\<lparr>sl_index := sl_index s + 1, sl_line := sl_line s @ [c]\<rparr> in
        if c = CHR 0x0A \<or> rest = [] then
          (True, s\<lparr>sl_rest := rest, sl_line := (if trim then trim_crlf (sl_line s) else sl_line s)\<rparr>)
        else sl_scan overflow_index trim rest s)"

definition sl_next_line :: "bool \<Rightarrow> split_lines \<Rightarrow> bool \<times> split_lines" where
  "sl_next_line trim s =
     sl_scan (sz_add (sl_index s) (sl_max_line_len s)) trim (sl_rest s)
       (s\<lparr>sl_line := [], sl_overflow := False\<rparr>)"

datatype sl_status = S_OKAY string | S_EOF | S_ERROR

definition sl_next :: "bool \<Rightarrow> split_lines \<Rightarrow> sl_status \<times> split_lines" where
  "sl_next trim s =
     (let (r, s) = sl_next_line trim s in
      if \<not> r then (S_EOF, s)
      else if sl_overflow s then (S_ERROR, s)
      else (S_OKAY (sl_line s), s\<lparr>sl_line := []\<rparr>))"

lemma sl_scan_consumes:
  "sl_scan oi t rest s = (True, s') \<Longrightarrow> sl_max_line_len s = 0 \<Longrightarrow>
   length (sl_rest s') < length rest \<and> sl_max_line_len s' = 0"
  by (induction rest arbitrary: s) (auto simp: Let_def less_SucI split: if_splits)

section \<open>Keys\<close>

definition KEY_SIZE :: nat where "KEY_SIZE = 256"

definition SK_CIPHER :: u32 where "SK_CIPHER = 0"
definition SK_HMAC :: u32 where "SK_HMAC = 1"
definition SK_ENCRYPT :: u32 where "SK_ENCRYPT = 0"
definition SK_DECRYPT :: u32 where "SK_DECRYPT = 2"
definition SK_NORMAL :: u32 where "SK_NORMAL = 0"
definition SK_INVERSE :: u32 where "SK_INVERSE = 4"

definition key_table :: "nat list" where
  "key_table = [0, 1, 2, 3, 2, 3, 0, 1]"

definition sk_slice :: "buffer \<Rightarrow> u32 \<Rightarrow> u8 list res" where
  "sk_slice key key_specifier =
     (if b_size key \<noteq> KEY_SIZE then Inl static_key_bad_size
      else let idx = key_table ! unat (key_specifier AND 7) * 64 in
        Inr (slice idx (KEY_SIZE div 4) (content key)))"

definition static_key_head :: string where
  "static_key_head = ''-----BEGIN OpenVPN Static key V1-----''"

definition static_key_foot :: string where
  "static_key_foot = ''-----END OpenVPN Static key V1-----''"

text \<open>\<open>parse_hex\<close> into a buffer, whose \<open>push_back\<close> may throw.\<close>

fun parse_hex_buf :: "string \<Rightarrow> buffer \<Rightarrow> buffer res" where
  "parse_hex_buf [] dest = Inr dest"
| "parse_hex_buf [c] dest = Inl parse_hex_error"
| "parse_hex_buf (a # b # s) dest =
     (let high = parse_hex_char a; low = parse_hex_char b in
      if high = -1 \<or> low = -1 then Inl parse_hex_error
      else bindE (buf_push_back (word_of_int (high * 16 + low)) dest) (parse_hex_buf s))"

text \<open>\<open>parse\<close> constructs its \<open>SplitLines\<close> without a limit, for which every line read makes progress.\<close>

function sk_parse_loop :: "bool \<Rightarrow> buffer \<Rightarrow> split_lines \<Rightarrow> (bool \<times> buffer) res" where
  "sk_parse_loop in_body data s =
     (if sl_max_line_len s = 0 then
        (case sl_next_line True s of
           (False, s) \<Rightarrow> Inr (in_body, data)
         | (True, s) \<Rightarrow>
             if sl_line s = static_key_head then sk_parse_loop True data s
             else if sl_line s = static_key_foot then sk_parse_loop False data s
             else if in_body then bindE (parse_hex_buf (sl_line s) data) (\<lambda>data. sk_parse_loop in_body data s)
             else sk_parse_loop in_body data s)
      else Inl undefined_behaviour)"
  by pat_completeness auto
termination
proof (relation "measure (\<lambda>(in_body, data, s). length (sl_rest s))")
qed (auto simp: sl_next_line_def dest!: sl_scan_consumes [OF sym])

declare sk_parse_loop.simps [simp del]

definition sk_parse :: "string \<Rightarrow> buffer res" where
  "sk_parse key_text =
     bindE (alloc_ctor KEY_SIZE DESTRUCT_ZERO) (\<lambda>data.
     bindE (sk_parse_loop False data (sl_new key_text 0)) (\<lambda>(in_body, data).
       if in_body \<or> b_size data \<noteq> KEY_SIZE then Inl static_key_parse_error else Inr data))"

text \<open>\<open>for (size_t i = 0; i < KEY_SIZE; i += 16)\<close>\<close>

function sk_render_loop :: "nat \<Rightarrow> u8 list \<Rightarrow> string" where
  "sk_render_loop i d =
     (if i < KEY_SIZE
      then render_hex (Some (slice i 16 d)) False @ [CHR 0x0A] @ sk_render_loop (i + 16) d else [])"
  by pat_completeness auto
termination
  by (relation "measure (\<lambda>(i, d). KEY_SIZE - i)") auto

declare sk_render_loop.simps [simp del]

definition sk_render :: "buffer \<Rightarrow> string res" where
  "sk_render key =
     (if b_size key \<noteq> KEY_SIZE then Inl static_key_bad_size
      else Inr (static_key_head @ [CHR 0x0A] @ sk_render_loop 0 (content key) @ static_key_foot @ [CHR 0x0A]))"

definition sk_defined :: "buffer \<Rightarrow> bool" where
  "sk_defined key \<longleftrightarrow> buf_defined key"

definition sk_raw_alloc :: "buffer \<Rightarrow> buffer res" where
  "sk_raw_alloc key = alloc_init KEY_SIZE (DESTRUCT_ZERO OR ARRAY) key"

definition sk_erase :: "buffer \<Rightarrow> buffer" where
  "sk_erase key = alloc_clear key"

section \<open>The text form read back\<close>

lemma trim_crlf_line: "\<not> ends_with_crlf l \<Longrightarrow> trim_crlf (l @ [CHR 0x0A]) = l"
  by (auto simp: trim_crlf.simps [of "l @ [CHR 0x0A]"] trim_crlf.simps [of l] ends_with_crlf_def)

lemma sl_scan_line:
  "CHR 0x0A \<notin> set l \<Longrightarrow> sl_max_line_len s = 0 \<Longrightarrow>
   sl_scan oi True (l @ CHR 0x0A # rest) s =
     (True, s\<lparr>sl_index := sl_index s + length l + 1, sl_rest := rest,
             sl_line := trim_crlf (sl_line s @ l @ [CHR 0x0A])\<rparr>)"
  by (induction l arbitrary: s) (auto simp: Let_def)

lemma sl_next_line_line:
  assumes "sl_rest s = l @ CHR 0x0A # rest" and "CHR 0x0A \<notin> set l" and "\<not> ends_with_crlf l"
    and "sl_max_line_len s = 0"
  obtains s' where "sl_next_line True s = (True, s')" and "sl_line s' = l" and "sl_rest s' = rest"
    and "sl_max_line_len s' = 0"
  using assms by (simp add: sl_next_line_def sl_scan_line trim_crlf_line)

lemma render_hex_char_not:
  assumes "0 \<le> n" and "n < 16"
  shows "render_hex_char n caps \<notin> {CHR 0x0A, CHR 0x0D, CHR ''-''}"
proof -
  have "of_char (render_hex_char n caps) \<notin> {10, 13, 45 :: int}"
    using digit_cases [OF assms] by (cases caps) (auto simp: render_hex_char_def)
  then show ?thesis by auto
qed

lemma render_hex_loop_not:
  "set (render_hex_loop d caps []) \<inter> {CHR 0x0A, CHR 0x0D, CHR ''-''} = {}"
proof (induction d)
  case (Cons b d)
  show ?case
    unfolding render_hex_loop_Cons
    using Cons render_hex_char_not [OF digits_bounds(1) high_digit(2), of b caps]
      render_hex_char_not [OF digits_bounds(2,3), of b caps] by auto
qed simp

lemma hex_line:
  "CHR 0x0A \<notin> set (render_hex_loop d caps [])" "\<not> ends_with_crlf (render_hex_loop d caps [])"
  "d \<noteq> [] \<Longrightarrow> render_hex_loop d caps [] \<noteq> static_key_head"
  "d \<noteq> [] \<Longrightarrow> render_hex_loop d caps [] \<noteq> static_key_foot"
proof -
  note n = render_hex_loop_not [of d caps]
  show "CHR 0x0A \<notin> set (render_hex_loop d caps [])" using n by auto
  show "\<not> ends_with_crlf (render_hex_loop d caps [])"
    using n unfolding ends_with_crlf_def by (metis disjoint_iff insertCI last_in_set)
  have "CHR ''-'' \<notin> set (render_hex_loop d caps [])" using n by auto
  moreover have "CHR ''-'' \<in> set static_key_head" "CHR ''-'' \<in> set static_key_foot"
    by (simp_all add: static_key_head_def static_key_foot_def)
  ultimately show "d \<noteq> [] \<Longrightarrow> render_hex_loop d caps [] \<noteq> static_key_head"
    "d \<noteq> [] \<Longrightarrow> render_hex_loop d caps [] \<noteq> static_key_foot" by auto
qed

lemma mark_lines:
  "CHR 0x0A \<notin> set static_key_head" "\<not> ends_with_crlf static_key_head"
  "CHR 0x0A \<notin> set static_key_foot" "\<not> ends_with_crlf static_key_foot"
  "static_key_foot \<noteq> static_key_head"
  by (simp_all add: static_key_head_def static_key_foot_def ends_with_crlf_def)

lemma push_back_fits:
  assumes "buf_wf b" and "b_off b + b_size b + 1 \<le> b_cap b"
  obtains b' where "buf_push_back v b = Inr b'" and "buf_wf b'" and "content b' = content b @ [v]"
    and "b_size b' = b_size b + 1" and "b_off b' = b_off b" and "b_cap b' = b_cap b"
proof -
  obtain b' where b': "buf_push_back v b = Inr b'" "b_cap b' = b_cap b"
    using buf_write_fits [OF assms(1), of "[v]"] assms(2) buf_push_back_write [OF assms(1), of v] by auto
  then have "buf_write [v] b = Inr b'" using buf_push_back_write [OF assms(1), of v] by simp
  from buf_write_ok [OF assms(1) this] b' that show thesis by simp
qed

lemma parse_hex_buf_render:
  "buf_wf b \<Longrightarrow> b_off b + b_size b + length d \<le> b_cap b \<Longrightarrow>
   \<exists>b'. parse_hex_buf (render_hex_loop d caps []) b = Inr b' \<and> buf_wf b' \<and> content b' = content b @ d
     \<and> b_size b' = b_size b + length d \<and> b_off b' = b_off b \<and> b_cap b' = b_cap b"
proof (induction d arbitrary: b)
  case (Cons x d)
  have f: "b_off b + b_size b + 1 \<le> b_cap b" using Cons.prems(2) by simp
  obtain b1 where b1: "buf_push_back x b = Inr b1" "buf_wf b1" "content b1 = content b @ [x]"
    "b_size b1 = b_size b + 1" "b_off b1 = b_off b" "b_cap b1 = b_cap b"
    by (rule push_back_fits [OF Cons.prems(1) f]) blast
  have "parse_hex_buf (render_hex_loop (x # d) caps []) b = parse_hex_buf (render_hex_loop d caps []) b1"
    unfolding render_hex_loop_Cons parse_hex_buf.simps Let_def
      parse_render_hex_char [OF digits_bounds(1) high_digit(2)]
      parse_render_hex_char [OF digits_bounds(2,3)] digits_byte
    using b1(1) by simp
  then show ?case using Cons.IH [OF b1(2)] b1 Cons.prems(2) by auto
qed simp

lemma parse_rendered_lines:
  assumes "length d = KEY_SIZE" and "i \<le> KEY_SIZE" and "16 dvd i"
    and "buf_wf b" and "content b = take i d" and "b_off b = 0" and "b_cap b = KEY_SIZE"
    and "sl_rest s = sk_render_loop i d @ static_key_foot @ [CHR 0x0A]" and "sl_max_line_len s = 0"
  shows "\<exists>b'. sk_parse_loop True b s = Inr (False, b') \<and> content b' = d \<and> buf_wf b' \<and> b_off b' = 0"
  using assms
proof (induction i d arbitrary: b s rule: sk_render_loop.induct)
  case (1 i d)
  note step = sk_parse_loop.simps [of True b s]
  show ?case
  proof (cases "i < KEY_SIZE")
    case True
    then have i: "i + 16 \<le> KEY_SIZE" using 1(4) by (auto simp: KEY_SIZE_def elim!: dvdE)
    let ?l = "render_hex_loop (slice i 16 d) False []"
    have rest: "sl_rest s = ?l @ CHR 0x0A # (sk_render_loop (i + 16) d @ static_key_foot @ [CHR 0x0A])"
      using True 1(9) by (simp add: sk_render_loop.simps [of i] render_hex_def)
    obtain s' where s': "sl_next_line True s = (True, s')" "sl_line s' = ?l"
      "sl_rest s' = sk_render_loop (i + 16) d @ static_key_foot @ [CHR 0x0A]" "sl_max_line_len s' = 0"
      by (rule sl_next_line_line [OF rest hex_line(1,2) 1(10)]) blast
    have sz: "b_size b = i" using length_content [OF 1(5)] 1(2,6) i by simp
    have l16: "length (slice i 16 d) = 16" using i 1(2) by simp
    obtain b' where b': "parse_hex_buf ?l b = Inr b'" "buf_wf b'" "content b' = take i d @ slice i 16 d"
      "b_off b' = 0" "b_cap b' = KEY_SIZE"
      using parse_hex_buf_render [OF 1(5), of "slice i 16 d" False] sz l16 i 1(6-8) by auto
    have ne: "slice i 16 d \<noteq> []" using l16 by (metis list.size(3) zero_neq_numeral)
    have "sk_parse_loop True b s = sk_parse_loop True b' s'"
      using 1(10) s' b'(1) hex_line(3,4) [OF ne] by (simp add: step)
    moreover have "content b' = take (i + 16) d" using b'(3) by (simp add: slice_def take_add)
    moreover have "16 dvd i + 16" using 1(4) by simp
    ultimately show ?thesis using 1(1) [OF True 1(2) i _ b'(2) _ b'(4,5) s'(3,4)] by simp
  next
    case False
    then have d: "content b = d" using 1(2,3,6) by simp
    have rest: "sl_rest s = static_key_foot @ CHR 0x0A # []"
      using False 1(9) by (simp add: sk_render_loop.simps [of i])
    obtain s' where s': "sl_next_line True s = (True, s')" "sl_line s' = static_key_foot"
      "sl_rest s' = []" "sl_max_line_len s' = 0"
      by (rule sl_next_line_line [OF rest mark_lines(3,4) 1(10)]) blast
    have "sk_parse_loop False b s' = Inr (False, b)"
      using s' by (simp add: sk_parse_loop.simps [of False] sl_next_line_def)
    then have "sk_parse_loop True b s = Inr (False, b)"
      using 1(10) s' mark_lines(5) by (simp add: step)
    then show ?thesis using d 1(5,7) by simp
  qed
qed

section \<open>Properties\<close>

text \<open>
  Round trip: the text of a key of 256 bytes parses back to a key with the same bytes, and a
  key of any other size is not rendered.
\<close>

theorem static_key_text_roundtrip:
  assumes "buf_wf key"
  shows "(case sk_render key of
      Inl e \<Rightarrow> e = static_key_bad_size \<and> b_size key \<noteq> KEY_SIZE
    | Inr text \<Rightarrow> \<exists>key'. sk_parse text = Inr key' \<and> content key' = content key)"
proof (cases "b_size key = KEY_SIZE")
  case False
  then show ?thesis by (simp add: sk_render_def)
next
  case True
  let ?d = "content key"
  have len: "length ?d = KEY_SIZE" using True assms by simp
  let ?body = "sk_render_loop 0 ?d @ static_key_foot @ [CHR 0x0A]"
  let ?s = "sl_new (static_key_head @ CHR 0x0A # ?body) 0"
  let ?b = "\<lparr>b_data = replicate KEY_SIZE uninit, b_off = 0, b_size = 0, b_cap = KEY_SIZE,
      b_kind = Allocated DESTRUCT_ZERO\<rparr>"
  have b: "alloc_ctor KEY_SIZE DESTRUCT_ZERO = Inr ?b"
    by (simp add: alloc_ctor_def new_array_def KEY_SIZE_def flag_set_def DESTRUCT_ZERO_def ARRAY_def
        CONSTRUCT_ZERO_def)
  have r: "sl_rest ?s = static_key_head @ CHR 0x0A # ?body" and m: "sl_max_line_len ?s = 0"
    by (simp_all add: sl_new_def)
  obtain s' where s': "sl_next_line True ?s = (True, s')" "sl_line s' = static_key_head"
    "sl_rest s' = ?body" "sl_max_line_len s' = 0"
    by (rule sl_next_line_line [OF r mark_lines(1,2) m]) blast
  have "buf_wf ?b" "content ?b = take 0 ?d" by (simp_all add: buf_wf_def KEY_SIZE_def content_def)
  then obtain b' where b': "sk_parse_loop True ?b s' = Inr (False, b')" "content b' = ?d" "buf_wf b'"
    using parse_rendered_lines [OF len, of 0 ?b s'] s'(3,4) by auto
  have "sk_parse_loop False ?b ?s = Inr (False, b')"
    using s' m b'(1) by (simp add: sk_parse_loop.simps [of False ?b ?s])
  moreover have "b_size b' = KEY_SIZE" using length_content [OF b'(3)] b'(2) len by simp
  ultimately show ?thesis using True b b'(2) by (simp add: sk_render_def sk_parse_def)
qed

definition demo_key :: buffer where
  "demo_key = \<lparr>b_data = map of_nat [0..<256], b_off = 0, b_size = 256, b_cap = 256,
     b_kind = Allocated DESTRUCT_ZERO\<rparr>"

theorem static_key_text_roundtrip_witness:
  "\<exists>text key'. sk_render demo_key = Inr text \<and> sk_parse text = Inr key'
     \<and> content key' = map of_nat [0..<256]"
proof -
  have w: "buf_wf demo_key" by (simp add: demo_key_def buf_wf_def)
  have s: "b_size demo_key = KEY_SIZE" by (simp add: demo_key_def KEY_SIZE_def)
  have "content demo_key = map of_nat [0..<256]"
    by (simp add: demo_key_def content_def slice_def del: upt_rec_numeral)
  then show ?thesis
    using static_key_text_roundtrip [OF w] s by (simp add: sk_render_def)
qed

end
