(* ===== verification/TlsPrf.thy ===== *)
theory TlsPrf
  imports StaticKey Psid BufComposed
begin

text \<open>
  The key exchange of the data channel (\<open>ssl/tlsprf.hpp\<close>): the random material each end sends, and
  the TLS pseudo-random function that expands it into a static key.  The HMAC is a parameter
  \<open>mac\<close>: digest, key and message to the tag.  A random generator is a function from the number of the
  call and the length asked for to the bytes.
\<close>

type_synonym rng = "nat \<Rightarrow> nat \<Rightarrow> u8 list"

record tlsprf =
  tp_initialized :: bool
  tp_server :: bool
  tp_pre_master :: "u8 list"
  tp_random1 :: "u8 list"
  tp_random2 :: "u8 list"

definition tp_new :: "bool \<Rightarrow> tlsprf" where
  "tp_new server =
     \<lparr>tp_initialized = False, tp_server = server, tp_pre_master = replicate 48 uninit,
      tp_random1 = replicate 32 uninit, tp_random2 = replicate 32 uninit\<rparr>"

text \<open>\<open>n\<close> is the number of calls of the generator so far.\<close>

definition tp_randomize :: "rng \<Rightarrow> nat \<Rightarrow> tlsprf \<Rightarrow> tlsprf \<times> nat" where
  "tp_randomize rng n t =
     (let (t, n) = (if \<not> tp_server t then (t\<lparr>tp_pre_master := rng n 48\<rparr>, n + 1) else (t, n)) in
      (t\<lparr>tp_random1 := rng n 32, tp_random2 := rng (n + 1) 32, tp_initialized := True\<rparr>, n + 2))"

definition tp_read_field :: "nat \<Rightarrow> (u8 list \<Rightarrow> tlsprf \<Rightarrow> tlsprf) \<Rightarrow> (unit, buffer \<times> tlsprf) st" where
  "tp_read_field n upd s =
     (case buf_read n (fst s) of Inl e \<Rightarrow> (Inl e, s) | Inr (d, b) \<Rightarrow> (Inr (), (b, upd d (snd s))))"

definition tp_read :: "(unit, buffer \<times> tlsprf) st" where
  "tp_read =
     bindS (\<lambda>s. if \<not> tp_server (snd s) then tp_read_field 48 (\<lambda>d t. t\<lparr>tp_pre_master := d\<rparr>) s else (Inr (), s)) (\<lambda>_.
     bindS (tp_read_field 32 (\<lambda>d t. t\<lparr>tp_random1 := d\<rparr>)) (\<lambda>_.
     bindS (tp_read_field 32 (\<lambda>d t. t\<lparr>tp_random2 := d\<rparr>)) (\<lambda>_ (b, t).
       (Inr (), (b, t\<lparr>tp_initialized := True\<rparr>)))))"

definition tp_read_complete :: "tlsprf \<Rightarrow> complete \<Rightarrow> bool \<times> complete" where
  "tp_read_complete t c =
     (let need = 32 + 32; need = (if \<not> tp_server t then need + 48 else need) in cm_advance need c)"

definition tp_verify_initialized :: "tlsprf \<Rightarrow> unit res" where
  "tp_verify_initialized t = (if \<not> tp_initialized t then Inl tlsprf_uninitialized else Inr ())"

definition tp_write :: "tlsprf \<Rightarrow> buffer \<Rightarrow> buffer res" where
  "tp_write t b =
     bindE (tp_verify_initialized t) (\<lambda>_.
     bindE (if \<not> tp_server t then buf_write (tp_pre_master t) b else Inr b) (\<lambda>b.
     bindE (buf_write (tp_random1 t) b) (buf_write (tp_random2 t))))"

definition tp_erase :: "tlsprf \<Rightarrow> tlsprf" where
  "tp_erase t =
     (if tp_initialized t then
        (if \<not> tp_server t then t\<lparr>tp_pre_master := replicate 48 0\<rparr> else t)
          \<lparr>tp_random1 := replicate 32 0, tp_random2 := replicate 32 0, tp_initialized := False\<rparr>
      else t)"

section \<open>The pseudo-random function\<close>

datatype md_type = MD5 | SHA1

fun md_size :: "md_type \<Rightarrow> nat" where
  "md_size MD5 = 16"
| "md_size SHA1 = 20"

type_synonym mac = "md_type \<Rightarrow> u8 list \<Rightarrow> u8 list \<Rightarrow> u8 list"

lemma md_size_pos: "0 < md_size md" by (cases md) simp_all

function prf_hash_loop :: "mac \<Rightarrow> md_type \<Rightarrow> u8 list \<Rightarrow> u8 list \<Rightarrow> u8 list \<Rightarrow> nat \<Rightarrow> u8 list" where
  "prf_hash_loop mac md sec a1 seed olen =
     (let out = mac md sec (a1 @ seed) in
      if olen > md_size md then out @ prf_hash_loop mac md sec (mac md sec a1) seed (olen - md_size md)
      else take olen out)"
  by pat_completeness auto
termination
  by (relation "measure (\<lambda>(mac, md, sec, a1, seed, olen). olen)") (auto simp: md_size_pos)

declare prf_hash_loop.simps [simp del]

definition prf_hash :: "mac \<Rightarrow> md_type \<Rightarrow> u8 list \<Rightarrow> u8 list \<Rightarrow> nat \<Rightarrow> u8 list" where
  "prf_hash mac md sec seed olen = prf_hash_loop mac md sec (mac md sec seed) seed olen"

text \<open>The two halves of the secret share the middle byte of an odd length.\<close>

definition tls_prf :: "mac \<Rightarrow> u8 list \<Rightarrow> u8 list \<Rightarrow> nat \<Rightarrow> u8 list" where
  "tls_prf mac label sec olen =
     (let len = length sec div 2; s2 = drop len sec; len = len + length sec mod 2 in
      map2 (XOR) (prf_hash mac MD5 (take len sec) label olen) (prf_hash mac SHA1 (take len s2) label olen))"

text \<open>The seed buffer is allocated for everything written to it.\<close>

definition openvpn_prf ::
    "mac \<Rightarrow> u8 list \<Rightarrow> u8 list \<Rightarrow> u8 list \<Rightarrow> u8 list \<Rightarrow> psid option \<Rightarrow> psid option \<Rightarrow> nat \<Rightarrow> u8 list" where
  "openvpn_prf mac secret label client_seed server_seed client_sid server_sid olen =
     (let sid = (\<lambda>s. case s of None \<Rightarrow> [] | Some p \<Rightarrow> psid_id p) in
      tls_prf mac (label @ client_seed @ server_seed @ sid client_sid @ sid server_sid) secret olen)"

definition str_bytes :: "string \<Rightarrow> u8 list" where
  "str_bytes s = map (\<lambda>c. of_nat (of_char c)) s"

definition master_secret_id :: "u8 list" where "master_secret_id = str_bytes ''OpenVPN master secret''"
definition key_expansion_id :: "u8 list" where "key_expansion_id = str_bytes ''OpenVPN key expansion''"

definition gen_exp :: "mac \<Rightarrow> buffer \<Rightarrow> tlsprf \<Rightarrow> psid \<Rightarrow> tlsprf \<Rightarrow> psid \<Rightarrow> buffer res" where
  "gen_exp mac dest client psid_client server psid_server =
     bindE (tp_verify_initialized client) (\<lambda>_.
     bindE (tp_verify_initialized server) (\<lambda>_.
     let master = openvpn_prf mac (tp_pre_master client) master_secret_id (tp_random1 client) (tp_random1 server)
           None None 48 in
     bindE (sk_raw_alloc dest) (\<lambda>dest.
       Inr (dest\<lparr>b_data := openvpn_prf mac master key_expansion_id (tp_random2 client) (tp_random2 server)
              (Some psid_client) (Some psid_server) KEY_SIZE\<rparr>))))"

definition generate_key_expansion :: "mac \<Rightarrow> buffer \<Rightarrow> tlsprf \<Rightarrow> tlsprf \<Rightarrow> psid \<Rightarrow> psid \<Rightarrow> buffer res" where
  "generate_key_expansion mac dest self peer psid_self psid_peer =
     (if tp_server self = tp_server peer then Inl tlsprf_client_server_mismatch
      else if tp_server self then gen_exp mac dest peer psid_peer self psid_self
      else gen_exp mac dest self psid_self peer psid_peer)"

section \<open>Both ends derive the same key\<close>

text \<open>\<open>t'\<close> holds what was read from what \<open>t\<close> wrote.\<close>

definition tp_copy :: "tlsprf \<Rightarrow> tlsprf \<Rightarrow> bool" where
  "tp_copy t t' \<longleftrightarrow> tp_initialized t \<and> tp_initialized t' \<and> tp_server t' = tp_server t
     \<and> (\<not> tp_server t \<longrightarrow> tp_pre_master t' = tp_pre_master t)
     \<and> tp_random1 t' = tp_random1 t \<and> tp_random2 t' = tp_random2 t"

definition tp_sized :: "tlsprf \<Rightarrow> bool" where
  "tp_sized t \<longleftrightarrow> length (tp_pre_master t) = 48 \<and> length (tp_random1 t) = 32 \<and> length (tp_random2 t) = 32"

definition tp_bytes :: "tlsprf \<Rightarrow> u8 list" where
  "tp_bytes t = (if \<not> tp_server t then tp_pre_master t else []) @ tp_random1 t @ tp_random2 t"

lemma tp_write_Inr:
  assumes "tp_sized t" and "buf_wf b" and "tp_write t b = Inr b'"
  shows "tp_initialized t \<and> buf_wf b' \<and> content b' = content b @ tp_bytes t \<and> b_kind b' = b_kind b"
proof -
  obtain b1 b2 where b: "(if \<not> tp_server t then buf_write (tp_pre_master t) b else Inr b) = Inr b1"
    "buf_write (tp_random1 t) b1 = Inr b2" "buf_write (tp_random2 t) b2 = Inr b'" and i: "tp_initialized t"
    using assms(3) by (auto simp: tp_write_def tp_verify_initialized_def exn_simps split: if_splits)
  have 1: "buf_wf b1 \<and> content b1 = content b @ (if \<not> tp_server t then tp_pre_master t else []) \<and> b_kind b1 = b_kind b"
    using b(1) assms(1,2) buf_write_ok [OF assms(2), of "tp_pre_master t" b1]
    by (cases "tp_server t") (auto simp: tp_sized_def)
  have 2: "buf_wf b2 \<and> content b2 = content b1 @ tp_random1 t \<and> b_kind b2 = b_kind b1"
    using buf_write_ok [OF _ b(2)] 1 assms(1) by (simp add: tp_sized_def)
  show ?thesis
    using buf_write_ok [OF _ b(3)] 1 2 i assms(1) by (simp add: tp_sized_def tp_bytes_def)
qed

lemma tp_write_fits:
  assumes "tp_sized t" and "tp_initialized t" and "buf_wf b" and "b_off b + b_size b + 112 \<le> b_cap b"
  obtains b' where "tp_write t b = Inr b'" and "b_cap b' = b_cap b" and "b_off b' = b_off b"
    and "b_size b' \<le> b_size b + 112"
proof -
  have step: "\<exists>b'. buf_write d x = Inr b' \<and> b_cap b' = b_cap x \<and> buf_wf b' \<and> b_off b' = b_off x
      \<and> b_size b' = b_size x + length d" if "buf_wf x" "b_off x + b_size x + length d \<le> b_cap x" "length d \<le> 48" for x d
    using buf_write_fits [OF that(1,2)] buf_write_ok [OF that(1), of d] that(3) by fastforce
  obtain b1 where b1: "(if \<not> tp_server t then buf_write (tp_pre_master t) b else Inr b) = Inr b1" "b_cap b1 = b_cap b"
    "buf_wf b1" "b_off b1 = b_off b" "b_size b1 \<le> b_size b + 48"
    using step [OF assms(3), of "tp_pre_master t"] assms(1,3,4) by (cases "tp_server t") (auto simp: tp_sized_def)
  obtain b2 where b2: "buf_write (tp_random1 t) b1 = Inr b2" "b_cap b2 = b_cap b" "buf_wf b2" "b_off b2 = b_off b"
    "b_size b2 \<le> b_size b + 80"
    using step [OF b1(3), of "tp_random1 t"] b1 assms(1,4) by (auto simp: tp_sized_def)
  obtain b3 where b3: "buf_write (tp_random2 t) b2 = Inr b3" "b_cap b3 = b_cap b" "b_off b3 = b_off b"
    "b_size b3 \<le> b_size b + 112"
    using step [OF b2(3), of "tp_random2 t"] b2 assms(1,4) by (auto simp: tp_sized_def)
  show thesis
    using that b1(1) b2(1) b3 assms(2) by (simp add: tp_write_def tp_verify_initialized_def)
qed

lemma tp_read_bytes:
  assumes "buf_wf b" and "content b = tp_bytes t @ rest" and "tp_sized t" and "tp_server p = tp_server t"
    and "tp_initialized t"
  obtains b' p' where "tp_read (b, p) = (Inr (), (b', p'))" and "buf_wf b'" and "content b' = rest" and "tp_copy t p'"
proof -
  define pm where "pm = (if \<not> tp_server t then tp_pre_master t else [])"
  obtain b1 where b1: "(if \<not> tp_server p then tp_read_field 48 (\<lambda>d t. t\<lparr>tp_pre_master := d\<rparr>) (b, p) else (Inr (), (b, p)))
      = (Inr (), (b1, if \<not> tp_server t then p\<lparr>tp_pre_master := tp_pre_master t\<rparr> else p))"
    "buf_wf b1" "content b1 = tp_random1 t @ tp_random2 t @ rest"
    using wire.read_prefix [of b "tp_pre_master t" "tp_random1 t @ tp_random2 t @ rest" 48] assms
    by (cases "tp_server t") (auto simp: tp_read_field_def tp_bytes_def tp_sized_def)
  obtain b2 where b2: "buf_read 32 b1 = Inr (tp_random1 t, b2)" "buf_wf b2" "content b2 = tp_random2 t @ rest"
    using wire.read_prefix [OF b1(2,3), of 32] assms(3) by (auto simp: tp_sized_def)
  obtain b3 where b3: "buf_read 32 b2 = Inr (tp_random2 t, b3)" "buf_wf b3" "content b3 = rest"
    using wire.read_prefix [OF b2(2,3), of 32] assms(3) by (auto simp: tp_sized_def)
  show thesis
    using that [of b3 "(if \<not> tp_server t then p\<lparr>tp_pre_master := tp_pre_master t\<rparr> else p)
        \<lparr>tp_random1 := tp_random1 t, tp_random2 := tp_random2 t, tp_initialized := True\<rparr>"] b1(1) b2(1) b3 assms(4,5)
    by (auto simp: tp_read_def bindS_def tp_read_field_def tp_copy_def)
qed

lemma key_expansion_agrees:
  assumes "tp_copy c c'" and "tp_copy s s'" and "\<not> tp_server c" and "tp_server s"
    and "psid_id pc' = psid_id pc" and "psid_id ps' = psid_id ps"
  shows "generate_key_expansion mac dest c s' pc ps' = generate_key_expansion mac dest s c' ps pc'"
  using assms by (simp add: generate_key_expansion_def gen_exp_def tp_copy_def tp_verify_initialized_def openvpn_prf_def)

text \<open>What one end encrypts with, the other decrypts with.\<close>

lemma slices_complementary:
  assumes "sel \<in> {SK_HMAC, SK_CIPHER}"
  shows "sk_slice key (sel OR SK_ENCRYPT OR SK_NORMAL) = sk_slice key (sel OR SK_DECRYPT OR SK_INVERSE)"
    and "sk_slice key (sel OR SK_DECRYPT OR SK_NORMAL) = sk_slice key (sel OR SK_ENCRYPT OR SK_INVERSE)"
  using assms
  by (auto simp: sk_slice_def SK_HMAC_def SK_CIPHER_def SK_ENCRYPT_def SK_DECRYPT_def SK_NORMAL_def
      SK_INVERSE_def key_table_def)

end
