(* ===== verification/CtlWrap.thy ===== *)
theory CtlWrap
  imports ProtoStack PacketId Psid StaticKey TlsPrf
begin

text \<open>
  The wrapping of control packets on their way out: \<open>OvpnHMAC\<close> (\<open>crypto/ovpnhmac.hpp\<close>), \<open>TLSCrypt\<close>
  (\<open>crypto/tls_crypt.hpp\<close>) and the \<open>encapsulate\<close> side of \<open>KeyContext\<close> (\<open>ssl/proto.hpp\<close>).  The HMAC and
  the cipher come from mbedTLS or OpenSSL and are parameters: an HMAC context is its digest size
  and the digest of the bytes it has absorbed under its key, a cipher context maps an IV and a
  text to the text encrypted or decrypted, or to \<open>None\<close> for an error of the library.
\<close>

section \<open>HMAC and cipher contexts\<close>

record hmac_ctx =
  hm_size :: nat
  hm_mac :: "u8 list \<Rightarrow> u8 list"

datatype cipher_mode = MODE_UNDEF | MODE_ENCRYPT | MODE_DECRYPT

record crypt_ctx =
  tc_hmac :: hmac_ctx
  tc_iv_len :: nat
  tc_cipher :: "u8 list \<Rightarrow> u8 list \<Rightarrow> u8 list option"
  tc_mode :: cipher_mode

text \<open>\<open>init\<close> with the digest's key size and the library's constructors.\<close>

definition ovpn_hmac_init :: "(u8 list \<Rightarrow> hmac_ctx) \<Rightarrow> nat \<Rightarrow> u8 list \<Rightarrow> hmac_ctx res" where
  "ovpn_hmac_init hmac_new alg_size key =
     (if length key < alg_size then Inl ovpn_hmac_context_digest_size
      else Inr (hmac_new (take alg_size key)))"

definition tc_init ::
    "(u8 list \<Rightarrow> hmac_ctx) \<Rightarrow> nat \<Rightarrow> (u8 list \<Rightarrow> cipher_mode \<Rightarrow> nat \<times> (u8 list \<Rightarrow> u8 list \<Rightarrow> u8 list option))
     \<Rightarrow> u8 list \<Rightarrow> u8 list \<Rightarrow> cipher_mode \<Rightarrow> crypt_ctx res" where
  "tc_init hmac_new alg_size cipher_new key_hmac key_crypt mode =
     (if length key_hmac < alg_size then Inl ovpn_tls_crypt_context_digest_size
      else let (iv_len, cipher) = cipher_new key_crypt mode in
        Inr \<lparr>tc_hmac = hmac_new (take alg_size key_hmac), tc_iv_len = iv_len,
             tc_cipher = cipher, tc_mode = mode\<rparr>)"

text \<open>
  \<open>ovpn_hmac_pre\<close>: the bytes absorbed, in HMAC order.  The packet is
  \<open>[OP] [PSID]\<close> (\<open>l1\<close>), \<open>[HMAC]\<close> (\<open>l2\<close>), \<open>[PID]\<close> (\<open>l3\<close>), rest.
\<close>

definition ovpn_hmac_pre :: "hmac_ctx \<Rightarrow> u8 list \<Rightarrow> nat \<Rightarrow> nat \<Rightarrow> nat \<Rightarrow> u8 list option" where
  "ovpn_hmac_pre h data l1 l2 l3 =
     (let lsum = l1 + l2 + l3 in
      if lsum > length data \<or> l2 \<noteq> hm_size h then None
      else Some (slice (l1 + l2) l3 data @ take l1 data @ drop lsum data))"

definition ovpn_hmac_gen :: "hmac_ctx \<Rightarrow> u8 list \<Rightarrow> nat \<Rightarrow> nat \<Rightarrow> nat \<Rightarrow> u8 list res" where
  "ovpn_hmac_gen h data l1 l2 l3 =
     (case ovpn_hmac_pre h data l1 l2 l3 of
        Some x \<Rightarrow> Inr (blit data l1 (hm_mac h x))
      | None \<Rightarrow> Inl ovpn_hmac_context_bad_sizing)"

text \<open>\<open>mem\<close>: the architecture and the addresses of the two areas compared.\<close>

type_synonym mem_place = "arch \<times> nat \<times> nat"

definition ovpn_hmac_cmp :: "mem_place \<Rightarrow> hmac_ctx \<Rightarrow> u8 list \<Rightarrow> nat \<Rightarrow> nat \<Rightarrow> nat \<Rightarrow> bool" where
  "ovpn_hmac_cmp mem h data l1 l2 l3 =
     (case ovpn_hmac_pre h data l1 l2 l3 of
        Some x \<Rightarrow> (case mem of (ar, pa, pb) \<Rightarrow> \<not> memneq ar (pa, slice l1 l2 data) (pb, hm_mac h x) l2)
      | None \<Rightarrow> False)"

definition tc_hmac_digest :: "crypt_ctx \<Rightarrow> u8 list \<Rightarrow> u8 list \<Rightarrow> u8 list" where
  "tc_hmac_digest c header payload = hm_mac (tc_hmac c) (header @ payload)"

definition tc_hmac_cmp :: "mem_place \<Rightarrow> crypt_ctx \<Rightarrow> u8 list \<Rightarrow> u8 list \<Rightarrow> u8 list \<Rightarrow> bool" where
  "tc_hmac_cmp mem c header tag payload =
     (case mem of (ar, pa, pb) \<Rightarrow>
        \<not> memneq ar (pa, tag) (pb, tc_hmac_digest c header payload) (hm_size (tc_hmac c)))"

text \<open>\<open>encrypt_decrypt\<close> returns the length of the output, 0 on an error: the list it wrote.\<close>

definition tc_encrypt_decrypt :: "crypt_ctx \<Rightarrow> u8 list \<Rightarrow> u8 list \<Rightarrow> u8 list" where
  "tc_encrypt_decrypt c iv inp = (case tc_cipher c iv inp of None \<Rightarrow> [] | Some out \<Rightarrow> out)"

definition tc_encrypt :: "crypt_ctx \<Rightarrow> u8 list \<Rightarrow> u8 list \<Rightarrow> u8 list res" where
  "tc_encrypt c iv inp =
     (if tc_mode c \<noteq> MODE_ENCRYPT then Inl ovpn_tls_crypt_wrong_mode else Inr (tc_encrypt_decrypt c iv inp))"

definition tc_decrypt :: "crypt_ctx \<Rightarrow> u8 list \<Rightarrow> u8 list \<Rightarrow> u8 list res" where
  "tc_decrypt c iv inp =
     (if tc_mode c \<noteq> MODE_DECRYPT then Inl ovpn_tls_crypt_wrong_mode else Inr (tc_encrypt_decrypt c iv inp))"

section \<open>Reading and writing memory\<close>

text \<open>
  Loads and stores through a pointer into a buffer's array.  The libraries are given no bound
  (mbedTLS ignores \<open>max_out_size\<close>), so an access outside the array is undefined.
\<close>

definition mem_read :: "nat \<Rightarrow> nat \<Rightarrow> buffer \<Rightarrow> u8 list res" where
  "mem_read pos n b =
     (if pos + n \<le> length (b_data b) then Inr (slice pos n (b_data b)) else Inl undefined_behaviour)"

definition mem_write :: "nat \<Rightarrow> u8 list \<Rightarrow> buffer \<Rightarrow> buffer res" where
  "mem_write pos d b =
     (if pos + length d \<le> length (b_data b) then Inr (b\<lparr>b_data := blit (b_data b) pos d\<rparr>)
      else Inl undefined_behaviour)"

section \<open>The contexts of the protocol\<close>

datatype wrap_mode = TLS_PLAIN | TLS_AUTH | TLS_CRYPT | TLS_CRYPT_V2

text \<open>\<open>Protocol\<close> (\<open>transport/protocol.hpp\<close>).\<close>

datatype protocol =
    Proto_NONE | UDPv4 | TCPv4 | UDPv6 | TCPv6 | TLSv4 | TLSv6 | UnixStream | UnixDGram | NamedPipe

definition proto_is_udp :: "protocol \<Rightarrow> bool" where
  "proto_is_udp p \<longleftrightarrow> p = UDPv4 \<or> p = UDPv6"

definition proto_is_tcp :: "protocol \<Rightarrow> bool" where
  "proto_is_tcp p \<longleftrightarrow> p = TCPv4 \<or> p = TCPv6"

definition proto_is_tls :: "protocol \<Rightarrow> bool" where
  "proto_is_tls p \<longleftrightarrow> p = TLSv4 \<or> p = TLSv6"

definition proto_is_reliable :: "protocol \<Rightarrow> bool" where
  "proto_is_reliable p \<longleftrightarrow> proto_is_tcp p \<or> proto_is_tls p"

text \<open>
  The part of the configuration that the session uses and does not change.  The options string and
  the peer info are what \<open>options_string\<close> and \<open>peer_info_string\<close> return.
\<close>

record config =
  cf_handshake_window :: duration
  cf_become_primary :: duration
  cf_renegotiate :: duration
  cf_expire :: duration
  cf_tls_timeout :: duration
  cf_reliable_window :: u32
  cf_max_ack_list :: nat
  cf_pid_mode :: int
  cf_xmit_creds :: bool
  cf_options_string :: "u8 list"
  cf_peer_info :: "u8 list"

text \<open>
  The members of \<open>ProtoContext\<close> and its configuration that the control channel uses.  \<open>pc_base\<close> is
  the address of the arrays that frame contexts align, \<open>pc_epoch\<close> the base of the clock; the
  result depends on neither them nor \<open>pc_mem\<close>.  \<open>pc_errors\<close> lists what goes to the session
  statistics, a code of its own or one of the packet ID layer.  \<open>pc_hmac_new\<close> and \<open>pc_cipher_new\<close> make
  contexts of the configured digest, whose key is as long as its output, and cipher; \<open>pc_prf_mac\<close> is the
  HMAC of the key exchange, \<open>pc_rng\<close> the random generator with the number of its calls so far.
  \<open>pc_client_auth\<close> and \<open>pc_server_auth\<close> are the virtual methods of the application; what it is told
  is logged in \<open>pc_auths\<close>, \<open>pc_actives\<close>, \<open>pc_control_recv\<close> and \<open>pc_net_sent\<close>.
\<close>

record proto =
  pc_server :: bool
  pc_protocol :: protocol
  pc_wrap_mode :: wrap_mode
  pc_hmac_size :: nat
  pc_frame :: frame
  pc_base :: nat
  pc_epoch :: int
  pc_mem :: mem_place
  pc_now :: time_pt
  pc_keepalive_timeout :: duration
  pc_keepalive_expire :: time_pt
  pc_wkc :: buffer
  pc_hmac_new :: "u8 list \<Rightarrow> hmac_ctx"
  pc_cipher_new :: "u8 list \<Rightarrow> cipher_mode \<Rightarrow> nat \<times> (u8 list \<Rightarrow> u8 list \<Rightarrow> u8 list option)"
  pc_metadata_verify :: "int \<Rightarrow> buffer \<Rightarrow> bool"
  pc_ta_hmac_send :: hmac_ctx
  pc_ta_hmac_recv :: hmac_ctx
  pc_tls_crypt_send :: "crypt_ctx option"
  pc_tls_crypt_recv :: "crypt_ctx option"
  pc_tls_crypt_server :: "crypt_ctx option"
  pc_ta_pid_send :: pid_send
  pc_ta_pid_recv :: pid_recv
  pc_psid_self :: psid
  pc_psid_peer :: psid
  pc_errors :: "(stack_reason + pkt_err) list"
  pc_cfg :: config
  pc_keepalive_ping :: duration
  pc_keepalive_xmit :: time_pt
  pc_upcoming_key_id :: u32
  pc_n_key_ids :: u32
  pc_slowest_handshake :: duration
  pc_dc_deferred :: bool
  pc_rng :: rng
  pc_rng_calls :: nat
  pc_prf_mac :: mac
  pc_client_auth :: "buffer \<Rightarrow> buffer res"
  pc_server_auth :: "u8 list \<Rightarrow> u8 list \<Rightarrow> u8 list \<Rightarrow> unit res"
  pc_auths :: "(u8 list \<times> u8 list \<times> u8 list) list"
  pc_actives :: nat
  pc_control_recv :: "buffer list"
  pc_net_sent :: "buffer list"
  pc_mss_inter :: u32
  pc_enable_op32 :: bool
  pc_remote_peer_id :: int

definition pc_tcp :: "proto \<Rightarrow> bool" where
  "pc_tcp pc = proto_is_tcp (pc_protocol pc)"

text \<open>\<open>KeyContext::EventType\<close>.\<close>

datatype event_type =
    KEV_NONE
  | KEV_ACTIVE
  | KEV_NEGOTIATE
  | KEV_BECOME_PRIMARY
  | KEV_PRIMARY_PENDING
  | KEV_RENEGOTIATE
  | KEV_RENEGOTIATE_FORCE
  | KEV_RENEGOTIATE_QUEUE
  | KEV_EXPIRE

text \<open>The members of \<open>KeyContext\<close> that the control channel uses.\<close>

record key_ctx =
  kx_key_id :: u32
  kx_work :: buffer
  kx_reached_active :: time_pt
  kx_next_event :: event_type
  kx_next_event_time :: time_pt
  kx_current_event :: event_type
  kx_state :: int
  kx_dirty :: bool
  kx_limit_fired :: bool
  kx_is_reliable :: bool
  kx_construct_time :: time_pt
  kx_prf_self :: tlsprf
  kx_prf_peer :: tlsprf
  kx_pre_write_queue :: "buffer list"
  kx_app_recv_buf :: "buffer list"

record user =
  u_pc :: proto
  u_kx :: key_ctx

definition pc_seconds :: "proto \<Rightarrow> int" where
  "pc_seconds pc = time_seconds_since_epoch (pc_epoch pc) (pc_now pc)"

definition pc_error :: "stack_reason + pkt_err \<Rightarrow> proto \<Rightarrow> proto" where
  "pc_error e pc = pc\<lparr>pc_errors := pc_errors pc @ [e]\<rparr>"

text \<open>Opcodes.\<close>

definition CONTROL_SOFT_RESET_V1 :: u32 where "CONTROL_SOFT_RESET_V1 = 3"
definition CONTROL_V1 :: u32 where "CONTROL_V1 = 4"
definition ACK_V1 :: u32 where "ACK_V1 = 5"
definition DATA_V1 :: u32 where "DATA_V1 = 6"
definition CONTROL_HARD_RESET_CLIENT_V2 :: u32 where "CONTROL_HARD_RESET_CLIENT_V2 = 7"
definition CONTROL_HARD_RESET_SERVER_V2 :: u32 where "CONTROL_HARD_RESET_SERVER_V2 = 8"
definition DATA_V2 :: u32 where "DATA_V2 = 9"
definition CONTROL_HARD_RESET_CLIENT_V3 :: u32 where "CONTROL_HARD_RESET_CLIENT_V3 = 10"
definition INVALID_OPCODE :: u32 where "INVALID_OPCODE = 0"

definition opcode_extract :: "u32 \<Rightarrow> u32" where
  "opcode_extract op = drop_bit 3 op"

definition key_id_extract :: "u32 \<Rightarrow> u32" where
  "key_id_extract op = op AND 7"

definition op_head_size :: "u32 \<Rightarrow> nat" where
  "op_head_size op = (if opcode_extract op = DATA_V2 then 4 else 1)"

definition op_compose :: "u32 \<Rightarrow> u32 \<Rightarrow> u32" where
  "op_compose opcode key_id = push_bit 3 opcode OR key_id"

definition op32_compose :: "u32 \<Rightarrow> u32 \<Rightarrow> u32 \<Rightarrow> u32" where
  "op32_compose opcode key_id op_peer_id =
     push_bit 24 (op_compose opcode key_id) OR (op_peer_id AND 0x00FFFFFF)"

section \<open>Packets\<close>

text \<open>\<open>Packet\<close>, whose buffer pointer may be null.\<close>

record packet =
  pk_opcode :: u32
  pk_buf :: "buffer option"

definition packet_new :: packet where
  "packet_new = \<lparr>pk_opcode = INVALID_OPCODE, pk_buf = None\<rparr>"

definition packet_of_buffer :: "u32 \<Rightarrow> buffer \<Rightarrow> packet" where
  "packet_of_buffer opcode b = \<lparr>pk_opcode = opcode, pk_buf = Some b\<rparr>"

definition packet_frame_prepare :: "nat \<Rightarrow> frame \<Rightarrow> nat \<Rightarrow> packet \<Rightarrow> packet res" where
  "packet_frame_prepare base frame context p =
     (let b = (case pk_buf p of None \<Rightarrow> alloc_default | Some b \<Rightarrow> b) in
      bindE (frame_prepare context base b frame) (\<lambda>(_, b). Inr (p\<lparr>pk_buf := Some b\<rparr>)))"

definition packet_is_raw :: "packet \<Rightarrow> bool" where
  "packet_is_raw p \<longleftrightarrow> pk_opcode p \<noteq> CONTROL_V1"

section \<open>Encapsulation\<close>

text \<open>
  What \<open>encapsulate\<close> and \<open>generate_ack\<close> change: the packet's buffer, the acknowledgement list, the
  contexts.  A step that throws keeps the changes of the steps before it.
\<close>

record cst =
  c_buf :: buffer
  c_acks :: rel_ack
  c_pc :: proto
  c_kx :: key_ctx

definition on_buf :: "(cst \<Rightarrow> buffer \<Rightarrow> buffer res) \<Rightarrow> (unit, cst) st" where
  "on_buf f s = (case f s (c_buf s) of Inl e \<Rightarrow> (Inl e, s) | Inr b \<Rightarrow> (Inr (), s\<lparr>c_buf := b\<rparr>))"

definition on_work :: "(cst \<Rightarrow> buffer \<Rightarrow> buffer res) \<Rightarrow> (unit, cst) st" where
  "on_work f s =
     (case f s (kx_work (c_kx s)) of Inl e \<Rightarrow> (Inl e, s)
      | Inr b \<Rightarrow> (Inr (), s\<lparr>c_kx := (c_kx s)\<lparr>kx_work := b\<rparr>\<rparr>))"

text \<open>\<open>ta_pid_send.write_next\<close> on the packet's buffer and on \<open>work\<close>.\<close>

definition pid_next_buf :: "(unit, cst) st" where
  "pid_next_buf s =
     (let (r, ta) = pids_write_next True (pc_seconds (c_pc s)) (c_buf s) (pc_ta_pid_send (c_pc s)) in
      on_buf (\<lambda>_ _. r) (s\<lparr>c_pc := (c_pc s)\<lparr>pc_ta_pid_send := ta\<rparr>\<rparr>))"

definition pid_next_work :: "(unit, cst) st" where
  "pid_next_work s =
     (let (r, ta) = pids_write_next True (pc_seconds (c_pc s)) (kx_work (c_kx s)) (pc_ta_pid_send (c_pc s)) in
      on_work (\<lambda>_ _. r) (s\<lparr>c_pc := (c_pc s)\<lparr>pc_ta_pid_send := ta\<rparr>\<rparr>))"

definition buf_prepend_space :: "nat \<Rightarrow> buffer \<Rightarrow> buffer res" where
  "buf_prepend_space n b = bindE (buf_prepend_alloc n b) (\<lambda>(_, b). Inr b)"

definition op_byte :: "u32 \<Rightarrow> cst \<Rightarrow> u8" where
  "op_byte opcode s = ucast (op_compose opcode (kx_key_id (c_kx s)))"

text \<open>If sending ACKs, the destination's session ID; then the ACKs.\<close>

definition prepend_dest_psid :: "(unit, cst) st" where
  "prepend_dest_psid s =
     (if ra_data (c_acks s) \<noteq> [] then
        (if psid_defined (pc_psid_peer (c_pc s)) then on_buf (\<lambda>s. psid_prepend (pc_psid_peer (c_pc s))) s
         else (Inl (proto_error ''peer_psid_undef''), s\<lparr>c_pc := pc_error (Inl Err_CC_ERROR) (c_pc s)\<rparr>))
      else (Inr (), s))"

definition prepend_acks :: "(unit, cst) st" where
  "prepend_acks s =
     (case ra_prepend (c_acks s) (c_buf s) of
        Inl e \<Rightarrow> (Inl e, s)
      | Inr (b, a) \<Rightarrow> (Inr (), s\<lparr>c_buf := b, c_acks := a\<rparr>))"

definition prepend_dest_psid_and_acks :: "(unit, cst) st" where
  "prepend_dest_psid_and_acks = bindS prepend_dest_psid (\<lambda>_. prepend_acks)"

definition gen_head_tls_auth :: "u32 \<Rightarrow> (unit, cst) st" where
  "gen_head_tls_auth opcode =
     bindS pid_next_buf (\<lambda>_.
     bindS (on_buf (\<lambda>s. buf_prepend_space (pc_hmac_size (c_pc s)))) (\<lambda>_.
     bindS (on_buf (\<lambda>s. psid_prepend (pc_psid_self (c_pc s)))) (\<lambda>_.
     bindS (on_buf (\<lambda>s. buf_push_front (op_byte opcode s))) (\<lambda>_.
     on_buf (\<lambda>s b.
       bindE (ovpn_hmac_gen (pc_ta_hmac_send (c_pc s)) (content b) (1 + PSID_SIZE)
                (pc_hmac_size (c_pc s)) (pid_size LONG_FORM)) (\<lambda>d. mem_write (b_off b) d b))))))"

definition hmac_offset :: nat where "hmac_offset = 1 + PSID_SIZE + 8"

definition ENCRYPT_WORK :: nat where "ENCRYPT_WORK = 0"
definition DECRYPT_WORK :: nat where "DECRYPT_WORK = 1"

text \<open>A null \<open>tls_crypt_send\<close> is dereferenced.\<close>

definition with_crypt :: "crypt_ctx option \<Rightarrow> (crypt_ctx \<Rightarrow> 'a res) \<Rightarrow> 'a res" where
  "with_crypt c f = (case c of None \<Rightarrow> Inl undefined_behaviour | Some c \<Rightarrow> f c)"

definition tls_crypt_write_hmac :: "cst \<Rightarrow> buffer \<Rightarrow> buffer res" where
  "tls_crypt_write_hmac s w =
     with_crypt (pc_tls_crypt_send (c_pc s)) (\<lambda>c.
       bindE (mem_read (b_off w) hmac_offset w) (\<lambda>h.
         mem_write (b_off w + hmac_offset) (tc_hmac_digest c h (content (c_buf s))) w))"

text \<open>The cipher text of the packet's payload, with the IV read from the tag in \<open>work\<close>.\<close>

definition tls_crypt_cipher_text :: "cst \<Rightarrow> u8 list res" where
  "tls_crypt_cipher_text s =
     with_crypt (pc_tls_crypt_send (c_pc s)) (\<lambda>c. let w = kx_work (c_kx s) in
       bindE (mem_read (b_off w + hmac_offset) (tc_iv_len c) w) (\<lambda>iv.
         tc_encrypt c iv (content (c_buf s))))"

definition tls_crypt_append_wkc :: "cst \<Rightarrow> buffer \<Rightarrow> buffer res" where
  "tls_crypt_append_wkc s dst =
     (if \<not> buf_defined (pc_wkc (c_pc s)) then Inl (proto_error ''Client Key Wrapper undefined'')
      else buf_append (pc_wkc (c_pc s)) dst)"

text \<open>The cipher text behind the head in \<open>work\<close>, the wrapped client key if any, and the swap.\<close>

definition tls_crypt_append :: "u32 \<Rightarrow> u8 list \<Rightarrow> (unit, cst) st" where
  "tls_crypt_append opcode out =
     bindS (on_work (\<lambda>s w. bindE (mem_write (b_off w + (hmac_offset + pc_hmac_size (c_pc s))) out w)
              (buf_inc_size (length out)))) (\<lambda>_.
     bindS (\<lambda>s. if opcode = CONTROL_HARD_RESET_CLIENT_V3 \<and> pc_wrap_mode (c_pc s) = TLS_CRYPT_V2
              then on_work tls_crypt_append_wkc s else (Inr (), s)) (\<lambda>_ s.
       (Inr (), s\<lparr>c_buf := kx_work (c_kx s), c_kx := (c_kx s)\<lparr>kx_work := c_buf s\<rparr>\<rparr>)))"

definition tls_crypt_finish :: "u32 \<Rightarrow> (unit, cst) st" where
  "tls_crypt_finish opcode s =
     (case tls_crypt_cipher_text s of
        Inl e \<Rightarrow> (Inl e, s)
      | Inr out \<Rightarrow>
          if out = [] then (Inr (), s\<lparr>c_buf := buf_reset_size (c_buf s)\<rparr>)
          else tls_crypt_append opcode out s)"

definition gen_head_tls_crypt :: "u32 \<Rightarrow> (unit, cst) st" where
  "gen_head_tls_crypt opcode =
     bindS (on_work (\<lambda>s w. bindE (frame_prepare ENCRYPT_WORK (pc_base (c_pc s)) w (pc_frame (c_pc s)))
              (\<lambda>(_, w). Inr w))) (\<lambda>_.
     bindS (on_work (\<lambda>s. buf_prepend_space (pc_hmac_size (c_pc s)))) (\<lambda>_.
     bindS pid_next_work (\<lambda>_.
     bindS (on_work (\<lambda>s. psid_prepend (pc_psid_self (c_pc s)))) (\<lambda>_.
     bindS (on_work (\<lambda>s. buf_push_front (op_byte opcode s))) (\<lambda>_.
     bindS (on_work tls_crypt_write_hmac) (\<lambda>_. tls_crypt_finish opcode))))))"

definition gen_head_tls_plain :: "u32 \<Rightarrow> (unit, cst) st" where
  "gen_head_tls_plain opcode =
     bindS (on_buf (\<lambda>s. psid_prepend (pc_psid_self (c_pc s)))) (\<lambda>_.
     on_buf (\<lambda>s. buf_push_front (op_byte opcode s)))"

definition gen_head :: "u32 \<Rightarrow> (unit, cst) st" where
  "gen_head opcode s =
     (case pc_wrap_mode (c_pc s) of
        TLS_AUTH \<Rightarrow> gen_head_tls_auth opcode s
      | TLS_CRYPT \<Rightarrow> gen_head_tls_crypt opcode s
      | TLS_CRYPT_V2 \<Rightarrow> gen_head_tls_crypt opcode s
      | TLS_PLAIN \<Rightarrow> gen_head_tls_plain opcode s)"

definition cc_encapsulate_buf :: "u32 \<Rightarrow> u32 \<Rightarrow> (unit, cst) st" where
  "cc_encapsulate_buf i opcode =
     bindS (on_buf (\<lambda>_. ra_prepend_id i)) (\<lambda>_.
     bindS prepend_dest_psid_and_acks (\<lambda>_. gen_head opcode))"

definition cc_generate_ack_buf :: "(unit, cst) st" where
  "cc_generate_ack_buf = bindS prepend_dest_psid_and_acks (\<lambda>_. gen_head ACK_V1)"

text \<open>The two as the protocol stack calls them.\<close>

definition on_packet ::
    "(unit, cst) st \<Rightarrow> packet \<Rightarrow> rel_ack \<times> user \<Rightarrow> unit res \<times> packet \<times> rel_ack \<times> user" where
  "on_packet f p x =
     (case pk_buf p of
        None \<Rightarrow> (Inl undefined_behaviour, p, x)
      | Some b \<Rightarrow>
          (let (a, u) = x;
               (r, s) = f \<lparr>c_buf = b, c_acks = a, c_pc = u_pc u, c_kx = u_kx u\<rparr> in
           (r, p\<lparr>pk_buf := Some (c_buf s)\<rparr>, c_acks s, \<lparr>u_pc = c_pc s, u_kx = c_kx s\<rparr>)))"

definition cc_encapsulate ::
    "u32 \<Rightarrow> packet \<Rightarrow> rel_ack \<times> user \<Rightarrow> unit res \<times> packet \<times> rel_ack \<times> user" where
  "cc_encapsulate i p = on_packet (cc_encapsulate_buf i (pk_opcode p)) p"

definition cc_generate_ack ::
    "packet \<Rightarrow> rel_ack \<times> user \<Rightarrow> unit res \<times> packet \<times> rel_ack \<times> user" where
  "cc_generate_ack p = on_packet cc_generate_ack_buf p"

end
