(* ===== verification/CtlChannel.thy ===== *)
theory CtlChannel
  imports CtlWrap
begin

text \<open>
  The receiving side of the control channel (\<open>KeyContext\<close>, \<open>ssl/proto.hpp\<close>): unwrapping of
  tls-auth, tls-crypt, tls-crypt-v2 and plain packets, verification of session IDs, replay check,
  acknowledgements and hand-over to the reliability layer.  The state is the protocol stack whose
  derived class keeps the contexts of CtlWrap.
\<close>

section \<open>State and small steps\<close>

type_synonym 's kst = "(packet, 's, user) stack"

abbreviation pc_of :: "'s kst \<Rightarrow> proto" where
  "pc_of k \<equiv> u_pc (k_user k)"

abbreviation kx_of :: "'s kst \<Rightarrow> key_ctx" where
  "kx_of k \<equiv> u_kx (k_user k)"

definition on_pc :: "(proto \<Rightarrow> proto) \<Rightarrow> 's kst \<Rightarrow> 's kst" where
  "on_pc f k = k\<lparr>k_user := (k_user k)\<lparr>u_pc := f (pc_of k)\<rparr>\<rparr>"

definition on_kx :: "(key_ctx \<Rightarrow> key_ctx) \<Rightarrow> 's kst \<Rightarrow> 's kst" where
  "on_kx f k = k\<lparr>k_user := (k_user k)\<lparr>u_kx := f (kx_of k)\<rparr>\<rparr>"

text \<open>\<open>bindR\<close> runs a step that may throw but changes nothing, \<open>ret\<close> returns a value.\<close>

definition bindR :: "'a res \<Rightarrow> ('a \<Rightarrow> ('b, 's) st) \<Rightarrow> ('b, 's) st" where
  "bindR m f s = (case m of Inl e \<Rightarrow> (Inl e, s) | Inr a \<Rightarrow> f a s)"

definition ret :: "'a \<Rightarrow> ('a, 's) st" where
  "ret a s = (Inr a, s)"

lemma bindR_simps [simp]: "bindR (Inl e) f s = (Inl e, s)" "bindR (Inr a) f s = f a s"
  by (simp_all add: bindR_def)

lemma ret_simp [simp]: "ret a s = (Inr a, s)"
  by (simp add: ret_def)

definition kc_invalidate_callback :: "'s kst \<Rightarrow> 's kst" where
  "kc_invalidate_callback =
     on_kx (\<lambda>x. x\<lparr>kx_reached_active := time_zero, kx_next_event := KEV_NONE,
                 kx_next_event_time := time_infinite\<rparr>)"

definition kc_invalidate :: "stack_reason \<Rightarrow> 's kst \<Rightarrow> 's kst" where
  "kc_invalidate reason k =
     (if \<not> k_invalidated k
      then kc_invalidate_callback (k\<lparr>k_invalidated := True, k_reason := reason\<rparr>) else k)"

text \<open>\<open>proto.stats->error(e); if (proto.is_tcp()) invalidate(e);\<close>\<close>

definition kc_reject :: "stack_reason \<Rightarrow> 's kst \<Rightarrow> 's kst" where
  "kc_reject e k =
     (let k = on_pc (pc_error (Inl e)) k in if pc_tcp (pc_of k) then kc_invalidate e k else k)"

definition update_last_received :: "'s kst \<Rightarrow> 's kst" where
  "update_last_received =
     on_pc (\<lambda>pc. pc\<lparr>pc_keepalive_expire := time_add (pc_now pc) (pc_keepalive_timeout pc)\<rparr>)"

definition pc_psid_match :: "proto \<Rightarrow> psid \<Rightarrow> psid \<Rightarrow> bool" where
  "pc_psid_match pc p q = (case pc_mem pc of (ar, pa, pb) \<Rightarrow> psid_match ar pa pb p q)"

definition verify_src_psid :: "psid \<Rightarrow> (bool, 's kst) st" where
  "verify_src_psid src k =
     (if psid_defined (pc_psid_peer (pc_of k)) then
        (if \<not> pc_psid_match (pc_of k) (pc_psid_peer (pc_of k)) src
         then ret False (kc_reject Err_CC_ERROR k) else ret True k)
      else ret True (on_pc (\<lambda>pc. pc\<lparr>pc_psid_peer := src\<rparr>) k))"

definition verify_dest_psid :: "buffer \<Rightarrow> (bool \<times> buffer, 's kst) st" where
  "verify_dest_psid b =
     bindR (psid_of_buffer b) (\<lambda>(dest, b) k.
       if \<not> pc_psid_match (pc_of k) (pc_psid_self (pc_of k)) dest
       then ret (False, b) (kc_reject Err_CC_ERROR k) else ret (True, b) k)"

definition ta_test_add :: "packet_id \<Rightarrow> int \<Rightarrow> bool \<Rightarrow> (bool, 's kst) st" where
  "ta_test_add pid t md k =
     (case pidr_test_add pid t md (pc_ta_pid_recv (pc_of k)) of
        Inl e \<Rightarrow> (Inl e, k)
      | Inr (ok, err, ta) \<Rightarrow>
          ret ok (on_pc (\<lambda>pc. (case err of None \<Rightarrow> id | Some e \<Rightarrow> pc_error (Inr e)) (pc\<lparr>pc_ta_pid_recv := ta\<rparr>)) k))"

definition process_acks :: "bool \<Rightarrow> buffer \<Rightarrow> (nat \<times> buffer, 's kst) st" where
  "process_acks live b k = (let (r, s) = ra_ack live b (k_send k) in (r, k\<lparr>k_send := s\<rparr>))"

definition push_ack :: "u32 \<Rightarrow> 's kst \<Rightarrow> 's kst" where
  "push_ack i k = k\<lparr>k_acks := ra_push_back i (k_acks k)\<rparr>"

definition rel_receive :: "packet \<Rightarrow> u32 \<Rightarrow> (u32, 's kst) st" where
  "rel_receive p i k =
     (case rr_receive (Some p) i (k_recv k) of
        Inl e \<Rightarrow> (Inl e, k)
      | Inr (rflags, w) \<Rightarrow>
          let k = k\<lparr>k_recv := w\<rparr> in
          ret rflags (if rflags AND ACK_TO_SENDER \<noteq> 0 then push_ack i k else k))"

section \<open>Processing after the integrity check\<close>

text \<open>The IDs acknowledged, and our own session ID if there are any.\<close>

definition acks_and_dest_psid :: "bool \<Rightarrow> buffer \<Rightarrow> (bool \<times> buffer, 's kst) st" where
  "acks_and_dest_psid live b =
     bindS (process_acks live b) (\<lambda>(n, b).
       if n \<noteq> 0 then verify_dest_psid b else ret (True, b))"

definition post_process_control :: "u32 \<Rightarrow> buffer \<Rightarrow> packet_id \<Rightarrow> int \<Rightarrow> bool \<Rightarrow> (bool, 's kst) st" where
  "post_process_control opcode b pid t pid_ok =
     bindR (ra_read_id b) (\<lambda>(i, b).
       if pid_ok then
         bindS (rel_receive (packet_of_buffer opcode b) i) (\<lambda>rflags.
           if rflags AND IN_WINDOW \<noteq> 0 then bindS (ta_test_add pid t True) (\<lambda>_. ret True)
           else ret False)
       else (\<lambda>k. let k = on_pc (pc_error (Inl Err_REPLAY_ERROR)) k in
         ret False (if pid_is_valid pid then push_ack i k else k)))"

definition post_process_ack :: "packet_id \<Rightarrow> int \<Rightarrow> bool \<Rightarrow> (bool, 's kst) st" where
  "post_process_ack pid t pid_ok =
     (if pid_ok then bindS (ta_test_add pid t True) (\<lambda>_. ret False)
      else (\<lambda>k. ret False (on_pc (pc_error (Inl Err_REPLAY_ERROR)) k)))"

definition decapsulate_post_process ::
    "u32 \<Rightarrow> buffer \<Rightarrow> psid \<Rightarrow> packet_id \<Rightarrow> (bool, 's kst) st" where
  "decapsulate_post_process opcode b src pid k =
     (let k = update_last_received k in
      bindS (verify_src_psid src) (\<lambda>ok k.
        if \<not> ok then ret False k
        else let t = pc_seconds (pc_of k) in
          bindS (ta_test_add pid t False) (\<lambda>pid_ok.
          bindS (acks_and_dest_psid pid_ok b) (\<lambda>(ok, b).
            if \<not> ok then ret False
            else if opcode \<noteq> ACK_V1 then post_process_control opcode b pid t pid_ok
            else post_process_ack pid t pid_ok)) k) k)"

section \<open>Unwrapping\<close>

definition decapsulate_tls_auth :: "u32 \<Rightarrow> buffer \<Rightarrow> (bool, 's kst) st" where
  "decapsulate_tls_auth opcode recv k =
     (let pc = pc_of k; orig = content recv in
      bindR (buf_advance 1 recv) (\<lambda>b.
      bindR (psid_of_buffer b) (\<lambda>(src, b).
      bindR (buf_advance (pc_hmac_size pc) b) (\<lambda>b k.
        if \<not> ovpn_hmac_cmp (pc_mem pc) (pc_ta_hmac_recv pc) orig (1 + PSID_SIZE) (pc_hmac_size pc)
               (pid_size LONG_FORM)
        then ret False (kc_reject Err_HMAC_ERROR k)
        else bindR (pidr_read_next b (pc_ta_pid_recv pc)) (\<lambda>(pid, b).
          decapsulate_post_process opcode b src pid) k))) k)"

text \<open>
  Decryption of \<open>b\<close> into \<open>work\<close>, just prepared: the plain text, \<open>None\<close> when the library fails.
  \<open>recv\<close> is the buffer as received, from whose start the IV is found.
\<close>

definition tls_crypt_open :: "proto \<Rightarrow> buffer \<Rightarrow> buffer \<Rightarrow> buffer \<Rightarrow> buffer option res" where
  "tls_crypt_open pc recv b w =
     with_crypt (pc_tls_crypt_recv pc) (\<lambda>c.
       bindE (mem_read (b_off recv + hmac_offset) (tc_iv_len c) recv) (\<lambda>iv.
       bindE (tc_decrypt c iv (content b)) (\<lambda>out.
         if out = [] then Inr None
         else bindE (mem_write (b_off w) out w) (\<lambda>w.
           bindE (buf_inc_size (length out) w) (\<lambda>w. Inr (Some w))))))"

definition tls_crypt_check :: "proto \<Rightarrow> buffer \<Rightarrow> buffer \<Rightarrow> bool res" where
  "tls_crypt_check pc recv w =
     with_crypt (pc_tls_crypt_recv pc) (\<lambda>c.
       bindE (mem_read (b_off recv) hmac_offset recv) (\<lambda>header.
       bindE (mem_read (b_off recv + hmac_offset) (hm_size (tc_hmac c)) recv) (\<lambda>tag.
         Inr (tc_hmac_cmp (pc_mem pc) c header tag (content w)))))"

definition set_work :: "buffer \<Rightarrow> 's kst \<Rightarrow> 's kst" where
  "set_work w = on_kx (\<lambda>x. x\<lparr>kx_work := w\<rparr>)"

definition decapsulate_tls_crypt :: "u32 \<Rightarrow> buffer \<Rightarrow> (bool, 's kst) st" where
  "decapsulate_tls_crypt opcode recv k =
     (let pc = pc_of k in
      bindR (buf_advance 1 recv) (\<lambda>b.
      bindR (psid_of_buffer b) (\<lambda>(src, b).
      bindR (pidr_read_next b (pc_ta_pid_recv pc)) (\<lambda>(pid, b).
      bindR (buf_advance (pc_hmac_size pc) b) (\<lambda>b k.
        if b_size recv < hmac_offset + pc_hmac_size pc then ret False k
        else
          bindR (frame_prepare DECRYPT_WORK (pc_base pc) (kx_work (kx_of k)) (pc_frame pc)) (\<lambda>(_, w) k.
            let k = set_work w k in
            bindR (tls_crypt_open pc recv b w) (\<lambda>opened k.
              case opened of
                None \<Rightarrow> ret False (kc_reject Err_DECRYPT_ERROR k)
              | Some w \<Rightarrow>
                  let k = set_work w k in
                  bindR (tls_crypt_check pc recv w) (\<lambda>ok k.
                    if \<not> ok then ret False (kc_reject Err_HMAC_ERROR k)
                    else decapsulate_post_process opcode w src pid (set_work b k)) k) k) k)))) k)"

definition decapsulate_tls_plain :: "u32 \<Rightarrow> buffer \<Rightarrow> (bool, 's kst) st" where
  "decapsulate_tls_plain opcode recv k =
     bindR (buf_advance 1 recv) (\<lambda>b.
     bindR (psid_of_buffer b) (\<lambda>(src, b).
     bindS (verify_src_psid src) (\<lambda>ok.
       if \<not> ok then ret False
       else bindS (acks_and_dest_psid True b) (\<lambda>(ok, b).
         if \<not> ok then ret False
         else if opcode \<noteq> ACK_V1 then
           bindR (ra_read_id b) (\<lambda>(i, b).
             bindS (rel_receive (packet_of_buffer opcode b) i) (\<lambda>rflags.
               ret (rflags AND IN_WINDOW \<noteq> 0)))
         else ret False)))) (update_last_received k)"

section \<open>The wrapped client key of tls-crypt-v2\<close>

text \<open>\<open>new_obj_send\<close>, \<open>new_obj_recv\<close>: contexts before \<open>init\<close>.\<close>

definition tc_uninit :: crypt_ctx where
  "tc_uninit = \<lparr>tc_hmac = \<lparr>hm_size = 0, hm_mac = \<lambda>_. []\<rparr>, tc_iv_len = 0, tc_cipher = \<lambda>_ _. None,
     tc_mode = MODE_UNDEF\<rparr>"

definition tc_init_key :: "proto \<Rightarrow> buffer \<Rightarrow> u32 \<Rightarrow> cipher_mode \<Rightarrow> crypt_ctx res" where
  "tc_init_key pc key sel mode =
     bindE (sk_slice key (SK_HMAC OR sel)) (\<lambda>kh.
     bindE (sk_slice key (SK_CIPHER OR sel)) (\<lambda>kc.
       tc_init (pc_hmac_new pc) (pc_hmac_size pc) (pc_cipher_new pc) kh kc mode))"

definition reset_tls_crypt :: "buffer \<Rightarrow> (unit, 's kst) st" where
  "reset_tls_crypt key k =
     (let pc = pc_of k;
          k = on_pc (\<lambda>pc. pc\<lparr>pc_tls_crypt_send := Some tc_uninit, pc_tls_crypt_recv := Some tc_uninit\<rparr>) k;
          key_dir = (if pc_server pc then SK_NORMAL else SK_INVERSE) in
      bindR (tc_init_key pc key (SK_ENCRYPT OR key_dir) MODE_ENCRYPT) (\<lambda>c k.
        bindR (tc_init_key pc key (SK_DECRYPT OR key_dir) MODE_DECRYPT) (\<lambda>d k.
          ret () (on_pc (\<lambda>pc. pc\<lparr>pc_tls_crypt_recv := Some d\<rparr>) k))
          (on_pc (\<lambda>pc. pc\<lparr>pc_tls_crypt_send := Some c\<rparr>) k)) k)"

definition tls_frame_size :: "proto \<Rightarrow> nat" where
  "tls_frame_size pc = 1 + PSID_SIZE + pid_size LONG_FORM + pc_hmac_size pc + 1 + 4"

text \<open>
  The length word, its sanity check, and the plain text of the wrapped key behind it; \<open>None\<close> when
  the check fails.  \<open>wkc\<close> is the position of the wrapped key in the array.
\<close>

definition wkc_plaintext :: "proto \<Rightarrow> buffer \<Rightarrow> nat \<Rightarrow> buffer option res" where
  "wkc_plaintext pc recv wkc =
     (let wkc_raw_size = sz_sub (sz_sub (b_size recv) (tls_frame_size pc)) 2 in
      bindE (mem_read (wkc + wkc_raw_size) 2 recv) (\<lambda>len2.
      let wkc_len = of_be16 len2 in
      if sz_sub (unat wkc_len) 2 \<noteq> wkc_raw_size then Inr None
      else
        bindE (alloc_ctor (unat wkc_len) CONSTRUCT_ZERO) (\<lambda>p.
        bindE (buf_write (be16 wkc_len) p) (\<lambda>p.
        with_crypt (pc_tls_crypt_server pc) (\<lambda>c.
        bindE (mem_read wkc (tc_iv_len c) recv) (\<lambda>iv.
        bindE (mem_read (wkc + pc_hmac_size pc) (sz_sub wkc_raw_size (pc_hmac_size pc)) recv) (\<lambda>inp.
        bindE (tc_decrypt c iv inp) (\<lambda>out.
        bindE (mem_write (b_off p + 2) out p) (\<lambda>p.
        bindE (buf_inc_size (length out) p) (\<lambda>p. Inr (Some p)))))))))))"

definition wkc_check :: "proto \<Rightarrow> buffer \<Rightarrow> nat \<Rightarrow> buffer \<Rightarrow> bool res" where
  "wkc_check pc recv wkc p =
     with_crypt (pc_tls_crypt_server pc) (\<lambda>c.
       bindE (mem_read wkc (hm_size (tc_hmac c)) recv) (\<lambda>tag.
         Inr (tc_hmac_cmp (pc_mem pc) c [] tag (content p))))"

text \<open>The authenticated plain text: the client's key and the metadata.\<close>

definition wkc_accept :: "buffer \<Rightarrow> buffer \<Rightarrow> (buffer option, 's kst) st" where
  "wkc_accept recv p =
     bindR (buf_advance 2 p) (\<lambda>p.
     bindR (sk_raw_alloc alloc_default) (\<lambda>key.
     bindR (buf_read KEY_SIZE p) (\<lambda>(d, p).
     let key = key\<lparr>b_data := d\<rparr> in
     bindS (reset_tls_crypt key) (\<lambda>_.
     bindR (if \<not> buf_empty p then bindE (buf_pop_front p) (\<lambda>(v, p). Inr (uint v, p)) else Inr (-1, p))
       (\<lambda>(metadata_type, p) k.
         if \<not> pc_metadata_verify (pc_of k) metadata_type p
         then ret None (on_pc (pc_error (Inl Err_TLS_CRYPT_META_FAIL)) k)
         else bindR (buf_set_size (tls_frame_size (pc_of k)) recv) (\<lambda>recv. ret (Some recv)) k)))))"

definition unwrap_tls_crypt_wkc :: "buffer \<Rightarrow> (buffer option, 's kst) st" where
  "unwrap_tls_crypt_wkc recv k =
     (let pc = pc_of k; wkc = b_off recv + tls_frame_size pc in
      if b_size recv < tls_frame_size pc + pc_hmac_size pc then ret None k
      else bindR (wkc_plaintext pc recv wkc) (\<lambda>opened k.
        case opened of
          None \<Rightarrow> ret None k
        | Some p \<Rightarrow>
            if b_size p < KEY_SIZE then ret None (kc_reject Err_DECRYPT_ERROR k)
            else bindR (wkc_check pc recv wkc p) (\<lambda>ok k.
              if \<not> ok then ret None (kc_reject Err_HMAC_ERROR k) else wkc_accept recv p k) k) k)"

section \<open>decapsulate\<close>

definition decapsulate_dispatch :: "packet \<Rightarrow> buffer \<Rightarrow> (bool, 's kst) st" where
  "decapsulate_dispatch p b k =
     (case pc_wrap_mode (pc_of k) of
        TLS_AUTH \<Rightarrow> decapsulate_tls_auth (pk_opcode p) b k
      | TLS_CRYPT_V2 \<Rightarrow>
          (if pk_opcode p = CONTROL_HARD_RESET_CLIENT_V3 then
             bindS (unwrap_tls_crypt_wkc b) (\<lambda>r.
               case r of None \<Rightarrow> ret False | Some b \<Rightarrow> decapsulate_tls_crypt (pk_opcode p) b) k
           else decapsulate_tls_crypt (pk_opcode p) b k)
      | TLS_CRYPT \<Rightarrow> decapsulate_tls_crypt (pk_opcode p) b k
      | TLS_PLAIN \<Rightarrow> decapsulate_tls_plain (pk_opcode p) b k)"

definition cc_decapsulate :: "packet \<Rightarrow> (bool, 's kst) st" where
  "cc_decapsulate p k =
     (case pk_buf p of
        None \<Rightarrow> (Inl undefined_behaviour, k)
      | Some b \<Rightarrow>
          (case decapsulate_dispatch p b k of
             (Inl (Buffer_exception _), k) \<Rightarrow> ret False (kc_reject Err_BUFFER_ERROR k)
           | (r, k) \<Rightarrow> (r, k)))"

section \<open>Rules for code with state and exceptions\<close>

text \<open>\<open>X\<close> is what holds when an exception leaves the code.\<close>

definition hoare ::
    "('s \<Rightarrow> bool) \<Rightarrow> ('a, 's) st \<Rightarrow> ('a \<Rightarrow> 's \<Rightarrow> bool) \<Rightarrow> (exn \<Rightarrow> 's \<Rightarrow> bool) \<Rightarrow> bool" where
  "hoare P m Q X \<longleftrightarrow> (\<forall>k. P k \<longrightarrow> (case m k of (Inl e, k') \<Rightarrow> X e k' | (Inr a, k') \<Rightarrow> Q a k'))"

named_theorems hoare_rules

lemma hoare_bindS [hoare_rules]:
  "hoare P m R X \<Longrightarrow> (\<And>a. hoare (R a) (f a) Q X) \<Longrightarrow> hoare P (bindS m f) Q X"
  by (fastforce simp: hoare_def bindS_def split: prod.splits sum.splits)

lemma hoare_bindR [hoare_rules]:
  "(\<And>e k. m = Inl e \<Longrightarrow> P k \<Longrightarrow> X e k) \<Longrightarrow> (\<And>a. m = Inr a \<Longrightarrow> hoare P (f a) Q X) \<Longrightarrow>
   hoare P (bindR m f) Q X"
  by (cases m) (auto simp: hoare_def)

lemma hoare_ret [hoare_rules]: "(\<And>k. P k \<Longrightarrow> Q a k) \<Longrightarrow> hoare P (ret a) Q X"
  by (simp add: hoare_def)

lemma hoare_if [hoare_rules]:
  "(b \<Longrightarrow> hoare P m Q X) \<Longrightarrow> (\<not> b \<Longrightarrow> hoare P n Q X) \<Longrightarrow> hoare P (if b then m else n) Q X"
  by simp

lemma hoare_split [hoare_rules]:
  "(\<And>a b. x = (a, b) \<Longrightarrow> hoare P (f a b) Q X) \<Longrightarrow> hoare P (case x of (a, b) \<Rightarrow> f a b) Q X"
  by (cases x) simp

lemma hoare_lam: "(\<And>k0. hoare P (m k0) Q X) \<Longrightarrow> hoare P (\<lambda>k. m k k) Q X"
  by (simp add: hoare_def)

lemma hoare_weaken: "hoare P m Q X \<Longrightarrow> (\<And>k. P' k \<Longrightarrow> P k) \<Longrightarrow> hoare P' m Q X"
  by (simp add: hoare_def)

lemma hoare_run:
  assumes "hoare P m Q X" and "P k"
  obtains (throws) e k' where "m k = (Inl e, k')" "X e k'"
  | (returns) a k' where "m k = (Inr a, k')" "Q a k'"
proof -
  have h: "case m k of (Inl e, k') \<Rightarrow> X e k' | (Inr a, k') \<Rightarrow> Q a k'"
    using assms by (simp add: hoare_def)
  obtain r k' where m: "m k = (r, k')" by fastforce
  show thesis using h m that by (cases r) auto
qed

section \<open>Invariant\<close>

text \<open>What the configuration and the documented behaviour of the cipher give a tls-crypt receiver.\<close>

definition crypt_ok :: "proto \<Rightarrow> bool" where
  "crypt_ok pc \<longleftrightarrow> length (pc_frame pc) = N_ALIGN_CONTEXTS \<and> (\<exists>n. ctx_ok n (pc_frame pc ! DECRYPT_WORK))
     \<and> (\<exists>c. pc_tls_crypt_recv pc = Some c \<and> tc_mode c = MODE_DECRYPT \<and> tc_iv_len c \<le> pc_hmac_size pc
          \<and> hm_size (tc_hmac c) = pc_hmac_size pc
          \<and> (\<forall>iv x y. tc_cipher c iv x = Some y \<longrightarrow> length y = length x))"

definition kc_inv :: "'s kst \<Rightarrow> bool" where
  "kc_inv k \<longleftrightarrow> r_initialized (pc_ta_pid_recv (pc_of k)) \<and> r_form (pc_ta_pid_recv (pc_of k)) = LONG_FORM
     \<and> win_wf (k_recv k)
     \<and> win_wf (rs_window (k_send k)) \<and> buf_wf (kx_work (kx_of k)) \<and> b_kind (kx_work (kx_of k)) \<noteq> Plain
     \<and> (pc_wrap_mode (pc_of k) \<in> {TLS_CRYPT, TLS_CRYPT_V2} \<longrightarrow> crypt_ok (pc_of k))"

definition buffer_exn :: "exn \<Rightarrow> 's kst \<Rightarrow> bool" where
  "buffer_exn e k \<longleftrightarrow> kc_inv k \<and> (\<exists>s. e = Buffer_exception s)"

abbreviation keeps_inv :: "('a, 's kst) st \<Rightarrow> bool" where
  "keeps_inv m \<equiv> hoare kc_inv m (\<lambda>_. kc_inv) buffer_exn"

lemma on_pc_simps [simp]:
  "pc_of (on_pc f k) = f (pc_of k)" "kx_of (on_pc f k) = kx_of k"
  "k_recv (on_pc f k) = k_recv k" "k_send (on_pc f k) = k_send k" "k_acks (on_pc f k) = k_acks k"
  "k_invalidated (on_pc f k) = k_invalidated k"
  by (simp_all add: on_pc_def)

lemma on_kx_simps [simp]:
  "pc_of (on_kx f k) = pc_of k" "kx_of (on_kx f k) = f (kx_of k)"
  "k_recv (on_kx f k) = k_recv k" "k_send (on_kx f k) = k_send k" "k_acks (on_kx f k) = k_acks k"
  "k_invalidated (on_kx f k) = k_invalidated k"
  by (simp_all add: on_kx_def)

lemma pc_error_simps [simp]:
  "pc_ta_pid_recv (pc_error e pc) = pc_ta_pid_recv pc" "pc_wrap_mode (pc_error e pc) = pc_wrap_mode pc"
  "pc_frame (pc_error e pc) = pc_frame pc" "pc_tls_crypt_recv (pc_error e pc) = pc_tls_crypt_recv pc"
  "pc_hmac_size (pc_error e pc) = pc_hmac_size pc" "pc_tcp (pc_error e pc) = pc_tcp pc"
  "pc_now (pc_error e pc) = pc_now pc" "pc_epoch (pc_error e pc) = pc_epoch pc"
  by (simp_all add: pc_error_def pc_tcp_def)

lemma kc_invalidate_simps [simp]:
  "pc_of (kc_invalidate e k) = pc_of k" "kx_work (kx_of (kc_invalidate e k)) = kx_work (kx_of k)"
  "k_recv (kc_invalidate e k) = k_recv k" "k_send (kc_invalidate e k) = k_send k"
  "k_acks (kc_invalidate e k) = k_acks k"
  by (simp_all add: kc_invalidate_def kc_invalidate_callback_def)

lemma kc_reject_simps [simp]:
  "pc_of (kc_reject e k) = pc_error (Inl e) (pc_of k)"
  "kx_work (kx_of (kc_reject e k)) = kx_work (kx_of k)"
  "k_recv (kc_reject e k) = k_recv k" "k_send (kc_reject e k) = k_send k"
  "k_acks (kc_reject e k) = k_acks k"
  by (simp_all add: kc_reject_def Let_def)

lemma kc_invalidate_env: "ks_invalidate (E\<lparr>d_invalidate_callback := kc_invalidate_callback\<rparr>) e k = kc_invalidate e k"
  by (simp add: ks_invalidate_def kc_invalidate_def)

lemma crypt_ok_cong:
  "pc_frame pc' = pc_frame pc \<Longrightarrow> pc_tls_crypt_recv pc' = pc_tls_crypt_recv pc \<Longrightarrow>
   pc_hmac_size pc' = pc_hmac_size pc \<Longrightarrow> crypt_ok pc' = crypt_ok pc"
  by (simp add: crypt_ok_def)

lemma kc_inv_cong:
  assumes "kc_inv k" and "k_recv k' = k_recv k" and "k_send k' = k_send k"
    and "kx_work (kx_of k') = kx_work (kx_of k)"
    and "r_initialized (pc_ta_pid_recv (pc_of k')) = r_initialized (pc_ta_pid_recv (pc_of k))"
    and "r_form (pc_ta_pid_recv (pc_of k')) = r_form (pc_ta_pid_recv (pc_of k))"
    and "pc_wrap_mode (pc_of k') = pc_wrap_mode (pc_of k)" and "pc_frame (pc_of k') = pc_frame (pc_of k)"
    and "pc_tls_crypt_recv (pc_of k') = pc_tls_crypt_recv (pc_of k)"
    and "pc_hmac_size (pc_of k') = pc_hmac_size (pc_of k)"
  shows "kc_inv k'"
  using assms crypt_ok_cong [OF assms(8-10)] by (simp add: kc_inv_def)

lemma kc_inv_reject: "kc_inv k \<Longrightarrow> kc_inv (kc_reject e k)"
  by (erule kc_inv_cong) simp_all

lemma kc_inv_error: "kc_inv k \<Longrightarrow> kc_inv (on_pc (pc_error e) k)"
  by (erule kc_inv_cong) simp_all

lemma kc_inv_received: "kc_inv k \<Longrightarrow> kc_inv (update_last_received k)"
  by (erule kc_inv_cong) (simp_all add: update_last_received_def)

lemma kc_inv_push: "kc_inv k \<Longrightarrow> kc_inv (push_ack i k)"
  by (erule kc_inv_cong) (simp_all add: push_ack_def)

section \<open>No packet makes decapsulate throw\<close>

lemma keeps_bindS:
  "keeps_inv m \<Longrightarrow> (\<And>a. keeps_inv (f a)) \<Longrightarrow> keeps_inv (bindS m f)"
  by (rule hoare_bindS)

lemmas inv_rules = keeps_bindS hoare_bindR hoare_ret hoare_if hoare_split

lemma pidr_keeps_initialized:
  assumes "pidr_test_add pid t md s = Inr (ok, err, s')"
  shows "r_initialized s' = r_initialized s \<and> r_form s' = r_form s"
  using assms
  by (auto simp: pidr_test_add_def pidr_do_test_add_def pidr_check_id_def pidr_successor_def
      pidr_jump_def pidr_backtrack_def pidr_expire_def pidr_new_time_def Let_def exn_simps
      split: if_splits)

lemma pidr_test_add_returns:
  assumes "r_initialized s"
  obtains ok err s' where "pidr_test_add pid t md s = Inr (ok, err, s')"
proof -
  obtain e s1 where "pidr_do_test_add pid t md s = Inr (e, s1)"
    using assms by (simp add: pidr_do_test_add_def Let_def) (metis surj_pair)
  then show thesis using that by (cases "e = SUCCESS") (simp_all add: pidr_test_add_def)
qed

lemma buf_read_bexn: "buf_read n b = Inl e \<Longrightarrow> \<exists>s. e = Buffer_exception s"
  by (auto simp: buf_read_eq split: if_splits)

lemma buf_pop_front_bexn: "buf_pop_front b = Inl e \<Longrightarrow> \<exists>s. e = Buffer_exception s"
  by (auto simp: buf_pop_front_def buf_index_def split: if_splits)

lemma ack_loop_bexn: "ack_loop n live b s = (Inl e, s') \<Longrightarrow> \<exists>x. e = Buffer_exception x"
  by (induction n live b s rule: ack_loop.induct)
    (auto simp: ra_read_id_def exn_simps dest: buf_read_bexn split: sum.splits prod.splits)

lemma ack_loop_wf:
  "win_wf (rs_window s) \<Longrightarrow> win_wf (rs_window (snd (ack_loop n live b s)))"
proof (induction n live b s rule: ack_loop.induct)
  case (2 n live b s)
  have "win_wf (rs_window (rs_ack i s))" for i
    using swin.rm_by_id_ok(1) [OF 2(2)] by (simp add: rs_ack_def)
  then show ?case using 2 by (auto split: sum.splits prod.splits)
qed simp

lemma ra_ack_bexn: "ra_ack live b s = (Inl e, s') \<Longrightarrow> \<exists>x. e = Buffer_exception x"
  by (auto simp: ra_ack_def Let_def exn_simps dest: buf_pop_front_bexn ack_loop_bexn
      split: sum.splits prod.splits)

lemma ra_ack_wf: "win_wf (rs_window s) \<Longrightarrow> win_wf (rs_window (snd (ra_ack live b s)))"
  using ack_loop_wf [of s] by (auto simp: ra_ack_def Let_def split_beta split: sum.splits)

lemma verify_src_psid_safe: "keeps_inv (verify_src_psid src)"
  by (auto simp: hoare_def verify_src_psid_def kc_inv_reject elim!: kc_inv_cong)

lemma verify_dest_psid_safe: "keeps_inv (verify_dest_psid b)"
  unfolding verify_dest_psid_def
  by (rule hoare_bindR)
    (force simp: hoare_def kc_inv_reject buffer_exn_def psid_of_buffer_def exn_simps
      dest: buf_read_bexn)+

lemma ta_test_add_safe: "keeps_inv (ta_test_add pid t md)"
proof (unfold hoare_def, intro allI impI)
  fix k :: "'a kst" assume k: "kc_inv k"
  then have "r_initialized (pc_ta_pid_recv (pc_of k))" by (simp add: kc_inv_def)
  then obtain ok err s' where r: "pidr_test_add pid t md (pc_ta_pid_recv (pc_of k)) = Inr (ok, err, s')"
    by (rule pidr_test_add_returns)
  show "case ta_test_add pid t md k of (Inl e, k') \<Rightarrow> buffer_exn e k' | (Inr a, k') \<Rightarrow> kc_inv k'"
    using r pidr_keeps_initialized [OF r]
    by (auto simp: ta_test_add_def intro!: kc_inv_cong [OF k] split: option.splits)
qed

lemma process_acks_safe: "keeps_inv (process_acks live b)"
proof (unfold hoare_def, intro allI impI)
  fix k :: "'a kst" assume k: "kc_inv k"
  obtain r s where r: "ra_ack live b (k_send k) = (r, s)" by fastforce
  have "win_wf (rs_window s)" using ra_ack_wf [of "k_send k" live b] k r by (simp add: kc_inv_def)
  then have "kc_inv (k\<lparr>k_send := s\<rparr>)" using k by (simp add: kc_inv_def)
  then show "case process_acks live b k of (Inl e, k') \<Rightarrow> buffer_exn e k' | (Inr a, k') \<Rightarrow> kc_inv k'"
    using r ra_ack_bexn [of live b "k_send k"]
    by (auto simp: process_acks_def buffer_exn_def split: sum.splits)
qed

lemma rel_receive_safe: "keeps_inv (rel_receive p i)"
proof (unfold hoare_def, intro allI impI)
  fix k :: "'a kst" assume k: "kc_inv k"
  have "\<exists>f w. rr_receive (Some p) i (k_recv k) = Inr (f, w) \<and> win_wf w"
    using rr_receive_in [of "k_recv k" i "Some p"] rr_receive_out [of "k_recv k" i "Some p"] k
    by (cases "in_window (k_recv k) i") (auto simp: kc_inv_def)
  then obtain f w where r: "rr_receive (Some p) i (k_recv k) = Inr (f, w)" "win_wf w" by blast
  have "kc_inv (k\<lparr>k_recv := w\<rparr>)" using k r(2) by (simp add: kc_inv_def)
  then show "case rel_receive p i k of (Inl e, k') \<Rightarrow> buffer_exn e k' | (Inr a, k') \<Rightarrow> kc_inv k'"
    using r(1) kc_inv_push by (auto simp: rel_receive_def Let_def)
qed

lemmas channel_safe =
  verify_src_psid_safe verify_dest_psid_safe ta_test_add_safe process_acks_safe rel_receive_safe

lemma acks_and_dest_psid_safe: "keeps_inv (acks_and_dest_psid live b)"
  unfolding acks_and_dest_psid_def by (intro inv_rules channel_safe)

lemma ra_read_id_bexn: "ra_read_id b = Inl e \<Longrightarrow> \<exists>s. e = Buffer_exception s"
  by (auto simp: ra_read_id_def exn_simps dest: buf_read_bexn)

lemma post_process_control_safe: "keeps_inv (post_process_control opcode b pid t ok)"
  unfolding post_process_control_def
proof (intro inv_rules channel_safe)
  fix e k assume "ra_read_id b = Inl e" and "kc_inv k"
  then show "buffer_exn e k" using ra_read_id_bexn by (auto simp: buffer_exn_def)
qed (auto simp: hoare_def Let_def kc_inv_error kc_inv_push)

lemma post_process_ack_safe: "keeps_inv (post_process_ack pid t ok)"
  unfolding post_process_ack_def
  by (intro inv_rules channel_safe) (auto simp: hoare_def kc_inv_error)

lemma keeps_after_received:
  assumes "keeps_inv m"
  shows "keeps_inv (\<lambda>k. m (update_last_received k))"
  unfolding hoare_def
  by (intro allI impI, rule assms [unfolded hoare_def, rule_format], erule kc_inv_received)

lemma decapsulate_post_process_safe: "keeps_inv (decapsulate_post_process opcode b src pid)"
proof -
  let ?m = "\<lambda>t. bindS (ta_test_add pid t False) (\<lambda>pid_ok.
          bindS (acks_and_dest_psid pid_ok b) (\<lambda>(ok, b).
            if \<not> ok then ret False
            else if opcode \<noteq> ACK_V1 then post_process_control opcode b pid t pid_ok
            else post_process_ack pid t pid_ok))"
  have m: "keeps_inv (?m t)" for t
    by (intro inv_rules channel_safe acks_and_dest_psid_safe post_process_control_safe
        post_process_ack_safe)
  have "keeps_inv (\<lambda>k. ?m (pc_seconds (pc_of k)) k)"
    by (rule hoare_lam) (rule m)
  moreover have "keeps_inv (ret False)" by (rule hoare_ret)
  ultimately have "keeps_inv (\<lambda>k. if \<not> ok then ret False k else ?m (pc_seconds (pc_of k)) k)" for ok
    by (cases ok) (simp_all del: ret_simp)
  then have "keeps_inv (bindS (verify_src_psid src)
      (\<lambda>ok k. if \<not> ok then ret False k else ?m (pc_seconds (pc_of k)) k))"
    by (intro keeps_bindS [OF verify_src_psid_safe])
  then show ?thesis unfolding decapsulate_post_process_def Let_def by (rule keeps_after_received)
qed

section \<open>Consuming the head of a packet\<close>

lemma advance_Inr:
  assumes "buf_wf b" and "buf_advance n b = Inr b'"
  shows "buf_wf b' \<and> b_kind b' = b_kind b \<and> b_size b' = b_size b - n \<and> n \<le> b_size b
    \<and> content b' = drop n (content b)"
  using assms buf_read_alloc_wf [of b n] content_advance [of n b]
  by (auto simp: buf_advance_def split: if_splits)

lemma read_Inr:
  assumes "buf_wf b" and "buf_read n b = Inr (d, b')"
  shows "buf_wf b' \<and> b_kind b' = b_kind b \<and> b_size b' = b_size b - n \<and> n \<le> b_size b
    \<and> content b = d @ content b' \<and> length d = n"
  using assms buf_read_alloc_wf [of b n] content_advance [of n b]
  by (auto simp: buf_read_eq split: if_splits)

lemma psid_of_buffer_Inr:
  assumes "buf_wf b" and "psid_of_buffer b = Inr (p, b')"
  shows "buf_wf b' \<and> b_kind b' = b_kind b \<and> b_size b' = b_size b - PSID_SIZE \<and> PSID_SIZE \<le> b_size b
    \<and> content b = psid_id p @ content b' \<and> psid_wf p \<and> psid_defined p"
  using assms(2) read_Inr [OF assms(1)]
  by (fastforce simp: psid_of_buffer_def exn_simps psid_wf_def)

text \<open>A packet ID in the long form, from its eight bytes.\<close>

definition pid_of_bytes :: "u8 list \<Rightarrow> packet_id" where
  "pid_of_bytes d = \<lparr>p_id = of_be32 (take 4 d), p_time = uint (of_be32 (drop 4 d))\<rparr>"

lemma pid_read_Inr:
  assumes "buf_wf b" and "pid_read form b = Inr (p, b')"
  shows "buf_wf b' \<and> b_kind b' = b_kind b \<and> b_size b' = b_size b - pid_size form
    \<and> pid_size form \<le> b_size b \<and> content b' = drop (pid_size form) (content b)
    \<and> (form = LONG_FORM \<longrightarrow> p = pid_of_bytes (take 8 (content b)))"
proof -
  obtain d1 b1 where 1: "buf_read 4 b = Inr (d1, b1)"
    using assms(2) by (auto simp: pid_read_def exn_simps)
  note r1 = read_Inr [OF assms(1) 1]
  show ?thesis
  proof (cases "form = LONG_FORM")
    case False
    then have "b' = b1" using assms(2) 1 by (auto simp: pid_read_def)
    then show ?thesis using r1 False by (simp add: pid_size_def)
  next
    case True
    then obtain d2 where 2: "buf_read 4 b1 = Inr (d2, b')"
      using assms(2) 1 by (auto simp: pid_read_def exn_simps)
    note r2 = read_Inr [OF conjunct1 [OF r1] 2]
    then have "8 \<le> b_size b" using r1 by linarith
    moreover have "p = pid_of_bytes (d1 @ d2)"
      using assms(2) 1 2 True r1 by (auto simp: pid_read_def pid_of_bytes_def)
    ultimately show ?thesis using r1 r2 True by (simp add: pid_size_def)
  qed
qed

lemma advance_bexn: "buf_advance n b = Inl e \<Longrightarrow> \<exists>s. e = Buffer_exception s"
  by (auto simp: buf_advance_def split: if_splits)

lemma psid_bexn: "psid_of_buffer b = Inl e \<Longrightarrow> \<exists>s. e = Buffer_exception s"
  by (auto simp: psid_of_buffer_def exn_simps dest: buf_read_bexn)

lemma pid_bexn: "pidr_read_next b s = Inl e \<Longrightarrow> r_initialized s \<Longrightarrow> \<exists>s. e = Buffer_exception s"
  by (auto simp: pidr_read_next_def pid_read_def exn_simps dest: buf_read_bexn split: if_splits)

lemmas head_bexn = advance_bexn psid_bexn

text \<open>The same with the reason: the buffer is too short.\<close>

lemma advance_short: "buf_advance n b = Inl e \<Longrightarrow> (\<exists>s. e = Buffer_exception s) \<and> b_size b < n"
  by (auto simp: buf_advance_def split: if_splits)

lemma psid_short:
  "buf_wf b \<Longrightarrow> psid_of_buffer b = Inl e \<Longrightarrow> (\<exists>s. e = Buffer_exception s) \<and> b_size b < PSID_SIZE"
  by (auto simp: psid_of_buffer_def exn_simps buf_read_eq split: if_splits)

lemma pid_short:
  assumes "buf_wf b" and "pidr_read_next b s = Inl e" and "r_initialized s" and "r_form s = LONG_FORM"
  shows "(\<exists>s. e = Buffer_exception s) \<and> b_size b < 8"
proof -
  have e: "pid_read LONG_FORM b = Inl e" using assms by (simp add: pidr_read_next_def)
  show ?thesis
  proof (cases "buf_read 4 b")
    case (Inl x)
    then show ?thesis using e assms(1) by (auto simp: pid_read_def buf_read_eq split: if_splits)
  next
    case (Inr x)
    then obtain d b1 where b1: "buf_read 4 b = Inr (d, b1)" by (cases x) auto
    note r = read_Inr [OF assms(1) b1]
    show ?thesis using e b1 r by (auto simp: pid_read_def buf_read_eq exn_simps split: if_splits)
  qed
qed

lemmas head_short = advance_short psid_short pid_short

lemma hoare_point:
  "(\<And>k. P k \<Longrightarrow> hoare (\<lambda>k'. k' = k) (m k) Q X) \<Longrightarrow> hoare P (\<lambda>k. m k k) Q X"
  by (simp add: hoare_def)

text \<open>What the HMAC of tls-auth covers: a packet of the documented form with the right tag.\<close>

definition hm_ok :: "hmac_ctx \<Rightarrow> bool" where
  "hm_ok h \<longleftrightarrow> (\<forall>x. length (hm_mac h x) = hm_size h)"

lemma ovpn_hmac_cmp_iff:
  assumes "hm_ok h"
  shows "ovpn_hmac_cmp mem h d l1 l2 l3 \<longleftrightarrow> l2 = hm_size h \<and> l1 + l2 + l3 \<le> length d
    \<and> slice l1 l2 d = hm_mac h (slice (l1 + l2) l3 d @ take l1 d @ drop (l1 + l2 + l3) d)"
proof -
  have "memneq ar (pa, slice l1 l2 d) (pb, hm_mac h x) l2 \<longleftrightarrow> slice l1 l2 d \<noteq> hm_mac h x"
    if "l2 = hm_size h" "l1 + l2 + l3 \<le> length d" for ar pa pb x
    using that assms by (intro memneq_iff) (simp_all add: hm_ok_def)
  then show ?thesis
    by (auto simp: ovpn_hmac_cmp_def ovpn_hmac_pre_def Let_def split: prod.splits if_splits)
qed

lemma decapsulate_tls_auth_cases:
  assumes recv: "buf_wf recv" and k: "kc_inv k"
  obtains (short) s where "decapsulate_tls_auth opcode recv k = (Inl (Buffer_exception s), k)"
      "b_size recv < 17 + pc_hmac_size (pc_of k)"
  | (bad) "decapsulate_tls_auth opcode recv k = (Inr False, kc_reject Err_HMAC_ERROR k)"
      "\<not> ovpn_hmac_cmp (pc_mem (pc_of k)) (pc_ta_hmac_recv (pc_of k)) (content recv) 9
         (pc_hmac_size (pc_of k)) 8"
  | (good) src b where "decapsulate_tls_auth opcode recv k
        = decapsulate_post_process opcode b src (pid_of_bytes (slice (9 + pc_hmac_size (pc_of k)) 8 (content recv))) k"
      "ovpn_hmac_cmp (pc_mem (pc_of k)) (pc_ta_hmac_recv (pc_of k)) (content recv) 9
         (pc_hmac_size (pc_of k)) 8"
      "psid_defined src" "psid_id src = slice 1 8 (content recv)" "buf_wf b"
      "content b = drop (17 + pc_hmac_size (pc_of k)) (content recv)"
proof -
  let ?pc = "pc_of k" let ?d = "content recv" let ?hs = "pc_hmac_size (pc_of k)"
  note def = decapsulate_tls_auth_def Let_def PSID_SIZE_def pid_size_def
  show thesis
  proof (cases "buf_advance 1 recv")
    case (Inl e)
    then show thesis using short advance_short [OF Inl] by (auto simp: def)
  next
    case b1: (Inr b1)
    note w1 = advance_Inr [OF recv b1]
    show thesis
    proof (cases "psid_of_buffer b1")
      case (Inl e)
      then show thesis using short psid_short [OF _ Inl] b1 w1 by (auto simp: def)
    next
      case (Inr x)
      then obtain src b2 where b2: "psid_of_buffer b1 = Inr (src, b2)" by (cases x) auto
      note w2 = psid_of_buffer_Inr [OF conjunct1 [OF w1] b2]
      show thesis
      proof (cases "buf_advance ?hs b2")
        case (Inl e)
        then show thesis using short advance_short [OF Inl] b1 b2 w1 w2 by (auto simp: def)
      next
        case b3: (Inr b3)
        note w3 = advance_Inr [OF conjunct1 [OF w2] b3]
        show thesis
        proof (cases "ovpn_hmac_cmp (pc_mem ?pc) (pc_ta_hmac_recv ?pc) ?d 9 ?hs 8")
          case False
          then show thesis using bad b1 b2 b3 by (simp add: def)
        next
          case True
          have l: "length (psid_id src) = 8" using w2 by (simp add: psid_wf_def PSID_SIZE_def)
          have c1: "content b1 = drop 1 ?d" using w1 by simp
          have c2: "content b1 = psid_id src @ content b2" using w2 by simp
          have ps: "psid_id src = take 8 (content b1)" "content b2 = drop 8 (content b1)"
            using c2 l by simp_all
          have c3: "content b3 = drop (9 + ?hs) ?d" using w3 ps(2) c1 by (simp add: add.commute)
          have init: "r_initialized (pc_ta_pid_recv ?pc)" "r_form (pc_ta_pid_recv ?pc) = LONG_FORM"
            using k by (simp_all add: kc_inv_def)
          show thesis
          proof (cases "pidr_read_next b3 (pc_ta_pid_recv ?pc)")
            case (Inl e)
            then show thesis using short pid_short [OF _ Inl init] b1 b2 b3 True w1 w2 w3 by (auto simp: def)
          next
            case (Inr y)
            then obtain pid b4 where b4: "pidr_read_next b3 (pc_ta_pid_recv ?pc) = Inr (pid, b4)"
              by (cases y) auto
            then have "pid_read LONG_FORM b3 = Inr (pid, b4)" using init by (simp add: pidr_read_next_def)
            note w4 = pid_read_Inr [OF conjunct1 [OF w3] this]
            have pid: "pid = pid_of_bytes (slice (9 + ?hs) 8 ?d)" "content b4 = drop (17 + ?hs) ?d"
              using w4 c3 by (simp_all add: slice_def pid_size_def)
            show thesis
            proof (rule good [OF _ True])
              show "decapsulate_tls_auth opcode recv k
                  = decapsulate_post_process opcode b4 src (pid_of_bytes (slice (9 + ?hs) 8 ?d)) k"
                using b1 b2 b3 b4 True pid(1) by (simp add: def)
            qed (use w2 w4 pid ps c1 in \<open>simp_all add: slice_def\<close>)
          qed
        qed
      qed
    qed
  qed
qed

lemma decapsulate_tls_auth_safe:
  "hoare (\<lambda>k. kc_inv k \<and> buf_wf recv) (decapsulate_tls_auth opcode recv) (\<lambda>_. kc_inv) buffer_exn"
proof (unfold hoare_def, intro allI impI, elim conjE)
  fix k assume k: "kc_inv k" and recv: "buf_wf recv"
  from recv k show "case decapsulate_tls_auth opcode recv k of
      (Inl e, k') \<Rightarrow> buffer_exn e k' | (Inr a, k') \<Rightarrow> kc_inv k'"
  proof (cases rule: decapsulate_tls_auth_cases [where opcode = opcode])
    case (good src b)
    then show ?thesis
      using decapsulate_post_process_safe [unfolded hoare_def, rule_format, OF k] by simp
  qed (simp_all add: buffer_exn_def k kc_inv_reject)
qed

lemma mem_read_content:
  assumes "buf_wf b" and "i + n \<le> b_size b"
  shows "mem_read (b_off b + i) n b = Inr (slice i n (content b))"
proof -
  have "slice i n (content b) = slice (b_off b + i) n (b_data b)"
    using assms(2) by (simp add: content_def slice_def drop_take min_def add.commute)
  then show ?thesis using assms by (simp add: mem_read_def buf_wf_def)
qed

lemma tls_crypt_open_safe:
  assumes c: "crypt_ok pc" and recv: "buf_wf recv" "hmac_offset + pc_hmac_size pc \<le> b_size recv"
    and w: "buf_wf w" "b_size w = 0" "b_off w + b_size b \<le> b_cap w" and b: "buf_wf b"
  shows "\<exists>r c. tls_crypt_open pc recv b w = Inr r \<and> pc_tls_crypt_recv pc = Some c
    \<and> (\<forall>w'. r = Some w' \<longrightarrow> buf_wf w' \<and> b_kind w' = b_kind w \<and> content w' \<noteq> []
         \<and> content w' = tc_encrypt_decrypt c (slice hmac_offset (tc_iv_len c) (content recv)) (content b))
    \<and> (r = None \<longrightarrow>
         tc_encrypt_decrypt c (slice hmac_offset (tc_iv_len c) (content recv)) (content b) = [])"
proof -
  obtain c where c: "pc_tls_crypt_recv pc = Some c" "tc_mode c = MODE_DECRYPT"
    "tc_iv_len c \<le> pc_hmac_size pc" "\<And>iv x y. tc_cipher c iv x = Some y \<Longrightarrow> length y = length x"
    using assms(1) by (auto simp: crypt_ok_def)
  have iv: "mem_read (b_off recv + hmac_offset) (tc_iv_len c) recv
      = Inr (slice hmac_offset (tc_iv_len c) (content recv))"
    using recv c(3) by (simp add: mem_read_content)
  let ?out = "tc_encrypt_decrypt c (slice hmac_offset (tc_iv_len c) (content recv)) (content b)"
  have len: "length ?out \<le> b_size b"
    using c(4) b by (auto simp: tc_encrypt_decrypt_def split: option.splits)
  let ?w = "w\<lparr>b_data := blit (b_data w) (b_off w) ?out\<rparr>"
  have wr: "mem_write (b_off w) ?out w = Inr ?w" and wf: "buf_wf ?w"
    using w len by (auto simp: mem_write_def buf_wf_def)
  have "buf_inc_size (length ?out) ?w = Inr (?w\<lparr>b_size := length ?out\<rparr>)"
    using wf w len by (simp add: buf_inc_size_def buf_set_size_def buf_max_size_eq buf_wf_def)
  moreover have "content (?w\<lparr>b_size := length ?out\<rparr>) = ?out"
    using w len by (simp add: content_def slice_blit_same buf_wf_def)
  ultimately show ?thesis
    using c iv wr wf w(3) len
    by (auto simp: tls_crypt_open_def with_crypt_def tc_decrypt_def buf_wf_def)
qed

lemma tls_crypt_check_safe:
  assumes "crypt_ok pc" and "buf_wf recv" and "hmac_offset + pc_hmac_size pc \<le> b_size recv"
  shows "\<exists>c. pc_tls_crypt_recv pc = Some c \<and> tls_crypt_check pc recv w
    = Inr (tc_hmac_cmp (pc_mem pc) c (slice 0 hmac_offset (content recv))
        (slice hmac_offset (pc_hmac_size pc) (content recv)) (content w))"
  using assms mem_read_content [OF assms(2), of 0 hmac_offset]
  by (auto simp: crypt_ok_def tls_crypt_check_def with_crypt_def mem_read_content)

text \<open>\<open>work\<close> has room for a packet that fits its frame context.\<close>

lemma work_prepared:
  assumes "crypt_ok pc" and "buf_wf w" and "b_kind w \<noteq> Plain" and "n \<le> f_payload (pc_frame pc ! DECRYPT_WORK)"
  obtains x w' where "frame_prepare DECRYPT_WORK base w (pc_frame pc) = Inr (x, w')" and "buf_wf w'"
    and "b_size w' = 0" and "b_off w' + n \<le> b_cap w'" and "b_kind w' \<noteq> Plain"
proof -
  let ?c = "pc_frame pc ! DECRYPT_WORK"
  obtain i where i: "ctx_ok i ?c" using assms(1) by (auto simp: crypt_ok_def)
  obtain w' where w': "ctx_prepare ?c base w = Inr (f_payload ?c, w')" "buf_wf w'"
    "b_off w' = ctx_actual_headroom ?c base" "b_size w' = 0" "f_adj_capacity ?c \<le> b_cap w'"
    "b_kind w' \<noteq> Plain"
    using ctx_prepare_ok [OF i assms(2,3)] by blast
  have "f_adj_headroom ?c + f_payload ?c \<le> f_adj_capacity ?c" using i by (simp add: ctx_ok_def)
  then have "b_off w' + n \<le> b_cap w'"
    using ctx_actual_headroom_bounds(2) [OF i, of base] w'(3,5) assms(4) by simp
  moreover have "frame_prepare DECRYPT_WORK base w (pc_frame pc) = Inr (f_payload ?c, w')"
    using w'(1) by (simp add: frame_prepare_def frame_index_def DECRYPT_WORK_def N_ALIGN_CONTEXTS_def)
  ultimately show thesis using that w' by blast
qed

lemma kc_inv_work: "kc_inv k \<Longrightarrow> buf_wf w \<Longrightarrow> b_kind w \<noteq> Plain \<Longrightarrow> kc_inv (set_work w k)"
  by (simp add: kc_inv_def set_work_def)

lemma set_work_simps [simp]:
  "pc_of (set_work w k) = pc_of k" "kx_work (kx_of (set_work w k)) = w"
  "k_recv (set_work w k) = k_recv k" "k_send (set_work w k) = k_send k" "k_acks (set_work w k) = k_acks k"
  by (simp_all add: set_work_def)

text \<open>The packet \<open>d\<close> decrypts to \<open>m\<close> under the right tag.\<close>

definition crypt_opens :: "proto \<Rightarrow> u8 list \<Rightarrow> u8 list \<Rightarrow> bool" where
  "crypt_opens pc d m \<longleftrightarrow> hmac_offset + pc_hmac_size pc \<le> length d \<and> (\<exists>c. pc_tls_crypt_recv pc = Some c
     \<and> m = tc_encrypt_decrypt c (slice hmac_offset (tc_iv_len c) d) (drop (hmac_offset + pc_hmac_size pc) d)
     \<and> m \<noteq> []
     \<and> tc_hmac_cmp (pc_mem pc) c (slice 0 hmac_offset d) (slice hmac_offset (pc_hmac_size pc) d) m)"

lemma set_work_set_work [simp]: "set_work w (set_work w' k) = set_work w k"
  by (simp add: set_work_def on_kx_def)

lemma decapsulate_tls_crypt_cases:
  assumes recv: "buf_wf recv" "b_kind recv \<noteq> Plain" and k: "kc_inv k" "crypt_ok (pc_of k)"
    "b_size recv \<le> f_payload (pc_frame (pc_of k) ! DECRYPT_WORK)"
  obtains (short) s where "decapsulate_tls_crypt opcode recv k = (Inl (Buffer_exception s), k)"
      "b_size recv < 17 + pc_hmac_size (pc_of k)"
  | (bad) e w where "decapsulate_tls_crypt opcode recv k = (Inr False, kc_reject e (set_work w k))"
      "e \<in> {Err_DECRYPT_ERROR, Err_HMAC_ERROR}" "buf_wf w" "b_kind w \<noteq> Plain"
      "\<nexists>m. crypt_opens (pc_of k) (content recv) m"
  | (good) src b w where "decapsulate_tls_crypt opcode recv k
        = decapsulate_post_process opcode w src (pid_of_bytes (slice 9 8 (content recv))) (set_work b k)"
      "crypt_opens (pc_of k) (content recv) (content w)" "buf_wf w" "buf_wf b" "b_kind b \<noteq> Plain"
      "psid_defined src" "psid_id src = slice 1 8 (content recv)"
proof -
  let ?pc = "pc_of k" let ?d = "content recv" let ?hs = "pc_hmac_size (pc_of k)"
  note def = decapsulate_tls_crypt_def Let_def
  have init: "r_initialized (pc_ta_pid_recv ?pc)" "r_form (pc_ta_pid_recv ?pc) = LONG_FORM"
    and work: "buf_wf (kx_work (kx_of k))" "b_kind (kx_work (kx_of k)) \<noteq> Plain"
    using k(1) by (simp_all add: kc_inv_def)
  show thesis
  proof (cases "buf_advance 1 recv")
    case (Inl e)
    then show thesis using short advance_short [OF Inl] by (auto simp: def)
  next
    case b1: (Inr b1)
    note w1 = advance_Inr [OF recv(1) b1]
    show thesis
    proof (cases "psid_of_buffer b1")
      case (Inl e)
      then show thesis using short psid_short [OF _ Inl] b1 w1 by (auto simp: def PSID_SIZE_def)
    next
      case (Inr x)
      then obtain src b2 where b2: "psid_of_buffer b1 = Inr (src, b2)" by (cases x) auto
      note w2 = psid_of_buffer_Inr [OF conjunct1 [OF w1] b2]
      show thesis
      proof (cases "pidr_read_next b2 (pc_ta_pid_recv ?pc)")
        case (Inl e)
        then show thesis using short pid_short [OF _ Inl init] b1 b2 w1 w2 by (auto simp: def PSID_SIZE_def)
      next
        case (Inr y)
        then obtain pid b3 where b3: "pidr_read_next b2 (pc_ta_pid_recv ?pc) = Inr (pid, b3)"
          by (cases y) auto
        then have "pid_read LONG_FORM b2 = Inr (pid, b3)" using init by (simp add: pidr_read_next_def)
        note w3 = pid_read_Inr [OF conjunct1 [OF w2] this]
        show thesis
        proof (cases "buf_advance ?hs b3")
          case (Inl e)
          then show thesis using short advance_short [OF Inl] b1 b2 b3 w1 w2 w3 by (auto simp: def PSID_SIZE_def pid_size_def)
        next
          case b4: (Inr b4)
          note w4 = advance_Inr [OF conjunct1 [OF w3] b4]
          have l: "length (psid_id src) = 8" using w2 by (simp add: psid_wf_def PSID_SIZE_def)
          have c1: "content b1 = drop 1 ?d" using w1 by simp
          have c2: "content b1 = psid_id src @ content b2" using w2 by simp
          have "psid_id src = take 8 (content b1)" "content b2 = drop 8 (content b1)"
            using c2 l by simp_all
          then have ps: "psid_id src = slice 1 8 ?d" "content b2 = drop 9 ?d"
            using c1 by (simp_all add: slice_def)
          have sz: "hmac_offset + ?hs \<le> b_size recv"
            using w1 w2 w3 w4 by (auto simp: hmac_offset_def PSID_SIZE_def pid_size_def)
          have pid: "pid = pid_of_bytes (slice 9 8 ?d)" using w3 ps(2) by (simp add: slice_def)
          have c4: "content b4 = drop (hmac_offset + ?hs) ?d"
            using w3 w4 ps(2) by (simp add: pid_size_def hmac_offset_def PSID_SIZE_def ac_simps)
          have k4: "b_kind b4 \<noteq> Plain" and s4: "b_size b4 \<le> f_payload (pc_frame ?pc ! DECRYPT_WORK)"
            using w1 w2 w3 w4 recv(2) k(3) by auto
          obtain n w where w: "frame_prepare DECRYPT_WORK (pc_base ?pc) (kx_work (kx_of k)) (pc_frame ?pc)
              = Inr (n, w)" "buf_wf w" "b_size w = 0" "b_off w + b_size b4 \<le> b_cap w" "b_kind w \<noteq> Plain"
            by (rule work_prepared [OF k(2) work s4])
          obtain r c where r: "tls_crypt_open ?pc recv b4 w = Inr r" "pc_tls_crypt_recv ?pc = Some c"
            "\<And>w'. r = Some w' \<Longrightarrow> buf_wf w' \<and> b_kind w' = b_kind w \<and> content w' \<noteq> []
              \<and> content w' = tc_encrypt_decrypt c (slice hmac_offset (tc_iv_len c) ?d) (content b4)"
            "r = None \<Longrightarrow> tc_encrypt_decrypt c (slice hmac_offset (tc_iv_len c) ?d) (content b4) = []"
            using tls_crypt_open_safe [OF k(2) recv(1) sz w(2-4)] w4 by blast
          show thesis
          proof (cases r)
            case None
            then have "decapsulate_tls_crypt opcode recv k = (Inr False, kc_reject Err_DECRYPT_ERROR (set_work w k))"
              using b1 b2 b3 b4 sz w(1) r(1) by (simp add: def)
            moreover have "\<nexists>m. crypt_opens ?pc ?d m"
              using None r(2,4) c4 by (auto simp: crypt_opens_def)
            ultimately show thesis using bad w by blast
          next
            case (Some w')
            note w' = r(3) [OF Some]
            have ck: "tls_crypt_check ?pc recv w' = Inr (tc_hmac_cmp (pc_mem ?pc) c (slice 0 hmac_offset ?d)
                (slice hmac_offset ?hs ?d) (content w'))" (is "_ = Inr ?ok")
              using tls_crypt_check_safe [OF k(2) recv(1) sz, of w'] r(2) by auto
            have run: "decapsulate_tls_crypt opcode recv k =
                (if \<not> ?ok then (Inr False, kc_reject Err_HMAC_ERROR (set_work w' k))
                 else decapsulate_post_process opcode w' src pid (set_work b4 k))"
              using b1 b2 b3 b4 sz w(1) r(1) Some ck by (simp add: def)
            have "crypt_opens ?pc ?d m \<longleftrightarrow> m = content w' \<and> ?ok" for m
              using r(2) w' c4 sz recv(1) by (auto simp: crypt_opens_def)
            then show thesis
              using run w' w(5) w4 k4 pid ps(1) w2 bad [of Err_HMAC_ERROR w'] good [of w' src b4]
              by (cases ?ok) auto
          qed
        qed
      qed
    qed
  qed
qed

lemma decapsulate_tls_crypt_safe:
  "hoare (\<lambda>k. kc_inv k \<and> buf_wf recv \<and> b_kind recv \<noteq> Plain \<and> crypt_ok (pc_of k)
      \<and> b_size recv \<le> f_payload (pc_frame (pc_of k) ! DECRYPT_WORK))
    (decapsulate_tls_crypt opcode recv) (\<lambda>_. kc_inv) buffer_exn"
proof (unfold hoare_def, intro allI impI, elim conjE)
  fix k assume recv: "buf_wf recv" "b_kind recv \<noteq> Plain" and k: "kc_inv k" "crypt_ok (pc_of k)"
    "b_size recv \<le> f_payload (pc_frame (pc_of k) ! DECRYPT_WORK)"
  show "case decapsulate_tls_crypt opcode recv k of
      (Inl e, k') \<Rightarrow> buffer_exn e k' | (Inr a, k') \<Rightarrow> kc_inv k'"
  proof (rule decapsulate_tls_crypt_cases [OF recv k, of opcode])
    fix src b w
    assume run: "decapsulate_tls_crypt opcode recv k
        = decapsulate_post_process opcode w src (pid_of_bytes (slice 9 8 (content recv))) (set_work b k)"
      and b: "buf_wf b" "b_kind b \<noteq> Plain"
    have "kc_inv (set_work b k)" by (rule kc_inv_work [OF k(1) b])
    from decapsulate_post_process_safe [unfolded hoare_def, rule_format, OF this] run
    show ?thesis by simp
  qed (simp_all add: buffer_exn_def k kc_inv_reject kc_inv_work)
qed

lemma decapsulate_tls_plain_safe: "keeps_inv (decapsulate_tls_plain opcode recv)"
proof -
  have "keeps_inv (bindR (buf_advance 1 recv) (\<lambda>b.
     bindR (psid_of_buffer b) (\<lambda>(src, b).
     bindS (verify_src_psid src) (\<lambda>ok.
       if \<not> ok then ret False
       else bindS (acks_and_dest_psid True b) (\<lambda>(ok, b).
         if \<not> ok then ret False
         else if opcode \<noteq> ACK_V1 then
           bindR (ra_read_id b) (\<lambda>(i, b).
             bindS (rel_receive (packet_of_buffer opcode b) i) (\<lambda>rflags.
               ret (rflags AND IN_WINDOW \<noteq> 0)))
         else ret False)))))" (is "keeps_inv ?m")
    by (intro inv_rules channel_safe acks_and_dest_psid_safe)
      (auto simp: buffer_exn_def dest: head_bexn ra_read_id_bexn)
  then show ?thesis unfolding decapsulate_tls_plain_def by (rule keeps_after_received)
qed

lemma cc_decapsulate_cases:
  assumes "pk_buf p = Some b" and "decapsulate_dispatch p b k = (r, k')"
    and "\<And>e. r = Inl e \<Longrightarrow> \<exists>s. e = Buffer_exception s"
  shows "cc_decapsulate p k = (case r of Inl e \<Rightarrow> (Inr False, kc_reject Err_BUFFER_ERROR k') | Inr ok \<Rightarrow> (Inr ok, k'))"
  using assms by (cases r) (fastforce simp: cc_decapsulate_def)+

text \<open>The packets for which \<open>decapsulate\<close> goes through tls-crypt without a wrapped client key.\<close>

definition packet_fits :: "packet \<Rightarrow> buffer \<Rightarrow> 's kst \<Rightarrow> bool" where
  "packet_fits p b k \<longleftrightarrow> pk_buf p = Some b \<and> buf_wf b \<and> b_kind b \<noteq> Plain
     \<and> (pc_wrap_mode (pc_of k) \<in> {TLS_CRYPT, TLS_CRYPT_V2} \<longrightarrow>
          b_size b \<le> f_payload (pc_frame (pc_of k) ! DECRYPT_WORK))
     \<and> \<not> (pc_wrap_mode (pc_of k) = TLS_CRYPT_V2 \<and> pk_opcode p = CONTROL_HARD_RESET_CLIENT_V3)"

lemma decapsulate_dispatch_safe:
  assumes "kc_inv k" and "packet_fits p b k"
  obtains (throws) s k' where "decapsulate_dispatch p b k = (Inl (Buffer_exception s), k')" "kc_inv k'"
  | (returns) ok k' where "decapsulate_dispatch p b k = (Inr ok, k')" "kc_inv k'"
proof -
  have finish: thesis
    if "decapsulate_dispatch p b k = m k" and "hoare P m (\<lambda>_. kc_inv) buffer_exn" and "P k" for m P
    using hoare_run [OF that(2,3)] that(1) throws returns by (metis buffer_exn_def)
  have crypt: thesis if "decapsulate_dispatch p b k = decapsulate_tls_crypt (pk_opcode p) b k"
    and "pc_wrap_mode (pc_of k) \<in> {TLS_CRYPT, TLS_CRYPT_V2}"
    by (rule finish [OF that(1) decapsulate_tls_crypt_safe [of b]])
      (use that(2) assms in \<open>auto simp: packet_fits_def kc_inv_def\<close>)
  show thesis
  proof (cases "pc_wrap_mode (pc_of k)")
    case TLS_PLAIN
    then show thesis
      by (intro finish [OF _ decapsulate_tls_plain_safe assms(1)]) (simp add: decapsulate_dispatch_def)
  next
    case TLS_AUTH
    then show thesis
      by (intro finish [OF _ decapsulate_tls_auth_safe [of b "pk_opcode p"]])
        (use assms in \<open>auto simp: decapsulate_dispatch_def packet_fits_def\<close>)
  next
    case TLS_CRYPT
    then show thesis by (intro crypt) (simp_all add: decapsulate_dispatch_def)
  next
    case TLS_CRYPT_V2
    then show thesis
      using assms(2) by (intro crypt) (simp_all add: decapsulate_dispatch_def packet_fits_def)
  qed
qed

section \<open>Authentic packets\<close>

text \<open>
  The documented forms: \<open>[OP] [PSID] [HMAC] [PID] [...]\<close> with the tag over PID, OP, PSID and the
  rest, and \<open>[OP] [PSID] [PID] [HMAC] [...]\<close> with the tag over the head and the plain text, whose
  first bytes are the IV.
\<close>

definition auth_form :: "hmac_ctx \<Rightarrow> u8 \<Rightarrow> u8 list \<Rightarrow> u8 list \<Rightarrow> u8 list \<Rightarrow> u8 list" where
  "auth_form h op ps pid body = op # ps @ hm_mac h (pid @ op # ps @ body) @ pid @ body"

definition crypt_form :: "crypt_ctx \<Rightarrow> u8 \<Rightarrow> u8 list \<Rightarrow> u8 list \<Rightarrow> u8 list \<Rightarrow> u8 list \<Rightarrow> u8 list" where
  "crypt_form c op ps pid m ct = op # ps @ pid @ hm_mac (tc_hmac c) (op # ps @ pid @ m) @ ct"

definition authentic :: "proto \<Rightarrow> u8 list \<Rightarrow> bool" where
  "authentic pc d \<longleftrightarrow> (\<exists>op ps pid. length ps = PSID_SIZE \<and> length pid = 8 \<and>
     (if pc_wrap_mode pc = TLS_AUTH then \<exists>body. d = auth_form (pc_ta_hmac_recv pc) op ps pid body
      else \<exists>c m ct. pc_tls_crypt_recv pc = Some c \<and> d = crypt_form c op ps pid m ct \<and> m \<noteq> []
        \<and> tc_cipher c (take (tc_iv_len c) (hm_mac (tc_hmac c) (op # ps @ pid @ m))) ct = Some m))"

lemma list_9: "9 \<le> length d \<Longrightarrow> \<exists>op ps. take 9 d = op # ps \<and> length ps = 8"
  by (cases d) (auto simp: min_def)

lemma take_slice_drop: "take a d @ slice a n d @ drop (a + n) d = d"
proof -
  have "slice a n d @ drop (a + n) d = drop a d"
    using append_take_drop_id [of n "drop a d"] by (simp add: slice_def add.commute)
  then show ?thesis by simp
qed

lemma split_head:
  assumes "17 + n \<le> length (d :: 'a list)"
  obtains op ps where "take 9 d = op # ps" and "length ps = PSID_SIZE"
    and "d = op # ps @ slice 9 n d @ slice (9 + n) 8 d @ drop (17 + n) d"
    and "d = op # ps @ slice 9 8 d @ slice 17 n d @ drop (17 + n) d"
proof -
  obtain op ps where h: "take 9 d = op # ps" "length ps = 8"
    using list_9 [of d] assms by auto
  have "d = take 9 d @ slice 9 (n + 8) d @ drop (17 + n) d"
    "d = take 9 d @ slice 9 (8 + n) d @ drop (17 + n) d"
    using take_slice_drop [of 9 d "n + 8"] by (simp_all add: add.commute)
  then show thesis
    using that [of op ps] h unfolding slice_split by (simp add: PSID_SIZE_def)
qed

lemma cmp_authentic:
  assumes "hm_ok (pc_ta_hmac_recv pc)" and "pc_wrap_mode pc = TLS_AUTH"
    and "ovpn_hmac_cmp mem (pc_ta_hmac_recv pc) d 9 n 8"
  shows "authentic pc d"
proof -
  have c: "9 + n + 8 \<le> length d" "slice 9 n d = hm_mac (pc_ta_hmac_recv pc)
      (slice (9 + n) 8 d @ take 9 d @ drop (9 + n + 8) d)"
    using assms(3) unfolding ovpn_hmac_cmp_iff [OF assms(1)] by auto
  have e: "9 + n + 8 = 17 + n" by simp
  have "17 + n \<le> length d" using c(1) by simp
  then obtain op ps where h: "take 9 d = op # ps" "length ps = PSID_SIZE"
    "d = op # ps @ slice 9 n d @ slice (9 + n) 8 d @ drop (17 + n) d"
    by (rule split_head)
  have "d = auth_form (pc_ta_hmac_recv pc) op ps (slice (9 + n) 8 d) (drop (17 + n) d)"
    using h(3) unfolding c(2) [unfolded e h(1)] auth_form_def by simp
  moreover have "length (slice (9 + n) 8 d) = 8" using c(1) by simp
  ultimately show ?thesis using h(2) assms(2) unfolding authentic_def by auto
qed

lemma opens_authentic:
  assumes ok: "\<And>c. pc_tls_crypt_recv pc = Some c \<Longrightarrow> hm_ok (tc_hmac c)" "crypt_ok pc"
    and mode: "pc_wrap_mode pc \<noteq> TLS_AUTH" and m: "crypt_opens pc d m"
  shows "authentic pc d"
proof -
  let ?n = "pc_hmac_size pc"
  obtain c where c: "pc_tls_crypt_recv pc = Some c" "17 + ?n \<le> length d" "m \<noteq> []"
    "m = tc_encrypt_decrypt c (slice 17 (tc_iv_len c) d) (drop (17 + ?n) d)"
    "tc_hmac_cmp (pc_mem pc) c (slice 0 17 d) (slice 17 ?n d) m"
    using m by (auto simp: crypt_opens_def hmac_offset_def PSID_SIZE_def)
  have hs: "hm_size (tc_hmac c) = ?n" and iv: "tc_iv_len c \<le> ?n" and h: "hm_ok (tc_hmac c)"
    using ok c(1) by (auto simp: crypt_ok_def)
  have tag: "slice 17 ?n d = hm_mac (tc_hmac c) (slice 0 17 d @ m)"
    using c(2,5) hs h by (auto simp: tc_hmac_cmp_def tc_hmac_digest_def memneq_iff hm_ok_def
        split: prod.splits)
  obtain op ps where p: "take 9 d = op # ps" "length ps = PSID_SIZE"
    "d = op # ps @ slice 9 8 d @ slice 17 ?n d @ drop (17 + ?n) d"
    by (rule split_head [OF c(2)])
  have head: "slice 0 17 d = op # ps @ slice 9 8 d"
    using p(1) slice_split [of 0 9 8 d] by (simp add: slice_def)
  have "d = crypt_form c op ps (slice 9 8 d) m (drop (17 + ?n) d)"
    using p(3) tag head by (simp add: crypt_form_def)
  moreover have "tc_cipher c (take (tc_iv_len c) (hm_mac (tc_hmac c) (op # ps @ slice 9 8 d @ m)))
      (drop (17 + ?n) d) = Some m"
    using c(3,4) tag head slice_take_prefix [OF iv, of 17 d]
    by (auto simp: tc_encrypt_decrypt_def split: option.splits)
  moreover have "length (slice 9 8 d) = 8" using c(2) by simp
  ultimately show ?thesis using c(1,3) p(2) mode unfolding authentic_def by (simp only: if_False) blast
qed

section \<open>A concrete channel\<close>

definition demo_hmac :: hmac_ctx where
  "demo_hmac = \<lparr>hm_size = 1, hm_mac = (\<lambda>x. [of_nat (length x)])\<rparr>"

definition demo_crypt :: "cipher_mode \<Rightarrow> crypt_ctx" where
  "demo_crypt m = \<lparr>tc_hmac = demo_hmac, tc_iv_len = 1, tc_cipher = (\<lambda>iv x. Some (map NOT x)), tc_mode = m\<rparr>"

definition demo_psid :: psid where
  "demo_psid = \<lparr>psid_defined = True, psid_id = [1, 2, 3, 4, 5, 6, 7, 8]\<rparr>"

definition demo_config :: config where
  "demo_config =
     \<lparr>cf_handshake_window = Duration 61440, cf_become_primary = Duration 30720, cf_renegotiate = Duration 3686400,
      cf_expire = Duration 7372800, cf_tls_timeout = Duration 1024, cf_reliable_window = 4, cf_max_ack_list = 4,
      cf_pid_mode = 0, cf_xmit_creds = True, cf_options_string = [], cf_peer_info = []\<rparr>"

definition demo_proto :: "wrap_mode \<Rightarrow> proto" where
  "demo_proto mode =
     \<lparr>pc_server = True, pc_protocol = UDPv4, pc_wrap_mode = mode, pc_hmac_size = 1,
      pc_frame = frame_set_default_context (ctx_make 64 64 0 0 1 0), pc_base = 0, pc_epoch = 0,
      pc_mem = (Other, 0, 0), pc_now = Time 0, pc_keepalive_timeout = Duration 0,
      pc_keepalive_expire = Time 0, pc_wkc = alloc_default, pc_hmac_new = (\<lambda>_. demo_hmac),
      pc_cipher_new = (\<lambda>_ _. (1, \<lambda>_ x. Some (map NOT x))), pc_metadata_verify = (\<lambda>_ _. True),
      pc_ta_hmac_send = demo_hmac, pc_ta_hmac_recv = demo_hmac,
      pc_tls_crypt_send = Some (demo_crypt MODE_ENCRYPT),
      pc_tls_crypt_recv = Some (demo_crypt MODE_DECRYPT),
      pc_tls_crypt_server = Some (demo_crypt MODE_DECRYPT), pc_ta_pid_send = pids_init LONG_FORM,
      pc_ta_pid_recv = pidr_init 0 LONG_FORM [] 0, pc_psid_self = demo_psid,
      pc_psid_peer = demo_psid, pc_errors = [], pc_cfg = demo_config, pc_keepalive_ping = Duration 8192,
      pc_keepalive_xmit = Time 0, pc_upcoming_key_id = 1, pc_n_key_ids = 1, pc_slowest_handshake = Duration 0,
      pc_dc_deferred = False, pc_rng = (\<lambda>k n. replicate n (of_nat k)), pc_rng_calls = 0,
      pc_prf_mac = (\<lambda>md key x. replicate (md_size md) (of_nat (length x))), pc_client_auth = Inr,
      pc_server_auth = (\<lambda>_ _ _. Inr ()), pc_auths = [], pc_actives = 0, pc_control_recv = [], pc_net_sent = [],
      pc_mss_inter = 0, pc_enable_op32 = True, pc_remote_peer_id = 7\<rparr>"

definition demo_kx :: key_ctx where
  "demo_kx = \<lparr>kx_key_id = 0, kx_work = alloc_default, kx_reached_active = Time 0,
     kx_next_event = KEV_NONE, kx_next_event_time = time_infinite, kx_current_event = KEV_NONE,
     kx_state = 10, kx_dirty = False, kx_limit_fired = False, kx_is_reliable = False, kx_construct_time = Time 0,
     kx_prf_self = tp_new True, kx_prf_peer = tp_new False, kx_pre_write_queue = [], kx_app_recv_buf = []\<rparr>"

definition demo_kst :: "proto \<Rightarrow> unit kst" where
  "demo_kst pc =
     \<lparr>k_tls_timeout = Duration 2048, k_ssl = (), k_frame = pc_frame pc, k_reentry = 0,
      k_invalidated = False, k_reason = Err_SUCCESS, k_ssl_started = False,
      k_next_retransmit = time_infinite, k_ack_buf = packet_new, k_app_queue = [],
      k_raw_queue = [], k_errors = [], k_now = Time 0, k_recv = rr_init 4,
      k_send = rs_init 4, k_acks = ra_init 4, k_user = \<lparr>u_pc = pc, u_kx = demo_kx\<rparr>\<rparr>"

definition demo_recv :: "u8 list \<Rightarrow> buffer" where
  "demo_recv d = \<lparr>b_data = d, b_off = 0, b_size = length d, b_cap = length d, b_kind = Allocated 0\<rparr>"

lemma demo_recv_wf: "length d < MAX_OBJECT \<Longrightarrow> buf_wf (demo_recv d)"
  by (simp add: demo_recv_def buf_wf_def)

lemma demo_content [simp]: "content (demo_recv d) = d"
  by (simp add: demo_recv_def content_def Prelude.slice_def)

lemma demo_crypt_ok: "crypt_ok (demo_proto mode)"
proof -
  have "ctx_ok 0 (frame_set_default_context (ctx_make 64 64 0 0 1 0) ! DECRYPT_WORK)"
    using ctx_make_ok [of 1 0 64 64 0 0 0]
    by (simp add: frame_set_default_context_def N_ALIGN_CONTEXTS_def DECRYPT_WORK_def)
  then show ?thesis
    by (auto simp: crypt_ok_def demo_proto_def demo_crypt_def demo_hmac_def frame_set_default_context_def)
qed

lemma demo_inv: "kc_inv (demo_kst (demo_proto mode))"
  using demo_crypt_ok [of mode]
  by (simp add: kc_inv_def demo_kst_def)
    (simp add: demo_proto_def demo_kx_def pidr_init_def rr_init_def rs_init_def alloc_default_def
      buf_default_def buf_wf_def)

text \<open>A packet of tls-auth with a tag that is not the length of what it covers.\<close>

definition demo_forged :: "u8 list" where
  "demo_forged = [0x20, 9, 9, 9, 9, 9, 9, 9, 9, 0xFF, 0, 0, 0, 1, 0, 0, 0, 5, 0, 0, 0, 0, 0]"

lemma demo_forged_not_authentic: "\<not> authentic (demo_proto TLS_AUTH) demo_forged"
proof
  assume "authentic (demo_proto TLS_AUTH) demo_forged"
  then obtain op ps pid body where l: "length ps = 8" "length pid = 8"
    and d: "demo_forged = op # ps @ [of_nat (length (pid @ op # ps @ body))] @ pid @ body"
    by (auto simp: authentic_def demo_proto_def auth_form_def demo_hmac_def PSID_SIZE_def)
  have "length demo_forged = 23" by (simp add: demo_forged_def)
  then have n: "length body = 5" unfolding d using l by simp
  have "demo_forged ! 9 = of_nat (length (pid @ op # ps @ body))"
    unfolding d using l by (simp add: nth_append)
  then show False using n l by (simp add: demo_forged_def)
qed

section \<open>Properties\<close>

text \<open>
  C30. Robustness: whatever bytes arrive, in every wrap mode but the first packet of tls-crypt-v2,
  \<open>decapsulate\<close> returns; no exception leaves it, it does not step outside a buffer or dereference
  null, and the invariant of the channel is kept.  For tls-crypt the cipher keeps lengths and the
  packet fits the frame context of the decryption buffer.
\<close>

theorem decapsulate_never_throws:
  assumes "kc_inv k" and "packet_fits p b k"
  shows "\<exists>ok k'. cc_decapsulate p k = (Inr ok, k') \<and> kc_inv k'"
  using assms
proof (cases rule: decapsulate_dispatch_safe)
  case (throws s k')
  then show ?thesis
    using cc_decapsulate_cases [of p b k "Inl (Buffer_exception s)" k'] kc_inv_reject assms(2)
    by (auto simp: packet_fits_def)
next
  case (returns ok k')
  then show ?thesis using cc_decapsulate_cases [of p b k "Inr ok" k'] assms(2) by (simp add: packet_fits_def)
qed

theorem decapsulate_never_throws_witness:
  "\<exists>ok k'. cc_decapsulate (packet_of_buffer CONTROL_V1 (demo_recv demo_forged))
      (demo_kst (demo_proto TLS_CRYPT)) = (Inr ok, k') \<and> kc_inv k'"
  by (rule decapsulate_never_throws [OF demo_inv, of _ "demo_recv demo_forged"])
    (simp add: packet_fits_def demo_recv_wf packet_of_buffer_def demo_forged_def,
     simp add: demo_recv_def demo_kst_def demo_proto_def frame_set_default_context_def
       N_ALIGN_CONTEXTS_def DECRYPT_WORK_def ctx_make_def ctx_recalc_derived_def)

text \<open>
  C31. Safety: under tls-auth and tls-crypt, a packet that is not authentic (not of the documented
  form with the tag the receiver's key gives) changes nothing of the protocol: it is rejected, no
  message, acknowledgement, session ID or packet ID is touched.  One error is counted, and the
  session is invalidated at most over TCP.
\<close>

theorem forged_packet_changes_nothing:
  assumes "kc_inv k" and "packet_fits p b k" and "pc_wrap_mode (pc_of k) \<in> {TLS_AUTH, TLS_CRYPT}"
    and "hm_ok (pc_ta_hmac_recv (pc_of k))"
    and "\<And>c. pc_tls_crypt_recv (pc_of k) = Some c \<Longrightarrow> hm_ok (tc_hmac c)"
    and "\<not> authentic (pc_of k) (content b)"
  shows "\<exists>e k'. cc_decapsulate p k = (Inr False, k') \<and> k_recv k' = k_recv k \<and> k_send k' = k_send k
    \<and> k_acks k' = k_acks k \<and> pc_of k' = pc_error (Inl e) (pc_of k)
    \<and> (\<not> pc_tcp (pc_of k) \<longrightarrow> k_invalidated k' = k_invalidated k)"
proof -
  have b: "pk_buf p = Some b" "buf_wf b" "b_kind b \<noteq> Plain" using assms(2) by (simp_all add: packet_fits_def)
  have rej: ?thesis if "cc_decapsulate p k = (Inr False, kc_reject e (set_work w k))" for e w
    using that by (auto simp: kc_reject_def Let_def set_work_def)
  have self: "set_work (kx_work (kx_of k)) k = k" by (simp add: set_work_def on_kx_def)
  have short: ?thesis if "decapsulate_dispatch p b k = (Inl (Buffer_exception s), k)" for s
    using rej [of Err_BUFFER_ERROR "kx_work (kx_of k)"] that b(1) self by (simp add: cc_decapsulate_def)
  show ?thesis
  proof (cases "pc_wrap_mode (pc_of k) = TLS_AUTH")
    case True
    then have d: "decapsulate_dispatch p b k = decapsulate_tls_auth (pk_opcode p) b k"
      by (simp add: decapsulate_dispatch_def)
    show ?thesis
    proof (rule decapsulate_tls_auth_cases [OF b(2) assms(1), of "pk_opcode p"])
      assume "decapsulate_tls_auth (pk_opcode p) b k = (Inr False, kc_reject Err_HMAC_ERROR k)"
      then show ?thesis
        using rej [of Err_HMAC_ERROR "kx_work (kx_of k)"] d b(1) self by (simp add: cc_decapsulate_def)
    qed (use d short cmp_authentic [OF assms(4) True] assms(6) in auto)
  next
    case False
    then have mode: "pc_wrap_mode (pc_of k) = TLS_CRYPT" using assms(3) by simp
    then have d: "decapsulate_dispatch p b k = decapsulate_tls_crypt (pk_opcode p) b k"
      by (simp add: decapsulate_dispatch_def)
    have ck: "crypt_ok (pc_of k)" "b_size b \<le> f_payload (pc_frame (pc_of k) ! DECRYPT_WORK)"
      using assms(1,2) mode by (simp_all add: kc_inv_def packet_fits_def)
    show ?thesis
    proof (rule decapsulate_tls_crypt_cases [OF b(2,3) assms(1) ck, of "pk_opcode p"])
      fix e w assume "decapsulate_tls_crypt (pk_opcode p) b k = (Inr False, kc_reject e (set_work w k))"
      then show ?thesis using rej [of e w] d b(1) by (simp add: cc_decapsulate_def)
    qed (use d short opens_authentic [OF assms(5) ck(1) False] assms(6) in auto)
  qed
qed

theorem forged_packet_changes_nothing_witness:
  "\<exists>e k'. cc_decapsulate (packet_of_buffer CONTROL_V1 (demo_recv demo_forged))
      (demo_kst (demo_proto TLS_AUTH)) = (Inr False, k') \<and> k_recv k' = rr_init 4 \<and> pc_errors (pc_of k') = [Inl e]"
proof -
  let ?k = "demo_kst (demo_proto TLS_AUTH)"
  have f: "packet_fits (packet_of_buffer CONTROL_V1 (demo_recv demo_forged)) (demo_recv demo_forged) ?k"
    by (simp add: packet_fits_def demo_recv_wf packet_of_buffer_def demo_forged_def)
      (simp add: demo_recv_def demo_kst_def demo_proto_def)
  have m: "pc_wrap_mode (pc_of ?k) \<in> {TLS_AUTH, TLS_CRYPT}" "hm_ok (pc_ta_hmac_recv (pc_of ?k))"
    "\<And>c. pc_tls_crypt_recv (pc_of ?k) = Some c \<Longrightarrow> hm_ok (tc_hmac c)"
    by (auto simp: demo_kst_def demo_proto_def hm_ok_def demo_hmac_def demo_crypt_def)
  have "\<not> authentic (pc_of ?k) (content (demo_recv demo_forged))"
    using demo_forged_not_authentic by (simp add: demo_kst_def)
  from forged_packet_changes_nothing [OF demo_inv f m this] show ?thesis
    by (auto simp: demo_kst_def demo_proto_def pc_error_def)
qed

end
