(* ===== verification/CtlProps.thy ===== *)
theory CtlProps
  imports CtlChannel
begin

text \<open>
  Properties of the control channel that join its two directions or concern single paths: the
  round trip from \<open>encapsulate\<close> to \<open>decapsulate\<close>, the acknowledgement of rejected packets, the
  wrapped client key, and the protocol stack over the channel's own methods.
\<close>

section \<open>The key context as a protocol stack\<close>

text \<open>
  The environment with the channel's methods in place; what is left of \<open>E\<close> is the TLS session and
  the application's side.
\<close>

definition kc_env :: "nat \<Rightarrow> (packet, 's, user) stack_env \<Rightarrow> (packet, 's, user) stack_env" where
  "kc_env base E = E
     \<lparr>p_of_buffer := packet_of_buffer CONTROL_V1, p_default := packet_new, p_is_raw := packet_is_raw,
      p_buffer := (\<lambda>p. case pk_buf p of None \<Rightarrow> alloc_default | Some b \<Rightarrow> b),
      p_frame_prepare := packet_frame_prepare base,
      d_encapsulate := cc_encapsulate, d_generate_ack := cc_generate_ack,
      d_decapsulate := cc_decapsulate, d_invalidate_callback := kc_invalidate_callback\<rparr>"

text \<open>The head leaves the acknowledgement list alone.\<close>

abbreviation keeps_acks :: "(unit, cst) st \<Rightarrow> bool" where
  "keeps_acks m \<equiv> \<forall>a. hoare (\<lambda>s. c_acks s = a) m (\<lambda>_ s. c_acks s = a) (\<lambda>_ s. c_acks s = a)"

lemma on_buf_acks: "keeps_acks (on_buf f)"
  by (auto simp: hoare_def on_buf_def split: sum.splits)

lemma on_work_acks: "keeps_acks (on_work f)"
  by (auto simp: hoare_def on_work_def split: sum.splits)

lemma pid_next_acks: "keeps_acks pid_next_buf" "keeps_acks pid_next_work"
  by (auto simp: hoare_def pid_next_buf_def pid_next_work_def on_buf_def on_work_def Let_def
      split: sum.splits prod.splits)

lemma bindS_acks: "keeps_acks m \<Longrightarrow> (\<And>u. keeps_acks (f u)) \<Longrightarrow> keeps_acks (bindS m f)"
  by (blast intro: hoare_bindS)

lemmas acks_rules = bindS_acks on_buf_acks on_work_acks pid_next_acks

lemma tls_crypt_finish_acks: "keeps_acks (tls_crypt_finish opcode)"
proof -
  have "keeps_acks (\<lambda>s. if c s then on_work f s else (Inr (), s))" for c f
    using on_work_acks [of f] by (simp add: hoare_def)
  moreover have "keeps_acks (\<lambda>s. (Inr (), s\<lparr>c_buf := kx_work (c_kx s), c_kx := (c_kx s)\<lparr>kx_work := c_buf s\<rparr>\<rparr>))"
    by (simp add: hoare_def)
  ultimately have "keeps_acks (tls_crypt_append opcode out)" for out
    unfolding tls_crypt_append_def by (intro acks_rules)
  then show ?thesis by (auto simp: hoare_def tls_crypt_finish_def split: sum.splits)
qed

lemma gen_head_acks: "keeps_acks (gen_head opcode)"
proof -
  have "keeps_acks (gen_head_tls_auth opcode)" "keeps_acks (gen_head_tls_crypt opcode)"
    "keeps_acks (gen_head_tls_plain opcode)"
    unfolding gen_head_tls_auth_def gen_head_tls_crypt_def gen_head_tls_plain_def
    by (intro acks_rules tls_crypt_finish_acks)+
  then show ?thesis by (auto simp: hoare_def gen_head_def split: wrap_mode.splits)
qed

lemma acks_same:
  assumes "keeps_acks m" and "m s = (r, s')"
  shows "c_acks s' = c_acks s"
  using assms(1) [THEN spec, of "c_acks s", unfolded hoare_def, rule_format, of s] assms(2)
  by (cases r) simp_all

lemma ra_prepend_acks:
  "ra_prepend a b = Inr (b', a') \<Longrightarrow> a' = a\<lparr>ra_data := drop (min (length (ra_data a)) (ra_max a)) (ra_data a)\<rparr>"
  by (auto simp: ra_prepend_def Let_def exn_simps)

lemma dest_psid_and_acks_acks:
  assumes "prepend_dest_psid_and_acks s = (Inr u, s')"
  shows "c_acks s' = (c_acks s)
    \<lparr>ra_data := drop (min (length (ra_data (c_acks s))) (ra_max (c_acks s))) (ra_data (c_acks s))\<rparr>"
proof -
  have "keeps_acks prepend_dest_psid"
    using on_buf_acks by (simp add: hoare_def prepend_dest_psid_def)
  note keep = this
  obtain s1 where s1: "prepend_dest_psid s = (Inr (), s1)" "prepend_acks s1 = (Inr u, s')"
    using assms by (auto simp: prepend_dest_psid_and_acks_def exn_simps)
  have a1: "c_acks s1 = c_acks s" by (rule acks_same [OF keep s1(1)])
  obtain x where x: "ra_prepend (c_acks s1) (c_buf s1) = Inr x"
    using s1(2) by (cases "ra_prepend (c_acks s1) (c_buf s1)") (simp_all add: prepend_acks_def)
  then have "c_acks s' = snd x" using s1(2) by (cases x) (auto simp: prepend_acks_def)
  then show ?thesis using ra_prepend_acks [of "c_acks s1" "c_buf s1" "fst x" "snd x"] x a1 by simp
qed

lemma generate_ack_acks:
  assumes "cc_generate_ack_buf s = (Inr u, s')"
  shows "c_acks s' = (c_acks s)
    \<lparr>ra_data := drop (min (length (ra_data (c_acks s))) (ra_max (c_acks s))) (ra_data (c_acks s))\<rparr>"
proof -
  obtain s1 v where s1: "prepend_dest_psid_and_acks s = (Inr v, s1)" "gen_head ACK_V1 s1 = (Inr u, s')"
    using assms by (auto simp: cc_generate_ack_buf_def exn_simps)
  show ?thesis using dest_psid_and_acks_acks [OF s1(1)] acks_same [OF gen_head_acks s1(2)] by simp
qed

interpretation kc: ack_generator "kc_env base E" "\<lambda>a. ra_max a \<noteq> 0"
proof
  fix p a u p' a' u'
  assume g: "d_generate_ack (kc_env base E) p (a, u) = (Inr (), p', a', u')" and ok: "ra_max a \<noteq> 0"
    and ne: "ra_data a \<noteq> []"
  then have "a' = a\<lparr>ra_data := drop (min (length (ra_data a)) (ra_max a)) (ra_data a)\<rparr>"
    by (auto simp: kc_env_def cc_generate_ack_def on_packet_def Let_def
        dest!: generate_ack_acks split: option.splits prod.splits)
  then show "ra_max a' \<noteq> 0 \<and> length (ra_data a') < length (ra_data a)"
    using ok ne by (simp add: min_def)
qed

section \<open>Rejected packets\<close>

lemma no_acks:
  assumes "buf_wf b" and "content b = 0 # rest"
  obtains b' where "\<And>live k. acks_and_dest_psid live b k = (Inr (True, b'), k)" and "buf_wf b'"
    and "content b' = rest"
proof -
  obtain b' where b': "buf_pop_front b = Inr (0, b')" "buf_wf b'" "content b' = rest"
    using ra_pop_count [OF assms] by blast
  have "ra_ack live b s = (Inr (0, b'), s)" for live and s :: "packet rel_send"
    using b'(1) by (simp add: ra_ack_def)
  then have "acks_and_dest_psid live b k = (Inr (True, b'), k)" for live and k :: "'a kst"
    by (simp add: acks_and_dest_psid_def process_acks_def)
  then show thesis using b'(2,3) by (rule that)
qed

section \<open>The length word of the wrapped client key\<close>

lemma wkc_alloc:
  assumes "n < 65536" and "2 \<le> n"
  obtains p p1 where "alloc_ctor n CONSTRUCT_ZERO = Inr p" and "buf_write (be16 l) p = Inr p1"
    and "b_off p1 = 0" and "b_size p1 = 2" and "length (b_data p1) = n" and "b_cap p1 = n"
proof -
  obtain p where p: "alloc_ctor n CONSTRUCT_ZERO = Inr p" "buf_wf p" "b_cap p = n"
    using alloc_ctor_total [of n CONSTRUCT_ZERO] assms(1) by auto
  have "b_off p = 0" "b_size p = 0"
    using p(1) by (auto simp: alloc_ctor_def exn_simps flag_set_def CONSTRUCT_ZERO_def ARRAY_def)
  moreover from this obtain p1 where "buf_write (be16 l) p = Inr p1" "b_cap p1 = n"
    using buf_write_fits [OF p(2), of "be16 l"] assms(2) p(3) by auto
  ultimately show thesis
    using that p buf_write_ok [OF p(2), of "be16 l" p1] by (simp add: buf_wf_def)
qed

lemma mem_read_fits:
  assumes "pos + n \<le> length (b_data b)"
  shows "mem_read pos n b = Inr (slice pos n (b_data b))" "length (slice pos n (b_data b)) = n"
  using assms by (simp_all add: mem_read_def)

lemma tc_decrypt_length:
  assumes "\<forall>iv x y. tc_cipher c iv x = Some y \<longrightarrow> length y = length x" and "tc_decrypt c iv x = r"
  shows "r = Inl ovpn_tls_crypt_wrong_mode \<or> (\<exists>out. r = Inr out \<and> length out \<le> length x)"
  using assms by (auto simp: tc_decrypt_def tc_encrypt_decrypt_def split: option.splits if_splits)

lemma wkc_reads_inside:
  assumes recv: "buf_wf recv" and sz: "tls_frame_size pc + pc_hmac_size pc + 2 \<le> b_size recv"
    and c: "pc_tls_crypt_server pc = Some c" "tc_iv_len c \<le> pc_hmac_size pc"
    "\<forall>iv x y. tc_cipher c iv x = Some y \<longrightarrow> length y = length x"
  shows "wkc_plaintext pc recv (b_off recv + tls_frame_size pc) \<noteq> Inl undefined_behaviour"
proof -
  let ?f = "tls_frame_size pc" and ?hs = "pc_hmac_size pc"
  obtain n where n_def: "n = b_size recv - ?f - 2" by simp
  let ?wkc = "b_off recv + ?f"
  have big: "b_off recv + b_size recv \<le> length (b_data recv)" "length (b_data recv) < MAX_OBJECT"
    using recv by (simp_all add: buf_wf_def)
  have n: "sz_sub (sz_sub (b_size recv) ?f) 2 = n" "sz_sub n ?hs = n - ?hs"
    using sz big by (simp_all add: n_def)
  have fits: "?wkc + n + 2 \<le> length (b_data recv)" "?wkc + tc_iv_len c \<le> length (b_data recv)"
    "?wkc + ?hs + (n - ?hs) \<le> length (b_data recv)"
    using sz big c(2) unfolding n_def by linarith+
  note rd = mem_read_fits [OF fits(1)] mem_read_fits [OF fits(2)] mem_read_fits [OF fits(3)]
  let ?l = "of_be16 (slice (?wkc + n) 2 (b_data recv))"
  let ?iv = "slice ?wkc (tc_iv_len c) (b_data recv)"
  let ?x = "slice (?wkc + ?hs) (n - ?hs) (b_data recv)"
  show ?thesis
  proof (cases "sz_sub (unat ?l) 2 = n \<and> 2 \<le> unat ?l")
    case False
    have lt: "unat ?l < 65536" using unsigned_less [of ?l] by simp
    have "sz_sub (unat ?l) 2 \<noteq> n"
    proof
      assume e: "sz_sub (unat ?l) 2 = n"
      then have "unat ?l < 2" using False by simp
      then have "sz_sub (unat ?l) 2 = SZ - (2 - unat ?l)" by (intro sz_sub_wrap) simp_all
      then show False using e big \<open>unat ?l < 2\<close> unfolding n_def by linarith
    qed
    then show ?thesis by (simp add: wkc_plaintext_def Let_def n rd(1))
  next
    case True
    have lt: "unat ?l < 65536" using unsigned_less [of ?l] by simp
    have "sz_sub (unat ?l) 2 = unat ?l - 2" using True lt by (intro sz_sub_small) linarith+
    then have len: "unat ?l = n + 2" using True by linarith
    obtain p p1 where p: "alloc_ctor (unat ?l) CONSTRUCT_ZERO = Inr p" "buf_write (be16 ?l) p = Inr p1"
      "b_off p1 = 0" "b_size p1 = 2" "length (b_data p1) = unat ?l" "b_cap p1 = unat ?l"
      using wkc_alloc [OF lt conjunct2 [OF True]] by blast
    consider "tc_decrypt c ?iv ?x = Inl ovpn_tls_crypt_wrong_mode"
      | out where "tc_decrypt c ?iv ?x = Inr out" "length out \<le> n - ?hs"
      using tc_decrypt_length [of c ?iv ?x, OF c(3) refl] rd(6) by auto
    then show ?thesis
    proof cases
      case 1
      then show ?thesis using True n rd p c(1) by (simp add: wkc_plaintext_def Let_def with_crypt_def)
    next
      case 2
      then have "2 + length out \<le> length (b_data p1)" using p(5) len by linarith
      then show ?thesis
        using True n rd p c(1) 2(1)
        by (simp add: wkc_plaintext_def Let_def with_crypt_def mem_write_def buf_inc_size_def
            buf_set_size_def)
    qed
  qed
qed

lemma word16_of_nat: "m < 65536 \<Longrightarrow> unat (of_nat m :: u16) = m"
  by (simp add: unsigned_of_nat take_bit_nat_eq_self)

lemma wkc_wraps:
  assumes recv: "buf_wf recv" and c: "pc_tls_crypt_server pc = Some c" "tc_iv_len c \<le> pc_hmac_size pc"
    and hs: "2 \<le> pc_hmac_size pc" "pc_hmac_size pc < 65534"
    and e: "e < 2" "b_size recv = tls_frame_size pc + pc_hmac_size pc + e"
    and word: "drop (b_size recv - 2) (content recv) = be16 (of_nat (pc_hmac_size pc + e))"
  shows "wkc_plaintext pc recv (b_off recv + tls_frame_size pc) = Inl undefined_behaviour"
proof -
  let ?f = "tls_frame_size pc" and ?hs = "pc_hmac_size pc"
  obtain n where n_def: "n = ?hs + e - 2" by simp
  let ?wkc = "b_off recv + ?f"
  have big: "b_off recv + b_size recv \<le> length (b_data recv)" "length (b_data recv) < MAX_OBJECT"
    using recv by (simp_all add: buf_wf_def)
  have n: "sz_sub (sz_sub (b_size recv) ?f) 2 = n" "sz_sub n ?hs = SZ - (2 - e)"
    using hs e big by (simp_all add: n_def sz_sub_wrap)
  have "slice (?wkc + n) 2 (b_data recv) = drop (b_size recv - 2) (content recv)"
    using hs(1) e(2) by (simp add: content_def slice_drop_prefix n_def algebra_simps)
  moreover have "?wkc + n + 2 \<le> length (b_data recv)" using big hs(1) e(2) unfolding n_def by linarith
  ultimately have l: "mem_read (?wkc + n) 2 recv = Inr (be16 (of_nat (?hs + e)))"
    using mem_read_fits(1) [of "?wkc + n" 2 recv] word by simp
  have len: "unat (of_nat (?hs + e) :: u16) = ?hs + e"
    by (rule word16_of_nat) (use hs e(1) in linarith)
  have ck: "sz_sub (?hs + e) 2 = n"
    unfolding n_def by (rule sz_sub_small) (use hs e(1) in linarith)+
  have small: "?hs + e < 65536" "2 \<le> ?hs + e" using hs e(1) by simp_all
  obtain p p1 where p: "alloc_ctor (?hs + e) CONSTRUCT_ZERO = Inr p"
      "buf_write (be16 (of_nat (?hs + e))) p = Inr p1"
    using wkc_alloc [OF small] by blast
  have iv: "mem_read ?wkc (tc_iv_len c) recv = Inr (slice ?wkc (tc_iv_len c) (b_data recv))"
    using big c(2) e(2) by (intro mem_read_fits(1)) linarith
  have "length (b_data recv) < SZ - (2 - e)" using big e(1) by linarith
  then have out: "mem_read (?wkc + ?hs) (SZ - (2 - e)) recv = Inl undefined_behaviour"
    by (simp add: mem_read_def)
  show ?thesis
    unfolding wkc_plaintext_def Let_def n l
    by (simp add: len ck p c(1) with_crypt_def iv out del: of_nat_add)
qed

definition demo_env_unit :: "(packet, unit, user) stack_env" where
  "demo_env_unit =
     \<lparr>p_of_buffer = packet_of_buffer CONTROL_V1, p_default = packet_new, p_is_raw = packet_is_raw,
      p_buffer = (\<lambda>_. alloc_default), p_frame_prepare = packet_frame_prepare 0,
      s_start_handshake = (\<lambda>s. (Inr (), s)), s_write_cleartext = (\<lambda>d s. (Inr (int (length d)), s)),
      s_read_cleartext_ready = (\<lambda>_. False), s_read_cleartext = (\<lambda>_ s. (Inr (SHOULD_RETRY, []), s)),
      s_read_ciphertext_ready = (\<lambda>_. False), s_read_ciphertext = (\<lambda>s. (Inr alloc_default, s)),
      s_write_ciphertext = (\<lambda>_ s. (Inr (), s)), d_encapsulate = cc_encapsulate,
      d_generate_ack = cc_generate_ack, d_net_send = (\<lambda>p _ u. (Inr (), u)),
      d_decapsulate = cc_decapsulate, d_app_recv = (\<lambda>_ k. (Inr (), k)),
      d_raw_recv = (\<lambda>_ k. (Inr (), k)), d_invalidate_callback = kc_invalidate_callback\<rparr>"

text \<open>A receiver that has seen packet 2 at second 100 and looks at packet 1 at second 200.\<close>

definition demo_late :: "pid_recv" where
  "demo_late = snd (snd (projr (pidr_test_add \<lparr>p_id = 2, p_time = 5\<rparr> 100 True (pidr_init 0 LONG_FORM [] 0))))"

definition demo_late_proto :: proto where
  "demo_late_proto = (demo_proto TLS_AUTH)\<lparr>pc_ta_pid_recv := demo_late, pc_now := Time 204800\<rparr>"

lemma demo_late_check:
  "fst (projr (pidr_test_add \<lparr>p_id = 1, p_time = 5\<rparr> 200 False demo_late)) = False
   \<and> fst (snd (projr (pidr_test_add \<lparr>p_id = 1, p_time = 5\<rparr> 200 False demo_late))) = Some PKTID_EXPIRE
   \<and> \<not> isl (pidr_test_add \<lparr>p_id = 1, p_time = 5\<rparr> 200 False demo_late)
   \<and> r_initialized demo_late \<and> r_form demo_late = LONG_FORM"
  by code_simp

lemma demo_late_inv: "kc_inv (demo_kst demo_late_proto)"
  using demo_late_check demo_crypt_ok [of TLS_AUTH]
  by (intro kc_inv_cong [OF demo_inv [of TLS_AUTH]])
    (simp_all add: demo_kst_def demo_late_proto_def demo_proto_def pidr_init_def)

text \<open>A tag of two bytes, and a packet of the frame and the tag that ends in the tag's length.\<close>

definition demo_wide_proto :: proto where
  "demo_wide_proto = (demo_proto TLS_CRYPT_V2)\<lparr>pc_hmac_size := 2\<rparr>"

definition demo_short_wkc :: buffer where
  "demo_short_wkc = demo_recv (replicate 24 0 @ [0, 2])"

section \<open>Properties\<close>



text \<open>
  C33. Defect: a control packet whose packet ID the replay check refuses is acknowledged, although
  it is not handed to the reliability layer.  This is meant for replays, but the check also
  refuses the first copy of a message that arrives late (its ID has expired or fallen out of the
  window); the sender then forgets a message the receiver never got.
\<close>

theorem rejected_first_copy_is_acked:
  assumes "kc_inv k" and "buf_wf b" and "content b = 0 # be32 i @ payload" and "opcode \<noteq> ACK_V1"
    and "psid_defined (pc_psid_peer (pc_of k))" and "pc_psid_match (pc_of k) (pc_psid_peer (pc_of k)) src"
    and "pid_is_valid pid"
    and "pidr_test_add pid (pc_seconds (pc_of k)) False (pc_ta_pid_recv (pc_of k)) = Inr (False, err, ta)"
  shows "\<exists>k'. decapsulate_post_process opcode b src pid k = (Inr False, k')
    \<and> ra_data (k_acks k') = ra_data (k_acks k) @ [i] \<and> k_recv k' = k_recv k
    \<and> (\<forall>s :: packet rel_send. rs_inv s \<and> i < rs_next s \<and> in_window (rs_window s) i \<longrightarrow>
         rm_packet (rs_at (rs_ack i s) (unat i)) = None)"
proof -
  let ?k = "update_last_received k"
  have pc: "pc_ta_pid_recv (pc_of ?k) = pc_ta_pid_recv (pc_of k)" "pc_seconds (pc_of ?k) = pc_seconds (pc_of k)"
    "pc_psid_peer (pc_of ?k) = pc_psid_peer (pc_of k)"
    "pc_psid_match (pc_of ?k) = pc_psid_match (pc_of k)" "k_recv ?k = k_recv k" "k_acks ?k = k_acks k"
    by (simp_all add: update_last_received_def pc_seconds_def pc_psid_match_def fun_eq_iff)
  obtain b1 where b1: "\<And>live k. acks_and_dest_psid live b k = (Inr (True, b1), k :: 'a kst)" "buf_wf b1"
    "content b1 = be32 i @ payload"
    by (rule no_acks [OF assms(2,3)]) blast
  obtain b2 where b2: "ra_read_id b1 = Inr (i, b2)" using ra_read_id_ok [OF b1(2,3)] by blast
  have forget: "rm_packet (rs_at (rs_ack i s) (unat i)) = None"
    if "rs_inv s" "i < rs_next s" "in_window (rs_window s) i" for s :: "packet rel_send"
    using rs_ack_ok(5) [OF that(1,2), of "unat i"] that(3)
    by (cases "unat (rs_head_id (rs_ack i s)) \<le> unat i")
      (auto simp: rs_erased_at_def rel_erase_def rs_at_def win_at_def rs_head_id_def send_message_new_def)
  show ?thesis
    using assms(4-8) pc b1(1) b2 forget
    by (auto simp: decapsulate_post_process_def Let_def verify_src_psid_def bindS_def ta_test_add_def
        post_process_control_def push_ack_def ra_push_back_def split: option.splits)
qed

theorem rejected_first_copy_is_acked_witness:
  "\<exists>k'. decapsulate_post_process CONTROL_V1 (demo_recv (0 # be32 1 @ [7])) demo_psid
       \<lparr>p_id = 1, p_time = 5\<rparr> (demo_kst demo_late_proto) = (Inr False, k')
     \<and> ra_data (k_acks k') = [1] \<and> k_recv k' = rr_init 4"
proof -
  let ?k = "demo_kst demo_late_proto" and ?p = "\<lparr>p_id = 1, p_time = 5\<rparr>"
  have t: "pc_seconds (pc_of ?k) = 200"
    by (simp add: pc_seconds_def demo_kst_def demo_late_proto_def time_seconds_since_epoch_def)
      (simp add: demo_proto_def)
  obtain ok err ta where r: "pidr_test_add ?p 200 False demo_late = Inr (ok, err, ta)"
    using demo_late_check by (cases "pidr_test_add ?p 200 False demo_late") auto
  have "pidr_test_add ?p (pc_seconds (pc_of ?k)) False (pc_ta_pid_recv (pc_of ?k)) = Inr (False, err, ta)"
    using r demo_late_check unfolding t by (simp add: demo_kst_def demo_late_proto_def)
  note late = this
  have b: "buf_wf (demo_recv (0 # be32 1 @ [7]))" "content (demo_recv (0 # be32 1 @ [7])) = 0 # be32 1 @ [7]"
    "CONTROL_V1 \<noteq> ACK_V1" "pid_is_valid ?p"
    by (simp_all add: demo_recv_wf CONTROL_V1_def ACK_V1_def pid_is_valid_def)
  have ps: "psid_defined (pc_psid_peer (pc_of ?k))" "pc_psid_match (pc_of ?k) (pc_psid_peer (pc_of ?k)) demo_psid"
    by (simp_all add: demo_kst_def demo_late_proto_def demo_proto_def demo_psid_def pc_psid_match_def
        psid_match_def memneq_iff PSID_SIZE_def)
  have e: "ra_data (k_acks ?k) = []" "k_recv ?k = rr_init 4" by (simp_all add: demo_kst_def ra_init_def)
  from rejected_first_copy_is_acked [OF demo_late_inv b(1-3) ps b(4) late] e show ?thesis by auto
qed



end
