(* ===== verification/CtlRound.thy ===== *)
theory CtlRound
  imports CtlProps
begin

text \<open>
  The round trip of a control packet: what \<open>encapsulate\<close> of one side makes of a message,
  \<open>decapsulate\<close> of the other side hands to its reliability layer.
\<close>

section \<open>What encapsulation writes\<close>

lemma on_buf_Inr: "on_buf f s = (Inr u, s') \<longleftrightarrow> (\<exists>b. f s (c_buf s) = Inr b \<and> s' = s\<lparr>c_buf := b\<rparr>)"
  by (auto simp: on_buf_def split: sum.splits)

lemma on_work_Inr:
  "on_work f s = (Inr u, s') \<longleftrightarrow>
    (\<exists>w. f s (kx_work (c_kx s)) = Inr w \<and> s' = s\<lparr>c_kx := (c_kx s)\<lparr>kx_work := w\<rparr>\<rparr>)"
  by (auto simp: on_work_def split: sum.splits)

lemma bindS_returns: "bindS m f s = (Inr r, s') \<longleftrightarrow> (\<exists>a s1. m s = (Inr a, s1) \<and> f a s1 = (Inr r, s'))"
  by (auto simp: bindS_def split: prod.splits sum.splits)

lemma pid_next_Inr_eq:
  "pid_next_buf s = (Inr u, s') \<longleftrightarrow> (\<exists>b ta. pids_write_next True (pc_seconds (c_pc s)) (c_buf s)
      (pc_ta_pid_send (c_pc s)) = (Inr b, ta) \<and> s' = s\<lparr>c_pc := (c_pc s)\<lparr>pc_ta_pid_send := ta\<rparr>, c_buf := b\<rparr>)"
  "pid_next_work s = (Inr u, s') \<longleftrightarrow> (\<exists>b ta. pids_write_next True (pc_seconds (c_pc s)) (kx_work (c_kx s))
      (pc_ta_pid_send (c_pc s)) = (Inr b, ta)
      \<and> s' = s\<lparr>c_pc := (c_pc s)\<lparr>pc_ta_pid_send := ta\<rparr>, c_kx := (c_kx s)\<lparr>kx_work := b\<rparr>\<rparr>)"
  by (auto simp: pid_next_buf_def pid_next_work_def on_buf_Inr on_work_Inr Let_def split: prod.splits)

lemma prepend_space_Inr:
  assumes "buf_wf b" and "buf_prepend_space n b = Inr b'"
  shows "buf_wf b' \<and> b_kind b' = b_kind b \<and> (\<exists>junk. length junk = n \<and> content b' = junk @ content b)"
proof -
  have n: "n \<le> b_off b" "b' = b\<lparr>b_off := b_off b - n, b_size := sz_add (b_size b) n\<rparr>"
    using assms(2) by (auto simp: buf_prepend_space_def buf_prepend_alloc_def split: if_splits)
  have sz: "sz_add (b_size b) n = n + b_size b" using assms(1) n(1) by (simp add: buf_wf_def)
  have "content b' = slice (b_off b - n) n (b_data b) @ content b"
    using n slice_split [of "b_off b - n" n "b_size b" "b_data b"] sz by (simp add: content_def)
  moreover have "length (slice (b_off b - n) n (b_data b)) = n"
    using assms(1) n(1) by (simp add: buf_wf_def)
  ultimately show ?thesis using n sz assms(1) by (auto simp: buf_wf_def)
qed

lemma push_front_Inr:
  assumes "buf_wf b" and "buf_push_front v b = Inr b'"
  shows "buf_wf b' \<and> b_kind b' = b_kind b \<and> content b' = v # content b"
  using buf_prepend_Inr [OF assms(1), of "[v]" b'] assms buf_push_front_prepend [OF assms(1), of v]
  by (cases "b_off b = 0") (auto simp: buf_push_front_def)

text \<open>The bytes of a packet ID on the wire.\<close>

definition pid_bytes :: "packet_id \<Rightarrow> u8 list" where
  "pid_bytes p = be32 (p_id p) @ be32 (word_of_int (p_time p))"

lemma length_pid_bytes [simp]: "length (pid_bytes p) = 8"
  by (simp add: pid_bytes_def)

lemma pid_of_bytes_bytes: "0 \<le> p_time p \<Longrightarrow> p_time p < 2 ^ 32 \<Longrightarrow> pid_of_bytes (pid_bytes p) = p"
  by (simp add: pid_of_bytes_def pid_bytes_def uint_word_of_int)

lemma pid_write_prepend_Inr:
  assumes "buf_wf b" and "pid_write p LONG_FORM True b = Inr b'"
  shows "buf_wf b' \<and> b_kind b' = b_kind b \<and> content b' = pid_bytes p @ content b"
proof -
  obtain b1 where b1: "buf_prepend (be32 (word_of_int (p_time p))) b = Inr b1" "buf_prepend (be32 (p_id p)) b1 = Inr b'"
    using assms(2) by (auto simp: pid_write_def Let_def exn_simps)
  show ?thesis using buf_prepend_Inr [OF assms(1) b1(1)] buf_prepend_Inr [OF _ b1(2)] by (simp add: pid_bytes_def)
qed

text \<open>Overwriting part of a buffer's window.\<close>

lemma mem_write_Inr:
  assumes "buf_wf b" and "mem_write (b_off b + i) d b = Inr b'" and "i + length d \<le> b_size b"
  shows "buf_wf b' \<and> b_kind b' = b_kind b \<and> b_off b' = b_off b \<and> b_size b' = b_size b
    \<and> content b' = take i (content b) @ d @ drop (i + length d) (content b)"
proof -
  have b': "b' = b\<lparr>b_data := blit (b_data b) (b_off b + i) d\<rparr>" using assms(2) by (auto simp: mem_write_def split: if_splits)
  have len: "b_off b + b_size b \<le> length (b_data b)" using assms(1) by (simp add: buf_wf_def)
  have "content b' = slice (b_off b) (i + (length d + (b_size b - i - length d))) (blit (b_data b) (b_off b + i) d)"
    using assms(3) by (simp add: b' content_def)
  also have "\<dots> = slice (b_off b) i (b_data b) @ d @ slice (b_off b + i + length d) (b_size b - i - length d) (b_data b)"
    using len assms(3) unfolding slice_split by (simp add: slice_blit_same slice_blit_before slice_blit_after)
  finally have "content b' = take i (content b) @ d @ drop (i + length d) (content b)"
    using assms(3) by (simp add: content_def slice_take_prefix slice_drop_prefix ac_simps)
  then show ?thesis using assms(1) len assms(3) by (simp add: b' buf_wf_def)
qed

lemma take_drop_length: "length x = n \<Longrightarrow> take n (x @ y) = x" "length x = n \<Longrightarrow> drop n (x @ y) = y"
  by simp_all

lemma drop_length_append: "drop (length x) (x @ y) = y"
  by simp

lemma slice_append3:
  "slice (length x) (length y) (x @ y @ z) = y" "slice (length x) (length y) (x @ y) = y"
  by (simp_all add: slice_def)

lemma hmac_gen_form:
  assumes "hm_ok h" and "hm_size h = n" and "length ps = PSID_SIZE" and "length junk = n" and "length pid = 8"
  shows "ovpn_hmac_gen h (op # ps @ junk @ pid @ x) (1 + PSID_SIZE) n 8 = Inr (auth_form h op ps pid x)"
proof -
  let ?d = "op # ps @ junk @ pid @ x"
  have 1: "slice (1 + PSID_SIZE + n) 8 ?d = pid"
    using slice_append3(1) [of "op # ps @ junk" pid x] assms(3-5) by (simp add: add.commute)
  have "length (op # ps @ junk @ pid) = 1 + PSID_SIZE + n + 8" using assms(3-5) by simp
  from drop_length_append [of "op # ps @ junk @ pid" x, unfolded this]
  have 2: "take (1 + PSID_SIZE) ?d = op # ps" "drop (1 + PSID_SIZE + n + 8) ?d = x"
    using assms(3) by simp_all
  have m: "length (hm_mac h y) = n" for y using assms(1,2) by (simp add: hm_ok_def)
  have "blit ?d (1 + PSID_SIZE) (hm_mac h y) = auth_form h op ps pid x" if "y = pid @ op # ps @ x" for y
    using assms(3,4) m that by (simp add: blit_def auth_form_def)
  then show ?thesis
    using 1 2 assms by (simp add: ovpn_hmac_gen_def ovpn_hmac_pre_def Let_def)
qed

lemma pid_next_Inr:
  assumes "pids_write_next True t b ta = (Inr b', ta')" and "buf_wf b" and "s_form ta = LONG_FORM"
  obtains pid where "pids_next t ta = (Inr pid, ta')" and "buf_wf b'" and "b_kind b' = b_kind b"
    and "content b' = pid_bytes pid @ content b"
proof -
  obtain pid where p: "pids_next t ta = (Inr pid, ta')" "pid_write pid LONG_FORM True b = Inr b'"
    using assms(1,3) by (auto simp: pids_write_next_def exn_simps split: prod.splits)
  show thesis using that [OF p(1)] pid_write_prepend_Inr [OF assms(2) p(2)] by simp
qed

lemma head_tls_auth:
  assumes run: "gen_head_tls_auth opcode s = (Inr u, s')" and b: "buf_wf (c_buf s)"
    and h: "hm_ok (pc_ta_hmac_send (c_pc s))" "hm_size (pc_ta_hmac_send (c_pc s)) = pc_hmac_size (c_pc s)"
    and ps: "psid_wf (pc_psid_self (c_pc s))" and ta: "s_form (pc_ta_pid_send (c_pc s)) = LONG_FORM"
  obtains pid ta where "pids_next (pc_seconds (c_pc s)) (pc_ta_pid_send (c_pc s)) = (Inr pid, ta)"
    and "buf_wf (c_buf s')" and "b_kind (c_buf s') = b_kind (c_buf s)"
    and "content (c_buf s') = auth_form (pc_ta_hmac_send (c_pc s)) (op_byte opcode s)
      (psid_id (pc_psid_self (c_pc s))) (pid_bytes pid) (content (c_buf s))"
proof -
  let ?pc = "c_pc s"
  obtain ta b1 b2 b3 b4 d where
    1: "pids_write_next True (pc_seconds ?pc) (c_buf s) (pc_ta_pid_send ?pc) = (Inr b1, ta)"
    and 2: "buf_prepend_space (pc_hmac_size ?pc) b1 = Inr b2" and 3: "psid_prepend (pc_psid_self ?pc) b2 = Inr b3"
    and 4: "buf_push_front (op_byte opcode s) b3 = Inr b4"
    and 5: "ovpn_hmac_gen (pc_ta_hmac_send ?pc) (content b4) (1 + PSID_SIZE) (pc_hmac_size ?pc) (pid_size LONG_FORM) = Inr d"
    and 6: "mem_write (b_off b4) d b4 = Inr (c_buf s')"
    using run
    by (auto simp: gen_head_tls_auth_def bindS_returns pid_next_Inr_eq on_buf_Inr Let_def exn_simps op_byte_def)
  obtain pid where pid: "pids_next (pc_seconds ?pc) (pc_ta_pid_send ?pc) = (Inr pid, ta)" "buf_wf b1"
    "b_kind b1 = b_kind (c_buf s)" "content b1 = pid_bytes pid @ content (c_buf s)"
    using pid_next_Inr [OF 1 b ta] by blast
  obtain junk where junk: "length junk = pc_hmac_size ?pc" "content b2 = junk @ content b1" "buf_wf b2"
    "b_kind b2 = b_kind b1"
    using prepend_space_Inr [OF pid(2) 2] by blast
  have 3: "buf_wf b3" "content b3 = psid_id (pc_psid_self ?pc) @ content b2" "b_kind b3 = b_kind b2"
    using buf_prepend_Inr [OF junk(3)] 3 by (auto simp: psid_prepend_def)
  note 4 = push_front_Inr [OF 3(1) 4]
  have d: "d = auth_form (pc_ta_hmac_send ?pc) (op_byte opcode s) (psid_id (pc_psid_self ?pc)) (pid_bytes pid)
      (content (c_buf s))"
    using 5 4 3 junk pid(4) hmac_gen_form [OF h, of "psid_id (pc_psid_self ?pc)" junk "pid_bytes pid"] ps
    by (simp add: pid_size_def psid_wf_def)
  have "length d = b_size b4"
    using length_content [of b4] 4 3(2) junk(1,2) pid(4) h ps
    by (simp add: d auth_form_def hm_ok_def psid_wf_def)
  then have "content (c_buf s') = d" "buf_wf (c_buf s')" "b_kind (c_buf s') = b_kind b4"
    using mem_write_Inr [of b4 0 d "c_buf s'"] length_content [of b4] 6 4 by simp_all
  then show thesis using that pid(1,3) 4 3(3) junk(4) d by simp
qed

text \<open>Writing behind the window and extending it, as the cipher does in \<open>work\<close>.\<close>

lemma mem_write_behind:
  assumes "buf_wf b" and "mem_write (b_off b + b_size b) d b = Inr b1" and "buf_inc_size (length d) b1 = Inr b'"
  shows "buf_wf b' \<and> b_kind b' = b_kind b \<and> content b' = content b @ d"
proof -
  have b1: "b1 = b\<lparr>b_data := blit (b_data b) (b_off b + b_size b) d\<rparr>"
    and fit: "b_off b + b_size b + length d \<le> length (b_data b)"
    using assms(2) by (auto simp: mem_write_def split: if_splits)
  have b': "b' = b1\<lparr>b_size := b_size b + length d\<rparr>"
    using assms(1,3) fit by (auto simp: b1 buf_inc_size_def buf_set_size_def buf_wf_def split: if_splits)
  have "content b' = slice (b_off b) (b_size b + length d) (blit (b_data b) (b_off b + b_size b) d)"
    by (simp add: b' b1 content_def)
  also have "\<dots> = content b @ d"
    using fit unfolding slice_split by (simp add: content_def slice_blit_same slice_blit_before)
  finally show ?thesis using assms(1) fit by (simp add: b' b1 buf_wf_def)
qed

text \<open>The two sides of a cipher: what one encrypts the other decrypts.\<close>

definition crypt_pair :: "nat \<Rightarrow> crypt_ctx \<Rightarrow> crypt_ctx \<Rightarrow> bool" where
  "crypt_pair n c d \<longleftrightarrow> tc_hmac c = tc_hmac d \<and> tc_iv_len c = tc_iv_len d \<and> tc_iv_len c \<le> n
     \<and> hm_ok (tc_hmac c) \<and> hm_size (tc_hmac c) = n \<and> tc_mode c = MODE_ENCRYPT
     \<and> (\<forall>iv x. \<exists>y. tc_cipher c iv x = Some y \<and> length y = length x \<and> tc_cipher d iv y = Some x)"

lemma encrypt_work_prepared:
  assumes "frame_prepare ENCRYPT_WORK base w f = Inr (x, w')" and "ctx_ok n (f ! ENCRYPT_WORK)"
    and "buf_wf w" and "b_kind w \<noteq> Plain"
  shows "buf_wf w' \<and> b_kind w' \<noteq> Plain \<and> content w' = []"
  using assms ctx_prepare_ok [OF assms(2-4), of base]
  by (auto simp: frame_prepare_def frame_index_def ENCRYPT_WORK_def N_ALIGN_CONTEXTS_def exn_simps)

lemma head_tls_crypt:
  assumes run: "gen_head_tls_crypt opcode s = (Inr u, s')" and b: "buf_wf (c_buf s)" "content (c_buf s) \<noteq> []"
    and work: "buf_wf (kx_work (c_kx s))" "b_kind (kx_work (c_kx s)) \<noteq> Plain" "ctx_ok n (pc_frame (c_pc s) ! ENCRYPT_WORK)"
    and c: "pc_tls_crypt_send (c_pc s) = Some c" "crypt_pair (pc_hmac_size (c_pc s)) c d"
    and ps: "psid_wf (pc_psid_self (c_pc s))" and ta: "s_form (pc_ta_pid_send (c_pc s)) = LONG_FORM"
    and op: "\<not> (opcode = CONTROL_HARD_RESET_CLIENT_V3 \<and> pc_wrap_mode (c_pc s) = TLS_CRYPT_V2)"
  obtains pid ta ct where "pids_next (pc_seconds (c_pc s)) (pc_ta_pid_send (c_pc s)) = (Inr pid, ta)"
    and "buf_wf (c_buf s')" and "b_kind (c_buf s') \<noteq> Plain"
    and "content (c_buf s') = crypt_form c (op_byte opcode s) (psid_id (pc_psid_self (c_pc s))) (pid_bytes pid)
      (content (c_buf s)) ct"
    and "tc_cipher d (take (tc_iv_len d) (hm_mac (tc_hmac c) (op_byte opcode s # psid_id (pc_psid_self (c_pc s))
      @ pid_bytes pid @ content (c_buf s)))) ct = Some (content (c_buf s))"
proof -
  let ?pc = "c_pc s" and ?hs = "pc_hmac_size (c_pc s)" and ?m = "content (c_buf s)"
  let ?h = "op_byte opcode s # psid_id (pc_psid_self ?pc)"
  obtain x w0 w1 w2 w3 w4 w5 ta where
    1: "frame_prepare ENCRYPT_WORK (pc_base ?pc) (kx_work (c_kx s)) (pc_frame ?pc) = Inr (x, w0)"
    and 2: "buf_prepend_space ?hs w0 = Inr w1"
    and 3: "pids_write_next True (pc_seconds ?pc) w1 (pc_ta_pid_send ?pc) = (Inr w2, ta)"
    and 4: "psid_prepend (pc_psid_self ?pc) w2 = Inr w3" and 5: "buf_push_front (op_byte opcode s) w3 = Inr w4"
    and 6: "tls_crypt_write_hmac (s\<lparr>c_pc := ?pc\<lparr>pc_ta_pid_send := ta\<rparr>, c_kx := (c_kx s)\<lparr>kx_work := w4\<rparr>\<rparr>) w4 = Inr w5"
    and 7: "tls_crypt_finish opcode (s\<lparr>c_pc := ?pc\<lparr>pc_ta_pid_send := ta\<rparr>, c_kx := (c_kx s)\<lparr>kx_work := w5\<rparr>\<rparr>) = (Inr u, s')"
    using run
    by (auto simp: gen_head_tls_crypt_def bindS_returns pid_next_Inr_eq on_work_Inr Let_def exn_simps op_byte_def)
  note 1 = encrypt_work_prepared [OF 1 work(3,1,2)]
  obtain junk where junk: "length junk = ?hs" "content w1 = junk" "buf_wf w1" "b_kind w1 = b_kind w0"
    using prepend_space_Inr [OF conjunct1 [OF 1] 2] 1 by auto
  obtain pid where pid: "pids_next (pc_seconds ?pc) (pc_ta_pid_send ?pc) = (Inr pid, ta)" "buf_wf w2"
    "b_kind w2 = b_kind w1" "content w2 = pid_bytes pid @ junk"
    using pid_next_Inr [OF 3 junk(3) ta] junk(2) by metis
  have 4: "buf_wf w3" "content w3 = psid_id (pc_psid_self ?pc) @ content w2" "b_kind w3 = b_kind w2"
    using buf_prepend_Inr [OF pid(2)] 4 by (auto simp: psid_prepend_def)
  have c4: "content w4 = (?h @ pid_bytes pid) @ junk" and 5: "buf_wf w4" "b_kind w4 = b_kind w3"
    using push_front_Inr [OF 4(1) 5] 4(2) pid(4) by simp_all
  have lh: "length (?h @ pid_bytes pid) = hmac_offset"
    using ps by (simp add: psid_wf_def hmac_offset_def)
  have t4: "take hmac_offset (content w4) = ?h @ pid_bytes pid" "drop hmac_offset (content w4) = junk"
    unfolding c4 by (rule take_drop_length [OF lh])+
  have "b_size w4 = length (content w4)" using length_content [of w4] 5 by simp
  then have sz4: "b_size w4 = hmac_offset + ?hs" using lh junk(1) unfolding c4 by simp
  have cp: "hm_size (tc_hmac c) = ?hs" "length (hm_mac (tc_hmac c) y) = ?hs" "tc_iv_len c \<le> ?hs"
    "tc_iv_len c = tc_iv_len d" "tc_mode c = MODE_ENCRYPT" for y
    using c(2) by (auto simp: crypt_pair_def hm_ok_def)
  let ?mac = "hm_mac (tc_hmac c) (?h @ pid_bytes pid @ ?m)"
  have "mem_read (b_off w4) hmac_offset w4 = Inr (?h @ pid_bytes pid)"
    using mem_read_content [OF 5(1), of 0 hmac_offset] sz4 t4(1) by (simp add: slice_def)
  then have "mem_write (b_off w4 + hmac_offset) ?mac w4 = Inr w5"
    using 6 c(1) by (simp add: tls_crypt_write_hmac_def with_crypt_def tc_hmac_digest_def)
  note w = mem_write_Inr [OF 5(1) this]
  have "drop (hmac_offset + ?hs) (content w4) = []"
    using t4(2) junk(1) by (metis add.commute drop_drop drop_all order_refl)
  then have w5: "buf_wf w5" "b_kind w5 = b_kind w4" "content w5 = (?h @ pid_bytes pid) @ ?mac"
    "b_size w5 = hmac_offset + ?hs"
    using w cp(2) sz4 t4(1) by simp_all
  have iv: "mem_read (b_off w5 + hmac_offset) (tc_iv_len c) w5 = Inr (take (tc_iv_len c) ?mac)"
    using mem_read_content [OF w5(1), of hmac_offset "tc_iv_len c"] w5(4) cp(3) unfolding w5(3) by (simp only: slice_def take_drop_length [OF lh])
  obtain ct where ct: "tc_cipher c (take (tc_iv_len c) ?mac) ?m = Some ct" "length ct = length ?m"
    "tc_cipher d (take (tc_iv_len c) ?mac) ct = Some ?m"
    using c(2) by (auto simp: crypt_pair_def)
  have ne: "ct \<noteq> []" using ct(2) b(2) by auto
  obtain w6 where w6: "mem_write (b_off w5 + (hmac_offset + ?hs)) ct w5 = Inr w6" "buf_inc_size (length ct) w6 = Inr (c_buf s')"
    using 7 c(1) iv ct(1) ne cp(5) op
    by (auto simp: tls_crypt_finish_def tls_crypt_cipher_text_def with_crypt_def Let_def tc_encrypt_def
        tc_encrypt_decrypt_def tls_crypt_append_def bindS_returns on_work_Inr exn_simps split: if_splits)
  note r = mem_write_behind [OF w5(1) w6(1) [folded w5(4)] w6(2)]
  show thesis
    using that [OF pid(1)] r w5(2,3) 5 4(3) pid(3) junk(4) 1 ct(3) cp(4) by (simp add: crypt_form_def)
qed

lemma head_tls_plain:
  assumes "gen_head_tls_plain opcode s = (Inr u, s')" and "buf_wf (c_buf s)"
  shows "buf_wf (c_buf s') \<and> b_kind (c_buf s') = b_kind (c_buf s)
    \<and> content (c_buf s') = op_byte opcode s # psid_id (pc_psid_self (c_pc s)) @ content (c_buf s)"
proof -
  obtain b1 where b1: "psid_prepend (pc_psid_self (c_pc s)) (c_buf s) = Inr b1"
    "buf_push_front (op_byte opcode s) b1 = Inr (c_buf s')"
    using assms(1) by (auto simp: gen_head_tls_plain_def bindS_returns on_buf_Inr op_byte_def)
  have "buf_wf b1" "content b1 = psid_id (pc_psid_self (c_pc s)) @ content (c_buf s)" "b_kind b1 = b_kind (c_buf s)"
    using buf_prepend_Inr [OF assms(2)] b1(1) by (auto simp: psid_prepend_def)
  then show ?thesis using push_front_Inr [OF _ b1(2)] by simp
qed

text \<open>The part behind the head: acknowledgements, destination, message ID, message.\<close>

definition packet_body :: "u32 list \<Rightarrow> psid \<Rightarrow> u32 \<Rightarrow> u8 list \<Rightarrow> u8 list" where
  "packet_body ids dest i m =
     of_nat (length ids) # ack_bytes ids @ (if ids = [] then [] else psid_id dest) @ be32 i @ m"

lemma prepend_loop_kind: "buf_wf b \<Longrightarrow> prepend_loop n d b = Inr b' \<Longrightarrow> b_kind b' = b_kind b"
proof (induction n d b rule: prepend_loop.induct)
  case (2 n d b)
  obtain b1 where b1: "ra_prepend_id (d ! n) b = Inr b1" "prepend_loop n d b1 = Inr b'"
    using 2(3) by (auto simp: exn_simps)
  have "buf_wf b1" "b_kind b1 = b_kind b"
    using buf_prepend_Inr [OF 2(2)] b1(1) by (auto simp: ra_prepend_id_def)
  then show ?case using 2(1) [OF b1(1) _ b1(2)] by simp
qed simp

lemma ra_prepend_kind:
  assumes "buf_wf b" and "ra_prepend a b = Inr (b', a')"
  shows "b_kind b' = b_kind b"
proof -
  let ?n = "min (length (ra_data a)) (ra_max a)"
  obtain b1 where b1: "prepend_loop ?n (ra_data a) b = Inr b1" "buf_push_front (of_nat ?n) b1 = Inr b'"
    using assms(2) by (auto simp: ra_prepend_def Let_def exn_simps)
  have "buf_wf b1" using prepend_loop_Inr [OF assms(1) b1(1)] by simp
  then show ?thesis using push_front_Inr [OF _ b1(2)] prepend_loop_kind [OF assms(1) b1(1)] by simp
qed

lemma body_written:
  assumes "bindS (on_buf (\<lambda>_. ra_prepend_id i)) (\<lambda>_. prepend_dest_psid_and_acks) s = (Inr u, s')"
    and "buf_wf (c_buf s)" and "ra_max (c_acks s) \<noteq> 0"
  shows "buf_wf (c_buf s') \<and> b_kind (c_buf s') = b_kind (c_buf s) \<and> c_pc s' = c_pc s \<and> c_kx s' = c_kx s
    \<and> (ra_data (c_acks s) \<noteq> [] \<longrightarrow> psid_defined (pc_psid_peer (c_pc s)))
    \<and> content (c_buf s') = packet_body (take (ra_max (c_acks s)) (ra_data (c_acks s))) (pc_psid_peer (c_pc s)) i
        (content (c_buf s))"
proof -
  let ?ids = "ra_data (c_acks s)" and ?peer = "pc_psid_peer (c_pc s)"
  obtain b1 s2 where b1: "ra_prepend_id i (c_buf s) = Inr b1"
    and s2: "prepend_dest_psid (s\<lparr>c_buf := b1\<rparr>) = (Inr (), s2)" "prepend_acks s2 = (Inr u, s')"
    using assms(1) by (auto simp: bindS_returns on_buf_Inr prepend_dest_psid_and_acks_def)
  have c1: "buf_wf b1" "content b1 = be32 i @ content (c_buf s)" "b_kind b1 = b_kind (c_buf s)"
    using buf_prepend_Inr [OF assms(2)] b1 by (auto simp: ra_prepend_id_def)
  have c2: "buf_wf (c_buf s2) \<and> b_kind (c_buf s2) = b_kind b1 \<and> c_acks s2 = c_acks s \<and> c_pc s2 = c_pc s
      \<and> c_kx s2 = c_kx s \<and> (?ids \<noteq> [] \<longrightarrow> psid_defined ?peer)
      \<and> content (c_buf s2) = (if ?ids = [] then [] else psid_id ?peer) @ content b1"
    using s2(1) c1(1) buf_prepend_Inr [OF c1(1)]
    by (auto simp: prepend_dest_psid_def on_buf_Inr psid_prepend_def split: if_splits)
  obtain b3 a where r: "ra_prepend (c_acks s2) (c_buf s2) = Inr (b3, a)" "s' = s2\<lparr>c_buf := b3, c_acks := a\<rparr>"
    using s2(2) by (auto simp: prepend_acks_def split: sum.splits)
  have k: "b_kind b3 = b_kind (c_buf s2)"
    by (rule ra_prepend_kind [OF conjunct1 [OF c2] r(1)])
  have "take (min (length ?ids) (ra_max (c_acks s))) ?ids = take (ra_max (c_acks s)) ?ids"
    by (simp add: min_def)
  then show ?thesis
    using ra_prepend_Inr [OF conjunct1 [OF c2] r(1)] c1 c2 r(2) k assms(3)
    by (simp add: packet_body_def min_def)
qed

section \<open>What decapsulation makes of it\<close>

lemma pc_psid_match_iff:
  "psid_wf p \<Longrightarrow> psid_wf q \<Longrightarrow> psid_defined q \<Longrightarrow>
   pc_psid_match pc p q \<longleftrightarrow> psid_defined p \<and> psid_id p = psid_id q"
  by (auto simp: pc_psid_match_def psid_match_def psid_wf_def memneq_iff split: prod.splits)

text \<open>A body for this side: the destination it names, if any, is our own session.\<close>

lemma body_acks_read:
  fixes k :: "'s kst"
  assumes b: "buf_wf b" "content b = packet_body ids dest i m" and n: "length ids < 256"
    and self: "psid_wf (pc_psid_self (pc_of k))" "psid_wf dest"
    "ids \<noteq> [] \<Longrightarrow> psid_defined (pc_psid_self (pc_of k)) \<and> psid_id (pc_psid_self (pc_of k)) = psid_id dest"
  obtains b1 b2 where "acks_and_dest_psid live b k
      = (Inr (True, b1), k\<lparr>k_send := if live then fold rs_ack ids (k_send k) else k_send k\<rparr>)"
    and "ra_read_id b1 = Inr (i, b2)" and "buf_wf b2" and "content b2 = m"
proof -
  let ?rest = "(if ids = [] then [] else psid_id dest) @ be32 i @ m"
  let ?k = "k\<lparr>k_send := if live then fold rs_ack ids (k_send k) else k_send k\<rparr>"
  obtain b0 where b0: "buf_pop_front b = Inr (of_nat (length ids), b0)" "buf_wf b0" "content b0 = ack_bytes ids @ ?rest"
    using ra_pop_count [OF b(1)] b(2) unfolding packet_body_def by blast
  obtain b1 where b1: "ack_loop (length ids) live b0 (k_send k) = (Inr b1, k_send ?k)" "buf_wf b1" "content b1 = ?rest"
    using ack_loop_ok [OF b0(2,3)] by auto
  have cnt: "unat (of_nat (length ids) :: u8) = length ids" using n by (simp add: unat_of_nat)
  have pa: "process_acks live b k = (Inr (length ids, b1), ?k)"
    using b0(1) b1(1) cnt by (simp add: process_acks_def ra_ack_def Let_def)
  show thesis
  proof (cases "ids = []")
    case True
    obtain b2 where "ra_read_id b1 = Inr (i, b2)" "buf_wf b2" "content b2 = m"
      using ra_read_id_ok [OF b1(2), of i m] b1(3) True by auto
    moreover have "acks_and_dest_psid live b k = (Inr (True, b1), ?k)"
      using pa True by (simp add: acks_and_dest_psid_def)
    ultimately show thesis using that by blast
  next
    case False
    let ?q = "\<lparr>psid_defined = True, psid_id = psid_id dest\<rparr>"
    have c1: "content b1 = psid_id dest @ be32 i @ m" using b1(3) False by simp
    have "PSID_SIZE \<le> b_size b1" using length_content [OF b1(2)] c1 self(2) by (simp add: psid_wf_def)
    then obtain b3 where b3: "psid_of_buffer b1 = Inr (?q, b3)"
      using c1 self(2) b1(2) by (simp add: psid_of_buffer_def buf_read_eq psid_wf_def)
    have w3: "buf_wf b3" "content b3 = be32 i @ m"
      using psid_of_buffer_Inr [OF b1(2) b3] c1 by simp_all
    have "pc_psid_match (pc_of ?k) (pc_psid_self (pc_of ?k)) ?q"
      using self False by (subst pc_psid_match_iff) (simp_all add: psid_wf_def)
    then have "acks_and_dest_psid live b k = (Inr (True, b3), ?k)"
      using pa b3 False by (simp add: acks_and_dest_psid_def verify_dest_psid_def)
    moreover obtain b2 where "ra_read_id b3 = Inr (i, b2)" "buf_wf b2" "content b2 = m"
      using ra_read_id_ok [OF w3] by blast
    ultimately show thesis using that by blast
  qed
qed

text \<open>What the delivery of message \<open>i\<close> leaves.\<close>

definition delivered :: "u32 \<Rightarrow> u8 list \<Rightarrow> u32 list \<Rightarrow> psid \<Rightarrow> u32 \<Rightarrow> 's kst \<Rightarrow> 's kst \<Rightarrow> bool" where
  "delivered opcode m ids src i k k' \<longleftrightarrow>
     (\<exists>b. content b = m \<and> buf_wf b \<and> rr_at (k_recv k') = (rr_at (k_recv k))(unat i := Some (packet_of_buffer opcode b)))
     \<and> k_send k' = fold rs_ack ids (k_send k) \<and> ra_data (k_acks k') = ra_data (k_acks k) @ [i]
     \<and> psid_defined (pc_psid_peer (pc_of k')) \<and> psid_id (pc_psid_peer (pc_of k')) = psid_id src"

lemma rel_receive_in:
  assumes "win_wf (k_recv k)" and "in_window (k_recv k) i"
  obtains w where "rel_receive p i k = (Inr 3, push_ack i (k\<lparr>k_recv := w\<rparr>))" and "win_wf w"
    and "rr_at w = (rr_at (k_recv k))(unat i := Some p)"
proof -
  obtain w where "rr_receive (Some p) i (k_recv k) = Inr (3, w)" "win_wf w"
    "rr_at w = (rr_at (k_recv k))(unat i := Some p)"
    using rr_receive_in [OF assms] by blast
  then show thesis using that by (simp add: rel_receive_def push_ack_def ACK_TO_SENDER_def)
qed

lemma ta_test_add_ok:
  assumes "pidr_test_add pid t md (pc_ta_pid_recv (pc_of k)) = Inr (ok, err, ta)"
  obtains k' where "ta_test_add pid t md k = (Inr ok, k')" and "k_recv k' = k_recv k" and "k_send k' = k_send k"
    and "k_acks k' = k_acks k" and "pc_psid_peer (pc_of k') = pc_psid_peer (pc_of k)"
    and "pc_psid_self (pc_of k') = pc_psid_self (pc_of k)" and "r_initialized (pc_ta_pid_recv (pc_of k')) = r_initialized (pc_ta_pid_recv (pc_of k))"
proof -
  let ?k = "on_pc (\<lambda>pc. (case err of None \<Rightarrow> id | Some e \<Rightarrow> pc_error (Inr e)) (pc\<lparr>pc_ta_pid_recv := ta\<rparr>)) k"
  have "ta_test_add pid t md k = (Inr ok, ?k)" using assms by (simp add: ta_test_add_def)
  then show thesis
    using that pidr_keeps_initialized [OF assms] by (cases err) (simp_all add: pc_error_def)
qed

lemma src_verified:
  assumes "psid_wf src" and "psid_defined src"
    and "psid_defined (pc_psid_peer (pc_of k)) \<Longrightarrow> psid_wf (pc_psid_peer (pc_of k)) \<and> psid_id (pc_psid_peer (pc_of k)) = psid_id src"
  obtains k' where "verify_src_psid src k = (Inr True, k')" and "k_recv k' = k_recv k" and "k_send k' = k_send k"
    and "k_acks k' = k_acks k" and "pc_psid_self (pc_of k') = pc_psid_self (pc_of k)"
    and "pc_ta_pid_recv (pc_of k') = pc_ta_pid_recv (pc_of k)" and "pc_seconds (pc_of k') = pc_seconds (pc_of k)"
    and "psid_defined (pc_psid_peer (pc_of k'))" and "psid_id (pc_psid_peer (pc_of k')) = psid_id src"
proof (cases "psid_defined (pc_psid_peer (pc_of k))")
  case True
  have "verify_src_psid src k = (Inr True, k)"
    using True assms by (simp add: verify_src_psid_def pc_psid_match_iff)
  then show thesis by (rule that) (use True assms(3) in simp_all)
next
  case False
  have "verify_src_psid src k = (Inr True, on_pc (\<lambda>pc. pc\<lparr>pc_psid_peer := src\<rparr>) k)"
    using False by (simp add: verify_src_psid_def)
  then show thesis by (rule that) (use assms(2) in \<open>simp_all add: pc_seconds_def\<close>)
qed

text \<open>The checks of the session IDs a packet from \<open>src\<close> to \<open>dest\<close> has to pass.\<close>

definition for_us :: "psid \<Rightarrow> psid \<Rightarrow> u32 list \<Rightarrow> proto \<Rightarrow> bool" where
  "for_us src dest ids pc \<longleftrightarrow> psid_wf src \<and> psid_wf dest \<and> psid_wf (pc_psid_self pc) \<and> length ids < 256
     \<and> (psid_defined (pc_psid_peer pc) \<longrightarrow> psid_wf (pc_psid_peer pc) \<and> psid_id (pc_psid_peer pc) = psid_id src)
     \<and> (ids \<noteq> [] \<longrightarrow> psid_defined (pc_psid_self pc) \<and> psid_id (pc_psid_self pc) = psid_id dest)"

lemma post_process_delivers:
  fixes k :: "'s kst"
  assumes inv: "kc_inv k" and b: "buf_wf b" "content b = packet_body ids dest i m" and op: "opcode \<noteq> ACK_V1"
    and us: "for_us src dest ids (pc_of k)" and src: "psid_defined src'" "psid_id src' = psid_id src"
    and win: "in_window (k_recv k) i"
    and pid: "pidr_test_add pid (pc_seconds (pc_of k)) False (pc_ta_pid_recv (pc_of k)) = Inr (True, err, ta)"
  shows "\<exists>k'. decapsulate_post_process opcode b src' pid k = (Inr True, k') \<and> delivered opcode m ids src i k k'"
proof -
  let ?k = "update_last_received k"
  have k0: "k_recv ?k = k_recv k" "k_send ?k = k_send k" "k_acks ?k = k_acks k"
    "pc_psid_self (pc_of ?k) = pc_psid_self (pc_of k)" "pc_psid_peer (pc_of ?k) = pc_psid_peer (pc_of k)"
    "pc_ta_pid_recv (pc_of ?k) = pc_ta_pid_recv (pc_of k)" "pc_seconds (pc_of ?k) = pc_seconds (pc_of k)"
    by (simp_all add: update_last_received_def pc_seconds_def)
  have us': "psid_wf src" "psid_wf dest" "psid_wf (pc_psid_self (pc_of k))" "length ids < 256"
    "psid_defined (pc_psid_peer (pc_of ?k)) \<Longrightarrow> psid_wf (pc_psid_peer (pc_of ?k)) \<and> psid_id (pc_psid_peer (pc_of ?k)) = psid_id src'"
    "ids \<noteq> [] \<Longrightarrow> psid_defined (pc_psid_self (pc_of k)) \<and> psid_id (pc_psid_self (pc_of k)) = psid_id dest"
    "psid_wf src'"
    using us src k0 by (auto simp: for_us_def psid_wf_def)
  obtain k1 where k1: "verify_src_psid src' ?k = (Inr True, k1)" "k_recv k1 = k_recv ?k" "k_send k1 = k_send ?k"
    "k_acks k1 = k_acks ?k" "pc_psid_self (pc_of k1) = pc_psid_self (pc_of ?k)"
    "pc_ta_pid_recv (pc_of k1) = pc_ta_pid_recv (pc_of ?k)" "pc_seconds (pc_of k1) = pc_seconds (pc_of ?k)"
    "psid_defined (pc_psid_peer (pc_of k1))" "psid_id (pc_psid_peer (pc_of k1)) = psid_id src'"
    by (rule src_verified [OF us'(7) src(1) us'(5)]) blast+
  let ?t = "pc_seconds (pc_of k1)"
  have "pidr_test_add pid ?t False (pc_ta_pid_recv (pc_of k1)) = Inr (True, err, ta)" using pid k0 k1 by simp
  then obtain k2 where k2: "ta_test_add pid ?t False k1 = (Inr True, k2)" "k_recv k2 = k_recv k1"
    "k_send k2 = k_send k1" "k_acks k2 = k_acks k1" "pc_psid_peer (pc_of k2) = pc_psid_peer (pc_of k1)"
    "pc_psid_self (pc_of k2) = pc_psid_self (pc_of k1)"
    "r_initialized (pc_ta_pid_recv (pc_of k2)) = r_initialized (pc_ta_pid_recv (pc_of k1))"
    by (rule ta_test_add_ok)
  let ?k3 = "k2\<lparr>k_send := fold rs_ack ids (k_send k2)\<rparr>"
  have self2: "psid_wf (pc_psid_self (pc_of k2))"
    "ids \<noteq> [] \<Longrightarrow> psid_defined (pc_psid_self (pc_of k2)) \<and> psid_id (pc_psid_self (pc_of k2)) = psid_id dest"
    using us'(3,6) k0 k1 k2 by simp_all
  obtain b1 b2 where k3: "acks_and_dest_psid True b k2 = (Inr (True, b1), ?k3)" "ra_read_id b1 = Inr (i, b2)"
    and b2: "buf_wf b2" "content b2 = m"
    using body_acks_read [OF b us'(4) self2(1) us'(2) self2(2), where live = True] by auto
  have "win_wf (k_recv ?k3)" "in_window (k_recv ?k3) i"
    using inv win k0 k1 k2 by (simp_all add: kc_inv_def)
  then obtain w where w: "rel_receive (packet_of_buffer opcode b2) i ?k3 = (Inr 3, push_ack i (?k3\<lparr>k_recv := w\<rparr>))"
    "rr_at w = (rr_at (k_recv ?k3))(unat i := Some (packet_of_buffer opcode b2))"
    by (rule rel_receive_in)
  let ?k4 = "push_ack i (?k3\<lparr>k_recv := w\<rparr>)"
  have "r_initialized (pc_ta_pid_recv (pc_of ?k4))"
    using inv k0 k1 k2 by (simp add: kc_inv_def push_ack_def)
  then obtain ok e' ta' where "pidr_test_add pid ?t True (pc_ta_pid_recv (pc_of ?k4)) = Inr (ok, e', ta')"
    by (rule pidr_test_add_returns)
  then obtain k5 where k5: "ta_test_add pid ?t True ?k4 = (Inr ok, k5)" "k_recv k5 = k_recv ?k4"
    "k_send k5 = k_send ?k4" "k_acks k5 = k_acks ?k4" "pc_psid_peer (pc_of k5) = pc_psid_peer (pc_of ?k4)"
    by (rule ta_test_add_ok)
  have "decapsulate_post_process opcode b src' pid k = (Inr True, k5)"
    using k1(1) k2(1) k3 w(1) k5(1) op
    by (simp add: decapsulate_post_process_def Let_def bindS_def post_process_control_def IN_WINDOW_def)
  moreover have "delivered opcode m ids src i k k5"
    using k0 k1 k2 k5 w(2) b2 src(2) by (auto simp: delivered_def push_ack_def ra_push_back_def)
  ultimately show ?thesis by blast
qed

lemma plain_delivers:
  fixes k :: "'s kst"
  assumes inv: "kc_inv k" and b: "buf_wf b" "content b = op # psid_id src @ packet_body ids dest i m"
    and op: "opcode \<noteq> ACK_V1" and us: "for_us src dest ids (pc_of k)" and win: "in_window (k_recv k) i"
  shows "\<exists>k'. decapsulate_tls_plain opcode b k = (Inr True, k') \<and> delivered opcode m ids src i k k'"
proof -
  let ?k = "update_last_received k" and ?q = "\<lparr>psid_defined = True, psid_id = psid_id src\<rparr>"
  have k0: "k_recv ?k = k_recv k" "k_send ?k = k_send k" "k_acks ?k = k_acks k"
    "pc_psid_self (pc_of ?k) = pc_psid_self (pc_of k)" "pc_psid_peer (pc_of ?k) = pc_psid_peer (pc_of k)"
    by (simp_all add: update_last_received_def)
  have us': "psid_wf src" "psid_wf dest" "psid_wf (pc_psid_self (pc_of k))" "length ids < 256" "psid_wf ?q" "psid_defined ?q"
    "psid_defined (pc_psid_peer (pc_of ?k)) \<Longrightarrow> psid_wf (pc_psid_peer (pc_of ?k)) \<and> psid_id (pc_psid_peer (pc_of ?k)) = psid_id ?q"
    "ids \<noteq> [] \<Longrightarrow> psid_defined (pc_psid_self (pc_of k)) \<and> psid_id (pc_psid_self (pc_of k)) = psid_id dest"
    using us k0 by (auto simp: for_us_def psid_wf_def)
  obtain b1 where b1: "buf_advance 1 b = Inr b1" "buf_wf b1" "content b1 = psid_id src @ packet_body ids dest i m"
  proof -
    have "1 \<le> b_size b" using length_content [OF b(1)] b(2) by simp
    then obtain b1 where "buf_advance 1 b = Inr b1" by (simp add: buf_advance_def)
    then show thesis using that advance_Inr [OF b(1)] b(2) by simp
  qed
  have "PSID_SIZE \<le> b_size b1" using length_content [OF b1(2)] b1(3) us'(1) by (simp add: psid_wf_def)
  then obtain b2 where b2: "psid_of_buffer b1 = Inr (?q, b2)"
    using b1(3) us'(1) b1(2) by (simp add: psid_of_buffer_def buf_read_eq psid_wf_def)
  have w2: "buf_wf b2" "content b2 = packet_body ids dest i m"
    using psid_of_buffer_Inr [OF b1(2) b2] b1(3) by simp_all
  obtain k1 where k1: "verify_src_psid ?q ?k = (Inr True, k1)" "k_recv k1 = k_recv ?k" "k_send k1 = k_send ?k"
    "k_acks k1 = k_acks ?k" "pc_psid_self (pc_of k1) = pc_psid_self (pc_of ?k)"
    "psid_defined (pc_psid_peer (pc_of k1))" "psid_id (pc_psid_peer (pc_of k1)) = psid_id ?q"
    by (rule src_verified [OF us'(5-7)]) blast+
  let ?k2 = "k1\<lparr>k_send := fold rs_ack ids (k_send k1)\<rparr>"
  have self2: "psid_wf (pc_psid_self (pc_of k1))"
    "ids \<noteq> [] \<Longrightarrow> psid_defined (pc_psid_self (pc_of k1)) \<and> psid_id (pc_psid_self (pc_of k1)) = psid_id dest"
    using us'(3,8) k0 k1 by simp_all
  obtain b3 b4 where k2: "acks_and_dest_psid True b2 k1 = (Inr (True, b3), ?k2)" "ra_read_id b3 = Inr (i, b4)"
    and b4: "buf_wf b4" "content b4 = m"
    using body_acks_read [OF w2 us'(4) self2(1) us'(2) self2(2), where live = True] by auto
  have "win_wf (k_recv ?k2)" "in_window (k_recv ?k2) i" using inv win k0 k1 by (simp_all add: kc_inv_def)
  then obtain w where w: "rel_receive (packet_of_buffer opcode b4) i ?k2 = (Inr 3, push_ack i (?k2\<lparr>k_recv := w\<rparr>))"
    "rr_at w = (rr_at (k_recv ?k2))(unat i := Some (packet_of_buffer opcode b4))"
    by (rule rel_receive_in)
  let ?k3 = "push_ack i (?k2\<lparr>k_recv := w\<rparr>)"
  have "decapsulate_tls_plain opcode b k = (Inr True, ?k3)"
    using b1(1) b2 k1(1) k2 w(1) op by (simp add: decapsulate_tls_plain_def bindS_def IN_WINDOW_def)
  moreover have "delivered opcode m ids src i k ?k3"
    using k0 k1 w(2) b4 by (auto simp: delivered_def push_ack_def ra_push_back_def)
  ultimately show ?thesis by blast
qed

lemma auth_form_parts:
  assumes "hm_ok h" and "hm_size h = n" and "length ps = PSID_SIZE" and "length pid = 8"
    and d: "d = auth_form h op ps pid body"
  shows "17 + n \<le> length d" and "slice 1 8 d = ps" and "slice (9 + n) 8 d = pid" and "drop (17 + n) d = body"
    and "slice 9 n d = hm_mac h (pid @ take 9 d @ body)"
proof -
  let ?t = "hm_mac h (pid @ op # ps @ body)"
  have l: "length ?t = n" "length (op # ps) = 9" "length ((op # ps) @ ?t) = 9 + n" "length ((op # ps) @ ?t @ pid) = 17 + n"
    using assms(1-4) by (simp_all add: hm_ok_def PSID_SIZE_def)
  have d1: "d = (op # ps) @ ?t @ pid @ body" "d = ((op # ps) @ ?t) @ pid @ body" "d = ((op # ps) @ ?t @ pid) @ body"
    using d by (simp_all add: auth_form_def)
  show "17 + n \<le> length d" using l(4) unfolding d1(3) by simp
  show "drop (17 + n) d = body" unfolding d1(3) by (rule take_drop_length(2) [OF l(4)])
  show "slice (9 + n) 8 d = pid" unfolding d1(2) slice_def take_drop_length(2) [OF l(3)] using assms(4) by simp
  have "slice 9 n d = ?t" unfolding d1(1) slice_def take_drop_length(2) [OF l(2)] using l(1) by simp
  moreover have "take 9 d = op # ps" unfolding d1(1) by (rule take_drop_length(1) [OF l(2)])
  ultimately show "slice 9 n d = hm_mac h (pid @ take 9 d @ body)" by simp
  show "slice 1 8 d = ps" unfolding d1(1) using assms(3) by (simp add: slice_def PSID_SIZE_def)
qed

lemma auth_delivers:
  fixes k :: "'s kst"
  assumes inv: "kc_inv k" and b: "buf_wf b"
    "content b = auth_form (pc_ta_hmac_recv (pc_of k)) op (psid_id src) (pid_bytes pid) (packet_body ids dest i m)"
    and h: "hm_ok (pc_ta_hmac_recv (pc_of k))" "hm_size (pc_ta_hmac_recv (pc_of k)) = pc_hmac_size (pc_of k)"
    and op: "opcode \<noteq> ACK_V1" and us: "for_us src dest ids (pc_of k)" and win: "in_window (k_recv k) i"
    and t: "0 \<le> p_time pid" "p_time pid < 2 ^ 32"
    and pid: "pidr_test_add pid (pc_seconds (pc_of k)) False (pc_ta_pid_recv (pc_of k)) = Inr (True, err, ta)"
  shows "\<exists>k'. decapsulate_tls_auth opcode b k = (Inr True, k') \<and> delivered opcode m ids src i k k'"
proof -
  let ?h = "pc_ta_hmac_recv (pc_of k)" and ?n = "pc_hmac_size (pc_of k)"
  have "length (psid_id src) = PSID_SIZE" using us by (simp add: for_us_def psid_wf_def)
  note parts = auth_form_parts [OF h this length_pid_bytes b(2)]
  show ?thesis
  proof (rule decapsulate_tls_auth_cases [OF b(1) inv, of opcode])
    assume "b_size b < 17 + ?n"
    then show ?thesis using parts(1) b(1) by simp
  next
    assume bad: "\<not> ovpn_hmac_cmp (pc_mem (pc_of k)) ?h (content b) 9 ?n 8"
    have e: "9 + ?n + 8 = 17 + ?n" by simp
    show ?thesis using bad parts h(2) unfolding ovpn_hmac_cmp_iff [OF h(1)] e by simp
  next
    fix src' b'
    assume "decapsulate_tls_auth opcode b k
        = decapsulate_post_process opcode b' src' (pid_of_bytes (slice (9 + ?n) 8 (content b))) k"
      and "psid_defined src'" "psid_id src' = slice 1 8 (content b)" "buf_wf b'" "content b' = drop (17 + ?n) (content b)"
    then show ?thesis
      using post_process_delivers [OF inv _ _ op us _ _ win pid] parts pid_of_bytes_bytes [OF t] by simp
  qed
qed

lemma crypt_form_parts:
  assumes "hm_ok (tc_hmac c)" and "hm_size (tc_hmac c) = n" and "length ps = PSID_SIZE" and "length pid = 8"
    and d: "d = crypt_form c op ps pid m ct"
  shows "17 + n \<le> length d" and "slice 1 8 d = ps" and "slice 9 8 d = pid" and "drop (17 + n) d = ct"
    and "slice 0 17 d = op # ps @ pid" and "slice 17 n d = hm_mac (tc_hmac c) (op # ps @ pid @ m)"
proof -
  let ?t = "hm_mac (tc_hmac c) (op # ps @ pid @ m)"
  have l: "length ?t = n" "length (op # ps) = 9" "length ((op # ps) @ pid) = 17" "length (((op # ps) @ pid) @ ?t) = 17 + n"
    using assms(1-4) by (simp_all add: hm_ok_def PSID_SIZE_def)
  have d1: "d = (op # ps) @ pid @ ?t @ ct" "d = ((op # ps) @ pid) @ ?t @ ct" "d = (((op # ps) @ pid) @ ?t) @ ct"
    using d by (simp_all add: crypt_form_def)
  show "17 + n \<le> length d" using l(4) unfolding d1(3) by simp
  show "drop (17 + n) d = ct" unfolding d1(3) by (rule take_drop_length(2) [OF l(4)])
  show "slice 9 8 d = pid" unfolding d1(1) slice_def take_drop_length(2) [OF l(2)] using assms(4) by simp
  show "slice 17 n d = ?t" unfolding d1(2) slice_def take_drop_length(2) [OF l(3)] using l(1) by simp
  show "slice 0 17 d = op # ps @ pid"
    unfolding d1(2) slice_def drop_0 take_drop_length(1) [OF l(3)] by simp
  show "slice 1 8 d = ps" unfolding d1(1) using assms(3) by (simp add: slice_def PSID_SIZE_def)
qed

lemma crypt_delivers:
  fixes k :: "'s kst"
  assumes inv: "kc_inv k" "crypt_ok (pc_of k)" and b: "buf_wf b" "b_kind b \<noteq> Plain"
    "b_size b \<le> f_payload (pc_frame (pc_of k) ! DECRYPT_WORK)"
    "content b = crypt_form c op (psid_id src) (pid_bytes pid) (packet_body ids dest i m) ct"
    and c: "pc_tls_crypt_recv (pc_of k) = Some d" "crypt_pair (pc_hmac_size (pc_of k)) c d"
    and ct: "tc_cipher d (take (tc_iv_len d) (hm_mac (tc_hmac c) (op # psid_id src @ pid_bytes pid
      @ packet_body ids dest i m))) ct = Some (packet_body ids dest i m)"
    and op: "opcode \<noteq> ACK_V1" and us: "for_us src dest ids (pc_of k)" and win: "in_window (k_recv k) i"
    and t: "0 \<le> p_time pid" "p_time pid < 2 ^ 32"
    and pid: "pidr_test_add pid (pc_seconds (pc_of k)) False (pc_ta_pid_recv (pc_of k)) = Inr (True, err, ta)"
  shows "\<exists>k'. decapsulate_tls_crypt opcode b k = (Inr True, k') \<and> delivered opcode m ids src i k k'"
proof -
  let ?n = "pc_hmac_size (pc_of k)" and ?d = "content b" and ?body = "packet_body ids dest i m"
  have cp: "tc_hmac d = tc_hmac c" "hm_ok (tc_hmac c)" "hm_size (tc_hmac c) = ?n" "tc_iv_len d \<le> ?n"
    using c(2) by (auto simp: crypt_pair_def)
  have "length (psid_id src) = PSID_SIZE" using us by (simp add: for_us_def psid_wf_def)
  note parts = crypt_form_parts [OF cp(2,3) this length_pid_bytes b(4)]
  have off: "hmac_offset = 17" by (simp add: hmac_offset_def PSID_SIZE_def)
  have iv: "slice 17 (tc_iv_len d) ?d = take (tc_iv_len d) (hm_mac (tc_hmac c) (op # psid_id src @ pid_bytes pid @ ?body))"
    using slice_take_prefix [OF cp(4), of 17 ?d] parts(6) by simp
  have opens: "crypt_opens (pc_of k) ?d m' \<longleftrightarrow> m' = ?body" for m'
  proof -
    have "\<not> memneq ar (pa, slice 17 ?n ?d) (pb, hm_mac (tc_hmac c) (op # psid_id src @ pid_bytes pid @ ?body)) ?n" for ar pa pb
      using parts(6) cp(2,3) by (subst memneq_iff) (simp_all add: hm_ok_def)
    then have "tc_hmac_cmp (pc_mem (pc_of k)) d (slice 0 17 ?d) (slice 17 ?n ?d) ?body"
      using parts(5) cp(1,3) by (simp add: tc_hmac_cmp_def tc_hmac_digest_def split: prod.splits)
    moreover have "tc_encrypt_decrypt d (slice 17 (tc_iv_len d) ?d) (drop (17 + ?n) ?d) = ?body"
      using ct by (simp add: tc_encrypt_decrypt_def iv parts(4))
    moreover have "?body \<noteq> []" by (simp add: packet_body_def)
    ultimately show ?thesis using parts(1) c(1) by (auto simp: crypt_opens_def off)
  qed
  show ?thesis
  proof (rule decapsulate_tls_crypt_cases [OF b(1,2) inv b(3), of opcode])
    assume "b_size b < 17 + ?n"
    then show ?thesis using parts(1) b(1) by simp
  next
    assume "\<nexists>m. crypt_opens (pc_of k) ?d m"
    then show ?thesis using opens by blast
  next
    fix src' b' w
    assume run: "decapsulate_tls_crypt opcode b k
        = decapsulate_post_process opcode w src' (pid_of_bytes (slice 9 8 ?d)) (set_work b' k)"
      and w: "crypt_opens (pc_of k) ?d (content w)" "buf_wf w" "buf_wf b'" "b_kind b' \<noteq> Plain"
      "psid_defined src'" "psid_id src' = slice 1 8 ?d"
    have "content w = ?body" using w(1) opens by simp
    then obtain k' where "decapsulate_post_process opcode w src' pid (set_work b' k) = (Inr True, k')"
      "delivered opcode m ids src i (set_work b' k) k'"
      using post_process_delivers [OF kc_inv_work [OF inv(1) w(3,4)] w(2) _ op _ w(5), of ids dest i m src pid err ta]
        us win pid w(6) parts(2) by auto
    then show ?thesis
      using run parts(3) pid_of_bytes_bytes [OF t] by (simp add: delivered_def)
  qed
qed

section \<open>Properties\<close>

text \<open>Two ends with the same mode and matching keys.\<close>

definition channel_pair :: "user \<Rightarrow> proto \<Rightarrow> bool" where
  "channel_pair u pc \<longleftrightarrow> pc_wrap_mode (u_pc u) = pc_wrap_mode pc \<and> pc_hmac_size (u_pc u) = pc_hmac_size pc
     \<and> psid_wf (pc_psid_self (u_pc u)) \<and> s_form (pc_ta_pid_send (u_pc u)) = LONG_FORM
     \<and> buf_wf (kx_work (u_kx u)) \<and> b_kind (kx_work (u_kx u)) \<noteq> Plain
     \<and> (case pc_wrap_mode pc of
          TLS_PLAIN \<Rightarrow> True
        | TLS_AUTH \<Rightarrow> pc_ta_hmac_send (u_pc u) = pc_ta_hmac_recv pc \<and> hm_ok (pc_ta_hmac_recv pc)
            \<and> hm_size (pc_ta_hmac_recv pc) = pc_hmac_size pc
        | _ \<Rightarrow> \<exists>c d n. pc_tls_crypt_send (u_pc u) = Some c \<and> pc_tls_crypt_recv pc = Some d
            \<and> crypt_pair (pc_hmac_size pc) c d \<and> ctx_ok n (pc_frame (u_pc u) ! ENCRYPT_WORK))"

text \<open>The packet ID the sender will give is one the receiver's replay check accepts.\<close>

definition next_pid_accepted :: "proto \<Rightarrow> proto \<Rightarrow> bool" where
  "next_pid_accepted from to \<longleftrightarrow>
     (\<forall>pid ta. pids_next (pc_seconds from) (pc_ta_pid_send from) = (Inr pid, ta) \<longrightarrow>
        0 \<le> p_time pid \<and> p_time pid < 2 ^ 32
        \<and> (\<exists>err ta'. pidr_test_add pid (pc_seconds to) False (pc_ta_pid_recv to) = Inr (True, err, ta')))"

text \<open>
  C35. Round trip: a message with ID \<open>i\<close> that \<open>encapsulate\<close> wraps, in any mode, is what \<open>decapsulate\<close>
  of the other end hands to its reliability layer: the same bytes under the same ID, the
  acknowledgements applied in order to its sender, the message put down for acknowledgement, the
  sender's session ID learned or confirmed.  It needs matching keys, session IDs that name the two
  ends, a message in the window and a packet ID the replay check lets through.
\<close>

theorem control_packet_roundtrip:
  fixes k :: "'s kst"
  assumes "kc_inv k" and "channel_pair u (pc_of k)" and "ra_max a \<noteq> 0"
    and "pk_buf p = Some b" and "buf_wf b" and "b_kind b \<noteq> Plain" and "pk_opcode p \<noteq> ACK_V1"
    and "cc_encapsulate i p (a, u) = (Inr (), p', a', u')" and "packet_fits p' (the (pk_buf p')) k"
    and "for_us (pc_psid_self (u_pc u)) (pc_psid_peer (u_pc u)) (take (ra_max a) (ra_data a)) (pc_of k)"
    and "in_window (k_recv k) i"
    and "pc_wrap_mode (pc_of k) \<noteq> TLS_PLAIN \<Longrightarrow> next_pid_accepted (u_pc u) (pc_of k)"
  shows "\<exists>k'. cc_decapsulate p' k = (Inr True, k')
    \<and> delivered (pk_opcode p) (content b) (take (ra_max a) (ra_data a)) (pc_psid_self (u_pc u)) i k k'"
proof -
  let ?ids = "take (ra_max a) (ra_data a)" and ?src = "pc_psid_self (u_pc u)" and ?dest = "pc_psid_peer (u_pc u)"
  let ?body = "packet_body ?ids ?dest i (content b)" and ?op = "pk_opcode p"
  let ?s = "\<lparr>c_buf = b, c_acks = a, c_pc = u_pc u, c_kx = u_kx u\<rparr>"
  obtain s1 s2 where 1: "bindS (on_buf (\<lambda>_. ra_prepend_id i)) (\<lambda>_. prepend_dest_psid_and_acks) ?s = (Inr (), s1)"
    and 2: "gen_head ?op s1 = (Inr (), s2)" and p': "p' = p\<lparr>pk_buf := Some (c_buf s2)\<rparr>"
    using assms(4,8)
    by (auto simp: cc_encapsulate_def on_packet_def cc_encapsulate_buf_def bindS_returns split: prod.splits)
  have s1: "buf_wf (c_buf s1)" "b_kind (c_buf s1) \<noteq> Plain" "c_pc s1 = u_pc u" "c_kx s1 = u_kx u" "content (c_buf s1) = ?body"
    using body_written [OF 1] assms(3,5,6) by simp_all
  have ne: "content (c_buf s1) \<noteq> []" by (simp add: s1(5) packet_body_def)
  have pair: "pc_wrap_mode (u_pc u) = pc_wrap_mode (pc_of k)" "pc_hmac_size (u_pc u) = pc_hmac_size (pc_of k)"
    "psid_wf ?src" "s_form (pc_ta_pid_send (u_pc u)) = LONG_FORM" "buf_wf (kx_work (u_kx u))" "b_kind (kx_work (u_kx u)) \<noteq> Plain"
    using assms(2) by (simp_all add: channel_pair_def)
  have fits: "pk_buf p' = Some (c_buf s2)" "buf_wf (c_buf s2)" "b_kind (c_buf s2) \<noteq> Plain" "pk_opcode p' = ?op"
    using assms(9) p' by (simp_all add: packet_fits_def)
  have fin: ?thesis if "decapsulate_dispatch p' (c_buf s2) k = (Inr True, k')"
      "delivered ?op (content b) ?ids ?src i k k'" for k'
    using that fits(1) by (auto simp: cc_decapsulate_def)
  have crypt: ?thesis
    if mode: "pc_wrap_mode (pc_of k) \<in> {TLS_CRYPT, TLS_CRYPT_V2}"
      and send: "gen_head_tls_crypt ?op s1 = (Inr (), s2)"
      and recv: "decapsulate_dispatch p' (c_buf s2) k = decapsulate_tls_crypt ?op (c_buf s2) k"
  proof -
    obtain c d n where c: "pc_tls_crypt_send (c_pc s1) = Some c" "pc_tls_crypt_recv (pc_of k) = Some d"
      "crypt_pair (pc_hmac_size (pc_of k)) c d" "ctx_ok n (pc_frame (c_pc s1) ! ENCRYPT_WORK)"
      using assms(2) mode s1(3) by (auto simp: channel_pair_def)
    have nv3: "\<not> (?op = CONTROL_HARD_RESET_CLIENT_V3 \<and> pc_wrap_mode (c_pc s1) = TLS_CRYPT_V2)"
      using assms(9) fits(4) pair(1) s1(3) by (auto simp: packet_fits_def)
    have c': "crypt_pair (pc_hmac_size (c_pc s1)) c d" using c(3) pair(2) s1(3) by simp
    obtain pid ta ct where pid: "pids_next (pc_seconds (u_pc u)) (pc_ta_pid_send (u_pc u)) = (Inr pid, ta)"
      and form: "content (c_buf s2) = crypt_form c (op_byte ?op s1) (psid_id ?src) (pid_bytes pid) ?body ct"
      and ct: "tc_cipher d (take (tc_iv_len d) (hm_mac (tc_hmac c) (op_byte ?op s1 # psid_id ?src
        @ pid_bytes pid @ ?body))) ct = Some ?body"
      using head_tls_crypt [OF send s1(1) ne _ _ c(4) c(1) c' _ _ nv3] pair(3-6) s1(3,4,5) by metis
    obtain err ta' where t: "0 \<le> p_time pid" "p_time pid < 2 ^ 32"
      "pidr_test_add pid (pc_seconds (pc_of k)) False (pc_ta_pid_recv (pc_of k)) = Inr (True, err, ta')"
      using assms(12) mode pid by (auto simp: next_pid_accepted_def)
    have ok: "crypt_ok (pc_of k)" "b_size (c_buf s2) \<le> f_payload (pc_frame (pc_of k) ! DECRYPT_WORK)"
      using assms(1,9) mode fits(1) by (auto simp: kc_inv_def packet_fits_def)
    show ?thesis
      using crypt_delivers [OF assms(1) ok(1) fits(2,3) ok(2) form c(2,3) ct assms(7,10,11) t] fin recv by metis
  qed
  show ?thesis
  proof (cases "pc_wrap_mode (pc_of k)")
    case TLS_PLAIN
    then have "content (c_buf s2) = op_byte ?op s1 # psid_id ?src @ ?body"
      using head_tls_plain [OF _ s1(1), of ?op "()" s2] 2 pair(1) s1(3,5) by (simp add: gen_head_def)
    from plain_delivers [OF assms(1) fits(2) this assms(7,10,11)] TLS_PLAIN show ?thesis
      using fin fits(4) by (auto simp: decapsulate_dispatch_def)
  next
    case TLS_AUTH
    then have h: "pc_ta_hmac_send (u_pc u) = pc_ta_hmac_recv (pc_of k)" "hm_ok (pc_ta_hmac_recv (pc_of k))"
      "hm_size (pc_ta_hmac_recv (pc_of k)) = pc_hmac_size (pc_of k)"
      using assms(2) by (simp_all add: channel_pair_def)
    have send: "gen_head_tls_auth ?op s1 = (Inr (), s2)" using 2 TLS_AUTH pair(1) s1(3) by (simp add: gen_head_def)
    obtain pid ta where pid: "pids_next (pc_seconds (u_pc u)) (pc_ta_pid_send (u_pc u)) = (Inr pid, ta)"
      and form: "content (c_buf s2) = auth_form (pc_ta_hmac_recv (pc_of k)) (op_byte ?op s1) (psid_id ?src) (pid_bytes pid) ?body"
      using head_tls_auth [OF send s1(1)] h pair s1(3,5) by metis
    obtain err ta' where t: "0 \<le> p_time pid" "p_time pid < 2 ^ 32"
      "pidr_test_add pid (pc_seconds (pc_of k)) False (pc_ta_pid_recv (pc_of k)) = Inr (True, err, ta')"
      using assms(12) TLS_AUTH pid by (auto simp: next_pid_accepted_def)
    from auth_delivers [OF assms(1) fits(2) form h(2,3) assms(7,10,11) t] TLS_AUTH show ?thesis
      using fin fits(4) by (auto simp: decapsulate_dispatch_def)
  next
    case TLS_CRYPT
    then show ?thesis
      using crypt 2 pair(1) s1(3) fits(4) by (simp add: gen_head_def decapsulate_dispatch_def)
  next
    case TLS_CRYPT_V2
    moreover have "?op \<noteq> CONTROL_HARD_RESET_CLIENT_V3"
      using TLS_CRYPT_V2 assms(9) fits(4) by (simp add: packet_fits_def)
    ultimately show ?thesis
      using crypt 2 pair(1) s1(3) fits(4) by (simp add: gen_head_def decapsulate_dispatch_def)
  qed
qed

definition demo_message :: packet where
  "demo_message = packet_of_buffer CONTROL_V1
     \<lparr>b_data = replicate 40 7, b_off = 38, b_size = 2, b_cap = 40, b_kind = Allocated 0\<rparr>"

definition demo_user :: user where
  "demo_user = \<lparr>u_pc = demo_proto TLS_AUTH, u_kx = demo_kx\<rparr>"

lemma demo_fields:
  "pc_seconds (demo_proto m) = 0" "pc_hmac_size (demo_proto m) = 1" "pc_psid_self (demo_proto m) = demo_psid"
  "pc_psid_peer (demo_proto m) = demo_psid" "pc_ta_hmac_send (demo_proto m) = demo_hmac"
  "pc_ta_pid_send (demo_proto m) = pids_init LONG_FORM" "pc_wrap_mode (demo_proto m) = m"
  by (simp_all add: demo_proto_def pc_seconds_def time_seconds_since_epoch_def)

lemma demo_encapsulated:
  "\<exists>p' x. cc_encapsulate 2 demo_message (ra_push_back 0 (ra_init 4), demo_user) = (Inr (), p', x) \<and>
    pk_opcode p' = CONTROL_V1 \<and> (\<exists>b. pk_buf p' = Some b \<and> buf_wf b \<and> b_kind b = Allocated 0)"
  by (simp add: cc_encapsulate_def on_packet_def cc_encapsulate_buf_def demo_message_def packet_of_buffer_def
   bindS_def on_buf_def ra_prepend_id_def buf_prepend_def buf_prepend_alloc_def prepend_dest_psid_and_acks_def
   prepend_dest_psid_def ra_push_back_def ra_init_def demo_user_def demo_fields psid_prepend_def demo_psid_def
   prepend_acks_def ra_prepend_def Let_def be32_def PSID_SIZE_def prepend_loop.simps buf_push_front_def
    gen_head_def gen_head_tls_auth_def pid_next_buf_def pids_write_next_def pids_next_def pids_init_def LONG_FORM_def
    SHORT_FORM_def pid_write_def buf_prepend_space_def ovpn_hmac_gen_def ovpn_hmac_pre_def demo_hmac_def
    pid_size_def mem_write_def buf_wf_def)

lemma demo_next_pid: "next_pid_accepted (demo_proto TLS_AUTH) (demo_proto TLS_AUTH)"
proof -
  let ?p = "\<lparr>p_id = 1, p_time = 0\<rparr>" and ?r = "pidr_init 0 LONG_FORM [] 0"
  have "pids_next 0 (pids_init LONG_FORM) = (Inr ?p, \<lparr>s_pid = ?p, s_form = LONG_FORM\<rparr>)"
    by (simp add: pids_next_def pids_init_def LONG_FORM_def Let_def)
  moreover have "fst (projr (pidr_test_add ?p 0 False ?r)) \<and> \<not> isl (pidr_test_add ?p 0 False ?r)"
    by code_simp
  then obtain err ta where "pidr_test_add ?p 0 False ?r = Inr (True, err, ta)"
    by (cases "pidr_test_add ?p 0 False ?r") auto
  moreover have "pc_ta_pid_recv (demo_proto TLS_AUTH) = ?r" by (simp add: demo_proto_def)
  ultimately show ?thesis by (simp add: next_pid_accepted_def demo_fields)
qed

theorem control_packet_roundtrip_witness:
  "\<exists>p' x k'. cc_encapsulate 2 demo_message (ra_push_back 0 (ra_init 4), demo_user) = (Inr (), p', x)
    \<and> cc_decapsulate p' (demo_kst (demo_proto TLS_AUTH)) = (Inr True, k')
    \<and> delivered CONTROL_V1 [7, 7] [0] demo_psid 2 (demo_kst (demo_proto TLS_AUTH)) k'"
proof -
  let ?k = "demo_kst (demo_proto TLS_AUTH)" and ?a = "ra_push_back 0 (ra_init 4)"
  let ?b = "\<lparr>b_data = replicate 40 7, b_off = 38, b_size = 2, b_cap = 40, b_kind = Allocated 0\<rparr> :: buffer"
  obtain p' x b where e: "cc_encapsulate 2 demo_message (?a, demo_user) = (Inr (), p', x)"
    "pk_opcode p' = CONTROL_V1" "pk_buf p' = Some b" "buf_wf b" "b_kind b = Allocated 0"
    using demo_encapsulated by auto
  have pc: "pc_of ?k = demo_proto TLS_AUTH" "u_pc demo_user = demo_proto TLS_AUTH" "u_kx demo_user = demo_kx"
    "k_recv ?k = rr_init 4" "pc_ta_hmac_recv (demo_proto TLS_AUTH) = demo_hmac"
    by (simp_all add: demo_kst_def demo_user_def) (simp add: demo_proto_def)
  have m: "pk_buf demo_message = Some ?b" "buf_wf ?b" "b_kind ?b \<noteq> Plain" "pk_opcode demo_message \<noteq> ACK_V1"
    "content ?b = [7, 7]" "pk_opcode demo_message = CONTROL_V1"
    by (simp_all add: demo_message_def packet_of_buffer_def buf_wf_def CONTROL_V1_def ACK_V1_def content_def slice_def numeral_2_eq_2)
  have a: "ra_max ?a \<noteq> 0" "take (ra_max ?a) (ra_data ?a) = [0]" by (simp_all add: ra_push_back_def ra_init_def)
  have pair: "channel_pair demo_user (pc_of ?k)"
    by (simp add: channel_pair_def pc demo_fields pids_init_def demo_hmac_def hm_ok_def)
      (simp add: demo_psid_def psid_wf_def PSID_SIZE_def demo_kx_def alloc_default_def buf_default_def buf_wf_def)
  have us: "for_us (pc_psid_self (u_pc demo_user)) (pc_psid_peer (u_pc demo_user)) (take (ra_max ?a) (ra_data ?a)) (pc_of ?k)"
    by (simp add: for_us_def pc demo_fields a(2)) (simp add: demo_psid_def psid_wf_def PSID_SIZE_def)
  have win: "in_window (k_recv ?k) 2" by (simp add: pc rr_init_def in_window_def win_init_def)
  have fits: "packet_fits p' (the (pk_buf p')) ?k"
    using e by (simp add: packet_fits_def pc demo_fields)
  have "next_pid_accepted (u_pc demo_user) (pc_of ?k)" using demo_next_pid by (simp add: pc)
  from control_packet_roundtrip [OF demo_inv pair a(1) m(1-4) _ fits us win this, of "fst x" "snd x"] e(1) a(2) m(5,6)
  show ?thesis by (cases x) (auto simp: pc demo_fields)
qed

end
