(* ===== verification/DataCrypto.thy ===== *)
theory DataCrypto
  imports CtlWrap
begin

text \<open>
  The AEAD mode of the data channel: \<open>AEAD::Crypto\<close> (\<open>crypto/crypto_aead.hpp\<close>) over the cipher
  contexts of the two crypto libraries (\<open>mbedtls/crypto/cipheraead.hpp\<close>,
  \<open>openssl/crypto/cipheraead.hpp\<close>).  What the libraries compute is a parameter: for a key and an
  IV the key stream, and the tag of additional data and cipher text.
\<close>

section \<open>Cipher contexts\<close>

record gcm =
  g_stream :: "u8 list \<Rightarrow> nat \<Rightarrow> u8 list"
  g_tag :: "u8 list \<Rightarrow> u8 list \<Rightarrow> u8 list \<Rightarrow> u8 list"

text \<open>The library's packet-oriented encryption: cipher text and tag.\<close>

definition gcm_xor :: "gcm \<Rightarrow> u8 list \<Rightarrow> u8 list \<Rightarrow> u8 list" where
  "gcm_xor g iv x = map2 (XOR) x (g_stream g iv (length x))"

definition gcm_auth_encrypt :: "gcm \<Rightarrow> u8 list \<Rightarrow> u8 list \<Rightarrow> u8 list \<Rightarrow> u8 list \<times> u8 list" where
  "gcm_auth_encrypt g iv ad x = (let ct = gcm_xor g iv x in (ct, g_tag g iv ad ct))"

text \<open>
  \<open>CipherContextAEAD\<close>.  \<open>ai_decrypt\<close> gives the verdict, the bytes written to the output and the
  bytes at the tag afterwards.
\<close>

record aead_impl =
  ai_encrypt :: "u8 list \<Rightarrow> u8 list \<Rightarrow> u8 list \<Rightarrow> (u8 list \<times> u8 list) res"
  ai_decrypt :: "u8 list \<Rightarrow> u8 list \<Rightarrow> u8 list \<Rightarrow> u8 list \<Rightarrow> (bool \<times> u8 list \<times> u8 list) res"

definition AUTH_TAG_LEN :: nat where "AUTH_TAG_LEN = 16"
definition AEAD_IV_LEN :: nat where "AEAD_IV_LEN = 12"

text \<open>
  mbedTLS: both directions call \<open>mbedtls_cipher_auth_encrypt\<close>, which computes a tag and writes it
  where the caller points.
\<close>

definition mbedtls_encrypt :: "gcm \<Rightarrow> u8 list \<Rightarrow> u8 list \<Rightarrow> u8 list \<Rightarrow> (u8 list \<times> u8 list) res" where
  "mbedtls_encrypt g iv ad inp = Inr (gcm_auth_encrypt g iv ad inp)"

definition mbedtls_decrypt ::
    "gcm \<Rightarrow> u8 list \<Rightarrow> u8 list \<Rightarrow> u8 list \<Rightarrow> u8 list \<Rightarrow> (bool \<times> u8 list \<times> u8 list) res" where
  "mbedtls_decrypt g iv ad tag inp = (let (out, tag) = gcm_auth_encrypt g iv ad inp in Inr (True, out, tag))"

definition mbedtls_init :: "(u8 list \<Rightarrow> gcm) \<Rightarrow> nat \<Rightarrow> u8 list \<Rightarrow> aead_impl res" where
  "mbedtls_init new ckeysz key =
     (if ckeysz = 0 then Inl (mbedtls_aead_error '': not usable'')
      else if ckeysz > length key then Inl (mbedtls_aead_error ''insufficient key material'')
      else let g = new (take ckeysz key) in
        Inr \<lparr>ai_encrypt = mbedtls_encrypt g, ai_decrypt = mbedtls_decrypt g\<rparr>)"

definition mbedtls_uninit :: aead_impl where
  "mbedtls_uninit = \<lparr>ai_encrypt = \<lambda>_ _ _. Inl mbedtls_cipher_uninitialized,
     ai_decrypt = \<lambda>_ _ _ _. Inl mbedtls_cipher_uninitialized\<rparr>"

text \<open>OpenSSL: decryption compares the tag it was given.\<close>

definition openssl_encrypt :: "gcm \<Rightarrow> u8 list \<Rightarrow> u8 list \<Rightarrow> u8 list \<Rightarrow> (u8 list \<times> u8 list) res" where
  "openssl_encrypt g iv ad inp = Inr (gcm_auth_encrypt g iv ad inp)"

definition openssl_decrypt ::
    "gcm \<Rightarrow> u8 list \<Rightarrow> u8 list \<Rightarrow> u8 list \<Rightarrow> u8 list \<Rightarrow> (bool \<times> u8 list \<times> u8 list) res" where
  "openssl_decrypt g iv ad tag inp = Inr (tag = g_tag g iv ad inp, gcm_xor g iv inp, tag)"

definition openssl_init :: "(u8 list \<Rightarrow> gcm) \<Rightarrow> nat \<Rightarrow> u8 list \<Rightarrow> aead_impl res" where
  "openssl_init new ckeysz key =
     (if ckeysz = 0 then Inl (openssl_gcm_error '': not usable'')
      else if ckeysz > length key then Inl (openssl_gcm_error ''insufficient key material'')
      else let g = new (take ckeysz key) in
        Inr \<lparr>ai_encrypt = openssl_encrypt g, ai_decrypt = openssl_decrypt g\<rparr>)"

section \<open>The state\<close>

text \<open>\<open>Nonce\<close>: the 16 bytes hold the opcode word, the packet ID and the tail.\<close>

record nonce =
  n_ad_op32 :: bool
  n_data :: "u8 list"

definition nonce_new :: nonce where
  "nonce_new = \<lparr>n_ad_op32 = False, n_data = replicate 16 0\<rparr>"

definition nonce_set_tail :: "u8 list \<Rightarrow> nonce \<Rightarrow> nonce res" where
  "nonce_set_tail sk n =
     (if length sk < 8 then Inl (aead_error ''insufficient key material for nonce tail'')
      else Inr (n\<lparr>n_data := blit (n_data n) 8 (take 8 sk)\<rparr>))"

definition nonce_set_op32 :: "u8 list option \<Rightarrow> nonce \<Rightarrow> nonce" where
  "nonce_set_op32 op32 n =
     (case op32 of None \<Rightarrow> n\<lparr>n_ad_op32 := False\<rparr>
      | Some op \<Rightarrow> n\<lparr>n_ad_op32 := True, n_data := blit (n_data n) 0 (take 4 op)\<rparr>)"

definition nonce_iv :: "nonce \<Rightarrow> u8 list" where
  "nonce_iv n = slice 4 AEAD_IV_LEN (n_data n)"

definition nonce_ad :: "nonce \<Rightarrow> u8 list" where
  "nonce_ad n = (if n_ad_op32 n then take 8 (n_data n) else slice 4 4 (n_data n))"

text \<open>\<open>in_place\<close> is the library's \<open>SUPPORTS_IN_PLACE_ENCRYPT\<close>; \<open>a_errors\<close> what goes to the statistics.\<close>

record aead =
  a_in_place :: bool
  a_frame :: frame
  a_base :: nat
  a_e_impl :: aead_impl
  a_e_nonce :: nonce
  a_e_pid_send :: pid_send
  a_e_work :: buffer
  a_d_impl :: aead_impl
  a_d_nonce :: nonce
  a_d_pid_recv :: pid_recv
  a_d_work :: buffer
  a_errors :: "pkt_err list"

text \<open>A call has the object and the packet's buffer as its state.\<close>

record 'i dcx =
  dx_obj :: 'i
  dx_buf :: buffer

definition on_dbuf :: "('i dcx \<Rightarrow> buffer \<Rightarrow> buffer res) \<Rightarrow> (unit, 'i dcx) st" where
  "on_dbuf f s = (case f s (dx_buf s) of Inl e \<Rightarrow> (Inl e, s) | Inr b \<Rightarrow> (Inr (), s\<lparr>dx_buf := b\<rparr>))"

definition on_obj :: "('i \<Rightarrow> 'i) \<Rightarrow> 'i dcx \<Rightarrow> 'i dcx" where
  "on_obj f s = s\<lparr>dx_obj := f (dx_obj s)\<rparr>"

definition dc_return :: "stack_reason \<Rightarrow> (stack_reason, 'i dcx) st" where
  "dc_return e s = (Inr e, s)"

text \<open>\<open>buf.reset_size(); return e;\<close>\<close>

definition dc_fail :: "stack_reason \<Rightarrow> (stack_reason, 'i dcx) st" where
  "dc_fail e s = (Inr e, s\<lparr>dx_buf := buf_reset_size (dx_buf s)\<rparr>)"

section \<open>Encryption\<close>

definition nonce_for_encrypt :: "int \<Rightarrow> u8 list option \<Rightarrow> (nonce, aead dcx) st" where
  "nonce_for_encrypt now op32 s =
     (let a = dx_obj s; data = n_data (a_e_nonce a);
          (r, ps) = pids_write_next False now (buf_of_array (slice 4 4 data) False) (a_e_pid_send a) in
      (bindE r (\<lambda>w. Inr (nonce_set_op32 op32 \<lparr>n_ad_op32 = False, n_data = blit data 4 (b_data w)\<rparr>)),
       on_obj (\<lambda>a. a\<lparr>a_e_pid_send := ps\<rparr>) s))"

definition aead_encrypt_in_place :: "nonce \<Rightarrow> (unit, aead dcx) st" where
  "aead_encrypt_in_place n s =
     (let inp = content (dx_buf s) in
      bindS (on_dbuf (\<lambda>_. buf_prepend_space AUTH_TAG_LEN)) (\<lambda>_.
        on_dbuf (\<lambda>s b. bindE (ai_encrypt (a_e_impl (dx_obj s)) (nonce_iv n) (nonce_ad n) inp) (\<lambda>(ct, tag).
          bindE (mem_write (b_off b + AUTH_TAG_LEN) ct b) (mem_write (b_off b) tag)))) s)"

definition on_e_work :: "(aead dcx \<Rightarrow> buffer \<Rightarrow> buffer res) \<Rightarrow> (unit, aead dcx) st" where
  "on_e_work f s =
     (case f s (a_e_work (dx_obj s)) of Inl e \<Rightarrow> (Inl e, s)
      | Inr w \<Rightarrow> (Inr (), on_obj (\<lambda>a. a\<lparr>a_e_work := w\<rparr>) s))"

definition aead_encrypt_work :: "nonce \<Rightarrow> (unit, aead dcx) st" where
  "aead_encrypt_work n =
     bindS (on_e_work (\<lambda>s w. bindE (frame_prepare ENCRYPT_WORK (a_base (dx_obj s)) w (a_frame (dx_obj s)))
              (\<lambda>(_, w). Inr w))) (\<lambda>_.
     bindS (on_e_work (\<lambda>s w. if buf_max_size w < b_size (dx_buf s)
              then Inl (aead_error ''encrypt work buffer too small'') else Inr w)) (\<lambda>_.
     bindS (on_e_work (\<lambda>_. buf_prepend_space AUTH_TAG_LEN)) (\<lambda>_.
     bindS (on_e_work (\<lambda>s w.
              bindE (buf_write_alloc (b_size (dx_buf s)) w) (\<lambda>(p, w).
              bindE (ai_encrypt (a_e_impl (dx_obj s)) (nonce_iv n) (nonce_ad n) (content (dx_buf s))) (\<lambda>(ct, tag).
              bindE (mem_write p ct w) (\<lambda>w. mem_write (b_off w) tag w))))) (\<lambda>_ s.
       (Inr (), \<lparr>dx_obj = (dx_obj s)\<lparr>a_e_work := dx_buf s\<rparr>, dx_buf = a_e_work (dx_obj s)\<rparr>)))))"

definition nonce_prepend_ad :: "nonce \<Rightarrow> buffer \<Rightarrow> buffer res" where
  "nonce_prepend_ad n = buf_prepend (slice 4 4 (n_data n))"

text \<open>Returns whether the packet ID is close to wrapping.\<close>

definition aead_encrypt :: "int \<Rightarrow> u8 list option \<Rightarrow> (bool, aead dcx) st" where
  "aead_encrypt now op32 s =
     bindS (\<lambda>s.
       if b_size (dx_buf s) \<noteq> 0 then
         bindS (nonce_for_encrypt now op32) (\<lambda>n.
         bindS (if a_in_place (dx_obj s) then aead_encrypt_in_place n else aead_encrypt_work n) (\<lambda>_.
           on_dbuf (\<lambda>_. nonce_prepend_ad n))) s
       else (Inr (), s)) (\<lambda>_ s.
     (Inr (pids_wrap_warning (a_e_pid_send (dx_obj s))), s)) s"

section \<open>Decryption\<close>

definition nonce_for_decrypt :: "u8 list option \<Rightarrow> (nonce, aead dcx) st" where
  "nonce_for_decrypt op32 s =
     (case buf_read 4 (dx_buf s) of
        Inl e \<Rightarrow> (Inl e, s)
      | Inr (d, b) \<Rightarrow>
          (Inr (nonce_set_op32 op32 \<lparr>n_ad_op32 = False, n_data = blit (n_data (a_d_nonce (dx_obj s))) 4 d\<rparr>),
           s\<lparr>dx_buf := b\<rparr>))"

definition on_d_work :: "(aead dcx \<Rightarrow> buffer \<Rightarrow> buffer res) \<Rightarrow> (unit, aead dcx) st" where
  "on_d_work f s =
     (case f s (a_d_work (dx_obj s)) of Inl e \<Rightarrow> (Inl e, s)
      | Inr w \<Rightarrow> (Inr (), on_obj (\<lambda>a. a\<lparr>a_d_work := w\<rparr>) s))"

text \<open>\<open>impl.decrypt\<close>: from the buffer to \<open>work\<close>, with the tag at \<open>p\<close>.\<close>

definition aead_impl_decrypt :: "nonce \<Rightarrow> nat \<Rightarrow> (bool, aead dcx) st" where
  "aead_impl_decrypt n p s =
     (let a = dx_obj s; b = dx_buf s in
      case bindE (mem_read p AUTH_TAG_LEN b) (\<lambda>tag.
           bindE (ai_decrypt (a_d_impl a) (nonce_iv n) (nonce_ad n) tag (content b)) (\<lambda>(ok, out, tag).
           bindE (mem_write (b_off (a_d_work a)) out (a_d_work a)) (\<lambda>w.
           bindE (mem_write p tag b) (\<lambda>b. Inr (ok, w, b))))) of
        Inl e \<Rightarrow> (Inl e, s)
      | Inr (ok, w, b) \<Rightarrow> (Inr ok, \<lparr>dx_obj = a\<lparr>a_d_work := w\<rparr>, dx_buf = b\<rparr>))"

definition nonce_verify_packet_id :: "nonce \<Rightarrow> int \<Rightarrow> (bool, aead dcx) st" where
  "nonce_verify_packet_id n now s =
     (let pr = a_d_pid_recv (dx_obj s) in
      case bindE (pidr_read_next (buf_of_array (slice 4 4 (n_data n)) True) pr) (\<lambda>(pid, _).
           pidr_test_add pid now True pr) of
        Inl e \<Rightarrow> (Inl e, s)
      | Inr (ok, err, pr) \<Rightarrow>
          (Inr ok, on_obj (\<lambda>a. a\<lparr>a_d_pid_recv := pr,
             a_errors := a_errors a @ (case err of None \<Rightarrow> [] | Some e \<Rightarrow> [e])\<rparr>) s))"

definition dx_read_alloc :: "nat \<Rightarrow> (nat, 'i dcx) st" where
  "dx_read_alloc n s =
     (case buf_read_alloc n (dx_buf s) of Inl e \<Rightarrow> (Inl e, s) | Inr (p, b) \<Rightarrow> (Inr p, s\<lparr>dx_buf := b\<rparr>))"

definition aead_decrypt :: "int \<Rightarrow> u8 list option \<Rightarrow> (stack_reason, aead dcx) st" where
  "aead_decrypt now op32 s =
     (if b_size (dx_buf s) = 0 then dc_return Err_SUCCESS s
      else
        bindS (nonce_for_decrypt op32) (\<lambda>n.
        bindS (dx_read_alloc AUTH_TAG_LEN) (\<lambda>p.
        bindS (on_d_work (\<lambda>s w. bindE (frame_prepare DECRYPT_WORK (a_base (dx_obj s)) w (a_frame (dx_obj s)))
                 (\<lambda>(_, w). Inr w))) (\<lambda>_.
        bindS (on_d_work (\<lambda>s w. if buf_max_size w < b_size (dx_buf s)
                 then Inl (aead_error ''decrypt work buffer too small'') else Inr w)) (\<lambda>_.
        bindS (aead_impl_decrypt n p) (\<lambda>ok.
          if \<not> ok then dc_fail Err_DECRYPT_ERROR
          else
            bindS (on_d_work (\<lambda>s. buf_set_size (b_size (dx_buf s)))) (\<lambda>_.
            bindS (nonce_verify_packet_id n now) (\<lambda>ok.
              if \<not> ok then dc_fail Err_REPLAY_ERROR
              else (\<lambda>s. dc_return Err_SUCCESS
                 \<lparr>dx_obj = (dx_obj s)\<lparr>a_d_work := dx_buf s\<rparr>, dx_buf = a_d_work (dx_obj s)\<rparr>)))))))) s)"

section \<open>Initialization\<close>

text \<open>\<open>impl_init\<close> is \<open>mbedtls_init\<close> or \<open>openssl_init\<close> for the cipher configured.\<close>

definition aead_init_cipher :: "(u8 list \<Rightarrow> aead_impl res) \<Rightarrow> u8 list \<Rightarrow> u8 list \<Rightarrow> (unit, aead) st" where
  "aead_init_cipher impl_init encrypt_key decrypt_key a =
     (case impl_init encrypt_key of
        Inl e \<Rightarrow> (Inl e, a)
      | Inr i \<Rightarrow>
          (let a = a\<lparr>a_e_impl := i\<rparr> in
           case impl_init decrypt_key of Inl e \<Rightarrow> (Inl e, a) | Inr i \<Rightarrow> (Inr (), a\<lparr>a_d_impl := i\<rparr>)))"

definition aead_init_hmac :: "u8 list \<Rightarrow> u8 list \<Rightarrow> (unit, aead) st" where
  "aead_init_hmac encrypt_key decrypt_key a =
     (case nonce_set_tail encrypt_key (a_e_nonce a) of
        Inl e \<Rightarrow> (Inl e, a)
      | Inr n \<Rightarrow>
          (let a = a\<lparr>a_e_nonce := n\<rparr> in
           case nonce_set_tail decrypt_key (a_d_nonce a) of Inl e \<Rightarrow> (Inl e, a)
           | Inr n \<Rightarrow> (Inr (), a\<lparr>a_d_nonce := n\<rparr>)))"

definition aead_init_pid :: "int \<Rightarrow> int \<Rightarrow> int \<Rightarrow> string \<Rightarrow> int \<Rightarrow> aead \<Rightarrow> aead" where
  "aead_init_pid send_form recv_mode recv_form name unit a =
     a\<lparr>a_e_pid_send := pids_init send_form, a_d_pid_recv := pidr_init recv_mode recv_form name unit\<rparr>"

text \<open>\<open>defined\<close>: the cipher's key is wanted, and the HMAC's for the nonce tail.\<close>

definition CIPHER_DEFINED :: u32 where "CIPHER_DEFINED = 1"
definition HMAC_DEFINED :: u32 where "HMAC_DEFINED = 2"
definition CRYPTO_DEFINED :: u32 where "CRYPTO_DEFINED = 4"

definition aead_defined :: "bool \<Rightarrow> u32" where
  "aead_defined cipher_defined =
     (if cipher_defined then CRYPTO_DEFINED OR (CIPHER_DEFINED OR HMAC_DEFINED) else CRYPTO_DEFINED)"

end
