(* ===== verification/DataCryptoProps.thy ===== *)
theory DataCryptoProps
  imports DataCrypto CtlRound
begin

text \<open>
  Properties of the AEAD data channel: the round trip between two ends, and what each of the two
  cipher contexts does with a packet whose tag is wrong.
\<close>

section \<open>Nonces\<close>

text \<open>A cipher: key streams and tags have the lengths the library documents.\<close>

definition gcm_ok :: "gcm \<Rightarrow> bool" where
  "gcm_ok g \<longleftrightarrow> (\<forall>iv n. length (g_stream g iv n) = n) \<and> (\<forall>iv ad ct. length (g_tag g iv ad ct) = AUTH_TAG_LEN)"

lemma gcm_xor_length [simp]: "gcm_ok g \<Longrightarrow> length (gcm_xor g iv x) = length x"
  by (simp add: gcm_xor_def gcm_ok_def)

lemma map2_xor_twice: "length s = length x \<Longrightarrow> map2 (XOR) (map2 (XOR) x s) s = (x :: u8 list)"
  by (induction x s rule: list_induct2') (simp_all add: xor.assoc)

lemma gcm_xor_twice: "gcm_ok g \<Longrightarrow> gcm_xor g iv (gcm_xor g iv x) = x"
  by (simp add: gcm_xor_def gcm_ok_def map2_xor_twice)

text \<open>The nonce of packet \<open>i\<close>, and the IV and additional data read from it.\<close>

definition packet_nonce :: "u8 list option \<Rightarrow> u32 \<Rightarrow> nonce \<Rightarrow> nonce" where
  "packet_nonce op32 i n = nonce_set_op32 op32 \<lparr>n_ad_op32 = False, n_data = blit (n_data n) 4 (be32 i)\<rparr>"

definition op32_ok :: "u8 list option \<Rightarrow> bool" where
  "op32_ok op32 \<longleftrightarrow> (case op32 of None \<Rightarrow> True | Some op \<Rightarrow> length op = 4)"

lemma packet_nonce_bytes:
  assumes "length (n_data n) = 16" and "op32_ok op32"
  shows "slice 4 4 (n_data (packet_nonce op32 i n)) = be32 i"
    and "nonce_iv (packet_nonce op32 i n) = be32 i @ drop 8 (n_data n)"
    and "nonce_ad (packet_nonce op32 i n) = (case op32 of None \<Rightarrow> be32 i | Some op \<Rightarrow> op @ be32 i)"
    and "length (n_data (packet_nonce op32 i n)) = 16"
  using assms
  by (auto simp: packet_nonce_def nonce_set_op32_def op32_ok_def nonce_iv_def nonce_ad_def AEAD_IV_LEN_def
      slice_def blit_def split: option.splits)

section \<open>Decryption\<close>

definition aead_recv_ok :: "nat \<Rightarrow> (int \<times> nat) set \<Rightarrow> aead \<Rightarrow> bool" where
  "aead_recv_ok k A a \<longleftrightarrow> length (n_data (a_d_nonce a)) = 16 \<and> ctx_ok k (a_frame a ! DECRYPT_WORK)
     \<and> buf_wf (a_d_work a) \<and> b_kind (a_d_work a) \<noteq> Plain \<and> pidr_inv A (a_d_pid_recv a)
     \<and> r_form (a_d_pid_recv a) \<noteq> LONG_FORM"

lemma pidr_do_test_add_form: "pidr_do_test_add p now md s = Inr (e, s') \<Longrightarrow> r_form s' = r_form s"
  by (auto simp: pidr_do_test_add_def pidr_check_id_def pidr_successor_def pidr_jump_def pidr_backtrack_def
      pidr_expire_def pidr_new_time_def Let_def split: if_splits)

lemma work_with_room:
  assumes "ctx_ok k (f ! i)" and "i < 16" and "buf_wf w" and "b_kind w \<noteq> Plain"
  obtains w' where "frame_prepare i base w f = Inr (f_payload (f ! i), w')" and "buf_wf w'" and "b_kind w' \<noteq> Plain"
    and "content w' = []" and "b_size w' = 0" and "f_headroom (f ! i) \<le> b_off w'"
    and "b_off w' + f_payload (f ! i) \<le> b_cap w'"
proof -
  obtain w' where w': "ctx_prepare (f ! i) base w = Inr (f_payload (f ! i), w')" "buf_wf w'" "content w' = []"
    "b_off w' = ctx_actual_headroom (f ! i) base" "b_size w' = 0" "f_adj_capacity (f ! i) \<le> b_cap w'" "b_kind w' \<noteq> Plain"
    using ctx_prepare_ok [OF assms(1,3,4), of base] by blast
  have "f_adj_headroom (f ! i) + f_payload (f ! i) \<le> f_adj_capacity (f ! i)"
    using assms(1) by (simp add: ctx_ok_def)
  then have "b_off w' + f_payload (f ! i) \<le> b_cap w'" "f_headroom (f ! i) \<le> b_off w'"
    using w'(4,6) ctx_actual_headroom_bounds [OF assms(1), of base] by linarith+
  with w' assms(2) show thesis
    by (intro that [of w']) (simp_all add: frame_prepare_def frame_index_def N_ALIGN_CONTEXTS_def)
qed

lemma nonce_verify:
  assumes "length (n_data n) = 16" and "slice 4 4 (n_data n) = be32 i"
    and "pidr_inv A (a_d_pid_recv (dx_obj s))" and "r_form (a_d_pid_recv (dx_obj s)) \<noteq> LONG_FORM"
  obtains s' where "nonce_verify_packet_id n now s
      = (Inr (pidr_verdict A (pidr_expire now (a_d_pid_recv (dx_obj s))) \<lparr>p_id = i, p_time = 0\<rparr> = SUCCESS), s')"
    and "dx_buf s' = dx_buf s" and "r_form (a_d_pid_recv (dx_obj s')) \<noteq> LONG_FORM"
    and "pidr_inv (if pidr_verdict A (pidr_expire now (a_d_pid_recv (dx_obj s))) \<lparr>p_id = i, p_time = 0\<rparr> = SUCCESS
      then insert (0, unat i) A else A) (a_d_pid_recv (dx_obj s'))"
    and "\<exists>es. dx_obj s' = (dx_obj s)\<lparr>a_d_pid_recv := a_d_pid_recv (dx_obj s'), a_errors := es\<rparr>"
proof -
  let ?pr = "a_d_pid_recv (dx_obj s)" and ?b = "buf_of_array (be32 i) True" and ?p = "\<lparr>p_id = i, p_time = 0 :: int\<rparr>"
  have wf: "buf_wf ?b" by (simp add: buf_wf_of_array)
  have c: "content ?b = be32 i @ (if r_form ?pr = LONG_FORM then be32 (word_of_int 0) else []) @ []"
    using assms(4) by (simp add: content_of_array)
  obtain b where b: "pid_read (r_form ?pr) ?b = Inr (?p, b)"
    using pid_read_prefix [OF wf _ _ c] assms(4) by auto
  let ?v = "pidr_verdict A (pidr_expire now ?pr) ?p"
  obtain pr where pr: "pidr_do_test_add ?p now True ?pr = Inr (?v, pr)"
    "pidr_inv (if True \<and> ?v = SUCCESS then insert (p_time ?p, unat (p_id ?p)) A else A) pr"
    using pidr_do_test_add_spec [OF assms(3), of ?p now True] by blast
  define v where "v = ?v"
  define s' where "s' = on_obj (\<lambda>a. a\<lparr>a_d_pid_recv := pr, a_errors := a_errors a @ (if v \<noteq> SUCCESS then [v] else [])\<rparr>) s"
  have f: "r_form pr \<noteq> LONG_FORM" using pidr_do_test_add_form [OF pr(1)] assms(4) by simp
  have t: "pidr_test_add ?p now True ?pr = Inr (if v \<noteq> SUCCESS then (False, Some v, pr) else (True, None, pr))"
    using pr(1) by (simp add: pidr_test_add_def v_def)
  have "pidr_read_next ?b ?pr = Inr (?p, b)"
    using b pidr_invD(1) [OF assms(3)] by (simp add: pidr_read_next_def)
  then have "nonce_verify_packet_id n now s = (Inr (v = SUCCESS), s')"
    using t assms(2) by (cases "v = SUCCESS") (simp_all add: nonce_verify_packet_id_def Let_def s'_def on_obj_def)
  moreover have "dx_buf s' = dx_buf s" "a_d_pid_recv (dx_obj s') = pr"
    "dx_obj s' = (dx_obj s)\<lparr>a_d_pid_recv := pr, a_errors := a_errors (dx_obj s')\<rparr>"
    by (simp_all add: s'_def on_obj_def)
  moreover have "pidr_inv (if v = SUCCESS then insert (0, unat i) A else A) pr"
    using pr(2) unfolding v_def [symmetric] by (cases "v = SUCCESS") simp_all
  ultimately show thesis using that [of s'] f unfolding v_def by metis
qed

text \<open>
  What \<open>decrypt\<close> makes of a packet \<open>[id] [tag] [cipher text]\<close>, by the verdict of the cipher context
  and the one of the replay window.
\<close>

lemma aead_decrypt_cases:
  assumes a: "aead_recv_ok k A a" and op: "op32_ok op32"
    and b: "buf_wf b" "b_kind b \<noteq> Plain" "content b = be32 i @ tag @ ct" "length tag = AUTH_TAG_LEN"
    and room: "length ct \<le> f_payload (a_frame a ! DECRYPT_WORK)"
    and dec: "ai_decrypt (a_d_impl a) (be32 i @ drop 8 (n_data (a_d_nonce a)))
        (case op32 of None \<Rightarrow> be32 i | Some op \<Rightarrow> op @ be32 i) tag ct = Inr (ok, out, tag')"
      "length out = length ct" "length tag' = AUTH_TAG_LEN"
  obtains (bad_tag) t where "\<not> ok" and "aead_decrypt now op32 \<lparr>dx_obj = a, dx_buf = b\<rparr> = (Inr Err_DECRYPT_ERROR, t)"
      and "content (dx_buf t) = []" and "aead_recv_ok k A (dx_obj t)" and "a_d_pid_recv (dx_obj t) = a_d_pid_recv a"
  | (replay) t where "ok" and "pidr_verdict A (pidr_expire now (a_d_pid_recv a)) \<lparr>p_id = i, p_time = 0\<rparr> \<noteq> SUCCESS"
      and "aead_decrypt now op32 \<lparr>dx_obj = a, dx_buf = b\<rparr> = (Inr Err_REPLAY_ERROR, t)"
      and "content (dx_buf t) = []" and "aead_recv_ok k A (dx_obj t)"
  | (accepted) t where "ok" and "pidr_verdict A (pidr_expire now (a_d_pid_recv a)) \<lparr>p_id = i, p_time = 0\<rparr> = SUCCESS"
      and "aead_decrypt now op32 \<lparr>dx_obj = a, dx_buf = b\<rparr> = (Inr Err_SUCCESS, t)"
      and "content (dx_buf t) = out" and "buf_wf (dx_buf t)" and "aead_recv_ok k (insert (0, unat i) A) (dx_obj t)"
      and "a_d_impl (dx_obj t) = a_d_impl a" and "a_d_nonce (dx_obj t) = a_d_nonce a" and "a_frame (dx_obj t) = a_frame a"
proof -
  let ?n = "packet_nonce op32 i (a_d_nonce a)"
  have A: "length (n_data (a_d_nonce a)) = 16" "ctx_ok k (a_frame a ! DECRYPT_WORK)" "buf_wf (a_d_work a)"
    "b_kind (a_d_work a) \<noteq> Plain" "pidr_inv A (a_d_pid_recv a)" "r_form (a_d_pid_recv a) \<noteq> LONG_FORM"
    using a by (auto simp: aead_recv_ok_def)
  note nb = packet_nonce_bytes [OF A(1) op, of i]
  have sz: "b_size b = 20 + length ct"
    using length_content [OF b(1)] b(3,4) by (simp add: AUTH_TAG_LEN_def)
  define b2 where "b2 = b\<lparr>b_off := b_off b + 20, b_size := length ct\<rparr>"
  have b2: "buf_wf b2" "content b2 = ct" "b_size b2 = length ct" "b_kind b2 = b_kind b"
  proof -
    have "drop 20 (content b) = ct"
      using b(3,4) by (simp add: AUTH_TAG_LEN_def)
    then show "content b2 = ct" using content_advance [of 20 b] sz by (simp add: b2_def)
  qed (use b(1) sz in \<open>simp_all add: b2_def buf_wf_def\<close>)
  have in_b: "b_off b + 20 + length ct \<le> length (b_data b)" using b(1) sz by (simp add: buf_wf_def)
  have s1: "nonce_for_decrypt op32 \<lparr>dx_obj = a, dx_buf = b\<rparr>
      = (Inr ?n, \<lparr>dx_obj = a, dx_buf = b\<lparr>b_off := b_off b + 4, b_size := 16 + length ct\<rparr>\<rparr>)"
    using b(3) sz by (simp add: nonce_for_decrypt_def buf_read_eq packet_nonce_def)
  have s2: "dx_read_alloc AUTH_TAG_LEN \<lparr>dx_obj = x, dx_buf = b\<lparr>b_off := b_off b + 4, b_size := 16 + length ct\<rparr>\<rparr>
      = (Inr (b_off b + 4), \<lparr>dx_obj = x, dx_buf = b2\<rparr>)" for x :: aead
    by (simp add: dx_read_alloc_def buf_read_alloc_def AUTH_TAG_LEN_def b2_def)
  have tag: "mem_read (b_off b + 4) AUTH_TAG_LEN b2 = Inr tag"
  proof -
    have "slice (b_off b + 4) 16 (b_data b) = take 16 (drop 4 (content b))"
      using sz by (simp add: content_def slice_drop_prefix slice_take_prefix)
    then show ?thesis using b(3,4) in_b by (simp add: mem_read_def b2_def AUTH_TAG_LEN_def)
  qed
  obtain w where w: "frame_prepare DECRYPT_WORK (a_base a) (a_d_work a) (a_frame a)
      = Inr (f_payload (a_frame a ! DECRYPT_WORK), w)" "buf_wf w" "b_kind w \<noteq> Plain" "content w = []" "b_size w = 0"
    "b_off w + f_payload (a_frame a ! DECRYPT_WORK) \<le> b_cap w"
    using work_with_room [OF A(2) _ A(3,4), of "a_base a"] by (auto simp: DECRYPT_WORK_def)
  have fit: "b_off w + length out \<le> b_cap w" "b_cap w \<le> length (b_data w)" "buf_max_size w \<ge> length ct"
    using w(2,6) room dec(2) by (simp_all add: buf_max_size_eq buf_wf_def)
  define w1 where "w1 = w\<lparr>b_data := blit (b_data w) (b_off w) out\<rparr>"
  define b3 where "b3 = b2\<lparr>b_data := blit (b_data b2) (b_off b + 4) tag'\<rparr>"
  have w1: "buf_wf w1" "b_off w1 = b_off w" "b_kind w1 = b_kind w" "b_size w1 = 0" "mem_write (b_off w) out w = Inr w1"
    using w(2,5) fit by (simp_all add: w1_def buf_wf_def mem_write_def)
  have b3: "buf_wf b3" "b_kind b3 = b_kind b" "b_size b3 = length ct" "mem_write (b_off b + 4) tag' b2 = Inr b3"
    using b2 in_b dec(3) by (auto simp: b3_def b2_def buf_wf_def mem_write_def AUTH_TAG_LEN_def)
  let ?s3 = "\<lparr>dx_obj = a\<lparr>a_d_work := w\<rparr>, dx_buf = b2\<rparr>" and ?s4 = "\<lparr>dx_obj = a\<lparr>a_d_work := w1\<rparr>, dx_buf = b3\<rparr>"
  have dec': "ai_decrypt (a_d_impl a) (nonce_iv ?n) (nonce_ad ?n) tag ct = Inr (ok, out, tag')"
    using dec(1) nb by simp
  have s4: "aead_impl_decrypt ?n (b_off b + 4) ?s3 = (Inr ok, ?s4)"
    using tag w1(5) b3(4) dec' b2(2) by (simp add: aead_impl_decrypt_def Let_def)
  have run: "aead_decrypt now op32 \<lparr>dx_obj = a, dx_buf = b\<rparr> =
      (if \<not> ok then dc_fail Err_DECRYPT_ERROR
       else bindS (on_d_work (\<lambda>s. buf_set_size (b_size (dx_buf s)))) (\<lambda>_.
            bindS (nonce_verify_packet_id ?n now) (\<lambda>ok.
              if \<not> ok then dc_fail Err_REPLAY_ERROR
              else (\<lambda>s. dc_return Err_SUCCESS
                 \<lparr>dx_obj = (dx_obj s)\<lparr>a_d_work := dx_buf s\<rparr>, dx_buf = a_d_work (dx_obj s)\<rparr>)))) ?s4"
    using s1 s2 w(1) fit(3) s4 sz b2(3)
    by (simp add: aead_decrypt_def bindS_def on_d_work_def on_obj_def)
  have recv: "aead_recv_ok k A' (a\<lparr>a_d_work := x, a_d_pid_recv := pr, a_errors := es\<rparr>)"
    if "buf_wf x" "b_kind x \<noteq> Plain" "pidr_inv A' pr" "r_form pr \<noteq> LONG_FORM" for x pr es A'
    using A that by (simp add: aead_recv_ok_def)
  have reset: "content (buf_reset_size x) = []" for x by (simp add: buf_reset_size_def)
  show thesis
  proof (cases ok)
    case False
    have r: "aead_recv_ok k A (a\<lparr>a_d_work := w1\<rparr>)" using A w1 w(3) by (simp add: aead_recv_ok_def)
    show thesis using bad_tag [of "?s4\<lparr>dx_buf := buf_reset_size b3\<rparr>"] False run r reset by (simp add: dc_fail_def)
  next
    case True
    define w2 where "w2 = w1\<lparr>b_size := length ct\<rparr>"
    let ?s5 = "\<lparr>dx_obj = a\<lparr>a_d_work := w2\<rparr>, dx_buf = b3\<rparr>"
    have w2: "buf_set_size (length ct) w1 = Inr w2" "buf_wf w2" "b_kind w2 = b_kind w" "content w2 = out"
    proof -
      show "buf_set_size (length ct) w1 = Inr w2"
        using fit(3) by (simp add: buf_set_size_def w2_def w1_def buf_max_size_def)
      show "buf_wf w2" using w1(1) fit dec(2) by (simp add: w2_def w1_def buf_wf_def)
      show "content w2 = out"
        using fit dec(2) slice_blit_same [of "b_off w" out "b_data w"] by (simp add: w2_def w1_def content_def)
    qed (simp add: w2_def w1_def)
    have s5: "on_d_work (\<lambda>s. buf_set_size (b_size (dx_buf s))) ?s4 = (Inr (), ?s5)"
      using w2(1) b3(3) by (simp add: on_d_work_def on_obj_def)
    let ?V = "pidr_verdict A (pidr_expire now (a_d_pid_recv a)) \<lparr>p_id = i, p_time = 0\<rparr>"
    obtain s6 es where s6: "nonce_verify_packet_id ?n now ?s5 = (Inr (?V = SUCCESS), s6)" "dx_buf s6 = b3"
      "r_form (a_d_pid_recv (dx_obj s6)) \<noteq> LONG_FORM"
      "pidr_inv (if ?V = SUCCESS then insert (0, unat i) A else A) (a_d_pid_recv (dx_obj s6))"
      "dx_obj s6 = a\<lparr>a_d_work := w2, a_d_pid_recv := a_d_pid_recv (dx_obj s6), a_errors := es\<rparr>"
      using nonce_verify [OF nb(4,1), of A ?s5 now thesis] A(5,6) by auto
    define pr where "pr = a_d_pid_recv (dx_obj s6)"
    have s6': "s6 = \<lparr>dx_obj = a\<lparr>a_d_work := w2, a_d_pid_recv := pr, a_errors := es\<rparr>, dx_buf = b3\<rparr>"
      using s6(2,5) by (cases s6) (simp add: pr_def)
    show thesis
    proof (cases "?V = SUCCESS")
      case ok: True
      show thesis
        using accepted [of "\<lparr>dx_obj = a\<lparr>a_d_work := b3, a_d_pid_recv := pr, a_errors := es\<rparr>, dx_buf = w2\<rparr>"]
          True ok run s5 s6(1) w2 recv [of b3 "insert (0, unat i) A" pr es] b3(1,2) b(2) s6(3,4)
        by (simp add: s6' dc_return_def bindS_def)
    next
      case bad: False
      show thesis
        using replay [of "s6\<lparr>dx_buf := buf_reset_size b3\<rparr>"]
          True bad run s5 s6(1) w2(2,3) w(3) recv [of w2 A pr es] s6(3,4) reset
        by (simp add: s6' dc_fail_def bindS_def)
    qed
  qed
qed

section \<open>Encryption\<close>

lemma sealed:
  assumes "buf_wf b" and "b_size b = AUTH_TAG_LEN + length ct" and "length tag = AUTH_TAG_LEN"
  obtains b1 b2 where "mem_write (b_off b + AUTH_TAG_LEN) ct b = Inr b1" and "mem_write (b_off b) tag b1 = Inr b2"
    and "b_off b1 = b_off b" and "buf_wf b2" and "b_kind b2 = b_kind b" and "b_off b2 = b_off b"
    and "content b2 = tag @ ct"
proof -
  have len: "b_off b + (AUTH_TAG_LEN + length ct) \<le> length (b_data b)" using assms(1,2) by (simp add: buf_wf_def)
  then obtain b1 where b1: "mem_write (b_off b + AUTH_TAG_LEN) ct b = Inr b1" by (simp add: mem_write_def)
  have "AUTH_TAG_LEN + length ct \<le> b_size b" using assms(2) by simp
  note w1 = mem_write_Inr [OF assms(1) b1 this]
  have "b_off b1 + (0 + length tag) \<le> length (b_data b1)"
    using w1 assms(2,3) by (simp add: buf_wf_def)
  then obtain b2 where b2: "mem_write (b_off b1 + 0) tag b1 = Inr b2" by (simp add: mem_write_def)
  have "0 + length tag \<le> b_size b1" using w1 assms(2,3) by simp
  note w2 = mem_write_Inr [OF conjunct1 [OF w1] b2 this]
  have "length (content b) = AUTH_TAG_LEN + length ct" using assms(1,2) by simp
  then have "content b2 = tag @ ct" using w1 w2 assms(3) by simp
  with that [OF b1] b2 w1 w2 show thesis by simp
qed

lemma nonce_for_encrypt_ok:
  assumes "length (n_data (a_e_nonce (dx_obj s))) = 16" and "s_form (a_e_pid_send (dx_obj s)) \<noteq> LONG_FORM"
    and "unat (p_id (s_pid (a_e_pid_send (dx_obj s)))) + 1 < 2 ^ 32"
  obtains ps where "nonce_for_encrypt now op32 s
      = (Inr (packet_nonce op32 (p_id (s_pid (a_e_pid_send (dx_obj s))) + 1) (a_e_nonce (dx_obj s))),
         on_obj (\<lambda>a. a\<lparr>a_e_pid_send := ps\<rparr>) s)"
    and "p_id (s_pid ps) = p_id (s_pid (a_e_pid_send (dx_obj s))) + 1" and "s_form ps = s_form (a_e_pid_send (dx_obj s))"
proof -
  let ?ps = "a_e_pid_send (dx_obj s)" and ?d = "slice 4 4 (n_data (a_e_nonce (dx_obj s)))"
  let ?b = "buf_of_array ?d False"
  obtain p where p: "pids_next now ?ps = (Inr p, ?ps\<lparr>s_pid := p\<rparr>)" "unat (p_id p) = unat (p_id (s_pid ?ps)) + 1"
    using pids_next_ok [OF assms(3)] by blast
  have i: "p_id p = p_id (s_pid ?ps) + 1"
    using p(2) assms(3) by (intro word_unat_eq_iff [THEN iffD2]) (simp add: unat_word_ariths)
  have len: "length ?d = 4" using assms(1) by simp
  then have wf: "buf_wf ?b" by (simp add: buf_wf_of_array)
  obtain w where w: "buf_write (be32 (p_id p)) ?b = Inr w" "b_cap w = 4"
    using buf_write_fits [OF wf, of "be32 (p_id p)"] len by (auto simp: buf_of_array_def)
  have "content w = be32 (p_id p)" "buf_wf w" "b_off w = 0" "b_size w = 4"
    using buf_write_ok [OF wf w(1)] by (simp_all add: content_of_array buf_of_array_def)
  then have data: "b_data w = be32 (p_id p)" using w(2) by (simp add: content_def buf_wf_def slice_def)
  have "pids_write_next False now ?b ?ps = (Inr w, ?ps\<lparr>s_pid := p\<rparr>)"
    using p(1) w(1) assms(2) by (simp add: pids_write_next_def pid_write_def Let_def)
  then show thesis
    using that [of "?ps\<lparr>s_pid := p\<rparr>"] i data by (simp add: nonce_for_encrypt_def Let_def packet_nonce_def)
qed

text \<open>The packet of text \<open>x\<close> with ID \<open>i\<close> on the wire.\<close>

definition aead_packet :: "gcm \<Rightarrow> u8 list \<Rightarrow> u8 list option \<Rightarrow> u32 \<Rightarrow> u8 list \<Rightarrow> u8 list" where
  "aead_packet g tail op32 i x =
     (let (ct, tag) = gcm_auth_encrypt g (be32 i @ tail) (case op32 of None \<Rightarrow> be32 i | Some op \<Rightarrow> op @ be32 i) x in
      be32 i @ tag @ ct)"

definition aead_send_ok :: "nat \<Rightarrow> gcm \<Rightarrow> aead \<Rightarrow> bool" where
  "aead_send_ok k g a \<longleftrightarrow> gcm_ok g \<and> length (n_data (a_e_nonce a)) = 16 \<and> s_form (a_e_pid_send a) \<noteq> LONG_FORM
     \<and> (ai_encrypt (a_e_impl a) = mbedtls_encrypt g \<or> ai_encrypt (a_e_impl a) = openssl_encrypt g)
     \<and> ctx_ok k (a_frame a ! ENCRYPT_WORK) \<and> buf_wf (a_e_work a) \<and> b_kind (a_e_work a) \<noteq> Plain"

text \<open>There is room for the tag and the ID in front: in the packet's buffer or in the work buffer.\<close>

definition aead_room :: "aead \<Rightarrow> buffer \<Rightarrow> bool" where
  "aead_room a b \<longleftrightarrow>
     (if a_in_place a then AUTH_TAG_LEN + 4 \<le> b_off b
      else AUTH_TAG_LEN + 4 \<le> f_headroom (a_frame a ! ENCRYPT_WORK) \<and> b_size b \<le> f_payload (a_frame a ! ENCRYPT_WORK))"

lemma aead_encrypt_ok:
  assumes a: "aead_send_ok k g a" and b: "buf_wf b" "content b \<noteq> []" and room: "aead_room a b"
    and op: "op32_ok op32" and ids: "unat (p_id (s_pid (a_e_pid_send a))) + 1 < 2 ^ 32"
  obtains w t where "aead_encrypt now op32 \<lparr>dx_obj = a, dx_buf = b\<rparr> = (Inr w, t)" and "buf_wf (dx_buf t)"
    and "content (dx_buf t) = aead_packet g (drop 8 (n_data (a_e_nonce a))) op32 (p_id (s_pid (a_e_pid_send a)) + 1) (content b)"
proof -
  let ?i = "p_id (s_pid (a_e_pid_send a)) + 1" and ?x = "content b"
  let ?n = "packet_nonce op32 ?i (a_e_nonce a)"
  have A: "length (n_data (a_e_nonce a)) = 16" "s_form (a_e_pid_send a) \<noteq> LONG_FORM" "gcm_ok g"
    "ai_encrypt (a_e_impl a) iv ad x = Inr (gcm_auth_encrypt g iv ad x)"
    "ctx_ok k (a_frame a ! ENCRYPT_WORK)" "buf_wf (a_e_work a)" "b_kind (a_e_work a) \<noteq> Plain" for iv ad x
    using a by (auto simp: aead_send_ok_def mbedtls_encrypt_def openssl_encrypt_def)
  note nb = packet_nonce_bytes [OF A(1) op, of ?i]
  obtain ct tag where e: "gcm_auth_encrypt g (nonce_iv ?n) (nonce_ad ?n) ?x = (ct, tag)" by fastforce
  have len: "length ct = b_size b" "length tag = AUTH_TAG_LEN"
    using e A(3) b(1) by (auto simp: gcm_auth_encrypt_def gcm_ok_def Let_def gcm_xor_length [OF A(3)])
  obtain ps where s1: "nonce_for_encrypt now op32 \<lparr>dx_obj = a, dx_buf = b\<rparr>
      = (Inr ?n, \<lparr>dx_obj = a\<lparr>a_e_pid_send := ps\<rparr>, dx_buf = b\<rparr>)"
    by (rule nonce_for_encrypt_ok [of "\<lparr>dx_obj = a, dx_buf = b\<rparr>" now op32]) (use A(1,2) ids in \<open>simp_all add: on_obj_def\<close>)
  let ?s1 = "\<lparr>dx_obj = a\<lparr>a_e_pid_send := ps\<rparr>, dx_buf = b\<rparr>"
  have "\<exists>s2. (if a_in_place a then aead_encrypt_in_place ?n else aead_encrypt_work ?n) ?s1 = (Inr (), s2)
    \<and> buf_wf (dx_buf s2) \<and> 4 \<le> b_off (dx_buf s2) \<and> content (dx_buf s2) = tag @ ct"
  proof (cases "a_in_place a")
    case True
    then have h: "20 \<le> b_off b" using room by (simp add: aead_room_def AUTH_TAG_LEN_def)
    define b1 where "b1 = b\<lparr>b_off := b_off b - 16, b_size := 16 + b_size b\<rparr>"
    have b1: "buf_prepend_space AUTH_TAG_LEN b = Inr b1" "buf_wf b1" "b_size b1 = AUTH_TAG_LEN + length ct"
      using b(1) h len(1)
      by (simp_all add: buf_prepend_space_def buf_prepend_alloc_def b1_def AUTH_TAG_LEN_def buf_wf_def add.commute)
    obtain b2 b3 where b3: "mem_write (b_off b1 + AUTH_TAG_LEN) ct b1 = Inr b2" "mem_write (b_off b1) tag b2 = Inr b3"
      "buf_wf b3" "b_off b3 = b_off b1" "content b3 = tag @ ct"
      using sealed [OF b1(2,3) len(2)] by metis
    have "aead_encrypt_in_place ?n ?s1 = (Inr (), ?s1\<lparr>dx_buf := b3\<rparr>)"
      using b1(1) b3 e A(4) by (simp add: aead_encrypt_in_place_def Let_def bindS_def on_dbuf_def)
    then show ?thesis using True b3 h by (simp add: b1_def)
  next
    case False
    then have h: "20 \<le> f_headroom (a_frame a ! ENCRYPT_WORK)" "b_size b \<le> f_payload (a_frame a ! ENCRYPT_WORK)"
      using room by (simp_all add: aead_room_def AUTH_TAG_LEN_def)
    obtain w where w: "frame_prepare ENCRYPT_WORK (a_base a) (a_e_work a) (a_frame a)
        = Inr (f_payload (a_frame a ! ENCRYPT_WORK), w)" "buf_wf w" "b_size w = 0"
      "f_headroom (a_frame a ! ENCRYPT_WORK) \<le> b_off w" "b_off w + f_payload (a_frame a ! ENCRYPT_WORK) \<le> b_cap w"
      using work_with_room [OF A(5) _ A(6,7), of "a_base a"] by (auto simp: ENCRYPT_WORK_def)
    have big: "b_size b \<le> buf_max_size w" using w(2,5) h(2) by (simp add: buf_max_size_eq)
    define w1 where "w1 = w\<lparr>b_off := b_off w - 16, b_size := 16\<rparr>"
    have w1: "buf_prepend_space AUTH_TAG_LEN w = Inr w1" "buf_wf w1" "b_off w1 + b_size w1 = b_off w"
      using w(2,3,4) h(1) by (simp_all add: buf_prepend_space_def buf_prepend_alloc_def w1_def AUTH_TAG_LEN_def buf_wf_def)
    define w2 where "w2 = w1\<lparr>b_size := 16 + b_size b\<rparr>"
    have fit: "b_off w + b_size b \<le> b_cap w1" using w(5) h(2) by (simp add: w1_def)
    have w2: "buf_wf w2" "b_size w2 = AUTH_TAG_LEN + length ct"
      using w1(2,3) fit len(1) by (auto simp: w2_def w1_def buf_wf_def AUTH_TAG_LEN_def)
    have "\<not> b_size b > buf_remaining 0 w1" using w1(2,3) fit by (simp add: buf_remaining_eq)
    moreover have "sz_add (b_size w1) (b_size b) = 16 + b_size b" using b(1) by (simp add: w1_def buf_wf_def)
    ultimately have alloc: "buf_write_alloc (b_size b) w1 = Inr (b_off w2 + AUTH_TAG_LEN, w2)"
      by (simp add: buf_write_alloc_def w2_def AUTH_TAG_LEN_def) (simp add: w1_def)
    obtain w3 w4 where w4: "mem_write (b_off w2 + AUTH_TAG_LEN) ct w2 = Inr w3" "mem_write (b_off w2) tag w3 = Inr w4"
      "b_off w3 = b_off w2" "buf_wf w4" "b_off w4 = b_off w2" "content w4 = tag @ ct"
      using sealed [OF w2 len(2)] by metis
    have "aead_encrypt_work ?n ?s1
        = (Inr (), \<lparr>dx_obj = a\<lparr>a_e_pid_send := ps, a_e_work := b\<rparr>, dx_buf = w4\<rparr>)"
      using w(1) big w1(1) alloc w4 e A(4)
      by (simp add: aead_encrypt_work_def bindS_def on_e_work_def on_obj_def)
    then show ?thesis using False w4 w(4) h(1) by (simp add: w2_def w1_def)
  qed
  then obtain s2 where s2: "(if a_in_place a then aead_encrypt_in_place ?n else aead_encrypt_work ?n) ?s1 = (Inr (), s2)"
    "buf_wf (dx_buf s2)" "4 \<le> b_off (dx_buf s2)" "content (dx_buf s2) = tag @ ct" by blast
  have l4: "length (be32 ?i) \<le> b_off (dx_buf s2)" using s2(3) by simp
  obtain b4 where b4: "buf_prepend (be32 ?i) (dx_buf s2) = Inr b4" "buf_wf b4" "content b4 = be32 ?i @ tag @ ct"
    using buf_prepend_ok [OF s2(2) l4] s2(4) by auto
  have ne: "b_size b \<noteq> 0" using b(2) content_empty [of b] by blast
  have "aead_encrypt now op32 \<lparr>dx_obj = a, dx_buf = b\<rparr>
      = (Inr (pids_wrap_warning (a_e_pid_send (dx_obj s2))), s2\<lparr>dx_buf := b4\<rparr>)"
    using s1 s2(1) b4(1) ne nb(1) by (simp add: aead_encrypt_def bindS_def on_dbuf_def nonce_prepend_ad_def)
  then show thesis using that b4 e nb by (simp add: aead_packet_def)
qed

lemma aead_packet_decrypts:
  assumes c: "aead_recv_ok k A c" and g: "gcm_ok g" and op: "op32_ok op32"
    and impl: "ai_decrypt (a_d_impl c) = mbedtls_decrypt g \<or> ai_decrypt (a_d_impl c) = openssl_decrypt g"
    and tail: "drop 8 (n_data (a_d_nonce c)) = tail" and room: "length x \<le> f_payload (a_frame c ! DECRYPT_WORK)"
    and p: "buf_wf p" "b_kind p \<noteq> Plain" "content p = aead_packet g tail op32 i x"
  shows "if pidr_verdict A (pidr_expire now (a_d_pid_recv c)) \<lparr>p_id = i, p_time = 0\<rparr> = SUCCESS
    then \<exists>t. aead_decrypt now op32 \<lparr>dx_obj = c, dx_buf = p\<rparr> = (Inr Err_SUCCESS, t) \<and> content (dx_buf t) = x
      \<and> aead_recv_ok k (insert (0, unat i) A) (dx_obj t) \<and> a_d_impl (dx_obj t) = a_d_impl c
      \<and> a_d_nonce (dx_obj t) = a_d_nonce c \<and> a_frame (dx_obj t) = a_frame c
    else \<exists>t. aead_decrypt now op32 \<lparr>dx_obj = c, dx_buf = p\<rparr> = (Inr Err_REPLAY_ERROR, t) \<and> content (dx_buf t) = []"
proof -
  let ?iv = "be32 i @ drop 8 (n_data (a_d_nonce c))" and ?ad = "case op32 of None \<Rightarrow> be32 i | Some op \<Rightarrow> op @ be32 i"
  let ?ct = "gcm_xor g ?iv x"
  let ?tag = "g_tag g ?iv ?ad ?ct"
  have pk: "content p = be32 i @ ?tag @ ?ct"
    using p(3) tail by (simp add: aead_packet_def gcm_auth_encrypt_def Let_def)
  have len: "length ?tag = AUTH_TAG_LEN" "length ?ct = length x" "length x = length ?ct"
    using g by (simp_all add: gcm_ok_def gcm_xor_length)
  obtain tag' where "ai_decrypt (a_d_impl c) ?iv ?ad ?tag ?ct = Inr (True, x, tag')" "length tag' = AUTH_TAG_LEN"
    using impl g
    by (auto simp: mbedtls_decrypt_def openssl_decrypt_def gcm_auth_encrypt_def Let_def gcm_xor_twice gcm_ok_def)
  from aead_decrypt_cases [OF c op p(1,2) pk len(1) _ this(1) len(3) this(2), of now] room len(2)
  show ?thesis by (auto split: if_splits)
qed

section \<open>Properties\<close>

text \<open>
  C36. Round trip of the data channel: with either crypto library, a packet encrypted by one end is
  decrypted by the other end, which has the same cipher and nonce tail, to the bytes that went in;
  a second copy of the packet is then refused as a replay and its bytes are dropped.  Neither call
  throws or leaves a buffer.
\<close>

theorem aead_roundtrip:
  assumes a: "aead_send_ok k g a" and b: "buf_wf b" "content b \<noteq> []" and room: "aead_room a b"
    and op: "op32_ok op32" and ids: "unat (p_id (s_pid (a_e_pid_send a))) + 1 < 2 ^ 32"
    and c: "aead_recv_ok k' A c" "ai_decrypt (a_d_impl c) = mbedtls_decrypt g \<or> ai_decrypt (a_d_impl c) = openssl_decrypt g"
      "drop 8 (n_data (a_d_nonce c)) = drop 8 (n_data (a_e_nonce a))" "b_size b \<le> f_payload (a_frame c ! DECRYPT_WORK)"
    and fresh: "pidr_verdict A (pidr_expire t1 (a_d_pid_recv c)) \<lparr>p_id = p_id (s_pid (a_e_pid_send a)) + 1, p_time = 0\<rparr> = SUCCESS"
  shows "\<exists>w s. aead_encrypt t0 op32 \<lparr>dx_obj = a, dx_buf = b\<rparr> = (Inr w, s) \<and> buf_wf (dx_buf s) \<and>
    (\<forall>p. buf_wf p \<and> b_kind p \<noteq> Plain \<and> content p = content (dx_buf s) \<longrightarrow>
      (\<exists>t. aead_decrypt t1 op32 \<lparr>dx_obj = c, dx_buf = p\<rparr> = (Inr Err_SUCCESS, t) \<and> content (dx_buf t) = content b
        \<and> (\<forall>q t2. buf_wf q \<and> b_kind q \<noteq> Plain \<and> content q = content (dx_buf s) \<longrightarrow>
            (\<exists>u. aead_decrypt t2 op32 \<lparr>dx_obj = dx_obj t, dx_buf = q\<rparr> = (Inr Err_REPLAY_ERROR, u) \<and> content (dx_buf u) = []))))"
proof -
  let ?i = "p_id (s_pid (a_e_pid_send a)) + 1" and ?tail = "drop 8 (n_data (a_e_nonce a))"
  have g: "gcm_ok g" using a by (simp add: aead_send_ok_def)
  obtain w s where s: "aead_encrypt t0 op32 \<lparr>dx_obj = a, dx_buf = b\<rparr> = (Inr w, s)" "buf_wf (dx_buf s)"
    and pk: "content (dx_buf s) = aead_packet g ?tail op32 ?i (content b)"
    using aead_encrypt_ok [OF a b room op ids] by metis
  have len: "length (content b) = b_size b" using b(1) by simp
  show ?thesis
  proof (rule exI [of _ w], rule exI [of _ s], intro conjI allI impI)
    show "buf_wf (dx_buf s)" by (rule s(2))
    show "aead_encrypt t0 op32 \<lparr>dx_obj = a, dx_buf = b\<rparr> = (Inr w, s)" by (rule s(1))
    fix p assume p: "buf_wf p \<and> b_kind p \<noteq> Plain \<and> content p = content (dx_buf s)"
    obtain t where t: "aead_decrypt t1 op32 \<lparr>dx_obj = c, dx_buf = p\<rparr> = (Inr Err_SUCCESS, t)"
      "content (dx_buf t) = content b" "aead_recv_ok k' (insert (0, unat ?i) A) (dx_obj t)"
      and same: "a_d_impl (dx_obj t) = a_d_impl c" "a_d_nonce (dx_obj t) = a_d_nonce c" "a_frame (dx_obj t) = a_frame c"
      using aead_packet_decrypts [OF c(1) g op c(2,3), of "content b" p ?i t1] p pk len c(4) fresh by auto
    have "pidr_inv (insert (0, unat ?i) A) (a_d_pid_recv (dx_obj t))" using t(3) by (simp add: aead_recv_ok_def)
    from pidr_verdict_fresh [OF this, of _ "\<lparr>p_id = ?i, p_time = 0\<rparr>"]
    have "pidr_verdict (insert (0, unat ?i) A) (pidr_expire t2 (a_d_pid_recv (dx_obj t))) \<lparr>p_id = ?i, p_time = 0\<rparr>
        \<noteq> SUCCESS" for t2 by auto
    then have "\<exists>u. aead_decrypt t2 op32 \<lparr>dx_obj = dx_obj t, dx_buf = q\<rparr> = (Inr Err_REPLAY_ERROR, u)
        \<and> content (dx_buf u) = []"
      if "buf_wf q \<and> b_kind q \<noteq> Plain \<and> content q = content (dx_buf s)" for q t2
      using aead_packet_decrypts [OF t(3) g op, of ?tail "content b" q ?i t2] that pk len c(2-4) same by auto
    with t(1,2) show "\<exists>t. aead_decrypt t1 op32 \<lparr>dx_obj = c, dx_buf = p\<rparr> = (Inr Err_SUCCESS, t)
        \<and> content (dx_buf t) = content b
        \<and> (\<forall>q t2. buf_wf q \<and> b_kind q \<noteq> Plain \<and> content q = content (dx_buf s) \<longrightarrow>
            (\<exists>u. aead_decrypt t2 op32 \<lparr>dx_obj = dx_obj t, dx_buf = q\<rparr> = (Inr Err_REPLAY_ERROR, u)
              \<and> content (dx_buf u) = []))"
      by blast
  qed
qed

definition demo_gcm :: gcm where
  "demo_gcm = \<lparr>g_stream = \<lambda>iv n. replicate n 0x55, g_tag = \<lambda>iv ad ct. replicate 16 (of_nat (length ct))\<rparr>"

definition demo_dc_frame :: frame where
  "demo_dc_frame = frame_set_default_context (ctx_make 64 256 32 0 16 0)"

definition demo_aead :: "aead_impl \<Rightarrow> aead" where
  "demo_aead impl =
     \<lparr>a_in_place = False, a_frame = demo_dc_frame, a_base = 0, a_e_impl = impl,
      a_e_nonce = \<lparr>n_ad_op32 = False, n_data = replicate 16 7\<rparr>, a_e_pid_send = pids_init SHORT_FORM,
      a_e_work = alloc_default, a_d_impl = impl, a_d_nonce = \<lparr>n_ad_op32 = False, n_data = replicate 16 7\<rparr>,
      a_d_pid_recv = pidr_init 0 SHORT_FORM [] 0, a_d_work = alloc_default, a_errors = []\<rparr>"

definition demo_dc_buf :: "u8 list \<Rightarrow> buffer" where
  "demo_dc_buf x = \<lparr>b_data = x, b_off = 0, b_size = length x, b_cap = length x, b_kind = Allocated 0\<rparr>"

lemma demo_dc_buf_ok: "length x < MAX_OBJECT \<Longrightarrow> buf_wf (demo_dc_buf x)" "b_kind (demo_dc_buf x) \<noteq> Plain"
  "content (demo_dc_buf x) = x" "b_size (demo_dc_buf x) = length x"
  by (simp_all add: demo_dc_buf_def buf_wf_def content_def slice_def)

lemma demo_frame_ctx: "i < 16 \<Longrightarrow> demo_dc_frame ! i = ctx_make 64 256 32 0 16 0"
  by (simp add: demo_dc_frame_def frame_set_default_context_def N_ALIGN_CONTEXTS_def)

lemma demo_ctx: "ctx_ok 4 (ctx_make 64 256 32 0 16 0)" "f_headroom (ctx_make 64 256 32 0 16 0) = 64"
  "f_payload (ctx_make 64 256 32 0 16 0) = 256"
  by (simp_all add: ctx_make_def ctx_recalc_derived_def ctx_ok_def)

lemma demo_gcm_ok: "gcm_ok demo_gcm"
  by (simp add: gcm_ok_def demo_gcm_def AUTH_TAG_LEN_def)

lemma alloc_default_kind: "b_kind alloc_default \<noteq> Plain"
  by (simp add: alloc_default_def)

lemma demo_recv_ok: "aead_recv_ok 4 {} (demo_aead impl)"
  using demo_ctx(1) by (simp add: aead_recv_ok_def demo_aead_def demo_frame_ctx DECRYPT_WORK_def pidr_init_def
      SHORT_FORM_def LONG_FORM_def alloc_default_kind pidr_inv_def REPLAY_WINDOW_BYTES_def)

lemma demo_send_ok: "aead_send_ok 4 demo_gcm (demo_aead \<lparr>ai_encrypt = mbedtls_encrypt demo_gcm, ai_decrypt = d\<rparr>)"
  using demo_ctx(1) demo_gcm_ok by (simp add: aead_send_ok_def demo_aead_def demo_frame_ctx ENCRYPT_WORK_def pids_init_def
      SHORT_FORM_def LONG_FORM_def alloc_default_kind)

lemma demo_fresh_id: "pidr_verdict {} (pidr_expire t (pidr_init 0 SHORT_FORM [] 0)) \<lparr>p_id = 1, p_time = 0\<rparr> = SUCCESS"
  by (simp add: pidr_verdict_def pidr_expire_def pidr_init_def Let_def)

theorem aead_roundtrip_witness:
  "\<exists>w s t. aead_encrypt 5 None \<lparr>dx_obj = demo_aead \<lparr>ai_encrypt = mbedtls_encrypt demo_gcm,
        ai_decrypt = mbedtls_decrypt demo_gcm\<rparr>, dx_buf = demo_dc_buf [1, 2, 3]\<rparr> = (Inr w, s)
    \<and> aead_decrypt 9 None \<lparr>dx_obj = demo_aead \<lparr>ai_encrypt = openssl_encrypt demo_gcm,
        ai_decrypt = openssl_decrypt demo_gcm\<rparr>, dx_buf = demo_dc_buf (content (dx_buf s))\<rparr> = (Inr Err_SUCCESS, t)
    \<and> content (dx_buf t) = [1, 2, 3]"
proof -
  let ?a = "demo_aead \<lparr>ai_encrypt = mbedtls_encrypt demo_gcm, ai_decrypt = mbedtls_decrypt demo_gcm\<rparr>"
  let ?c = "demo_aead \<lparr>ai_encrypt = openssl_encrypt demo_gcm, ai_decrypt = openssl_decrypt demo_gcm\<rparr>"
  have len: "length [1, 2, 3 :: u8] < MAX_OBJECT" by simp
  note b = demo_dc_buf_ok [of "[1, 2, 3]"]
  have ne: "content (demo_dc_buf [1, 2, 3]) \<noteq> []" by (simp add: b(3))
  have room: "aead_room ?a (demo_dc_buf [1, 2, 3])"
    by (simp add: aead_room_def demo_aead_def demo_frame_ctx demo_ctx ENCRYPT_WORK_def AUTH_TAG_LEN_def b(4))
  have op: "op32_ok None" by (simp add: op32_ok_def)
  have ids: "unat (p_id (s_pid (a_e_pid_send ?a))) + 1 < 2 ^ 32" by (simp add: demo_aead_def pids_init_def)
  have d: "ai_decrypt (a_d_impl ?c) = mbedtls_decrypt demo_gcm \<or> ai_decrypt (a_d_impl ?c) = openssl_decrypt demo_gcm"
    by (simp add: demo_aead_def)
  have tail: "drop 8 (n_data (a_d_nonce ?c)) = drop 8 (n_data (a_e_nonce ?a))" by (simp add: demo_aead_def)
  have room': "b_size (demo_dc_buf [1, 2, 3]) \<le> f_payload (a_frame ?c ! DECRYPT_WORK)"
    by (simp add: demo_aead_def demo_frame_ctx demo_ctx DECRYPT_WORK_def b(4))
  have fresh: "pidr_verdict {} (pidr_expire 9 (a_d_pid_recv ?c)) \<lparr>p_id = p_id (s_pid (a_e_pid_send ?a)) + 1, p_time = 0\<rparr>
      = SUCCESS"
    using demo_fresh_id by (simp add: demo_aead_def pids_init_def)
  obtain w s where s: "aead_encrypt 5 None \<lparr>dx_obj = ?a, dx_buf = demo_dc_buf [1, 2, 3]\<rparr> = (Inr w, s)" "buf_wf (dx_buf s)"
    and r: "\<And>p. buf_wf p \<Longrightarrow> b_kind p \<noteq> Plain \<Longrightarrow> content p = content (dx_buf s) \<Longrightarrow>
      \<exists>t. aead_decrypt 9 None \<lparr>dx_obj = ?c, dx_buf = p\<rparr> = (Inr Err_SUCCESS, t)
        \<and> content (dx_buf t) = content (demo_dc_buf [1, 2, 3])"
    using aead_roundtrip [OF demo_send_ok b(1) [OF len] ne room op ids demo_recv_ok d tail room' fresh, of 5] by blast
  have "length (content (dx_buf s)) = b_size (dx_buf s)" "b_size (dx_buf s) < MAX_OBJECT"
    using s(2) by (simp_all add: buf_wf_def content_def)
  then have "buf_wf (demo_dc_buf (content (dx_buf s)))" by (intro demo_dc_buf_ok(1)) simp
  from r [OF this demo_dc_buf_ok(2,3)] s(1) b(3) show ?thesis by auto
qed

text \<open>
  C37. Authentication: with OpenSSL's context a packet whose tag is not the one of its text is
  refused, its bytes are dropped and the replay window is unchanged.  With mbedTLS's context, which
  calls the encryption of the library instead of the decryption, any tag is accepted: whoever can
  send to the port can inject data packets with a fresh ID.
\<close>

theorem aead_tag_checked_only_by_openssl:
  assumes c: "aead_recv_ok k A c" and g: "gcm_ok g" and op: "op32_ok op32"
    and p: "buf_wf p" "b_kind p \<noteq> Plain" "content p = be32 i @ tag @ ct" "length tag = AUTH_TAG_LEN"
    and room: "length ct \<le> f_payload (a_frame c ! DECRYPT_WORK)"
    and fresh: "pidr_verdict A (pidr_expire now (a_d_pid_recv c)) \<lparr>p_id = i, p_time = 0\<rparr> = SUCCESS"
    and iv: "iv = be32 i @ drop 8 (n_data (a_d_nonce c))"
    and bad: "tag \<noteq> g_tag g iv (case op32 of None \<Rightarrow> be32 i | Some op \<Rightarrow> op @ be32 i) ct"
  shows "(ai_decrypt (a_d_impl c) = openssl_decrypt g \<longrightarrow>
      (\<exists>t. aead_decrypt now op32 \<lparr>dx_obj = c, dx_buf = p\<rparr> = (Inr Err_DECRYPT_ERROR, t)
        \<and> content (dx_buf t) = [] \<and> a_d_pid_recv (dx_obj t) = a_d_pid_recv c))
    \<and> (ai_decrypt (a_d_impl c) = mbedtls_decrypt g \<longrightarrow>
      (\<exists>t. aead_decrypt now op32 \<lparr>dx_obj = c, dx_buf = p\<rparr> = (Inr Err_SUCCESS, t)
        \<and> content (dx_buf t) = gcm_xor g iv ct))"
proof -
  let ?ad = "case op32 of None \<Rightarrow> be32 i | Some op \<Rightarrow> op @ be32 i"
  let ?out = "gcm_xor g iv ct"
  have len: "length ?out = length ct" "length (g_tag g iv ?ad ?out) = AUTH_TAG_LEN"
    using g by (simp_all add: gcm_xor_length gcm_ok_def)
  have "\<exists>t. aead_decrypt now op32 \<lparr>dx_obj = c, dx_buf = p\<rparr> = (Inr Err_DECRYPT_ERROR, t)
        \<and> content (dx_buf t) = [] \<and> a_d_pid_recv (dx_obj t) = a_d_pid_recv c"
    if "ai_decrypt (a_d_impl c) = openssl_decrypt g"
  proof -
    have "ai_decrypt (a_d_impl c) (be32 i @ drop 8 (n_data (a_d_nonce c))) ?ad tag ct = Inr (False, ?out, tag)"
      using that bad iv by (simp add: openssl_decrypt_def)
    from aead_decrypt_cases [OF c op p room this len(1) p(4), of now] show ?thesis by metis
  qed
  moreover have "\<exists>t. aead_decrypt now op32 \<lparr>dx_obj = c, dx_buf = p\<rparr> = (Inr Err_SUCCESS, t)
        \<and> content (dx_buf t) = ?out"
    if "ai_decrypt (a_d_impl c) = mbedtls_decrypt g"
  proof -
    have "ai_decrypt (a_d_impl c) (be32 i @ drop 8 (n_data (a_d_nonce c))) ?ad tag ct = Inr (True, ?out, g_tag g iv ?ad ?out)"
      using that iv by (simp add: mbedtls_decrypt_def gcm_auth_encrypt_def Let_def)
    from aead_decrypt_cases [OF c op p room this len, of now] show ?thesis using fresh by metis
  qed
  ultimately show ?thesis by blast
qed

theorem aead_tag_checked_only_by_openssl_witness:
  "\<exists>t. aead_decrypt 9 None \<lparr>dx_obj = demo_aead \<lparr>ai_encrypt = mbedtls_encrypt demo_gcm,
        ai_decrypt = mbedtls_decrypt demo_gcm\<rparr>, dx_buf = demo_dc_buf (be32 1 @ replicate 16 0 @ [0x54])\<rparr> = (Inr Err_SUCCESS, t)
    \<and> content (dx_buf t) = [1]"
proof -
  let ?c = "demo_aead \<lparr>ai_encrypt = mbedtls_encrypt demo_gcm, ai_decrypt = mbedtls_decrypt demo_gcm\<rparr>"
  let ?p = "demo_dc_buf (be32 1 @ replicate 16 0 @ [0x54])"
  have len: "length (be32 1 @ replicate 16 0 @ [0x54 :: u8]) < MAX_OBJECT" by simp
  have op: "op32_ok None" by (simp add: op32_ok_def)
  have tl: "length (replicate 16 (0 :: u8)) = AUTH_TAG_LEN" by (simp add: AUTH_TAG_LEN_def)
  have room: "length [0x54 :: u8] \<le> f_payload (a_frame ?c ! DECRYPT_WORK)"
    by (simp add: demo_aead_def demo_frame_ctx DECRYPT_WORK_def demo_ctx)
  have fresh: "pidr_verdict {} (pidr_expire 9 (a_d_pid_recv ?c)) \<lparr>p_id = 1, p_time = 0\<rparr> = SUCCESS"
    using demo_fresh_id by (simp add: demo_aead_def)
  have bad: "replicate 16 0 \<noteq> g_tag demo_gcm (be32 1 @ drop 8 (n_data (a_d_nonce ?c)))
      (case None of None \<Rightarrow> be32 1 | Some op \<Rightarrow> op @ be32 1) [0x54]"
    by (simp add: demo_gcm_def)
  have out: "gcm_xor demo_gcm iv [0x54] = [1]" for iv by (simp add: gcm_xor_def demo_gcm_def)
  show ?thesis
    using aead_tag_checked_only_by_openssl [OF demo_recv_ok demo_gcm_ok op demo_dc_buf_ok(1) [OF len] demo_dc_buf_ok(2,3)
        tl room fresh refl bad] out
    by (simp add: demo_aead_def)
qed

end
