(* ===== verification/KeyAuth.thy ===== *)
theory KeyAuth
  imports CtlProps
begin

text \<open>
  The authentication messages of the key exchange and the callbacks through which the protocol stack
  drives \<open>KeyContext\<close> (\<open>ssl/proto.hpp\<close>): \<open>raw_recv\<close>, \<open>app_recv\<close>, \<open>net_send\<close>.
\<close>

section \<open>Constants\<close>

definition APP_MSG_MAX :: nat where "APP_MSG_MAX = 65536"
definition WRITE_SSL_INIT :: nat where "WRITE_SSL_INIT = 10"
definition WRITE_SSL_CLEARTEXT :: nat where "WRITE_SSL_CLEARTEXT = 11"

definition auth_prefix :: "u8 list" where "auth_prefix = [0, 0, 0, 0, 2]"

text \<open>The states are numbers: those that wait for an acknowledgement come first.\<close>

definition STATE_UNDEF :: int where "STATE_UNDEF = -1"
definition C_WAIT_RESET_ACK :: int where "C_WAIT_RESET_ACK = 0"
definition C_WAIT_AUTH_ACK :: int where "C_WAIT_AUTH_ACK = 1"
definition S_WAIT_RESET_ACK :: int where "S_WAIT_RESET_ACK = 2"
definition S_WAIT_AUTH_ACK :: int where "S_WAIT_AUTH_ACK = 3"
definition LAST_ACK_STATE :: int where "LAST_ACK_STATE = 3"
definition C_INITIAL :: int where "C_INITIAL = 4"
definition C_WAIT_RESET :: int where "C_WAIT_RESET = 5"
definition C_WAIT_AUTH :: int where "C_WAIT_AUTH = 6"
definition S_INITIAL :: int where "S_INITIAL = 7"
definition S_WAIT_RESET :: int where "S_WAIT_RESET = 8"
definition S_WAIT_AUTH :: int where "S_WAIT_AUTH = 9"
definition ACTIVE :: int where "ACTIVE = 10"

lemmas state_defs = STATE_UNDEF_def C_WAIT_RESET_ACK_def C_WAIT_AUTH_ACK_def S_WAIT_RESET_ACK_def
  S_WAIT_AUTH_ACK_def LAST_ACK_STATE_def C_INITIAL_def C_WAIT_RESET_def C_WAIT_AUTH_def S_INITIAL_def
  S_WAIT_RESET_def S_WAIT_AUTH_def ACTIVE_def

section \<open>Strings in messages\<close>

definition write_string_length :: "nat \<Rightarrow> buffer \<Rightarrow> buffer res" where
  "write_string_length sz b =
     (if sz > 0xFFFF then Inl (proto_error ''auth_string_overflow'') else buf_write (be16 (of_nat sz)) b)"

definition read_string_length :: "buffer \<Rightarrow> (nat \<times> buffer) res" where
  "read_string_length b =
     (if b_size b \<noteq> 0 then bindE (buf_read 2 b) (\<lambda>(d, b). Inr (unat (of_be16 d), b)) else Inr (0, b))"

definition write_auth_string :: "u8 list \<Rightarrow> buffer \<Rightarrow> buffer res" where
  "write_auth_string str b =
     (let len = length str in
      if len \<noteq> 0 then
        bindE (write_string_length (len + 1) b) (\<lambda>b.
        bindE (buf_write str b) buf_null_terminate)
      else write_string_length 0 b)"

definition read_auth_string :: "buffer \<Rightarrow> (u8 list \<times> buffer) res" where
  "read_auth_string b =
     bindE (read_string_length b) (\<lambda>(len, b).
       if len \<noteq> 0 then
         bindE (buf_read len b) (\<lambda>(d, b). Inr (if len > 1 then take (len - 1) d else [], b))
       else Inr ([], b))"

definition write_control_string :: "u8 list \<Rightarrow> buffer \<Rightarrow> buffer res" where
  "write_control_string str b = bindE (buf_write str b) buf_null_terminate"

definition read_control_string :: "buffer \<Rightarrow> u8 list res" where
  "read_control_string b =
     (let sz = b_size b in
      if sz \<noteq> 0 then
        bindE (buf_index (sz - 1) b) (\<lambda>v.
          let sz = (if v = 0 then sz - 1 else sz) in Inr (if sz \<noteq> 0 then take sz (content b) else []))
      else Inr [])"

definition skip_string_in :: "buffer \<Rightarrow> (nat \<times> buffer) res" where
  "skip_string_in b = bindE (read_string_length b) (\<lambda>(len, b). buf_read_alloc len b)"

definition write_empty_string :: "buffer \<Rightarrow> buffer res" where
  "write_empty_string = write_string_length 0"

section \<open>Small operations of KeyContext\<close>

definition set_state :: "int \<Rightarrow> 's kst \<Rightarrow> 's kst" where
  "set_state newstate = on_kx (\<lambda>x. x\<lparr>kx_state := newstate\<rparr>)"

definition set_dirty :: "bool \<Rightarrow> 's kst \<Rightarrow> 's kst" where
  "set_dirty d = on_kx (\<lambda>x. x\<lparr>kx_dirty := d\<rparr>)"

definition initial_op :: "bool \<Rightarrow> bool \<Rightarrow> 's kst \<Rightarrow> u32" where
  "initial_op sender tls_crypt_v2 k =
     (if kx_key_id (kx_of k) \<noteq> 0 then CONTROL_SOFT_RESET_V1
      else if pc_server (pc_of k) = sender then CONTROL_HARD_RESET_SERVER_V2
      else if \<not> tls_crypt_v2 then CONTROL_HARD_RESET_CLIENT_V2
      else CONTROL_HARD_RESET_CLIENT_V3)"

definition send_reset :: "(unit, 's kst) st" where
  "send_reset k =
     (let pc = pc_of k;
          pkt = packet_new\<lparr>pk_opcode := initial_op True (pc_wrap_mode pc = TLS_CRYPT_V2) k\<rparr> in
      bindR (packet_frame_prepare (pc_base pc) (pc_frame pc) WRITE_SSL_INIT pkt) (\<lambda>pkt k.
        ret () (ks_raw_send pkt k)) k)"

definition raw_recv :: "packet \<Rightarrow> (unit, 's kst) st" where
  "raw_recv raw_pkt k =
     (case pk_buf raw_pkt of
        None \<Rightarrow> (Inl undefined_behaviour, k)
      | Some b \<Rightarrow>
          if buf_empty b \<and> pk_opcode raw_pkt = initial_op False (pc_wrap_mode (pc_of k) = TLS_CRYPT_V2) k then
            (if kx_state (kx_of k) = C_WAIT_RESET then ret () (set_state C_WAIT_RESET_ACK k)
             else if kx_state (kx_of k) = S_WAIT_RESET then
               bindS send_reset (\<lambda>_ k. ret () (set_state S_WAIT_RESET_ACK k)) k
             else ret () k)
          else ret () k)"

definition app_send_validate :: "buffer \<Rightarrow> (unit, 's kst) st" where
  "app_send_validate b k =
     (if b_size b > APP_MSG_MAX then (Inl (proto_error ''app_send: sent control message is too large''), k)
      else ret () (ks_app_send b k))"

text \<open>\<open>retransmit packets on UDP only\<close>: the test is for reliable transports.\<close>

definition kc_net_send :: "packet \<Rightarrow> net_send_type \<Rightarrow> (unit, user) st" where
  "kc_net_send p nstype u =
     (if \<not> kx_is_reliable (u_kx u) \<or> nstype \<noteq> NET_SEND_RETRANSMIT then
        (case pk_buf p of
           None \<Rightarrow> (Inl undefined_behaviour, u)
         | Some b \<Rightarrow> (Inr (), u\<lparr>u_pc := (u_pc u)\<lparr>pc_net_sent := pc_net_sent (u_pc u) @ [b]\<rparr>\<rparr>))
      else (Inr (), u))"

section \<open>The authentication message\<close>

text \<open>The message: prefix, random material, options; from a client also credentials and peer info.\<close>

definition auth_message :: "proto \<Rightarrow> tlsprf \<Rightarrow> buffer \<Rightarrow> buffer res" where
  "auth_message pc t b =
     bindE (tp_write t b) (\<lambda>b.
     bindE (write_auth_string (cf_options_string (pc_cfg pc)) b) (\<lambda>b.
       if \<not> pc_server pc then
         bindE (Inr (alloc_or_flags DESTRUCT_ZERO b)) (\<lambda>b.
         bindE (if cf_xmit_creds (pc_cfg pc) then pc_client_auth pc b
                else bindE (write_empty_string b) write_empty_string) (\<lambda>b.
         write_auth_string (cf_peer_info (pc_cfg pc)) b))
       else Inr b))"

definition send_auth :: "(unit, 's kst) st" where
  "send_auth k =
     (let pc = pc_of k in
      bindR (bindE (frame_prepare WRITE_SSL_CLEARTEXT (pc_base pc) alloc_default (pc_frame pc))
              (\<lambda>(_, b). buf_write auth_prefix b)) (\<lambda>b k.
        let (t, n) = tp_randomize (pc_rng pc) (pc_rng_calls pc) (kx_prf_self (kx_of k));
            k = on_kx (\<lambda>x. x\<lparr>kx_prf_self := t\<rparr>) (on_pc (\<lambda>pc. pc\<lparr>pc_rng_calls := n\<rparr>) k) in
        bindR (auth_message pc t b) (\<lambda>b.
          bindS (app_send_validate b) (\<lambda>_ k. ret () (set_dirty True k))) k) k)"

definition server_auth :: "u8 list \<Rightarrow> u8 list \<Rightarrow> u8 list \<Rightarrow> (unit, 's kst) st" where
  "server_auth username password peer_info k =
     (pc_server_auth (pc_of k) username password peer_info,
      on_pc (\<lambda>pc. pc\<lparr>pc_auths := pc_auths pc @ [(username, password, peer_info)]\<rparr>) k)"

definition recv_creds :: "buffer \<Rightarrow> (u8 list \<times> u8 list \<times> u8 list) res" where
  "recv_creds b =
     bindE (read_auth_string b) (\<lambda>(username, b).
     bindE (read_auth_string b) (\<lambda>(password, b).
     bindE (read_auth_string b) (\<lambda>(peer_info, b). Inr (username, password, peer_info))))"

definition recv_auth :: "buffer \<Rightarrow> (unit, 's kst) st" where
  "recv_auth b =
     bindR (buf_read (length auth_prefix) b) (\<lambda>(pre, b) k.
       if pre \<noteq> auth_prefix then (Inl (proto_error ''bad_auth_prefix''), k)
       else
         (case tp_read (b, kx_prf_peer (kx_of k)) of (r, (b, t)) \<Rightarrow>
            bindR r (\<lambda>_. bindR (read_auth_string b) (\<lambda>(options, b) k.
              if pc_server (pc_of k) then
                bindR (recv_creds b) (\<lambda>(username, password, peer_info). server_auth username password peer_info) k
              else ret () k)) (on_kx (\<lambda>x. x\<lparr>kx_prf_peer := t\<rparr>) k)))"

definition and_then :: "bool \<times> complete \<Rightarrow> (complete \<Rightarrow> bool \<times> complete) \<Rightarrow> bool \<times> complete" where
  "and_then x f = (if \<not> fst x then x else f (snd x))"

definition recv_auth_complete :: "bool \<Rightarrow> tlsprf \<Rightarrow> complete \<Rightarrow> bool \<times> complete" where
  "recv_auth_complete server peer c =
     and_then (and_then (and_then (cm_advance (length auth_prefix) c) (tp_read_complete peer)) cm_advance_string) (\<lambda>c.
       if server then and_then (and_then (cm_advance_string c) cm_advance_string) cm_advance_string else (True, c))"

section \<open>app\_recv\<close>

text \<open>\<open>bcc.get()\<close>: the buffers joined, and none left.\<close>

definition take_message :: "(buffer, 's kst) st" where
  "take_message k =
     bindR (bc_get (kx_app_recv_buf (kx_of k))) (\<lambda>(b, bv) k.
       ret b (on_kx (\<lambda>x. x\<lparr>kx_app_recv_buf := bv\<rparr>) k)) k"

definition app_recv :: "buffer \<Rightarrow> (unit, 's kst) st" where
  "app_recv b k =
     (let k = on_kx (\<lambda>x. x\<lparr>kx_app_recv_buf := bc_put b (kx_app_recv_buf x)\<rparr>) k;
          x = kx_of k; bv = kx_app_recv_buf x in
      if bl_join_size bv > APP_MSG_MAX
      then (Inl (proto_error ''app_recv: received control message is too large''), k)
      else
        let bcc = bc_complete bv; st = kx_state x;
            auth = fst (recv_auth_complete (pc_server (pc_of k)) (kx_prf_peer x) bcc) in
        if st = C_WAIT_AUTH then
          (if auth then bindS take_message (\<lambda>m. bindS (recv_auth m) (\<lambda>_ k.
             ret () (set_state C_WAIT_AUTH_ACK k))) k
           else ret () k)
        else if st = S_WAIT_AUTH then
          (if auth then bindS take_message (\<lambda>m. bindS (recv_auth m) (\<lambda>_. bindS send_auth (\<lambda>_ k.
             ret () (set_state S_WAIT_AUTH_ACK k)))) k
           else ret () k)
        else if st = S_WAIT_AUTH_ACK \<or> st = ACTIVE then
          (if fst (cm_advance_to_null bcc) then bindS take_message (\<lambda>m k.
             ret () (on_pc (\<lambda>pc. pc\<lparr>pc_control_recv := pc_control_recv pc @ [m]\<rparr>) k)) k
           else ret () k)
        else ret () k)"

text \<open>The stack with all the methods of \<open>KeyContext\<close>: what is left of \<open>E\<close> is the TLS session.\<close>

definition kctx_env :: "nat \<Rightarrow> (packet, 's, user) stack_env \<Rightarrow> (packet, 's, user) stack_env" where
  "kctx_env base E = (kc_env base E)\<lparr>d_app_recv := app_recv, d_raw_recv := raw_recv, d_net_send := kc_net_send\<rparr>"

end
