(* ===== verification/AuthProps.thy ===== *)
theory AuthProps
  imports KeyAuth CtlRound
begin

text \<open>
  The exchange of authentication messages: however a message is cut into buffers, the other end
  recognises it with the last one and reads from it what was put in; after both messages the two
  ends derive the same data channel keys.
\<close>

section \<open>Writers\<close>

text \<open>A writer that appends \<open>d\<close> whenever it fits.\<close>

definition appends :: "(buffer \<Rightarrow> buffer res) \<Rightarrow> u8 list \<Rightarrow> bool" where
  "appends f d \<longleftrightarrow> (\<forall>b. buf_wf b \<and> b_off b + b_size b + length d \<le> b_cap b \<longrightarrow>
     (\<exists>b'. f b = Inr b' \<and> buf_wf b' \<and> content b' = content b @ d \<and> b_off b' = b_off b
        \<and> b_size b' = b_size b + length d \<and> b_cap b' = b_cap b))"

lemma appends_write: "length d < MAX_OBJECT \<Longrightarrow> appends (buf_write d) d"
  unfolding appends_def using buf_write_fits buf_write_ok by metis

lemma appends_bind: "appends f d \<Longrightarrow> appends g e \<Longrightarrow> appends (\<lambda>b. bindE (f b) g) (d @ e)"
  unfolding appends_def by (fastforce simp: add.assoc)

lemma appends_same: "appends f d \<Longrightarrow> (\<And>b. f b = g b) \<Longrightarrow> appends g d"
  by (simp add: appends_def)

lemma appends_nothing: "appends Inr []"
  by (simp add: appends_def)

text \<open>The encoding of a string; its last byte is not a null, which would not be written again.\<close>

definition str_ok :: "u8 list \<Rightarrow> bool" where
  "str_ok s \<longleftrightarrow> length s < 65535 \<and> (s \<noteq> [] \<longrightarrow> last s \<noteq> 0)"

definition str_enc :: "u8 list \<Rightarrow> u8 list" where
  "str_enc s = (if s = [] then be16 0 else be16 (of_nat (length s + 1)) @ s @ [0])"

lemma null_terminate_eq:
  assumes "buf_wf b" and "content b = x @ s" and "s \<noteq> []" and "last s \<noteq> 0"
  shows "buf_null_terminate b = buf_write [0] b"
proof -
  have sz: "b_size b > 0" using length_content [OF assms(1)] assms(2,3) by (cases "b_size b") auto
  have "content b ! (b_size b - 1) = last (content b)"
    using length_content [OF assms(1)] assms(2,3) by (metis append_is_Nil_conv last_conv_nth)
  moreover have "last (content b) = last s" using assms(2,3) by simp
  moreover have "content b ! (b_size b - 1) = b_data b ! (b_off b + (b_size b - 1))"
    using assms(1) sz by (simp add: content_def nth_slice buf_wf_def)
  ultimately have "b_data b ! (b_off b + (b_size b - 1)) \<noteq> 0" using assms(4) by simp
  moreover have "sz_sub (b_size b) 1 = b_size b - 1"
    using sz assms(1) by (intro sz_sub_small) (simp_all add: buf_wf_def)
  moreover obtain m where "b_size b = Suc m" using sz by (cases "b_size b") auto
  ultimately show ?thesis
    using buf_push_back_write [OF assms(1), of 0] unfolding buf_null_terminate_def buf_back_def
    by (simp add: buf_empty_def buf_const_index_def)
qed

lemma appends_string:
  assumes "str_ok s"
  shows "appends (write_auth_string s) (str_enc s)"
proof (cases "s = []")
  case True
  have "appends (buf_write (be16 0)) (be16 0)" by (rule appends_write) simp
  then show ?thesis
    using True by (simp add: appends_def write_auth_string_def write_string_length_def str_enc_def)
next
  case False
  have len: "length s + 1 \<le> 0xFFFF" "length s < MAX_OBJECT" using assms by (simp_all add: str_ok_def)
  have 1: "appends (write_string_length (length s + 1)) (be16 (of_nat (length s + 1)))"
    using appends_write [of "be16 (of_nat (length s + 1))"] len
    by (simp add: write_string_length_def appends_def)
  have 2: "appends (\<lambda>b. bindE (buf_write s b) buf_null_terminate) (s @ [0])"
    unfolding appends_def
  proof (intro allI impI)
    fix b assume b: "buf_wf b \<and> b_off b + b_size b + length (s @ [0]) \<le> b_cap b"
    obtain b1 where b1: "buf_write s b = Inr b1" "buf_wf b1" "content b1 = content b @ s" "b_off b1 = b_off b"
      "b_size b1 = b_size b + length s" "b_cap b1 = b_cap b"
      using appends_write [OF len(2)] b unfolding appends_def by fastforce
    have nt: "buf_null_terminate b1 = buf_write [0] b1"
      using null_terminate_eq [OF b1(2,3) False] assms False by (simp add: str_ok_def)
    have "appends (buf_write [0]) [0]" by (rule appends_write) simp
    with b b1 obtain b2 where "buf_write [0] b1 = Inr b2" "buf_wf b2" "content b2 = content b1 @ [0]"
      "b_off b2 = b_off b1" "b_size b2 = b_size b1 + 1" "b_cap b2 = b_cap b1"
      unfolding appends_def by fastforce
    with b1 nt show "\<exists>b'. bindE (buf_write s b) buf_null_terminate = Inr b' \<and> buf_wf b'
        \<and> content b' = content b @ s @ [0] \<and> b_off b' = b_off b \<and> b_size b' = b_size b + length (s @ [0])
        \<and> b_cap b' = b_cap b" by simp
  qed
  show ?thesis
    using appends_bind [OF 1 2] False by (simp add: write_auth_string_def str_enc_def appends_def)
qed

lemma appends_prf: "tp_sized t \<Longrightarrow> tp_initialized t \<Longrightarrow> appends (tp_write t) (tp_bytes t)"
proof -
  assume t: "tp_sized t" "tp_initialized t"
  have w: "appends (buf_write (tp_random1 t)) (tp_random1 t)" "appends (buf_write (tp_random2 t)) (tp_random2 t)"
    "appends (buf_write (tp_pre_master t)) (tp_pre_master t)"
    using t(1) by (simp_all add: appends_write tp_sized_def)
  show ?thesis
    using appends_bind [OF w(3) appends_bind [OF w(1,2)]] appends_bind [OF w(1,2)] t
    by (cases "tp_server t") (simp_all add: appends_def tp_write_def tp_verify_initialized_def tp_bytes_def)
qed

section \<open>The message\<close>

definition auth_bytes :: "bool \<Rightarrow> tlsprf \<Rightarrow> u8 list \<Rightarrow> u8 list \<times> u8 list \<times> u8 list \<Rightarrow> u8 list" where
  "auth_bytes server t options creds =
     (case creds of (username, password, peer_info) \<Rightarrow>
        auth_prefix @ tp_bytes t @ str_enc options
        @ (if server then [] else str_enc username @ str_enc password @ str_enc peer_info))"

text \<open>What the sender is given to send.\<close>

definition sends_creds :: "proto \<Rightarrow> u8 list \<times> u8 list \<times> u8 list \<Rightarrow> bool" where
  "sends_creds pc creds \<longleftrightarrow> (case creds of (username, password, peer_info) \<Rightarrow>
     str_ok (cf_options_string (pc_cfg pc)) \<and>
     (\<not> pc_server pc \<longrightarrow> str_ok username \<and> str_ok password \<and> str_ok peer_info \<and> peer_info = cf_peer_info (pc_cfg pc)
       \<and> (if cf_xmit_creds (pc_cfg pc)
          then \<forall>b. pc_client_auth pc b = bindE (write_auth_string username b) (write_auth_string password)
          else username = [] \<and> password = [])))"

lemma alloc_or_flags_fields [simp]:
  "content (alloc_or_flags f b) = content b" "buf_wf (alloc_or_flags f b) = buf_wf b"
  "b_off (alloc_or_flags f b) = b_off b" "b_size (alloc_or_flags f b) = b_size b"
  "b_cap (alloc_or_flags f b) = b_cap b"
  by (auto simp: alloc_or_flags_def content_def buf_wf_def split: buf_kind.splits)

lemma appends_message:
  assumes "sends_creds pc creds" and "tp_sized t" and "tp_initialized t"
  shows "appends (\<lambda>b. bindE (buf_write auth_prefix b) (auth_message pc t))
    (auth_bytes (pc_server pc) t (cf_options_string (pc_cfg pc)) creds)"
proof -
  obtain u p pi where c: "creds = (u, p, pi)" by (cases creds)
  have opts: "appends (write_auth_string (cf_options_string (pc_cfg pc))) (str_enc (cf_options_string (pc_cfg pc)))"
    using assms(1) by (intro appends_string) (auto simp: sends_creds_def)
  have pre: "appends (buf_write auth_prefix) auth_prefix"
    by (rule appends_write) (simp add: auth_prefix_def)
  let ?head = "\<lambda>b. bindE (tp_write t b) (write_auth_string (cf_options_string (pc_cfg pc)))"
  have head: "appends ?head (tp_bytes t @ str_enc (cf_options_string (pc_cfg pc)))"
    using appends_bind [OF appends_prf [OF assms(2,3)] opts] .
  show ?thesis
  proof (cases "pc_server pc")
    case True
    have "bindE m (\<lambda>b. Inr b) = m" for m :: "buffer res" by (cases m) simp_all
    then have "auth_message pc t = ?head"
      using True by (auto simp: auth_message_def)
    then have "appends (auth_message pc t) (tp_bytes t @ str_enc (cf_options_string (pc_cfg pc)))"
      using head by simp
    from appends_bind [OF pre this] True c show ?thesis by (simp add: auth_bytes_def)
  next
    case False
    then have s: "str_ok u" "str_ok p" "str_ok pi" "pi = cf_peer_info (pc_cfg pc)"
      using assms(1) c by (auto simp: sends_creds_def)
    let ?creds = "\<lambda>b. if cf_xmit_creds (pc_cfg pc) then pc_client_auth pc b
        else bindE (write_empty_string b) write_empty_string"
    have "write_empty_string = write_auth_string []"
      by (rule ext) (simp add: write_empty_string_def write_auth_string_def)
    then have "?creds = (\<lambda>b. bindE (write_auth_string u b) (write_auth_string p))"
      using assms(1) c False by (auto simp: sends_creds_def split: if_splits)
    then have creds: "appends ?creds (str_enc u @ str_enc p)"
      using appends_bind [OF appends_string [OF s(1)] appends_string [OF s(2)]] by simp
    have tail: "appends (\<lambda>b. bindE (?creds b) (write_auth_string (cf_peer_info (pc_cfg pc)))) (str_enc u @ str_enc p @ str_enc pi)"
      using appends_bind [OF creds appends_string [OF s(3)]] s(4) by simp
    have tail': "appends (\<lambda>b. bindE (?creds (alloc_or_flags DESTRUCT_ZERO b)) (write_auth_string (cf_peer_info (pc_cfg pc))))
        (str_enc u @ str_enc p @ str_enc pi)"
      unfolding appends_def
    proof (intro allI impI)
      fix b assume "buf_wf b \<and> b_off b + b_size b + length (str_enc u @ str_enc p @ str_enc pi) \<le> b_cap b"
      then show "\<exists>b'. bindE (?creds (alloc_or_flags DESTRUCT_ZERO b)) (write_auth_string (cf_peer_info (pc_cfg pc))) = Inr b'
          \<and> buf_wf b' \<and> content b' = content b @ str_enc u @ str_enc p @ str_enc pi \<and> b_off b' = b_off b
          \<and> b_size b' = b_size b + length (str_enc u @ str_enc p @ str_enc pi) \<and> b_cap b' = b_cap b"
        using tail [unfolded appends_def, rule_format, of "alloc_or_flags DESTRUCT_ZERO b"] by simp
    qed
    have eq: "auth_message pc t = (\<lambda>b. bindE (?head b) (\<lambda>b. bindE (?creds (alloc_or_flags DESTRUCT_ZERO b))
        (write_auth_string (cf_peer_info (pc_cfg pc)))))"
      using False by (auto simp: auth_message_def bindE_assoc)
    show ?thesis
      using appends_bind [OF pre appends_bind [OF head tail']] False c unfolding eq by (simp add: auth_bytes_def)
  qed
qed

section \<open>Recognising a complete message\<close>

text \<open>The reader on the bytes: what is left behind a complete message.\<close>

fun skip_strings :: "nat \<Rightarrow> u8 list \<Rightarrow> u8 list option" where
  "skip_strings 0 x = Some x"
| "skip_strings (Suc n) x = (case skip_string x of None \<Rightarrow> None | Some r \<Rightarrow> skip_strings n r)"

definition skip_auth :: "bool \<Rightarrow> nat \<Rightarrow> u8 list \<Rightarrow> u8 list option" where
  "skip_auth server need x =
     (if length x < 5 + need then None else skip_strings (if server then 4 else 1) (drop (5 + need) x))"

definition prf_need :: "tlsprf \<Rightarrow> nat" where
  "prf_need t = (if \<not> tp_server t then 112 else 64)"

lemma skip_string_append: "skip_string x = Some r \<Longrightarrow> skip_string (x @ y) = Some (r @ y)"
  by (auto simp: skip_string_def Let_def split: list.splits if_splits)

lemma skip_strings_append: "skip_strings n x = Some r \<Longrightarrow> skip_strings n (x @ y) = Some (r @ y)"
proof (induction n arbitrary: x)
  case (Suc n)
  then obtain z where z: "skip_string x = Some z" "skip_strings n z = Some r" by (auto split: option.splits)
  with Suc.IH skip_string_append [OF z(1)] show ?case by simp
qed simp

lemma skip_auth_append:
  assumes "skip_auth s n x = Some r"
  shows "skip_auth s n (x @ y) = Some (r @ y)"
proof -
  have l: "\<not> length x < 5 + n" "skip_strings (if s then 4 else 1) (drop (5 + n) x) = Some r"
    using assms unfolding skip_auth_def by (auto split: if_splits simp del: skip_strings.simps One_nat_def)
  from skip_strings_append [OF l(2), of y] l(1) show ?thesis
    unfolding skip_auth_def by (simp del: skip_strings.simps One_nat_def)
qed

lemma skip_auth_prefix:
  assumes "skip_auth s n (x @ y) = Some []" and "y \<noteq> []"
  shows "skip_auth s n x = None"
proof (cases "skip_auth s n x")
  case (Some r)
  with skip_auth_append [OF Some, of y] assms show ?thesis by simp
qed

lemma cm_string_step:
  assumes "cm_wf c"
  obtains ok c' where "cm_advance_string c = (ok, c')" and "cm_wf c'"
    and "case skip_string (cm_bytes c) of None \<Rightarrow> \<not> ok | Some r \<Rightarrow> ok \<and> cm_bytes c' = r"
  using cm_advance_string_ok [OF assms] by blast

lemma and_then_strings:
  assumes "cm_wf c"
  shows "fst (cm_advance_string c) \<longleftrightarrow> skip_strings 1 (cm_bytes c) \<noteq> None"
    and "fst (and_then (and_then (and_then (cm_advance_string c) cm_advance_string) cm_advance_string) cm_advance_string)
      \<longleftrightarrow> skip_strings 4 (cm_bytes c) \<noteq> None"
proof -
  obtain ok1 c1 where 1: "cm_advance_string c = (ok1, c1)" "cm_wf c1"
    "case skip_string (cm_bytes c) of None \<Rightarrow> \<not> ok1 | Some r \<Rightarrow> ok1 \<and> cm_bytes c1 = r"
    using cm_string_step [OF assms] .
  obtain ok2 c2 where 2: "cm_advance_string c1 = (ok2, c2)" "cm_wf c2"
    "case skip_string (cm_bytes c1) of None \<Rightarrow> \<not> ok2 | Some r \<Rightarrow> ok2 \<and> cm_bytes c2 = r"
    using cm_string_step [OF 1(2)] .
  obtain ok3 c3 where 3: "cm_advance_string c2 = (ok3, c3)" "cm_wf c3"
    "case skip_string (cm_bytes c2) of None \<Rightarrow> \<not> ok3 | Some r \<Rightarrow> ok3 \<and> cm_bytes c3 = r"
    using cm_string_step [OF 2(2)] .
  obtain ok4 c4 where 4: "cm_advance_string c3 = (ok4, c4)"
    "case skip_string (cm_bytes c3) of None \<Rightarrow> \<not> ok4 | Some r \<Rightarrow> ok4 \<and> cm_bytes c4 = r"
    using cm_string_step [OF 3(2)] by blast
  show "fst (cm_advance_string c) \<longleftrightarrow> skip_strings 1 (cm_bytes c) \<noteq> None"
    using 1 by (auto split: option.splits)
  show "fst (and_then (and_then (and_then (cm_advance_string c) cm_advance_string) cm_advance_string) cm_advance_string)
      \<longleftrightarrow> skip_strings 4 (cm_bytes c) \<noteq> None"
    using 1(1,3) 2(1,3) 3(1,3) 4
    by (auto simp: and_then_def eval_nat_numeral split: option.splits)
qed

lemma recv_auth_complete_iff:
  assumes "cm_wf c"
  shows "fst (recv_auth_complete server peer c) \<longleftrightarrow> skip_auth server (prf_need peer) (cm_bytes c) \<noteq> None"
proof -
  obtain c1 where c1: "cm_advance 5 c = (5 \<le> length (cm_bytes c), c1)" "cm_wf c1" "cm_bytes c1 = drop 5 (cm_bytes c)"
    using cm_advance_ok [OF assms] by blast
  obtain c2 where c2: "cm_advance (prf_need peer) c1 = (prf_need peer \<le> length (cm_bytes c1), c2)" "cm_wf c2"
    "cm_bytes c2 = drop (prf_need peer) (cm_bytes c1)"
    using cm_advance_ok [OF c1(2)] by blast
  have p: "tp_read_complete peer c1 = cm_advance (prf_need peer) c1"
    by (simp add: tp_read_complete_def prf_need_def)
  have l: "length auth_prefix = 5" by (simp add: auth_prefix_def)
  have b: "cm_bytes c2 = drop (5 + prf_need peer) (cm_bytes c)" using c1(3) c2(3) by (simp add: add.commute)
  show ?thesis
  proof (cases "length (cm_bytes c) < 5 + prf_need peer")
    case True
    then show ?thesis
      using c1 c2(1) p by (auto simp: recv_auth_complete_def and_then_def l skip_auth_def)
  next
    case False
    then have "prf_need peer \<le> length (cm_bytes c1)" "5 \<le> length (cm_bytes c)" using c1(3) by simp_all
    then have "recv_auth_complete server peer c = and_then (cm_advance_string c2) (\<lambda>c.
        if server then and_then (and_then (cm_advance_string c) cm_advance_string) cm_advance_string else (True, c))"
      using c1 c2(1) p by (simp add: recv_auth_complete_def and_then_def l)
    moreover have "and_then (cm_advance_string c2) (\<lambda>c. and_then (and_then (cm_advance_string c) cm_advance_string) cm_advance_string)
        = and_then (and_then (and_then (cm_advance_string c2) cm_advance_string) cm_advance_string) cm_advance_string"
      by (simp add: and_then_def)
    ultimately show ?thesis
      using and_then_strings [OF c2(2)] False b by (auto simp: and_then_def skip_auth_def)
  qed
qed

lemma unat_be16_split: "push_bit 8 (unat (ucast (drop_bit 8 w) :: u8)) OR unat (ucast w :: u8) = unat (w :: u16)"
proof -
  have "of_be16 (be16 w) = w" by simp
  then have "w = push_bit 8 (ucast (ucast (drop_bit 8 w) :: u8)) OR ucast (ucast w :: u8)"
    by (simp add: be16_def)
  then have "unat w = unat (push_bit 8 (ucast (ucast (drop_bit 8 w) :: u8)) OR ucast (ucast w :: u8) :: u16)"
    by simp
  also have "\<dots> = push_bit 8 (unat (ucast (drop_bit 8 w) :: u8)) OR unat (ucast w :: u8)"
  proof (rule bit_eqI)
    fix n
    have "bit (unat v) n \<longleftrightarrow> bit v n" for v :: "'a::len word" by (simp add: bit_unsigned_iff)
    then show "bit (unat (push_bit 8 (ucast (ucast (drop_bit 8 w) :: u8)) OR ucast (ucast w :: u8) :: u16)) n
        = bit (push_bit 8 (unat (ucast (drop_bit 8 w) :: u8)) OR unat (ucast w :: u8)) n"
      by (auto simp: bit_simps)
  qed
  finally show ?thesis by simp
qed

lemma skip_encoded:
  assumes "length s < 65535"
  shows "skip_string (str_enc s @ r) = Some r"
proof -
  define n where "n = (if s = [] then 0 else length s + 1)"
  have n: "n \<le> 65535" using assms by (simp add: n_def)
  then have u: "unat (of_nat n :: u16) = n" by (simp add: unat_of_nat)
  have "str_enc s @ r = be16 (of_nat n) @ (if s = [] then [] else s @ [0]) @ r"
    by (simp add: str_enc_def n_def)
  then show ?thesis
    using unat_be16_split [of "of_nat n"] u
    by (cases "s = []") (simp_all add: skip_string_def be16_def Let_def n_def)
qed

lemma tp_bytes_length: "tp_sized t \<Longrightarrow> length (tp_bytes t) = prf_need t"
  by (simp add: tp_bytes_def prf_need_def tp_sized_def)

lemma skip_auth_message:
  assumes "tp_sized t" and "length opts < 65535" and "\<not> server \<Longrightarrow> length u < 65535 \<and> length p < 65535 \<and> length i < 65535"
  shows "skip_auth (\<not> server) (prf_need t) (auth_bytes server t opts (u, p, i)) = Some []"
proof -
  have len: "length (auth_prefix @ tp_bytes t) = 5 + prf_need t"
    using tp_bytes_length [OF assms(1)] by (simp add: auth_prefix_def)
  have "auth_bytes server t opts (u, p, i) = (auth_prefix @ tp_bytes t) @ str_enc opts
      @ (if server then [] else str_enc u @ str_enc p @ str_enc i)" by (simp add: auth_bytes_def)
  then have "drop (5 + prf_need t) (auth_bytes server t opts (u, p, i))
      = str_enc opts @ (if server then [] else str_enc u @ str_enc p @ str_enc i)"
    by (simp only: take_drop_length(2) [OF len])
  moreover have "\<not> length (auth_bytes server t opts (u, p, i)) < 5 + prf_need t"
    using tp_bytes_length [OF assms(1)] by (simp add: auth_bytes_def auth_prefix_def)
  moreover have "skip_strings 1 (str_enc opts) = Some []"
    using skip_encoded [OF assms(2), of "[]"] by simp
  moreover have "skip_strings 4 (str_enc opts @ str_enc u @ str_enc p @ str_enc i) = Some []" if "\<not> server"
  proof -
    have e: "skip_string (str_enc opts @ str_enc u @ str_enc p @ str_enc i) = Some (str_enc u @ str_enc p @ str_enc i)"
      "skip_string (str_enc u @ str_enc p @ str_enc i) = Some (str_enc p @ str_enc i)"
      "skip_string (str_enc p @ str_enc i) = Some (str_enc i)" "skip_string (str_enc i) = Some []"
      using assms(2,3) that skip_encoded [of i "[]"] by (simp_all add: skip_encoded)
    have four: "4 = Suc (Suc (Suc (Suc 0)))" by simp
    show ?thesis unfolding four by (simp add: e)
  qed
  ultimately show ?thesis by (simp add: skip_auth_def)
qed

section \<open>Reading the message\<close>

lemma read_string_encoded:
  assumes "buf_wf b" and "content b = str_enc s @ r" and "length s < 65535"
  obtains b' where "read_auth_string b = Inr (s, b')" and "buf_wf b'" and "content b' = r"
proof -
  define n where "n = (if s = [] then 0 else length s + 1)"
  have n: "n \<le> 65535" using assms(3) by (simp add: n_def)
  then have u: "unat (of_nat n :: u16) = n" by (simp add: unat_of_nat)
  define body where "body = (if s = [] then [] else s @ [0 :: u8])"
  have c: "content b = be16 (of_nat n) @ body @ r"
    using assms(2) by (simp add: str_enc_def n_def body_def)
  have bl: "length body = n" by (simp add: body_def n_def)
  obtain b1 where b1: "buf_read 2 b = Inr (be16 (of_nat n), b1)" "buf_wf b1" "content b1 = body @ r"
    using wire.read_prefix [OF assms(1) c, of 2] by auto
  have "content b \<noteq> []" using c by (simp add: be16_def)
  then have "b_size b \<noteq> 0" using content_empty [of b] by blast
  then have len: "read_string_length b = Inr (n, b1)" using b1(1) u by (simp add: read_string_length_def)
  show thesis
  proof (cases "s = []")
    case True
    then show thesis using that [of b1] len b1(2,3) by (simp add: read_auth_string_def n_def body_def)
  next
    case False
    obtain b2 where "buf_read n b1 = Inr (body, b2)" "buf_wf b2" "content b2 = r"
      using wire.read_prefix [OF b1(2,3) bl] by auto
    then show thesis using that [of b2] len False by (simp add: read_auth_string_def n_def body_def)
  qed
qed

definition creds_fit :: "u8 list \<Rightarrow> u8 list \<times> u8 list \<times> u8 list \<Rightarrow> bool" where
  "creds_fit opts creds \<longleftrightarrow> (case creds of (u, p, i) \<Rightarrow>
     length opts < 65535 \<and> length u < 65535 \<and> length p < 65535 \<and> length i < 65535)"

text \<open>What the receiver has learned from the message.\<close>

definition learned :: "tlsprf \<Rightarrow> u8 list \<times> u8 list \<times> u8 list \<Rightarrow> 's kst \<Rightarrow> 's kst" where
  "learned t creds k =
     (if pc_server (pc_of k) then on_pc (\<lambda>pc. pc\<lparr>pc_auths := pc_auths pc @ [creds]\<rparr>) else id)
       (on_kx (\<lambda>x. x\<lparr>kx_prf_peer := t\<rparr>) k)"

lemma recv_auth_message:
  assumes m: "buf_wf m" "content m = auth_bytes (\<not> pc_server (pc_of k)) t opts creds"
    and t: "tp_sized t" "tp_initialized t" "tp_server (kx_prf_peer (kx_of k)) = tp_server t"
    and fit: "creds_fit opts creds"
    and accept: "pc_server (pc_of k) \<Longrightarrow> (case creds of (u, p, i) \<Rightarrow> pc_server_auth (pc_of k) u p i = Inr ())"
  obtains t' where "recv_auth m k = (Inr (), learned t' creds k)" and "tp_copy t t'"
proof -
  obtain u p i where creds: "creds = (u, p, i)" by (cases creds)
  let ?rest = "if pc_server (pc_of k) then str_enc u @ str_enc p @ str_enc i else []"
  have c: "content m = auth_prefix @ tp_bytes t @ str_enc opts @ ?rest"
    using m(2) creds by (simp add: auth_bytes_def)
  have fits: "length opts < 65535" "length u < 65535" "length p < 65535" "length i < 65535"
    using fit creds by (simp_all add: creds_fit_def)
  obtain b1 where b1: "buf_read (length auth_prefix) m = Inr (auth_prefix, b1)" "buf_wf b1"
    "content b1 = tp_bytes t @ str_enc opts @ ?rest"
    using wire.read_prefix [OF m(1) c refl] by blast
  obtain b2 t' where b2: "tp_read (b1, kx_prf_peer (kx_of k)) = (Inr (), (b2, t'))" "buf_wf b2"
    "content b2 = str_enc opts @ ?rest" "tp_copy t t'"
    using tp_read_bytes [OF b1(2,3) t(1,3,2)] by blast
  obtain b3 where b3: "read_auth_string b2 = Inr (opts, b3)" "buf_wf b3" "content b3 = ?rest"
    using read_string_encoded [OF b2(2,3) fits(1)] by blast
  show thesis
  proof (cases "pc_server (pc_of k)")
    case False
    then show thesis
      using that [OF _ b2(4)] b1(1) b2(1) b3(1) by (simp add: recv_auth_def learned_def on_kx_def)
  next
    case True
    have c3: "content b3 = str_enc u @ str_enc p @ str_enc i" using b3(3) True by simp
    obtain b4 where b4: "read_auth_string b3 = Inr (u, b4)" "buf_wf b4" "content b4 = str_enc p @ str_enc i"
      using read_string_encoded [OF b3(2) c3 fits(2)] by blast
    obtain b5 where b5: "read_auth_string b4 = Inr (p, b5)" "buf_wf b5" "content b5 = str_enc i @ []"
      using read_string_encoded [OF b4(2,3) fits(3)] by auto
    obtain b6 where "read_auth_string b5 = Inr (i, b6)"
      using read_string_encoded [OF b5(2,3) fits(4)] by blast
    then have "recv_creds b3 = Inr (u, p, i)" using b4(1) b5(1) by (simp add: recv_creds_def)
    then have "recv_auth m k = (Inr (), learned t' creds k)"
      using b1(1) b2(1) b3(1) True accept creds
      by (simp add: recv_auth_def learned_def on_kx_def on_pc_def server_auth_def)
    then show thesis using that b2(4) by blast
  qed
qed

fun recv_all :: "buffer list \<Rightarrow> (unit, 's kst) st" where
  "recv_all [] = ret ()"
| "recv_all (b # bs) = bindS (app_recv b) (\<lambda>_. recv_all bs)"

lemma bindS_ret_unit: "bindS f ret = (f :: (unit, 't) st)"
  by (auto simp: bindS_def fun_eq_iff split: prod.splits sum.splits)

lemma recv_all_append: "recv_all (xs @ ys) = bindS (recv_all xs) (\<lambda>_. recv_all ys)"
proof (induction xs)
  case (Cons b xs)
  then show ?case by (auto simp: bindS_def fun_eq_iff split: prod.splits sum.splits)
qed (simp add: bindS_def fun_eq_iff)

text \<open>An end that waits for the message of the other.\<close>

definition awaits_auth :: "'s kst \<Rightarrow> bool" where
  "awaits_auth k \<longleftrightarrow> kx_state (kx_of k) = (if pc_server (pc_of k) then S_WAIT_AUTH else C_WAIT_AUTH)"

definition with_pieces :: "buffer list \<Rightarrow> 's kst \<Rightarrow> 's kst" where
  "with_pieces bv = on_kx (\<lambda>x. x\<lparr>kx_app_recv_buf := bv\<rparr>)"

lemma app_recv_step:
  assumes "awaits_auth k" and "kx_app_recv_buf (kx_of k) = bv" and "\<forall>x \<in> set (bv @ [b]). buf_wf x \<and> b_size x > 0"
    and "length (concat (map content (bv @ [b]))) \<le> APP_MSG_MAX"
  shows "app_recv b k =
    (if skip_auth (pc_server (pc_of k)) (prf_need (kx_prf_peer (kx_of k))) (concat (map content (bv @ [b]))) = None
     then ret () (with_pieces (bv @ [b]) k)
     else bindS take_message (\<lambda>m. bindS (recv_auth m) (\<lambda>_.
       if pc_server (pc_of k) then bindS send_auth (\<lambda>_ k. ret () (set_state S_WAIT_AUTH_ACK k))
       else (\<lambda>k. ret () (set_state C_WAIT_AUTH_ACK k)))) (with_pieces (bv @ [b]) k))"
proof -
  have wf: "cm_wf (bc_complete (bv @ [b]))" "cm_bytes (bc_complete (bv @ [b])) = concat (map content (bv @ [b]))"
    using bc_complete_wf [OF assms(3)] by simp_all
  have sz: "\<not> bl_join_size (bv @ [b]) > APP_MSG_MAX"
    using bl_join_size_length [of "bv @ [b]"] assms(3,4) by simp
  have p: "with_pieces (bv @ [b]) k = on_kx (\<lambda>x. x\<lparr>kx_app_recv_buf := bc_put b (kx_app_recv_buf x)\<rparr>) k"
    using assms(2) by (simp add: with_pieces_def on_kx_def bc_put_def)
  have sel: "kx_app_recv_buf (kx_of (with_pieces x k)) = x" "kx_prf_peer (kx_of (with_pieces x k)) = kx_prf_peer (kx_of k)"
    "kx_state (kx_of (with_pieces x k)) = kx_state (kx_of k)" "pc_of (with_pieces x k) = pc_of k" for x
    by (simp_all add: with_pieces_def on_kx_def)
  note iff = recv_auth_complete_iff [OF wf(1), of "pc_server (pc_of k)" "kx_prf_peer (kx_of k)", unfolded wf(2)]
  show ?thesis
    using assms(1) sz iff unfolding app_recv_def Let_def p [symmetric] sel awaits_auth_def
    by (cases "pc_server (pc_of k)") (simp_all add: state_defs)
qed

lemma take_message_ok:
  assumes "\<forall>x \<in> set bv. buf_wf x \<and> b_size x > 0" and "length (concat (map content bv)) \<le> APP_MSG_MAX"
  obtains m where "take_message (with_pieces bv k) = (Inr m, with_pieces [] k)" and "buf_wf m"
    and "content m = concat (map content bv)"
proof -
  have "\<forall>x \<in> set bv. buf_wf x" "bl_join_size bv < MAX_OBJECT"
    using assms bl_join_size_length [of bv] by (auto simp: APP_MSG_MAX_def)
  from bl_join_ok [OF this] obtain m where m: "bl_join 0 0 True bv = Inr m" "buf_wf m" "content m = concat (map content bv)"
    by blast
  then have "take_message (with_pieces bv k) = (Inr m, with_pieces [] k)"
    by (simp add: take_message_def bc_get_def with_pieces_def on_kx_def)
  with m that show thesis by blast
qed

lemma pieces_sel [simp]:
  "kx_app_recv_buf (kx_of (with_pieces x k)) = x" "kx_prf_peer (kx_of (with_pieces x k)) = kx_prf_peer (kx_of k)"
  "kx_prf_self (kx_of (with_pieces x k)) = kx_prf_self (kx_of k)" "k_app_queue (with_pieces x k) = k_app_queue k"
  "kx_state (kx_of (with_pieces x k)) = kx_state (kx_of k)" "pc_of (with_pieces x k) = pc_of k"
  "with_pieces y (with_pieces x k) = with_pieces y k" "k_invalidated (with_pieces x k) = k_invalidated k"
  by (simp_all add: with_pieces_def on_kx_def)

definition whole_message :: "buffer list \<Rightarrow> u8 list \<Rightarrow> bool" where
  "whole_message bs m \<longleftrightarrow> (\<forall>b \<in> set bs. buf_wf b \<and> b_size b > 0) \<and> concat (map content bs) = m
     \<and> m \<noteq> [] \<and> length m \<le> APP_MSG_MAX"

lemma nonempty_content: "buf_wf b \<Longrightarrow> b_size b > 0 \<Longrightarrow> content b \<noteq> []"
  using length_content [of b] by (metis list.size(3) less_numeral_extra(3))

lemma recv_all_prefix:
  assumes k: "awaits_auth k" "kx_app_recv_buf (kx_of k) = []"
    and m: "whole_message (ps @ qs) m" "qs \<noteq> []"
    and skip: "skip_auth (pc_server (pc_of k)) (prf_need (kx_prf_peer (kx_of k))) m = Some []"
  shows "recv_all ps k = (Inr (), with_pieces ps k)"
  using m
proof (induction ps arbitrary: qs rule: rev_induct)
  case Nil
  show ?case using k(2) by (cases k) (auto simp: with_pieces_def on_kx_def)
next
  case (snoc b ps)
  have "recv_all ps k = (Inr (), with_pieces ps k)" using snoc.IH [of "b # qs"] snoc.prems by simp
  moreover have "app_recv b (with_pieces ps k) = ret () (with_pieces (ps @ [b]) k)"
  proof -
    have await: "awaits_auth (with_pieces ps k)" using k(1) by (simp add: awaits_auth_def)
    have w: "\<forall>x \<in> set (ps @ [b]). buf_wf x \<and> b_size x > 0" "length (concat (map content (ps @ [b]))) \<le> APP_MSG_MAX"
      using snoc.prems(1) by (auto simp: whole_message_def)
    obtain q qs' where q: "qs = q # qs'" using snoc.prems(2) by (cases qs) auto
    then have "content q \<noteq> []" using snoc.prems(1) nonempty_content by (simp add: whole_message_def)
    then have ne: "concat (map content qs) \<noteq> []" by (simp add: q)
    have "concat (map content (ps @ [b])) @ concat (map content qs) = m"
      using snoc.prems(1) by (simp add: whole_message_def)
    with skip_auth_prefix [OF _ ne] skip
    have "skip_auth (pc_server (pc_of k)) (prf_need (kx_prf_peer (kx_of k))) (concat (map content (ps @ [b]))) = None"
      by metis
    with app_recv_step [OF await _ w] show ?thesis by simp
  qed
  ultimately show ?case by (simp add: recv_all_append bindS_def)
qed

definition answer :: "(unit, 's kst) st" where
  "answer k = (if pc_server (pc_of k) then bindS send_auth (\<lambda>_ k. ret () (set_state S_WAIT_AUTH_ACK k)) k
     else ret () (set_state C_WAIT_AUTH_ACK k))"

lemma recv_all_message:
  assumes k: "awaits_auth k" "kx_app_recv_buf (kx_of k) = []"
    and m: "whole_message bs (auth_bytes (\<not> pc_server (pc_of k)) t opts creds)"
    and t: "tp_sized t" "tp_initialized t" "tp_server (kx_prf_peer (kx_of k)) = tp_server t"
    and fit: "creds_fit opts creds"
    and accept: "pc_server (pc_of k) \<Longrightarrow> (case creds of (u, p, i) \<Rightarrow> pc_server_auth (pc_of k) u p i = Inr ())"
  obtains t' where "recv_all bs k = answer (learned t' creds (with_pieces [] k))" and "tp_copy t t'"
proof -
  obtain u p i where creds: "creds = (u, p, i)" by (cases creds)
  let ?m = "auth_bytes (\<not> pc_server (pc_of k)) t opts creds"
  have need: "prf_need (kx_prf_peer (kx_of k)) = prf_need t" using t(3) by (simp add: prf_need_def)
  have skip: "skip_auth (pc_server (pc_of k)) (prf_need (kx_prf_peer (kx_of k))) ?m = Some []"
    using skip_auth_message [OF t(1), of opts "\<not> pc_server (pc_of k)" u p i] fit creds need by (auto simp: creds_fit_def)
  have "bs \<noteq> []" using m by (auto simp: whole_message_def)
  then obtain ps b where bs: "bs = ps @ [b]" by (metis append_butlast_last_id)
  have pre: "recv_all ps k = (Inr (), with_pieces ps k)"
    using recv_all_prefix [OF k m [unfolded bs] _ skip] by simp
  have await: "awaits_auth (with_pieces ps k)" using k(1) by (simp add: awaits_auth_def)
  have w: "\<forall>x \<in> set (ps @ [b]). buf_wf x \<and> b_size x > 0" "length (concat (map content (ps @ [b]))) \<le> APP_MSG_MAX"
    using m bs by (simp_all add: whole_message_def)
  have all: "concat (map content (ps @ [b])) = ?m" using m bs by (simp add: whole_message_def)
  obtain msg where msg: "take_message (with_pieces (ps @ [b]) k) = (Inr msg, with_pieces [] k)" "buf_wf msg"
    "content msg = concat (map content (ps @ [b]))"
    using take_message_ok [OF w] by blast
  have cm: "content msg = auth_bytes (\<not> pc_server (pc_of (with_pieces [] k))) t opts creds"
    using msg(3) all by simp
  obtain t' where t': "recv_auth msg (with_pieces [] k) = (Inr (), learned t' creds (with_pieces [] k))" "tp_copy t t'"
    using recv_auth_message [OF msg(2) cm t(1,2) _ fit] t(3) accept by auto
  have srv: "pc_server (pc_of (learned t' creds k')) = pc_server (pc_of k')" for k' :: "'b kst"
    by (simp add: learned_def on_pc_def on_kx_def)
  have "app_recv b (with_pieces ps k) = answer (learned t' creds (with_pieces [] k))"
    using app_recv_step [OF await _ w] skip all msg(1) t'(1)
    by (simp add: answer_def learned_def on_pc_def on_kx_def bindS_def)
  then have "recv_all bs k = answer (learned t' creds (with_pieces [] k))"
    using pre by (simp add: bs recv_all_append bindS_def [of "recv_all ps"] bindS_ret_unit)
  then show thesis using that t'(2) by blast
qed

section \<open>Sending the message\<close>

definition auth_ready :: "nat \<Rightarrow> u8 list \<times> u8 list \<times> u8 list \<Rightarrow> 's kst \<Rightarrow> bool" where
  "auth_ready n creds k \<longleftrightarrow> sends_creds (pc_of k) creds \<and> tp_sized (kx_prf_self (kx_of k))
     \<and> tp_server (kx_prf_self (kx_of k)) = pc_server (pc_of k) \<and> (\<forall>i n. length (pc_rng (pc_of k) i n) = n)
     \<and> ctx_ok n (pc_frame (pc_of k) ! WRITE_SSL_CLEARTEXT) \<and> \<not> k_invalidated k
     \<and> (\<forall>t. tp_sized t \<and> tp_server t = pc_server (pc_of k) \<longrightarrow>
          length (auth_bytes (pc_server (pc_of k)) t (cf_options_string (pc_cfg (pc_of k))) creds)
          \<le> min APP_MSG_MAX (f_payload (pc_frame (pc_of k) ! WRITE_SSL_CLEARTEXT)))"

lemma tp_randomize_ok:
  assumes "tp_sized t" and "\<forall>i n. length (rng i n) = n" and "tp_randomize rng n t = (t', n')"
  shows "tp_sized t' \<and> tp_initialized t' \<and> tp_server t' = tp_server t"
  using assms by (auto simp: tp_randomize_def tp_sized_def split: if_splits)

lemma send_auth_ok:
  assumes "auth_ready n creds k"
  obtains t j m where "send_auth k = (Inr (), set_dirty True (ks_app_send m
      (on_kx (\<lambda>x. x\<lparr>kx_prf_self := t\<rparr>) (on_pc (\<lambda>pc. pc\<lparr>pc_rng_calls := j\<rparr>) k))))"
    and "buf_wf m" and "content m = auth_bytes (pc_server (pc_of k)) t (cf_options_string (pc_cfg (pc_of k))) creds"
    and "tp_sized t" and "tp_initialized t" and "tp_server t = pc_server (pc_of k)" and "length (content m) \<le> APP_MSG_MAX"
proof -
  let ?pc = "pc_of k"
  have r: "sends_creds ?pc creds" "tp_sized (kx_prf_self (kx_of k))" "tp_server (kx_prf_self (kx_of k)) = pc_server ?pc"
    "\<forall>i n. length (pc_rng ?pc i n) = n" "ctx_ok n (pc_frame ?pc ! WRITE_SSL_CLEARTEXT)"
    using assms by (simp_all add: auth_ready_def)
  obtain t j where tj: "tp_randomize (pc_rng ?pc) (pc_rng_calls ?pc) (kx_prf_self (kx_of k)) = (t, j)" by fastforce
  note t = tp_randomize_ok [OF r(2,4) tj]
  let ?m = "auth_bytes (pc_server ?pc) t (cf_options_string (pc_cfg ?pc)) creds"
  have len: "length ?m \<le> APP_MSG_MAX" "length ?m \<le> f_payload (pc_frame ?pc ! WRITE_SSL_CLEARTEXT)"
    using assms t r(3) by (simp_all add: auth_ready_def)
  have kind: "b_kind alloc_default \<noteq> Plain" by (simp add: alloc_default_def)
  obtain b0 where b0: "ctx_prepare (pc_frame ?pc ! WRITE_SSL_CLEARTEXT) (pc_base ?pc) alloc_default
      = Inr (f_payload (pc_frame ?pc ! WRITE_SSL_CLEARTEXT), b0)" "buf_wf b0" "content b0 = []"
    "b_off b0 = ctx_actual_headroom (pc_frame ?pc ! WRITE_SSL_CLEARTEXT) (pc_base ?pc)" "b_size b0 = 0"
    "f_adj_capacity (pc_frame ?pc ! WRITE_SSL_CLEARTEXT) \<le> b_cap b0"
    using ctx_prepare_ok [OF r(5) buf_wf_default(2) kind, of "pc_base ?pc"] by blast
  have "f_adj_headroom (pc_frame ?pc ! WRITE_SSL_CLEARTEXT) + f_payload (pc_frame ?pc ! WRITE_SSL_CLEARTEXT)
      \<le> f_adj_capacity (pc_frame ?pc ! WRITE_SSL_CLEARTEXT)" using r(5) by (simp add: ctx_ok_def)
  then have fit: "b_off b0 + b_size b0 + length ?m \<le> b_cap b0"
    using b0(4-6) len(2) ctx_actual_headroom_bounds(2) [OF r(5), of "pc_base ?pc"] by linarith
  obtain m where m: "bindE (buf_write auth_prefix b0) (auth_message ?pc t) = Inr m" "buf_wf m" "content m = ?m"
    using appends_message [OF r(1), of t] t b0(2,3) fit unfolding appends_def by fastforce
  then obtain b1 where b1: "buf_write auth_prefix b0 = Inr b1" "auth_message ?pc t b1 = Inr m"
    by (auto simp: exn_simps)
  have prep: "frame_prepare WRITE_SSL_CLEARTEXT (pc_base ?pc) alloc_default (pc_frame ?pc)
      = Inr (f_payload (pc_frame ?pc ! WRITE_SSL_CLEARTEXT), b0)"
    using b0(1) by (simp add: frame_prepare_def frame_index_def WRITE_SSL_CLEARTEXT_def N_ALIGN_CONTEXTS_def)
  have "b_size m = length (content m)" using m(2) by simp
  then have "\<not> b_size m > APP_MSG_MAX" using len(1) m(3) by simp
  then have "send_auth k = (Inr (), set_dirty True (ks_app_send m
      (on_kx (\<lambda>x. x\<lparr>kx_prf_self := t\<rparr>) (on_pc (\<lambda>pc. pc\<lparr>pc_rng_calls := j\<rparr>) k))))"
    using prep b1 tj by (simp add: send_auth_def Let_def app_send_validate_def bindS_def)
  with that m(2,3) t r(3) len(1) show thesis by simp
qed


section \<open>The exchange\<close>

definition auth_pending :: "'s kst \<Rightarrow> bool" where
  "auth_pending k \<longleftrightarrow> awaits_auth k \<and> kx_app_recv_buf (kx_of k) = []
     \<and> tp_server (kx_prf_peer (kx_of k)) = (\<not> pc_server (pc_of k))"

lemma creds_fit_of:
  assumes "sends_creds pc creds" and "pc_server pc \<longrightarrow> creds = ([], [], [])"
  shows "creds_fit (cf_options_string (pc_cfg pc)) creds"
  using assms by (auto simp: sends_creds_def creds_fit_def str_ok_def split: prod.splits)

lemma learned_sel [simp]:
  "kx_prf_peer (kx_of (learned t cr k)) = t" "kx_prf_self (kx_of (learned t cr k)) = kx_prf_self (kx_of k)"
  "k_app_queue (learned t cr k) = k_app_queue k" "k_invalidated (learned t cr k) = k_invalidated k"
  "pc_server (pc_of (learned t cr k)) = pc_server (pc_of k)" "pc_frame (pc_of (learned t cr k)) = pc_frame (pc_of k)"
  "pc_rng (pc_of (learned t cr k)) = pc_rng (pc_of k)" "pc_cfg (pc_of (learned t cr k)) = pc_cfg (pc_of k)"
  "pc_client_auth (pc_of (learned t cr k)) = pc_client_auth (pc_of k)"
  "pc_auths (pc_of (learned t cr k)) = (if pc_server (pc_of k) then pc_auths (pc_of k) @ [cr] else pc_auths (pc_of k))"
  by (simp_all add: learned_def on_pc_def on_kx_def)

lemma auth_ready_learned: "auth_ready n creds (learned t cr k) = auth_ready n creds k"
  by (cases creds) (simp add: auth_ready_def sends_creds_def)

lemma auth_ready_pieces: "auth_ready n creds (with_pieces bv k) = auth_ready n creds k"
  by (simp add: auth_ready_def)


text \<open>The key does not depend on the buffer it is put in.\<close>

lemma same_key:
  assumes "tp_copy c c'" and "tp_copy s s'" and "\<not> tp_server c" and "tp_server s"
    and "psid_id pc' = psid_id pc" and "psid_id ps' = psid_id ps"
  shows "\<exists>key. generate_key_expansion mac dc c s' pc ps' = Inr key \<and> generate_key_expansion mac ds s c' ps pc' = Inr key"
proof -
  have raw: "\<exists>b. sk_raw_alloc d = Inr b \<and> b_off b = 0 \<and> b_size b = KEY_SIZE \<and> b_cap b = KEY_SIZE
      \<and> b_kind b = Allocated (DESTRUCT_ZERO OR ARRAY)" for d
  proof -
    obtain b where b: "sk_raw_alloc d = Inr b"
      using alloc_init_total [of KEY_SIZE "DESTRUCT_ZERO OR ARRAY" d] by (auto simp: sk_raw_alloc_def KEY_SIZE_def)
    moreover have "flag_set (DESTRUCT_ZERO OR ARRAY) ARRAY" by (simp add: flag_set_def DESTRUCT_ZERO_def ARRAY_def)
    ultimately have "b_off b = 0 \<and> b_size b = KEY_SIZE \<and> b_cap b = KEY_SIZE
        \<and> b_kind b = Allocated (DESTRUCT_ZERO OR ARRAY)"
      by (auto simp: sk_raw_alloc_def alloc_init_def exn_simps)
    with b show ?thesis by blast
  qed
  obtain b where b: "sk_raw_alloc dc = Inr b" "b_off b = 0" "b_size b = KEY_SIZE" "b_cap b = KEY_SIZE"
    "b_kind b = Allocated (DESTRUCT_ZERO OR ARRAY)" using raw by blast
  obtain b' where b': "sk_raw_alloc ds = Inr b'" "b_off b' = 0" "b_size b' = KEY_SIZE" "b_cap b' = KEY_SIZE"
    "b_kind b' = Allocated (DESTRUCT_ZERO OR ARRAY)" using raw by blast
  have "b\<lparr>b_data := x\<rparr> = b'\<lparr>b_data := x\<rparr>" for x using b b' by (cases b; cases b') simp
  then show ?thesis
    using key_expansion_agrees [OF assms, of mac dc] b(1) b'(1) assms
    by (auto simp: generate_key_expansion_def gen_exp_def tp_copy_def tp_verify_initialized_def Let_def)
qed

lemma auth_whole:
  assumes "buf_wf m" and "content m = auth_bytes server t opts creds" and "length (content m) \<le> APP_MSG_MAX"
  shows "whole_message [m] (content m)"
proof -
  have "content m \<noteq> []" using assms(2) by (cases creds) (simp add: auth_bytes_def auth_prefix_def)
  moreover from this have "b_size m > 0" using length_content [OF assms(1)] by (cases "b_size m") auto
  ultimately show ?thesis using assms(1,3) by (simp add: whole_message_def)
qed

lemma server_answers:
  assumes "pc_server (pc_of s)" and "auth_ready n ([], [], []) s" and "auth_pending s"
    and "tp_sized t" and "tp_initialized t" and "\<not> tp_server t" and "creds_fit opts creds"
    and "case creds of (u, p, i) \<Rightarrow> pc_server_auth (pc_of s) u p i = Inr ()"
    and "whole_message bs (auth_bytes False t opts creds)"
  obtains s1 m where "recv_all bs s = (Inr (), s1)" and "kx_state (kx_of s1) = S_WAIT_AUTH_ACK"
    and "pc_auths (pc_of s1) = pc_auths (pc_of s) @ [creds]" and "k_app_queue s1 = k_app_queue s @ [m]"
    and "whole_message [m] (content m)" and "tp_copy t (kx_prf_peer (kx_of s1))" and "tp_sized (kx_prf_self (kx_of s1))"
    and "tp_initialized (kx_prf_self (kx_of s1))" and "tp_server (kx_prf_self (kx_of s1))"
    and "content m = auth_bytes True (kx_prf_self (kx_of s1)) (cf_options_string (pc_cfg (pc_of s))) ([], [], [])"
proof -
  have pend: "awaits_auth s" "kx_app_recv_buf (kx_of s) = []" "tp_server (kx_prf_peer (kx_of s)) = tp_server t"
    using assms(1,3,6) by (simp_all add: auth_pending_def)
  have whole: "whole_message bs (auth_bytes (\<not> pc_server (pc_of s)) t opts creds)" using assms(1,9) by simp
  obtain t' where t': "recv_all bs s = answer (learned t' creds (with_pieces [] s))" "tp_copy t t'"
    using recv_all_message [OF pend(1,2) whole assms(4,5) pend(3) assms(7)] assms(8) by blast
  let ?k = "learned t' creds (with_pieces [] s)"
  have "auth_ready n ([], [], []) ?k" using assms(2) by (simp only: auth_ready_learned auth_ready_pieces)
  then obtain u j m where m: "send_auth ?k = (Inr (), set_dirty True (ks_app_send m
      (on_kx (\<lambda>x. x\<lparr>kx_prf_self := u\<rparr>) (on_pc (\<lambda>pc. pc\<lparr>pc_rng_calls := j\<rparr>) ?k))))" "buf_wf m"
    "content m = auth_bytes (pc_server (pc_of ?k)) u (cf_options_string (pc_cfg (pc_of ?k))) ([], [], [])"
    "tp_sized u" "tp_initialized u" "tp_server u = pc_server (pc_of ?k)" "length (content m) \<le> APP_MSG_MAX"
    by (rule send_auth_ok)
  have "whole_message [m] (content m)" using auth_whole m(2,3,7) by blast
  have inv: "\<not> k_invalidated s" using assms(2) by (simp add: auth_ready_def)
  define s1 where "s1 = set_state S_WAIT_AUTH_ACK (set_dirty True (ks_app_send m
      (on_kx (\<lambda>x. x\<lparr>kx_prf_self := u\<rparr>) (on_pc (\<lambda>pc. pc\<lparr>pc_rng_calls := j\<rparr>) ?k))))"
  have sel: "kx_state (kx_of s1) = S_WAIT_AUTH_ACK" "kx_prf_self (kx_of s1) = u" "kx_prf_peer (kx_of s1) = t'"
    "pc_auths (pc_of s1) = pc_auths (pc_of ?k)" "k_app_queue s1 = k_app_queue ?k @ [m]"
    using inv by (simp_all add: s1_def set_state_def set_dirty_def ks_app_send_def on_kx_def on_pc_def learned_def with_pieces_def)
  have "recv_all bs s = (Inr (), s1)"
    using t'(1) m(1) assms(1) by (simp add: answer_def s1_def)
  then show thesis
    using that [of s1 m] sel m t'(2) assms(1) \<open>whole_message [m] (content m)\<close> by simp
qed

text \<open>
  C38. The exchange of authentication messages. A client sends its message; however it is cut into
  non-empty buffers on the way, a server that waits for it takes the credentials and the random material
  out of it with the last of them, and answers with its own message; and a client that waits reads that,
  however it is cut. Then both derive the same data channel keys, given that each knows the session ID
  of the other.
\<close>

theorem auth_exchange_agrees_on_keys:
  fixes c s :: "'s kst"
  assumes "\<not> pc_server (pc_of c)" and "auth_ready n creds c"
    and "pc_server (pc_of s)" and "auth_ready n' ([], [], []) s" and "auth_pending s"
    and "case creds of (u, p, i) \<Rightarrow> pc_server_auth (pc_of s) u p i = Inr ()"
    and "psid_id psc' = psid_id psc" and "psid_id pss' = psid_id pss"
  shows "\<exists>c1 m1. send_auth c = (Inr (), c1) \<and> k_app_queue c1 = k_app_queue c @ [m1] \<and> whole_message [m1] (content m1) \<and>
    (\<forall>bs. whole_message bs (content m1) \<longrightarrow>
      (\<exists>s1 m2. recv_all bs s = (Inr (), s1) \<and> kx_state (kx_of s1) = S_WAIT_AUTH_ACK
        \<and> pc_auths (pc_of s1) = pc_auths (pc_of s) @ [creds] \<and> k_app_queue s1 = k_app_queue s @ [m2] \<and> whole_message [m2] (content m2) \<and>
        (\<forall>(c2 :: 's kst) cs. \<not> pc_server (pc_of c2) \<and> auth_pending c2
            \<and> kx_prf_self (kx_of c2) = kx_prf_self (kx_of c1) \<and> whole_message cs (content m2) \<longrightarrow>
          (\<exists>c3. recv_all cs c2 = (Inr (), c3) \<and> kx_state (kx_of c3) = C_WAIT_AUTH_ACK
            \<and> (\<exists>key. generate_key_expansion mac dc (kx_prf_self (kx_of c3)) (kx_prf_peer (kx_of c3)) psc pss' = Inr key
              \<and> generate_key_expansion mac ds (kx_prf_self (kx_of s1)) (kx_prf_peer (kx_of s1)) pss psc' = Inr key)))))"
proof -
  let ?oc = "cf_options_string (pc_cfg (pc_of c))"
  let ?os = "cf_options_string (pc_cfg (pc_of s))"
  obtain t j m1 where m1: "send_auth c = (Inr (), set_dirty True (ks_app_send m1
      (on_kx (\<lambda>x. x\<lparr>kx_prf_self := t\<rparr>) (on_pc (\<lambda>pc. pc\<lparr>pc_rng_calls := j\<rparr>) c))))"
    "content m1 = auth_bytes False t ?oc creds" "tp_sized t" "tp_initialized t" "\<not> tp_server t"
    "buf_wf m1" "length (content m1) \<le> APP_MSG_MAX"
    using send_auth_ok [OF assms(2)] assms(1) by metis
  have w1: "whole_message [m1] (content m1)" using auth_whole m1(2,6,7) by blast
  define c1 where "c1 = set_dirty True (ks_app_send m1
      (on_kx (\<lambda>x. x\<lparr>kx_prf_self := t\<rparr>) (on_pc (\<lambda>pc. pc\<lparr>pc_rng_calls := j\<rparr>) c)))"
  have c1: "k_app_queue c1 = k_app_queue c @ [m1]" "kx_prf_self (kx_of c1) = t"
    using assms(2) by (simp_all add: c1_def set_dirty_def ks_app_send_def on_kx_def on_pc_def auth_ready_def)
  have fit: "creds_fit ?oc creds" "creds_fit ?os ([], [], [])"
    using creds_fit_of assms(1,2,4) by (auto simp: auth_ready_def)
  have agree: "\<exists>c3. recv_all cs c2 = (Inr (), c3) \<and> kx_state (kx_of c3) = C_WAIT_AUTH_ACK
      \<and> (\<exists>key. generate_key_expansion mac dc (kx_prf_self (kx_of c3)) (kx_prf_peer (kx_of c3)) psc pss' = Inr key
        \<and> generate_key_expansion mac ds (kx_prf_self (kx_of s1)) (kx_prf_peer (kx_of s1)) pss psc' = Inr key)"
    if s1: "tp_copy t (kx_prf_peer (kx_of s1))" "tp_sized (kx_prf_self (kx_of s1))"
        "tp_initialized (kx_prf_self (kx_of s1))" "tp_server (kx_prf_self (kx_of s1))"
        "content m2 = auth_bytes True (kx_prf_self (kx_of s1)) ?os ([], [], [])"
      and c2: "\<not> pc_server (pc_of c2)" "auth_pending c2" "kx_prf_self (kx_of c2) = kx_prf_self (kx_of c1)"
        "whole_message cs (content m2)"
    for s1 c2 :: "'s kst" and m2 cs
  proof -
    have pend: "awaits_auth c2" "kx_app_recv_buf (kx_of c2) = []"
      "tp_server (kx_prf_peer (kx_of c2)) = tp_server (kx_prf_self (kx_of s1))"
      using c2(1,2) s1(4) by (simp_all add: auth_pending_def)
    have whole: "whole_message cs (auth_bytes (\<not> pc_server (pc_of c2)) (kx_prf_self (kx_of s1)) ?os ([], [], []))"
      using c2(1,4) s1(5) by simp
    obtain t' where t': "recv_all cs c2 = answer (learned t' ([], [], []) (with_pieces [] c2))"
      "tp_copy (kx_prf_self (kx_of s1)) t'"
      using recv_all_message [OF pend(1,2) whole s1(2,3) pend(3) fit(2)] c2(1) by blast
    let ?c3 = "set_state C_WAIT_AUTH_ACK (learned t' ([], [], []) (with_pieces [] c2))"
    have "recv_all cs c2 = (Inr (), ?c3)" using t'(1) c2(1) by (simp add: answer_def)
    moreover have "kx_prf_self (kx_of ?c3) = t" "kx_prf_peer (kx_of ?c3) = t'" "kx_state (kx_of ?c3) = C_WAIT_AUTH_ACK"
      using c2(3) c1(2) by (simp_all add: set_state_def learned_def with_pieces_def on_kx_def on_pc_def)
    ultimately show ?thesis
      using same_key [OF s1(1) t'(2) m1(5) s1(4) assms(7,8)] by simp
  qed
  have "\<exists>s1 m2. recv_all bs s = (Inr (), s1) \<and> kx_state (kx_of s1) = S_WAIT_AUTH_ACK
        \<and> pc_auths (pc_of s1) = pc_auths (pc_of s) @ [creds] \<and> k_app_queue s1 = k_app_queue s @ [m2] \<and> whole_message [m2] (content m2) \<and>
        (\<forall>(c2 :: 's kst) cs. \<not> pc_server (pc_of c2) \<and> auth_pending c2
            \<and> kx_prf_self (kx_of c2) = kx_prf_self (kx_of c1) \<and> whole_message cs (content m2) \<longrightarrow>
          (\<exists>c3. recv_all cs c2 = (Inr (), c3) \<and> kx_state (kx_of c3) = C_WAIT_AUTH_ACK
            \<and> (\<exists>key. generate_key_expansion mac dc (kx_prf_self (kx_of c3)) (kx_prf_peer (kx_of c3)) psc pss' = Inr key
              \<and> generate_key_expansion mac ds (kx_prf_self (kx_of s1)) (kx_prf_peer (kx_of s1)) pss psc' = Inr key)))"
    if whole: "whole_message bs (content m1)" for bs
  proof -
    obtain s1 m2 where s1: "recv_all bs s = (Inr (), s1)" "kx_state (kx_of s1) = S_WAIT_AUTH_ACK"
      "pc_auths (pc_of s1) = pc_auths (pc_of s) @ [creds]" "k_app_queue s1 = k_app_queue s @ [m2]"
      "whole_message [m2] (content m2)" "tp_copy t (kx_prf_peer (kx_of s1))" "tp_sized (kx_prf_self (kx_of s1))"
      "tp_initialized (kx_prf_self (kx_of s1))" "tp_server (kx_prf_self (kx_of s1))"
      "content m2 = auth_bytes True (kx_prf_self (kx_of s1)) ?os ([], [], [])"
      using server_answers [OF assms(3-5) m1(3-5) fit(1) assms(6) whole [unfolded m1(2)]] .
    show ?thesis using s1(1-5) agree [OF s1(6-10)] by blast
  qed
  then show ?thesis using m1(1) c1(1) w1 unfolding c1_def by blast
qed


definition demo_auth_end :: "bool \<Rightarrow> unit kst" where
  "demo_auth_end server =
     (let pc = (demo_proto TLS_PLAIN)\<lparr>pc_server := server, pc_frame := frame_set_default_context (ctx_make 64 512 0 0 1 0),
                 pc_client_auth := (\<lambda>b. bindE (write_auth_string [117] b) (write_auth_string [112]))\<rparr> in
      (demo_kst pc)\<lparr>k_user := \<lparr>u_pc = pc, u_kx = demo_kx\<lparr>kx_state := (if server then S_WAIT_AUTH else C_WAIT_AUTH),
         kx_prf_self := tp_new server, kx_prf_peer := tp_new (\<not> server)\<rparr>\<rparr>\<rparr>)"

lemma demo_auth_fields:
  "pc_server (pc_of (demo_auth_end server)) = server" "cf_options_string (pc_cfg (pc_of (demo_auth_end server))) = []"
  "cf_peer_info (pc_cfg (pc_of (demo_auth_end server))) = []" "cf_xmit_creds (pc_cfg (pc_of (demo_auth_end server)))"
  "pc_client_auth (pc_of (demo_auth_end server)) = (\<lambda>b. bindE (write_auth_string [117] b) (write_auth_string [112]))"
  "pc_server_auth (pc_of (demo_auth_end server)) = (\<lambda>_ _ _. Inr ())"
  "pc_rng (pc_of (demo_auth_end server)) = (\<lambda>k n. replicate n (of_nat k))"
  "pc_frame (pc_of (demo_auth_end server)) = frame_set_default_context (ctx_make 64 512 0 0 1 0)"
  "kx_prf_self (kx_of (demo_auth_end server)) = tp_new server" "kx_prf_peer (kx_of (demo_auth_end server)) = tp_new (\<not> server)"
  "kx_app_recv_buf (kx_of (demo_auth_end server)) = []" "\<not> k_invalidated (demo_auth_end server)"
  "kx_state (kx_of (demo_auth_end server)) = (if server then S_WAIT_AUTH else C_WAIT_AUTH)"
  by (simp_all add: demo_auth_end_def Let_def demo_kst_def demo_proto_def demo_kx_def demo_config_def)

lemma demo_auth_ready:
  "auth_ready 0 (if server then ([], [], []) else ([117], [112], [])) (demo_auth_end server)"
proof -
  have c: "ctx_ok 0 (frame_set_default_context (ctx_make 64 512 0 0 1 0) ! WRITE_SSL_CLEARTEXT)"
    "f_payload (frame_set_default_context (ctx_make 64 512 0 0 1 0) ! WRITE_SSL_CLEARTEXT) = 512"
    using ctx_make_ok [of 1 0 64 512 0 0 0]
    by (simp_all add: frame_set_default_context_def N_ALIGN_CONTEXTS_def WRITE_SSL_CLEARTEXT_def ctx_make_def
        ctx_recalc_derived_def Let_def)
  then show ?thesis
    by (cases server) (simp_all add: auth_ready_def sends_creds_def demo_auth_fields c str_ok_def str_enc_def
        auth_bytes_def auth_prefix_def tp_bytes_def tp_sized_def tp_new_def APP_MSG_MAX_def)
qed

definition demo_mac :: mac where
  "demo_mac md key x = replicate (md_size md) (of_nat (length x))"

theorem auth_exchange_agrees_on_keys_witness:
  "\<exists>c1 m1 s1 m2 (c2 :: unit kst) c3 key. send_auth (demo_auth_end False) = (Inr (), c1)
    \<and> recv_all [m1] (demo_auth_end True) = (Inr (), s1) \<and> recv_all [m2] c2 = (Inr (), c3)
    \<and> generate_key_expansion demo_mac alloc_default (kx_prf_self (kx_of c3)) (kx_prf_peer (kx_of c3)) demo_psid demo_psid = Inr key
    \<and> generate_key_expansion demo_mac alloc_default (kx_prf_self (kx_of s1)) (kx_prf_peer (kx_of s1)) demo_psid demo_psid = Inr key"
proof -
  have ready: "auth_ready 0 ([117], [112], []) (demo_auth_end False)" "auth_ready 0 ([], [], []) (demo_auth_end True)"
    using demo_auth_ready [of True] demo_auth_ready [of False] by simp_all
  have pend: "auth_pending (demo_auth_end server)" for server
    by (simp add: demo_auth_fields auth_pending_def awaits_auth_def tp_new_def)
  have pre: "\<not> pc_server (pc_of (demo_auth_end False))" "pc_server (pc_of (demo_auth_end True))"
    "case ([117], [112], []) of (u, p, i) \<Rightarrow> pc_server_auth (pc_of (demo_auth_end True)) u p i = Inr ()"
    by (simp_all add: demo_auth_fields)
  obtain c1 m1 where c1: "send_auth (demo_auth_end False) = (Inr (), c1)"
    "k_app_queue c1 = k_app_queue (demo_auth_end False) @ [m1]" "whole_message [m1] (content m1)"
    and rest: "\<forall>bs. whole_message bs (content m1) \<longrightarrow>
      (\<exists>s1 m2. recv_all bs (demo_auth_end True) = (Inr (), s1) \<and> kx_state (kx_of s1) = S_WAIT_AUTH_ACK
        \<and> pc_auths (pc_of s1) = pc_auths (pc_of (demo_auth_end True)) @ [([117], [112], [])]
        \<and> k_app_queue s1 = k_app_queue (demo_auth_end True) @ [m2] \<and> whole_message [m2] (content m2) \<and>
        (\<forall>(c2 :: unit kst) cs. \<not> pc_server (pc_of c2) \<and> auth_pending c2
            \<and> kx_prf_self (kx_of c2) = kx_prf_self (kx_of c1) \<and> whole_message cs (content m2) \<longrightarrow>
          (\<exists>c3. recv_all cs c2 = (Inr (), c3) \<and> kx_state (kx_of c3) = C_WAIT_AUTH_ACK \<and>
            (\<exists>key. generate_key_expansion demo_mac alloc_default (kx_prf_self (kx_of c3)) (kx_prf_peer (kx_of c3)) demo_psid demo_psid = Inr key
              \<and> generate_key_expansion demo_mac alloc_default (kx_prf_self (kx_of s1)) (kx_prf_peer (kx_of s1)) demo_psid demo_psid = Inr key))))"
    using auth_exchange_agrees_on_keys [OF pre(1) ready(1) pre(2) ready(2) pend pre(3) refl refl, of demo_mac alloc_default demo_psid demo_psid alloc_default]
    by (elim exE conjE)
  define c2 where "c2 = on_kx (\<lambda>x. x\<lparr>kx_prf_self := kx_prf_self (kx_of c1)\<rparr>) (demo_auth_end False)"
  have c2: "\<not> pc_server (pc_of c2)" "auth_pending c2" "kx_prf_self (kx_of c2) = kx_prf_self (kx_of c1)"
    using pre(1) pend [of False] by (simp_all add: c2_def on_kx_def auth_pending_def awaits_auth_def)
  obtain s1 m2 where s1: "recv_all [m1] (demo_auth_end True) = (Inr (), s1)" "whole_message [m2] (content m2)"
    and last: "\<forall>(c2 :: unit kst) cs. \<not> pc_server (pc_of c2) \<and> auth_pending c2
            \<and> kx_prf_self (kx_of c2) = kx_prf_self (kx_of c1) \<and> whole_message cs (content m2) \<longrightarrow>
          (\<exists>c3. recv_all cs c2 = (Inr (), c3) \<and> kx_state (kx_of c3) = C_WAIT_AUTH_ACK \<and>
            (\<exists>key. generate_key_expansion demo_mac alloc_default (kx_prf_self (kx_of c3)) (kx_prf_peer (kx_of c3)) demo_psid demo_psid = Inr key
              \<and> generate_key_expansion demo_mac alloc_default (kx_prf_self (kx_of s1)) (kx_prf_peer (kx_of s1)) demo_psid demo_psid = Inr key))"
    using rest [rule_format, OF c1(3)] by (elim exE conjE)
  from last [rule_format, OF conjI [OF c2(1) conjI [OF c2(2) conjI [OF c2(3) s1(2)]]]]
  obtain c3 key where "recv_all [m2] c2 = (Inr (), c3)"
    "generate_key_expansion demo_mac alloc_default (kx_prf_self (kx_of c3)) (kx_prf_peer (kx_of c3)) demo_psid demo_psid = Inr key"
    "generate_key_expansion demo_mac alloc_default (kx_prf_self (kx_of s1)) (kx_prf_peer (kx_of s1)) demo_psid demo_psid = Inr key"
    by (elim exE conjE)
  with c1(1) s1(1) show ?thesis by blast
qed

end
