(* ===== verification/MssFix.thy ===== *)
theory MssFix
  imports Buffers
begin

text \<open>
  The Internet checksum (\<open>ip/csum.hpp\<close>), the headers it is used with (\<open>ip/ipcommon.hpp\<close>,
  \<open>ip/ip4.hpp\<close>, \<open>ip/ip6.hpp\<close>, \<open>ip/tcp.hpp\<close>) and the adjustment of the maximum segment size in
  TCP SYN packets (\<open>transport/mssfix.hpp\<close>).  \<open>le\<close> tells a little-endian machine from a big-endian
  one.  Headers are read in place: an access behind the packet is \<open>undefined_behaviour\<close>.
\<close>

section \<open>Memory\<close>

definition rd8 :: "nat \<Rightarrow> u8 list \<Rightarrow> u8 res" where
  "rd8 i d = (if i < length d then Inr (d ! i) else Inl undefined_behaviour)"

definition wr8 :: "nat \<Rightarrow> u8 \<Rightarrow> u8 list \<Rightarrow> u8 list res" where
  "wr8 i v d = (if i < length d then Inr (d[i := v]) else Inl undefined_behaviour)"

text \<open>A 16-bit word as the machine loads and stores it.\<close>

definition word_of :: "bool \<Rightarrow> u8 \<Rightarrow> u8 \<Rightarrow> int" where
  "word_of le a b = (if le then uint a + 256 * uint b else 256 * uint a + uint b)"

definition rd16 :: "bool \<Rightarrow> nat \<Rightarrow> u8 list \<Rightarrow> int res" where
  "rd16 le i d = bindE (rd8 i d) (\<lambda>a. bindE (rd8 (i + 1) d) (\<lambda>b. Inr (word_of le a b)))"

definition wr16 :: "bool \<Rightarrow> nat \<Rightarrow> int \<Rightarrow> u8 list \<Rightarrow> u8 list res" where
  "wr16 le i v d =
     (let lo = word_of_int v :: u8; hi = word_of_int (v div 256) :: u8 in
      bindE (wr8 i (if le then lo else hi) d) (wr8 (i + 1) (if le then hi else lo)))"

text \<open>\<open>htons\<close> and \<open>ntohs\<close>: the argument is converted to 16 bits.\<close>

definition htons :: "bool \<Rightarrow> int \<Rightarrow> int" where
  "htons le v = word_of le (word_of_int (v div 256)) (word_of_int v)"

section \<open>Header constants\<close>

definition IP_TCP :: u8 where "IP_TCP = 6"
definition OFFMASK :: int where "OFFMASK = 0x1fff"
definition OPT_EOL :: u8 where "OPT_EOL = 0"
definition OPT_NOP :: u8 where "OPT_NOP = 1"
definition OPT_MAXSEG :: u8 where "OPT_MAXSEG = 2"
definition OPTLEN_MAXSEG :: int where "OPTLEN_MAXSEG = 4"
definition FLAG_SYN :: u8 where "FLAG_SYN = 2"

definition IPv4Header_size :: nat where "IPv4Header_size = 20"
definition IPv6Header_size :: nat where "IPv6Header_size = 40"
definition TCPHeader_size :: nat where "TCPHeader_size = 20"

lemmas header_defs = IP_TCP_def OFFMASK_def OPT_EOL_def OPT_NOP_def OPT_MAXSEG_def OPTLEN_MAXSEG_def
  FLAG_SYN_def IPv4Header_size_def IPv6Header_size_def TCPHeader_size_def

definition ip_version :: "u8 \<Rightarrow> nat" where
  "ip_version version_len_prio = unat (drop_bit 4 version_len_prio AND 0x0F)"

definition ipv4_length :: "u8 \<Rightarrow> nat" where
  "ipv4_length version_len = unat (version_len AND 0x0F) * 4"

definition ipv4_ver_len :: "nat \<Rightarrow> nat \<Rightarrow> u8" where
  "ipv4_ver_len version len = of_nat ((len div 4) mod 16 + version mod 16 * 16)"

definition tcp_length :: "u8 \<Rightarrow> nat" where
  "tcp_length doff_res = unat (doff_res AND 0xF0) div 4"

section \<open>\<open>tcp_adjust_checksum\<close>\<close>

definition fold_acc :: "int \<Rightarrow> int" where
  "fold_acc acc = (let acc = acc div 65536 + acc mod 65536 in acc + acc div 65536)"

definition tcp_adjust_checksum :: "int \<Rightarrow> int \<Rightarrow> int" where
  "tcp_adjust_checksum acc cksum =
     (let acc = acc + cksum in
      if acc < 0 then (- fold_acc (- acc) - 1) mod 65536
      else fold_acc acc mod 65536)"

section \<open>\<open>MSSFix\<close>\<close>

text \<open>The option at \<open>opt\<close> announces a segment size; \<open>tcp\<close> is where the TCP header is.\<close>

definition clamp_mss :: "bool \<Rightarrow> int \<Rightarrow> nat \<Rightarrow> nat \<Rightarrow> u8 list \<Rightarrow> u8 list res" where
  "clamp_mss le max_mss tcp opt d =
     bindE (rd8 (opt + 2) d) (\<lambda>hi. bindE (rd8 (opt + 3) d) (\<lambda>lo.
       let mssval = 256 * uint hi + uint lo in
       if mssval > max_mss then
         bindE (wr8 (opt + 2) (word_of_int (max_mss div 256)) d) (\<lambda>d.
         bindE (wr8 (opt + 3) (word_of_int max_mss) d) (\<lambda>d.
         bindE (rd16 le (tcp + 16) d) (\<lambda>check.
           wr16 le (tcp + 16) (tcp_adjust_checksum (htons le mssval - htons le max_mss) check) d)))
       else Inr d))"

lemma uint_pos: "0 < uint (x :: u8) \<longleftrightarrow> uint x \<noteq> 0"
  by (simp add: less_le)

function mss_loop :: "bool \<Rightarrow> int \<Rightarrow> nat \<Rightarrow> int \<Rightarrow> nat \<Rightarrow> u8 list \<Rightarrow> u8 list res" where
  "mss_loop le max_mss tcp olen opt d =
     (if olen > 1 then
        bindE (rd8 opt d) (\<lambda>k.
          if k = OPT_EOL then Inr d
          else if k = OPT_NOP then mss_loop le max_mss tcp (olen - 1) (opt + 1) d
          else bindE (rd8 (opt + 1) d) (\<lambda>l.
            let optlen = uint l in
            if optlen \<le> 0 \<or> optlen > olen then Inr d
            else bindE (if k = OPT_MAXSEG \<and> optlen = OPTLEN_MAXSEG then clamp_mss le max_mss tcp opt d else Inr d)
              (\<lambda>d. mss_loop le max_mss tcp (olen - optlen) (opt + nat optlen) d)))
      else Inr d)"
  by pat_completeness auto
termination
  by (relation "measure (\<lambda>(le, max_mss, tcp, olen, opt, d). nat olen)") (auto simp: uint_pos)

declare mss_loop.simps [simp del]

definition do_mssfix :: "bool \<Rightarrow> nat \<Rightarrow> int \<Rightarrow> int \<Rightarrow> u8 list \<Rightarrow> u8 list res" where
  "do_mssfix le tcp max_mss ip_payload_len d =
     bindE (rd8 (tcp + 13) d) (\<lambda>flags.
       if flags AND FLAG_SYN = 0 then Inr d
       else bindE (rd8 (tcp + 12) d) (\<lambda>doff_res.
         let tcphlen = int (tcp_length doff_res) in
         if tcphlen \<le> int TCPHeader_size \<or> tcphlen > ip_payload_len then Inr d
         else mss_loop le max_mss tcp (tcphlen - int TCPHeader_size) (tcp + TCPHeader_size) d))"

text \<open>\<open>mss_inter - sizeof ...\<close> is computed as \<open>size_t\<close> and converted back to \<open>int\<close>.\<close>

definition to_int32 :: "int \<Rightarrow> int" where
  "to_int32 v = (v + 2 ^ 31) mod 2 ^ 32 - 2 ^ 31"

definition mssfix_v4 :: "bool \<Rightarrow> int \<Rightarrow> u8 list \<Rightarrow> u8 list res" where
  "mssfix_v4 le mss_inter d =
     (if length d \<le> IPv4Header_size then Inr d
      else
        bindE (rd8 0 d) (\<lambda>version_len. bindE (rd8 9 d) (\<lambda>protocol.
        bindE (rd16 False 2 d) (\<lambda>tot_len. bindE (rd16 False 6 d) (\<lambda>frag_off.
          let ipv4hlen = ipv4_length version_len in
          if protocol = IP_TCP \<and> tot_len = int (length d) \<and> frag_off mod (OFFMASK + 1) = 0
            \<and> ipv4hlen \<le> length d \<and> length d - ipv4hlen \<ge> TCPHeader_size
          then do_mssfix le ipv4hlen (to_int32 (mss_inter - int (IPv4Header_size + TCPHeader_size)))
                 (int (length d - ipv4hlen)) d
          else Inr d)))))"

definition mssfix_v6 :: "bool \<Rightarrow> int \<Rightarrow> u8 list \<Rightarrow> u8 list res" where
  "mssfix_v6 le mss_inter d =
     (if length d \<le> IPv6Header_size then Inr d
      else
        bindE (rd16 False 4 d) (\<lambda>payload_len. bindE (rd8 6 d) (\<lambda>nexthdr.
          if int (length d) \<noteq> payload_len + int IPv6Header_size \<or> nexthdr \<noteq> IP_TCP then Inr d
          else
            let payload_len = length d - IPv6Header_size in
            if payload_len \<ge> TCPHeader_size
            then do_mssfix le IPv6Header_size (to_int32 (mss_inter - int (IPv6Header_size + TCPHeader_size)))
                   (int payload_len) d
            else Inr d)))"

definition mssfix_data :: "bool \<Rightarrow> int \<Rightarrow> u8 list \<Rightarrow> u8 list res" where
  "mssfix_data le mss_inter d =
     (if d = [] then Inr d
      else
        let v = ip_version (d ! 0) in
        if v = 4 then mssfix_v4 le mss_inter d
        else if v = 6 then mssfix_v6 le mss_inter d
        else Inr d)"

definition mssfix :: "bool \<Rightarrow> int \<Rightarrow> buffer \<Rightarrow> buffer res" where
  "mssfix le mss_inter b =
     bindE (mssfix_data le mss_inter (content b)) (\<lambda>d. Inr (b\<lparr>b_data := blit (b_data b) (b_off b) d\<rparr>))"


section \<open>Access within the packet\<close>

lemma rd8_Inr [simp]: "i < length d \<Longrightarrow> rd8 i d = Inr (d ! i)"
  by (simp add: rd8_def)

lemma wr8_Inr [simp]: "i < length d \<Longrightarrow> wr8 i v d = Inr (d[i := v])"
  by (simp add: wr8_def)

lemma rd16_Inr: "i + 1 < length d \<Longrightarrow> rd16 le i d = Inr (word_of le (d ! i) (d ! (i + 1)))"
  by (simp add: rd16_def)

lemma wr16_Inr:
  "i + 1 < length d \<Longrightarrow> wr16 le i v d = Inr (d[i := word_of_int (if le then v else v div 256),
     i + 1 := word_of_int (if le then v div 256 else v)])"
  by (simp add: wr16_def Let_def)

lemma uint_word_of_int_byte: "uint (word_of_int v :: u8) = v mod 256"
  by (simp add: uint_word_of_int)

lemma word_of_split:
  assumes "0 \<le> v" and "v < 65536"
  shows "word_of le (word_of_int (if le then v else v div 256)) (word_of_int (if le then v div 256 else v)) = v"
proof -
  have "v div 256 < 256" "v div 256 \<ge> 0" using assms by auto
  then show ?thesis by (cases le) (simp_all add: word_of_def uint_word_of_int_byte)
qed

lemma word_of_bounds: "0 \<le> word_of le a b" "word_of le a b < 65536"
  using uint_lt2p [of a] uint_lt2p [of b] by (auto simp: word_of_def)

section \<open>The checksum\<close>

text \<open>The sum of the 16-bit words, an odd byte at the end padded with zero.\<close>

fun word_sum :: "bool \<Rightarrow> u8 list \<Rightarrow> int" where
  "word_sum le [] = 0"
| "word_sum le [a] = word_of le a 0"
| "word_sum le (a # b # d) = word_of le a b + word_sum le d"

lemma word_sum_update:
  "even i \<Longrightarrow> i + 1 < length d \<Longrightarrow> word_sum le (d[i := x, i + 1 := y])
     = word_sum le d - word_of le (d ! i) (d ! (i + 1)) + word_of le x y"
proof (induction le d arbitrary: i rule: word_sum.induct)
  case (3 le a b d)
  show ?case
  proof (cases i)
    case (Suc j)
    then obtain k where "i = Suc (Suc k)" "even k" using 3(2) by (cases j) auto
    with 3 show ?thesis by simp
  qed simp
qed auto

lemma fold_acc_small: "0 \<le> a \<Longrightarrow> a < 65536 \<Longrightarrow> fold_acc a = a"
  by (simp add: fold_acc_def)

lemma fold_acc_large: "0 \<le> a \<Longrightarrow> a < 65535 \<Longrightarrow> fold_acc (65536 + a) = a + 1"
  by (simp add: fold_acc_def)

lemma fold_acc_mod:
  assumes "0 \<le> a" and "a < 131071"
  shows "fold_acc a mod 65535 = a mod 65535 \<and> 0 \<le> fold_acc a \<and> fold_acc a < 65536"
proof (cases "a < 65536")
  case False
  then obtain r where "a = 65536 + r" "0 \<le> r" "r < 65535" using assms(2) by (intro that [of "a - 65536"]) simp_all
  moreover have "(65536 + r) mod 65535 = (r + 1) mod 65535" using mod_add_self2 [of "r + 1" 65535] by (simp add: add.commute)
  ultimately show ?thesis using fold_acc_large [of r] by simp
qed (use assms in \<open>simp add: fold_acc_small\<close>)

lemma tcp_adjust_checksum_mod:
  assumes "0 \<le> c" and "c < 65536" and "- 65536 < a" and "a < 65536"
  shows "tcp_adjust_checksum a c mod 65535 = (a + c) mod 65535"
    and "0 \<le> tcp_adjust_checksum a c" and "tcp_adjust_checksum a c < 65536"
proof -
  have "(- fold_acc (- (a + c)) - 1) mod 65536 mod 65535 = (a + c) mod 65535" if "a + c < 0"
  proof -
    let ?f = "fold_acc (- (a + c))"
    have f: "?f mod 65535 = - (a + c) mod 65535" "0 \<le> ?f" "?f < 65536"
      using fold_acc_mod [of "- (a + c)"] that assms by auto
    have "(- ?f - 1) mod 65536 = (- ?f - 1 + 65536) mod 65536" by (rule mod_add_self2 [symmetric])
    also have "- ?f - 1 + 65536 = 65535 - ?f" by simp
    also have "(65535 - ?f) mod 65536 = 65535 - ?f" by (rule mod_pos_pos_trivial) (use f(2,3) in linarith)+
    finally have "(- ?f - 1) mod 65536 mod 65535 = (65535 - ?f) mod 65535" by simp
    also have "\<dots> mod 65535 = - (?f mod 65535) mod 65535" by (simp add: mod_simps)
    also have "\<dots> = (a + c) mod 65535" unfolding f(1) by (simp add: mod_simps add.commute)
    finally show ?thesis by simp
  qed
  moreover have "fold_acc (a + c) mod 65536 mod 65535 = (a + c) mod 65535" if "\<not> a + c < 0"
    using fold_acc_mod [of "a + c"] that assms by simp
  ultimately show "tcp_adjust_checksum a c mod 65535 = (a + c) mod 65535"
    by (simp add: tcp_adjust_checksum_def Let_def)
qed (simp_all add: tcp_adjust_checksum_def Let_def)


section \<open>The options\<close>

text \<open>Where the walk over the options meets an announcement of the segment size.\<close>

function mss_at :: "int \<Rightarrow> nat \<Rightarrow> u8 list \<Rightarrow> nat list" where
  "mss_at olen opt d =
     (if olen > 1 then
        (let k = d ! opt; optlen = uint (d ! (opt + 1)) in
         if k = OPT_EOL then []
         else if k = OPT_NOP then mss_at (olen - 1) (opt + 1) d
         else if optlen \<le> 0 \<or> optlen > olen then []
         else (if k = OPT_MAXSEG \<and> optlen = OPTLEN_MAXSEG then [opt] else [])
           @ mss_at (olen - optlen) (opt + nat optlen) d)
      else [])"
  by pat_completeness auto
termination
  by (relation "measure (\<lambda>(olen, opt, d). nat olen)") (auto simp: uint_pos)

declare mss_at.simps [simp del]

definition mss_value :: "nat \<Rightarrow> u8 list \<Rightarrow> int" where
  "mss_value p d = 256 * uint (d ! (p + 2)) + uint (d ! (p + 3))"

lemma mss_value_bounds: "0 \<le> mss_value p d" "mss_value p d < 65536"
  using uint_lt2p [of "d ! (p + 2)"] uint_lt2p [of "d ! (p + 3)"] by (auto simp: mss_value_def)

lemma htons_bytes: "htons le (256 * uint a + uint b) = word_of le a b"
proof -
  have "(256 * uint a + uint b) div 256 = uint a" "(256 * uint a + uint b) mod 256 = uint b"
    using uint_lt2p [of b] uint_ge_0 [of b] by (simp_all add: div_pos_pos_trivial)
  moreover have "word_of_int (256 * uint a + uint b) = b"
    using calculation(2) by (simp only: word_uint_eq_iff uint_word_of_int_byte)
  ultimately show ?thesis by (simp add: htons_def)
qed


lemma htons_value: "htons le (mss_value p d) = word_of le (d ! (p + 2)) (d ! (p + 3))"
  by (simp add: mss_value_def htons_bytes)

lemma clamp_mss_ok:
  assumes "opt + 3 < length d" and "tcp + 20 \<le> opt" and "0 \<le> max_mss"
  obtains d' where "clamp_mss le max_mss tcp opt d = Inr d'" and "length d' = length d"
    and "mss_value opt d' = min (mss_value opt d) max_mss"
    and "\<forall>j. j \<notin> {tcp + 16, tcp + 17, opt + 2, opt + 3} \<longrightarrow> d' ! j = d ! j"
    and "even (opt - tcp) \<Longrightarrow> word_sum le (drop tcp d') mod 65535 = word_sum le (drop tcp d) mod 65535"
proof (cases "mss_value opt d > max_mss")
  case False
  then have "clamp_mss le max_mss tcp opt d = Inr d"
    using assms(1) by (simp add: clamp_mss_def mss_value_def)
  with False that [of d] show ?thesis by simp
next
  case True
  let ?h = "word_of_int (max_mss div 256) :: u8" and ?l = "word_of_int max_mss :: u8"
  define d1 where "d1 = d[opt + 2 := ?h, opt + 3 := ?l]"
  define acc where "acc = htons le (mss_value opt d) - htons le max_mss"
  define c where "c = word_of le (d1 ! (tcp + 16)) (d1 ! (tcp + 17))"
  define c' where "c' = tcp_adjust_checksum acc c"
  define d2 where "d2 = d1[tcp + 16 := word_of_int (if le then c' else c' div 256),
    tcp + 17 := word_of_int (if le then c' div 256 else c')]"
  have "clamp_mss le max_mss tcp opt d = Inr d2"
    using True assms by (simp add: clamp_mss_def mss_value_def [symmetric] rd16_Inr wr16_Inr Let_def d2_def d1_def c'_def
        c_def acc_def add.assoc add.commute [of tcp 17] del: add_2_eq_Suc')
  moreover have "length d2 = length d" by (simp add: d2_def d1_def)
  moreover have max: "0 \<le> max_mss" "max_mss < 65536" using True assms(3) mss_value_bounds [of opt d] by simp_all
  moreover have "mss_value opt d2 = max_mss"
  proof -
    have "d2 ! (opt + 2) = ?h" "d2 ! (opt + 3) = ?l" using assms(1,2) by (simp_all add: d2_def d1_def)
    then show ?thesis using max by (simp add: mss_value_def uint_word_of_int_byte)
  qed
  moreover have "\<forall>j. j \<notin> {tcp + 16, tcp + 17, opt + 2, opt + 3} \<longrightarrow> d2 ! j = d ! j"
    by (simp add: d2_def d1_def)
  moreover have "word_sum le (drop tcp d2) mod 65535 = word_sum le (drop tcp d) mod 65535" if ev: "even (opt - tcp)"
  proof -
    obtain i where i: "opt = tcp + i" "even i" "20 \<le> i" using assms(2) ev by (metis add_leD1 le_add_diff_inverse add_le_cancel_left)
    have d1: "drop tcp d1 = (drop tcp d)[i + 2 := ?h, (i + 2) + 1 := ?l]"
      by (simp add: d1_def drop_update_swap i(1) add.assoc eval_nat_numeral)
    have d2: "drop tcp d2 = (drop tcp d1)[16 := word_of_int (if le then c' else c' div 256),
        16 + 1 := word_of_int (if le then c' div 256 else c')]"
      by (simp add: d2_def drop_update_swap)
    have "word_sum le (drop tcp d1) = word_sum le (drop tcp d) - htons le (mss_value opt d) + htons le max_mss"
    proof -
      have l: "even (i + 2)" "i + 2 + 1 < length (drop tcp d)" using assms(1) i by simp_all
      have "drop tcp d ! (i + 2) = d ! (opt + 2)" "drop tcp d ! (i + 2 + 1) = d ! (opt + 3)"
        using assms(1) by (simp_all add: i(1) eval_nat_numeral)
      moreover have "htons le max_mss = word_of le ?h ?l" by (simp add: htons_def)
      ultimately show ?thesis by (simp only: d1 htons_value word_sum_update [OF l])
    qed
    moreover have "word_sum le (drop tcp d2) = word_sum le (drop tcp d1) - c + c'"
    proof -
      have b: "0 \<le> c'" "c' < 65536" by (simp_all add: c'_def tcp_adjust_checksum_def Let_def)
      have "16 + 1 < length (drop tcp d1)" using assms(1) i by (simp add: d1_def)
      then show ?thesis
        unfolding d2 using word_sum_update [of 16 "drop tcp d1" le] word_of_split [OF b, of le]
        by (simp add: c_def)
    qed
    moreover have "c' mod 65535 = (acc + c) mod 65535"
    proof -
      have h: "0 \<le> htons le v" "htons le v < 65536" for v using word_of_bounds by (simp_all add: htons_def)
      have "- 65536 < acc" "acc < 65536"
        using h(1,2) [of "mss_value opt d"] h(1,2) [of max_mss] unfolding acc_def by linarith+
      then show ?thesis unfolding c'_def by (rule tcp_adjust_checksum_mod(1) [rotated 2]) (simp_all add: c_def word_of_bounds)
    qed
    ultimately have "word_sum le (drop tcp d2) = (word_sum le (drop tcp d) - acc - c) + c'"
      and "c' mod 65535 = (acc + c) mod 65535" by (simp_all add: acc_def)
    then have "word_sum le (drop tcp d2) mod 65535 = (word_sum le (drop tcp d) - acc - c + (acc + c)) mod 65535"
      by (metis mod_add_right_eq)
    then show ?thesis by simp
  qed
  ultimately show ?thesis using that [of d2] True by simp
qed


text \<open>The bytes that the loop may change: the checksum, and the values of the options it meets.\<close>

definition mss_area :: "nat \<Rightarrow> nat list \<Rightarrow> nat set" where
  "mss_area tcp ps = {tcp + 16, tcp + 17} \<union> {j. \<exists>p \<in> set ps. j = p + 2 \<or> j = p + 3}"

lemma mss_at_cong:
  "(\<And>j. opt \<le> j \<Longrightarrow> int j < int opt + olen \<Longrightarrow> d' ! j = d ! j) \<Longrightarrow> mss_at olen opt d' = mss_at olen opt d"
proof (induction olen opt d rule: mss_at.induct)
  case (1 olen opt d)
  show ?case
  proof (cases "olen > 1")
    case True
    then have h: "d' ! opt = d ! opt" "d' ! (opt + 1) = d ! (opt + 1)" using 1(3) by simp_all
    let ?k = "d ! opt" and ?l = "uint (d ! (opt + 1))"
    have nop: "mss_at (olen - 1) (opt + 1) d' = mss_at (olen - 1) (opt + 1) d" if "?k \<noteq> OPT_EOL" "?k = OPT_NOP"
      using 1(1) [OF True refl refl that] 1(3) by simp
    have step: "mss_at (olen - ?l) (opt + nat ?l) d' = mss_at (olen - ?l) (opt + nat ?l) d"
      if "?k \<noteq> OPT_EOL" "?k \<noteq> OPT_NOP" "\<not> (?l \<le> 0 \<or> ?l > olen)"
      using 1(2) [OF True refl refl that] 1(3) that(3) by simp
    show ?thesis
      using h nop step mss_at.simps [of olen opt d] mss_at.simps [of olen opt d'] by (auto simp: Let_def)
  qed (simp add: mss_at.simps)
qed

lemma mss_at_range:
  "p \<in> set (mss_at olen opt d) \<Longrightarrow> opt \<le> p \<and> int p + 4 \<le> int opt + olen"
proof (induction olen opt d rule: mss_at.induct)
  case (1 olen opt d)
  show ?case
    using 1(1) [OF _ refl refl] 1(2) [OF _ refl refl] 1(3) [unfolded mss_at.simps [of olen opt d]]
    by (auto simp: Let_def OPTLEN_MAXSEG_def split: if_splits)
qed


definition loop_done :: "bool \<Rightarrow> int \<Rightarrow> nat \<Rightarrow> nat list \<Rightarrow> u8 list \<Rightarrow> u8 list \<Rightarrow> bool" where
  "loop_done le max_mss tcp ps d d' \<longleftrightarrow> length d' = length d \<and> (\<forall>j. j \<notin> mss_area tcp ps \<longrightarrow> d' ! j = d ! j)
     \<and> (\<forall>p \<in> set ps. mss_value p d' = min (mss_value p d) max_mss)
     \<and> ((\<forall>p \<in> set ps. even (p - tcp)) \<longrightarrow>
          word_sum le (drop tcp d') mod 65535 = word_sum le (drop tcp d) mod 65535)"

lemma loop_done_step:
  assumes "tcp + 20 \<le> opt" and "loop_done le max_mss tcp qs d d1" and "loop_done le max_mss tcp ps d1 d'"
    and "qs = [] \<or> qs = [opt]" and "\<forall>p \<in> set ps. opt + 4 \<le> p \<or> qs = [] \<and> opt \<le> p"
  shows "loop_done le max_mss tcp (qs @ ps) d d'"
proof -
  have 1: "mss_value p d1 = mss_value p d" if "p \<in> set ps" for p
    using that assms(1,2,4,5) by (auto simp: loop_done_def mss_area_def mss_value_def)
  have 2: "mss_value opt d' = mss_value opt d1" if "qs = [opt]"
  proof -
    have "opt + 2 \<notin> mss_area tcp ps" "opt + 3 \<notin> mss_area tcp ps"
      using that assms(1,5) by (auto simp: mss_area_def)
    then show ?thesis using assms(3) by (simp add: loop_done_def mss_value_def)
  qed
  show ?thesis
    using assms(2-4) 1 2 by (auto simp: loop_done_def mss_area_def)
qed

lemma mss_loop_ok:
  "0 \<le> olen \<Longrightarrow> int opt + olen \<le> int (length d) \<Longrightarrow> tcp + 20 \<le> opt \<Longrightarrow> 0 \<le> max_mss
     \<Longrightarrow> \<exists>d'. mss_loop le max_mss tcp olen opt d = Inr d' \<and> loop_done le max_mss tcp (mss_at olen opt d) d d'"
proof (induction le max_mss tcp olen opt d rule: mss_loop.induct)
  case (1 le max_mss tcp olen opt d)
  note prems = 1(3-6)
  have none: "loop_done le max_mss tcp [] d d" by (simp add: loop_done_def)
  show ?case
  proof (cases "olen > 1")
    case False
    with none show ?thesis by (simp add: mss_loop.simps mss_at.simps)
  next
    case True
    let ?k = "d ! opt" and ?l = "uint (d ! (opt + 1))"
    have rd: "rd8 opt d = Inr ?k" "rd8 (opt + 1) d = Inr (d ! (opt + 1))" using True prems(2) by simp_all
    consider "?k = OPT_EOL" | "?k = OPT_NOP" "?k \<noteq> OPT_EOL" | "?k \<noteq> OPT_EOL" "?k \<noteq> OPT_NOP" "?l \<le> 0 \<or> ?l > olen"
      | "?k \<noteq> OPT_EOL" "?k \<noteq> OPT_NOP" "\<not> (?l \<le> 0 \<or> ?l > olen)" by blast
    then show ?thesis
    proof cases
      case 2
      then show ?thesis
        using 1(1) [OF True rd(1) 2(2,1)] prems True rd by (simp add: mss_loop.simps [of le max_mss tcp olen opt d] mss_at.simps [of olen opt d])
    next
      case 4
      define qs where "qs = (if ?k = OPT_MAXSEG \<and> ?l = OPTLEN_MAXSEG then [opt] else [])"
      obtain d1 where d1: "(if ?k = OPT_MAXSEG \<and> ?l = OPTLEN_MAXSEG then clamp_mss le max_mss tcp opt d else Inr d) = Inr d1"
        "loop_done le max_mss tcp qs d d1"
      proof (cases "?k = OPT_MAXSEG \<and> ?l = OPTLEN_MAXSEG")
        case T: True
        then have "opt + 3 < length d" using 4(3) prems(2) by (simp add: OPTLEN_MAXSEG_def)
        from clamp_mss_ok [OF this prems(3,4)] obtain e where "clamp_mss le max_mss tcp opt d = Inr e"
          "length e = length d" "mss_value opt e = min (mss_value opt d) max_mss"
          "\<forall>j. j \<notin> {tcp + 16, tcp + 17, opt + 2, opt + 3} \<longrightarrow> e ! j = d ! j"
          "even (opt - tcp) \<Longrightarrow> word_sum le (drop tcp e) mod 65535 = word_sum le (drop tcp d) mod 65535" by blast
        with T that [of e] show ?thesis by (auto simp: qs_def loop_done_def mss_area_def)
      next
        case F: False
        then show ?thesis using that [of d] none unfolding qs_def by (simp only: F if_False)
      qed
      have rest: "mss_at (olen - ?l) (opt + nat ?l) d1 = mss_at (olen - ?l) (opt + nat ?l) d"
      proof (rule mss_at_cong)
        fix j assume j: "opt + nat ?l \<le> j"
        have "j \<notin> mss_area tcp qs"
        proof (cases "?k = OPT_MAXSEG \<and> ?l = OPTLEN_MAXSEG")
          case T: True
          then have "nat ?l = 4" by (simp only: OPTLEN_MAXSEG_def nat_numeral)
          with j prems(3) show ?thesis by (simp only: qs_def T) (auto simp: mss_area_def)
        qed (use j prems(3) in \<open>auto simp: mss_area_def qs_def\<close>)
        then show "d1 ! j = d ! j" using d1(2) by (simp add: loop_done_def)
      qed
      have len: "int (opt + nat ?l) + (olen - ?l) \<le> int (length d1)" "tcp + 20 \<le> opt + nat ?l" "0 \<le> olen - ?l"
        using d1(2) 4(3) prems by (auto simp: loop_done_def)
      obtain d' where d': "mss_loop le max_mss tcp (olen - ?l) (opt + nat ?l) d1 = Inr d'"
        "loop_done le max_mss tcp (mss_at (olen - ?l) (opt + nat ?l) d) d1 d'"
        using 1(2) [OF True rd(1) 4(1,2) rd(2) refl 4(3) d1(1) len(3,1,2) prems(4)] rest by auto
      have far: "\<forall>p \<in> set (mss_at (olen - ?l) (opt + nat ?l) d). opt + 4 \<le> p \<or> qs = [] \<and> opt \<le> p"
      proof (cases "?k = OPT_MAXSEG \<and> ?l = OPTLEN_MAXSEG")
        case T: True
        then have "nat ?l = 4" by (simp only: OPTLEN_MAXSEG_def nat_numeral)
        then show ?thesis using mss_at_range [of _ "olen - ?l" "opt + nat ?l" d] by metis
      next
        case F: False
        then have "qs = []" unfolding qs_def by (simp only: F if_False)
        moreover have "opt \<le> p" if "p \<in> set (mss_at (olen - ?l) (opt + nat ?l) d)" for p
          using mss_at_range [OF that] by linarith
        ultimately show ?thesis by blast
      qed
      have "loop_done le max_mss tcp (qs @ mss_at (olen - ?l) (opt + nat ?l) d) d d'"
        by (rule loop_done_step [OF prems(3) d1(2) d'(2) _ far]) (simp add: qs_def)
      then show ?thesis
        using 4 True rd d1(1) d'(1)
        by (simp add: mss_loop.simps [of le max_mss tcp olen opt d] mss_at.simps [of olen opt d] Let_def qs_def)
    qed (use none True rd in \<open>auto simp: mss_loop.simps [of le max_mss tcp olen opt d] mss_at.simps [of olen opt d]\<close>)
  qed
qed


section \<open>Packets\<close>

definition tcp_start :: "u8 list \<Rightarrow> nat" where
  "tcp_start d = (if ip_version (d ! 0) = 4 then ipv4_length (d ! 0) else IPv6Header_size)"

definition mss_limit :: "int \<Rightarrow> u8 list \<Rightarrow> int" where
  "mss_limit mss_inter d = mss_inter - (if ip_version (d ! 0) = 4 then 40 else 60)"

definition mss_options :: "u8 list \<Rightarrow> nat list" where
  "mss_options d = mss_at (int (tcp_length (d ! (tcp_start d + 12))) - int TCPHeader_size) (tcp_start d + TCPHeader_size) d"

text \<open>A whole TCP packet with the SYN flag, in IPv4 and not a later fragment, or in IPv6.\<close>

definition tcp_syn :: "u8 list \<Rightarrow> bool" where
  "tcp_syn d \<longleftrightarrow>
     (ip_version (d ! 0) = 4 \<and> length d > IPv4Header_size \<and> d ! 9 = IP_TCP \<and> word_of False (d ! 2) (d ! 3) = int (length d)
        \<and> word_of False (d ! 6) (d ! 7) mod (OFFMASK + 1) = 0
      \<or> ip_version (d ! 0) = 6 \<and> length d > IPv6Header_size \<and> d ! 6 = IP_TCP
        \<and> word_of False (d ! 4) (d ! 5) + int IPv6Header_size = int (length d))
     \<and> tcp_start d + TCPHeader_size \<le> length d \<and> d ! (tcp_start d + 13) AND FLAG_SYN \<noteq> 0
     \<and> tcp_start d + tcp_length (d ! (tcp_start d + 12)) \<le> length d"

lemma do_mssfix_ok:
  assumes "tcp + TCPHeader_size \<le> length d" and "0 \<le> max_mss"
  shows "\<exists>d'. do_mssfix le tcp max_mss (int (length d - tcp)) d = Inr d' \<and>
    (if d ! (tcp + 13) AND FLAG_SYN \<noteq> 0 \<and> tcp + tcp_length (d ! (tcp + 12)) \<le> length d
     then loop_done le max_mss tcp (mss_at (int (tcp_length (d ! (tcp + 12))) - int TCPHeader_size) (tcp + TCPHeader_size) d) d d'
     else d' = d)"
proof -
  let ?n = "tcp_length (d ! (tcp + 12))"
  have rd: "rd8 (tcp + 13) d = Inr (d ! (tcp + 13))" "rd8 (tcp + 12) d = Inr (d ! (tcp + 12))"
    using assms(1) by (simp_all add: TCPHeader_size_def)
  have same: "loop_done le max_mss tcp [] d d" by (simp add: loop_done_def)
  show ?thesis
  proof (cases "d ! (tcp + 13) AND FLAG_SYN \<noteq> 0 \<and> int ?n > int TCPHeader_size \<and> tcp + ?n \<le> length d")
    case True
    then have "\<not> (int ?n \<le> int TCPHeader_size \<or> int ?n > int (length d - tcp))" by auto
    with True rd have "do_mssfix le tcp max_mss (int (length d - tcp)) d
        = mss_loop le max_mss tcp (int ?n - int TCPHeader_size) (tcp + TCPHeader_size) d"
      by (simp add: do_mssfix_def Let_def)
    with True mss_loop_ok [of "int ?n - int TCPHeader_size" "tcp + TCPHeader_size" d tcp max_mss le] assms show ?thesis
      by (auto simp: TCPHeader_size_def)
  next
    case False
    then have "do_mssfix le tcp max_mss (int (length d - tcp)) d = Inr d"
      using rd assms(1) by (auto simp: do_mssfix_def Let_def)
    moreover have "mss_at (int ?n - int TCPHeader_size) (tcp + TCPHeader_size) d = []" if "int ?n \<le> int TCPHeader_size"
      using that by (simp add: mss_at.simps)
    ultimately show ?thesis using False same by auto
  qed
qed

lemma to_int32_id: "- (2 ^ 31) \<le> v \<Longrightarrow> v < 2 ^ 31 \<Longrightarrow> to_int32 v = v"
  by (simp add: to_int32_def)

definition fixed :: "bool \<Rightarrow> int \<Rightarrow> u8 list \<Rightarrow> u8 list \<Rightarrow> bool" where
  "fixed le m d d' \<longleftrightarrow>
     (if tcp_syn d then loop_done le (mss_limit m d) (tcp_start d) (mss_options d) d d' else d' = d)"

lemma mssfix_v4_ok:
  assumes "ip_version (d ! 0) = 4" and "60 \<le> m" and "m < 2 ^ 31"
  shows "\<exists>d'. mssfix_v4 le m d = Inr d' \<and> fixed le m d d'"
proof (cases "length d \<le> IPv4Header_size")
  case True
  then show ?thesis using assms(1) by (simp add: mssfix_v4_def fixed_def tcp_syn_def)
next
  case False
  let ?h = "ipv4_length (d ! 0)"
  let ?ok = "d ! 9 = IP_TCP \<and> word_of False (d ! 2) (d ! 3) = int (length d)
    \<and> word_of False (d ! 6) (d ! 7) mod (OFFMASK + 1) = 0 \<and> ?h + TCPHeader_size \<le> length d"
  have rd: "rd8 0 d = Inr (d ! 0)" "rd8 9 d = Inr (d ! 9)" "rd16 False 2 d = Inr (word_of False (d ! 2) (d ! 3))"
    "rd16 False 6 d = Inr (word_of False (d ! 6) (d ! 7))"
    using False by (cases d; simp add: IPv4Header_size_def rd16_Inr)+
  have lim: "to_int32 (m - int (IPv4Header_size + TCPHeader_size)) = m - 40" "0 \<le> m - 40"
    using assms(2,3) by (simp_all add: to_int32_id header_defs)
  have "mssfix_v4 le m d = (if ?ok then do_mssfix le ?h (m - 40) (int (length d - ?h)) d else Inr d)"
    using False rd lim(1) by (auto simp: mssfix_v4_def Let_def)
  moreover have "tcp_syn d \<longleftrightarrow> ?ok \<and> d ! (?h + 13) AND FLAG_SYN \<noteq> 0 \<and> ?h + tcp_length (d ! (?h + 12)) \<le> length d"
    using False assms(1) by (auto simp: tcp_syn_def tcp_start_def)
  ultimately show ?thesis
    using do_mssfix_ok [of ?h d "m - 40" le] lim(2) assms(1) by (auto simp: fixed_def mss_limit_def tcp_start_def mss_options_def)
qed

lemma mssfix_v6_ok:
  assumes "ip_version (d ! 0) = 6" and "60 \<le> m" and "m < 2 ^ 31"
  shows "\<exists>d'. mssfix_v6 le m d = Inr d' \<and> fixed le m d d'"
proof (cases "length d \<le> IPv6Header_size")
  case True
  then show ?thesis using assms(1) by (simp add: mssfix_v6_def fixed_def tcp_syn_def)
next
  case False
  let ?h = IPv6Header_size
  let ?ok = "d ! 6 = IP_TCP \<and> word_of False (d ! 4) (d ! 5) + int ?h = int (length d) \<and> ?h + TCPHeader_size \<le> length d"
  have rd: "rd8 6 d = Inr (d ! 6)" "rd16 False 4 d = Inr (word_of False (d ! 4) (d ! 5))"
    using False by (auto simp: IPv6Header_size_def rd16_Inr)
  have lim: "to_int32 (m - int (?h + TCPHeader_size)) = m - 60" "0 \<le> m - 60"
    using assms(2,3) by (simp_all add: to_int32_id header_defs)
  have "mssfix_v6 le m d = (if ?ok then do_mssfix le ?h (m - 60) (int (length d - ?h)) d else Inr d)"
    using False rd lim(1) by (auto simp: mssfix_v6_def Let_def)
  moreover have "tcp_syn d \<longleftrightarrow> ?ok \<and> d ! (?h + 13) AND FLAG_SYN \<noteq> 0 \<and> ?h + tcp_length (d ! (?h + 12)) \<le> length d"
    using False assms(1) by (auto simp: tcp_syn_def tcp_start_def)
  ultimately show ?thesis
    using do_mssfix_ok [of ?h d "m - 60" le] lim(2) assms(1) by (auto simp: fixed_def mss_limit_def tcp_start_def mss_options_def)
qed


lemma mssfix_data_ok:
  assumes "60 \<le> m" and "m < 2 ^ 31"
  shows "\<exists>d'. mssfix_data le m d = Inr d' \<and> fixed le m d d'"
proof -
  have "fixed le m d d" if "d = [] \<or> ip_version (d ! 0) \<noteq> 4 \<and> ip_version (d ! 0) \<noteq> 6"
    using that by (auto simp: fixed_def tcp_syn_def)
  then show ?thesis
    using mssfix_v4_ok [OF _ assms] mssfix_v6_ok [OF _ assms] by (auto simp: mssfix_data_def Let_def)
qed

text \<open>
  C39. \<open>mssfix\<close> accesses nothing outside the packet, whatever the packet holds.  If it is a whole TCP SYN
  packet, every segment size announced in its options becomes the smaller of itself and the limit, and no
  other byte but the TCP checksum changes; when these options begin at an even distance from the TCP
  header, the one's complement sum of the segment, on which a receiver checks it, stays as it was.
  Any other packet stays as it is.
\<close>

theorem mssfix_clamps_segment_size:
  assumes "buf_wf b" and "60 \<le> m" and "m < 2 ^ 31"
  shows "\<exists>b'. mssfix le m b = Inr b' \<and> buf_wf b' \<and> b_off b' = b_off b \<and> b_size b' = b_size b \<and>
    (let d = content b; d' = content b'; tcp = tcp_start d; ps = mss_options d in
     if tcp_syn d then
       (\<forall>p \<in> set ps. mss_value p d' = min (mss_value p d) (mss_limit m d))
       \<and> (\<forall>j. j \<notin> {tcp + 16, tcp + 17} \<and> (\<forall>p \<in> set ps. j \<noteq> p + 2 \<and> j \<noteq> p + 3) \<longrightarrow> d' ! j = d ! j)
       \<and> ((\<forall>p \<in> set ps. even (p - tcp)) \<longrightarrow>
            word_sum le (drop tcp d') mod 65535 = word_sum le (drop tcp d) mod 65535)
     else d' = d)"
proof -
  obtain d' where d': "mssfix_data le m (content b) = Inr d'" "fixed le m (content b) d'"
    using mssfix_data_ok [OF assms(2,3)] by blast
  have len: "length d' = b_size b" using d'(2) assms(1) by (auto simp: fixed_def loop_done_def split: if_splits)
  let ?b = "b\<lparr>b_data := blit (b_data b) (b_off b) d'\<rparr>"
  have room: "b_off b + length d' \<le> length (b_data b)" using assms(1) len by (simp add: buf_wf_def)
  have "content ?b = d'" using slice_blit_same [OF room] len by (simp add: content_def)
  moreover have "buf_wf ?b" using assms(1) room by (simp add: buf_wf_def)
  ultimately show ?thesis
    using d' by (intro exI [of _ ?b]) (auto simp: mssfix_def fixed_def loop_done_def mss_area_def Let_def)
qed

definition demo_syn :: "u8 list" where
  "demo_syn =
     [0x45, 0, 0, 44, 0, 0, 0, 0, 64, 6, 0, 0, 10, 0, 0, 1, 10, 0, 0, 2,
      0x30, 0x39, 0, 80, 0, 0, 0, 1, 0, 0, 0, 0, 0x60, 2, 0x20, 0, 0x11, 0x22, 0, 0,
      2, 4, 0x05, 0xB4]"

theorem mssfix_clamps_segment_size_witness:
  "mss_options demo_syn = [40] \<and> mss_value 40 demo_syn = 1460 \<and>
   (\<exists>b'. mssfix True 1240 (alloc_default\<lparr>b_data := demo_syn, b_size := 44, b_cap := 44\<rparr>) = Inr b'
      \<and> mss_value 40 (content b') = 1200 \<and> word_sum True (drop 20 (content b')) mod 65535 = word_sum True (drop 20 demo_syn) mod 65535)"
proof -
  let ?b = "alloc_default\<lparr>b_data := demo_syn, b_size := 44, b_cap := 44\<rparr>"
  have c: "content ?b = demo_syn" by (simp add: content_def Prelude.slice_def demo_syn_def alloc_default_def buf_default_def)
  have wf: "buf_wf ?b" by (simp add: buf_wf_def demo_syn_def alloc_default_def buf_default_def)
  have facts: "tcp_start demo_syn = 20" "mss_options demo_syn = [40]" "mss_value 40 demo_syn = 1460" "tcp_syn demo_syn"
    "mss_limit 1240 demo_syn = 1200"
    by code_simp+
  show ?thesis
    using mssfix_clamps_segment_size [OF wf, of 1240 True] facts by (auto simp: c Let_def)
qed

text \<open>An option behind a single NOP: the words of the checksum straddle its value, and the sum is off.\<close>

definition demo_syn_odd :: "u8 list" where
  "demo_syn_odd =
     [0x45, 0, 0, 48, 0, 0, 0, 0, 64, 6, 0, 0, 10, 0, 0, 1, 10, 0, 0, 2,
      0x30, 0x39, 0, 80, 0, 0, 0, 1, 0, 0, 0, 0, 0x70, 2, 0x20, 0, 0x11, 0x22, 0, 0,
      1, 2, 4, 0x05, 0xB4, 1, 1, 1]"

lemma mss_at_odd_offset_breaks_checksum:
  "tcp_syn demo_syn_odd \<and> mss_options demo_syn_odd = [41] \<and>
   (case mssfix_data le 1240 demo_syn_odd of
      Inl _ \<Rightarrow> False
    | Inr d' \<Rightarrow> word_sum le (drop 20 d') mod 65535 \<noteq> word_sum le (drop 20 demo_syn_odd) mod 65535)"
  by (cases le) (simp, code_simp)+

end
