(* ===== verification/Checksum.thy ===== *)
theory Checksum
  imports MssFix
begin

text \<open>
  The Internet checksum over a region of memory (\<open>ip/csum.hpp\<close>): the code reads bytes, half words
  and words as the address allows.  \<open>le\<close> is the byte order of the machine, \<open>base\<close> the address.
\<close>

definition ck_fold :: "u32 \<Rightarrow> u16" where
  "ck_fold acc =
     (let acc = drop_bit 16 acc + (acc AND 0xffff); acc = acc + drop_bit 16 acc in ucast acc)"

definition ck_cfold :: "u32 \<Rightarrow> u16" where
  "ck_cfold acc = NOT (ck_fold acc)"

definition ck_unfold :: "u16 \<Rightarrow> u32" where
  "ck_unfold acc = ucast acc"

definition ck_cunfold :: "u16 \<Rightarrow> u32" where
  "ck_cunfold acc = NOT (ck_unfold acc)"

definition load16 :: "bool \<Rightarrow> u8 \<Rightarrow> u8 \<Rightarrow> u32" where
  "load16 le a b = word_of_int (word_of le a b)"

definition load32 :: "bool \<Rightarrow> u8 \<Rightarrow> u8 \<Rightarrow> u8 \<Rightarrow> u8 \<Rightarrow> u32" where
  "load32 le a b c e =
     word_of_int (if le then word_of le a b + 65536 * word_of le c e else 65536 * word_of le a b + word_of le c e)"

text \<open>The loop over whole words; what is left are fewer than four bytes.\<close>

fun ck_loop :: "bool \<Rightarrow> u32 \<Rightarrow> u32 \<Rightarrow> u8 list \<Rightarrow> u32 \<times> u8 list" where
  "ck_loop le result carry (a # b # c # e # d) =
     (let w = load32 le a b c e; result = result + carry + w;
          carry = (if w > result then 1 else 0) in
      ck_loop le result carry d)"
| "ck_loop le result carry d = (result + carry, d)"

definition ck_words :: "bool \<Rightarrow> u32 \<Rightarrow> u8 list \<Rightarrow> u32 \<times> u8 list" where
  "ck_words le result d =
     (if length d \<ge> 4 then
        (case ck_loop le result 0 d of (result, d) \<Rightarrow> ((result AND 0xffff) + drop_bit 16 result, d))
      else (result, d))"

definition ck_half :: "bool \<Rightarrow> u32 \<Rightarrow> u8 list \<Rightarrow> u32 \<times> u8 list" where
  "ck_half le result d = (result + load16 le (d ! 0) (d ! 1), drop 2 d)"

definition ck_body :: "bool \<Rightarrow> nat \<Rightarrow> u32 \<Rightarrow> u8 list \<Rightarrow> u32 \<times> u8 list" where
  "ck_body le base result d =
     (if length d \<ge> 2 then
        let (result, d) = (if base AND 2 \<noteq> 0 then ck_half le result d else (result, d));
            (result, d) = ck_words le result d in
        if length d AND 2 \<noteq> 0 then ck_half le result d else (result, d)
      else (result, d))"

definition ck_last :: "bool \<Rightarrow> u32 \<times> u8 list \<Rightarrow> u32" where
  "ck_last le rd =
     (case rd of (result, d) \<Rightarrow>
        if length d AND 1 \<noteq> 0 then result + (if le then ucast (d ! 0) else push_bit 8 (ucast (d ! 0))) else result)"

definition ck_rest :: "bool \<Rightarrow> nat \<Rightarrow> u32 \<Rightarrow> u8 list \<Rightarrow> u32" where
  "ck_rest le base result d = ucast (ck_fold (ck_last le (ck_body le base result d)))"

definition ck_compute :: "bool \<Rightarrow> nat \<Rightarrow> u8 list \<Rightarrow> u32" where
  "ck_compute le base d =
     (if d = [] then 0
      else if base AND 1 \<noteq> 0 then
        let result = ck_rest le (base + 1) (if le then push_bit 8 (ucast (d ! 0)) else ucast (d ! 0)) (tl d) in
        (drop_bit 8 result AND 0xff) OR push_bit 8 (result AND 0xff)
      else ck_rest le base 0 d)"

definition ck_partial :: "bool \<Rightarrow> nat \<Rightarrow> u8 list \<Rightarrow> u32 \<Rightarrow> u32" where
  "ck_partial le base d acc =
     (let result = ck_compute le base d + acc in if acc > result then result + 1 else result)"

definition ck_checksum :: "bool \<Rightarrow> nat \<Rightarrow> u8 list \<Rightarrow> u16" where
  "ck_checksum le base d = ck_cfold (ck_compute le base d)"

section \<open>Sums\<close>

text \<open>\<open>x\<close> stands for the sum \<open>s\<close>: equal modulo 65535, and zero only if \<open>s\<close> is.\<close>

definition stands_for :: "int \<Rightarrow> int \<Rightarrow> bool" where
  "stands_for x s \<longleftrightarrow> 0 \<le> x \<and> x mod 65535 = s mod 65535 \<and> (x = 0 \<longleftrightarrow> s = 0)"

lemma word_sum_nonneg: "0 \<le> word_sum le d"
  by (induction le d rule: word_sum.induct) (auto simp: word_of_bounds)

lemma stands_self: "0 \<le> s \<Longrightarrow> stands_for s s"
  by (simp add: stands_for_def)

lemma stands_add: "stands_for x s \<Longrightarrow> 0 \<le> s \<Longrightarrow> 0 \<le> y \<Longrightarrow> stands_for (x + y) (s + y)"
  by (auto simp: stands_for_def intro: mod_add_cong)

text \<open>Moving a multiple of 2^16 down keeps the sum.\<close>

lemma stands_fold:
  assumes "stands_for x s"
  shows "stands_for (x div 65536 + x mod 65536) s"
proof -
  define q r where "q = x div 65536" and "r = x mod 65536"
  have x: "x = (q + r) + 65535 * q" using mult_div_mod_eq [of 65536 x] unfolding q_def r_def by linarith
  have pos: "0 \<le> q" "0 \<le> r" using assms by (simp_all add: q_def r_def stands_for_def pos_imp_zdiv_nonneg_iff)
  have "(q + r) mod 65535 = x mod 65535" unfolding x by (simp only: mod_mult_self2)
  moreover have "q + r = 0 \<longleftrightarrow> x = 0" using x pos by linarith
  ultimately show ?thesis using assms pos unfolding stands_for_def q_def [symmetric] r_def [symmetric] by simp
qed

text \<open>A sum below 2^17 folded once more fits 16 bits.\<close>

definition folded :: "int \<Rightarrow> int" where
  "folded s = (if s = 0 then 0 else (s - 1) mod 65535 + 1)"

lemma stands_folded:
  assumes "stands_for x s" and "x < 65536" and "0 \<le> s"
  shows "x = folded s"
proof (cases "s = 0")
  case False
  then have "x > 0" "(x - 1) mod 65535 = (s - 1) mod 65535"
    using assms(1) by (auto simp: stands_for_def intro: mod_diff_cong)
  moreover have "(x - 1) mod 65535 = x - 1" using \<open>x > 0\<close> assms(2) by (intro mod_pos_pos_trivial) simp_all
  ultimately show ?thesis using False by (simp add: folded_def)
qed (use assms in \<open>simp add: stands_for_def folded_def\<close>)

section \<open>The code on words\<close>

lemma uint_low_half: "uint (v AND 0xffff :: u32) = uint v mod 65536"
proof -
  have "uint (v AND 0xffff) = uint v AND mask 16" by (simp add: unsigned_and_eq mask_eq_exp_minus_1)
  then show ?thesis by (simp flip: take_bit_eq_mask) (simp add: take_bit_eq_mod)
qed

lemma uint_high_half: "uint (drop_bit 16 v :: u32) = uint v div 65536"
proof -
  have "take_bit 32 (uint v) = uint v" using uint_lt2p [of v] by (simp add: take_bit_eq_mod)
  then show ?thesis by (simp only: unsigned_drop_bit_eq len_num1 len_bit0) (simp add: drop_bit_eq_div)
qed

lemma uint_add_small: "uint a + uint b < 2 ^ 32 \<Longrightarrow> uint (a + b :: u32) = uint a + uint b"
  by (simp add: uint_plus_if_size word_size)

lemma uint_fold_step: "uint (drop_bit 16 v + (v AND 0xffff) :: u32) = uint v div 65536 + uint v mod 65536"
proof -
  have "uint v div 65536 + uint v mod 65536 < 2 ^ 32" using uint_lt2p [of v] by simp
  then show ?thesis by (simp add: uint_add_small uint_low_half uint_high_half)
qed

lemma uint_load16: "uint (load16 le a b) = word_of le a b"
  using word_of_bounds [of le a b] by (simp add: load16_def uint_word_of_int)

lemma uint_load32:
  "uint (load32 le a b c e) = (if le then word_of le a b + 65536 * word_of le c e else 65536 * word_of le a b + word_of le c e)"
  using word_of_bounds [of le a b] word_of_bounds [of le c e] unfolding load32_def uint_word_of_int by (cases le) simp_all

text \<open>A word stands for the two half words in it.\<close>

lemma stands_load32:
  assumes "stands_for x s" and "0 \<le> s"
  shows "stands_for (x + uint (load32 le a b c e)) (s + word_of le a b + word_of le c e)"
proof -
  have big: "(y + (u + 65536 * v)) mod 65535 = (y + (u + v)) mod (65535 :: int)" for y u v
  proof -
    have "y + (u + 65536 * v) = (y + (u + v)) + 65535 * v" by simp
    then show ?thesis by (simp only: mod_mult_self2)
  qed
  have "(x + uint (load32 le a b c e)) mod 65535 = (x + (word_of le a b + word_of le c e)) mod 65535"
    by (simp only: uint_load32) (auto simp: big add.commute [of "65536 * word_of False a b"] add.commute [of "word_of False c e" "word_of False a b"])
  also have "\<dots> = (s + (word_of le a b + word_of le c e)) mod 65535"
    using assms(1) by (intro mod_add_cong) (simp_all add: stands_for_def)
  finally show ?thesis
    using assms word_of_bounds(1) [of le a b] word_of_bounds(1) [of le c e]
    by (auto simp: stands_for_def uint_load32 add.assoc split: if_splits)
qed


text \<open>The loop: the running sum and the carry together stand for what was read, and fit a word.\<close>

lemma ck_loop_stands:
  assumes "stands_for (uint result + uint carry) s" and "0 \<le> s" and "uint result + uint carry < 2 ^ 32"
    and "ck_loop le result carry d = (result', d')"
  shows "stands_for (uint result') (s + word_sum le (take (length d - length d') d)) \<and> length d' < 4
    \<and> d' = drop (length d - length d') d \<and> even (length d - length d')"
  using assms
proof (induction le result carry d arbitrary: s rule: ck_loop.induct)
  case (1 le result carry a b c e d)
  define w where "w = load32 le a b c e"
  define r where "r = result + carry + w"
  define k where "k = (if w > r then 1 else 0 :: u32)"
  have rc: "uint (result + carry) = uint result + uint carry" using 1(4) by (rule uint_add_small)
  have r: "uint r + 2 ^ 32 * uint k = uint result + uint carry + uint w"
  proof (cases "uint (result + carry) + uint w < 2 ^ 32")
    case True
    then have "uint r = uint (result + carry) + uint w" by (simp add: r_def uint_add_small)
    moreover from this have "\<not> w > r" using uint_ge_0 [of "result + carry"] by (simp add: word_less_def del: uint_ge_0)
    ultimately show ?thesis using rc by (simp add: k_def)
  next
    case False
    then have "uint r = uint (result + carry) + uint w - 2 ^ 32"
      unfolding r_def by (subst uint_plus_if_size) (simp add: word_size)
    moreover from this have "w > r" using uint_lt2p [of "result + carry"] by (simp add: word_less_def)
    ultimately show ?thesis using rc by (simp add: k_def)
  qed
  have fit: "uint r + uint k < 2 ^ 32"
    using r uint_lt2p [of r] uint_lt2p [of w] 1(4) by (cases "w > r") (simp_all add: k_def word_less_def)
  have st: "stands_for (uint result + uint carry + uint w) (s + word_of le a b + word_of le c e)"
    unfolding w_def by (rule stands_load32 [OF 1(2,3)])
  have "stands_for (uint r + uint k) (s + word_of le a b + word_of le c e)"
  proof -
    have "(uint r + uint k) mod 65535 = (uint r + 2 ^ 32 * uint k) mod 65535"
    proof -
      have "uint r + 2 ^ 32 * uint k = (uint r + uint k) + 65535 * (65537 * uint k)" by simp
      then show ?thesis by (simp only: mod_mult_self2)
    qed
    moreover have "uint r + uint k = 0 \<longleftrightarrow> uint r + 2 ^ 32 * uint k = 0"
      using uint_ge_0 [of r] uint_ge_0 [of k] by (cases "uint k = 0") (simp_all add: add_nonneg_eq_0_iff)
    ultimately show ?thesis using st r by (simp add: stands_for_def)
  qed
  moreover have "0 \<le> s + word_of le a b + word_of le c e" using 1(3) word_of_bounds(1) by simp
  moreover have "ck_loop le r k d = (result', d')" using 1(5) by (simp add: Let_def w_def r_def k_def)
  ultimately have ih: "stands_for (uint result') (s + word_of le a b + word_of le c e + word_sum le (take (length d - length d') d))"
    "length d' < 4" "d' = drop (length d - length d') d" "even (length d - length d')"
    using 1(1) [OF w_def r_def k_def, of "s + word_of le a b + word_of le c e"] fit by simp_all
  have le: "length d' \<le> length d" using ih(3) by (metis diff_le_self length_drop)
  then have "length (a # b # c # e # d) - length d' = Suc (Suc (Suc (Suc (length d - length d'))))" by simp
  with ih show ?case by (simp only: take_Suc_Cons drop_Suc_Cons word_sum.simps) (simp add: add.assoc)
qed (auto simp: uint_add_small)


lemma ck_fold_uint:
  "uint (ck_fold v) = (let a = uint v div 65536 + uint v mod 65536 in (a + a div 65536) mod 65536)"
proof -
  let ?a = "drop_bit 16 v + (v AND 0xffff)"
  have a: "uint ?a = uint v div 65536 + uint v mod 65536" by (rule uint_fold_step)
  have "uint ?a + uint (drop_bit 16 ?a) < 2 ^ 32" using uint_lt2p [of v] unfolding uint_high_half a by simp
  then show ?thesis
    by (simp add: ck_fold_def Let_def uint_add_small uint_high_half a unsigned_ucast_eq take_bit_eq_mod)
qed

text \<open>Folding a sum below 2^18 gives the folded sum exactly.\<close>

lemma ck_fold_folded:
  assumes "stands_for (uint v) s" and "0 \<le> s"
  shows "uint (ck_fold v) = folded s"
proof -
  define a where "a = uint v div 65536 + uint v mod 65536"
  have st: "stands_for a s" unfolding a_def by (rule stands_fold [OF assms(1)])
  have bound: "0 \<le> a" "a \<le> 131070"
  proof -
    have "0 \<le> uint v div 65536" "uint v div 65536 \<le> 65535" using uint_lt2p [of v] by (simp_all add: pos_imp_zdiv_nonneg_iff)
    moreover have "0 \<le> uint v mod 65536" "uint v mod 65536 < 65536" by simp_all
    ultimately show "0 \<le> a" "a \<le> 131070" unfolding a_def by linarith+
  qed
  define q r where "q = a div 65536" and "r = a mod 65536"
  have qr: "a = 65536 * q + r" "0 \<le> r" "r < 65536" by (simp_all add: q_def r_def)
  then have small: "0 \<le> q + r" "q + r < 65536" using bound by linarith+
  have "a + q = (q + r) + 65536 * q" using qr(1) by simp
  then have "(a + q) mod 65536 = (q + r) mod 65536" by (simp only: mod_mult_self2)
  also have "\<dots> = q + r" using small by (rule mod_pos_pos_trivial)
  finally have "uint (ck_fold v) = q + r" unfolding ck_fold_uint by (simp add: Let_def a_def [symmetric] q_def)
  moreover have "stands_for (q + r) s" unfolding q_def r_def by (rule stands_fold [OF st])
  ultimately show ?thesis using stands_folded [of "q + r" s] small(2) assms(2) by simp
qed


section \<open>The stages\<close>

lemma word_sum_split: "even n \<Longrightarrow> word_sum le (take n d) + word_sum le (drop n d) = word_sum le d"
proof (induction le d arbitrary: n rule: word_sum.induct)
  case (3 le a b d)
  show ?case
  proof (cases n)
    case (Suc j)
    then obtain k where "n = Suc (Suc k)" "even k" using 3(2) by (cases j) auto
    with 3(1) [of k] show ?thesis by simp
  qed simp
qed (auto elim!: evenE simp: take_Cons' drop_Cons')

text \<open>After an even number of the bytes \<open>D\<close>; \<open>s\<close> was there before.\<close>

definition has_read :: "bool \<Rightarrow> int \<Rightarrow> u8 list \<Rightarrow> int \<Rightarrow> u32 \<times> u8 list \<Rightarrow> bool" where
  "has_read le s D bound rd \<longleftrightarrow> (\<exists>n. even n \<and> n \<le> length D \<and> snd rd = drop n D
     \<and> stands_for (uint (fst rd)) (s + word_sum le (take n D)) \<and> uint (fst rd) \<le> bound)"

lemma has_read_more:
  assumes "has_read le s D bound (r, d)" and "even n" and "n \<le> length d"
    and "stands_for (uint r') (s + word_sum le (take (length D - length d) D) + word_sum le (take n d))" and "uint r' \<le> bound'"
  shows "has_read le s D bound' (r', drop n d)"
proof -
  obtain m where m: "even m" "m \<le> length D" "d = drop m D" using assms(1) by (auto simp: has_read_def)
  have len: "length D - length d = m" using m(2,3) by simp
  have "take m (take (m + n) D) = take m D" "drop m (take (m + n) D) = take n d" using m(3) by (simp_all add: take_drop add.commute)
  then have "word_sum le (take m D) + word_sum le (take n d) = word_sum le (take (m + n) D)"
    using word_sum_split [OF m(1), of le "take (m + n) D"] by simp
  moreover have "drop n d = drop (m + n) D" using m(3) by (simp add: add.commute)
  moreover have "even (m + n)" "m + n \<le> length D" using m assms(2,3) by simp_all
  moreover have "stands_for (uint r') (s + (word_sum le (take m D) + word_sum le (take n d)))"
    using assms(4) unfolding len add.assoc .
  ultimately show ?thesis using assms(5) unfolding has_read_def fst_conv snd_conv by metis
qed

lemma has_read_now:
  "has_read le s D bound (r, d) \<Longrightarrow> stands_for (uint r) (s + word_sum le (take (length D - length d) D))"
  by (auto simp: has_read_def)

lemma ck_half_reads:
  assumes "has_read le s D bound (r, d)" and "2 \<le> length d" and "0 \<le> s" and "bound \<le> 200000"
  shows "has_read le s D (bound + 65535) (ck_half le r d)"
proof -
  let ?w = "word_of le (d ! 0) (d ! 1)"
  have r: "uint r \<le> bound" using assms(1) by (auto simp: has_read_def)
  have sum: "uint (r + load16 le (d ! 0) (d ! 1)) = uint r + ?w"
    using r assms(4) word_of_bounds [of le "d ! 0" "d ! 1"] by (subst uint_add_small) (simp_all add: uint_load16)
  obtain a b x where "d = a # b # x" using assms(2) by (metis One_nat_def Suc_1 Suc_le_length_iff)
  then have "word_sum le (take 2 d) = ?w" by simp
  moreover have "stands_for (uint r + ?w) (s + word_sum le (take (length D - length d) D) + ?w)"
    using has_read_now [OF assms(1)] assms(3) word_sum_nonneg word_of_bounds(1) by (intro stands_add) simp_all
  ultimately show ?thesis
    unfolding ck_half_def using r word_of_bounds [of le "d ! 0" "d ! 1"] assms(2)
    by (intro has_read_more [OF assms(1)]) (simp_all add: sum del: One_nat_def)
qed

lemma ck_words_reads:
  assumes "has_read le s D 131070 (r, d)" and "0 \<le> s"
  shows "has_read le s D 131070 (ck_words le r d) \<and> length (snd (ck_words le r d)) < 4"
proof (cases "length d \<ge> 4")
  case True
  obtain r' d' where l: "ck_loop le r 0 d = (r', d')" by fastforce
  have r: "uint r \<le> 131070" using assms(1) by (auto simp: has_read_def)
  have st: "stands_for (uint r + uint (0 :: u32)) (s + word_sum le (take (length D - length d) D))"
    using has_read_now [OF assms(1)] by simp
  have l': "stands_for (uint r') (s + word_sum le (take (length D - length d) D) + word_sum le (take (length d - length d') d))"
    "length d' < 4" "d' = drop (length d - length d') d" "even (length d - length d')"
    using ck_loop_stands [OF st _ _ l] assms(2) word_sum_nonneg r by simp_all
  let ?r = "(r' AND 0xffff) + drop_bit 16 r'"
  have u: "uint ?r = uint r' div 65536 + uint r' mod 65536" using uint_fold_step [of r'] by (simp add: add.commute)
  have "uint r' div 65536 \<le> 65535" "uint r' mod 65536 \<le> 65535" using uint_lt2p [of r'] by simp_all
  then have b: "uint ?r \<le> 131070" unfolding u by linarith
  have "has_read le s D 131070 (?r, drop (length d - length d') d)"
    using stands_fold [OF l'(1)] l'(4) b by (intro has_read_more [OF assms(1)]) (simp_all add: u)
  then show ?thesis using True l l'(2,3) by (simp add: ck_words_def)
qed (use assms in \<open>simp add: ck_words_def\<close>)


lemma bit_1_below_4: "(n :: nat) < 4 \<Longrightarrow> n AND 2 \<noteq> 0 \<longleftrightarrow> 2 \<le> n"
proof -
  assume "n < 4"
  then consider "n = 0" | "n = 1" | "n = 2" | "n = 3" by linarith
  then show ?thesis by cases simp_all
qed

lemma has_read_weaken: "has_read le s D bound x \<Longrightarrow> bound \<le> bound' \<Longrightarrow> has_read le s D bound' x"
  by (force simp: has_read_def)

lemma ck_body_reads:
  assumes "stands_for (uint r) s" and "uint r \<le> 65535" and "0 \<le> s"
  shows "has_read le s D 196605 (ck_body le base r D) \<and> length (snd (ck_body le base r D)) < 2"
proof (cases "2 \<le> length D")
  case True
  have start: "has_read le s D 65535 (r, D)"
    unfolding has_read_def by (rule exI [of _ 0]) (use assms in simp)
  define x1 where "x1 = (if base AND 2 \<noteq> 0 then ck_half le r D else (r, D))"
  have "has_read le s D 131070 x1"
    using ck_half_reads [OF start True assms(3)] has_read_weaken [OF start] by (simp add: x1_def)
  then have 1: "has_read le s D 131070 (fst x1, snd x1)" by simp
  define x2 where "x2 = ck_words le (fst x1) (snd x1)"
  have 2: "has_read le s D 131070 (fst x2, snd x2)" "length (snd x2) < 4"
    using ck_words_reads [OF 1 assms(3)] by (simp_all add: x2_def)
  have body: "ck_body le base r D = (if length (snd x2) AND 2 \<noteq> 0 then ck_half le (fst x2) (snd x2) else x2)"
    using True by (simp add: ck_body_def x1_def x2_def case_prod_beta Let_def)
  show ?thesis
  proof (cases "2 \<le> length (snd x2)")
    case more: True
    then have eq: "ck_body le base r D = ck_half le (fst x2) (snd x2)" unfolding body using bit_1_below_4 [OF 2(2)] by simp
    from ck_half_reads [OF 2(1) more assms(3)] 2(2) show ?thesis by (simp add: eq) (simp add: ck_half_def)
  next
    case False
    then have eq: "ck_body le base r D = x2" unfolding body using bit_1_below_4 [OF 2(2)] by simp
    from has_read_weaken [OF 2(1), of 196605] False show ?thesis by (simp add: eq)
  qed
next
  case False
  then have "ck_body le base r D = (r, D)" by (simp add: ck_body_def)
  moreover have "has_read le s D 196605 (r, D)"
    unfolding has_read_def by (rule exI [of _ 0]) (use assms in simp)
  ultimately show ?thesis using False by simp
qed

text \<open>The last byte.\<close>

lemma uint_byte: "uint (push_bit 8 (ucast (x :: u8) :: u32)) = 256 * uint x" "uint (ucast x :: u32) = uint x"
proof -
  show u: "uint (ucast x :: u32) = uint x" using uint_lt2p [of x] by (simp add: unsigned_ucast_eq take_bit_eq_mod)
  show "uint (push_bit 8 (ucast x :: u32)) = 256 * uint x"
    using uint_lt2p [of x] by (simp only: unsigned_push_bit_eq u) (simp add: push_bit_eq_mult take_bit_eq_mod)
qed

lemma ck_last_stands:
  assumes "has_read le s D 196605 (r, d)" and "length d < 2" and "0 \<le> s"
  shows "stands_for (uint (ck_last le (r, d))) (s + word_sum le D)"
proof -
  obtain n where n: "even n" "n \<le> length D" "d = drop n D" "stands_for (uint r) (s + word_sum le (take n D))" "uint r \<le> 196605"
    using assms(1) by (auto simp: has_read_def)
  have total: "word_sum le D = word_sum le (take n D) + word_sum le d" using word_sum_split [OF n(1), of le D] n(3) by simp
  consider "d = []" | x where "d = [x]" using assms(2) by (cases d) auto
  then show ?thesis
  proof cases
    case 1
    then show ?thesis using n(4) total by (simp add: ck_last_def)
  next
    case (2 x)
    note b = uint_byte [of x]
    have "uint (r + (if le then ucast x else push_bit 8 (ucast x))) = uint r + word_of le x 0"
      using n(5) uint_lt2p [of x] b by (subst uint_add_small) (auto simp: word_of_def)
    moreover have "stands_for (uint r + word_of le x 0) (s + word_sum le (take n D) + word_of le x 0)"
      using n(4) assms(3) word_sum_nonneg word_of_bounds(1) by (intro stands_add) simp_all
    ultimately show ?thesis using total 2 by (cases le) (simp_all add: ck_last_def add.assoc)
  qed
qed


section \<open>Odd addresses\<close>

lemma word_sum_zero: "word_sum le d = 0 \<longleftrightarrow> (\<forall>x \<in> set d. x = 0)"
proof (induction le d rule: word_sum.induct)
  case (3 le a b d)
  have "word_of le a b = 0 \<longleftrightarrow> a = 0 \<and> b = 0"
    using uint_ge_0 [of a] uint_ge_0 [of b] by (auto simp: word_of_def uint_0_iff add_nonneg_eq_0_iff)
  with 3 show ?case using word_sum_nonneg [of le d] word_of_bounds(1) [of le a b] by (auto simp: add_nonneg_eq_0_iff)
qed (auto simp: word_of_def uint_0_iff)

lemma word_of_shift: "(256 * word_of le z a + word_of le 0 b) mod 65535 = (word_of le 0 z + word_of le a b) mod 65535"
proof -
  have e: "256 * word_of le z a + word_of le 0 b
      = (word_of le 0 z + word_of le a b) + 65535 * (if le then uint a else uint z)"
    by (simp add: word_of_def)
  show ?thesis unfolding e by (rule mod_mult_self2)
qed

lemma word_of_0: "word_of le 0 0 = 0"
  by (simp add: word_of_def)

lemma word_sum_shift: "(256 * word_sum le (z # d)) mod 65535 = (word_of le 0 z + word_sum le d) mod 65535"
proof (induction le d arbitrary: z rule: word_sum.induct)
  case (1 le)
  show ?case using word_of_shift [of le z 0 0] by (simp add: word_of_0)
next
  case (2 le a)
  show ?case using word_of_shift [of le z a 0] by (simp add: word_of_0)
next
  case (3 le a b d)
  have "(256 * word_of le z a + 256 * word_sum le (b # d)) mod 65535
      = (256 * word_of le z a + (word_of le 0 b + word_sum le d)) mod 65535"
    by (rule mod_add_cong [OF refl 3])
  also have "256 * word_of le z a + (word_of le 0 b + word_sum le d) = (256 * word_of le z a + word_of le 0 b) + word_sum le d"
    by (simp only: add.assoc)
  also have "\<dots> mod 65535 = (word_of le 0 z + word_of le a b + word_sum le d) mod 65535"
    by (rule mod_add_cong [OF word_of_shift refl])
  finally show ?case by (simp only: word_sum.simps distrib_left add.assoc)
qed

lemma uint_and_byte: "uint (v AND 0xff :: u32) = uint v mod 256"
proof -
  have "uint (v AND 0xff) = uint v AND mask 8" by (simp add: unsigned_and_eq mask_eq_exp_minus_1)
  then show ?thesis by (simp flip: take_bit_eq_mask) (simp add: take_bit_eq_mod)
qed

lemma uint_drop_byte: "uint (drop_bit 8 v :: u32) = uint v div 256"
proof -
  have "take_bit 32 (uint v) = uint v" using uint_lt2p [of v] by (simp add: take_bit_eq_mod)
  then show ?thesis by (simp only: unsigned_drop_bit_eq len_num1 len_bit0) (simp add: drop_bit_eq_div)
qed

lemma or_shifted: "0 \<le> a \<Longrightarrow> a < 256 \<Longrightarrow> a OR push_bit 8 m = a + 256 * (m :: int)"
proof -
  assume "0 \<le> a" "a < 256"
  then have a: "take_bit 8 a = a" by (simp add: take_bit_eq_mod)
  have "a + push_bit 8 m = a OR push_bit 8 m"
    by (rule disjunctive_add_eq_or) (subst a [symmetric], rule bit_eqI, auto simp: bit_simps)
  then show ?thesis by (simp add: push_bit_eq_mult)
qed

lemma uint_swap:
  assumes "uint v < 65536"
  shows "uint ((drop_bit 8 v AND 0xff) OR push_bit 8 (v AND 0xff) :: u32) = uint v div 256 + 256 * (uint v mod 256)"
proof -
  have high: "uint (drop_bit 8 v AND 0xff) = uint v div 256" "0 \<le> uint v div 256" "uint v div 256 < 256"
    using assms by (simp_all add: uint_and_byte uint_drop_byte pos_imp_zdiv_nonneg_iff)
  have low: "0 \<le> uint v mod 256" "uint v mod 256 < 256" by simp_all
  then have "take_bit 32 (push_bit 8 (uint v mod 256)) = push_bit 8 (uint v mod 256)"
    by (simp add: push_bit_eq_mult take_bit_eq_mod)
  then have "uint (push_bit 8 (v AND 0xff)) = push_bit 8 (uint v mod 256)"
    by (simp only: unsigned_push_bit_eq uint_and_byte len_num1 len_bit0) simp
  then show ?thesis using or_shifted [OF high(2,3)] by (simp only: unsigned_or_eq high(1))
qed

lemma swap_stands:
  assumes "uint v = folded (word_sum le (0 # d))"
  shows "uint ((drop_bit 8 v AND 0xff) OR push_bit 8 (v AND 0xff) :: u32) = folded (word_sum le d)"
proof -
  let ?T = "word_sum le (0 # d)"
  have T: "0 \<le> ?T" by (rule word_sum_nonneg)
  have st: "stands_for (uint v) ?T" "uint v < 65536"
  proof -
    have "0 \<le> (?T - 1) mod 65535" "(?T - 1) mod 65535 < 65535" by simp_all
    then show "uint v < 65536" unfolding assms folded_def by simp
    show "stands_for (uint v) ?T"
      using T \<open>0 \<le> (?T - 1) mod 65535\<close> unfolding assms folded_def stands_for_def by (auto simp: mod_add_left_eq)
  qed
  define q r where "q = uint v div 256" and "r = uint v mod 256"
  have qr: "uint v = 256 * q + r" "0 \<le> q" "0 \<le> r" "r < 256" "q < 256"
    using st(2) by (simp_all add: q_def r_def pos_imp_zdiv_nonneg_iff)
  have "256 * uint v = (q + 256 * r) + 65535 * q" using qr(1) by simp
  then have "(q + 256 * r) mod 65535 = (256 * uint v) mod 65535" by (simp only: mod_mult_self2)
  also have "\<dots> = (256 * ?T) mod 65535" using st(1) by (intro mod_mult_cong) (simp_all add: stands_for_def)
  also have "\<dots> = word_sum le d mod 65535" using word_sum_shift [of le 0 d] by (simp add: word_of_0)
  finally have "(q + 256 * r) mod 65535 = word_sum le d mod 65535" .
  moreover have "q + 256 * r = 0 \<longleftrightarrow> word_sum le d = 0"
  proof -
    have "q + 256 * r = 0 \<longleftrightarrow> uint v = 0" using qr by linarith
    also have "\<dots> \<longleftrightarrow> ?T = 0" using st(1) by (simp add: stands_for_def)
    finally show ?thesis by (simp add: word_sum_zero)
  qed
  ultimately have "stands_for (q + 256 * r) (word_sum le d)" using qr by (simp add: stands_for_def)
  moreover have "q + 256 * r < 65536" using qr by linarith
  ultimately show ?thesis
    using stands_folded word_sum_nonneg unfolding uint_swap [OF st(2)] q_def r_def by blast
qed


lemma ck_rest_folded:
  assumes "uint r \<le> 65535"
  shows "uint (ck_rest le base r d) = folded (uint r + word_sum le d)"
proof -
  have "has_read le (uint r) d 196605 (fst (ck_body le base r d), snd (ck_body le base r d))"
    "length (snd (ck_body le base r d)) < 2"
    using ck_body_reads [OF stands_self [of "uint r"] assms, of le d base] by simp_all
  from ck_last_stands [OF this]
  have "uint (ck_fold (ck_last le (ck_body le base r d))) = folded (uint r + word_sum le d)"
    using word_sum_nonneg [of le d] by (intro ck_fold_folded) simp_all
  moreover have "uint (ucast w :: u32) = uint w" for w :: u16
    using uint_lt2p [of w] by (simp add: unsigned_ucast_eq take_bit_eq_mod)
  ultimately show ?thesis by (simp only: ck_rest_def)
qed

text \<open>
  C40. \<open>compute\<close> equals the sum of the 16-bit words folded to 16 bits with end-around carry, on machines of
  either byte order and at every address.
\<close>

theorem compute_is_folded_sum: "uint (ck_compute le base d) = folded (word_sum le d)"
proof (cases d)
  case (Cons z d')
  let ?r = "if le then push_bit 8 (ucast z) else ucast z :: u32"
  have r: "uint ?r = word_of le 0 z" by (simp add: uint_byte word_of_def)
  then have "uint ?r \<le> 65535" using word_of_bounds [of le 0 z] by simp
  from ck_rest_folded [OF this, of le "base + 1" d']
  have odd: "uint (ck_rest le (base + 1) ?r d') = folded (word_sum le (0 # z # d'))" by (simp only: r word_sum.simps)
  show ?thesis
  proof (cases "base AND 1 \<noteq> 0")
    case True
    then have "ck_compute le base d = (let v = ck_rest le (base + 1) ?r d' in (drop_bit 8 v AND 0xff) OR push_bit 8 (v AND 0xff))"
      by (simp only: ck_compute_def Cons list.distinct(2) list.sel nth_Cons_0 if_False if_True True simp_thms)
    then show ?thesis using swap_stands [OF odd] by (simp only: Let_def Cons)
  next
    case False
    then have "ck_compute le base d = ck_rest le base 0 d" unfolding ck_compute_def using Cons by simp
    then show ?thesis using ck_rest_folded [of 0 le base d] by simp
  qed
qed (simp add: ck_compute_def folded_def)

end
