(* ===== verification/Compress.thy ===== *)
theory Compress
  imports Buffers
begin

text \<open>
  The framing of compressed packets (\<open>compress/compress.hpp\<close>, \<open>compress/compnull.hpp\<close>,
  \<open>compress/compstub.hpp\<close>): the compressors that do not compress, and the choice among the types.
  The compressors proper are parameters.
\<close>

text \<open>
  The virtual methods of \<open>Compress\<close>.  The flag that \<open>decompress\<close> returns tells that it has called
  \<open>error\<close>: it counts the error and empties the buffer.
\<close>

record compressor =
  co_compress :: "bool \<Rightarrow> buffer \<Rightarrow> buffer res"
  co_decompress :: "buffer \<Rightarrow> (bool \<times> buffer) res"

definition NO_COMPRESS :: u8 where "NO_COMPRESS = 0xFA"
definition NO_COMPRESS_SWAP :: u8 where "NO_COMPRESS_SWAP = 0xFB"
definition LZO_COMPRESS :: u8 where "LZO_COMPRESS = 0x66"
definition COMPRESS_V2_ESCAPE :: u8 where "COMPRESS_V2_ESCAPE = 0x50"
definition OVPN_COMPv2_NONE :: u8 where "OVPN_COMPv2_NONE = 0"

definition co_error :: "buffer \<Rightarrow> (bool \<times> buffer) res" where
  "co_error b = Inr (True, buf_reset_size b)"

text \<open>
  \<open>push_back(buf[0])\<close> hands over a reference into the array: it dangles when \<open>push_back\<close> has to move
  the array to a larger one.
\<close>

definition do_swap :: "u8 \<Rightarrow> buffer \<Rightarrow> buffer res" where
  "do_swap oper b =
     (if b_size b \<noteq> 0 then
        bindE (buf_index 0 b) (\<lambda>v.
          if buf_remaining 0 b = 0
          then bindE (buf_resize (sz_add (sz_add (b_off b) (b_size b)) 1) b) (\<lambda>_. Inl undefined_behaviour)
          else
            bindE (buf_push_back v b) (\<lambda>b.
            bindE (buf_index_ptr 0 b) (\<lambda>p. Inr (b\<lparr>b_data := (b_data b)[p := oper]\<rparr>))))
      else buf_push_back oper b)"

definition do_unswap :: "buffer \<Rightarrow> buffer res" where
  "do_unswap b =
     (if b_size b \<ge> 2 then bindE (buf_pop_back b) (\<lambda>(v, b). buf_push_front v b) else Inr b)"

definition v2_push :: "u8 \<Rightarrow> buffer \<Rightarrow> buffer res" where
  "v2_push val b =
     bindE (buf_index 0 b) (\<lambda>uc.
       if val = 0 \<and> uc \<noteq> COMPRESS_V2_ESCAPE then Inr b
       else buf_prepend [COMPRESS_V2_ESCAPE, val] b)"

definition v2_pull :: "buffer \<Rightarrow> (u8 \<times> buffer) res" where
  "v2_pull b =
     bindE (buf_index 0 b) (\<lambda>uc.
       if uc \<noteq> COMPRESS_V2_ESCAPE then Inr (0, b)
       else bindE (buf_index 1 b) (\<lambda>uc. bindE (buf_advance 2 b) (\<lambda>b. Inr (uc, b))))"

section \<open>Compressors\<close>

definition comp_null :: compressor where
  "comp_null = \<lparr>co_compress = (\<lambda>_. Inr), co_decompress = (\<lambda>b. Inr (False, b))\<rparr>"

definition stub_compress :: "bool \<Rightarrow> bool \<Rightarrow> buffer \<Rightarrow> buffer res" where
  "stub_compress support_swap hint b =
     (if b_size b = 0 then Inr b
      else if support_swap then do_swap NO_COMPRESS_SWAP b
      else buf_push_front NO_COMPRESS b)"

text \<open>\<open>lzo\<close> is \<open>decompress_work\<close> of the LZO decompressor.\<close>

definition stub_decompress :: "(buffer \<Rightarrow> (bool \<times> buffer) res) \<Rightarrow> buffer \<Rightarrow> (bool \<times> buffer) res" where
  "stub_decompress lzo b =
     (if b_size b = 0 then Inr (False, b)
      else bindE (buf_pop_front b) (\<lambda>(c, b).
        if c = NO_COMPRESS_SWAP then bindE (do_unswap b) (\<lambda>b. Inr (False, b))
        else if c = NO_COMPRESS then Inr (False, b)
        else if c = LZO_COMPRESS then lzo b
        else co_error b))"

definition comp_stub :: "(buffer \<Rightarrow> (bool \<times> buffer) res) \<Rightarrow> bool \<Rightarrow> compressor" where
  "comp_stub lzo support_swap =
     \<lparr>co_compress = stub_compress support_swap, co_decompress = stub_decompress lzo\<rparr>"

definition stub2_compress :: "bool \<Rightarrow> buffer \<Rightarrow> buffer res" where
  "stub2_compress hint b = (if b_size b = 0 then Inr b else v2_push OVPN_COMPv2_NONE b)"

definition stub2_decompress :: "buffer \<Rightarrow> (bool \<times> buffer) res" where
  "stub2_decompress b =
     (if b_size b = 0 then Inr (False, b)
      else bindE (v2_pull b) (\<lambda>(cop, b). if cop \<noteq> 0 then co_error b else Inr (False, b)))"

definition comp_stub_v2 :: compressor where
  "comp_stub_v2 = \<lparr>co_compress = stub2_compress, co_decompress = stub2_decompress\<rparr>"

section \<open>\<open>CompressContext\<close>\<close>

datatype comp_type =
    COMP_NONE
  | COMP_STUB
  | COMP_STUBv2
  | COMP_ANY
  | COMP_ANY_LZO
  | LZO
  | LZO_SWAP
  | LZO_STUB
  | LZ4
  | LZ4v2
  | SNAPPY

definition extra_payload_bytes :: "comp_type \<Rightarrow> nat" where
  "extra_payload_bytes t =
     (case t of COMP_NONE \<Rightarrow> 0 | COMP_STUBv2 \<Rightarrow> 2 | LZ4v2 \<Rightarrow> 2 | _ \<Rightarrow> 1)"

text \<open>\<open>lib\<close>: the compressors of the libraries that are linked.\<close>

definition new_compressor ::
    "(buffer \<Rightarrow> (bool \<times> buffer) res) \<Rightarrow> (comp_type \<Rightarrow> compressor option) \<Rightarrow> comp_type \<Rightarrow> compressor res" where
  "new_compressor lzo lib t =
     (case t of
        COMP_NONE \<Rightarrow> Inr comp_null
      | COMP_ANY \<Rightarrow> Inr (comp_stub lzo False)
      | COMP_ANY_LZO \<Rightarrow> Inr (comp_stub lzo False)
      | LZO_STUB \<Rightarrow> Inr (comp_stub lzo False)
      | COMP_STUB \<Rightarrow> Inr (comp_stub lzo True)
      | COMP_STUBv2 \<Rightarrow> Inr comp_stub_v2
      | _ \<Rightarrow> (case lib t of None \<Rightarrow> Inl (plain_exception ''compressor_unavailable'') | Some c \<Rightarrow> Inr c))"


section \<open>What was framed is unframed\<close>

lemma set_front:
  assumes "buf_wf b" and "content b = x # xs"
  shows "buf_index 0 b = Inr x" and "buf_index_ptr 0 b = Inr (b_off b)"
    and "buf_wf (b\<lparr>b_data := (b_data b)[b_off b := v]\<rparr>)" and "content (b\<lparr>b_data := (b_data b)[b_off b := v]\<rparr>) = v # xs"
proof -
  have sz: "b_size b = Suc (length xs)" using length_content [OF assms(1)] assms(2) by simp
  have room: "b_off b + b_size b \<le> length (b_data b)" using assms(1) by (simp add: buf_wf_def)
  show "buf_index 0 b = Inr x" using buf_index_eq [OF assms(1), of 0] assms(2) sz by simp
  show "buf_index_ptr 0 b = Inr (b_off b)" using sz by (simp add: buf_index_ptr_def)
  show "buf_wf (b\<lparr>b_data := (b_data b)[b_off b := v]\<rparr>)" using assms(1) by (simp add: buf_wf_def)
  have upd: "take (Suc n) (d[0 := v]) = v # xs" if "take (Suc n) d = x # xs" for n and d :: "u8 list"
    using that by (cases d) simp_all
  have "take (Suc (length xs)) (drop (b_off b) ((b_data b)[b_off b := v])) = v # xs"
    if "take (Suc (length xs)) (drop (b_off b) (b_data b)) = x # xs"
    using upd [OF that] by (simp add: drop_update_swap)
  then show "content (b\<lparr>b_data := (b_data b)[b_off b := v]\<rparr>) = v # xs"
    using assms(2) sz by (simp add: content_def Prelude.slice_def)
qed

lemma pop_front_cons:
  assumes "buf_wf b" and "content b = x # xs"
  obtains b' where "buf_pop_front b = Inr (x, b')" and "buf_wf b'" and "content b' = xs" and "b_off b' = b_off b + 1"
    and "b_size b' = length xs"
proof -
  have sz: "b_size b = Suc (length xs)" using length_content [OF assms(1)] assms(2) by simp
  let ?b = "b\<lparr>b_off := b_off b + 1, b_size := b_size b - 1\<rparr>"
  have "buf_pop_front b = Inr (x, ?b)" using buf_pop_front_eq [OF assms(1)] assms(2) sz by simp
  moreover have "content ?b = xs" using content_advance [of 1 b] assms(2) sz by simp
  moreover have "buf_wf ?b" using assms(1) sz by (simp add: buf_wf_def)
  ultimately show thesis using that [of ?b] sz by simp
qed

lemma do_swap_ok:
  assumes "buf_wf b" and "content b = x # xs" and "do_swap v b = Inr b'"
  shows "buf_wf b' \<and> content b' = v # xs @ [x]"
proof -
  have sz: "b_size b \<noteq> 0" using length_content [OF assms(1)] assms(2) by auto
  obtain c where c: "buf_push_back x b = Inr c" "bindE (buf_index_ptr 0 c) (\<lambda>p. Inr (c\<lparr>b_data := (b_data c)[p := v]\<rparr>)) = Inr b'"
    using assms(3) set_front(1) [OF assms(1,2)] sz by (auto simp: do_swap_def exn_simps split: if_splits)
  have c': "buf_wf c" "content c = x # (xs @ [x])" using buf_push_back_Inr [OF assms(1) c(1)] assms(2) by simp_all
  then show ?thesis using set_front(2) [OF c'] set_front(3,4) [OF c', of v] c(2) by auto
qed

lemma do_unswap_ok:
  assumes "buf_wf b" and "content b = xs @ [x]" and "b_off b \<noteq> 0"
  shows "\<exists>b'. do_unswap b = Inr b' \<and> buf_wf b' \<and> content b' = x # xs"
proof (cases "xs = []")
  case True
  then show ?thesis using assms length_content [OF assms(1)] by (simp add: do_unswap_def)
next
  case False
  have sz: "b_size b = Suc (length xs)" using length_content [OF assms(1)] assms(2) by simp
  let ?c = "b\<lparr>b_size := b_size b - 1\<rparr>"
  have c: "buf_pop_back b = Inr (x, ?c)" "buf_wf ?c" "content ?c = xs"
    using buf_pop_back_eq [OF assms(1)] content_pop_back [OF assms(1)] assms sz by (simp_all add: buf_wf_def)
  have "b_off ?c \<noteq> 0" "length [x] \<le> b_off ?c" using assms(3) by simp_all
  then obtain b' where "buf_push_front x ?c = Inr b'" "buf_wf b'" "content b' = x # xs"
    using buf_push_front_prepend [OF c(2)] buf_prepend_ok [OF c(2), of "[x]"] c(3) by auto
  moreover have "b_size b \<ge> 2" using sz False by (cases xs) auto
  ultimately show ?thesis using c(1) by (simp add: do_unswap_def)
qed

theorem stub_roundtrip:
  assumes "buf_wf b" and "stub_compress support_swap hint b = Inr b'"
  shows "\<exists>b''. stub_decompress lzo b' = Inr (False, b'') \<and> buf_wf b'' \<and> content b'' = content b"
proof (cases "content b")
  case Nil
  then have "b_size b = 0" using length_content [OF assms(1)] by simp
  then show ?thesis using assms by (auto simp: stub_compress_def stub_decompress_def)
next
  case (Cons x xs)
  have sz: "b_size b \<noteq> 0" using length_content [OF assms(1)] Cons by auto
  show ?thesis
  proof (cases support_swap)
    case True
    then have b': "buf_wf b'" "content b' = NO_COMPRESS_SWAP # xs @ [x]"
      using assms do_swap_ok [OF assms(1) Cons] sz by (simp_all add: stub_compress_def)
    obtain c where c: "buf_pop_front b' = Inr (NO_COMPRESS_SWAP, c)" "buf_wf c" "content c = xs @ [x]" "b_off c = b_off b' + 1"
      using pop_front_cons [OF b'] by metis
    have "b_size b' \<noteq> 0" using length_content [OF b'(1)] b'(2) by auto
    with c do_unswap_ok [OF c(2,3)] Cons show ?thesis by (auto simp: stub_decompress_def)
  next
    case False
    then have b': "buf_wf b'" "content b' = NO_COMPRESS # x # xs"
      using assms buf_push_front_Inr [OF assms(1), of NO_COMPRESS b'] sz Cons by (simp_all add: stub_compress_def)
    obtain c where c: "buf_pop_front b' = Inr (NO_COMPRESS, c)" "buf_wf c" "content c = x # xs"
      using pop_front_cons [OF b'] by metis
    have "b_size b' \<noteq> 0" using length_content [OF b'(1)] b'(2) by auto
    with c Cons show ?thesis by (auto simp: stub_decompress_def NO_COMPRESS_def NO_COMPRESS_SWAP_def)
  qed
qed

theorem stub2_roundtrip:
  assumes "buf_wf b" and "stub2_compress hint b = Inr b'"
  shows "\<exists>b''. stub2_decompress b' = Inr (False, b'') \<and> buf_wf b'' \<and> content b'' = content b"
proof (cases "content b")
  case Nil
  then have "b_size b = 0" using length_content [OF assms(1)] by simp
  then show ?thesis using assms by (auto simp: stub2_compress_def stub2_decompress_def)
next
  case (Cons x xs)
  have sz: "b_size b \<noteq> 0" using length_content [OF assms(1)] Cons by auto
  have x: "buf_index 0 b = Inr x" using set_front(1) [OF assms(1) Cons] .
  show ?thesis
  proof (cases "x = COMPRESS_V2_ESCAPE")
    case False
    then have "b' = b" using assms(2) sz x by (simp add: stub2_compress_def v2_push_def OVPN_COMPv2_NONE_def)
    then show ?thesis using False sz x assms(1) by (simp add: stub2_decompress_def v2_pull_def)
  next
    case True
    then have "buf_prepend [COMPRESS_V2_ESCAPE, 0] b = Inr b'"
      using assms(2) sz x by (simp add: stub2_compress_def v2_push_def OVPN_COMPv2_NONE_def)
    then have b': "buf_wf b'" "content b' = COMPRESS_V2_ESCAPE # 0 # x # xs" "b_size b' = b_size b + 2"
      using buf_prepend_Inr [OF assms(1)] Cons by force+
    let ?c = "b'\<lparr>b_off := b_off b' + 2, b_size := b_size b' - 2\<rparr>"
    have "buf_index 0 b' = Inr COMPRESS_V2_ESCAPE" "buf_index 1 b' = Inr 0" "buf_advance 2 b' = Inr ?c"
      using b' by (simp_all add: buf_index_eq buf_advance_def)
    moreover have "content ?c = x # xs" "buf_wf ?c"
      using content_advance [of 2 b'] b' by (simp_all add: buf_wf_def)
    ultimately show ?thesis using Cons b'(3) by (simp add: stub2_decompress_def v2_pull_def)
  qed
qed

end
