(* ===== verification/KeySession.thy ===== *)
theory KeySession
  imports KeyAuth DataCrypto DataLimit Checksum Compress
begin

text \<open>
  The key context as a whole (\<open>KeyContext\<close>, \<open>ssl/proto.hpp\<close>): the stack of the control channel with
  the data channel beside it, the events in the life of a key, and the data packets.  Methods that
  run loops whose end depends on the TLS session may not return: their result is an option.
\<close>

section \<open>Steps that may not return\<close>

type_synonym ('a, 's) ot = "'s \<Rightarrow> ('a res \<times> 's) option"

definition bindO :: "('a, 's) ot \<Rightarrow> ('a \<Rightarrow> ('b, 's) ot) \<Rightarrow> ('b, 's) ot" where
  "bindO m f s = (case m s of None \<Rightarrow> None | Some (Inl e, s) \<Rightarrow> Some (Inl e, s) | Some (Inr a, s) \<Rightarrow> f a s)"

definition lift :: "('a, 's) st \<Rightarrow> ('a, 's) ot" where
  "lift m s = Some (m s)"

definition onlyS :: "('s \<Rightarrow> 's) \<Rightarrow> (unit, 's) st" where
  "onlyS f s = (Inr (), f s)"

section \<open>The data channel's object\<close>

text \<open>\<open>CryptoDCInstance\<close>: its methods, and \<open>new_obj\<close> of the context that makes it.\<close>

datatype rekey_type =
    ACTIVATE_PRIMARY
  | ACTIVATE_PRIMARY_MOVE
  | NEW_SECONDARY
  | PRIMARY_SECONDARY_SWAP
  | DEACTIVATE_SECONDARY
  | DEACTIVATE_ALL

record 'i dc_impl =
  ci_new :: "u32 \<Rightarrow> 'i"
  ci_defined :: "'i \<Rightarrow> u32"
  ci_encrypt :: "int \<Rightarrow> u8 list option \<Rightarrow> (bool, 'i dcx) st"
  ci_decrypt :: "int \<Rightarrow> u8 list option \<Rightarrow> (stack_reason, 'i dcx) st"
  ci_init_cipher :: "u8 list \<Rightarrow> u8 list \<Rightarrow> (unit, 'i) st"
  ci_init_hmac :: "u8 list \<Rightarrow> u8 list \<Rightarrow> (unit, 'i) st"
  ci_init_pid :: "int \<Rightarrow> int \<Rightarrow> int \<Rightarrow> string \<Rightarrow> int \<Rightarrow> 'i \<Rightarrow> 'i"
  ci_init_remote_peer_id :: "int \<Rightarrow> 'i \<Rightarrow> 'i"
  ci_consider_compression :: "comp_type \<Rightarrow> 'i \<Rightarrow> bool"
  ci_explicit_exit_notify :: "'i \<Rightarrow> 'i"
  ci_rekey :: "rekey_type \<Rightarrow> 'i \<Rightarrow> 'i"

definition EXPLICIT_EXIT_NOTIFY_DEFINED :: u32 where "EXPLICIT_EXIT_NOTIFY_DEFINED = 8"

text \<open>
  What a key context uses and does not change: the stack's environment, the address of the buffers it
  allocates, a new TLS session, and the settings of the data channel.  \<open>de_export\<close> is the key
  material of the TLS session, if the keys are to be derived from it.
\<close>

record ('s, 'i) dc_env =
  de_stack :: "(packet, 's, user) stack_env"
  de_base :: nat
  de_ssl_new :: 's
  de_impl :: "'i dc_impl"
  de_bs64 :: bool
  de_export :: "('s \<Rightarrow> u8 list option) option"
  de_encap_overhead :: nat
  de_comp_type :: comp_type
  de_lzo :: "buffer \<Rightarrow> (bool \<times> buffer) res"
  de_comp_lib :: "comp_type \<Rightarrow> compressor option"
  de_mtu :: bool
  de_mssfix :: u32
  de_le :: bool

definition env_of :: "('s, 'i) dc_env \<Rightarrow> (packet, 's, user) stack_env" where
  "env_of D = kctx_env (de_base D) (de_stack D)"

section \<open>State\<close>

text \<open>\<open>DataChannelKey\<close>; the rekey type if one is defined.\<close>

record dc_key =
  dk_key :: buffer
  dk_rekey :: "rekey_type option"

definition dk_new :: dc_key where
  "dk_new = \<lparr>dk_key = alloc_default, dk_rekey = None\<rparr>"

record ('s, 'i) kc =
  kc_stack :: "'s kst"
  kc_crypto :: "'i option"
  kc_crypto_flags :: u32
  kc_remote_peer_id :: int
  kc_enable_op32 :: bool
  kc_compress :: "compressor option"
  kc_data_limit :: "data_limit option"
  kc_data_channel_key :: "dc_key option"

abbreviation kcpc :: "('s, 'i) kc \<Rightarrow> proto" where
  "kcpc c \<equiv> pc_of (kc_stack c)"

abbreviation kckx :: "('s, 'i) kc \<Rightarrow> key_ctx" where
  "kckx c \<equiv> kx_of (kc_stack c)"

definition up :: "('s kst \<Rightarrow> 's kst) \<Rightarrow> ('s, 'i) kc \<Rightarrow> ('s, 'i) kc" where
  "up f c = c\<lparr>kc_stack := f (kc_stack c)\<rparr>"

definition upS :: "('a, 's kst) st \<Rightarrow> ('a, ('s, 'i) kc) st" where
  "upS m c = (let (r, k) = m (kc_stack c) in (r, c\<lparr>kc_stack := k\<rparr>))"

definition upO :: "('a, 's kst) ot \<Rightarrow> ('a, ('s, 'i) kc) ot" where
  "upO m c = map_option (\<lambda>(r, k). (r, c\<lparr>kc_stack := k\<rparr>)) (m (kc_stack c))"

section \<open>Events\<close>

text \<open>The codes of \<open>Error::Type\<close> used from here on.\<close>

definition COMPRESS_ERROR :: stack_reason where "COMPRESS_ERROR = Err_other 11"
definition HANDSHAKE_TIMEOUT :: stack_reason where "HANDSHAKE_TIMEOUT = Err_other 37"
definition KEEPALIVE_TIMEOUT :: stack_reason where "KEEPALIVE_TIMEOUT = Err_other 38"
definition PRIMARY_EXPIRE :: stack_reason where "PRIMARY_EXPIRE = Err_other 41"
definition N_KEY_LIMIT_RENEG :: stack_reason where "N_KEY_LIMIT_RENEG = Err_other 55"
definition KEV_NEGOTIATE_ERROR :: stack_reason where "KEV_NEGOTIATE_ERROR = Err_other 59"
definition KEV_PENDING_ERROR :: stack_reason where "KEV_PENDING_ERROR = Err_other 60"
definition N_KEV_EXPIRE :: stack_reason where "N_KEV_EXPIRE = Err_other 61"

definition set_event :: "event_type \<Rightarrow> 's kst \<Rightarrow> 's kst" where
  "set_event current = on_kx (\<lambda>x. x\<lparr>kx_current_event := current\<rparr>)"

definition set_event_next :: "event_type \<Rightarrow> event_type \<Rightarrow> time_pt \<Rightarrow> 's kst \<Rightarrow> 's kst" where
  "set_event_next current nxt t =
     on_kx (\<lambda>x. x\<lparr>kx_current_event := current, kx_next_event := nxt, kx_next_event_time := t\<rparr>)"

definition stat_error :: "stack_reason \<Rightarrow> 's kst \<Rightarrow> 's kst" where
  "stat_error e = on_pc (pc_error (Inl e))"

text \<open>General expiration set when a key hits its data limit.\<close>

definition data_limit_expire :: "'s kst \<Rightarrow> time_pt" where
  "data_limit_expire k = time_add (k_now k) (dur_mult (cf_handshake_window (pc_cfg (pc_of k))) 2)"

definition prepare_expire :: "event_type \<Rightarrow> 's kst \<Rightarrow> 's kst" where
  "prepare_expire current k =
     set_event_next current KEV_EXPIRE
       (if kx_limit_fired (kx_of k) then data_limit_expire k
        else time_add (kx_construct_time (kx_of k)) (cf_expire (pc_cfg (pc_of k)))) k"

definition set_next_event_if_unspecified :: "'s kst \<Rightarrow> 's kst" where
  "set_next_event_if_unspecified k =
     (if kx_next_event (kx_of k) = KEV_NONE \<and> \<not> k_invalidated k then prepare_expire KEV_NONE k else k)"

definition key_limit_reneg :: "event_type \<Rightarrow> time_pt \<Rightarrow> 's kst \<Rightarrow> 's kst" where
  "key_limit_reneg ev t k =
     (if time_defined t
      then set_event_next KEV_NONE ev (time_add t (dur_seconds (if pc_server (pc_of k) then 2 else 1))) k else k)"

definition become_primary_time :: "'s kst \<Rightarrow> time_pt" where
  "become_primary_time k =
     (if kx_next_event (kx_of k) = KEV_BECOME_PRIMARY then kx_next_event_time (kx_of k) else time_zero)"

definition active_event :: "'s kst \<Rightarrow> 's kst" where
  "active_event k =
     set_event_next KEV_ACTIVE KEV_BECOME_PRIMARY
       (time_add (kx_reached_active (kx_of k)) (cf_become_primary (pc_cfg (pc_of k)))) k"

definition kev_error :: "event_type \<Rightarrow> stack_reason \<Rightarrow> 's kst \<Rightarrow> 's kst" where
  "kev_error ev reason k = set_event ev (kc_invalidate reason (stat_error reason k))"

definition schedule_key_limit_renegotiation :: "'s kst \<Rightarrow> 's kst" where
  "schedule_key_limit_renegotiation k =
     (if \<not> kx_limit_fired (kx_of k) \<and> kx_state (kx_of k) \<ge> ACTIVE \<and> \<not> k_invalidated k then
        let k = stat_error N_KEY_LIMIT_RENEG (on_kx (\<lambda>x. x\<lparr>kx_limit_fired := True\<rparr>) k) in
        if kx_next_event (kx_of k) = KEV_BECOME_PRIMARY then set_event KEV_RENEGOTIATE_QUEUE k
        else key_limit_reneg KEV_RENEGOTIATE (k_now k) k
      else k)"

definition decrypt_green :: "data_limit option \<Rightarrow> bool" where
  "decrypt_green dl = (case dl of None \<Rightarrow> False | Some d \<Rightarrow> dl_is_decrypt_green d)"

definition data_limit_event :: "dl_mode \<Rightarrow> dl_state \<Rightarrow> ('s, 'i) kc \<Rightarrow> ('s, 'i) kc" where
  "data_limit_event mode state c =
     (let c = (if state = Red then up schedule_key_limit_renegotiation c else c) in
      if kx_next_event (kckx c) = KEV_PRIMARY_PENDING \<and> decrypt_green (kc_data_limit c)
      then up (\<lambda>k. set_event_next KEV_NONE KEV_BECOME_PRIMARY (time_add (k_now k) (dur_seconds 1)) k) c else c)"

definition data_limit_add :: "dl_mode \<Rightarrow> nat \<Rightarrow> ('s, 'i) kc \<Rightarrow> ('s, 'i) kc" where
  "data_limit_add mode sz c =
     (case kc_data_limit c of
        None \<Rightarrow> c
      | Some d \<Rightarrow>
          let (state, d) = dl_add mode (of_nat sz) d; c = c\<lparr>kc_data_limit := Some d\<rparr> in
          if state_int state > state_int DL_None then data_limit_event mode state c else c)"

definition kc_data_limit_notify :: "dl_mode \<Rightarrow> dl_state \<Rightarrow> ('s, 'i) kc \<Rightarrow> ('s, 'i) kc" where
  "kc_data_limit_notify mode status c =
     (case kc_data_limit c of
        None \<Rightarrow> c
      | Some d \<Rightarrow>
          let (state, d) = dl_update_state mode status d in
          data_limit_event mode state (c\<lparr>kc_data_limit := Some d\<rparr>))"

definition data_limit_defer :: "('s, 'i) kc \<Rightarrow> bool" where
  "data_limit_defer c \<longleftrightarrow> \<not> pc_server (kcpc c) \<and> kc_data_limit c \<noteq> None \<and> kx_key_id (kckx c) \<noteq> 0
     \<and> \<not> decrypt_green (kc_data_limit c)"

definition process_next_event :: "('s, 'i) kc \<Rightarrow> ('s, 'i) kc" where
  "process_next_event c =
     (let k = kc_stack c; x = kx_of k in
      if k_now k \<ge> kx_next_event_time x then
        (case kx_next_event x of
           KEV_BECOME_PRIMARY \<Rightarrow>
             (if data_limit_defer c
              then up (set_event_next KEV_NONE KEV_PRIMARY_PENDING (data_limit_expire k)) c
              else up (set_event_next KEV_BECOME_PRIMARY KEV_RENEGOTIATE
                     (time_add (kx_construct_time x) (cf_renegotiate (pc_cfg (pc_of k))))) c)
         | KEV_RENEGOTIATE \<Rightarrow> up (prepare_expire KEV_RENEGOTIATE) c
         | KEV_RENEGOTIATE_FORCE \<Rightarrow> up (prepare_expire KEV_RENEGOTIATE_FORCE) c
         | KEV_NEGOTIATE \<Rightarrow> up (kev_error KEV_NEGOTIATE KEV_NEGOTIATE_ERROR) c
         | KEV_PRIMARY_PENDING \<Rightarrow> up (kev_error KEV_PRIMARY_PENDING KEV_PENDING_ERROR) c
         | KEV_EXPIRE \<Rightarrow> up (kev_error KEV_EXPIRE N_KEV_EXPIRE) c
         | _ \<Rightarrow> c)
      else c)"

definition event_pending :: "('s, 'i) kc \<Rightarrow> bool \<times> ('s, 'i) kc" where
  "event_pending c =
     (let c = (if kx_current_event (kckx c) = KEV_NONE \<and> k_now (kc_stack c) \<ge> kx_next_event_time (kckx c)
               then process_next_event c else c) in
      (kx_current_event (kckx c) \<noteq> KEV_NONE, c))"

definition reset_event :: "('s, 'i) kc \<Rightarrow> ('s, 'i) kc" where
  "reset_event = up (set_event KEV_NONE)"


section \<open>A new key context\<close>

text \<open>key IDs start at 0 and are recycled from 1.\<close>

definition next_key_id :: "proto \<Rightarrow> u32 \<times> proto" where
  "next_key_id pc =
     (let pc = pc\<lparr>pc_n_key_ids := pc_n_key_ids pc + 1\<rparr>; ret = pc_upcoming_key_id pc;
          n = (ret + 1) AND 7 in
      (ret, pc\<lparr>pc_upcoming_key_id := (if n = 0 then 1 else n)\<rparr>))"

text \<open>The members without an initializer get their values in the body.\<close>

definition kx_new :: "proto \<Rightarrow> u32 \<Rightarrow> key_ctx" where
  "kx_new pc key_id =
     \<lparr>kx_key_id = key_id, kx_work = alloc_default, kx_reached_active = time_zero, kx_next_event = KEV_NONE,
      kx_next_event_time = time_zero, kx_current_event = KEV_NONE, kx_state = STATE_UNDEF, kx_dirty = False,
      kx_limit_fired = False, kx_is_reliable = proto_is_reliable (pc_protocol pc), kx_construct_time = pc_now pc,
      kx_prf_self = tp_new (pc_server pc), kx_prf_peer = tp_new (\<not> pc_server pc), kx_pre_write_queue = [],
      kx_app_recv_buf = []\<rparr>"

definition kc_new :: "('s, 'i) dc_env \<Rightarrow> bool \<Rightarrow> proto \<Rightarrow> ('s, 'i) kc" where
  "kc_new D initiator pc =
     (let (key_id, pc) = next_key_id pc; cfg = pc_cfg pc;
          k = ks_new (env_of D) (de_ssl_new D) (pc_now pc) (cf_tls_timeout cfg) (pc_frame pc)
                (cf_reliable_window cfg) (cf_max_ack_list cfg) \<lparr>u_pc = pc, u_kx = kx_new pc key_id\<rparr>;
          k = set_state ((if pc_server pc then S_INITIAL else C_INITIAL) + (if initiator then 0 else 1)) k;
          k = set_event_next KEV_NONE KEV_NEGOTIATE (time_add (pc_now pc) (cf_handshake_window cfg)) k in
      \<lparr>kc_stack = k, kc_crypto = None, kc_crypto_flags = 0, kc_remote_peer_id = pc_remote_peer_id pc,
       kc_enable_op32 = pc_enable_op32 pc, kc_compress = None, kc_data_limit = None, kc_data_channel_key = None\<rparr>)"

definition kc_set_protocol :: "protocol \<Rightarrow> 's kst \<Rightarrow> 's kst" where
  "kc_set_protocol p = on_kx (\<lambda>x. x\<lparr>kx_is_reliable := proto_is_reliable p\<rparr>)"

section \<open>The control channel\<close>

definition kc_start :: "(unit, 's kst) st" where
  "kc_start k =
     (if kx_state (kx_of k) = C_INITIAL \<or> kx_state (kx_of k) = S_INITIAL then
        bindS send_reset (\<lambda>_ k. (Inr (), set_dirty True (set_state (kx_state (kx_of k) + 1) k))) k
      else (Inr (), k))"

definition kc_app_send :: "buffer \<Rightarrow> (unit, 's kst) st" where
  "kc_app_send b k =
     (if kx_state (kx_of k) \<ge> ACTIVE then bindS (app_send_validate b) (\<lambda>_ k. (Inr (), set_dirty True k)) k
      else (Inr (), on_kx (\<lambda>x. x\<lparr>kx_pre_write_queue := kx_pre_write_queue x @ [b]\<rparr>) k))"

definition kc_net_recv :: "('s, 'i) dc_env \<Rightarrow> packet \<Rightarrow> (bool, 's kst) ot" where
  "kc_net_recv D p =
     bindO (ks_net_recv (env_of D) (de_base D) p) (\<lambda>r k. Some (Inr r, set_dirty True k))"

definition kc_retransmit :: "('s, 'i) dc_env \<Rightarrow> (unit, 's kst) st" where
  "kc_retransmit D = ks_retransmit (env_of D)"

definition kc_next_retransmit :: "'s kst \<Rightarrow> time_pt" where
  "kc_next_retransmit k =
     (let t = ks_next_retransmit k in if t \<le> kx_next_event_time (kx_of k) then t else kx_next_event_time (kx_of k))"

section \<open>Setting up the data channel\<close>

definition cache_op32 :: "('s, 'i) kc \<Rightarrow> ('s, 'i) kc" where
  "cache_op32 c =
     c\<lparr>kc_enable_op32 := pc_enable_op32 (kcpc c), kc_remote_peer_id := pc_remote_peer_id (kcpc c)\<rparr>"

text \<open>\<open>ProtoStackBase::export_key_material\<close>.\<close>

definition export_key_material :: "('s \<Rightarrow> u8 list option) \<Rightarrow> 's \<Rightarrow> buffer \<Rightarrow> buffer res" where
  "export_key_material export ssl key =
     bindE (sk_raw_alloc key) (\<lambda>key.
       case export ssl of
         None \<Rightarrow> Inl (error_code ''TLS Keying material export error'')
       | Some d \<Rightarrow> Inr (key\<lparr>b_data := d\<rparr>))"

definition erase_prf :: "'s kst \<Rightarrow> 's kst" where
  "erase_prf = on_kx (\<lambda>x. x\<lparr>kx_prf_self := tp_erase (kx_prf_self x), kx_prf_peer := tp_erase (kx_prf_peer x)\<rparr>)"

definition generate_datachannel_keys :: "('s, 'i) dc_env \<Rightarrow> (unit, ('s, 'i) kc) st" where
  "generate_datachannel_keys D c =
     (let x = kckx c; pc = kcpc c in
      bindR (case de_export D of
               Some export \<Rightarrow> export_key_material export (k_ssl (kc_stack c)) (dk_key dk_new)
             | None \<Rightarrow> generate_key_expansion (pc_prf_mac pc) (dk_key dk_new) (kx_prf_self x) (kx_prf_peer x)
                 (pc_psid_self pc) (pc_psid_peer pc)) (\<lambda>key c.
        let c = up erase_prf c in
        (Inr (), c\<lparr>kc_data_channel_key :=
           Some \<lparr>dk_key = key, dk_rekey = (case kc_data_channel_key c of None \<Rightarrow> None | Some d \<Rightarrow> dk_rekey d)\<rparr>\<rparr>)) c)"

definition BS64_DATA_LIMIT :: u32 where "BS64_DATA_LIMIT = 48000000"

definition key_dir_of :: "('s, 'i) kc \<Rightarrow> u32" where
  "key_dir_of c = (if pc_server (kcpc c) then SK_INVERSE else SK_NORMAL)"

text \<open>A step of the crypto object; the object is there.\<close>

definition on_crypto :: "(unit, 'i) st \<Rightarrow> (unit, ('s, 'i) kc) st" where
  "on_crypto m c =
     (case kc_crypto c of
        None \<Rightarrow> (Inl undefined_behaviour, c)
      | Some i \<Rightarrow> (let (r, i) = m i in (r, c\<lparr>kc_crypto := Some i\<rparr>)))"

definition slices :: "buffer \<Rightarrow> u32 \<Rightarrow> u32 \<Rightarrow> (u8 list \<times> u8 list) res" where
  "slices key sel key_dir =
     bindE (sk_slice key (sel OR SK_ENCRYPT OR key_dir)) (\<lambda>e.
     bindE (sk_slice key (sel OR SK_DECRYPT OR key_dir)) (\<lambda>d. Inr (e, d)))"

definition init_crypto :: "('s, 'i) dc_env \<Rightarrow> buffer \<Rightarrow> (unit, ('s, 'i) kc) st" where
  "init_crypto D key c =
     (let i = de_impl D; obj = ci_new i (kx_key_id (kckx c)); flags = ci_defined i obj; dir = key_dir_of c in
      bindS (if flags AND CIPHER_DEFINED \<noteq> 0
             then bindR (slices key SK_CIPHER dir) (\<lambda>(e, d). on_crypto (ci_init_cipher i e d)) else ret ()) (\<lambda>_.
      bindS (if flags AND HMAC_DEFINED \<noteq> 0
             then bindR (slices key SK_HMAC dir) (\<lambda>(e, d). on_crypto (ci_init_hmac i e d)) else ret ()) (\<lambda>_ c.
        on_crypto (onlyS (ci_init_remote_peer_id i (pc_remote_peer_id (kcpc c))
          \<circ> ci_init_pid i SHORT_FORM (cf_pid_mode (pc_cfg (kcpc c))) SHORT_FORM ''DATA'' (uint (kx_key_id (kckx c))))) c))
        (c\<lparr>kc_crypto := Some obj, kc_crypto_flags := flags\<rparr>))"

definition crypto_encap :: "('s, 'i) dc_env \<Rightarrow> ('s, 'i) kc \<Rightarrow> int" where
  "crypto_encap D c =
     (if kc_enable_op32 c then 4 else 1) + int (extra_payload_bytes (de_comp_type D)) + int (pid_size SHORT_FORM)
     + int (de_encap_overhead D)"

definition transport_encap :: "('s, 'i) dc_env \<Rightarrow> proto \<Rightarrow> int" where
  "transport_encap D pc =
     (if de_mtu D then
        (if pc_tcp pc then int TCPHeader_size else 8)
        + (if pc_protocol pc \<in> {UDPv6, TCPv6, TLSv6} then int IPv6Header_size else int IPv4Header_size)
        + (if proto_is_tcp (pc_protocol pc) \<or> proto_is_tls (pc_protocol pc) then 2 else 0)
      else 0)"

definition set_mss_inter :: "('s, 'i) dc_env \<Rightarrow> ('s, 'i) kc \<Rightarrow> ('s, 'i) kc" where
  "set_mss_inter D c =
     (if de_mssfix D \<noteq> 0
      then up (on_pc (\<lambda>pc. pc\<lparr>pc_mss_inter := de_mssfix D - word_of_int (crypto_encap D c + transport_encap D pc)\<rparr>)) c
      else c)"

text \<open>From \<open>consider_compression\<close> on.\<close>

definition finish_data_channel :: "('s, 'i) dc_env \<Rightarrow> dc_key \<Rightarrow> (unit, ('s, 'i) kc) st" where
  "finish_data_channel D dck c =
     (case kc_crypto c of
        None \<Rightarrow> (Inl undefined_behaviour, c)
      | Some i \<Rightarrow>
          let enable = ci_consider_compression (de_impl D) (de_comp_type D) i;
              i = (case dk_rekey dck of None \<Rightarrow> i | Some t \<Rightarrow> ci_rekey (de_impl D) t i);
              c = c\<lparr>kc_crypto := Some i, kc_data_channel_key := None\<rparr> in
          bindR (if enable then bindE (new_compressor (de_lzo D) (de_comp_lib D) (de_comp_type D)) (\<lambda>z. Inr (Some z))
                 else Inr None) (\<lambda>z c.
            (Inr (), set_mss_inter D (cache_op32 (c\<lparr>kc_compress := z\<rparr>)))) c)"

definition kc_init_data_channel :: "('s, 'i) dc_env \<Rightarrow> (unit, ('s, 'i) kc) st" where
  "kc_init_data_channel D =
     bindS (\<lambda>c. if (case kc_data_channel_key c of None \<Rightarrow> True | Some d \<Rightarrow> \<not> sk_defined (dk_key d))
                then generate_datachannel_keys D c else (Inr (), c)) (\<lambda>_ c.
       case kc_data_channel_key c of
         None \<Rightarrow> (Inl undefined_behaviour, c)
       | Some dck \<Rightarrow>
           bindS (init_crypto D (dk_key dck)) (\<lambda>_. finish_data_channel D dck)
             (if de_bs64 D then c\<lparr>kc_data_limit := Some (dl_new BS64_DATA_LIMIT BS64_DATA_LIMIT)\<rparr> else c))"


section \<open>Rekeying\<close>

definition kc_rekey :: "('s, 'i) dc_env \<Rightarrow> rekey_type \<Rightarrow> ('s, 'i) kc \<Rightarrow> ('s, 'i) kc" where
  "kc_rekey D t c =
     (case kc_crypto c of
        Some i \<Rightarrow> c\<lparr>kc_crypto := Some (ci_rekey (de_impl D) t i)\<rparr>
      | None \<Rightarrow>
          (case kc_data_channel_key c of
             None \<Rightarrow> c
           | Some d \<Rightarrow> c\<lparr>kc_data_channel_key := Some (d\<lparr>dk_rekey := Some t\<rparr>)\<rparr>))"

section \<open>Going active\<close>

text \<open>What the application wanted to send before the key was active.\<close>

function send_pre_written :: "(unit, 's kst) st" where
  "send_pre_written k =
     (case kx_pre_write_queue (kx_of k) of
        [] \<Rightarrow> (Inr (), k)
      | b # q \<Rightarrow>
          (case app_send_validate b k of
             (Inl e, k) \<Rightarrow> (Inl e, k)
           | (Inr _, k) \<Rightarrow> send_pre_written (set_dirty True (on_kx (\<lambda>x. x\<lparr>kx_pre_write_queue := q\<rparr>) k))))"
  by pat_completeness auto
termination
  by (relation "measure (\<lambda>k. length (kx_pre_write_queue (kx_of k)))") (auto simp: on_kx_def set_dirty_def)

declare send_pre_written.simps [simp del]

definition now_active :: "'s kst \<Rightarrow> 's kst" where
  "now_active k =
     (let k = on_kx (\<lambda>x. x\<lparr>kx_reached_active := k_now k\<rparr>) k;
          d = time_sub (kx_reached_active (kx_of k)) (kx_construct_time (kx_of k)) in
      active_event (on_pc (\<lambda>pc. pc\<lparr>pc_slowest_handshake := dur_max (pc_slowest_handshake pc) d\<rparr>) k))"

definition kc_active :: "('s, 'i) dc_env \<Rightarrow> (unit, ('s, 'i) kc) st" where
  "kc_active D c =
     (let c = c\<lparr>kc_data_channel_key := Some dk_new\<rparr> in
      bindS (if \<not> pc_dc_deferred (kcpc c) then kc_init_data_channel D else ret ()) (\<lambda>_.
      bindS (upS send_pre_written) (\<lambda>_ c. (Inr (), up now_active c))) c)"

definition n_unacked :: "(u32, 's kst) st" where
  "n_unacked k = (case rs_n_unacked (k_send k) of Inl e \<Rightarrow> (Inl e, k) | Inr (n, s) \<Rightarrow> (Inr n, k\<lparr>k_send := s\<rparr>))"

definition kc_start_handshake :: "('s, 'i) dc_env \<Rightarrow> (unit, ('s, 'i) kc) ot" where
  "kc_start_handshake D = upO (ks_start_handshake (env_of D) (de_base D))"

definition enter_state :: "int \<Rightarrow> (unit, ('s, 'i) kc) ot" where
  "enter_state st c = Some (Inr (), up (set_state st) c)"

text \<open>The actions when all that was sent has been acknowledged; the \<open>switch\<close> reads the state once.\<close>

definition post_ack_action :: "('s, 'i) dc_env \<Rightarrow> (unit, ('s, 'i) kc) ot" where
  "post_ack_action D c =
     (if kx_state (kckx c) \<le> LAST_ACK_STATE then
        bindO (lift (upS n_unacked)) (\<lambda>n c.
          let st = kx_state (kckx c) in
          if n \<noteq> 0 then Some (Inr (), c)
          else if st = C_WAIT_RESET_ACK then
            bindO (kc_start_handshake D) (\<lambda>_. bindO (lift (upS send_auth)) (\<lambda>_. enter_state C_WAIT_AUTH)) c
          else if st = S_WAIT_RESET_ACK then
            bindO (kc_start_handshake D) (\<lambda>_. enter_state S_WAIT_AUTH) c
          else if st = C_WAIT_AUTH_ACK \<or> st = S_WAIT_AUTH_ACK then
            bindO (lift (kc_active D)) (\<lambda>_. enter_state ACTIVE) c
          else Some (Inr (), c)) c
      else Some (Inr (), c))"

definition kc_flush :: "('s, 'i) dc_env \<Rightarrow> (unit, ('s, 'i) kc) ot" where
  "kc_flush D c =
     (if kx_dirty (kckx c) then
        bindO (post_ack_action D) (\<lambda>_.
        bindO (lift (upS (ks_flush (env_of D)))) (\<lambda>_.
        bindO (upO (ks_send_pending_acks (env_of D))) (\<lambda>_ c.
          Some (Inr (), up (set_dirty False) c)))) c
      else Some (Inr (), c))"

section \<open>Data packets\<close>

definition WRITE_DC_MSG :: nat where "WRITE_DC_MSG = 13"

text \<open>A call on a packet has the key context and the packet's buffer as its state.\<close>

record ('s, 'i) pkt =
  px_kc :: "('s, 'i) kc"
  px_buf :: buffer

definition on_px :: "(('s, 'i) kc \<Rightarrow> buffer \<Rightarrow> buffer res) \<Rightarrow> (unit, ('s, 'i) pkt) st" where
  "on_px f s = (case f (px_kc s) (px_buf s) of Inl e \<Rightarrow> (Inl e, s) | Inr b \<Rightarrow> (Inr (), s\<lparr>px_buf := b\<rparr>))"

definition px_up :: "(('s, 'i) kc \<Rightarrow> ('s, 'i) kc) \<Rightarrow> ('s, 'i) pkt \<Rightarrow> ('s, 'i) pkt" where
  "px_up f s = s\<lparr>px_kc := f (px_kc s)\<rparr>"

definition data_ready :: "('s, 'i) kc \<Rightarrow> bool" where
  "data_ready c \<longleftrightarrow> kx_state (kckx c) \<ge> ACTIVE \<and> kc_crypto_flags c AND CRYPTO_DEFINED \<noteq> 0
     \<and> \<not> k_invalidated (kc_stack c)"

definition px_crypto :: "('a, 'i dcx) st \<Rightarrow> ('a, ('s, 'i) pkt) st" where
  "px_crypto m s =
     (case kc_crypto (px_kc s) of
        None \<Rightarrow> (Inl undefined_behaviour, s)
      | Some i \<Rightarrow>
          (let (r, x) = m \<lparr>dx_obj = i, dx_buf = px_buf s\<rparr> in
           (r, \<lparr>px_kc = (px_kc s)\<lparr>kc_crypto := Some (dx_obj x)\<rparr>, px_buf = dx_buf x\<rparr>)))"

definition fix_mss :: "('s, 'i) dc_env \<Rightarrow> (unit, ('s, 'i) pkt) st" where
  "fix_mss D =
     on_px (\<lambda>c b. if pc_mss_inter (kcpc c) > 0 then mssfix (de_le D) (sint (pc_mss_inter (kcpc c))) b else Inr b)"

definition compress_packet :: "bool \<Rightarrow> (unit, ('s, 'i) pkt) st" where
  "compress_packet hint =
     on_px (\<lambda>c b. case kc_compress c of None \<Rightarrow> Inr b | Some z \<Rightarrow> co_compress z hint b)"

definition key_now :: "('s, 'i) kc \<Rightarrow> int" where
  "key_now c = time_seconds_since_epoch (pc_epoch (kcpc c)) (k_now (kc_stack c))"

text \<open>The 32-bit head of a packet, in network order.\<close>

definition op32_of :: "('s, 'i) kc \<Rightarrow> u8 list" where
  "op32_of c = be32 (op32_compose DATA_V2 (kx_key_id (kckx c)) (word_of_int (kc_remote_peer_id c)))"

definition do_encrypt :: "('s, 'i) dc_env \<Rightarrow> bool \<Rightarrow> (bool, ('s, 'i) pkt) st" where
  "do_encrypt D hint =
     bindS (fix_mss D) (\<lambda>_.
     bindS (compress_packet hint) (\<lambda>_ s.
       let s = px_up (data_limit_add Encrypt (b_size (px_buf s))) s; c = px_kc s in
       if kc_enable_op32 c then
         bindS (px_crypto (ci_encrypt (de_impl D) (key_now c) (Some (op32_of c)))) (\<lambda>wrap.
         bindS (on_px (\<lambda>_. buf_prepend (op32_of c))) (\<lambda>_. ret wrap)) s
       else
         bindS (px_crypto (ci_encrypt (de_impl D) (key_now c) None)) (\<lambda>wrap.
         bindS (on_px (\<lambda>_. buf_push_front (ucast (op_compose DATA_V1 (kx_key_id (kckx c)))))) (\<lambda>_. ret wrap)) s))"

definition kc_encrypt :: "('s, 'i) dc_env \<Rightarrow> (unit, ('s, 'i) pkt) st" where
  "kc_encrypt D s =
     (if data_ready (px_kc s) then
        bindS (do_encrypt D True) (\<lambda>wrap s.
          (Inr (), if wrap then px_up (up schedule_key_limit_renegotiation) s else s)) s
      else (Inr (), s\<lparr>px_buf := buf_reset_size (px_buf s)\<rparr>))"

definition count_decrypt_error :: "stack_reason \<Rightarrow> 's kst \<Rightarrow> 's kst" where
  "count_decrypt_error e k =
     (if e = Err_SUCCESS then k
      else let k = stat_error e k in
        if pc_tcp (pc_of k) \<and> (e = Err_DECRYPT_ERROR \<or> e = Err_HMAC_ERROR) then kc_invalidate e k else k)"

definition decompress_packet :: "(unit, ('s, 'i) pkt) st" where
  "decompress_packet s =
     (case kc_compress (px_kc s) of
        None \<Rightarrow> (Inr (), s)
      | Some z \<Rightarrow>
          (case co_decompress z (px_buf s) of
             Inl e \<Rightarrow> (Inl e, s)
           | Inr (failed, b) \<Rightarrow>
               (Inr (), (if failed then px_up (up (stat_error COMPRESS_ERROR)) s else s)\<lparr>px_buf := b\<rparr>)))"

definition decrypt_body :: "('s, 'i) dc_env \<Rightarrow> (unit, ('s, 'i) pkt) st" where
  "decrypt_body D s =
     bindR (buf_index 0 (px_buf s)) (\<lambda>oper s.
       let head_size = op_head_size (ucast oper);
           op32 = (if head_size = 4 then Some (slice (b_off (px_buf s)) 4 (b_data (px_buf s))) else None) in
       bindS (on_px (\<lambda>_. buf_advance head_size)) (\<lambda>_ s.
       bindS (px_crypto (ci_decrypt (de_impl D) (key_now (px_kc s)) op32)) (\<lambda>err s.
         let s = px_up (up (count_decrypt_error err)) s;
             s = px_up (data_limit_add Decrypt (b_size (px_buf s))) s in
         bindS decompress_packet (\<lambda>_. fix_mss D) s) s) s) s"

text \<open>Only buffer exceptions are caught.\<close>

definition kc_decrypt :: "('s, 'i) dc_env \<Rightarrow> (unit, ('s, 'i) pkt) st" where
  "kc_decrypt D s =
     (if data_ready (px_kc s) then
        (case decrypt_body D s of
           (Inl (Buffer_exception _), s) \<Rightarrow>
             (Inr (), (px_up (up (kc_reject Err_BUFFER_ERROR)) s)\<lparr>px_buf := buf_reset_size (px_buf s)\<rparr>)
         | (r, s) \<Rightarrow> (r, s))
      else (Inr (), s\<lparr>px_buf := buf_reset_size (px_buf s)\<rparr>))"

definition keepalive_message :: "u8 list" where
  "keepalive_message =
     [0x2a, 0x18, 0x7b, 0xf3, 0x64, 0x1e, 0xb4, 0xcb, 0x07, 0xed, 0x2d, 0x0a, 0x98, 0x1f, 0xc7, 0x48]"

definition explicit_exit_notify_message :: "u8 list" where
  "explicit_exit_notify_message =
     [0x28, 0x7f, 0x34, 0x6b, 0xd4, 0xef, 0x7a, 0x81, 0x2d, 0x56, 0xb8, 0xd3, 0xaf, 0xc5, 0x45, 0x9c, 6]"

definition is_keepalive :: "buffer \<Rightarrow> bool" where
  "is_keepalive b \<longleftrightarrow> b_size b \<ge> length keepalive_message \<and> b_data b ! b_off b = 0x2a
     \<and> take (length keepalive_message) (content b) = keepalive_message"

definition send_data_channel_message :: "('s, 'i) dc_env \<Rightarrow> u8 list \<Rightarrow> (unit, ('s, 'i) kc) st" where
  "send_data_channel_message D d c =
     (if data_ready c then
        bindR (bindE (frame_prepare WRITE_DC_MSG (pc_base (kcpc c)) alloc_default (pc_frame (kcpc c)))
                (\<lambda>(_, b). buf_write d b)) (\<lambda>b c.
          (case do_encrypt D False \<lparr>px_kc = c, px_buf = b\<rparr> of
             (Inl e, s) \<Rightarrow> (Inl e, px_kc s)
           | (Inr _, s) \<Rightarrow>
               (Inr (), up (on_pc (\<lambda>pc. pc\<lparr>pc_net_sent := pc_net_sent pc @ [px_buf s]\<rparr>)) (px_kc s)))) c
      else (Inr (), c))"

definition send_keepalive :: "('s, 'i) dc_env \<Rightarrow> (unit, ('s, 'i) kc) st" where
  "send_keepalive D = send_data_channel_message D keepalive_message"

definition kc_send_explicit_exit_notify :: "('s, 'i) dc_env \<Rightarrow> (unit, ('s, 'i) kc) st" where
  "kc_send_explicit_exit_notify D c =
     (if kc_crypto_flags c AND EXPLICIT_EXIT_NOTIFY_DEFINED \<noteq> 0
      then on_crypto (onlyS (ci_explicit_exit_notify (de_impl D))) c
      else send_data_channel_message D explicit_exit_notify_message c)"

end
