(* ===== verification/Session.thy ===== *)
theory Session
  imports KeySession
begin

text \<open>
  The session (\<open>ProtoContext\<close>, \<open>ssl/proto.hpp\<close>): its primary and secondary key contexts, the
  classification and validation of packets, the events that renew keys, keepalives, and the data
  channel.  Callbacks into the application (\<open>control_recv\<close>, \<open>active\<close>, \<dots>) are logged and do not call
  back.
\<close>

section \<open>State\<close>

text \<open>
  The contexts share the members of the session, which are kept here in \<open>se_pc\<close> and lent to the key
  context that runs.  \<open>se_prng_calls\<close> counts the calls of the generator of session IDs.
\<close>

record ('s, 'i) session =
  se_pc :: proto
  se_primary :: "('s, 'i) kc option"
  se_secondary :: "('s, 'i) kc option"
  se_prng_calls :: nat

datatype slot = Primary | Secondary

definition key_at :: "slot \<Rightarrow> ('s, 'i) session \<Rightarrow> ('s, 'i) kc option" where
  "key_at w s = (case w of Primary \<Rightarrow> se_primary s | Secondary \<Rightarrow> se_secondary s)"

definition set_key :: "slot \<Rightarrow> ('s, 'i) kc \<Rightarrow> ('s, 'i) session \<Rightarrow> ('s, 'i) session" where
  "set_key w c s = (case w of Primary \<Rightarrow> s\<lparr>se_primary := Some c\<rparr> | Secondary \<Rightarrow> s\<lparr>se_secondary := Some c\<rparr>)"

definition lend :: "proto \<Rightarrow> ('s, 'i) kc \<Rightarrow> ('s, 'i) kc" where
  "lend pc = up (\<lambda>k. on_pc (\<lambda>_. pc) (k\<lparr>k_now := pc_now pc\<rparr>))"

definition keep_key :: "slot \<Rightarrow> ('s, 'i) kc \<Rightarrow> ('s, 'i) session \<Rightarrow> ('s, 'i) session" where
  "keep_key w c s = (set_key w c s)\<lparr>se_pc := kcpc c\<rparr>"

definition on_sepc :: "(proto \<Rightarrow> proto) \<Rightarrow> ('s, 'i) session \<Rightarrow> ('s, 'i) session" where
  "on_sepc f s = s\<lparr>se_pc := f (se_pc s)\<rparr>"

text \<open>A method of the key at a slot; the pointer is dereferenced.\<close>

definition on_slot :: "slot \<Rightarrow> ('a, ('s, 'i) kc) st \<Rightarrow> ('a, ('s, 'i) session) st" where
  "on_slot w m s =
     (case key_at w s of
        None \<Rightarrow> (Inl undefined_behaviour, s)
      | Some c \<Rightarrow> (let (r, c) = m (lend (se_pc s) c) in (r, keep_key w c s)))"

definition on_slotO :: "slot \<Rightarrow> ('a, ('s, 'i) kc) ot \<Rightarrow> ('a, ('s, 'i) session) ot" where
  "on_slotO w m s =
     (case key_at w s of
        None \<Rightarrow> Some (Inl undefined_behaviour, s)
      | Some c \<Rightarrow> map_option (\<lambda>(r, c). (r, keep_key w c s)) (m (lend (se_pc s) c)))"

text \<open>\<open>if (key) key->method()\<close>.\<close>

definition if_slot :: "slot \<Rightarrow> (('s, 'i) kc \<Rightarrow> ('s, 'i) kc) \<Rightarrow> ('s, 'i) session \<Rightarrow> ('s, 'i) session" where
  "if_slot w f s = (case key_at w s of None \<Rightarrow> s | Some c \<Rightarrow> keep_key w (f (lend (se_pc s) c)) s)"

definition if_slotS :: "slot \<Rightarrow> (unit, ('s, 'i) kc) st \<Rightarrow> (unit, ('s, 'i) session) st" where
  "if_slotS w m s = (if key_at w s = None then (Inr (), s) else on_slot w m s)"

definition if_slotO :: "slot \<Rightarrow> (unit, ('s, 'i) kc) ot \<Rightarrow> (unit, ('s, 'i) session) ot" where
  "if_slotO w m s = (if key_at w s = None then Some (Inr (), s) else on_slotO w m s)"

section \<open>Packets\<close>

text \<open>\<open>PacketType\<close> and its flags.\<close>

definition PT_DEFINED :: u32 where "PT_DEFINED = 1"
definition PT_CONTROL :: u32 where "PT_CONTROL = 2"
definition PT_SECONDARY :: u32 where "PT_SECONDARY = 4"
definition PT_SOFT_RESET :: u32 where "PT_SOFT_RESET = 8"

definition OP_PEER_ID_UNDEF :: u32 where "OP_PEER_ID_UNDEF = 0x00FFFFFF"

record packet_type =
  pt_flags :: u32
  pt_opcode :: u32
  pt_peer_id :: int

definition pt_is_defined :: "packet_type \<Rightarrow> bool" where
  "pt_is_defined t \<longleftrightarrow> pt_flags t AND PT_DEFINED \<noteq> 0"

definition pt_is_control :: "packet_type \<Rightarrow> bool" where
  "pt_is_control t \<longleftrightarrow> pt_flags t AND (PT_CONTROL OR PT_DEFINED) = PT_CONTROL OR PT_DEFINED"

definition pt_is_data :: "packet_type \<Rightarrow> bool" where
  "pt_is_data t \<longleftrightarrow> pt_flags t AND (PT_CONTROL OR PT_DEFINED) = PT_DEFINED"

definition pt_is_soft_reset :: "packet_type \<Rightarrow> bool" where
  "pt_is_soft_reset t \<longleftrightarrow> pt_flags t AND (PT_CONTROL OR PT_DEFINED OR PT_SECONDARY OR PT_SOFT_RESET)
     = PT_CONTROL OR PT_DEFINED OR PT_SECONDARY OR PT_SOFT_RESET"

definition pt_new :: packet_type where
  "pt_new = \<lparr>pt_flags = 0, pt_opcode = INVALID_OPCODE, pt_peer_id = -1\<rparr>"

text \<open>The examination of the opcode; \<open>None\<close> is the early return.\<close>

definition pt_examine_opcode :: "buffer \<Rightarrow> u32 \<Rightarrow> bool \<Rightarrow> packet_type option" where
  "pt_examine_opcode b opc server =
     (let control = pt_new\<lparr>pt_flags := PT_CONTROL, pt_opcode := opc\<rparr> in
      if opc = CONTROL_SOFT_RESET_V1 \<or> opc = CONTROL_V1 \<or> opc = ACK_V1 then Some control
      else if opc = DATA_V2 then
        (if b_size b < 4 then None
         else let opi = of_be32 (take 4 (content b)) AND 0x00FFFFFF in
           Some (pt_new\<lparr>pt_opcode := opc, pt_peer_id := (if opi \<noteq> OP_PEER_ID_UNDEF then uint opi else -1)\<rparr>))
      else if opc = DATA_V1 then Some (pt_new\<lparr>pt_opcode := opc\<rparr>)
      else if opc = CONTROL_HARD_RESET_CLIENT_V2 \<or> opc = CONTROL_HARD_RESET_CLIENT_V3 then
        (if \<not> server then None else Some control)
      else if opc = CONTROL_HARD_RESET_SERVER_V2 then
        (if server then None else Some control)
      else None)"

definition has_key_id :: "u32 \<Rightarrow> ('s, 'i) kc option \<Rightarrow> bool" where
  "has_key_id kid c = (case c of None \<Rightarrow> False | Some c \<Rightarrow> kid = kx_key_id (kckx c))"

definition pt_examine_key_id :: "u32 \<Rightarrow> ('s, 'i) session \<Rightarrow> packet_type \<Rightarrow> packet_type" where
  "pt_examine_key_id kid s t =
     (if has_key_id kid (se_primary s) then t\<lparr>pt_flags := pt_flags t OR PT_DEFINED\<rparr>
      else if has_key_id kid (se_secondary s) then t\<lparr>pt_flags := pt_flags t OR (PT_DEFINED OR PT_SECONDARY)\<rparr>
      else if pt_opcode t = CONTROL_SOFT_RESET_V1 \<and> kid = pc_upcoming_key_id (se_pc s)
        then t\<lparr>pt_flags := pt_flags t OR (PT_DEFINED OR PT_SECONDARY OR PT_SOFT_RESET)\<rparr>
      else t)"

definition packet_type_of :: "buffer \<Rightarrow> ('s, 'i) session \<Rightarrow> packet_type" where
  "packet_type_of b s =
     (if b_size b \<noteq> 0 then
        let op = ucast (content b ! 0) in
        (case pt_examine_opcode b (opcode_extract op) (pc_server (se_pc s)) of
           None \<Rightarrow> pt_new
         | Some t \<Rightarrow> pt_examine_key_id (key_id_extract op) s t)
      else pt_new)"

definition select_key_context :: "packet_type \<Rightarrow> bool \<Rightarrow> ('s, 'i) session \<Rightarrow> slot res" where
  "select_key_context t control s =
     (let flags = pt_flags t AND (PT_DEFINED OR PT_SECONDARY OR PT_CONTROL);
          c = (if control then PT_CONTROL else 0) in
      if flags = PT_DEFINED OR c \<and> se_primary s \<noteq> None then Inr Primary
      else if flags = PT_DEFINED OR PT_SECONDARY OR c \<and> se_secondary s \<noteq> None then Inr Secondary
      else Inl select_key_context_error)"

section \<open>Validation\<close>

text \<open>The methods change \<open>psid_peer\<close> only, and so have the members of the session as their state.\<close>

definition own_psid_in :: "buffer \<Rightarrow> (bool, proto) st" where
  "own_psid_in b =
     bindR (ra_ack_skip b) (\<lambda>(n, b).
       if n \<noteq> 0 then
         bindR (psid_of_buffer b) (\<lambda>(dest, _) pc. ret (pc_psid_match pc (pc_psid_self pc) dest) pc)
       else ret True)"

definition pid_acceptable :: "packet_id \<Rightarrow> proto \<Rightarrow> (bool \<times> proto) res" where
  "pid_acceptable pid pc =
     bindE (pidr_test_add pid (pc_seconds pc) False (pc_ta_pid_recv pc)) (\<lambda>(ok, err, ta).
       Inr (ok, (case err of None \<Rightarrow> id | Some e \<Rightarrow> pc_error (Inr e)) (pc\<lparr>pc_ta_pid_recv := ta\<rparr>)))"

definition check_pid_and_psid :: "packet_id \<Rightarrow> buffer \<Rightarrow> (bool, proto) st" where
  "check_pid_and_psid pid b pc =
     (case pid_acceptable pid pc of
        Inl e \<Rightarrow> (Inl e, pc)
      | Inr (pid_ok, pc) \<Rightarrow> bindS (own_psid_in b) (\<lambda>ours. ret (ours \<and> pid_ok)) pc)"

definition validate_tls_auth :: "buffer \<Rightarrow> (bool, proto) st" where
  "validate_tls_auth recv pc =
     (bindR (buf_advance 1 recv) (\<lambda>b.
      bindR (psid_of_buffer b) (\<lambda>(src, b).
      bindR (buf_advance (pc_hmac_size pc) b) (\<lambda>b pc.
        if \<not> ovpn_hmac_cmp (pc_mem pc) (pc_ta_hmac_recv pc) (content recv) (1 + PSID_SIZE) (pc_hmac_size pc)
               (pid_size LONG_FORM)
        then ret False pc
        else if \<not> pc_psid_match pc (pc_psid_peer pc) src then ret False pc
        else bindR (pidr_read_next b (pc_ta_pid_recv pc)) (\<lambda>(pid, b). check_pid_and_psid pid b) pc))) pc)"

definition verify_or_set_peer :: "psid \<Rightarrow> (bool, proto) st" where
  "verify_or_set_peer src pc =
     (if psid_defined (pc_psid_peer pc) then ret (pc_psid_match pc (pc_psid_peer pc) src) pc
      else ret True (pc\<lparr>pc_psid_peer := src\<rparr>))"

definition validate_tls_crypt :: "buffer \<Rightarrow> (bool, proto) st" where
  "validate_tls_crypt recv pc =
     (bindR (buf_advance 1 recv) (\<lambda>b.
      bindR (psid_of_buffer b) (\<lambda>(src, b).
      bindR (pidr_read_next b (pc_ta_pid_recv pc)) (\<lambda>(pid, b).
      bindR (buf_advance (pc_hmac_size pc) b) (\<lambda>b.
        if b_size recv < hmac_offset + pc_hmac_size pc then ret False
        else
          bindR (frame_prepare DECRYPT_WORK (pc_base pc) alloc_default (pc_frame pc)) (\<lambda>(_, w).
          bindR (tls_crypt_open pc recv b w) (\<lambda>opened.
            case opened of
              None \<Rightarrow> ret False
            | Some w \<Rightarrow>
                bindR (tls_crypt_check pc recv w) (\<lambda>ok.
                  if \<not> ok then ret False
                  else bindS (verify_or_set_peer src) (\<lambda>ok.
                    if \<not> ok then ret False else check_pid_and_psid pid w)))))))) pc)"

definition validate_tls_plain :: "buffer \<Rightarrow> (bool, proto) st" where
  "validate_tls_plain recv =
     bindR (buf_advance 1 recv) (\<lambda>b.
     bindR (psid_of_buffer b) (\<lambda>(src, b) pc.
       if \<not> pc_psid_match pc (pc_psid_peer pc) src then ret False pc else own_psid_in b pc))"

definition validate_dispatch :: "buffer \<Rightarrow> (bool, proto) st" where
  "validate_dispatch recv pc =
     (case pc_wrap_mode pc of
        TLS_AUTH \<Rightarrow> validate_tls_auth recv pc
      | TLS_CRYPT_V2 \<Rightarrow>
          bindR (buf_index 0 recv) (\<lambda>v.
            if opcode_extract (ucast v) = CONTROL_HARD_RESET_CLIENT_V3 then ret True
            else validate_tls_crypt recv) pc
      | TLS_CRYPT \<Rightarrow> validate_tls_crypt recv pc
      | TLS_PLAIN \<Rightarrow> validate_tls_plain recv pc)"

definition validate :: "buffer \<Rightarrow> (bool, proto) st" where
  "validate net_buf pc =
     (case validate_dispatch net_buf pc of
        (Inl (Buffer_exception _), pc) \<Rightarrow> ret False pc
      | (r, pc) \<Rightarrow> (r, pc))"

definition on_session :: "('a, proto) st \<Rightarrow> ('a, ('s, 'i) session) st" where
  "on_session m s = (let (r, pc) = m (se_pc s) in (r, s\<lparr>se_pc := pc\<rparr>))"

definition control_net_validate :: "packet_type \<Rightarrow> buffer \<Rightarrow> (bool, ('s, 'i) session) st" where
  "control_net_validate t b =
     (if pt_is_defined t then on_session (validate b) else ret False)"

section \<open>Making and renewing keys\<close>

definition new_secondary_key :: "('s, 'i) dc_env \<Rightarrow> bool \<Rightarrow> ('s, 'i) session \<Rightarrow> ('s, 'i) session" where
  "new_secondary_key D initiator s = keep_key Secondary (kc_new D initiator (se_pc s)) s"

definition renegotiate :: "('s, 'i) dc_env \<Rightarrow> (unit, ('s, 'i) session) st" where
  "renegotiate D s = on_slot Secondary (upS kc_start) (new_secondary_key D True s)"

text \<open>\<open>update_last_sent\<close>, \<open>update_last_received\<close> and the statistics are the session's own.\<close>

definition update_last_sent :: "proto \<Rightarrow> proto" where
  "update_last_sent pc = pc\<lparr>pc_keepalive_xmit := time_add (pc_now pc) (pc_keepalive_ping pc)\<rparr>"

definition last_received :: "proto \<Rightarrow> proto" where
  "last_received pc = pc\<lparr>pc_keepalive_expire := time_add (pc_now pc) (pc_keepalive_timeout pc)\<rparr>"

definition session_start :: "(unit, ('s, 'i) session) st" where
  "session_start s =
     (if se_primary s = None then (Inl (proto_error ''start: no primary key''), s)
      else bindS (on_slot Primary (upS kc_start)) (\<lambda>_ s.
        (Inr (), on_sepc last_received s)) s)"

definition keepalive_parms_modified :: "proto \<Rightarrow> proto" where
  "keepalive_parms_modified pc =
     (let pc = last_received pc; t = time_add (pc_now pc) (pc_keepalive_ping pc) in
      if t < pc_keepalive_xmit pc then pc\<lparr>pc_keepalive_xmit := t\<rparr> else pc)"

text \<open>The previous values in seconds, 0 if not enabled.\<close>

definition keepalive_seconds :: "duration \<Rightarrow> u32" where
  "keepalive_seconds d = (if dur_enabled d then ucast (dur_to_seconds d) else 0)"

definition disable_keepalive :: "proto \<Rightarrow> (u32 \<times> u32) \<times> proto" where
  "disable_keepalive pc =
     ((keepalive_seconds (pc_keepalive_ping pc), keepalive_seconds (pc_keepalive_timeout pc)),
      keepalive_parms_modified (pc\<lparr>pc_keepalive_ping := dur_infinite, pc_keepalive_timeout := dur_infinite\<rparr>))"

definition is_keepalive_enabled :: "proto \<Rightarrow> bool" where
  "is_keepalive_enabled pc \<longleftrightarrow> dur_enabled (pc_keepalive_ping pc) \<or> dur_enabled (pc_keepalive_timeout pc)"

definition align_adjust_hint :: "proto \<Rightarrow> nat" where
  "align_adjust_hint pc = (if pc_enable_op32 pc then 0 else 1)"

definition session_error :: "stack_reason \<Rightarrow> ('s, 'i) session \<Rightarrow> ('s, 'i) session" where
  "session_error e = on_sepc (pc_error (Inl e))"

definition disconnect :: "stack_reason \<Rightarrow> ('s, 'i) session \<Rightarrow> ('s, 'i) session" where
  "disconnect reason s = if_slot Secondary (up (kc_invalidate reason)) (if_slot Primary (up (kc_invalidate reason)) s)"

definition key_invalidated :: "('s, 'i) kc option \<Rightarrow> bool" where
  "key_invalidated c = (case c of None \<Rightarrow> False | Some c \<Rightarrow> k_invalidated (kc_stack c))"

definition session_invalidated :: "('s, 'i) session \<Rightarrow> bool" where
  "session_invalidated s = key_invalidated (se_primary s)"

definition data_channel_ready :: "('s, 'i) session \<Rightarrow> bool" where
  "data_channel_ready s = (case se_primary s of None \<Rightarrow> False | Some c \<Rightarrow> kx_state (kckx c) \<ge> ACTIVE)"

text \<open>\<open>Config::set_protocol\<close>; \<open>set_pid_mode(false)\<close> selects the UDP mode for every protocol.\<close>

definition UDP_MODE :: int where "UDP_MODE = 0"

definition config_set_protocol :: "protocol \<Rightarrow> proto \<Rightarrow> proto" where
  "config_set_protocol p pc = pc\<lparr>pc_protocol := p, pc_cfg := (pc_cfg pc)\<lparr>cf_pid_mode := UDP_MODE\<rparr>\<rparr>"

definition session_set_protocol :: "protocol \<Rightarrow> ('s, 'i) session \<Rightarrow> ('s, 'i) session" where
  "session_set_protocol p s =
     if_slot Secondary (up (kc_set_protocol p)) (if_slot Primary (up (kc_set_protocol p))
       (on_sepc (config_set_protocol p) s))"

section \<open>Events\<close>

definition promote_secondary_to_primary :: "('s, 'i) dc_env \<Rightarrow> ('s, 'i) session \<Rightarrow> ('s, 'i) session" where
  "promote_secondary_to_primary D s =
     if_slot Secondary (up (prepare_expire KEV_NONE))
       (if_slot Primary (kc_rekey D PRIMARY_SECONDARY_SWAP)
         (s\<lparr>se_primary := se_secondary s, se_secondary := se_primary s\<rparr>))"

definition default_next_event :: "slot \<Rightarrow> ('s, 'i) session \<Rightarrow> ('s, 'i) session" where
  "default_next_event w = if_slot w (up set_next_event_if_unspecified)"

definition current_event :: "slot \<Rightarrow> ('s, 'i) session \<Rightarrow> event_type" where
  "current_event w s = (case key_at w s of None \<Rightarrow> KEV_NONE | Some c \<Rightarrow> kx_current_event (kckx c))"

definition primary_event :: "('s, 'i) dc_env \<Rightarrow> event_type \<Rightarrow> (unit, ('s, 'i) session) st" where
  "primary_event D ev s =
     (case ev of
        KEV_ACTIVE \<Rightarrow>
          (Inr (), on_sepc (\<lambda>pc. pc\<lparr>pc_actives := pc_actives pc + 1\<rparr>)
             (if_slot Primary (kc_rekey D ACTIVATE_PRIMARY) s))
      | KEV_RENEGOTIATE \<Rightarrow> renegotiate D s
      | KEV_RENEGOTIATE_FORCE \<Rightarrow> renegotiate D s
      | KEV_EXPIRE \<Rightarrow>
          (Inr (), if se_secondary s \<noteq> None \<and> \<not> key_invalidated (se_secondary s)
                   then promote_secondary_to_primary D s
                   else disconnect PRIMARY_EXPIRE (session_error PRIMARY_EXPIRE s))
      | KEV_NEGOTIATE \<Rightarrow> (Inr (), disconnect HANDSHAKE_TIMEOUT (session_error HANDSHAKE_TIMEOUT s))
      | _ \<Rightarrow> (Inr (), s))"

definition process_primary_event :: "('s, 'i) dc_env \<Rightarrow> (unit, ('s, 'i) session) st" where
  "process_primary_event D s =
     (let ev = current_event Primary s in
      bindS (if ev \<noteq> KEV_NONE then primary_event D ev \<circ> if_slot Primary reset_event else ret ()) (\<lambda>_ s.
        (Inr (), default_next_event Primary s)) s)"

text \<open>The last case but one falls through.\<close>

definition secondary_event :: "('s, 'i) dc_env \<Rightarrow> event_type \<Rightarrow> (unit, ('s, 'i) session) st" where
  "secondary_event D ev s =
     (case ev of
        KEV_ACTIVE \<Rightarrow>
          (Inr (), if_slot Primary (up (prepare_expire KEV_NONE)) (if_slot Secondary (kc_rekey D NEW_SECONDARY) s))
      | KEV_BECOME_PRIMARY \<Rightarrow>
          (Inr (), if \<not> key_invalidated (se_secondary s) then promote_secondary_to_primary D s else s)
      | KEV_EXPIRE \<Rightarrow>
          (Inr (), (if_slot Secondary (kc_rekey D DEACTIVATE_SECONDARY) s)\<lparr>se_secondary := None\<rparr>)
      | KEV_RENEGOTIATE_QUEUE \<Rightarrow>
          (Inr (), (case se_secondary s of
                      None \<Rightarrow> s
                    | Some c \<Rightarrow> if_slot Primary
                        (up (key_limit_reneg KEV_RENEGOTIATE_FORCE (become_primary_time (kc_stack c)))) s))
      | KEV_NEGOTIATE \<Rightarrow> renegotiate D (session_error HANDSHAKE_TIMEOUT s)
      | KEV_PRIMARY_PENDING \<Rightarrow> renegotiate D s
      | KEV_RENEGOTIATE_FORCE \<Rightarrow> renegotiate D s
      | _ \<Rightarrow> (Inr (), s))"

definition process_secondary_event :: "('s, 'i) dc_env \<Rightarrow> (unit, ('s, 'i) session) st" where
  "process_secondary_event D s =
     (let ev = current_event Secondary s in
      bindS (if ev \<noteq> KEV_NONE then secondary_event D ev \<circ> if_slot Secondary reset_event else ret ()) (\<lambda>_ s.
        (Inr (), default_next_event Secondary s)) s)"

definition pending_at :: "slot \<Rightarrow> ('s, 'i) session \<Rightarrow> bool \<times> ('s, 'i) session" where
  "pending_at w s =
     (case key_at w s of
        None \<Rightarrow> (False, s)
      | Some c \<Rightarrow> (let (p, c) = event_pending (lend (se_pc s) c) in (p, keep_key w c s)))"

definition process_slot ::
    "slot \<Rightarrow> (unit, ('s, 'i) session) st \<Rightarrow> (bool, ('s, 'i) session) st" where
  "process_slot w m s =
     (let (p, s) = pending_at w s in if p then bindS m (\<lambda>_. ret True) s else ret False s)"

definition process_events :: "('s, 'i) dc_env \<Rightarrow> (bool, ('s, 'i) session) st" where
  "process_events D =
     bindS (process_slot Primary (process_primary_event D)) (\<lambda>a.
     bindS (process_slot Secondary (process_secondary_event D)) (\<lambda>b. ret (a \<or> b)))"

section \<open>Flushing\<close>

definition flush_keys :: "('s, 'i) dc_env \<Rightarrow> (unit, ('s, 'i) session) ot" where
  "flush_keys D = bindO (if_slotO Primary (kc_flush D)) (\<lambda>_. if_slotO Secondary (kc_flush D))"

text \<open>The loop of \<open>flush\<close>.\<close>

partial_function (option) flush_loop :: "('s, 'i) dc_env \<Rightarrow> (unit, ('s, 'i) session) ot" where
  "flush_loop D s =
     (case flush_keys D s of
        None \<Rightarrow> None
      | Some (Inl e, s) \<Rightarrow> Some (Inl e, s)
      | Some (Inr _, s) \<Rightarrow>
          (case process_events D s of
             (Inl e, s) \<Rightarrow> Some (Inl e, s)
           | (Inr work, s) \<Rightarrow> if work then flush_loop D s else Some (Inr (), s)))"

declare flush_loop.simps [code]

definition session_flush :: "('s, 'i) dc_env \<Rightarrow> bool \<Rightarrow> (unit, ('s, 'i) session) ot" where
  "session_flush D control_channel =
     (if control_channel then flush_loop D
      else bindO (lift (process_events D)) (\<lambda>work s. if work then flush_loop D s else Some (Inr (), s)))"

definition keepalive_send :: "('s, 'i) dc_env \<Rightarrow> (unit, ('s, 'i) session) st" where
  "keepalive_send D s =
     (if pc_now (se_pc s) \<ge> pc_keepalive_xmit (se_pc s) \<and> se_primary s \<noteq> None then
        bindS (on_slot Primary (send_keepalive D)) (\<lambda>_ s. (Inr (), on_sepc update_last_sent s)) s
      else (Inr (), s))"

definition keepalive_housekeeping :: "('s, 'i) dc_env \<Rightarrow> (unit, ('s, 'i) session) st" where
  "keepalive_housekeeping D =
     bindS (keepalive_send D) (\<lambda>_ s.
       (Inr (), if pc_now (se_pc s) \<ge> pc_keepalive_expire (se_pc s)
                then disconnect KEEPALIVE_TIMEOUT (session_error KEEPALIVE_TIMEOUT s) else s))"

definition housekeeping :: "('s, 'i) dc_env \<Rightarrow> (unit, ('s, 'i) session) ot" where
  "housekeeping D =
     bindO (lift (if_slotS Primary (upS (kc_retransmit D)))) (\<lambda>_.
     bindO (lift (if_slotS Secondary (upS (kc_retransmit D)))) (\<lambda>_.
     bindO (session_flush D False) (\<lambda>_. lift (keepalive_housekeeping D))))"

definition retransmit_time :: "slot \<Rightarrow> ('s, 'i) session \<Rightarrow> time_pt \<Rightarrow> time_pt" where
  "retransmit_time w s t =
     (case key_at w s of None \<Rightarrow> t | Some c \<Rightarrow> time_min t (kc_next_retransmit (kc_stack (lend (se_pc s) c))))"

definition next_housekeeping :: "('s, 'i) session \<Rightarrow> time_pt" where
  "next_housekeeping s =
     (if \<not> session_invalidated s then
        time_min (time_min (retransmit_time Secondary s (retransmit_time Primary s time_infinite))
          (pc_keepalive_xmit (se_pc s))) (pc_keepalive_expire (se_pc s))
      else time_zero)"

section \<open>Control packets and messages\<close>

definition control_send :: "buffer \<Rightarrow> (unit, ('s, 'i) session) st" where
  "control_send b s =
     (if se_primary s = None then (Inl (proto_error ''select_control_send_context: no primary key''), s)
      else on_slot Primary (upS (kc_app_send b)) s)"

text \<open>The packet's buffer is there.\<close>

definition renegotiate_request :: "('s, 'i) dc_env \<Rightarrow> buffer \<Rightarrow> (bool, ('s, 'i) session) st" where
  "renegotiate_request D b =
     bindS (on_session (validate b)) (\<lambda>ok s.
       if ok then ret True (new_secondary_key D False s) else ret False s)"

definition control_net_recv :: "('s, 'i) dc_env \<Rightarrow> packet_type \<Rightarrow> buffer \<Rightarrow> (bool, ('s, 'i) session) ot" where
  "control_net_recv D t b =
     bindO (lift (if pt_is_soft_reset t then renegotiate_request D b else ret True)) (\<lambda>ok s.
       if \<not> ok then Some (Inr False, s)
       else case select_key_context t True s of
         Inl e \<Rightarrow> Some (Inl e, s)
       | Inr w \<Rightarrow> on_slotO w (upO (kc_net_recv D (packet_of_buffer (pt_opcode t) b))) s)"

section \<open>Data packets\<close>

definition on_slot_pkt ::
    "slot \<Rightarrow> (unit, ('s, 'i) pkt) st \<Rightarrow> buffer \<Rightarrow> ('s, 'i) session \<Rightarrow> unit res \<times> buffer \<times> ('s, 'i) session" where
  "on_slot_pkt w m b s =
     (case key_at w s of
        None \<Rightarrow> (Inl undefined_behaviour, b, s)
      | Some c \<Rightarrow>
          (let (r, x) = m \<lparr>px_kc = lend (se_pc s) c, px_buf = b\<rparr> in (r, px_buf x, keep_key w (px_kc x) s)))"

definition data_encrypt :: "('s, 'i) dc_env \<Rightarrow> buffer \<Rightarrow> ('s, 'i) session \<Rightarrow> unit res \<times> buffer \<times> ('s, 'i) session" where
  "data_encrypt D b s =
     (if se_primary s = None then (Inl (proto_error ''data_encrypt: no primary key''), b, s)
      else on_slot_pkt Primary (kc_encrypt D) b s)"

definition data_decrypt ::
    "('s, 'i) dc_env \<Rightarrow> packet_type \<Rightarrow> buffer \<Rightarrow> ('s, 'i) session \<Rightarrow> bool res \<times> buffer \<times> ('s, 'i) session" where
  "data_decrypt D t b s =
     (case select_key_context t False s of
        Inl e \<Rightarrow> (Inl e, b, s)
      | Inr w \<Rightarrow>
          (case on_slot_pkt w (kc_decrypt D) b s of
             (Inl e, b, s) \<Rightarrow> (Inl e, b, s)
           | (Inr _, b, s) \<Rightarrow>
               let received = b_size b \<noteq> 0;
                   s = (if received then on_sepc last_received s else s) in
               (Inr received, (if is_keepalive b then buf_reset_size b else b), s)))"

definition session_data_limit_notify ::
    "u32 \<Rightarrow> dl_mode \<Rightarrow> dl_state \<Rightarrow> ('s, 'i) session \<Rightarrow> ('s, 'i) session" where
  "session_data_limit_notify kid mode status s =
     (if has_key_id kid (se_primary s) then if_slot Primary (kc_data_limit_notify mode status) s
      else if has_key_id kid (se_secondary s) then if_slot Secondary (kc_data_limit_notify mode status) s
      else s)"

definition session_init_data_channel :: "('s, 'i) dc_env \<Rightarrow> (unit, ('s, 'i) session) st" where
  "session_init_data_channel D s =
     bindS (if_slotS Primary (kc_init_data_channel D)) (\<lambda>_. if_slotS Secondary (kc_init_data_channel D))
       (on_sepc (\<lambda>pc. pc\<lparr>pc_dc_deferred := False\<rparr>) s)"

definition send_explicit_exit_notify :: "('s, 'i) dc_env \<Rightarrow> (unit, ('s, 'i) session) st" where
  "send_explicit_exit_notify D s =
     (if \<not> pc_server (se_pc s) \<and> proto_is_udp (pc_protocol (se_pc s)) \<and> se_primary s \<noteq> None
      then on_slot Primary (kc_send_explicit_exit_notify D) s else (Inr (), s))"

section \<open>Starting over\<close>

text \<open>
  What the constructor and \<open>reset\<close> take from the configuration: the static key, which contexts are
  configured with which digest sizes, the direction of the key, and the generator of session IDs.
\<close>

record tls_cfg =
  tg_tls_key :: buffer
  tg_auth :: "nat option"
  tg_crypt :: "nat option"
  tg_crypt_v2 :: bool
  tg_key_direction :: int
  tg_dc_deferred :: bool
  tg_prng_assert :: "unit res"
  tg_prng :: rng

definition tls_auth_enabled :: "tls_cfg \<Rightarrow> bool" where
  "tls_auth_enabled g \<longleftrightarrow> sk_defined (tg_tls_key g) \<and> tg_auth g \<noteq> None"

definition tls_crypt_enabled :: "tls_cfg \<Rightarrow> bool" where
  "tls_crypt_enabled g \<longleftrightarrow> sk_defined (tg_tls_key g) \<and> tg_crypt g \<noteq> None"

definition tls_crypt_v2_enabled :: "tls_cfg \<Rightarrow> bool" where
  "tls_crypt_v2_enabled g \<longleftrightarrow> tls_crypt_enabled g \<and> tg_crypt_v2 g"

definition wrap_of_config :: "tls_cfg \<Rightarrow> wrap_mode \<times> nat" where
  "wrap_of_config g =
     (if tls_crypt_v2_enabled g then (TLS_CRYPT_V2, the (tg_crypt g))
      else if tls_crypt_enabled g then (TLS_CRYPT, the (tg_crypt g))
      else if tls_auth_enabled g then (TLS_AUTH, the (tg_auth g))
      else (TLS_PLAIN, 0))"

definition proto_ctor :: "tls_cfg \<Rightarrow> proto \<Rightarrow> proto" where
  "proto_ctor g pc =
     pc\<lparr>pc_wrap_mode := fst (wrap_of_config g), pc_hmac_size := snd (wrap_of_config g), pc_n_key_ids := 0\<rparr>"

definition reset_all :: "('s, 'i) dc_env \<Rightarrow> ('s, 'i) session \<Rightarrow> ('s, 'i) session" where
  "reset_all D s = (if_slot Primary (kc_rekey D DEACTIVATE_ALL) s)\<lparr>se_primary := None, se_secondary := None\<rparr>"

text \<open>\<open>reset_tls_crypt\<close> as \<open>reset\<close> calls it; CtlChannel has it as a key context calls it.\<close>

definition reset_tls_crypt_proto :: "buffer \<Rightarrow> (unit, proto) st" where
  "reset_tls_crypt_proto key pc =
     (let dir = (if pc_server pc then SK_NORMAL else SK_INVERSE);
          pc = pc\<lparr>pc_tls_crypt_send := Some tc_uninit, pc_tls_crypt_recv := Some tc_uninit\<rparr> in
      bindR (tc_init_key pc key (SK_ENCRYPT OR dir) MODE_ENCRYPT) (\<lambda>c pc.
      let pc = pc\<lparr>pc_tls_crypt_send := Some c\<rparr> in
      bindR (tc_init_key pc key (SK_DECRYPT OR dir) MODE_DECRYPT) (\<lambda>d pc.
        ret () (pc\<lparr>pc_tls_crypt_recv := Some d\<rparr>)) pc) pc)"

definition reset_tls_crypt_server :: "buffer \<Rightarrow> (unit, proto) st" where
  "reset_tls_crypt_server key pc =
     (let pc = pc\<lparr>pc_tls_crypt_send := None, pc_tls_crypt_recv := None, pc_tls_crypt_server := Some tc_uninit\<rparr> in
      bindR (bindE (sk_slice key SK_HMAC) (\<lambda>kh. bindE (sk_slice key SK_CIPHER) (\<lambda>kc.
               tc_init (pc_hmac_new pc) (pc_hmac_size pc) (pc_cipher_new pc) kh kc MODE_DECRYPT)))
        (\<lambda>c pc. ret () (pc\<lparr>pc_tls_crypt_server := Some c\<rparr>)) pc)"

definition init_cc_pid :: "proto \<Rightarrow> proto" where
  "init_cc_pid pc =
     pc\<lparr>pc_ta_pid_send := pids_init LONG_FORM,
        pc_ta_pid_recv := pidr_init (cf_pid_mode (pc_cfg pc)) LONG_FORM ''SSL-CC'' 0\<rparr>"

definition ta_key_dir :: "int \<Rightarrow> u32" where
  "ta_key_dir d = (if d \<noteq> 0 then SK_INVERSE else SK_NORMAL)"

definition ta_slice :: "tls_cfg \<Rightarrow> u32 \<Rightarrow> u8 list res" where
  "ta_slice g sel =
     (if tg_key_direction g \<ge> 0 then sk_slice (tg_tls_key g) (SK_HMAC OR sel OR ta_key_dir (tg_key_direction g))
      else sk_slice (tg_tls_key g) SK_HMAC)"

definition ta_hmac_key :: "tls_cfg \<Rightarrow> u32 \<Rightarrow> proto \<Rightarrow> hmac_ctx res" where
  "ta_hmac_key g sel pc = bindE (ta_slice g sel) (ovpn_hmac_init (pc_hmac_new pc) (pc_hmac_size pc))"

definition reset_tls_auth :: "tls_cfg \<Rightarrow> (unit, proto) st" where
  "reset_tls_auth g pc =
     (let pc = pc\<lparr>pc_ta_hmac_send := tc_hmac tc_uninit, pc_ta_hmac_recv := tc_hmac tc_uninit\<rparr> in
      bindR (ta_hmac_key g SK_ENCRYPT pc) (\<lambda>h pc.
        bindR (ta_hmac_key g SK_DECRYPT pc) (\<lambda>h pc. ret () (pc\<lparr>pc_ta_hmac_recv := h\<rparr>))
          (pc\<lparr>pc_ta_hmac_send := h\<rparr>)) pc)"

definition reset_wrap :: "tls_cfg \<Rightarrow> (unit, proto) st" where
  "reset_wrap g pc =
     (case pc_wrap_mode pc of
        TLS_CRYPT \<Rightarrow> bindS (reset_tls_crypt_proto (tg_tls_key g)) (\<lambda>_ pc. ret () (init_cc_pid pc)) pc
      | TLS_CRYPT_V2 \<Rightarrow>
          bindS (if pc_server pc then reset_tls_crypt_server (tg_tls_key g)
                 else reset_tls_crypt_proto (tg_tls_key g)) (\<lambda>_ pc. ret () (init_cc_pid pc)) pc
      | TLS_AUTH \<Rightarrow> bindS (reset_tls_auth g) (\<lambda>_ pc. ret () (init_cc_pid pc)) pc
      | TLS_PLAIN \<Rightarrow> ret () pc)"

definition new_primary :: "('s, 'i) dc_env \<Rightarrow> ('s, 'i) session \<Rightarrow> ('s, 'i) session" where
  "new_primary D s = keep_key Primary (kc_new D (\<not> pc_server (se_pc s)) (se_pc s)) s"

definition randomize_psid :: "tls_cfg \<Rightarrow> (unit, ('s, 'i) session) st" where
  "randomize_psid g s =
     bindR (psid_randomize (\<lambda>_. tg_prng_assert g) (\<lambda>n j. (tg_prng g j n, j + 1)) (se_prng_calls s) (pc_psid_self (se_pc s)))
       (\<lambda>(p, j) s. ret () (on_sepc (\<lambda>pc. pc\<lparr>pc_psid_self := p, pc_psid_peer := psid_reset\<rparr>) (s\<lparr>se_prng_calls := j\<rparr>))) s"

definition session_reset :: "('s, 'i) dc_env \<Rightarrow> tls_cfg \<Rightarrow> (unit, ('s, 'i) session) st" where
  "session_reset D g s =
     bindS (on_session (reset_wrap g)) (\<lambda>_.
     bindS (randomize_psid g) (\<lambda>_ s.
       (Inr (), on_sepc (update_last_sent \<circ> (\<lambda>pc. pc\<lparr>pc_keepalive_expire := time_infinite\<rparr>)) (new_primary D s))))
     (on_sepc (\<lambda>pc. pc\<lparr>pc_upcoming_key_id := 0\<rparr>)
       (reset_all D (on_sepc (\<lambda>pc. pc\<lparr>pc_dc_deferred := tg_dc_deferred g\<rparr>) s)))"

section \<open>Validation before a session exists\<close>

text \<open>\<open>TLSAuthPreValidate\<close>.  The HMAC's output is as long as the configured digest.\<close>

record auth_pre =
  ap_reset_op :: u32
  ap_hmac :: hmac_ctx

definition expected_reset_op :: "bool \<Rightarrow> u32" where
  "expected_reset_op server = (if server then CONTROL_HARD_RESET_CLIENT_V2 else CONTROL_HARD_RESET_SERVER_V2)"

definition tls_auth_pre_ctor :: "tls_cfg \<Rightarrow> bool \<Rightarrow> proto \<Rightarrow> auth_pre res" where
  "tls_auth_pre_ctor g server pc =
     (if \<not> tls_auth_enabled g then Inl tls_auth_pre_validate
      else bindE (bindE (ta_slice g SK_DECRYPT) (ovpn_hmac_init (pc_hmac_new pc) (the (tg_auth g))))
        (\<lambda>h. Inr \<lparr>ap_reset_op = expected_reset_op server, ap_hmac = h\<rparr>))"

definition is_first_packet :: "u32 \<Rightarrow> buffer \<Rightarrow> bool" where
  "is_first_packet op b \<longleftrightarrow> b_size b \<noteq> 0
     \<and> opcode_extract (ucast (content b ! 0)) = op \<and> key_id_extract (ucast (content b ! 0)) = 0"

definition tls_auth_pre_valid :: "mem_place \<Rightarrow> auth_pre \<Rightarrow> buffer \<Rightarrow> bool" where
  "tls_auth_pre_valid mem v b \<longleftrightarrow> is_first_packet (ap_reset_op v) b
     \<and> ovpn_hmac_cmp mem (ap_hmac v) (content b) (1 + PSID_SIZE) (hm_size (ap_hmac v)) (pid_size LONG_FORM)"

text \<open>\<open>TLSCryptPreValidate\<close> and \<open>TLSCryptV2PreValidate\<close>; \<open>work\<close> is kept between packets.\<close>

record crypt_pre =
  cp_reset_op :: u32
  cp_recv :: crypt_ctx
  cp_work :: buffer

definition tls_crypt_pre_ctor :: "tls_cfg \<Rightarrow> bool \<Rightarrow> proto \<Rightarrow> crypt_pre res" where
  "tls_crypt_pre_ctor g server pc =
     (if \<not> tls_crypt_enabled g then Inl tls_crypt_pre_validate
      else bindE (tc_init_key pc (tg_tls_key g) (SK_DECRYPT OR (if server then SK_NORMAL else SK_INVERSE)) MODE_DECRYPT)
        (\<lambda>c. Inr \<lparr>cp_reset_op = expected_reset_op server, cp_recv = c, cp_work = alloc_default\<rparr>))"

definition tls_crypt_v2_pre_ctor :: "tls_cfg \<Rightarrow> bool \<Rightarrow> proto \<Rightarrow> crypt_pre res" where
  "tls_crypt_v2_pre_ctor g server pc =
     bindE (tls_crypt_pre_ctor g server pc) (\<lambda>v.
       if \<not> tls_crypt_v2_enabled g then Inl tls_crypt_v2_pre_validate
       else Inr (if server then v\<lparr>cp_reset_op := CONTROL_HARD_RESET_CLIENT_V3\<rparr> else v))"

definition crypt_pre_open :: "crypt_ctx \<Rightarrow> buffer \<Rightarrow> buffer \<Rightarrow> buffer option res" where
  "crypt_pre_open c b w =
     (let data_offset = hmac_offset + hm_size (tc_hmac c) in
      bindE (mem_read (b_off b + hmac_offset) (tc_iv_len c) b) (\<lambda>iv.
      bindE (tc_decrypt c iv (drop data_offset (content b))) (\<lambda>out.
        if out = [] then Inr None
        else bindE (mem_write (b_off w) out w) (\<lambda>w.
          bindE (buf_inc_size (length out) w) (\<lambda>w. Inr (Some w))))))"

definition crypt_pre_body :: "proto \<Rightarrow> crypt_pre \<Rightarrow> buffer \<Rightarrow> bool res \<times> crypt_pre" where
  "crypt_pre_body pc v b =
     (let c = cp_recv v in
      bindR (frame_prepare DECRYPT_WORK (pc_base pc) (cp_work v) (pc_frame pc)) (\<lambda>(_, w) v.
        bindR (crypt_pre_open c b w) (\<lambda>opened v.
          case opened of
            None \<Rightarrow> ret False v
          | Some w \<Rightarrow>
              ret (tc_hmac_cmp (pc_mem pc) c (take hmac_offset (content b))
                     (slice hmac_offset (hm_size (tc_hmac c)) (content b)) (content w)) (v\<lparr>cp_work := w\<rparr>))
          (v\<lparr>cp_work := w\<rparr>)) v)"

definition tls_crypt_pre_valid :: "proto \<Rightarrow> crypt_pre \<Rightarrow> buffer \<Rightarrow> bool res \<times> crypt_pre" where
  "tls_crypt_pre_valid pc v b =
     (if \<not> is_first_packet (cp_reset_op v) b \<or> b_size b < hmac_offset + hm_size (tc_hmac (cp_recv v)) then ret False v
      else case crypt_pre_body pc v b of (Inl (Buffer_exception _), v) \<Rightarrow> ret False v | (r, v) \<Rightarrow> (r, v))"

end
