(* ===== verification/KeyInv.thy ===== *)
theory KeyInv
  imports Session StackInv
begin

text \<open>
  What every method of a key context keeps: its role, its key ID, the order of its states, and the
  objects of its data channel.
\<close>

section \<open>Steps\<close>

lemma keeps_bindR: "(\<And>a. keeps Q (f a)) \<Longrightarrow> keeps Q (bindR m f)"
  by (cases m) (auto simp: keeps_def)

lemma keeps_ret: "keeps Q (ret a)"
  by (simp add: keeps_def)

lemma keeps_fail: "keeps Q (\<lambda>s. (Inl e, s))"
  by (simp add: keeps_def)

lemma keeps_if: "(b \<Longrightarrow> keeps Q m) \<Longrightarrow> (\<not> b \<Longrightarrow> keeps Q n) \<Longrightarrow> keeps Q (if b then m else n)"
  by simp

lemma keeps_split: "(\<And>a b. keeps Q (f a b)) \<Longrightarrow> keeps Q (case x of (a, b) \<Rightarrow> f a b)"
  by (cases x) simp

lemma keeps_option: "keeps Q n \<Longrightarrow> (\<And>a. keeps Q (f a)) \<Longrightarrow> keeps Q (case x of None \<Rightarrow> n | Some a \<Rightarrow> f a)"
  by (cases x) simp_all

lemma keeps_lam: "(\<And>k0. keeps Q (m k0)) \<Longrightarrow> keeps Q (\<lambda>k. m k k)"
  by (auto simp: keeps_def)

lemma keeps_upd: "(\<And>s. Q s \<Longrightarrow> Q (f s)) \<Longrightarrow> keeps Q (\<lambda>s. (r, f s))"
  by (auto simp: keeps_def)

lemmas keeps_rules = keeps_then keeps_bindR keeps_ret keeps_fail keeps_if keeps_split keeps_option

lemma keepsO_bind: "keepsO Q m \<Longrightarrow> (\<And>a. keepsO Q (f a)) \<Longrightarrow> keepsO Q (bindO m f)"
proof -
  assume m: "keepsO Q m" and f: "\<And>a. keepsO Q (f a)"
  show "keepsO Q (bindO m f)"
    unfolding keepsO_def
  proof (intro allI impI)
    fix s r s' assume s: "Q s" and b: "bindO m f s = Some (r, s')"
    then obtain x s1 where x: "m s = Some (x, s1)" by (auto simp: bindO_def split: option.splits)
    then have "Q s1" using keepsOD [OF m] s by blast
    then show "Q s'" using b x keepsOD [OF f] by (cases x) (auto simp: bindO_def)
  qed
qed

lemma keepsO_lift: "keeps Q m \<Longrightarrow> keepsO Q (lift m)"
  by (auto simp: keeps_def keepsO_def lift_def)

lemma keepsO_if: "(b \<Longrightarrow> keepsO Q m) \<Longrightarrow> (\<not> b \<Longrightarrow> keepsO Q n) \<Longrightarrow> keepsO Q (if b then m else n)"
  by simp

lemma keepsO_upd: "(\<And>s. Q s \<Longrightarrow> Q (f s)) \<Longrightarrow> keepsO Q (\<lambda>s. Some (r, f s))"
  by (auto simp: keepsO_def)

section \<open>The packets leave the key alone\<close>

definition kx_view :: "proto \<Rightarrow> key_ctx \<Rightarrow> u32 \<times> int \<times> bool \<times> u32" where
  "kx_view pc x = (kx_key_id x, kx_state x, pc_server pc, pc_upcoming_key_id pc)"

definition same_c :: "u32 \<times> int \<times> bool \<times> u32 \<Rightarrow> cst \<Rightarrow> bool" where
  "same_c v s \<longleftrightarrow> kx_view (c_pc s) (c_kx s) = v"

definition same_k :: "u32 \<times> int \<times> bool \<times> u32 \<Rightarrow> 's kst \<Rightarrow> bool" where
  "same_k v k \<longleftrightarrow> kx_view (pc_of k) (kx_of k) = v"

lemma same_on_buf: "keeps (same_c v) (on_buf f)"
  by (auto simp: keeps_def on_buf_def same_c_def split: sum.splits)

lemma same_on_work: "keeps (same_c v) (on_work f)"
  by (auto simp: keeps_def on_work_def same_c_def kx_view_def split: sum.splits)

lemma same_pid_next: "keeps (same_c v) pid_next_buf" "keeps (same_c v) pid_next_work"
  by (auto simp: keeps_def pid_next_buf_def pid_next_work_def on_buf_def on_work_def same_c_def kx_view_def
      split_beta Let_def split: sum.splits)

lemma same_dest_psid: "keeps (same_c v) prepend_dest_psid"
  by (auto simp: keeps_def prepend_dest_psid_def same_c_def kx_view_def pc_error_def on_buf_def split: if_splits sum.splits)

lemma same_prepend_acks: "keeps (same_c v) prepend_acks"
  by (auto simp: keeps_def prepend_acks_def same_c_def split: sum.splits)

lemma same_finish: "keeps (same_c v) (tls_crypt_finish opcode)"
proof -
  have swap: "keeps (same_c v) (\<lambda>s. (Inr (), s\<lparr>c_buf := kx_work (c_kx s), c_kx := (c_kx s)\<lparr>kx_work := c_buf s\<rparr>\<rparr>))"
    by (auto simp: keeps_def same_c_def kx_view_def)
  have wkc: "keeps (same_c v) (\<lambda>s. if opcode = CONTROL_HARD_RESET_CLIENT_V3 \<and> pc_wrap_mode (c_pc s) = TLS_CRYPT_V2
              then on_work tls_crypt_append_wkc s else (Inr (), s))"
    by (rule keepsI) (simp add: keeps_snd [OF same_on_work])
  have app: "keeps (same_c v) (tls_crypt_append opcode out)" for out
    unfolding tls_crypt_append_def by (intro keeps_then same_on_work swap wkc)
  show ?thesis
  proof (rule keepsI)
    fix s assume s: "same_c v s"
    show "same_c v (snd (tls_crypt_finish opcode s))"
      using s keeps_snd [OF app s]
      by (cases "tls_crypt_cipher_text s") (auto simp: tls_crypt_finish_def same_c_def)
  qed
qed

lemma same_gen_head: "keeps (same_c v) (gen_head opcode)"
proof -
  have head: "keeps (same_c v) (gen_head_tls_auth opcode)" "keeps (same_c v) (gen_head_tls_crypt opcode)"
    "keeps (same_c v) (gen_head_tls_plain opcode)"
    unfolding gen_head_tls_auth_def gen_head_tls_crypt_def gen_head_tls_plain_def
    by (intro keeps_then same_on_buf same_on_work same_pid_next same_finish)+
  show ?thesis
    by (rule keepsI) (simp add: gen_head_def keeps_snd [OF head(1)] keeps_snd [OF head(2)] keeps_snd [OF head(3)]
        split: wrap_mode.splits)
qed

lemma same_encapsulate: "keeps (same_c v) (cc_encapsulate_buf i opcode)" "keeps (same_c v) cc_generate_ack_buf"
  unfolding cc_encapsulate_buf_def cc_generate_ack_buf_def prepend_dest_psid_and_acks_def
  by (intro keeps_then same_on_buf same_dest_psid same_prepend_acks same_gen_head)+

lemma same_on_packet:
  assumes "\<And>v. keeps (same_c v) f"
  shows "kx_view (u_pc (snd (snd (snd (on_packet f p (a, u)))))) (u_kx (snd (snd (snd (on_packet f p (a, u))))))
    = kx_view (u_pc u) (u_kx u)"
proof (cases "pk_buf p")
  case (Some b)
  obtain r s where r: "f \<lparr>c_buf = b, c_acks = a, c_pc = u_pc u, c_kx = u_kx u\<rparr> = (r, s)" by fastforce
  then have "same_c (kx_view (u_pc u) (u_kx u)) s" using keepsD [OF assms] by (fastforce simp: same_c_def)
  then show ?thesis using Some r by (simp add: on_packet_def same_c_def)
qed (simp add: on_packet_def)

lemma same_on_pc: "same_k v k \<Longrightarrow> (pc_server (f (pc_of k)) = pc_server (pc_of k)) \<Longrightarrow>
    pc_upcoming_key_id (f (pc_of k)) = pc_upcoming_key_id (pc_of k) \<Longrightarrow> same_k v (on_pc f k)"
  by (simp add: same_k_def kx_view_def)

lemma same_invalidate [simp]: "same_k v (kc_invalidate e k) = same_k v k"
  by (simp add: same_k_def kx_view_def kc_invalidate_def kc_invalidate_callback_def)

lemma same_reject [simp]: "same_k v (kc_reject e k) = same_k v k"
  by (simp add: kc_reject_def Let_def same_k_def kx_view_def pc_error_def kc_invalidate_def kc_invalidate_callback_def)

lemma same_error [simp]: "same_k v (on_pc (pc_error e) k) = same_k v k"
  by (simp add: same_k_def kx_view_def pc_error_def)

lemma same_received [simp]: "same_k v (update_last_received k) = same_k v k"
  by (simp add: same_k_def kx_view_def update_last_received_def)

lemma same_push [simp]: "same_k v (push_ack i k) = same_k v k"
  by (simp add: same_k_def push_ack_def)

lemma same_work [simp]: "same_k v (set_work w k) = same_k v k"
  by (simp add: same_k_def kx_view_def set_work_def)

lemma same_verify_src: "keeps (same_k v) (verify_src_psid src)"
  by (auto simp: keeps_def verify_src_psid_def intro!: same_on_pc split: if_splits)

lemma same_verify_dest: "keeps (same_k v) (verify_dest_psid b)"
  unfolding verify_dest_psid_def by (intro keeps_bindR keeps_split) (auto simp: keeps_def split: if_splits)

lemma same_test_add: "keeps (same_k v) (ta_test_add pid t md)"
  by (auto simp: keeps_def ta_test_add_def pc_error_def intro!: same_on_pc split: sum.splits option.splits)

lemma same_process_acks: "keeps (same_k v) (process_acks live b)"
  by (auto simp: keeps_def process_acks_def same_k_def split: prod.splits)

lemma same_rel_receive: "keeps (same_k v) (rel_receive p i)"
  by (auto simp: keeps_def rel_receive_def Let_def same_k_def push_ack_def split: sum.splits if_splits)

lemmas same_rules = keeps_rules same_verify_src same_verify_dest same_test_add same_process_acks same_rel_receive

lemma same_acks_dest: "keeps (same_k v) (acks_and_dest_psid live b)"
  unfolding acks_and_dest_psid_def by (intro same_rules)

lemma same_post_control: "keeps (same_k v) (post_process_control opcode b pid t ok)"
  unfolding post_process_control_def
  by (intro same_rules) (auto simp: keeps_def Let_def split: if_splits)

lemma same_post_ack: "keeps (same_k v) (post_process_ack pid t ok)"
  unfolding post_process_ack_def by (intro same_rules) (auto simp: keeps_def)

lemma same_post_process: "keeps (same_k v) (decapsulate_post_process opcode b src pid)"
proof -
  have rest: "keeps (same_k v) (\<lambda>k. if \<not> ok then ret False k
      else let t = pc_seconds (pc_of k) in bindS (ta_test_add pid t False) (\<lambda>pid_ok.
        bindS (acks_and_dest_psid pid_ok b) (\<lambda>(ok, b). if \<not> ok then ret False
          else if opcode \<noteq> ACK_V1 then post_process_control opcode b pid t pid_ok
          else post_process_ack pid t pid_ok)) k)" for ok
  proof (rule keepsI)
    fix k :: "'s kst" assume k: "same_k v k"
    have "keeps (same_k v) (bindS (ta_test_add pid t False) (\<lambda>pid_ok.
        bindS (acks_and_dest_psid pid_ok b) (\<lambda>(ok, b). if \<not> ok then ret False
          else if opcode \<noteq> ACK_V1 then post_process_control opcode b pid t pid_ok
          else post_process_ack pid t pid_ok)))" for t
      by (intro same_rules same_acks_dest same_post_control same_post_ack)
    from keeps_snd [OF this k] show "same_k v (snd (if \<not> ok then ret False k
      else let t = pc_seconds (pc_of k) in bindS (ta_test_add pid t False) (\<lambda>pid_ok.
        bindS (acks_and_dest_psid pid_ok b) (\<lambda>(ok, b). if \<not> ok then ret False
          else if opcode \<noteq> ACK_V1 then post_process_control opcode b pid t pid_ok
          else post_process_ack pid t pid_ok)) k))" using k by (simp add: Let_def)
  qed
  have "same_k v (snd (decapsulate_post_process opcode b src pid k))" if k: "same_k v k" for k :: "'s kst"
    unfolding decapsulate_post_process_def Let_def [of "update_last_received k"]
    by (rule keeps_snd [OF keeps_then [OF same_verify_src rest]]) (simp add: k)
  then show ?thesis by (rule keepsI)
qed

lemma same_wkc_accept: "keeps (same_k v) (wkc_accept recv p)"
proof -
  have reset: "keeps (same_k v) (reset_tls_crypt key)" for key
    by (auto simp: keeps_def reset_tls_crypt_def bindR_def Let_def same_k_def kx_view_def split: sum.splits)
  have fin: "keeps (same_k v) (\<lambda>k. if \<not> pc_metadata_verify (pc_of k) t p
      then ret None (on_pc (pc_error (Inl Err_TLS_CRYPT_META_FAIL)) k)
      else bindR (buf_set_size (tls_frame_size (pc_of k)) recv) (\<lambda>recv. ret (Some recv)) k)" for t p
    by (auto simp: keeps_def bindR_def split: if_splits sum.splits)
  show ?thesis
    unfolding wkc_accept_def Let_def by (intro keeps_bindR keeps_split keeps_then reset fin)
qed

lemma same_unwrap: "keeps (same_k v) (unwrap_tls_crypt_wkc recv)"
proof (rule keepsI)
  fix k :: "'s kst" assume k: "same_k v k"
  have acc: "same_k v (snd (wkc_accept recv p k))" for p using keeps_snd [OF same_wkc_accept k] .
  show "same_k v (snd (unwrap_tls_crypt_wkc recv k))"
    using k by (auto simp: unwrap_tls_crypt_wkc_def Let_def bindR_def acc split: sum.splits option.splits)
qed

lemma same_decapsulate: "keeps (same_k v) (cc_decapsulate p)"
proof -
  have post: "same_k v (snd (decapsulate_post_process opcode b src pid k))" if "same_k v k"
    for opcode b src pid and k :: "'s kst" using keeps_snd [OF same_post_process that] .
  have auth: "keeps (same_k v) (decapsulate_tls_auth opcode b)" for opcode b
    by (rule keepsI) (auto simp: decapsulate_tls_auth_def Let_def bindR_def post split: sum.splits prod.splits)
  have crypt: "keeps (same_k v) (decapsulate_tls_crypt opcode b)" for opcode b
    by (rule keepsI) (auto simp: decapsulate_tls_crypt_def Let_def bindR_def post split: sum.splits prod.splits option.splits)
  have plain: "keeps (same_k v) (decapsulate_tls_plain opcode b)" for opcode b
  proof (rule keepsI)
    fix k :: "'s kst" assume k: "same_k v k"
    have "keeps (same_k v) (bindR (buf_advance 1 b) (\<lambda>b. bindR (psid_of_buffer b) (\<lambda>(src, b).
        bindS (verify_src_psid src) (\<lambda>ok. if \<not> ok then ret False
          else bindS (acks_and_dest_psid True b) (\<lambda>(ok, b). if \<not> ok then ret False
            else if opcode \<noteq> ACK_V1 then bindR (ra_read_id b) (\<lambda>(i, b).
                bindS (rel_receive (packet_of_buffer opcode b) i) (\<lambda>rflags. ret (rflags AND IN_WINDOW \<noteq> 0)))
              else ret False)))))"
      by (intro same_rules same_acks_dest)
    then show "same_k v (snd (decapsulate_tls_plain opcode b k))"
      unfolding decapsulate_tls_plain_def by (rule keeps_snd) (simp add: k)
  qed
  have v2: "keeps (same_k v) (bindS (unwrap_tls_crypt_wkc b) (\<lambda>r.
      case r of None \<Rightarrow> ret False | Some b \<Rightarrow> decapsulate_tls_crypt opcode b))" for opcode b
    by (intro same_rules same_unwrap crypt)
  show ?thesis
  proof (rule keepsI)
    fix k :: "'s kst" assume k: "same_k v k"
    have d: "same_k v k'" if "decapsulate_dispatch p b k = (r, k')" for b r k'
      using that keepsD [OF auth _ k] keepsD [OF crypt _ k] keepsD [OF plain _ k] keepsD [OF v2 _ k]
      by (auto simp: decapsulate_dispatch_def split: wrap_mode.splits if_splits)
    show "same_k v (snd (cc_decapsulate p k))"
      using k by (auto simp: cc_decapsulate_def dest: d split: option.splits prod.splits sum.splits exn.splits)
  qed
qed

section \<open>The order of the states\<close>

text \<open>The place of a state in the handshake of a client or a server, 0 for a state of the other role.\<close>

definition stage :: "bool \<Rightarrow> int \<Rightarrow> nat" where
  "stage server st =
     (if st = (if server then S_INITIAL else C_INITIAL) then 1
      else if st = (if server then S_WAIT_RESET else C_WAIT_RESET) then 2
      else if st = (if server then S_WAIT_RESET_ACK else C_WAIT_RESET_ACK) then 3
      else if st = (if server then S_WAIT_AUTH else C_WAIT_AUTH) then 4
      else if st = (if server then S_WAIT_AUTH_ACK else C_WAIT_AUTH_ACK) then 5
      else if st = ACTIVE then 6 else 0)"

lemmas state_defs = C_WAIT_RESET_ACK_def C_WAIT_AUTH_ACK_def S_WAIT_RESET_ACK_def S_WAIT_AUTH_ACK_def
  LAST_ACK_STATE_def C_INITIAL_def C_WAIT_RESET_def C_WAIT_AUTH_def S_INITIAL_def S_WAIT_RESET_def
  S_WAIT_AUTH_def ACTIVE_def

text \<open>
  A key of the role, with the ID, at least as far as \<open>n\<close>, active only if \<open>ac\<close>; the session's next ID
  with it.
\<close>

definition at_stage :: "bool \<Rightarrow> u32 \<Rightarrow> u32 \<Rightarrow> nat \<Rightarrow> bool \<Rightarrow> user \<Rightarrow> bool" where
  "at_stage server kid next_id n ac u \<longleftrightarrow> kx_key_id (u_kx u) = kid \<and> pc_server (u_pc u) = server
     \<and> pc_upcoming_key_id (u_pc u) = next_id \<and> 0 < stage server (kx_state (u_kx u)) \<and> n \<le> stage server (kx_state (u_kx u))
     \<and> (kx_state (u_kx u) = ACTIVE \<longrightarrow> ac)"

lemma at_stage_view:
  "kx_view (u_pc u') (u_kx u') = kx_view (u_pc u) (u_kx u) \<Longrightarrow> at_stage srv kid nx n ac u' = at_stage srv kid nx n ac u"
  by (simp add: at_stage_def kx_view_def)

abbreviation staged :: "bool \<Rightarrow> u32 \<Rightarrow> u32 \<Rightarrow> nat \<Rightarrow> bool \<Rightarrow> 's kst \<Rightarrow> bool" where
  "staged srv kid nx n ac k \<equiv> at_stage srv kid nx n ac (k_user k)"

lemma staged_same:
  fixes m :: "('a, 's kst) st"
  assumes "\<And>v. keeps (same_k v) m"
  shows "keeps (staged srv kid nx n ac) m"
proof (rule keepsI)
  fix k :: "'s kst" assume k: "staged srv kid nx n ac k"
  have "same_k (kx_view (pc_of k) (kx_of k)) (snd (m k))" by (rule keeps_snd [OF assms]) (simp add: same_k_def)
  then show "staged srv kid nx n ac (snd (m k))" by (intro at_stage_view [THEN iffD2, OF _ k]) (simp add: same_k_def)
qed

lemma same_bindS_upd: "keeps (same_k v) m \<Longrightarrow> (\<And>k. same_k v (f k) = same_k v k) \<Longrightarrow> keeps (same_k v) (bindS m (\<lambda>_ k. (r, f k)))"
  by (intro keeps_then keeps_upd) simp_all

lemma same_send_reset: "keeps (same_k v) send_reset"
  by (rule keepsI)
    (auto simp: send_reset_def bindR_def Let_def same_k_def ks_raw_send_def split: sum.splits)

lemma same_app_send: "keeps (same_k v) (app_send_validate b)"
  by (rule keepsI) (auto simp: app_send_validate_def same_k_def ks_app_send_def)

lemma same_dirty [simp]: "same_k v (set_dirty d k) = same_k v k"
  by (simp add: same_k_def kx_view_def set_dirty_def)

lemma same_send_auth: "keeps (same_k v) send_auth"
proof (rule keepsI)
  fix k :: "'s kst" assume k: "same_k v k"
  have fin: "same_k v (snd (bindR r (\<lambda>b. bindS (app_send_validate b) (\<lambda>_ k. ret () (set_dirty True k))) k))"
    if "same_k v k" for r :: "buffer res" and k :: "'s kst"
    using that by (intro keeps_snd [of "same_k v"] keeps_bindR keeps_then same_app_send) (auto simp: keeps_def)
  obtain t n where tn: "tp_randomize (pc_rng (pc_of k)) (pc_rng_calls (pc_of k)) (kx_prf_self (kx_of k)) = (t, n)"
    by fastforce
  have k1: "same_k v (on_kx (\<lambda>x. x\<lparr>kx_prf_self := t\<rparr>) (on_pc (\<lambda>pc. pc\<lparr>pc_rng_calls := n\<rparr>) k))"
    using k by (simp add: same_k_def kx_view_def)
  show "same_k v (snd (send_auth k))"
    using k fin [OF k1] tn
    by (cases "bindE (frame_prepare WRITE_SSL_CLEARTEXT (pc_base (pc_of k)) alloc_default (pc_frame (pc_of k)))
              (\<lambda>(_, b). buf_write auth_prefix b)") (simp_all add: send_auth_def Let_def)
qed

lemma same_recv_auth: "keeps (same_k v) (recv_auth b)"
proof (rule keepsI)
  fix k :: "'s kst" assume k: "same_k v k"
  have peer: "same_k v (on_kx (\<lambda>x. x\<lparr>kx_prf_peer := t\<rparr>) k)" for t
    using k by (simp add: same_k_def kx_view_def)
  have server: "same_k v (snd (server_auth a b c k))" if "same_k v k" for a b c and k :: "'s kst"
    using that by (simp add: server_auth_def same_k_def kx_view_def)
  show "same_k v (snd (recv_auth b k))"
    using k peer by (auto simp: recv_auth_def bindR_def server split: sum.splits prod.splits)
qed

lemma same_take_message: "keeps (same_k v) take_message"
  by (rule keepsI) (auto simp: take_message_def bindR_def same_k_def kx_view_def split: sum.splits prod.splits)

text \<open>A step to the next state.\<close>

lemma keeps_advance:
  assumes m: "\<And>v. keeps (same_k v) m" and up: "stage srv st' \<ge> stage srv st" "0 < stage srv st'" "st' \<noteq> ACTIVE"
    and k: "staged srv kid nx n ac k" "kx_state (kx_of k) = st"
  shows "staged srv kid nx n ac (snd (bindS m (\<lambda>_ k. ret a (set_state st' k)) k))"
proof -
  obtain r k' where r: "m k = (r, k')" by fastforce
  have "kx_view (pc_of k') (kx_of k') = kx_view (pc_of k) (kx_of k)"
    using keepsD [OF m r, of "kx_view (pc_of k) (kx_of k)"] by (simp add: same_k_def)
  then have "staged srv kid nx n ac k'" "kx_key_id (kx_of k') = kid" "pc_server (pc_of k') = srv"
    "pc_upcoming_key_id (pc_of k') = nx" using k by (auto simp: at_stage_def kx_view_def)
  then show ?thesis
    using r k up by (cases r) (auto simp: bindS_def at_stage_def set_state_def)
qed

lemma stage_step:
  "stage srv st > 0 \<Longrightarrow> st = S_WAIT_RESET \<Longrightarrow> srv" "stage srv st > 0 \<Longrightarrow> st = S_WAIT_AUTH \<Longrightarrow> srv"
  "stage srv st > 0 \<Longrightarrow> st = C_WAIT_RESET \<Longrightarrow> \<not> srv" "stage srv st > 0 \<Longrightarrow> st = C_WAIT_AUTH \<Longrightarrow> \<not> srv"
  "stage srv st > 0 \<Longrightarrow> st = C_WAIT_RESET_ACK \<Longrightarrow> \<not> srv" "stage srv st > 0 \<Longrightarrow> st = S_WAIT_RESET_ACK \<Longrightarrow> srv"
  by (auto simp: stage_def state_defs split: if_splits)

lemma stage_values:
  "stage True S_INITIAL = 1" "stage True S_WAIT_RESET = 2" "stage True S_WAIT_RESET_ACK = 3" "stage True S_WAIT_AUTH = 4"
  "stage True S_WAIT_AUTH_ACK = 5" "stage False C_INITIAL = 1" "stage False C_WAIT_RESET = 2"
  "stage False C_WAIT_RESET_ACK = 3" "stage False C_WAIT_AUTH = 4" "stage False C_WAIT_AUTH_ACK = 5" "stage srv ACTIVE = 6"
  by (simp_all add: stage_def state_defs)

lemma state_distinct:
  "S_WAIT_AUTH_ACK \<noteq> S_WAIT_AUTH" "S_WAIT_AUTH_ACK \<noteq> C_WAIT_AUTH" "S_WAIT_AUTH \<noteq> C_WAIT_AUTH"
  "S_WAIT_AUTH \<noteq> ACTIVE" "C_WAIT_AUTH \<noteq> ACTIVE" "C_WAIT_RESET_ACK \<noteq> ACTIVE" "S_WAIT_RESET_ACK \<noteq> ACTIVE"
  "C_WAIT_AUTH_ACK \<noteq> ACTIVE" "S_WAIT_AUTH_ACK \<noteq> ACTIVE"
  by (simp_all add: state_defs)

lemma keeps_set_state:
  "staged srv kid nx n ac k \<Longrightarrow> stage srv st' \<ge> stage srv (kx_state (kx_of k)) \<Longrightarrow> 0 < stage srv st' \<Longrightarrow>
   (st' = ACTIVE \<Longrightarrow> ac) \<Longrightarrow>
   staged srv kid nx n ac (set_state st' k)"
  by (auto simp: at_stage_def set_state_def)

lemma raw_recv_advances:
  assumes k: "staged srv kid nx n ac k"
  shows "staged srv kid nx n ac (snd (raw_recv p k))"
proof -
  have pos: "stage srv (kx_state (kx_of k)) > 0" using k by (simp add: at_stage_def)
  have client: "staged srv kid nx n ac (set_state C_WAIT_RESET_ACK k)" if "kx_state (kx_of k) = C_WAIT_RESET"
    using stage_step(3) [OF pos that] by (intro keeps_set_state k) (simp_all add: that stage_values state_distinct)
  have server: "staged srv kid nx n ac (snd (bindS send_reset (\<lambda>_ k. ret () (set_state S_WAIT_RESET_ACK k)) k))"
    if "kx_state (kx_of k) = S_WAIT_RESET"
    using stage_step(1) [OF pos that]
    by (intro keeps_advance [OF same_send_reset _ _ _ k that]) (simp_all add: stage_values state_distinct)
  show ?thesis
    using k client server by (auto simp: raw_recv_def split: option.splits)
qed

lemma app_recv_advances:
  assumes k: "staged srv kid nx n ac k"
  shows "staged srv kid nx n ac (snd (app_recv b k))"
proof -
  let ?k = "on_kx (\<lambda>x. x\<lparr>kx_app_recv_buf := bc_put b (kx_app_recv_buf x)\<rparr>) k"
  have k1: "staged srv kid nx n ac ?k" using k by (simp add: at_stage_def)
  then have pos: "stage srv (kx_state (kx_of ?k)) > 0" by (simp add: at_stage_def)
  have auth: "keeps (same_k v) (bindS take_message recv_auth)" for v :: "u32 \<times> int \<times> bool \<times> u32"
    by (intro keeps_then same_take_message same_recv_auth)
  have answer: "keeps (same_k v) (bindS (bindS take_message recv_auth) (\<lambda>_. send_auth))" for v
    by (intro keeps_then same_take_message same_recv_auth same_send_auth)
  have assoc: "bindS (bindS m f) g = bindS m (\<lambda>a. bindS (f a) g)"
    for m :: "(buffer, 's kst) st" and f :: "buffer \<Rightarrow> (unit, 's kst) st" and g :: "unit \<Rightarrow> (unit, 's kst) st"
    by (rule ext) (simp add: bindS_def split: prod.splits sum.splits)
  have assoc2: "bindS (bindS m f) g = bindS m (\<lambda>a. bindS (f a) g)"
    for m :: "(unit, 's kst) st" and f g :: "unit \<Rightarrow> (unit, 's kst) st"
    by (rule ext) (simp add: bindS_def split: prod.splits sum.splits)
  have client: "staged srv kid nx n ac (snd (bindS take_message (\<lambda>m. bindS (recv_auth m) (\<lambda>_ k.
      ret () (set_state C_WAIT_AUTH_ACK k))) ?k))" if "kx_state (kx_of ?k) = C_WAIT_AUTH"
    using keeps_advance [OF auth _ _ _ k1 that, of C_WAIT_AUTH_ACK "()"] stage_step(4) [OF pos that]
    by (simp add: stage_values state_distinct assoc)
  have server: "staged srv kid nx n ac (snd (bindS take_message (\<lambda>m. bindS (recv_auth m) (\<lambda>_. bindS send_auth (\<lambda>_ k.
      ret () (set_state S_WAIT_AUTH_ACK k)))) ?k))" if "kx_state (kx_of ?k) = S_WAIT_AUTH"
    using keeps_advance [OF answer _ _ _ k1 that, of S_WAIT_AUTH_ACK "()"] stage_step(2) [OF pos that]
    by (simp add: stage_values state_distinct assoc assoc2)
  have msg: "staged srv kid nx n ac (snd (bindS take_message (\<lambda>m k.
      ret () (on_pc (\<lambda>pc. pc\<lparr>pc_control_recv := pc_control_recv pc @ [m]\<rparr>) k)) ?k))"
    by (intro keeps_snd [OF keeps_then, OF staged_same [OF same_take_message]] k1)
      (auto simp: keeps_def at_stage_def)
  show ?thesis
    using k1 client server msg state_distinct by (simp add: app_recv_def Let_def)
qed

interpretation stages: user_contract "kctx_env base E" "at_stage srv kid nx n ac"
proof
  fix u :: user and p a i t
  show "at_stage srv kid nx n ac u \<Longrightarrow> at_stage srv kid nx n ac (snd (d_net_send (kctx_env base E) p t u))"
    by (auto simp: kctx_env_def kc_env_def kc_net_send_def at_stage_def split: option.splits)
  show "at_stage srv kid nx n ac u \<Longrightarrow> at_stage srv kid nx n ac (snd (snd (snd (d_encapsulate (kctx_env base E) i p (a, u)))))"
    by (rule at_stage_view [THEN iffD2])
      (simp_all add: kctx_env_def kc_env_def cc_encapsulate_def same_on_packet [OF same_encapsulate(1)])
  show "at_stage srv kid nx n ac u \<Longrightarrow> at_stage srv kid nx n ac (snd (snd (snd (d_generate_ack (kctx_env base E) p (a, u)))))"
    by (rule at_stage_view [THEN iffD2])
      (simp_all add: kctx_env_def kc_env_def cc_generate_ack_def same_on_packet [OF same_encapsulate(2)])
next
  fix k :: "'a kst" and p b
  assume k: "staged srv kid nx n ac k"
  show "staged srv kid nx n ac (snd (d_decapsulate (kctx_env base E) p k))"
    using keeps_snd [OF staged_same [OF same_decapsulate] k] by (simp add: kctx_env_def kc_env_def)
  show "staged srv kid nx n ac (snd (d_app_recv (kctx_env base E) b k))"
    using app_recv_advances [OF k] by (simp add: kctx_env_def)
  show "staged srv kid nx n ac (snd (d_raw_recv (kctx_env base E) p k))"
    using raw_recv_advances [OF k] by (simp add: kctx_env_def)
  show "staged srv kid nx n ac (d_invalidate_callback (kctx_env base E) k)"
    using k by (simp add: kctx_env_def kc_env_def kc_invalidate_callback_def at_stage_def)
qed

section \<open>The key context\<close>

text \<open>
  The invariant: role, ID and progress of the key; a data channel that may be used has its object; an
  active key has the object or the means to make it; with \<open>pr\<close> any key has.
\<close>

definition channel_ok :: "bool \<Rightarrow> 'i option \<Rightarrow> u32 \<Rightarrow> dc_key option \<Rightarrow> bool" where
  "channel_ok active i flags d \<longleftrightarrow> (flags AND CRYPTO_DEFINED \<noteq> 0 \<longrightarrow> i \<noteq> None) \<and> (active \<longrightarrow> i \<noteq> None \<or> d \<noteq> None)"

definition key_ok :: "bool \<Rightarrow> u32 \<Rightarrow> u32 \<Rightarrow> nat \<Rightarrow> bool \<Rightarrow> ('s, 'i) kc \<Rightarrow> bool" where
  "key_ok srv kid nx n pr c \<longleftrightarrow> staged srv kid nx n True (kc_stack c)
     \<and> channel_ok (kx_state (kckx c) = ACTIVE \<or> pr) (kc_crypto c) (kc_crypto_flags c) (kc_data_channel_key c)"

lemma key_ok_staged: "key_ok srv kid nx n pr c \<Longrightarrow> staged srv kid nx n (kx_state (kckx c) = ACTIVE) (kc_stack c)"
  by (simp add: key_ok_def at_stage_def)

lemma key_ok_stack:
  assumes "key_ok srv kid nx n pr c" and "staged srv kid nx n (kx_state (kckx c) = ACTIVE) k'"
  shows "key_ok srv kid nx n pr (c\<lparr>kc_stack := k'\<rparr>)"
  using assms by (auto simp: key_ok_def at_stage_def channel_ok_def)

lemma key_ok_upS:
  assumes "\<And>ac. keeps (staged srv kid nx n ac) m"
  shows "keeps (key_ok srv kid nx n pr) (upS m)"
  by (rule keepsI) (auto simp: upS_def split: prod.splits intro: key_ok_stack keepsD [OF assms] key_ok_staged)

lemma key_ok_same: "(\<And>v. keeps (same_k v) m) \<Longrightarrow> keeps (key_ok srv kid nx n pr) (upS m)"
  by (intro key_ok_upS staged_same)

lemma key_ok_upO:
  assumes "\<And>ac. keepsO (staged srv kid nx n ac) m"
  shows "keepsO (key_ok srv kid nx n pr) (upO m)"
  by (auto simp: keepsO_def upO_def intro!: key_ok_stack intro: keepsOD [OF assms] key_ok_staged)

lemma key_ok_up:
  assumes "key_ok srv kid nx n pr c" and "kx_view (pc_of (f (kc_stack c))) (kx_of (f (kc_stack c))) = kx_view (kcpc c) (kckx c)"
  shows "key_ok srv kid nx n pr (up f c)"
  unfolding up_def
  by (intro key_ok_stack assms(1) at_stage_view [THEN iffD2, OF assms(2)] key_ok_staged [OF assms(1)])

text \<open>The parts of the view that the steps on the key's own members leave alone.\<close>

lemma view_simps [simp]:
  "kx_view (pc_of (set_event e k)) (kx_of (set_event e k)) = kx_view (pc_of k) (kx_of k)"
  "kx_view (pc_of (set_event_next e e' t k)) (kx_of (set_event_next e e' t k)) = kx_view (pc_of k) (kx_of k)"
  "kx_view (pc_of (stat_error r k)) (kx_of (stat_error r k)) = kx_view (pc_of k) (kx_of k)"
  "kx_view (pc_of (prepare_expire e k)) (kx_of (prepare_expire e k)) = kx_view (pc_of k) (kx_of k)"
  "kx_view (pc_of (kc_invalidate r k)) (kx_of (kc_invalidate r k)) = kx_view (pc_of k) (kx_of k)"
  "kx_view (pc_of (kc_reject r k)) (kx_of (kc_reject r k)) = kx_view (pc_of k) (kx_of k)"
  "kx_view (pc_of (set_dirty b k)) (kx_of (set_dirty b k)) = kx_view (pc_of k) (kx_of k)"
  "kx_view (pc_of (erase_prf k)) (kx_of (erase_prf k)) = kx_view (pc_of k) (kx_of k)"
  by (simp_all add: kx_view_def set_event_def set_event_next_def stat_error_def pc_error_def prepare_expire_def
      kc_invalidate_def kc_invalidate_callback_def kc_reject_def Let_def set_dirty_def erase_prf_def)

lemma view_events [simp]:
  "kx_view (pc_of (set_next_event_if_unspecified k)) (kx_of (set_next_event_if_unspecified k)) = kx_view (pc_of k) (kx_of k)"
  "kx_view (pc_of (key_limit_reneg e t k)) (kx_of (key_limit_reneg e t k)) = kx_view (pc_of k) (kx_of k)"
  "kx_view (pc_of (active_event k)) (kx_of (active_event k)) = kx_view (pc_of k) (kx_of k)"
  "kx_view (pc_of (kev_error e r k)) (kx_of (kev_error e r k)) = kx_view (pc_of k) (kx_of k)"
  by (simp_all add: set_next_event_if_unspecified_def key_limit_reneg_def active_event_def kev_error_def
      kx_view_def set_event_def set_event_next_def stat_error_def pc_error_def prepare_expire_def
      kc_invalidate_def kc_invalidate_callback_def)

lemma view_on_kx:
  "(\<And>x. kx_key_id (f x) = kx_key_id x \<and> kx_state (f x) = kx_state x) \<Longrightarrow>
   kx_view (pc_of (on_kx f k)) (kx_of (on_kx f k)) = kx_view (pc_of k) (kx_of k)"
  by (simp add: kx_view_def)

lemma view_schedule [simp]:
  "kx_view (pc_of (schedule_key_limit_renegotiation k)) (kx_of (schedule_key_limit_renegotiation k)) = kx_view (pc_of k) (kx_of k)"
  by (simp add: schedule_key_limit_renegotiation_def Let_def kx_view_def set_event_def set_event_next_def
      stat_error_def pc_error_def key_limit_reneg_def)

lemma view_data_limit [simp]:
  "kc_crypto (data_limit_event m s c) = kc_crypto c" "kc_crypto_flags (data_limit_event m s c) = kc_crypto_flags c"
  "kc_data_channel_key (data_limit_event m s c) = kc_data_channel_key c"
  "kx_view (kcpc (data_limit_event m s c)) (kckx (data_limit_event m s c)) = kx_view (kcpc c) (kckx c)"
  by (simp_all add: data_limit_event_def up_def Let_def)

text \<open>A step that leaves view and channel.\<close>

definition like :: "('s, 'i) kc \<Rightarrow> ('s, 'i) kc \<Rightarrow> bool" where
  "like c c' \<longleftrightarrow> kx_view (kcpc c') (kckx c') = kx_view (kcpc c) (kckx c)
     \<and> (kc_crypto c' = None) = (kc_crypto c = None) \<and> kc_crypto_flags c' = kc_crypto_flags c
     \<and> (kc_data_channel_key c' = None) = (kc_data_channel_key c = None)"

lemma key_ok_like: "like c c' \<Longrightarrow> key_ok srv kid nx n pr c' = key_ok srv kid nx n pr c"
  by (auto simp: like_def key_ok_def channel_ok_def at_stage_def kx_view_def)

lemma like_refl [simp]: "like c c"
  by (simp add: like_def)

lemma like_trans: "like c d \<Longrightarrow> like d e \<Longrightarrow> like c e"
  by (simp add: like_def)

lemma like_up: "kx_view (pc_of (f (kc_stack c))) (kx_of (f (kc_stack c))) = kx_view (kcpc c) (kckx c) \<Longrightarrow> like c (up f c)"
  by (simp add: like_def up_def)

lemma like_rekey: "like c (kc_rekey D t c)"
  by (auto simp: kc_rekey_def like_def split: option.splits)

lemma like_data [simp]: "like c (c\<lparr>kc_data_limit := d\<rparr>)"
  by (simp add: like_def)

lemma like_limit_event: "like c (data_limit_event m s c)"
  by (simp add: like_def)

lemma like_limit: "like c (data_limit_add m sz c)" "like c (kc_data_limit_notify m st c)"
  by (auto simp: data_limit_add_def kc_data_limit_notify_def Let_def split: option.splits prod.splits
      intro: like_trans [OF like_data like_limit_event])

lemma like_process_next: "like c (process_next_event c)"
  by (auto simp: process_next_event_def Let_def intro!: like_up split: event_type.splits)

lemma like_event_pending: "like c (snd (event_pending c))"
  by (simp add: event_pending_def Let_def like_process_next)

lemma like_reset_event: "like c (reset_event c)"
  by (simp add: reset_event_def like_up)

lemma like_mss: "like c (set_mss_inter D c)"
  by (auto simp: set_mss_inter_def intro!: like_up) (simp add: kx_view_def)

lemma like_cache: "like c (cache_op32 c)"
  by (simp add: cache_op32_def like_def)

section \<open>The control channel of a key\<close>

lemma stage_initial:
  "0 < stage srv st \<Longrightarrow> st = C_INITIAL \<or> st = S_INITIAL \<Longrightarrow> stage srv st = 1 \<and> stage srv (st + 1) = 2 \<and> st + 1 \<noteq> ACTIVE"
  by (cases srv) (auto simp: stage_def state_defs)

lemma key_ok_start: "keeps (key_ok srv kid nx n pr) (upS kc_start)"
proof (rule key_ok_upS, rule keepsI)
  fix ac and k :: "'s kst" assume k: "staged srv kid nx n ac k"
  obtain r k' where r: "send_reset k = (r, k')" by fastforce
  have k': "staged srv kid nx n ac k'" by (rule keepsD [OF staged_same [OF same_send_reset] r k])
  have st: "kx_state (kx_of k') = kx_state (kx_of k)"
    using keepsD [OF same_send_reset r, of "kx_view (pc_of k) (kx_of k)"] by (simp add: same_k_def kx_view_def)
  have adv: "staged srv kid nx n ac (set_dirty True (set_state (kx_state (kx_of k') + 1) k'))"
    if "kx_state (kx_of k') = C_INITIAL \<or> kx_state (kx_of k') = S_INITIAL"
  proof -
    have "staged srv kid nx n ac (set_state (kx_state (kx_of k') + 1) k')"
      using stage_initial [of srv "kx_state (kx_of k')"] that k' by (intro keeps_set_state k') (simp_all add: at_stage_def)
    then show ?thesis by (simp add: at_stage_def set_dirty_def)
  qed
  show "staged srv kid nx n ac (snd (kc_start k))"
    using k k' r st adv by (cases r) (simp_all add: kc_start_def bindS_def)
qed

lemma key_ok_app_send: "keeps (key_ok srv kid nx n pr) (upS (kc_app_send b))"
proof (rule key_ok_same)
  fix v :: "u32 \<times> int \<times> bool \<times> u32"
  have send: "keeps (same_k v) (bindS (app_send_validate b) (\<lambda>_ k. (Inr (), set_dirty True k)))"
    by (intro same_bindS_upd same_app_send) simp
  show "keeps (same_k v) (kc_app_send b)"
    by (rule keepsI) (auto simp: kc_app_send_def keeps_snd [OF send], simp add: same_k_def kx_view_def)
qed

lemma key_ok_net_recv: "keepsO (key_ok srv kid nx n pr) (upO (kc_net_recv D p))"
  unfolding kc_net_recv_def env_of_def
  by (intro key_ok_upO keepsO_bind stages.keeps_net_recv keepsO_upd) (simp add: at_stage_def set_dirty_def)

lemma key_ok_retransmit: "keeps (key_ok srv kid nx n pr) (upS (kc_retransmit D))"
  unfolding kc_retransmit_def env_of_def by (intro key_ok_upS stages.keeps_retransmit)

section \<open>Setting up the data channel\<close>

lemma key_ok_generate: "keeps (key_ok srv kid nx n pr) (generate_datachannel_keys D)"
  by (rule keepsI)
    (auto simp: generate_datachannel_keys_def Let_def bindR_def key_ok_def channel_ok_def up_def at_stage_def
      erase_prf_def split: sum.splits)

lemma key_ok_on_crypto: "keeps (key_ok srv kid nx n pr) (on_crypto m)"
  by (rule keepsI) (auto simp: on_crypto_def key_ok_def channel_ok_def split: option.splits prod.splits)

lemma key_ok_init_crypto:
  fixes D :: "('s, 'i) dc_env"
  shows "keeps (key_ok srv kid nx n pr) (init_crypto D key)"
proof (rule keepsI)
  fix c :: "('s, 'i) kc" assume c: "key_ok srv kid nx n pr c"
  let ?i = "de_impl D"
  let ?c = "c\<lparr>kc_crypto := Some (ci_new ?i (kx_key_id (kckx c))), kc_crypto_flags := ci_defined ?i (ci_new ?i (kx_key_id (kckx c)))\<rparr>"
  have c1: "key_ok srv kid nx n pr ?c" using c by (simp add: key_ok_def channel_ok_def)
  have pid: "keeps (key_ok srv kid nx n pr) (\<lambda>c. on_crypto (onlyS (ci_init_remote_peer_id ?i (pc_remote_peer_id (kcpc c))
      \<circ> ci_init_pid ?i SHORT_FORM (cf_pid_mode (pc_cfg (kcpc c))) SHORT_FORM ''DATA'' (uint (kx_key_id (kckx c))))) c)"
    by (rule keepsI) (rule keeps_snd [OF key_ok_on_crypto])
  show "key_ok srv kid nx n pr (snd (init_crypto D key c))"
    unfolding init_crypto_def Let_def
    by (rule keeps_snd [where Q = "key_ok srv kid nx n pr", OF _ c1])
      (intro keeps_rules key_ok_on_crypto pid)
qed

lemma key_ok_finish:
  fixes D :: "('s, 'i) dc_env"
  shows "keeps (key_ok srv kid nx n pr) (finish_data_channel D dck)"
proof (rule keepsI)
  fix c :: "('s, 'i) kc" assume c: "key_ok srv kid nx n pr c"
  show "key_ok srv kid nx n pr (snd (finish_data_channel D dck c))"
  proof (cases "kc_crypto c")
    case (Some i)
    have "key_ok srv kid nx n pr (c\<lparr>kc_crypto := Some j, kc_data_channel_key := None, kc_compress := z\<rparr>)"
      "key_ok srv kid nx n pr (c\<lparr>kc_crypto := Some j, kc_data_channel_key := None\<rparr>)" for j z
      using c by (simp_all add: key_ok_def channel_ok_def)
    then show ?thesis
      using Some by (simp add: finish_data_channel_def Let_def bindR_def key_ok_like [OF like_mss]
          key_ok_like [OF like_cache] split: sum.splits)
  qed (use c in \<open>simp add: finish_data_channel_def\<close>)
qed

lemma key_ok_init_data_channel:
  fixes D :: "('s, 'i) dc_env"
  shows "keeps (key_ok srv kid nx n pr) (kc_init_data_channel D)"
proof -
  have gen: "keeps (key_ok srv kid nx n pr) (\<lambda>c. if (case kc_data_channel_key c of None \<Rightarrow> True | Some d \<Rightarrow> \<not> sk_defined (dk_key d))
      then generate_datachannel_keys D c else (Inr (), c))"
    by (rule keepsI) (simp add: keeps_snd [OF key_ok_generate])
  have rest: "keeps (key_ok srv kid nx n pr) (\<lambda>c. case kc_data_channel_key c of None \<Rightarrow> (Inl undefined_behaviour, c)
      | Some dck \<Rightarrow> bindS (init_crypto D (dk_key dck)) (\<lambda>_. finish_data_channel D dck)
          (if de_bs64 D then c\<lparr>kc_data_limit := Some (dl_new BS64_DATA_LIMIT BS64_DATA_LIMIT)\<rparr> else c))"
  proof (rule keepsI)
    fix c :: "('s, 'i) kc" assume c: "key_ok srv kid nx n pr c"
    have "key_ok srv kid nx n pr (if de_bs64 D then c\<lparr>kc_data_limit := Some (dl_new BS64_DATA_LIMIT BS64_DATA_LIMIT)\<rparr> else c)"
      using c by (simp add: key_ok_def)
    then have "key_ok srv kid nx n pr (snd (bindS (init_crypto D (dk_key dck)) (\<lambda>_. finish_data_channel D dck)
        (if de_bs64 D then c\<lparr>kc_data_limit := Some (dl_new BS64_DATA_LIMIT BS64_DATA_LIMIT)\<rparr> else c)))" for dck
      by (rule keeps_snd [OF keeps_then [OF key_ok_init_crypto key_ok_finish]])
    with c show "key_ok srv kid nx n pr (snd (case kc_data_channel_key c of None \<Rightarrow> (Inl undefined_behaviour, c)
      | Some dck \<Rightarrow> bindS (init_crypto D (dk_key dck)) (\<lambda>_. finish_data_channel D dck)
          (if de_bs64 D then c\<lparr>kc_data_limit := Some (dl_new BS64_DATA_LIMIT BS64_DATA_LIMIT)\<rparr> else c)))"
      by (cases "kc_data_channel_key c") (simp_all only: option.case snd_conv)
  qed
  show ?thesis unfolding kc_init_data_channel_def by (rule keeps_then [OF gen rest])
qed

section \<open>Going active\<close>

lemma key_ok_send_pre_written: "keeps (key_ok srv kid nx n pr) (upS send_pre_written)"
proof (rule key_ok_same, rule keepsI)
  fix v and k :: "'s kst" assume "same_k v k"
  then show "same_k v (snd (send_pre_written k))"
  proof (induction "length (kx_pre_write_queue (kx_of k))" arbitrary: k rule: less_induct)
    case less
    show ?case
    proof (cases "kx_pre_write_queue (kx_of k)")
      case (Cons b q)
      obtain r k' where r: "app_send_validate b k = (r, k')" by fastforce
      let ?k = "set_dirty True (on_kx (\<lambda>x. x\<lparr>kx_pre_write_queue := q\<rparr>) k')"
      have "same_k v k'" by (rule keepsD [OF same_app_send r less(2)])
      moreover then have "same_k v (on_kx (\<lambda>x. x\<lparr>kx_pre_write_queue := q\<rparr>) k')" by (simp add: same_k_def kx_view_def)
      then have "same_k v ?k" by simp
      moreover have "length (kx_pre_write_queue (kx_of ?k)) < length (kx_pre_write_queue (kx_of k))"
        using Cons by (simp add: set_dirty_def)
      ultimately show ?thesis
        using less(1) [of ?k] Cons r by (subst send_pre_written.simps) (auto split: sum.splits)
    qed (use less(2) in \<open>simp add: send_pre_written.simps\<close>)
  qed
qed

lemma view_now_active: "kx_view (pc_of (now_active k)) (kx_of (now_active k)) = kx_view (pc_of k) (kx_of k)"
  by (simp add: now_active_def Let_def active_event_def set_event_next_def kx_view_def)

lemma key_ok_active:
  fixes D :: "('s, 'i) dc_env"
  assumes c: "key_ok srv kid nx n pr c"
  shows "key_ok srv kid nx n True (snd (kc_active D c))"
proof -
  let ?c = "c\<lparr>kc_data_channel_key := Some dk_new\<rparr>"
  have c1: "key_ok srv kid nx n True ?c" using c by (simp add: key_ok_def channel_ok_def)
  have fin: "keeps (key_ok srv kid nx n True) (\<lambda>c :: ('s, 'i) kc. (Inr (), up now_active c))"
    by (intro keeps_upd key_ok_up) (simp_all add: view_now_active)
  show ?thesis
    unfolding kc_active_def Let_def
    by (rule keeps_snd [where Q = "key_ok srv kid nx n True", OF _ c1])
      (intro keeps_then keeps_if keeps_ret key_ok_init_data_channel key_ok_send_pre_written fin)
qed

definition waits :: "int \<Rightarrow> user \<Rightarrow> bool" where
  "waits st u \<longleftrightarrow> st \<in> {C_WAIT_RESET_ACK, S_WAIT_RESET_ACK} \<and> kx_state (u_kx u) = st"

lemma waits_view: "kx_view (u_pc u') (u_kx u') = kx_view (u_pc u) (u_kx u) \<Longrightarrow> waits st u' = waits st u"
  by (simp add: waits_def kx_view_def)

text \<open>Until the handshake starts, no packet moves a key that waits for the acknowledgement of its reset.\<close>

interpretation waits: user_contract "kctx_env base E" "waits st"
proof
  fix u :: user and p a i t
  show "waits st u \<Longrightarrow> waits st (snd (d_net_send (kctx_env base E) p t u))"
    by (auto simp: kctx_env_def kc_env_def kc_net_send_def waits_def split: option.splits)
  show "waits st u \<Longrightarrow> waits st (snd (snd (snd (d_encapsulate (kctx_env base E) i p (a, u)))))"
    by (rule waits_view [THEN iffD2])
      (simp_all add: kctx_env_def kc_env_def cc_encapsulate_def same_on_packet [OF same_encapsulate(1)])
  show "waits st u \<Longrightarrow> waits st (snd (snd (snd (d_generate_ack (kctx_env base E) p (a, u)))))"
    by (rule waits_view [THEN iffD2])
      (simp_all add: kctx_env_def kc_env_def cc_generate_ack_def same_on_packet [OF same_encapsulate(2)])
next
  fix k :: "'a kst" and p b
  assume k: "waits st (k_user k)"
  have "same_k (kx_view (pc_of k) (kx_of k)) (snd (cc_decapsulate p k))"
    by (rule keeps_snd [OF same_decapsulate]) (simp add: same_k_def)
  then show "waits st (k_user (snd (d_decapsulate (kctx_env base E) p k)))"
    using k by (intro waits_view [THEN iffD2, OF _ k]) (simp_all add: kctx_env_def kc_env_def same_k_def)
  have "kx_state (kx_of k) \<noteq> C_WAIT_AUTH" "kx_state (kx_of k) \<noteq> S_WAIT_AUTH" "kx_state (kx_of k) \<noteq> S_WAIT_AUTH_ACK"
    "kx_state (kx_of k) \<noteq> ACTIVE" "kx_state (kx_of k) \<noteq> C_WAIT_RESET" "kx_state (kx_of k) \<noteq> S_WAIT_RESET"
    using k by (auto simp: waits_def state_defs)
  then show "waits st (k_user (snd (d_app_recv (kctx_env base E) b k)))"
    "waits st (k_user (snd (d_raw_recv (kctx_env base E) p k)))"
    using k by (auto simp: kctx_env_def app_recv_def raw_recv_def Let_def waits_def split: option.splits)
  show "waits st (k_user (d_invalidate_callback (kctx_env base E) k))"
    using k by (simp add: kctx_env_def kc_env_def kc_invalidate_callback_def waits_def)
qed

definition key_waits :: "int \<Rightarrow> bool \<Rightarrow> u32 \<Rightarrow> u32 \<Rightarrow> nat \<Rightarrow> ('s, 'i) kc \<Rightarrow> bool" where
  "key_waits st srv kid nx n c \<longleftrightarrow> key_ok srv kid nx n False c \<and> waits st (k_user (kc_stack c))"

lemma key_waits_handshake: "keepsO (key_waits st srv kid nx n) (kc_start_handshake D)"
proof -
  have ok: "keepsO (key_ok srv kid nx n False) (kc_start_handshake D)"
    unfolding kc_start_handshake_def env_of_def by (intro key_ok_upO stages.keeps_start_handshake)
  have w: "waits st (k_user (kc_stack c'))"
    if "kc_start_handshake D c = Some (r, c')" "waits st (k_user (kc_stack c))" for c r c'
    using that by (auto simp: kc_start_handshake_def upO_def env_of_def intro: keepsOD [OF waits.keeps_start_handshake])
  show ?thesis unfolding keepsO_def key_waits_def by (blast intro: w keepsOD [OF ok])
qed

lemma key_waits_same:
  fixes m :: "('a, 's kst) st"
  assumes "\<And>v. keeps (same_k v) m"
  shows "keeps (key_waits st srv kid nx n) (upS m)"
proof (rule keepsI)
  fix c :: "('s, 'i) kc" assume c: "key_waits st srv kid nx n c"
  obtain r k' where r: "m (kc_stack c) = (r, k')" by fastforce
  have "kx_view (pc_of k') (kx_of k') = kx_view (kcpc c) (kckx c)"
    using keepsD [OF assms r, of "kx_view (kcpc c) (kckx c)"] by (simp add: same_k_def)
  from waits_view [OF this] have "waits st (k_user k')" using c unfolding key_waits_def by blast
  moreover have "key_ok srv kid nx n False (snd (upS m c))"
    by (rule keeps_snd [OF key_ok_same [OF assms]]) (use c in \<open>simp add: key_waits_def\<close>)
  ultimately show "key_waits st srv kid nx n (snd (upS m c))"
    using r by (simp add: key_waits_def upS_def)
qed

lemma key_waits_enter:
  assumes c: "key_waits st srv kid nx n c" and st: "st = (if srv then S_WAIT_RESET_ACK else C_WAIT_RESET_ACK)"
  shows "key_ok srv kid nx n False (up (set_state (if srv then S_WAIT_AUTH else C_WAIT_AUTH)) c)"
  using c st by (auto simp: key_waits_def waits_def key_ok_def up_def at_stage_def set_state_def channel_ok_def
      stage_values state_distinct split: if_splits)

text \<open>A run that ends in a step that needs more than the invariant.\<close>

definition keepsO_to :: "('s \<Rightarrow> bool) \<Rightarrow> ('s \<Rightarrow> ('a res \<times> 's) option) \<Rightarrow> ('s \<Rightarrow> bool) \<Rightarrow> bool" where
  "keepsO_to P m R \<longleftrightarrow> (\<forall>s r s'. P s \<longrightarrow> m s = Some (r, s') \<longrightarrow> R s')"

lemma keepsO_toI: "keepsO P m \<Longrightarrow> (\<And>s. P s \<Longrightarrow> R s) \<Longrightarrow> keepsO_to P m R"
  by (auto simp: keepsO_def keepsO_to_def)

lemma keepsO_to_bind:
  assumes "keepsO P m" and "\<And>a. keepsO_to P (f a) R" and "\<And>s. P s \<Longrightarrow> R s"
  shows "keepsO_to P (bindO m f) R"
  unfolding keepsO_to_def
proof (intro allI impI)
  fix s r s' assume s: "P s" and b: "bindO m f s = Some (r, s')"
  then obtain x s1 where x: "m s = Some (x, s1)" by (auto simp: bindO_def split: option.splits)
  then have "P s1" using keepsOD [OF assms(1)] s by blast
  then show "R s'" using b x assms(2,3) by (cases x) (auto simp: bindO_def keepsO_to_def)
qed

lemma key_ok_False: "key_ok srv kid nx n pr c \<Longrightarrow> key_ok srv kid nx n False c"
  by (auto simp: key_ok_def channel_ok_def)

lemma key_waits_ok: "key_waits st srv kid nx n c \<Longrightarrow> key_ok srv kid nx n False c"
  by (simp add: key_waits_def)

lemma key_ok_n_unacked: "keeps (key_ok srv kid nx n pr) (upS n_unacked)"
  by (intro key_ok_same) (auto simp: keeps_def n_unacked_def same_k_def split: sum.splits prod.splits)

lemma enter_auth:
  "st = (if srv then S_WAIT_RESET_ACK else C_WAIT_RESET_ACK) \<Longrightarrow>
   keepsO_to (key_waits st srv kid nx n) (enter_state (if srv then S_WAIT_AUTH else C_WAIT_AUTH)) (key_ok srv kid nx n False)"
  by (auto simp: keepsO_to_def enter_state_def key_waits_enter)

lemma post_ack_reset:
  fixes D :: "('s, 'i) dc_env"
  shows "keepsO_to (key_waits C_WAIT_RESET_ACK False kid nx n)
     (bindO (kc_start_handshake D) (\<lambda>_. bindO (lift (upS send_auth)) (\<lambda>_. enter_state C_WAIT_AUTH))) (key_ok False kid nx n False)"
  "keepsO_to (key_waits S_WAIT_RESET_ACK True kid nx n)
     (bindO (kc_start_handshake D) (\<lambda>_. enter_state S_WAIT_AUTH)) (key_ok True kid nx n False)"
  subgoal
    by (intro keepsO_to_bind key_waits_handshake keepsO_lift key_waits_same same_send_auth)
      (simp_all add: key_waits_ok enter_auth [where srv = False, simplified])
  subgoal
    by (intro keepsO_to_bind key_waits_handshake)
      (simp_all add: key_waits_ok enter_auth [where srv = True, simplified])
  done

lemma stage_le: "stage srv st \<le> 6"
  by (simp add: stage_def)

lemma post_ack_active:
  fixes D :: "('s, 'i) dc_env"
  shows "keepsO (key_ok srv kid nx n False) (bindO (lift (kc_active D)) (\<lambda>_. enter_state ACTIVE))"
  unfolding keepsO_def
proof (intro allI impI)
  fix c r and c' :: "('s, 'i) kc"
  assume c: "key_ok srv kid nx n False c" and b: "bindO (lift (kc_active D)) (\<lambda>_. enter_state ACTIVE) c = Some (r, c')"
  obtain x c1 where x: "kc_active D c = (x, c1)" by fastforce
  have "key_ok srv kid nx n True c1" using key_ok_active [OF c, of D] x by simp
  moreover have "key_ok srv kid nx n False (up (set_state ACTIVE) c1)" if "key_ok srv kid nx n True c1"
    using that stage_le [of srv "kx_state (kckx c1)"]
    by (auto simp: key_ok_def up_def at_stage_def set_state_def channel_ok_def stage_values)
  ultimately show "key_ok srv kid nx n False c'"
    using b x key_ok_False by (cases x) (auto simp: bindO_def lift_def enter_state_def)
qed

lemma key_ok_post_ack:
  fixes D :: "('s, 'i) dc_env"
  shows "keepsO (key_ok srv kid nx n False) (post_ack_action D)"
proof -
  have act: "key_ok srv kid nx n False c'"
    if c: "key_ok srv kid nx n False c" and r: "(if kx_state (kckx c) = C_WAIT_RESET_ACK then
            bindO (kc_start_handshake D) (\<lambda>_. bindO (lift (upS send_auth)) (\<lambda>_. enter_state C_WAIT_AUTH)) c
          else if kx_state (kckx c) = S_WAIT_RESET_ACK then bindO (kc_start_handshake D) (\<lambda>_. enter_state S_WAIT_AUTH) c
          else if kx_state (kckx c) = C_WAIT_AUTH_ACK \<or> kx_state (kckx c) = S_WAIT_AUTH_ACK then
            bindO (lift (kc_active D)) (\<lambda>_. enter_state ACTIVE) c
          else Some (Inr (), c)) = Some (r, c')" for c r and c' :: "('s, 'i) kc"
  proof -
    have pos: "stage srv (kx_state (kckx c)) > 0" using c by (simp add: key_ok_def at_stage_def)
    show ?thesis
      using c r stage_step(5,6) [OF pos] post_ack_reset [of kid nx n D] keepsOD [OF post_ack_active]
      by (auto simp: keepsO_to_def key_waits_def waits_def state_defs split: if_splits)
  qed
  have step: "keepsO (key_ok srv kid nx n False) (\<lambda>c. let st = kx_state (kckx c) in
      if m \<noteq> 0 then Some (Inr (), c)
      else if st = C_WAIT_RESET_ACK then
        bindO (kc_start_handshake D) (\<lambda>_. bindO (lift (upS send_auth)) (\<lambda>_. enter_state C_WAIT_AUTH)) c
      else if st = S_WAIT_RESET_ACK then bindO (kc_start_handshake D) (\<lambda>_. enter_state S_WAIT_AUTH) c
      else if st = C_WAIT_AUTH_ACK \<or> st = S_WAIT_AUTH_ACK then
        bindO (lift (kc_active D)) (\<lambda>_. enter_state ACTIVE) c
      else Some (Inr (), c))" for m :: u32
    unfolding keepsO_def Let_def using act by (auto split: if_splits)
  show ?thesis
    using keepsOD [OF keepsO_bind [OF keepsO_lift [OF key_ok_n_unacked] step]]
    by (auto simp: keepsO_def post_ack_action_def)
qed

lemma key_ok_set_dirty: "keeps (key_ok srv kid nx n pr) (\<lambda>c. (Inr (), up (set_dirty b) c))"
  by (intro keeps_upd key_ok_up) (simp_all add: set_dirty_def kx_view_def)

lemma key_ok_flush:
  fixes D :: "('s, 'i) dc_env"
  shows "keepsO (key_ok srv kid nx n False) (kc_flush D)"
proof -
  have run: "keepsO (key_ok srv kid nx n False) (bindO (post_ack_action D) (\<lambda>_.
        bindO (lift (upS (ks_flush (env_of D)))) (\<lambda>_.
        bindO (upO (ks_send_pending_acks (env_of D))) (\<lambda>_ c. Some (Inr (), up (set_dirty False) c)))))"
    unfolding env_of_def
    by (intro keepsO_bind key_ok_post_ack keepsO_lift key_ok_upS key_ok_upO stages.keeps_flush
        stages.keeps_send_pending_acks keepsO_upd keeps_snd [OF key_ok_set_dirty, simplified])
  show ?thesis using keepsOD [OF run] by (auto simp: keepsO_def kc_flush_def)
qed

section \<open>Data packets\<close>

definition px_ok :: "bool \<Rightarrow> u32 \<Rightarrow> u32 \<Rightarrow> nat \<Rightarrow> bool \<Rightarrow> ('s, 'i) pkt \<Rightarrow> bool" where
  "px_ok srv kid nx n pr s \<longleftrightarrow> key_ok srv kid nx n pr (px_kc s)"

lemma px_ok_buf [simp]: "px_ok srv kid nx n pr (s\<lparr>px_buf := b\<rparr>) = px_ok srv kid nx n pr s"
  by (simp add: px_ok_def)

lemma px_ok_like: "(\<And>c. like c (f c)) \<Longrightarrow> px_ok srv kid nx n pr (px_up f s) = px_ok srv kid nx n pr s"
  by (simp add: px_ok_def px_up_def key_ok_like)

lemma px_ok_on_px: "keeps (px_ok srv kid nx n pr) (on_px f)"
  by (rule keepsI) (auto simp: on_px_def split: sum.splits)

lemma px_ok_crypto: "keeps (px_ok srv kid nx n pr) (px_crypto m)"
  by (rule keepsI) (auto simp: px_crypto_def px_ok_def key_ok_def channel_ok_def split: option.splits prod.splits)

lemma like_count_decrypt_error: "like c (up (count_decrypt_error e) c)"
  by (rule like_up) (simp add: count_decrypt_error_def Let_def kx_view_def stat_error_def pc_error_def
      kc_invalidate_def kc_invalidate_callback_def)

lemma like_reject: "like c (up (kc_reject e) c)"
  by (rule like_up) (rule view_simps)

lemma px_ok_do_encrypt: "keeps (px_ok srv kid nx n pr) (do_encrypt D hint)"
proof -
  have body: "keeps (px_ok srv kid nx n pr) (\<lambda>s :: ('a, 'b) pkt.
      let s = px_up (data_limit_add Encrypt (b_size (px_buf s))) s; c = px_kc s in
       if kc_enable_op32 c then
         bindS (px_crypto (ci_encrypt (de_impl D) (key_now c) (Some (op32_of c)))) (\<lambda>wrap.
         bindS (on_px (\<lambda>_. buf_prepend (op32_of c))) (\<lambda>_. ret wrap)) s
       else
         bindS (px_crypto (ci_encrypt (de_impl D) (key_now c) None)) (\<lambda>wrap.
         bindS (on_px (\<lambda>_. buf_push_front (ucast (op_compose DATA_V1 (kx_key_id (kckx c)))))) (\<lambda>_. ret wrap)) s)"
    for D :: "('a, 'b) dc_env"
  proof (rule keepsI)
    fix s :: "('a, 'b) pkt" assume s: "px_ok srv kid nx n pr s"
    let ?s = "px_up (data_limit_add Encrypt (b_size (px_buf s))) s"
    have s1: "px_ok srv kid nx n pr ?s" using s by (simp add: px_ok_like like_limit)
    have run: "px_ok srv kid nx n pr (snd (bindS (px_crypto m) (\<lambda>wrap. bindS (on_px f) (\<lambda>_. ret wrap)) ?s))" for m and f
      by (rule keeps_snd [OF keeps_then [OF px_ok_crypto keeps_then [OF px_ok_on_px keeps_ret]] s1])
    show "px_ok srv kid nx n pr (snd (let s = ?s; c = px_kc s in
       if kc_enable_op32 c then
         bindS (px_crypto (ci_encrypt (de_impl D) (key_now c) (Some (op32_of c)))) (\<lambda>wrap.
         bindS (on_px (\<lambda>_. buf_prepend (op32_of c))) (\<lambda>_. ret wrap)) s
       else
         bindS (px_crypto (ci_encrypt (de_impl D) (key_now c) None)) (\<lambda>wrap.
         bindS (on_px (\<lambda>_. buf_push_front (ucast (op_compose DATA_V1 (kx_key_id (kckx c)))))) (\<lambda>_. ret wrap)) s))"
      unfolding Let_def by (simp add: run)
  qed
  show ?thesis
    unfolding do_encrypt_def fix_mss_def compress_packet_def by (intro keeps_then px_ok_on_px body)
qed

lemma px_ok_encrypt: "keeps (px_ok srv kid nx n pr) (kc_encrypt D)"
proof (rule keepsI)
  fix s :: "('a, 'b) pkt" assume s: "px_ok srv kid nx n pr s"
  have fin: "keeps (px_ok srv kid nx n pr) (\<lambda>s :: ('a, 'b) pkt. (Inr (), if wrap then px_up (up schedule_key_limit_renegotiation) s else s))"
    for wrap by (rule keepsI) (simp add: px_ok_like like_up)
  show "px_ok srv kid nx n pr (snd (kc_encrypt D s))"
    using s keeps_snd [OF keeps_then [OF px_ok_do_encrypt fin] s] by (simp add: kc_encrypt_def)
qed

lemma px_ok_decompress: "keeps (px_ok srv kid nx n pr) decompress_packet"
  by (rule keepsI) (auto simp: decompress_packet_def px_ok_like like_up split: option.splits sum.splits)

lemma px_ok_decrypt_body: "keeps (px_ok srv kid nx n pr) (decrypt_body D)"
proof -
  have tail: "keeps (px_ok srv kid nx n pr) (\<lambda>s :: ('a, 'b) pkt. let s = px_up (up (count_decrypt_error err)) s;
             s = px_up (data_limit_add Decrypt (b_size (px_buf s))) s in bindS decompress_packet (\<lambda>_. fix_mss D) s)"
    for err and D :: "('a, 'b) dc_env"
  proof (rule keepsI)
    fix s :: "('a, 'b) pkt" assume s: "px_ok srv kid nx n pr s"
    have "px_ok srv kid nx n pr (px_up (data_limit_add Decrypt z) (px_up (up (count_decrypt_error err)) s))" for z
      using s by (simp add: px_ok_like like_limit like_count_decrypt_error)
    then show "px_ok srv kid nx n pr (snd (let s = px_up (up (count_decrypt_error err)) s;
             s = px_up (data_limit_add Decrypt (b_size (px_buf s))) s in bindS decompress_packet (\<lambda>_. fix_mss D) s))"
      unfolding Let_def fix_mss_def by (intro keeps_snd [OF keeps_then [OF px_ok_decompress px_ok_on_px]])
  qed
  have crypt: "keeps (px_ok srv kid nx n pr) (\<lambda>s :: ('a, 'b) pkt. bindS (px_crypto (ci_decrypt (de_impl D) (key_now (px_kc s)) op32))
      (\<lambda>err s. let s = px_up (up (count_decrypt_error err)) s; s = px_up (data_limit_add Decrypt (b_size (px_buf s))) s in
         bindS decompress_packet (\<lambda>_. fix_mss D) s) s)" for op32 and D :: "('a, 'b) dc_env"
    by (rule keeps_lam) (intro keeps_then px_ok_crypto tail)
  have head: "keeps (px_ok srv kid nx n pr) (bindS (on_px f) (\<lambda>_ s. bindS (px_crypto (ci_decrypt (de_impl D) (key_now (px_kc s)) op32))
      (\<lambda>err s. let s = px_up (up (count_decrypt_error err)) s; s = px_up (data_limit_add Decrypt (b_size (px_buf s))) s in
         bindS decompress_packet (\<lambda>_. fix_mss D) s) s))" for f op32 and D :: "('a, 'b) dc_env"
    by (intro keeps_then px_ok_on_px crypt)
  show ?thesis
    by (rule keepsI) (simp add: decrypt_body_def bindR_def Let_def keeps_snd [OF head, unfolded Let_def] split: sum.splits)
qed

lemma px_ok_decrypt: "keeps (px_ok srv kid nx n pr) (kc_decrypt D)"
proof (rule keepsI)
  fix s :: "('a, 'b) pkt" assume s: "px_ok srv kid nx n pr s"
  obtain r s' where r: "decrypt_body D s = (r, s')" by fastforce
  then have "px_ok srv kid nx n pr s'" using keepsD [OF px_ok_decrypt_body _ s] by blast
  then show "px_ok srv kid nx n pr (snd (kc_decrypt D s))"
    using s r by (auto simp: kc_decrypt_def px_ok_like like_reject split: sum.splits exn.splits)
qed

lemma key_ok_send_message: "keeps (key_ok srv kid nx n pr) (send_data_channel_message D d)"
proof (rule keepsI)
  fix c :: "('a, 'b) kc" assume c: "key_ok srv kid nx n pr c"
  have s: "key_ok srv kid nx n pr (px_kc s')" if "do_encrypt D False \<lparr>px_kc = c, px_buf = b\<rparr> = (r, s')" for b r s'
    using keepsD [OF px_ok_do_encrypt that] c by (simp add: px_ok_def)
  have u: "key_ok srv kid nx n pr (up (on_pc (\<lambda>pc. pc\<lparr>pc_net_sent := l pc\<rparr>)) c')" if "key_ok srv kid nx n pr c'" for c' :: "('a, 'b) kc" and l
    by (intro key_ok_up that) (simp add: kx_view_def)
  show "key_ok srv kid nx n pr (snd (send_data_channel_message D d c))"
    using c by (auto simp: send_data_channel_message_def bindR_def intro!: u dest: s split: sum.splits prod.splits)
qed

lemma key_ok_exit_notify: "keeps (key_ok srv kid nx n pr) (kc_send_explicit_exit_notify D)"
  by (rule keepsI) (simp add: kc_send_explicit_exit_notify_def keeps_snd [OF key_ok_on_crypto] keeps_snd [OF key_ok_send_message])

section \<open>New keys\<close>

lemma next_key_id_bound:
  "pc_upcoming_key_id (snd (next_key_id pc)) < 8" "pc_upcoming_key_id (snd (next_key_id pc)) \<noteq> 0"
proof -
  have "(w AND 7) < 8" for w :: u32
    by (rule order_le_less_trans [OF word_and_le1]) simp
  then show "pc_upcoming_key_id (snd (next_key_id pc)) < 8" "pc_upcoming_key_id (snd (next_key_id pc)) \<noteq> 0"
    by (auto simp: next_key_id_def Let_def)
qed

lemma next_key_id_simps [simp]:
  "fst (next_key_id pc) = pc_upcoming_key_id pc" "pc_server (snd (next_key_id pc)) = pc_server pc"
  by (simp_all add: next_key_id_def Let_def)

lemma key_ok_new:
  "key_ok (pc_server pc) (pc_upcoming_key_id pc) (pc_upcoming_key_id (snd (next_key_id pc))) 1 False (kc_new D initiator pc)"
  by (auto simp: kc_new_def key_ok_def at_stage_def channel_ok_def Let_def split_beta ks_new_def set_state_def set_event_next_def
      kx_new_def stage_def state_defs split: if_splits)

end
