(* ===== verification/SessionInv.thy ===== *)
theory SessionInv
  imports KeyInv
begin

text \<open>
  The type invariant of a session: whatever is called, and whatever packets arrive, key IDs fit into the
  three bits of a packet's head, every key is in a state of its own role, and the data channel of a key
  is only used with its object.
\<close>

section \<open>The invariant\<close>

definition key_typed :: "bool \<Rightarrow> ('s, 'i) kc \<Rightarrow> bool" where
  "key_typed server c \<longleftrightarrow> kx_key_id (kckx c) < 8 \<and> 0 < stage server (kx_state (kckx c))
     \<and> (kc_crypto_flags c AND CRYPTO_DEFINED \<noteq> 0 \<longrightarrow> kc_crypto c \<noteq> None)
     \<and> (kx_state (kckx c) = ACTIVE \<longrightarrow> kc_crypto c \<noteq> None \<or> kc_data_channel_key c \<noteq> None)"

definition session_typed :: "bool \<Rightarrow> ('s, 'i) session \<Rightarrow> bool" where
  "session_typed server s \<longleftrightarrow> pc_server (se_pc s) = server \<and> pc_upcoming_key_id (se_pc s) < 8
     \<and> (\<forall>c. se_primary s = Some c \<longrightarrow> key_typed server c \<and> pc_upcoming_key_id (se_pc s) \<noteq> 0)
     \<and> (\<forall>c. se_secondary s = Some c \<longrightarrow> key_typed server c \<and> pc_upcoming_key_id (se_pc s) \<noteq> 0)"

abbreviation lent_ok :: "bool \<Rightarrow> u32 \<Rightarrow> u32 \<Rightarrow> ('s, 'i) kc \<Rightarrow> bool" where
  "lent_ok srv kid nx \<equiv> key_ok srv kid nx 1 False"

lemma lent_ok_typed: "lent_ok srv kid nx c \<Longrightarrow> kid < 8 \<Longrightarrow> key_typed srv c"
  by (auto simp: key_ok_def key_typed_def at_stage_def channel_ok_def)

lemma lend_ok:
  assumes "session_typed srv s" and "key_at w s = Some c"
  shows "lent_ok srv (kx_key_id (kckx c)) (pc_upcoming_key_id (se_pc s)) (lend (se_pc s) c)"
    and "kx_key_id (kckx c) < 8" and "pc_upcoming_key_id (se_pc s) \<noteq> 0"
  using assms
  by (auto simp: session_typed_def key_typed_def key_ok_def at_stage_def channel_ok_def key_at_def lend_def up_def
      split: slot.splits)

lemma keep_key_typed:
  assumes "session_typed srv s" and "lent_ok srv kid nx c" and "kid < 8" and "nx < 8" and "nx \<noteq> 0"
  shows "session_typed srv (keep_key w c s)"
  using assms lent_ok_typed [OF assms(2,3)]
  by (auto simp: session_typed_def keep_key_def set_key_def key_ok_def at_stage_def split: slot.splits)

lemma upcoming_bound: "session_typed srv s \<Longrightarrow> pc_upcoming_key_id (se_pc s) < 8"
  by (simp add: session_typed_def)

lemma kept_typed:
  assumes s: "session_typed srv s" and c: "key_at w s = Some c"
    and "lent_ok srv (kx_key_id (kckx c)) (pc_upcoming_key_id (se_pc s)) c'"
  shows "session_typed srv (keep_key w c' s)"
  by (rule keep_key_typed [OF s assms(3)]) (simp_all add: lend_ok [OF s c] upcoming_bound [OF s])

section \<open>Methods of a key\<close>

lemma typed_on_slot:
  fixes m :: "('a, ('s, 'i) kc) st"
  assumes "\<And>kid nx. keeps (lent_ok srv kid nx) m"
  shows "keeps (session_typed srv) (on_slot w m)"
proof (rule keepsI)
  fix s :: "('s, 'i) session" assume s: "session_typed srv s"
  show "session_typed srv (snd (on_slot w m s))"
  proof (cases "key_at w s")
    case (Some c)
    then show ?thesis
      using kept_typed [OF s Some keeps_snd [OF assms lend_ok(1) [OF s Some]]] by (simp add: on_slot_def split_beta)
  qed (simp add: on_slot_def s)
qed

lemma typed_on_slotO:
  assumes "\<And>kid nx. keepsO (lent_ok srv kid nx) m"
  shows "keepsO (session_typed srv) (on_slotO w m)"
  unfolding keepsO_def
proof (intro allI impI)
  fix s r s' assume s: "session_typed srv s" and m: "on_slotO w m s = Some (r, s')"
  show "session_typed srv s'"
  proof (cases "key_at w s")
    case (Some c)
    then obtain c' where "m (lend (se_pc s) c) = Some (r, c')" "s' = keep_key w c' s"
      using m by (auto simp: on_slotO_def)
    then show ?thesis using kept_typed [OF s Some keepsOD [OF assms _ lend_ok(1) [OF s Some]]] by simp
  qed (use s m in \<open>simp add: on_slotO_def\<close>)
qed

lemma typed_if_slot:
  assumes "\<And>kid nx c. lent_ok srv kid nx c \<Longrightarrow> lent_ok srv kid nx (f c)" and s: "session_typed srv s"
  shows "session_typed srv (if_slot w f s)"
proof (cases "key_at w s")
  case (Some c)
  show ?thesis
    using kept_typed [OF s Some assms(1) [OF lend_ok(1) [OF s Some]]] Some by (simp add: if_slot_def)
qed (simp add: if_slot_def s)

lemma typed_if_slotS:
  assumes "\<And>kid nx. keeps (lent_ok srv kid nx) m"
  shows "keeps (session_typed srv) (if_slotS w m)"
  by (rule keepsI) (simp add: if_slotS_def keeps_snd [OF typed_on_slot [OF assms]])

lemma typed_if_slotO:
  assumes "\<And>kid nx. keepsO (lent_ok srv kid nx) m"
  shows "keepsO (session_typed srv) (if_slotO w m)"
  using keepsOD [OF typed_on_slotO [OF assms]] by (auto simp: keepsO_def if_slotO_def split: if_splits)

lemma typed_like: "(\<And>c. like c (f c)) \<Longrightarrow> session_typed srv s \<Longrightarrow> session_typed srv (if_slot w f s)"
  by (rule typed_if_slot) (auto intro: key_ok_like [THEN iffD2])

lemma typed_up:
  fixes s :: "('s, 'i) session"
  assumes "\<And>k. kx_view (pc_of (f k)) (kx_of (f k)) = kx_view (pc_of k) (kx_of k)" and "session_typed srv s"
  shows "session_typed srv (if_slot w (up f) s)"
  by (rule typed_like [OF like_up assms(2)]) (rule assms(1))

text \<open>Steps on the session's own members.\<close>

lemma typed_sepc:
  "pc_server (f (se_pc s)) = pc_server (se_pc s) \<Longrightarrow> pc_upcoming_key_id (f (se_pc s)) = pc_upcoming_key_id (se_pc s) \<Longrightarrow>
   session_typed srv s \<Longrightarrow> session_typed srv (on_sepc f s)"
  by (simp add: session_typed_def on_sepc_def)

definition same_proto :: "bool \<times> u32 \<Rightarrow> proto \<Rightarrow> bool" where
  "same_proto v pc \<longleftrightarrow> (pc_server pc, pc_upcoming_key_id pc) = v"

lemma typed_on_session:
  assumes "\<And>v. keeps (same_proto v) m"
  shows "keeps (session_typed srv) (on_session m)"
proof (rule keepsI)
  fix s :: "('b, 'c) session" assume s: "session_typed srv s"
  obtain r pc where r: "m (se_pc s) = (r, pc)" by fastforce
  have "same_proto (pc_server (se_pc s), pc_upcoming_key_id (se_pc s)) pc"
    by (rule keepsD [OF assms r]) (simp add: same_proto_def)
  then show "session_typed srv (snd (on_session m s))"
    using s r by (simp add: on_session_def session_typed_def same_proto_def)
qed

section \<open>Validation\<close>

lemma same_pc_error: "same_proto v (pc_error e pc) = same_proto v pc"
  by (simp add: same_proto_def pc_error_def)

lemma same_own_psid: "keeps (same_proto v) (own_psid_in b)"
  unfolding own_psid_in_def by (intro keeps_rules) (simp add: keeps_def ret_def)

lemma same_check_pid: "keeps (same_proto v) (check_pid_and_psid pid b)"
proof (rule keepsI)
  fix pc assume pc: "same_proto v pc"
  have "same_proto v pc'" if "pid_acceptable pid pc = Inr (ok, pc')" for ok pc'
    using that pc
    by (auto simp: pid_acceptable_def bindE_def same_pc_error split: sum.splits prod.splits option.splits)
      (simp_all add: same_proto_def)
  then show "same_proto v (snd (check_pid_and_psid pid b pc))"
    using pc by (auto simp: check_pid_and_psid_def keeps_snd [OF keeps_then [OF same_own_psid keeps_ret]]
        split: sum.splits)
qed

lemma same_verify_peer: "keeps (same_proto v) (verify_or_set_peer src)"
  by (rule keepsI) (simp add: verify_or_set_peer_def same_proto_def)

lemma same_validate_auth: "keeps (same_proto v) (validate_tls_auth recv)"
  by (rule keepsI) (auto simp: validate_tls_auth_def bindR_def ret_def keeps_snd [OF same_check_pid] split: sum.splits prod.splits)

lemma same_validate_crypt: "keeps (same_proto v) (validate_tls_crypt recv)"
proof (rule keepsI)
  fix pc assume pc: "same_proto v pc"
  have tail: "keeps (same_proto v) (bindS (verify_or_set_peer src) (\<lambda>ok. if \<not> ok then ret False else check_pid_and_psid pid w))"
    for src pid w by (intro keeps_rules same_verify_peer same_check_pid)
  show "same_proto v (snd (validate_tls_crypt recv pc))"
    using pc by (auto simp: validate_tls_crypt_def bindR_def keeps_snd [OF tail]
        split: sum.splits prod.splits option.splits)
qed

lemma same_validate_plain: "keeps (same_proto v) (validate_tls_plain recv)"
  by (rule keepsI) (auto simp: validate_tls_plain_def bindR_def ret_def keeps_snd [OF same_own_psid] split: sum.splits prod.splits)

lemma same_validate: "keeps (same_proto v) (validate b)"
proof (rule keepsI)
  fix pc assume pc: "same_proto v pc"
  obtain r pc' where r: "validate_dispatch b pc = (r, pc')" by fastforce
  have "keeps (same_proto v) (bindR (buf_index 0 b) (\<lambda>w. if opcode_extract (ucast w) = CONTROL_HARD_RESET_CLIENT_V3
      then ret True else validate_tls_crypt b))"
    by (intro keeps_rules same_validate_crypt)
  then have "same_proto v (snd (validate_dispatch b pc))"
    using pc by (simp add: validate_dispatch_def keeps_snd [OF same_validate_auth] keeps_snd [OF same_validate_crypt]
        keeps_snd [OF same_validate_plain] keeps_snd split: wrap_mode.splits)
  then show "same_proto v (snd (validate b pc))"
    using r by (auto simp: validate_def ret_def split: sum.splits exn.splits)
qed

section \<open>New keys and events\<close>

lemma typed_new_key:
  assumes "session_typed srv s"
  shows "session_typed srv (keep_key w (kc_new D initiator (se_pc s)) s)"
  using keep_key_typed [OF assms, of "pc_upcoming_key_id (se_pc s)" _ "kc_new D initiator (se_pc s)"]
    key_ok_new [of "se_pc s" D initiator] assms next_key_id_bound [of "se_pc s"]
  by (simp add: session_typed_def)

lemma typed_new_secondary: "session_typed srv s \<Longrightarrow> session_typed srv (new_secondary_key D initiator s)"
  by (simp add: new_secondary_key_def typed_new_key)

lemma typed_renegotiate: "keeps (session_typed srv) (renegotiate D)"
  by (rule keepsI) (simp add: renegotiate_def keeps_snd [OF typed_on_slot [OF key_ok_start]] typed_new_secondary)

lemma typed_rekey: "session_typed srv s \<Longrightarrow> session_typed srv (if_slot w (kc_rekey D t) s)"
  by (intro typed_like like_rekey)

lemma typed_reset_event: "session_typed srv s \<Longrightarrow> session_typed srv (if_slot w reset_event s)"
  by (intro typed_like like_reset_event)

lemma typed_events:
  "session_typed srv s \<Longrightarrow> session_typed srv (if_slot w (up (prepare_expire e)) s)"
  "session_typed srv s \<Longrightarrow> session_typed srv (if_slot w (up (kc_invalidate r)) s)"
  "session_typed srv s \<Longrightarrow> session_typed srv (if_slot w (up set_next_event_if_unspecified) s)"
  "session_typed srv s \<Longrightarrow> session_typed srv (if_slot w (up (key_limit_reneg e t)) s)"
  subgoal by (intro typed_up view_simps)
  subgoal by (intro typed_up view_simps)
  subgoal by (intro typed_up view_events)
  subgoal by (intro typed_up view_events)
  done

lemma typed_disconnect: "session_typed srv s \<Longrightarrow> session_typed srv (disconnect e s)"
  by (simp add: disconnect_def typed_events)

lemma typed_error: "session_typed srv s \<Longrightarrow> session_typed srv (session_error e s)"
  by (simp add: session_error_def typed_sepc pc_error_def)

lemma typed_promote: "session_typed srv s \<Longrightarrow> session_typed srv (promote_secondary_to_primary D s)"
  unfolding promote_secondary_to_primary_def
  by (intro typed_events typed_rekey) (auto simp: session_typed_def)

lemma typed_drop: "session_typed srv s \<Longrightarrow> session_typed srv (s\<lparr>se_secondary := None\<rparr>)"
  by (simp add: session_typed_def)

lemma typed_actives: "session_typed srv s \<Longrightarrow> session_typed srv (on_sepc (\<lambda>pc. pc\<lparr>pc_actives := f pc\<rparr>) s)"
  by (simp add: typed_sepc)

lemmas typed_steps = typed_events typed_rekey typed_reset_event typed_disconnect typed_error typed_promote typed_drop
  typed_actives keeps_snd [OF typed_renegotiate]

lemma typed_primary_event: "keeps (session_typed srv) (primary_event D ev)"
  by (rule keepsI) (auto simp: primary_event_def typed_steps split: event_type.splits)

lemma typed_secondary_event: "keeps (session_typed srv) (secondary_event D ev)"
  by (rule keepsI) (auto simp: secondary_event_def typed_steps split: event_type.splits option.splits)

lemma keeps_comp: "keeps Q m \<Longrightarrow> (\<And>s. Q s \<Longrightarrow> Q (f s)) \<Longrightarrow> keeps Q (m \<circ> f)"
  by (auto simp: keeps_def)

lemma typed_process_slot_event:
  "keeps (session_typed srv) (process_primary_event D)" "keeps (session_typed srv) (process_secondary_event D)"
proof -
  have run: "keeps (session_typed srv) (bindS (if e then m \<circ> if_slot w reset_event else ret ()) (\<lambda>_ s. (Inr (), default_next_event w s)))"
    if "keeps (session_typed srv) m" for e w and m :: "(unit, ('a, 'b) session) st"
    by (intro keeps_then keeps_if keeps_comp that keeps_ret keeps_upd) (simp_all add: typed_steps default_next_event_def)
  show "keeps (session_typed srv) (process_primary_event D)" "keeps (session_typed srv) (process_secondary_event D)"
    for D :: "('a, 'b) dc_env"
    by (rule keepsI, simp add: process_primary_event_def Let_def keeps_snd [OF run [OF typed_primary_event]])
      (rule keepsI, simp add: process_secondary_event_def Let_def keeps_snd [OF run [OF typed_secondary_event]])
qed

lemma typed_pending:
  assumes s: "session_typed srv s"
  shows "session_typed srv (snd (pending_at w s))"
proof (cases "key_at w s")
  case (Some c)
  show ?thesis
    using kept_typed [OF s Some, of "snd (event_pending (lend (se_pc s) c))"] lend_ok(1) [OF s Some]
    by (simp add: pending_at_def Some split_beta key_ok_like [OF like_event_pending])
qed (simp add: pending_at_def s)

lemma typed_process_slot:
  fixes m :: "(unit, ('s, 'i) session) st"
  assumes "keeps (session_typed srv) m"
  shows "keeps (session_typed srv) (process_slot w m)"
proof (rule keepsI)
  fix s :: "('s, 'i) session" assume s: "session_typed srv s"
  have run: "keeps (session_typed srv) (bindS m (\<lambda>_. ret True))" by (intro keeps_then assms keeps_ret)
  show "session_typed srv (snd (process_slot w m s))"
    using typed_pending [OF s, of w] keeps_snd [OF run typed_pending [OF s, of w]]
    by (simp add: process_slot_def Let_def split_beta ret_def)
qed

lemma typed_process_events: "keeps (session_typed srv) (process_events D)"
  unfolding process_events_def by (intro keeps_then keeps_ret typed_process_slot typed_process_slot_event)

section \<open>Flushing and housekeeping\<close>

lemma typed_flush_keys: "keepsO (session_typed srv) (flush_keys D)"
  unfolding flush_keys_def by (intro keepsO_bind typed_if_slotO key_ok_flush)

lemma typed_flush_loop: "keepsO (session_typed srv) (flush_loop D)"
proof -
  have "session_typed srv s \<longrightarrow> session_typed srv (snd r)" if "flush_loop D s = Some r" for s r and D :: "('a, 'b) dc_env"
  proof (rule flush_loop.raw_induct [where P = "\<lambda>D s r. session_typed srv s \<longrightarrow> session_typed srv (snd r)", OF _ that], goal_cases)
    case (1 loop D s r)
    show ?case
    proof
      assume s: "session_typed srv s"
      obtain x s1 where x: "flush_keys D s = Some (x, s1)" using 1(2) by (auto split: option.splits)
      have s1: "session_typed srv s1" using keepsOD [OF typed_flush_keys x s] .
      obtain w s2 where w: "process_events D s1 = (w, s2)" by fastforce
      have s2: "session_typed srv s2" using keepsD [OF typed_process_events w s1] .
      show "session_typed srv (snd r)"
        using 1 x w s1 s2 by (auto split: sum.splits if_splits)
    qed
  qed
  then show ?thesis unfolding keepsO_def by fastforce
qed

lemma typed_session_flush: "keepsO (session_typed srv) (session_flush D b)"
proof -
  have tail: "keepsO (session_typed srv) (\<lambda>s. if work then flush_loop D s else Some (Inr (), s))" for work
    using keepsOD [OF typed_flush_loop] by (auto simp: keepsO_def split: if_splits)
  show ?thesis
    unfolding session_flush_def by (cases b) (simp_all add: typed_flush_loop keepsO_bind keepsO_lift typed_process_events tail)
qed

lemma typed_keepalive_send: "keeps (session_typed srv) (keepalive_send D)"
proof (rule keepsI)
  fix s :: "('a, 'b) session" assume s: "session_typed srv s"
  have "keeps (session_typed srv) (bindS (on_slot Primary (send_keepalive D)) (\<lambda>_ s :: ('a, 'b) session. (Inr (), on_sepc update_last_sent s)))"
    unfolding send_keepalive_def
    by (intro keeps_then typed_on_slot key_ok_send_message keeps_upd) (simp add: typed_sepc update_last_sent_def)
  then show "session_typed srv (snd (keepalive_send D s))"
    using s by (simp add: keepalive_send_def keeps_snd)
qed

lemma typed_keepalive: "keeps (session_typed srv) (keepalive_housekeeping D)"
  unfolding keepalive_housekeeping_def
  by (intro keeps_then typed_keepalive_send keeps_upd) (simp add: typed_steps)

lemma typed_housekeeping: "keepsO (session_typed srv) (housekeeping D)"
  unfolding housekeeping_def
  by (intro keepsO_bind keepsO_lift typed_if_slotS key_ok_retransmit typed_session_flush typed_keepalive)

section \<open>Packets and messages\<close>

lemma typed_control_send: "keeps (session_typed srv) (control_send b)"
  by (rule keepsI) (simp add: control_send_def keeps_snd [OF typed_on_slot [OF key_ok_app_send]])

lemma typed_start: "keeps (session_typed srv) session_start"
proof (rule keepsI)
  fix s :: "('s, 'i) session" assume s: "session_typed srv s"
  have "keeps (session_typed srv) (bindS (on_slot Primary (upS kc_start)) (\<lambda>_ s :: ('s, 'i) session. (Inr (), on_sepc last_received s)))"
    by (intro keeps_then typed_on_slot key_ok_start keeps_upd) (simp add: typed_sepc last_received_def)
  then show "session_typed srv (snd (session_start s))"
    using s by (simp add: session_start_def keeps_snd)
qed

lemma typed_control_net_validate: "keeps (session_typed srv) (control_net_validate t b)"
  unfolding control_net_validate_def by (intro keeps_if typed_on_session same_validate keeps_ret)

lemma typed_renegotiate_request: "keeps (session_typed srv) (renegotiate_request D b)"
  unfolding renegotiate_request_def
  by (intro keeps_then typed_on_session same_validate keepsI) (simp add: ret_def typed_new_secondary)

lemma typed_control_net_recv: "keepsO (session_typed srv) (control_net_recv D t b)"
proof -
  have recv: "keepsO (session_typed srv) (\<lambda>s. if \<not> ok then Some (Inr False, s)
       else case select_key_context t True s of
         Inl e \<Rightarrow> Some (Inl e, s)
       | Inr w \<Rightarrow> on_slotO w (upO (kc_net_recv D (packet_of_buffer (pt_opcode t) b))) s)" for ok
    using keepsOD [OF typed_on_slotO [OF key_ok_net_recv]]
    by (auto simp: keepsO_def split: if_splits sum.splits)
  show ?thesis
    unfolding control_net_recv_def
    by (intro keepsO_bind keepsO_lift keeps_if typed_renegotiate_request keeps_ret recv)
qed

lemma typed_on_slot_pkt:
  fixes m :: "(unit, ('s, 'i) pkt) st"
  assumes "\<And>kid nx. keeps (px_ok srv kid nx 1 False) m" and s: "session_typed srv s"
  shows "session_typed srv (snd (snd (on_slot_pkt w m b s)))"
proof (cases "key_at w s")
  case (Some c)
  let ?x = "m \<lparr>px_kc = lend (se_pc s) c, px_buf = b\<rparr>"
  have "px_ok srv (kx_key_id (kckx c)) (pc_upcoming_key_id (se_pc s)) 1 False (snd ?x)"
    by (rule keeps_snd [OF assms(1)]) (use lend_ok(1) [OF s Some] in \<open>simp add: px_ok_def\<close>)
  then show ?thesis
    using kept_typed [OF s Some] by (simp add: on_slot_pkt_def Some split_beta px_ok_def)
qed (simp add: on_slot_pkt_def s)

lemma typed_data:
  assumes s: "session_typed srv s"
  shows "session_typed srv (snd (snd (data_encrypt D b s)))" "session_typed srv (snd (snd (data_decrypt D t b s)))"
proof -
  show "session_typed srv (snd (snd (data_encrypt D b s)))"
    using s typed_on_slot_pkt [OF px_ok_encrypt s] by (simp add: data_encrypt_def)
  have "session_typed srv s'" if "on_slot_pkt w (kc_decrypt D) b s = (r, b', s')" for w r b' s'
    using typed_on_slot_pkt [OF px_ok_decrypt s, of w D b] that by simp
  then show "session_typed srv (snd (snd (data_decrypt D t b s)))"
    using s by (auto simp: data_decrypt_def Let_def typed_sepc last_received_def split: sum.splits prod.splits)
qed

lemma typed_init_data_channel:
  fixes D :: "('s, 'i) dc_env"
  shows "keeps (session_typed srv) (session_init_data_channel D)"
proof (rule keepsI)
  fix s :: "('s, 'i) session" assume s: "session_typed srv s"
  have run: "keeps (session_typed srv) (bindS (if_slotS Primary (kc_init_data_channel D)) (\<lambda>_. if_slotS Secondary (kc_init_data_channel D)))"
    by (intro keeps_then typed_if_slotS key_ok_init_data_channel)
  show "session_typed srv (snd (session_init_data_channel D s))"
    unfolding session_init_data_channel_def by (rule keeps_snd [OF run]) (simp add: typed_sepc s)
qed

lemma typed_exit_notify: "keeps (session_typed srv) (send_explicit_exit_notify D)"
  by (rule keepsI) (simp add: send_explicit_exit_notify_def keeps_snd [OF typed_on_slot [OF key_ok_exit_notify]])

lemma typed_limit_notify: "session_typed srv s \<Longrightarrow> session_typed srv (session_data_limit_notify kid m st s)"
  by (simp add: session_data_limit_notify_def typed_like [OF like_limit(2)])

lemma typed_set_protocol: "session_typed srv s \<Longrightarrow> session_typed srv (session_set_protocol p s)"
  unfolding session_set_protocol_def
  by (intro typed_up) (simp_all add: kc_set_protocol_def kx_view_def config_set_protocol_def typed_sepc)

section \<open>Starting over\<close>

lemma typed_empty:
  "pc_server (se_pc s) = srv \<Longrightarrow> pc_upcoming_key_id (se_pc s) < 8 \<Longrightarrow> se_primary s = None \<Longrightarrow> se_secondary s = None \<Longrightarrow>
   session_typed srv s"
  by (simp add: session_typed_def)

lemma typed_reset_all:
  assumes "session_typed srv s"
  shows "session_typed srv (reset_all D s)"
  using typed_rekey [OF assms, of Primary D DEACTIVATE_ALL] by (simp add: reset_all_def session_typed_def)

lemma same_reset_wrap: "keeps (same_proto v) (reset_wrap g)"
proof -
  have step: "same_proto v (pc\<lparr>pc_ta_pid_send := a, pc_ta_pid_recv := b\<rparr>) = same_proto v pc" for a b pc
    by (simp add: same_proto_def)
  have crypt: "keeps (same_proto v) (reset_tls_crypt_proto k)" "keeps (same_proto v) (reset_tls_crypt_server k)" for k
    by (auto simp: keeps_def reset_tls_crypt_proto_def reset_tls_crypt_server_def Let_def bindR_def ret_def same_proto_def
        split: sum.splits)
  have auth: "keeps (same_proto v) (reset_tls_auth g)"
    by (auto simp: keeps_def reset_tls_auth_def Let_def bindR_def ret_def same_proto_def split: sum.splits)
  have pid: "keeps (same_proto v) (\<lambda>pc. ret () (init_cc_pid pc))"
    by (rule keepsI) (simp add: ret_def init_cc_pid_def step)
  have run: "same_proto v (snd (bindS m (\<lambda>_ pc. ret () (init_cc_pid pc)) pc))"
    if "keeps (same_proto v) m" "same_proto v pc" for m and pc
    by (rule keeps_snd [OF keeps_then [OF that(1) pid] that(2)])
  show ?thesis
    by (rule keepsI) (auto simp: reset_wrap_def ret_def run [unfolded ret_def, OF crypt(1)] run [unfolded ret_def, OF crypt(2)]
        run [unfolded ret_def, OF auth] split: wrap_mode.splits)
qed

lemma typed_randomize: "keeps (session_typed srv) (randomize_psid g)"
  by (rule keepsI) (auto simp: randomize_psid_def bindR_def ret_def session_typed_def on_sepc_def split: sum.splits prod.splits)

text \<open>\<open>reset\<close> makes a session typed whatever it was before, except for the role.\<close>

lemma reset_all_fields:
  "pc_server (se_pc (reset_all D s)) = pc_server (se_pc s)" "se_primary (reset_all D s) = None"
  "se_secondary (reset_all D s) = None"
proof -
  have "kc_stack (kc_rekey D t c) = kc_stack c" for t and c
    by (simp add: kc_rekey_def split: option.splits)
  then have "se_pc (if_slot Primary (kc_rekey D t) s) = se_pc s" for t
    by (simp add: if_slot_def keep_key_def lend_def up_def split: option.splits)
  then show "pc_server (se_pc (reset_all D s)) = pc_server (se_pc s)" by (simp add: reset_all_def)
qed (simp_all add: reset_all_def)

lemma reset_typed:
  assumes "pc_server (se_pc s) = srv"
  shows "session_typed srv (snd (session_reset D g s))"
proof -
  let ?s = "on_sepc (\<lambda>pc. pc\<lparr>pc_upcoming_key_id := 0\<rparr>) (reset_all D (on_sepc (\<lambda>pc. pc\<lparr>pc_dc_deferred := tg_dc_deferred g\<rparr>) s))"
  have "session_typed srv ?s"
    by (rule typed_empty) (simp_all add: on_sepc_def reset_all_fields assms)
  moreover have "keeps (session_typed srv) (bindS (on_session (reset_wrap g)) (\<lambda>_. bindS (randomize_psid g) (\<lambda>_ s.
       (Inr (), on_sepc (update_last_sent \<circ> (\<lambda>pc. pc\<lparr>pc_keepalive_expire := time_infinite\<rparr>)) (new_primary D s)))))"
    by (intro keeps_then typed_on_session same_reset_wrap typed_randomize keeps_upd typed_sepc)
      (simp_all add: update_last_sent_def new_primary_def typed_new_key)
  ultimately show ?thesis unfolding session_reset_def by (rule keeps_snd [rotated])
qed

section \<open>Everything that can happen to a session\<close>

text \<open>
  The calls of a session.  A call of \<open>control_net_recv\<close> or \<open>data_decrypt\<close> may come with any packet type,
  also one that the session has not computed itself.
\<close>

datatype session_call =
    Call_reset tls_cfg
  | Call_start
  | Call_renegotiate
  | Call_flush bool
  | Call_housekeeping
  | Call_control_send buffer
  | Call_control_net_validate packet_type buffer
  | Call_control_net_recv packet_type buffer
  | Call_data_encrypt buffer
  | Call_data_decrypt packet_type buffer
  | Call_init_data_channel
  | Call_disconnect stack_reason
  | Call_send_explicit_exit_notify
  | Call_data_limit_notify u32 dl_mode dl_state
  | Call_disable_keepalive
  | Call_set_protocol protocol
  | Call_pre_destroy

text \<open>The session after a call, thrown exceptions included; \<open>None\<close> if the call does not return.\<close>

fun after_call :: "('s, 'i) dc_env \<Rightarrow> session_call \<Rightarrow> ('s, 'i) session \<Rightarrow> ('s, 'i) session option" where
  "after_call D (Call_reset g) s = Some (snd (session_reset D g s))"
| "after_call D Call_start s = Some (snd (session_start s))"
| "after_call D Call_renegotiate s = Some (snd (renegotiate D s))"
| "after_call D (Call_flush b) s = map_option snd (session_flush D b s)"
| "after_call D Call_housekeeping s = map_option snd (housekeeping D s)"
| "after_call D (Call_control_send b) s = Some (snd (control_send b s))"
| "after_call D (Call_control_net_validate t b) s = Some (snd (control_net_validate t b s))"
| "after_call D (Call_control_net_recv t b) s = map_option snd (control_net_recv D t b s)"
| "after_call D (Call_data_encrypt b) s = Some (snd (snd (data_encrypt D b s)))"
| "after_call D (Call_data_decrypt t b) s = Some (snd (snd (data_decrypt D t b s)))"
| "after_call D Call_init_data_channel s = Some (snd (session_init_data_channel D s))"
| "after_call D (Call_disconnect e) s = Some (disconnect e s)"
| "after_call D Call_send_explicit_exit_notify s = Some (snd (send_explicit_exit_notify D s))"
| "after_call D (Call_data_limit_notify kid m st) s = Some (session_data_limit_notify kid m st s)"
| "after_call D Call_disable_keepalive s = Some (on_sepc (snd \<circ> disable_keepalive) s)"
| "after_call D (Call_set_protocol p) s = Some (session_set_protocol p s)"
| "after_call D Call_pre_destroy s = Some (reset_all D s)"

text \<open>
  A session is made without keys and is reset before anything else is called.  Between calls time
  passes and pushed options change the configuration, so that the members of the session and the
  settings \<open>D\<close> are new for each call; only the role and the next key ID are the session's own.
\<close>

inductive session_reaches :: "bool \<Rightarrow> ('s, 'i) session \<Rightarrow> bool" for server where
  reset: "pc_server (se_pc s) = server \<Longrightarrow> after_call D (Call_reset g) s = Some s' \<Longrightarrow> session_reaches server s'"
| called: "session_reaches server s \<Longrightarrow> after_call D c s = Some s' \<Longrightarrow> session_reaches server s'"
| configured: "session_reaches server s \<Longrightarrow> pc_server pc = pc_server (se_pc s) \<Longrightarrow>
    pc_upcoming_key_id pc = pc_upcoming_key_id (se_pc s) \<Longrightarrow> session_reaches server (s\<lparr>se_pc := pc\<rparr>)"

lemma typed_disable_keepalive: "session_typed srv s \<Longrightarrow> session_typed srv (on_sepc (snd \<circ> disable_keepalive) s)"
  by (rule typed_sepc) (simp_all add: disable_keepalive_def keepalive_parms_modified_def last_received_def Let_def)

lemma typed_call:
  assumes s: "session_typed srv s" and c: "after_call D c s = Some s'"
  shows "session_typed srv s'"
proof (cases c)
  case (Call_reset g)
  then show ?thesis using reset_typed [of s srv D g] s c by (simp add: session_typed_def)
next
  case (Call_flush b)
  then show ?thesis using keepsOD [OF typed_session_flush _ s] c by auto
next
  case Call_housekeeping
  then show ?thesis using keepsOD [OF typed_housekeeping _ s] c by auto
next
  case (Call_control_net_recv t b)
  then show ?thesis using keepsOD [OF typed_control_net_recv _ s] c by auto
qed (use c in \<open>auto simp: typed_steps typed_data [OF s] typed_reset_all typed_limit_notify typed_set_protocol
    typed_disable_keepalive s
    intro: keeps_snd [OF typed_start] keeps_snd [OF typed_renegotiate] keeps_snd [OF typed_control_send]
      keeps_snd [OF typed_control_net_validate] keeps_snd [OF typed_init_data_channel] keeps_snd [OF typed_exit_notify]\<close>)

text \<open>
  C3. Whatever is called on a session after its first reset, in any order, whatever packets arrive and
  whatever is pushed, key IDs fit into their three bits, a key is only in states of its own role, a key
  whose data channel may be used has the object that \<open>encrypt\<close> and \<open>decrypt\<close> dereference, and an active
  key has that object or the key it is to be made from.  The ID 0 is only given to the first key.
\<close>

theorem session_stays_typed:
  assumes "session_reaches server s"
  shows "session_typed server s"
  using assms
proof induction
  case (reset s D g s')
  then show ?case using reset_typed [of s server D g] by simp
next
  case (called s D c s')
  then show ?case using typed_call by blast
next
  case (configured s pc)
  then show ?case by (simp add: session_typed_def)
qed

definition demo_dc_impl :: "unit dc_impl" where
  "demo_dc_impl =
     \<lparr>ci_new = (\<lambda>_. ()), ci_defined = (\<lambda>_. CIPHER_DEFINED OR CRYPTO_DEFINED), ci_encrypt = (\<lambda>_ _ x. (Inr False, x)),
      ci_decrypt = (\<lambda>_ _ x. (Inr Err_SUCCESS, x)), ci_init_cipher = (\<lambda>_ _ x. (Inr (), x)), ci_init_hmac = (\<lambda>_ _ x. (Inr (), x)),
      ci_init_pid = (\<lambda>_ _ _ _ _ x. x), ci_init_remote_peer_id = (\<lambda>_ x. x), ci_consider_compression = (\<lambda>_ _. False),
      ci_explicit_exit_notify = id, ci_rekey = (\<lambda>_ x. x)\<rparr>"

definition demo_dc_env :: "(unit, unit) dc_env" where
  "demo_dc_env =
     \<lparr>de_stack = demo_env_unit, de_base = 0, de_ssl_new = (), de_impl = demo_dc_impl, de_bs64 = False, de_export = None,
      de_encap_overhead = 16, de_comp_type = COMP_NONE, de_lzo = (\<lambda>b. Inr (False, b)), de_comp_lib = (\<lambda>_. None), de_mtu = False,
      de_mssfix = 0, de_le = True\<rparr>"

definition demo_tls_cfg :: tls_cfg where
  "demo_tls_cfg =
     \<lparr>tg_tls_key = alloc_default, tg_auth = None, tg_crypt = None, tg_crypt_v2 = False, tg_key_direction = -1,
      tg_dc_deferred = False, tg_prng_assert = Inr (), tg_prng = (\<lambda>k n. replicate n (of_nat k))\<rparr>"

definition demo_session :: "(unit, unit) session" where
  "demo_session = \<lparr>se_pc = demo_proto TLS_PLAIN, se_primary = None, se_secondary = None, se_prng_calls = 0\<rparr>"

theorem session_stays_typed_witness:
  "session_typed True (snd (snd (data_encrypt demo_dc_env alloc_default
     (snd (renegotiate demo_dc_env (snd (session_reset demo_dc_env demo_tls_cfg demo_session)))))))"
proof (rule session_stays_typed)
  have "session_reaches True (snd (session_reset demo_dc_env demo_tls_cfg demo_session))"
    by (rule session_reaches.reset [of demo_session]) (simp_all add: demo_session_def demo_proto_def)
  then have "session_reaches True (snd (renegotiate demo_dc_env (snd (session_reset demo_dc_env demo_tls_cfg demo_session))))"
    by (rule session_reaches.called [where D = demo_dc_env and c = Call_renegotiate]) simp
  then show "session_reaches True (snd (snd (data_encrypt demo_dc_env alloc_default
     (snd (renegotiate demo_dc_env (snd (session_reset demo_dc_env demo_tls_cfg demo_session)))))))"
    by (rule session_reaches.called [where D = demo_dc_env and c = "Call_data_encrypt alloc_default"]) simp
qed

end
