(* ===== verification/SessionProps.thy ===== *)
theory SessionProps
  imports SessionInv
begin

text \<open>
  How a key goes through its handshake, and how the keys of a session follow each other.
\<close>

section \<open>The life of a key\<close>

text \<open>
  What a session does with one of its keys.  \<open>joined\<close>: between the calls of a key, time passes and the
  members of the session, which the key shares, change; its role does not.
\<close>

inductive key_step :: "('s, 'i) kc \<Rightarrow> ('s, 'i) kc \<Rightarrow> bool" where
  joined: "pc_server pc = pc_server (kcpc c) \<Longrightarrow> key_step c (lend pc c)"
| start: "key_step c (snd (upS kc_start c))"
| flush: "kc_flush D c = Some (r, c') \<Longrightarrow> key_step c c'"
| retransmit: "key_step c (snd (upS (kc_retransmit (D :: ('s, 'i) dc_env)) c))"
| app_send: "key_step c (snd (upS (kc_app_send b) c))"
| net_recv: "upO (kc_net_recv (D :: ('s, 'i) dc_env) p) c = Some (q, c') \<Longrightarrow> key_step c c'"
| encrypt: "key_step c (px_kc (snd (kc_encrypt D \<lparr>px_kc = c, px_buf = b\<rparr>)))"
| decrypt: "key_step c (px_kc (snd (kc_decrypt D \<lparr>px_kc = c, px_buf = b\<rparr>)))"
| send_message: "key_step c (snd (send_data_channel_message D m c))"
| exit_notify: "key_step c (snd (kc_send_explicit_exit_notify D c))"
| init_data_channel: "key_step c (snd (kc_init_data_channel D c))"
| rekey: "key_step c (kc_rekey D t c)"
| limit_notify: "key_step c (kc_data_limit_notify mode st c)"
| pending: "key_step c (snd (event_pending c))"
| reset_event: "key_step c (reset_event c)"
| prepare_expire: "key_step c (up (prepare_expire e) c)"
| next_event: "key_step c (up set_next_event_if_unspecified c)"
| limit_reneg: "key_step c (up (key_limit_reneg e t) c)"
| invalidate: "key_step c (up (kc_invalidate r) c)"
| set_protocol: "key_step c (up (kc_set_protocol p) c)"

definition key_from :: "bool \<Rightarrow> u32 \<Rightarrow> nat \<Rightarrow> ('s, 'i) kc \<Rightarrow> bool" where
  "key_from srv kid n c \<longleftrightarrow> (\<exists>nx. key_ok srv kid nx n False c)"

lemma key_from_keeps: "(\<And>nx. keeps (key_ok srv kid nx n False) m) \<Longrightarrow> key_from srv kid n c \<Longrightarrow> key_from srv kid n (snd (m c))"
  unfolding key_from_def by (elim exE) (rule exI, rule keeps_snd)

lemma key_from_keepsO:
  "(\<And>nx. keepsO (key_ok srv kid nx n False) m) \<Longrightarrow> m c = Some (r, c') \<Longrightarrow> key_from srv kid n c \<Longrightarrow> key_from srv kid n c'"
  unfolding key_from_def by (elim exE) (rule exI, rule keepsOD)

lemma key_from_like: "like c c' \<Longrightarrow> key_from srv kid n c \<Longrightarrow> key_from srv kid n c'"
  unfolding key_from_def using key_ok_like by blast

lemma key_from_pkt:
  assumes "\<And>nx. keeps (px_ok srv kid nx n False) m" and "key_from srv kid n c"
  shows "key_from srv kid n (px_kc (snd (m \<lparr>px_kc = c, px_buf = b\<rparr>)))"
proof -
  from assms(2) obtain nx where "key_ok srv kid nx n False c" by (auto simp: key_from_def)
  then have "px_ok srv kid nx n False (snd (m \<lparr>px_kc = c, px_buf = b\<rparr>))"
    by (intro keeps_snd [OF assms(1)]) (simp add: px_ok_def)
  then show ?thesis by (auto simp: key_from_def px_ok_def)
qed

lemma key_from_joined:
  assumes "pc_server pc = pc_server (kcpc c)" and "key_from srv kid n c"
  shows "key_from srv kid n (lend pc c)"
proof -
  have "key_ok srv kid (pc_upcoming_key_id pc) n False (lend pc c)" if "key_ok srv kid nx n False c" for nx
    using that assms(1) by (simp add: key_ok_def at_stage_def lend_def up_def)
  then show ?thesis using assms(2) by (auto simp: key_from_def)
qed

lemma like_timers: "like c (up (prepare_expire e) c)" "like c (up (kc_invalidate r) c)"
    "like c (up set_next_event_if_unspecified c)" "like c (up (key_limit_reneg e t) c)"
  by (rule like_up, rule view_simps view_events)+

lemma key_step_from: "key_step c c' \<Longrightarrow> key_from srv kid n c \<Longrightarrow> key_from srv kid n c'"
proof (induction rule: key_step.induct)
  case (flush D c r c') then show ?case by (blast intro: key_from_keepsO [OF key_ok_flush])
next
  case (net_recv D p c q c') then show ?case by (blast intro: key_from_keepsO [OF key_ok_net_recv])
next
  case (set_protocol c p)
  have "like c (up (kc_set_protocol p) c)" by (rule like_up) (simp add: kc_set_protocol_def kx_view_def)
  then show ?case by (rule key_from_like) (rule set_protocol)
qed (erule (1) key_from_joined
  | erule key_from_pkt [OF px_ok_encrypt] | erule key_from_pkt [OF px_ok_decrypt]
  | erule key_from_keeps [OF key_ok_start] key_from_keeps [OF key_ok_retransmit] key_from_keeps [OF key_ok_app_send]
      key_from_keeps [OF key_ok_send_message] key_from_keeps [OF key_ok_exit_notify] key_from_keeps [OF key_ok_init_data_channel]
  | erule key_from_like [OF like_rekey] key_from_like [OF like_limit(2)] key_from_like [OF like_event_pending]
      key_from_like [OF like_reset_event] key_from_like [OF like_timers(1)] key_from_like [OF like_timers(2)]
      key_from_like [OF like_timers(3)] key_from_like [OF like_timers(4)])+

text \<open>
  C5. No call, packet, timer or change of the session's settings takes a key out of its role, gives it
  another ID, or takes it back in its handshake: the states are passed in their order, and an active
  key stays active.
\<close>

theorem handshake_only_advances:
  assumes "key_step\<^sup>*\<^sup>* c c'" and "key_typed server c" and "pc_server (kcpc c) = server"
  shows "key_typed server c' \<and> pc_server (kcpc c') = server \<and> kx_key_id (kckx c') = kx_key_id (kckx c)
    \<and> stage server (kx_state (kckx c)) \<le> stage server (kx_state (kckx c'))
    \<and> (kx_state (kckx c) = ACTIVE \<longrightarrow> kx_state (kckx c') = ACTIVE)"
proof -
  let ?n = "stage server (kx_state (kckx c))"
  have "key_from server (kx_key_id (kckx c)) ?n c"
    using assms(2,3) by (auto simp: key_from_def key_ok_def at_stage_def key_typed_def channel_ok_def)
  from assms(1) this have from_c': "key_from server (kx_key_id (kckx c)) ?n c'"
    by (induction rule: rtranclp_induct) (auto intro: key_step_from)
  then have le: "?n \<le> stage server (kx_state (kckx c'))" by (auto simp: key_from_def key_ok_def at_stage_def)
  have "st = ACTIVE" if "stage server st \<ge> 6" for st
    using that by (auto simp: stage_def split: if_splits)
  moreover have "stage server ACTIVE = 6" by (simp add: stage_values)
  ultimately have "kx_state (kckx c) = ACTIVE \<longrightarrow> kx_state (kckx c') = ACTIVE" using le by auto
  then show ?thesis
    using from_c' assms(2) by (auto simp: key_from_def key_ok_def at_stage_def key_typed_def channel_ok_def)
qed

lemma new_key_typed:
  assumes "pc_upcoming_key_id pc < 8"
  shows "key_typed (pc_server pc) (kc_new D initiator pc)"
  using lent_ok_typed [OF key_ok_new assms] .

theorem handshake_only_advances_witness:
  "let c = kc_new demo_dc_env False (demo_proto TLS_PLAIN); c' = up (prepare_expire KEV_NONE) (snd (upS kc_start c))
   in key_typed True c' \<and> kx_key_id (kckx c') = kx_key_id (kckx c)"
proof -
  let ?c = "kc_new demo_dc_env False (demo_proto TLS_PLAIN)"
  let ?d = "snd (upS kc_start ?c)"
  have fields: "pc_server (demo_proto TLS_PLAIN)" "pc_upcoming_key_id (demo_proto TLS_PLAIN) < 8" by (simp_all add: demo_proto_def)
  have steps: "key_step\<^sup>*\<^sup>* ?c (up (prepare_expire KEV_NONE) ?d)"
    by (rule converse_rtranclp_into_rtranclp [of key_step, OF key_step.start r_into_rtranclp]) (rule key_step.prepare_expire)
  have typed: "key_typed True ?c" using new_key_typed [OF fields(2), of demo_dc_env False] fields(1) by simp
  have server: "pc_server (kcpc ?c) = True"
    using key_ok_new [of "demo_proto TLS_PLAIN" demo_dc_env False] fields(1) by (simp add: key_ok_def at_stage_def)
  show ?thesis unfolding Let_def using handshake_only_advances [OF steps typed server] by blast
qed

section \<open>The IDs of successive keys\<close>

lemma next_id_word:
  fixes u :: u32
  assumes "0 < u" and "u < 8"
  shows "(if (u + 1) AND 7 = 0 then 1 else (u + 1) AND 7) = (of_nat (unat u mod 7 + 1) :: u32)"
proof -
  have u: "u = of_nat (unat u)" by simp
  have "0 < unat u" "unat u < 8" using assms by (auto simp: word_less_nat_alt unat_gt_0)
  then have "unat u = 1 \<or> unat u = 2 \<or> unat u = 3 \<or> unat u = 4 \<or> unat u = 5 \<or> unat u = 6 \<or> unat u = 7" by linarith
  then have "u = 1 \<or> u = 2 \<or> u = 3 \<or> u = 4 \<or> u = 5 \<or> u = 6 \<or> u = 7"
    by (elim disjE) (subst u, simp)+
  then show ?thesis by auto
qed

text \<open>The ID that follows \<open>u\<close> after \<open>j\<close> more keys.\<close>

definition id_after :: "nat \<Rightarrow> u32 \<Rightarrow> u32" where
  "id_after j u = of_nat ((unat u - 1 + j) mod 7 + 1)"

lemma unat_id_after: "unat (id_after j u) = (unat u - 1 + j) mod 7 + 1"
proof -
  have "(unat u - 1 + j) mod 7 < 7" by simp
  then show ?thesis unfolding id_after_def by (subst unat_of_nat) (simp add: take_bit_nat_eq_self)
qed

lemma small_unat:
  fixes u :: u32
  assumes "0 < u" and "u < 8"
  shows "0 < unat u" "unat u < 8"
  using assms by (auto simp: word_less_nat_alt unat_gt_0)

lemma id_after_eq:
  fixes u :: u32
  assumes "0 < u" and "u < 8"
  shows "id_after j u = u \<longleftrightarrow> 7 dvd j"
proof -
  obtain m where m: "m < 7" "unat u = m + 1" using small_unat [OF assms] by (cases "unat u") auto
  have "id_after j u = u \<longleftrightarrow> (m + j) mod 7 + 1 = m + 1"
  proof -
    have "id_after j u = u \<longleftrightarrow> unat (id_after j u) = unat u" by (rule word_unat_eq_iff)
    then show ?thesis by (simp add: unat_id_after m(2))
  qed
  also have "\<dots> \<longleftrightarrow> (m + j) mod 7 = m mod 7" using m(1) by simp
  also have "\<dots> \<longleftrightarrow> 7 dvd j" by (subst mod_eq_dvd_iff_nat) simp_all
  finally show ?thesis .
qed

lemma id_after_Suc: "id_after (Suc j) u = id_after 1 (id_after j u)"
proof -
  have "(n + Suc j) mod 7 = ((n + j) mod 7 + 1) mod (7 :: nat)" for n by presburger
  then show ?thesis by (simp add: id_after_def [of _ "id_after j u"] unat_id_after) (simp add: id_after_def)
qed

lemma id_after_bounds: "0 < id_after j u" "id_after j u < 8"
  using unat_id_after [of j u] by (simp_all add: word_less_nat_alt)

lemma upcoming_next:
  assumes "0 < pc_upcoming_key_id pc" and "pc_upcoming_key_id pc < 8"
  shows "pc_upcoming_key_id (snd (next_key_id pc)) = id_after 1 (pc_upcoming_key_id pc)"
proof -
  have "id_after 1 (pc_upcoming_key_id pc) = of_nat (unat (pc_upcoming_key_id pc) mod 7 + 1)"
    using small_unat [OF assms] by (simp add: id_after_def)
  then show ?thesis using next_id_word [OF assms] by (simp add: next_key_id_def Let_def split: if_splits)
qed

section \<open>A renegotiation that the peer does not hear\<close>

lemma renegotiate_ids:
  assumes s: "session_typed srv s" and u: "pc_upcoming_key_id (se_pc s) \<noteq> 0"
  shows "session_typed srv (snd (renegotiate D s))"
    and "\<exists>c. se_secondary (snd (renegotiate D s)) = Some c \<and> kx_key_id (kckx c) = pc_upcoming_key_id (se_pc s)"
    and "pc_upcoming_key_id (se_pc (snd (renegotiate D s))) = id_after 1 (pc_upcoming_key_id (se_pc s))"
proof -
  let ?u = "pc_upcoming_key_id (se_pc s)" and ?c = "kc_new D True (se_pc s)"
  let ?n = "pc_upcoming_key_id (snd (next_key_id (se_pc s)))"
  let ?s = "new_secondary_key D True s"
  have new: "lent_ok srv ?u ?n ?c" using key_ok_new [of "se_pc s" D True] s by (simp add: session_typed_def)
  then have fields: "key_at Secondary ?s = Some ?c" "se_pc ?s = kcpc ?c" "pc_upcoming_key_id (kcpc ?c) = ?n" "kx_key_id (kckx ?c) = ?u"
    by (auto simp: new_secondary_key_def keep_key_def set_key_def key_at_def key_ok_def at_stage_def)
  have "lent_ok srv ?u ?n (lend (se_pc ?s) ?c)"
    using lend_ok(1) [OF typed_new_secondary [OF s] fields(1)] by (simp add: fields)
  then have c': "lent_ok srv ?u ?n (snd (upS kc_start (lend (se_pc ?s) ?c)))" by (rule keeps_snd [OF key_ok_start])
  show "session_typed srv (snd (renegotiate D s))" by (rule keeps_snd [OF typed_renegotiate s])
  have r: "snd (renegotiate D s) = keep_key Secondary (snd (upS kc_start (lend (se_pc ?s) ?c))) ?s"
    by (simp add: renegotiate_def on_slot_def fields split_beta)
  show "\<exists>c. se_secondary (snd (renegotiate D s)) = Some c \<and> kx_key_id (kckx c) = ?u"
    "pc_upcoming_key_id (se_pc (snd (renegotiate D s))) = id_after 1 ?u"
    using c' upcoming_next [of "se_pc s"] u upcoming_bound [OF s]
    by (auto simp: r keep_key_def set_key_def key_ok_def at_stage_def word_neq_0_conv)
qed

abbreviation renegotiated :: "('s, 'i) dc_env \<Rightarrow> nat \<Rightarrow> ('s, 'i) session \<Rightarrow> ('s, 'i) session" where
  "renegotiated D j s \<equiv> ((\<lambda>s. snd (renegotiate D s)) ^^ j) s"

lemma renegotiations_ids:
  assumes s: "session_typed srv s" and u: "pc_upcoming_key_id (se_pc s) \<noteq> 0"
  shows "session_typed srv (renegotiated D j s)
    \<and> pc_upcoming_key_id (se_pc (renegotiated D j s)) = id_after j (pc_upcoming_key_id (se_pc s))"
proof (induction j)
  case 0
  then show ?case
    using s u upcoming_bound [OF s] id_after_eq [of "pc_upcoming_key_id (se_pc s)" 0] by (simp add: word_neq_0_conv)
next
  case (Suc j)
  then have "pc_upcoming_key_id (se_pc (renegotiated D j s)) \<noteq> 0" using id_after_bounds(1) [of j] by (simp add: word_neq_0_conv)
  then show ?case
    using renegotiate_ids(1,3) [of srv "renegotiated D j s" D] Suc id_after_Suc [of j] by simp
qed

lemma secondary_id:
  assumes s: "session_typed srv s" and u: "pc_upcoming_key_id (se_pc s) \<noteq> 0"
  shows "\<exists>c. se_secondary (renegotiated D (Suc j) s) = Some c \<and> kx_key_id (kckx c) = id_after j (pc_upcoming_key_id (se_pc s))"
proof -
  have "pc_upcoming_key_id (se_pc (renegotiated D j s)) \<noteq> 0"
    using renegotiations_ids [OF s u, where D = D and j = j] id_after_bounds(1) [of j] by (simp add: word_neq_0_conv)
  then show ?thesis
    using renegotiate_ids(2) [of srv "renegotiated D j s" D] renegotiations_ids [OF s u, where D = D and j = j] by simp
qed

text \<open>
  C8. Two sessions agree on the ID of the next key, \<open>u\<close>, and one renegotiates \<open>j + 1\<close> times, the soft
  resets before the last being lost.  The peer recognises the soft reset of the last attempt exactly
  if \<open>j\<close> is a multiple of 7, because every attempt takes the next ID, while the peer still expects
  \<open>u\<close>.  Otherwise it drops the packet, unless it is taken for one of a key that has this ID.
\<close>

theorem lost_soft_reset_desynchronises:
  assumes "session_typed srv s" and "pc_upcoming_key_id (se_pc s) = u" and "u \<noteq> 0"
    and "pc_upcoming_key_id (se_pc peer) = u" and "\<not> has_key_id u (se_primary peer)" and "\<not> has_key_id u (se_secondary peer)"
    and "b_size b \<noteq> 0" and "opcode_extract (ucast (content b ! 0)) = CONTROL_SOFT_RESET_V1"
    and "has_key_id (key_id_extract (ucast (content b ! 0))) (se_secondary (renegotiated D (Suc j) s))"
  shows "(pt_is_soft_reset (packet_type_of b peer) \<longleftrightarrow> 7 dvd j) \<and>
    (\<not> 7 dvd j \<and> \<not> has_key_id (id_after j u) (se_primary peer) \<and> \<not> has_key_id (id_after j u) (se_secondary peer) \<longrightarrow>
      control_net_validate (packet_type_of b peer) b peer = (Inr False, peer))"
proof -
  have u: "pc_upcoming_key_id (se_pc s) \<noteq> 0" using assms(2,3) by simp
  have kid: "key_id_extract (ucast (content b ! 0)) = id_after j u"
    using assms(9) secondary_id [OF assms(1) u, where D = D and j = j] assms(2) by (auto simp: has_key_id_def)
  have pt: "packet_type_of b peer = pt_examine_key_id (id_after j u) peer (pt_new\<lparr>pt_flags := PT_CONTROL, pt_opcode := CONTROL_SOFT_RESET_V1\<rparr>)"
    using assms(7,8) kid by (simp add: packet_type_of_def pt_examine_opcode_def Let_def)
  have bound: "0 < u" "u < 8" using assms(1-3) upcoming_bound [OF assms(1)] by (simp_all add: word_neq_0_conv)
  have "pt_is_soft_reset (packet_type_of b peer) \<longleftrightarrow> 7 dvd j"
    using assms(4-6) id_after_eq [OF bound, of j]
    by (auto simp: pt pt_examine_key_id_def pt_is_soft_reset_def PT_CONTROL_def PT_DEFINED_def PT_SECONDARY_def PT_SOFT_RESET_def)
  moreover have "control_net_validate (packet_type_of b peer) b peer = (Inr False, peer)"
    if "\<not> 7 dvd j" "\<not> has_key_id (id_after j u) (se_primary peer)" "\<not> has_key_id (id_after j u) (se_secondary peer)"
    using that assms(4) id_after_eq [OF bound, of j]
    by (auto simp: pt pt_examine_key_id_def pt_is_defined_def control_net_validate_def PT_CONTROL_def PT_DEFINED_def ret_def)
  ultimately show ?thesis by blast
qed

theorem lost_soft_reset_desynchronises_witness:
  "\<not> pt_is_soft_reset (packet_type_of (demo_recv [0x1A]) demo_session)
   \<and> control_net_validate (packet_type_of (demo_recv [0x1A]) demo_session) (demo_recv [0x1A]) demo_session = (Inr False, demo_session)"
proof -
  have s: "session_typed True demo_session" "pc_upcoming_key_id (se_pc demo_session) = 1"
    "se_primary demo_session = None" "se_secondary demo_session = None"
    by (simp_all add: demo_session_def demo_proto_def session_typed_def)
  have id1: "id_after 1 1 = (2 :: u32)" by (simp add: id_after_def)
  have b: "b_size (demo_recv [0x1A]) \<noteq> 0" "opcode_extract (ucast (content (demo_recv [0x1A]) ! 0)) = CONTROL_SOFT_RESET_V1"
    "key_id_extract (ucast (content (demo_recv [0x1A]) ! 0)) = 2"
    by code_simp+
  have "\<exists>c. se_secondary (renegotiated demo_dc_env (Suc 1) demo_session) = Some c \<and> kx_key_id (kckx c) = id_after 1 1"
    using secondary_id [OF s(1), where D = demo_dc_env and j = 1] s(2) by simp
  then have "has_key_id (key_id_extract (ucast (content (demo_recv [0x1A]) ! 0))) (se_secondary (renegotiated demo_dc_env (Suc 1) demo_session))"
    using b(3) id1 by (auto simp: has_key_id_def)
  then show ?thesis
    using lost_soft_reset_desynchronises [OF s(1,2) _ s(2) _ _ b(1,2), where D = demo_dc_env and j = 1] s(3,4) by (simp add: has_key_id_def)
qed

section \<open>A server that has no tls-crypt-v2 key yet\<close>

text \<open>
  After \<open>reset\<close> a tls-crypt-v2 server has no key for received packets until a client's key has been
  unwrapped.  A packet that belongs to the primary key and is not a first packet is validated with the
  null pointer.
\<close>

lemma reset_leaves_server_unkeyed: "pc_tls_crypt_recv (snd (reset_tls_crypt_server key pc)) = None"
  by (simp add: reset_tls_crypt_server_def Let_def bindR_def ret_def split: sum.splits)

lemma unkeyed_server_dereferences_null:
  assumes "pc_wrap_mode pc = TLS_CRYPT_V2" and "pc_tls_crypt_recv pc = None"
    and "buf_index 0 b = Inr v" and "opcode_extract (ucast v) \<noteq> CONTROL_HARD_RESET_CLIENT_V3"
    and "buf_advance 1 b = Inr b1" and "psid_of_buffer b1 = Inr (src, b2)" and "pidr_read_next b2 (pc_ta_pid_recv pc) = Inr (pid, b3)"
    and "buf_advance (pc_hmac_size pc) b3 = Inr b4" and "hmac_offset + pc_hmac_size pc \<le> b_size b"
    and "frame_prepare DECRYPT_WORK (pc_base pc) alloc_default (pc_frame pc) = Inr w"
  shows "validate b pc = (Inl undefined_behaviour, pc)"
  using assms
  by (simp add: validate_def validate_dispatch_def bindR_def validate_tls_crypt_def tls_crypt_open_def with_crypt_def
      split: prod.splits)

end
