(* ===== verification/KeyLimit.thy ===== *)
theory KeyLimit
  imports SessionInv
begin

text \<open>
  What becomes of the renegotiation that a key asks for when it reaches its data limit before it is
  primary.
\<close>

section \<open>Two rounds of events\<close>

text \<open>Two keys: the primary has nothing to do now, the secondary has reached its data limit before it is primary.\<close>

definition limit_queued :: "('s, 'i) kc \<Rightarrow> ('s, 'i) kc \<Rightarrow> time_pt \<Rightarrow> ('s, 'i) session \<Rightarrow> bool" where
  "limit_queued p q T s \<longleftrightarrow> se_primary s = Some p \<and> se_secondary s = Some q
     \<and> kx_current_event (kckx p) = KEV_NONE \<and> pc_now (se_pc s) < kx_next_event_time (kckx p)
     \<and> kx_current_event (kckx q) = KEV_RENEGOTIATE_QUEUE \<and> kx_next_event (kckx q) = KEV_BECOME_PRIMARY
     \<and> kx_next_event_time (kckx q) = T \<and> time_defined T \<and> kx_limit_fired (kckx q) \<and> \<not> k_invalidated (kc_stack q)"

lemma first_pass:
  assumes "limit_queued p q T s"
  shows "\<exists>s1 p1 q1. process_events D s = (Inr True, s1) \<and> se_primary s1 = Some p1 \<and> se_secondary s1 = Some q1 
    \<and> se_pc s1 = se_pc s
    \<and> kckx p1 = (kckx p)\<lparr>kx_next_event := KEV_RENEGOTIATE_FORCE,
         kx_next_event_time := time_add T (dur_seconds (if pc_server (se_pc s) then 2 else 1))\<rparr>
    \<and> kckx q1 = (kckx q)\<lparr>kx_current_event := KEV_NONE\<rparr> \<and> k_invalidated (kc_stack q1) = k_invalidated (kc_stack q)
    \<and> kc_data_limit q1 = kc_data_limit q"
  using assms
  apply (auto simp: limit_queued_def process_events_def process_slot_def pending_at_def event_pending_def key_at_def keep_key_def
      set_key_def lend_def up_def Let_def bindS_def ret_def process_secondary_event_def current_event_def reset_event_def if_slot_def
      secondary_event_def become_primary_time_def key_limit_reneg_def set_event_def set_event_next_def default_next_event_def
      set_next_event_if_unspecified_def not_le on_pc_def on_kx_def)
  done
definition limit_time :: "proto \<Rightarrow> time_pt \<Rightarrow> time_pt" where
  "limit_time pc T = time_add T (dur_seconds (if pc_server pc then 2 else 1))"

lemma rekey_stack [simp]: "kc_stack (kc_rekey D t c) = kc_stack c"
  by (simp add: kc_rekey_def split: option.splits)

text \<open>The primary waits, and the secondary's time to become primary has come.\<close>

lemma pending_waits:
  assumes "key_at w s = Some c" and "kx_current_event (kckx c) = KEV_NONE" and "pc_now (se_pc s) < kx_next_event_time (kckx c)"
  shows "pending_at w s = (False, keep_key w (lend (se_pc s) c) s)"
proof -
  have "event_pending (lend (se_pc s) c) = (False, lend (se_pc s) c)"
    using assms(2,3) by (auto simp: event_pending_def Let_def lend_def up_def on_pc_def not_le)
  then show ?thesis by (simp add: pending_at_def assms(1))
qed

definition becoming_primary :: "proto \<Rightarrow> ('s, 'i) kc \<Rightarrow> ('s, 'i) kc" where
  "becoming_primary pc q = up (set_event_next KEV_BECOME_PRIMARY KEV_RENEGOTIATE
      (time_add (kx_construct_time (kckx q)) (cf_renegotiate (pc_cfg pc)))) (lend pc q)"

lemma pending_primary:
  assumes "key_at w s = Some q" and "kx_current_event (kckx q) = KEV_NONE" and "kx_next_event (kckx q) = KEV_BECOME_PRIMARY"
    and "kx_next_event_time (kckx q) \<le> pc_now (se_pc s)" and "pc_server (se_pc s) \<or> decrypt_green (kc_data_limit q)"
  shows "pending_at w s = (True, keep_key w (becoming_primary (se_pc s) q) s)"
proof -
  have "\<not> data_limit_defer (lend (se_pc s) q)" using assms(5) by (auto simp: data_limit_defer_def lend_def up_def)
  then have "event_pending (lend (se_pc s) q) = (True, becoming_primary (se_pc s) q)"
    using assms(2-4)
    by (simp add: event_pending_def process_next_event_def Let_def becoming_primary_def lend_def up_def on_pc_def on_kx_def
        set_event_next_def)
  then show ?thesis by (simp add: pending_at_def assms(1))
qed

lemma promoted:
  assumes "\<not> k_invalidated (kc_stack q)" and "kx_current_event (kckx q) = KEV_NONE"
  shows "\<exists>s' p' q'. process_secondary_event D (s\<lparr>se_primary := Some p, se_secondary := Some (becoming_primary (se_pc s) q)\<rparr>) = (Inr (), s')
    \<and> se_primary s' = Some q' \<and> se_secondary s' = Some p' \<and> se_pc s' = se_pc s
    \<and> kckx q' = (kckx q)\<lparr>kx_next_event := KEV_RENEGOTIATE,
         kx_next_event_time := time_add (kx_construct_time (kckx q)) (cf_renegotiate (pc_cfg (se_pc s)))\<rparr>
    \<and> kx_current_event (kckx p') = KEV_NONE \<and> kx_next_event (kckx p') = KEV_EXPIRE"
proof -
  let ?q = "becoming_primary (se_pc s) q" and ?s = "s\<lparr>se_primary := Some p, se_secondary := Some (becoming_primary (se_pc s) q)\<rparr>"
  define q2 where "q2 = reset_event (lend (se_pc s) ?q)"
  define s2 where "s2 = promote_secondary_to_primary D (s\<lparr>se_primary := Some p, se_secondary := Some q2\<rparr>)"
  have run: "process_secondary_event D ?s = (Inr (), default_next_event Secondary s2)"
    using assms(1)
    by (simp add: process_secondary_event_def s2_def q2_def current_event_def key_at_def if_slot_def keep_key_def set_key_def
        secondary_event_def bindS_def Let_def key_invalidated_def reset_event_def up_def lend_def set_event_def
        becoming_primary_def set_event_next_def)
  define p3 where "p3 = up (prepare_expire KEV_NONE) (lend (se_pc s) p)"
  define q3 where "q3 = kc_rekey D PRIMARY_SECONDARY_SWAP (lend (se_pc s) q2)"
  have pcs: "kcpc q2 = se_pc s" "kcpc p3 = se_pc s" "kcpc q3 = se_pc s"
    by (simp_all add: q2_def p3_def q3_def reset_event_def up_def lend_def set_event_def prepare_expire_def set_event_next_def)
  then have s2: "s2 = s\<lparr>se_primary := Some q3, se_secondary := Some p3\<rparr>"
    by (simp add: s2_def promote_secondary_to_primary_def if_slot_def key_at_def keep_key_def set_key_def p3_def q3_def)
  define p4 where "p4 = up set_next_event_if_unspecified (lend (se_pc s) p3)"
  have "default_next_event Secondary s2 = s\<lparr>se_primary := Some q3, se_secondary := Some p4\<rparr>"
    using pcs by (simp add: s2 default_next_event_def if_slot_def key_at_def keep_key_def set_key_def p4_def lend_def up_def
        set_next_event_if_unspecified_def p3_def prepare_expire_def set_event_next_def)
  moreover have "kx_current_event (kckx p4) = KEV_NONE" "kx_next_event (kckx p4) = KEV_EXPIRE"
    by (simp_all add: p4_def p3_def up_def lend_def set_next_event_if_unspecified_def prepare_expire_def set_event_next_def)
  moreover have "kckx q3 = (kckx q)\<lparr>kx_next_event := KEV_RENEGOTIATE,
      kx_next_event_time := time_add (kx_construct_time (kckx q)) (cf_renegotiate (pc_cfg (se_pc s)))\<rparr>"
    using assms(2) by (simp add: q3_def q2_def becoming_primary_def reset_event_def up_def lend_def set_event_def set_event_next_def)
  ultimately show ?thesis using run by simp
qed

lemma second_pass:
  assumes "se_primary s = Some p" and "se_secondary s = Some q" and "kx_current_event (kckx p) = KEV_NONE"
    and "pc_now (se_pc s) < kx_next_event_time (kckx p)"
    and "kx_current_event (kckx q) = KEV_NONE" and "kx_next_event (kckx q) = KEV_BECOME_PRIMARY"
    and "kx_next_event_time (kckx q) \<le> pc_now (se_pc s)" and "\<not> k_invalidated (kc_stack q)"
    and "pc_server (se_pc s) \<or> decrypt_green (kc_data_limit q)"
  shows "\<exists>s' p' q'. process_events D s = (Inr True, s') \<and> se_primary s' = Some q' \<and> se_secondary s' = Some p'
    \<and> se_pc s' = se_pc s
    \<and> kckx q' = (kckx q)\<lparr>kx_next_event := KEV_RENEGOTIATE,
         kx_next_event_time := time_add (kx_construct_time (kckx q)) (cf_renegotiate (pc_cfg (se_pc s)))\<rparr>
    \<and> kx_current_event (kckx p') = KEV_NONE \<and> kx_next_event (kckx p') = KEV_EXPIRE"
proof -
  let ?p = "lend (se_pc s) p" and ?q = "becoming_primary (se_pc s) q"
  have "pending_at Primary s = (False, s\<lparr>se_primary := Some ?p\<rparr>)"
    using pending_waits [of Primary s p] assms(1,3,4) by (simp add: key_at_def keep_key_def set_key_def lend_def up_def)
  moreover have "pending_at Secondary (s\<lparr>se_primary := Some ?p\<rparr>) = (True, s\<lparr>se_primary := Some ?p, se_secondary := Some ?q\<rparr>)"
    using pending_primary [of Secondary "s\<lparr>se_primary := Some ?p\<rparr>" q] assms(2,5-7,9)
    by (simp add: key_at_def keep_key_def set_key_def becoming_primary_def lend_def up_def set_event_next_def)
  ultimately have "process_events D s =
      bindS (process_secondary_event D) (\<lambda>_. ret True) (s\<lparr>se_primary := Some ?p, se_secondary := Some ?q\<rparr>)"
    by (simp add: process_events_def process_slot_def bindS_def ret_def split: prod.splits sum.splits)
  then show ?thesis using promoted [OF assms(8,5), of D s ?p] by (auto simp: bindS_def ret_def)
qed

section \<open>The queued renegotiation\<close>

text \<open>
  C21. A key has reached its data limit while it waits to become primary at time \<open>T\<close>.  The next round
  of events gives its request to the primary, to renegotiate a second (two on a server) after \<open>T\<close>.  If
  events are processed between \<open>T\<close> and then, the promotion replaces the request by the expiry of the old
  primary: what the new primary does next is its regular renegotiation, counted from its construction, and
  since its limit has fired no further packet makes it renegotiate sooner.
\<close>

theorem queued_renegotiation_is_dropped:
  fixes s :: "('s, 'i) session"
  assumes "limit_queued p q T s" and "T \<le> t" and "t < limit_time (se_pc s) T"
    and "pc_server (se_pc s) \<or> decrypt_green (kc_data_limit q)"
  shows "\<exists>s1 p1 s2 p2 q2. process_events D s = (Inr True, s1) \<and> se_primary s1 = Some p1
    \<and> kx_next_event (kckx p1) = KEV_RENEGOTIATE_FORCE \<and> kx_next_event_time (kckx p1) = limit_time (se_pc s) T
    \<and> process_events D (on_sepc (\<lambda>pc. pc\<lparr>pc_now := t\<rparr>) s1) = (Inr True, s2)
    \<and> se_primary s2 = Some q2 \<and> se_secondary s2 = Some p2
    \<and> kx_current_event (kckx p2) = KEV_NONE \<and> kx_next_event (kckx p2) = KEV_EXPIRE
    \<and> kx_current_event (kckx q2) = KEV_NONE \<and> kx_next_event (kckx q2) = KEV_RENEGOTIATE
    \<and> kx_next_event_time (kckx q2) = time_add (kx_construct_time (kckx q)) (cf_renegotiate (pc_cfg (se_pc s)))
    \<and> schedule_key_limit_renegotiation (kc_stack q2) = kc_stack q2"
proof -
  obtain s1 p1 q1 where s1: "process_events D s = (Inr True, s1)" "se_primary s1 = Some p1" "se_secondary s1 = Some q1"
    "se_pc s1 = se_pc s" "kckx p1 = (kckx p)\<lparr>kx_next_event := KEV_RENEGOTIATE_FORCE, kx_next_event_time := limit_time (se_pc s) T\<rparr>"
    "kckx q1 = (kckx q)\<lparr>kx_current_event := KEV_NONE\<rparr>" "k_invalidated (kc_stack q1) = k_invalidated (kc_stack q)"
    "kc_data_limit q1 = kc_data_limit q"
    using first_pass [OF assms(1), of D] by (auto simp: limit_time_def)
  note q = assms(1) [unfolded limit_queued_def]
  let ?s = "on_sepc (\<lambda>pc. pc\<lparr>pc_now := t\<rparr>) s1"
  have "\<exists>s2 p2 q2. process_events D ?s = (Inr True, s2) \<and> se_primary s2 = Some q2 \<and> se_secondary s2 = Some p2
    \<and> se_pc s2 = se_pc ?s
    \<and> kckx q2 = (kckx q1)\<lparr>kx_next_event := KEV_RENEGOTIATE,
         kx_next_event_time := time_add (kx_construct_time (kckx q1)) (cf_renegotiate (pc_cfg (se_pc ?s)))\<rparr>
    \<and> kx_current_event (kckx p2) = KEV_NONE \<and> kx_next_event (kckx p2) = KEV_EXPIRE"
    by (rule second_pass [of _ p1 q1]) (use s1 q assms(2-4) in \<open>simp_all add: on_sepc_def\<close>)
  then obtain s2 p2 q2 where s2: "process_events D ?s = (Inr True, s2)" "se_primary s2 = Some q2" "se_secondary s2 = Some p2"
    "kckx q2 = (kckx q)\<lparr>kx_current_event := KEV_NONE, kx_next_event := KEV_RENEGOTIATE,
         kx_next_event_time := time_add (kx_construct_time (kckx q)) (cf_renegotiate (pc_cfg (se_pc s)))\<rparr>"
    "kx_current_event (kckx p2) = KEV_NONE" "kx_next_event (kckx p2) = KEV_EXPIRE"
    using s1(4,6) by (auto simp: on_sepc_def)
  moreover have "schedule_key_limit_renegotiation (kc_stack q2) = kc_stack q2"
    using s2(4) q by (simp add: schedule_key_limit_renegotiation_def)
  ultimately show ?thesis using s1(1,2,5) by (intro exI [of _ s1] exI [of _ p1] exI [of _ s2] exI [of _ p2] exI [of _ q2]) simp
qed

definition demo_timed_key :: "event_type \<Rightarrow> event_type \<Rightarrow> time_pt \<Rightarrow> (unit, unit) kc" where
  "demo_timed_key current nxt t =
     \<lparr>kc_stack = (demo_kst (demo_proto TLS_PLAIN))\<lparr>k_user := \<lparr>u_pc = demo_proto TLS_PLAIN,
        u_kx = demo_kx\<lparr>kx_current_event := current, kx_next_event := nxt, kx_next_event_time := t, kx_limit_fired := True\<rparr>\<rparr>\<rparr>,
      kc_crypto = None, kc_crypto_flags = 0, kc_remote_peer_id = 7, kc_enable_op32 = True, kc_compress = None,
      kc_data_limit = None, kc_data_channel_key = None\<rparr>"

theorem queued_renegotiation_is_dropped_witness:
  "\<exists>s1 s2 p2. process_events demo_dc_env (demo_session\<lparr>se_primary := Some (demo_timed_key KEV_NONE KEV_EXPIRE (Time 90000)),
       se_secondary := Some (demo_timed_key KEV_RENEGOTIATE_QUEUE KEV_BECOME_PRIMARY (Time 1000))\<rparr>) = (Inr True, s1)
   \<and> process_events demo_dc_env (on_sepc (\<lambda>pc. pc\<lparr>pc_now := Time 1000\<rparr>) s1) = (Inr True, s2)
   \<and> se_secondary s2 = Some p2 \<and> kx_next_event (kckx p2) = KEV_EXPIRE"
proof -
  let ?p = "demo_timed_key KEV_NONE KEV_EXPIRE (Time 90000)" and ?q = "demo_timed_key KEV_RENEGOTIATE_QUEUE KEV_BECOME_PRIMARY (Time 1000)"
  let ?s = "demo_session\<lparr>se_primary := Some ?p, se_secondary := Some ?q\<rparr>"
  have q: "limit_queued ?p ?q (Time 1000) ?s"
    by (simp add: limit_queued_def demo_timed_key_def demo_session_def demo_proto_def demo_kst_def less_time_pt_def time_defined_def)
  have t: "Time 1000 \<le> Time 1000" "Time 1000 < limit_time (se_pc ?s) (Time 1000)" "pc_server (se_pc ?s) \<or> decrypt_green (kc_data_limit ?q)"
    by (simp_all add: limit_time_def demo_session_def demo_proto_def) code_simp
  show ?thesis using queued_renegotiation_is_dropped [OF q t, of demo_dc_env] by blast
qed

end
