(* ===== verification/CryptoAlgs.thy ===== *)
theory CryptoAlgs
  imports Prelude "HOL-Library.Char_ord"
begin

text \<open>
  The table of cryptographic algorithms (\<open>crypto/cryptoalgs.hpp\<close>), the choice of a mode for the data
  channel (\<open>crypto/cryptodcsel.hpp\<close>, the contexts of \<open>crypto/crypto_chm.hpp\<close> and
  \<open>crypto/crypto_aead.hpp\<close>) and its settings (\<open>crypto/cryptodc.hpp\<close>).
\<close>

section \<open>Algorithms\<close>

datatype key_derivation = KD_UNDEFINED | OPENVPN_PRF | TLS_EKM

datatype alg_type =
    ALG_NONE
  | AES_128_CBC
  | AES_192_CBC
  | AES_256_CBC
  | DES_CBC
  | DES_EDE3_CBC
  | BF_CBC
  | AES_256_CTR
  | AES_128_GCM
  | AES_192_GCM
  | AES_256_GCM
  | CHACHA20_POLY1305
  | MD4
  | MD5
  | SHA1
  | SHA224
  | SHA256
  | SHA384
  | SHA512
  | ALG_SIZE

text \<open>The enumerators in their order.\<close>

definition alg_types :: "alg_type list" where
  "alg_types =
     [ALG_NONE, AES_128_CBC, AES_192_CBC, AES_256_CBC, DES_CBC, DES_EDE3_CBC, BF_CBC, AES_256_CTR, AES_128_GCM,
      AES_192_GCM, AES_256_GCM, CHACHA20_POLY1305, MD4, MD5, SHA1, SHA224, SHA256, SHA384, SHA512, ALG_SIZE]"

fun index_in :: "'a list \<Rightarrow> 'a \<Rightarrow> nat" where
  "index_in [] a = 0"
| "index_in (x # xs) a = (if x = a then 0 else Suc (index_in xs a))"

definition alg_index :: "alg_type \<Rightarrow> nat" where
  "alg_index t = index_in alg_types t"

definition CBC_HMAC :: u32 where "CBC_HMAC = 1"
definition AEAD_MODE :: u32 where "AEAD_MODE = 2"
definition MODE_MASK :: u32 where "MODE_MASK = 3"
definition F_CIPHER :: u32 where "F_CIPHER = 4"
definition F_DIGEST :: u32 where "F_DIGEST = 8"
definition F_ALLOW_DC :: u32 where "F_ALLOW_DC = 16"
definition F_NO_CIPHER_DIGEST :: u32 where "F_NO_CIPHER_DIGEST = 32"

record alg =
  al_name :: string
  al_flags :: u32
  al_size :: nat
  al_iv_length :: nat
  al_block_size :: nat

definition alg_mode :: "alg \<Rightarrow> u32" where
  "alg_mode a = al_flags a AND MODE_MASK"

definition mk_alg :: "string \<Rightarrow> u32 \<Rightarrow> nat \<Rightarrow> nat \<Rightarrow> nat \<Rightarrow> alg" where
  "mk_alg n f s i b = \<lparr>al_name = n, al_flags = f, al_size = s, al_iv_length = i, al_block_size = b\<rparr>"

definition algs :: "alg list" where
  "algs =
     [mk_alg ''NONE'' (F_CIPHER OR F_DIGEST OR F_ALLOW_DC OR CBC_HMAC) 0 0 0,
      mk_alg ''AES-128-CBC'' (F_CIPHER OR F_ALLOW_DC OR CBC_HMAC) 16 16 16,
      mk_alg ''AES-192-CBC'' (F_CIPHER OR F_ALLOW_DC OR CBC_HMAC) 24 16 16,
      mk_alg ''AES-256-CBC'' (F_CIPHER OR F_ALLOW_DC OR CBC_HMAC) 32 16 16,
      mk_alg ''DES-CBC'' (F_CIPHER OR F_ALLOW_DC OR CBC_HMAC) 8 8 8,
      mk_alg ''DES-EDE3-CBC'' (F_CIPHER OR F_ALLOW_DC OR CBC_HMAC) 24 8 8,
      mk_alg ''BF-CBC'' (F_CIPHER OR F_ALLOW_DC OR CBC_HMAC) 16 8 8,
      mk_alg ''AES-256-CTR'' F_CIPHER 32 16 16,
      mk_alg ''AES-128-GCM'' (F_CIPHER OR F_ALLOW_DC OR AEAD_MODE OR F_NO_CIPHER_DIGEST) 16 12 16,
      mk_alg ''AES-192-GCM'' (F_CIPHER OR F_ALLOW_DC OR AEAD_MODE OR F_NO_CIPHER_DIGEST) 24 12 16,
      mk_alg ''AES-256-GCM'' (F_CIPHER OR F_ALLOW_DC OR AEAD_MODE OR F_NO_CIPHER_DIGEST) 32 12 16,
      mk_alg ''CHACHA20-POLY1305'' (F_CIPHER OR F_ALLOW_DC OR AEAD_MODE OR F_NO_CIPHER_DIGEST) 32 12 16,
      mk_alg ''MD4'' F_DIGEST 16 0 0,
      mk_alg ''MD5'' (F_DIGEST OR F_ALLOW_DC) 16 0 0,
      mk_alg ''SHA1'' (F_DIGEST OR F_ALLOW_DC) 20 0 0,
      mk_alg ''SHA224'' (F_DIGEST OR F_ALLOW_DC) 28 0 0,
      mk_alg ''SHA256'' (F_DIGEST OR F_ALLOW_DC) 32 0 0,
      mk_alg ''SHA384'' (F_DIGEST OR F_ALLOW_DC) 48 0 0,
      mk_alg ''SHA512'' (F_DIGEST OR F_ALLOW_DC) 64 0 0]"

definition alg_defined :: "alg_type \<Rightarrow> bool" where
  "alg_defined t \<longleftrightarrow> t \<noteq> ALG_NONE"

definition alg_get_index :: "nat \<Rightarrow> alg res" where
  "alg_get_index i = (if i \<ge> alg_index ALG_SIZE then Inl crypto_alg_index else Inr (algs ! i))"

definition alg_get :: "alg_type \<Rightarrow> alg res" where
  "alg_get t = alg_get_index (alg_index t)"

text \<open>\<open>strcasecmp\<close> of two strings, which end at a null character, in the C locale.\<close>

definition lower :: "char \<Rightarrow> char" where
  "lower c = (let n = of_char c :: nat in if 65 \<le> n \<and> n \<le> 90 then char_of (n + 32) else c)"

definition c_string :: "string \<Rightarrow> string" where
  "c_string s = takeWhile (\<lambda>c. c \<noteq> CHR 0x00) s"

definition same_nocase :: "string \<Rightarrow> string \<Rightarrow> bool" where
  "same_nocase a b \<longleftrightarrow> map lower (c_string a) = map lower (c_string b)"

text \<open>The loop of \<open>lookup\<close> over the rest of the table.\<close>

fun alg_search :: "string \<Rightarrow> (alg_type \<times> alg) list \<Rightarrow> alg_type res" where
  "alg_search name [] = Inl (crypto_alg (name @ '': not found''))"
| "alg_search name ((t, a) # r) = (if same_nocase name (al_name a) then Inr t else alg_search name r)"

definition alg_lookup :: "string \<Rightarrow> alg_type res" where
  "alg_lookup name = alg_search name (zip alg_types algs)"

definition alg_name :: "alg_type \<Rightarrow> string res" where
  "alg_name t = bindE (alg_get t) (\<lambda>a. Inr (al_name a))"

definition alg_name_or :: "alg_type \<Rightarrow> string \<Rightarrow> string res" where
  "alg_name_or t d = (if t = ALG_NONE then Inr d else alg_name t)"

definition alg_size :: "alg_type \<Rightarrow> nat res" where
  "alg_size t = bindE (alg_get t) (\<lambda>a. Inr (al_size a))"

definition alg_key_length :: "alg_type \<Rightarrow> nat res" where
  "alg_key_length t = bindE (alg_get t) (\<lambda>a. Inr (al_size a))"

definition alg_iv_length :: "alg_type \<Rightarrow> nat res" where
  "alg_iv_length t = bindE (alg_get t) (\<lambda>a. Inr (al_iv_length a))"

definition alg_block_size :: "alg_type \<Rightarrow> nat res" where
  "alg_block_size t = bindE (alg_get t) (\<lambda>a. Inr (al_block_size a))"

definition legal_dc :: "u32 \<Rightarrow> string \<Rightarrow> alg_type \<Rightarrow> alg_type res" where
  "legal_dc flag msg t =
     bindE (alg_get t) (\<lambda>a.
       if al_flags a AND (flag OR F_ALLOW_DC) \<noteq> flag OR F_ALLOW_DC then Inl (crypto_alg (al_name a @ msg)) else Inr t)"

definition legal_dc_cipher :: "alg_type \<Rightarrow> alg_type res" where
  "legal_dc_cipher = legal_dc F_CIPHER '': bad cipher for data channel use''"

definition legal_dc_digest :: "alg_type \<Rightarrow> alg_type res" where
  "legal_dc_digest = legal_dc F_DIGEST '': bad digest for data channel use''"

definition use_cipher_digest :: "alg_type \<Rightarrow> bool res" where
  "use_cipher_digest t = bindE (alg_get t) (\<lambda>a. Inr (al_flags a AND F_NO_CIPHER_DIGEST = 0))"

definition is_bs64_cipher :: "alg_type \<Rightarrow> bool res" where
  "is_bs64_cipher t = bindE (alg_block_size t) (\<lambda>n. Inr (n = 8))"

section \<open>Contexts of the data channel\<close>

datatype dc_ctx =
    Ctx_CHM (cc_cipher: alg_type) (cc_digest: alg_type) (cc_kd: key_derivation)
  | Ctx_AEAD (cc_cipher: alg_type) (cc_kd: key_derivation)

definition chm_context :: "alg_type \<Rightarrow> alg_type \<Rightarrow> key_derivation \<Rightarrow> dc_ctx res" where
  "chm_context c d m =
     bindE (legal_dc_cipher c) (\<lambda>c. bindE (legal_dc_digest d) (\<lambda>d. Inr (Ctx_CHM c d m)))"

definition aead_context :: "alg_type \<Rightarrow> key_derivation \<Rightarrow> dc_ctx res" where
  "aead_context c m = bindE (legal_dc_cipher c) (\<lambda>c. Inr (Ctx_AEAD c m))"

text \<open>\<open>CryptoDCSelect::new_obj\<close>.\<close>

definition dc_select :: "alg_type \<Rightarrow> alg_type \<Rightarrow> key_derivation \<Rightarrow> dc_ctx res" where
  "dc_select c d m =
     bindE (alg_get c) (\<lambda>a.
       if al_flags a AND CBC_HMAC \<noteq> 0 then chm_context c d m
       else if al_flags a AND AEAD_MODE \<noteq> 0 then aead_context c m
       else Inl (crypto_dc_select (al_name a @ '': only CBC/HMAC and AEAD cipher modes supported'')))"

record dc_info =
  inf_cipher :: alg_type
  inf_hmac :: alg_type
  inf_kd :: key_derivation

fun crypto_info :: "dc_ctx \<Rightarrow> dc_info" where
  "crypto_info (Ctx_CHM c d m) = \<lparr>inf_cipher = c, inf_hmac = d, inf_kd = m\<rparr>"
| "crypto_info (Ctx_AEAD c m) = \<lparr>inf_cipher = c, inf_hmac = ALG_NONE, inf_kd = m\<rparr>"

text \<open>\<open>tag_len\<close> is the cipher context's \<open>AUTH_TAG_LEN\<close>.\<close>

fun encap_overhead :: "nat \<Rightarrow> dc_ctx \<Rightarrow> nat res" where
  "encap_overhead tag_len (Ctx_CHM c d m) =
     bindE (alg_size d) (\<lambda>s. bindE (alg_iv_length c) (\<lambda>i. bindE (alg_block_size c) (\<lambda>b. Inr (s + i + b))))"
| "encap_overhead tag_len (Ctx_AEAD c m) = Inr tag_len"

section \<open>Settings\<close>

text \<open>\<open>CryptoDCSettings\<close>; a factory is its \<open>new_obj\<close>.\<close>

type_synonym dc_factory = "alg_type \<Rightarrow> alg_type \<Rightarrow> key_derivation \<Rightarrow> dc_ctx res"

record dc_settings =
  ds_cipher :: alg_type
  ds_digest :: alg_type
  ds_kd :: key_derivation
  ds_factory :: "dc_factory option"
  ds_context :: "dc_ctx option"
  ds_dirty :: bool

definition ds_new :: dc_settings where
  "ds_new = \<lparr>ds_cipher = ALG_NONE, ds_digest = ALG_NONE, ds_kd = OPENVPN_PRF, ds_factory = None, ds_context = None,
     ds_dirty = False\<rparr>"

definition ds_set_factory :: "dc_factory option \<Rightarrow> dc_settings \<Rightarrow> dc_settings" where
  "ds_set_factory f s = s\<lparr>ds_factory := f, ds_context := None, ds_dirty := False\<rparr>"

definition ds_set_cipher :: "alg_type \<Rightarrow> dc_settings \<Rightarrow> dc_settings" where
  "ds_set_cipher c s = (if c \<noteq> ds_cipher s then s\<lparr>ds_cipher := c, ds_dirty := True\<rparr> else s)"

definition ds_set_digest :: "alg_type \<Rightarrow> dc_settings \<Rightarrow> dc_settings" where
  "ds_set_digest d s = (if d \<noteq> ds_digest s then s\<lparr>ds_digest := d, ds_dirty := True\<rparr> else s)"

definition ds_set_key_derivation :: "key_derivation \<Rightarrow> dc_settings \<Rightarrow> dc_settings" where
  "ds_set_key_derivation m s = s\<lparr>ds_kd := m\<rparr>"

definition ds_get_context :: "(dc_ctx, dc_settings) st" where
  "ds_get_context s =
     (if ds_context s = None \<or> ds_dirty s then
        (case ds_factory s of
           None \<Rightarrow> (Inl no_data_channel_factory, s)
         | Some f \<Rightarrow>
             (case f (ds_cipher s) (ds_digest s) (ds_kd s) of
                Inl e \<Rightarrow> (Inl e, s)
              | Inr c \<Rightarrow> (Inr c, s\<lparr>ds_context := Some c, ds_dirty := False\<rparr>)))
      else (Inr (the (ds_context s)), s))"

definition ds_reset :: "dc_settings \<Rightarrow> dc_settings" where
  "ds_reset s = s\<lparr>ds_factory := None, ds_context := None, ds_dirty := False\<rparr>"

definition ds_get_digest :: "dc_settings \<Rightarrow> alg_type res" where
  "ds_get_digest s = bindE (use_cipher_digest (ds_cipher s)) (\<lambda>u. Inr (if u then ds_digest s else ALG_NONE))"

section \<open>Properties of the table\<close>

text \<open>The row of a type.\<close>

lemma alg_get_row: "t \<noteq> ALG_SIZE \<Longrightarrow> alg_get t = Inr (the (map_of (zip alg_types algs) t))"
  by (cases t) (simp_all add: alg_get_def alg_get_index_def alg_index_def alg_types_def algs_def)

lemma alg_get_size: "alg_get ALG_SIZE = Inl crypto_alg_index"
  by (simp add: alg_get_def alg_get_index_def)

lemma alg_search_in:
  assumes "(t, a) \<in> set xs" and "distinct (map (\<lambda>(t, a). map lower (c_string (al_name a))) xs)"
    and "same_nocase name (al_name a)"
  shows "alg_search name xs = Inr t"
  using assms
proof (induction name xs rule: alg_search.induct)
  case (2 name t' a' r)
  show ?case
  proof (cases "(t, a) = (t', a')")
    case False
    then have "(t, a) \<in> set r" using 2(2) by auto
    then have "map lower (c_string (al_name a)) \<noteq> map lower (c_string (al_name a'))" using 2(3) by force
    then have "\<not> same_nocase name (al_name a')" using 2(4) by (simp add: same_nocase_def)
    then show ?thesis using 2 \<open>(t, a) \<in> set r\<close> by simp
  qed (use 2(4) in simp)
qed simp

lemma alg_search_out: "\<forall>(t, a) \<in> set xs. \<not> same_nocase name (al_name a) \<Longrightarrow> \<exists>e. alg_search name xs = Inl e"
  by (induction name xs rule: alg_search.induct) auto

lemma alg_names_distinct: "distinct (map (\<lambda>(t, a). map lower (c_string (al_name a))) (zip alg_types algs))"
  by code_simp

lemma alg_lookup_iff:
  "alg_lookup name = Inr t \<longleftrightarrow> (\<exists>n. alg_name t = Inr n \<and> same_nocase name n)"
proof
  assume r: "alg_lookup name = Inr t"
  then obtain t' a where ta: "(t', a) \<in> set (zip alg_types algs)" "same_nocase name (al_name a)"
    using alg_search_out [of "zip alg_types algs" name] by (fastforce simp: alg_lookup_def)
  then have "t' = t" using r alg_search_in [OF ta(1) alg_names_distinct ta(2)] by (simp add: alg_lookup_def)
  moreover have "t' \<noteq> ALG_SIZE" "map_of (zip alg_types algs) t' = Some a"
    using ta(1) by (auto simp: alg_types_def algs_def)
  ultimately show "\<exists>n. alg_name t = Inr n \<and> same_nocase name n" using ta(2) by (simp add: alg_name_def alg_get_row)
next
  assume "\<exists>n. alg_name t = Inr n \<and> same_nocase name n"
  then obtain a where a: "alg_get t = Inr a" "same_nocase name (al_name a)" by (auto simp: alg_name_def exn_simps)
  then have "t \<noteq> ALG_SIZE" by (auto simp: alg_get_size)
  then have "(t, a) \<in> set (zip alg_types algs)"
    using a(1) by (cases t) (simp_all add: alg_get_row alg_types_def algs_def)
  then show "alg_lookup name = Inr t"
    unfolding alg_lookup_def by (rule alg_search_in [OF _ alg_names_distinct a(2)])
qed

section \<open>Properties of the choice\<close>

text \<open>\<open>new_obj\<close> makes a context exactly for the ciphers allowed in the data channel, in CBC mode with an allowed digest.\<close>

lemmas flag_defs = F_CIPHER_def F_DIGEST_def F_ALLOW_DC_def F_NO_CIPHER_DIGEST_def CBC_HMAC_def AEAD_MODE_def

lemma alg_flags:
  "alg_get t = Inr a \<Longrightarrow> al_flags a =
     (if t = ALG_NONE then 29 else if t \<in> {AES_128_CBC, AES_192_CBC, AES_256_CBC, DES_CBC, DES_EDE3_CBC, BF_CBC} then 21
      else if t = AES_256_CTR then 4 else if t \<in> {AES_128_GCM, AES_192_GCM, AES_256_GCM, CHACHA20_POLY1305} then 54
      else if t = MD4 then 8 else 24)"
  by (cases t) (auto simp: alg_get_size alg_get_row alg_types_def algs_def mk_alg_def flag_defs)

lemma alg_get_ex: "t \<noteq> ALG_SIZE \<Longrightarrow> \<exists>a. alg_get t = Inr a"
  by (simp add: alg_get_row)

definition dc_ciphers :: "alg_type set" where
  "dc_ciphers = {ALG_NONE, AES_128_CBC, AES_192_CBC, AES_256_CBC, DES_CBC, DES_EDE3_CBC, BF_CBC, AES_128_GCM,
     AES_192_GCM, AES_256_GCM, CHACHA20_POLY1305}"

definition dc_digests :: "alg_type set" where
  "dc_digests = {ALG_NONE, MD5, SHA1, SHA224, SHA256, SHA384, SHA512}"

lemma legal_dc_cipher_iff: "legal_dc_cipher t = Inr x \<longleftrightarrow> x = t \<and> t \<in> dc_ciphers"
proof (cases "t = ALG_SIZE")
  case False
  then obtain a where a: "alg_get t = Inr a" using alg_get_ex by blast
  show ?thesis
    using a alg_flags [OF a] by (cases t) (auto simp: legal_dc_cipher_def legal_dc_def flag_defs dc_ciphers_def alg_get_size)
qed (simp add: legal_dc_cipher_def legal_dc_def alg_get_size dc_ciphers_def)

lemma legal_dc_digest_iff: "legal_dc_digest t = Inr x \<longleftrightarrow> x = t \<and> t \<in> dc_digests"
proof (cases "t = ALG_SIZE")
  case False
  then obtain a where a: "alg_get t = Inr a" using alg_get_ex by blast
  show ?thesis
    using a alg_flags [OF a] by (cases t) (auto simp: legal_dc_digest_def legal_dc_def flag_defs dc_digests_def alg_get_size)
qed (simp add: legal_dc_digest_def legal_dc_def alg_get_size dc_digests_def)

lemma dc_select_iff:
  "(\<exists>x. dc_select c d m = Inr x) \<longleftrightarrow>
     c \<in> {AES_128_GCM, AES_192_GCM, AES_256_GCM, CHACHA20_POLY1305}
     \<or> c \<in> {ALG_NONE, AES_128_CBC, AES_192_CBC, AES_256_CBC, DES_CBC, DES_EDE3_CBC, BF_CBC}
       \<and> d \<in> {ALG_NONE, MD5, SHA1, SHA224, SHA256, SHA384, SHA512}"
proof (cases "c = ALG_SIZE")
  case False
  then obtain a where a: "alg_get c = Inr a" using alg_get_ex by blast
  have chm: "(\<exists>x. chm_context c d m = Inr x) \<longleftrightarrow> c \<in> dc_ciphers \<and> d \<in> dc_digests"
    by (auto simp: chm_context_def exn_simps legal_dc_cipher_iff legal_dc_digest_iff)
  have aead: "(\<exists>x. aead_context c m = Inr x) \<longleftrightarrow> c \<in> dc_ciphers"
    by (auto simp: aead_context_def exn_simps legal_dc_cipher_iff)
  have "(\<exists>x. dc_select c d m = Inr x) \<longleftrightarrow>
      (if al_flags a AND 1 \<noteq> 0 then c \<in> dc_ciphers \<and> d \<in> dc_digests else al_flags a AND 2 \<noteq> 0 \<and> c \<in> dc_ciphers)"
    using a chm aead by (simp add: dc_select_def CBC_HMAC_def AEAD_MODE_def)
  then show ?thesis
    using alg_flags [OF a] False by (cases c) (simp_all add: dc_ciphers_def dc_digests_def)
qed (simp add: dc_select_def alg_get_size)

text \<open>The context that \<open>context\<close> gives is the one of the cipher and digest set last.\<close>

definition ds_current :: "dc_settings \<Rightarrow> bool" where
  "ds_current s \<longleftrightarrow> (\<forall>c. ds_context s = Some c \<and> \<not> ds_dirty s \<longrightarrow>
     (\<exists>f m. ds_factory s = Some f \<and> f (ds_cipher s) (ds_digest s) m = Inr c))"

lemma ds_current_kept:
  "ds_current ds_new" "ds_current (ds_set_factory f s)" "ds_current (ds_reset s)"
  "ds_current s \<Longrightarrow> ds_current (ds_set_cipher c s)" "ds_current s \<Longrightarrow> ds_current (ds_set_digest d s)"
  "ds_current s \<Longrightarrow> ds_current (ds_set_key_derivation m s)"
  "ds_current s \<Longrightarrow> ds_current (snd (ds_get_context s))"
  by (auto simp: ds_current_def ds_new_def ds_set_factory_def ds_reset_def ds_set_cipher_def ds_set_digest_def
      ds_set_key_derivation_def ds_get_context_def split: option.splits sum.splits)

lemma ds_get_context_current:
  assumes "ds_current s" and "ds_get_context s = (Inr c, s')"
  shows "\<exists>f m. ds_factory s = Some f \<and> f (ds_cipher s) (ds_digest s) m = Inr c"
  using assms by (auto simp: ds_current_def ds_get_context_def split: if_splits option.splits sum.splits)

end
