(* ===== verification/DataChm.thy ===== *)
theory DataChm
  imports DataCrypto CryptoAlgs
begin

text \<open>
  The CBC mode of the data channel: \<open>CryptoCHM\<close> (\<open>crypto/crypto_chm.hpp\<close>) with \<open>EncryptCHM\<close>,
  \<open>DecryptCHM\<close> and \<open>CipherContext\<close> (\<open>crypto/encrypt_chm.hpp\<close>, \<open>crypto/decrypt_chm.hpp\<close>,
  \<open>crypto/cipher.hpp\<close>).  The cipher and the HMAC of the crypto library are parameters.
\<close>

section \<open>Cipher contexts\<close>

text \<open>
  The library's context: its sizes, whether it is in CBC mode, and what \<open>update\<close> and \<open>final\<close> write for
  an IV and an input, or \<open>None\<close> for an error.
\<close>

record cipher_lib =
  cl_iv_length :: nat
  cl_block_size :: nat
  cl_cbc :: bool
  cl_update :: "u8 list \<Rightarrow> u8 list \<Rightarrow> u8 list option"
  cl_final :: "u8 list \<Rightarrow> u8 list \<Rightarrow> u8 list option"

record cipher_ctx =
  cy_mode :: cipher_mode
  cy_ctx :: "cipher_lib option"

definition cy_uninit :: cipher_ctx where
  "cy_uninit = \<lparr>cy_mode = MODE_UNDEF, cy_ctx = None\<rparr>"

text \<open>\<open>init\<close> with the library's constructor and its \<open>MAX_IV_LENGTH\<close>.\<close>

definition cy_init ::
    "(alg_type \<Rightarrow> u8 list \<Rightarrow> cipher_mode \<Rightarrow> cipher_lib res) \<Rightarrow> nat \<Rightarrow> alg_type \<Rightarrow> u8 list \<Rightarrow> cipher_mode \<Rightarrow> cipher_ctx res" where
  "cy_init new max_iv c key mode =
     bindE (alg_get c) (\<lambda>a.
       if length key < al_size a then Inl cipher_init_insufficient_key_material
       else if al_iv_length a > max_iv then Inl cipher_internal_error
       else bindE (new c key mode) (\<lambda>l. Inr \<lparr>cy_mode = mode, cy_ctx = Some l\<rparr>))"

text \<open>From \<open>inp\<close> to \<open>work.data()\<close>: the number of bytes, 0 on an error, and the work buffer.\<close>

definition cy_encrypt_decrypt :: "cipher_lib \<Rightarrow> u8 list \<Rightarrow> u8 list \<Rightarrow> buffer \<Rightarrow> (nat \<times> buffer) res" where
  "cy_encrypt_decrypt l iv inp w =
     (if buf_max_size w < sz_add (length inp) (cl_block_size l) then Inl cipher_output_buffer
      else case cl_update l iv inp of
        None \<Rightarrow> Inr (0, w)
      | Some x \<Rightarrow>
          bindE (mem_write (b_off w) x w) (\<lambda>w.
            case cl_final l iv inp of
              None \<Rightarrow> Inr (0, w)
            | Some y \<Rightarrow> bindE (mem_write (b_off w + length x) y w) (\<lambda>w. Inr (length x + length y, w))))"

definition cy_run :: "cipher_mode \<Rightarrow> cipher_ctx \<Rightarrow> u8 list \<Rightarrow> u8 list \<Rightarrow> buffer \<Rightarrow> (nat \<times> buffer) res" where
  "cy_run mode c iv inp w =
     (if cy_mode c \<noteq> mode then Inl cipher_mode_error
      else case cy_ctx c of None \<Rightarrow> Inl mbedtls_cipher_uninitialized | Some l \<Rightarrow> cy_encrypt_decrypt l iv inp w)"

section \<open>The state\<close>

text \<open>
  \<open>None\<close> for an HMAC that is not initialized.  \<open>m_rng\<close> is the random generator with the number of its
  calls, \<open>m_mem\<close> where the tags that are compared lie, \<open>m_errors\<close> what goes to the statistics.
\<close>

record chm =
  m_frame :: frame
  m_base :: nat
  m_mem :: mem_place
  m_rng :: rng
  m_rng_calls :: nat
  m_e_cipher :: cipher_ctx
  m_e_hmac :: "hmac_ctx option"
  m_e_pid_send :: pid_send
  m_e_work :: buffer
  m_d_cipher :: cipher_ctx
  m_d_hmac :: "hmac_ctx option"
  m_d_pid_recv :: pid_recv
  m_d_work :: buffer
  m_errors :: "pkt_err list"

section \<open>Encryption\<close>

definition prepend_hmac :: "hmac_ctx option \<Rightarrow> buffer \<Rightarrow> buffer res" where
  "prepend_hmac h b =
     (case h of
        None \<Rightarrow> Inr b
      | Some h \<Rightarrow> let c = content b in
          bindE (buf_prepend_alloc (hm_size h) b) (\<lambda>(p, b). mem_write p (hm_mac h c) b))"

text \<open>A fresh packet ID in front of the clear text.\<close>

definition chm_write_id :: "int \<Rightarrow> (unit, chm dcx) st" where
  "chm_write_id now s =
     (let (r, ps) = pids_write_next True now (dx_buf s) (m_e_pid_send (dx_obj s));
          s = on_obj (\<lambda>a. a\<lparr>m_e_pid_send := ps\<rparr>) s in
      case r of Inl e \<Rightarrow> (Inl e, s) | Inr b \<Rightarrow> (Inr (), s\<lparr>dx_buf := b\<rparr>))"

definition on_me_work :: "(chm dcx \<Rightarrow> buffer \<Rightarrow> ('a \<times> buffer) res) \<Rightarrow> ('a, chm dcx) st" where
  "on_me_work f s =
     (case f s (m_e_work (dx_obj s)) of Inl e \<Rightarrow> (Inl e, s)
      | Inr (a, w) \<Rightarrow> (Inr a, on_obj (\<lambda>a. a\<lparr>m_e_work := w\<rparr>) s))"

definition chm_random_iv :: "nat \<Rightarrow> (u8 list, chm dcx) st" where
  "chm_random_iv n s =
     (Inr (m_rng (dx_obj s) (m_rng_calls (dx_obj s)) n), on_obj (\<lambda>a. a\<lparr>m_rng_calls := m_rng_calls a + 1\<rparr>) s)"

text \<open>The IV, the IV's HMAC and the swap, once the cipher text is in the work buffer.\<close>

definition chm_finish_work :: "u8 list \<Rightarrow> nat \<Rightarrow> (unit, chm dcx) st" where
  "chm_finish_work iv n =
     bindS (on_me_work (\<lambda>_ w. bindE (buf_set_size n w) (\<lambda>w. Inr ((), w)))) (\<lambda>_.
     bindS (on_me_work (\<lambda>_ w. bindE (buf_prepend iv w) (\<lambda>w. Inr ((), w)))) (\<lambda>_.
     bindS (on_me_work (\<lambda>s w. bindE (prepend_hmac (m_e_hmac (dx_obj s)) w) (\<lambda>w. Inr ((), w)))) (\<lambda>_ s.
       (Inr (), \<lparr>dx_obj = (dx_obj s)\<lparr>m_e_work := dx_buf s\<rparr>, dx_buf = m_e_work (dx_obj s)\<rparr>))))"

definition chm_encrypt_cipher :: "int \<Rightarrow> cipher_lib \<Rightarrow> (unit, chm dcx) st" where
  "chm_encrypt_cipher now l =
     (if cl_cbc l then
        bindS (chm_random_iv (cl_iv_length l)) (\<lambda>iv.
        bindS (chm_write_id now) (\<lambda>_.
        bindS (on_me_work (\<lambda>s w. bindE (frame_prepare ENCRYPT_WORK (m_base (dx_obj s)) w (m_frame (dx_obj s)))
                 (\<lambda>(_, w). Inr ((), w)))) (\<lambda>_.
        bindS (on_me_work (\<lambda>s. cy_run MODE_ENCRYPT (m_e_cipher (dx_obj s)) iv (content (dx_buf s)))) (\<lambda>n.
          if n = 0 then (\<lambda>s. (Inr (), s\<lparr>dx_buf := buf_reset_size (dx_buf s)\<rparr>))
          else chm_finish_work iv n))))
      else (\<lambda>s. (Inl chm_unsupported_cipher_mode, s)))"

definition chm_encrypt_plain :: "int \<Rightarrow> (unit, chm dcx) st" where
  "chm_encrypt_plain now =
     bindS (chm_write_id now) (\<lambda>_. on_dbuf (\<lambda>s. prepend_hmac (m_e_hmac (dx_obj s))))"

text \<open>Returns whether the packet ID is close to wrapping.\<close>

definition chm_encrypt :: "int \<Rightarrow> (bool, chm dcx) st" where
  "chm_encrypt now s =
     bindS (\<lambda>s.
       if b_size (dx_buf s) = 0 then (Inr (), s)
       else case cy_ctx (m_e_cipher (dx_obj s)) of
         Some l \<Rightarrow> chm_encrypt_cipher now l s
       | None \<Rightarrow> chm_encrypt_plain now s) (\<lambda>_ s.
     (Inr (pids_wrap_warning (m_e_pid_send (dx_obj s))), s)) s"

section \<open>Decryption\<close>

text \<open>The HMAC in front is taken off and compared.\<close>

definition chm_check_hmac :: "(bool, chm dcx) st" where
  "chm_check_hmac s =
     (case m_d_hmac (dx_obj s) of
        None \<Rightarrow> (Inr True, s)
      | Some h \<Rightarrow>
          bindS (dx_read_alloc (hm_size h)) (\<lambda>p s.
            (bindE (mem_read p (hm_size h) (dx_buf s)) (\<lambda>tag.
               case m_mem (dx_obj s) of (ar, pa, pb) \<Rightarrow>
                 Inr (\<not> memneq ar (pa, hm_mac h (content (dx_buf s))) (pb, tag) (hm_size h))), s)) s)"

definition on_md_work :: "(chm dcx \<Rightarrow> buffer \<Rightarrow> ('a \<times> buffer) res) \<Rightarrow> ('a, chm dcx) st" where
  "on_md_work f s =
     (case f s (m_d_work (dx_obj s)) of Inl e \<Rightarrow> (Inl e, s)
      | Inr (a, w) \<Rightarrow> (Inr a, on_obj (\<lambda>a. a\<lparr>m_d_work := w\<rparr>) s))"

definition dx_read :: "nat \<Rightarrow> (u8 list, 'i dcx) st" where
  "dx_read n s = (case buf_read n (dx_buf s) of Inl e \<Rightarrow> (Inl e, s) | Inr (d, b) \<Rightarrow> (Inr d, s\<lparr>dx_buf := b\<rparr>))"

text \<open>\<open>verify_packet_id\<close> of the buffer \<open>get\<close> gives, which it advances with \<open>put\<close>.\<close>

definition chm_verify_id :: "int \<Rightarrow> buffer \<Rightarrow> chm \<Rightarrow> (bool \<times> buffer \<times> pid_recv \<times> pkt_err list) res" where
  "chm_verify_id now b a =
     (let pr = m_d_pid_recv a in
      if r_initialized pr then
        bindE (pidr_read_next b pr) (\<lambda>(pid, b).
        bindE (pidr_test_add pid now True pr) (\<lambda>(ok, err, pr).
          Inr (ok, b, pr, case err of None \<Rightarrow> [] | Some e \<Rightarrow> [e])))
      else Inr (True, b, pr, []))"

definition chm_verified :: "pid_recv \<Rightarrow> pkt_err list \<Rightarrow> chm \<Rightarrow> chm" where
  "chm_verified pr es a = a\<lparr>m_d_pid_recv := pr, m_errors := m_errors a @ es\<rparr>"

definition chm_verify_work :: "int \<Rightarrow> (bool, chm dcx) st" where
  "chm_verify_work now s =
     (case chm_verify_id now (m_d_work (dx_obj s)) (dx_obj s) of
        Inl e \<Rightarrow> (Inl e, s)
      | Inr (ok, w, pr, es) \<Rightarrow> (Inr ok, on_obj (chm_verified pr es \<circ> m_d_work_update (\<lambda>_. w)) s))"

definition chm_verify_buf :: "int \<Rightarrow> (bool, chm dcx) st" where
  "chm_verify_buf now s =
     (case chm_verify_id now (dx_buf s) (dx_obj s) of
        Inl e \<Rightarrow> (Inl e, s)
      | Inr (ok, b, pr, es) \<Rightarrow> (Inr ok, on_obj (chm_verified pr es) (s\<lparr>dx_buf := b\<rparr>)))"

definition chm_decrypt_cipher :: "int \<Rightarrow> cipher_lib \<Rightarrow> (stack_reason, chm dcx) st" where
  "chm_decrypt_cipher now l =
     bindS (dx_read (cl_iv_length l)) (\<lambda>iv.
     bindS (on_md_work (\<lambda>s w. bindE (frame_prepare DECRYPT_WORK (m_base (dx_obj s)) w (m_frame (dx_obj s)))
              (\<lambda>(_, w). Inr ((), w)))) (\<lambda>_.
     bindS (on_md_work (\<lambda>s. cy_run MODE_DECRYPT (m_d_cipher (dx_obj s)) iv (content (dx_buf s)))) (\<lambda>n.
       if n = 0 then dc_fail Err_DECRYPT_ERROR
       else
         bindS (on_md_work (\<lambda>_ w. bindE (buf_set_size n w) (\<lambda>w. Inr ((), w)))) (\<lambda>_.
           if cl_cbc l then
             bindS (chm_verify_work now) (\<lambda>ok.
               if \<not> ok then dc_fail Err_REPLAY_ERROR
               else (\<lambda>s. dc_return Err_SUCCESS
                 \<lparr>dx_obj = (dx_obj s)\<lparr>m_d_work := dx_buf s\<rparr>, dx_buf = m_d_work (dx_obj s)\<rparr>))
           else (\<lambda>s. (Inl chm_unsupported_cipher_mode, s))))))"

definition chm_decrypt_plain :: "int \<Rightarrow> (stack_reason, chm dcx) st" where
  "chm_decrypt_plain now =
     bindS (chm_verify_buf now) (\<lambda>ok. if \<not> ok then dc_fail Err_REPLAY_ERROR else dc_return Err_SUCCESS)"

definition chm_decrypt :: "int \<Rightarrow> (stack_reason, chm dcx) st" where
  "chm_decrypt now s =
     (if b_size (dx_buf s) = 0 then dc_return Err_SUCCESS s
      else
        bindS chm_check_hmac (\<lambda>ok s.
          if \<not> ok then dc_fail Err_HMAC_ERROR s
          else case cy_ctx (m_d_cipher (dx_obj s)) of
            Some l \<Rightarrow> chm_decrypt_cipher now l s
          | None \<Rightarrow> chm_decrypt_plain now s) s)"

section \<open>Initialization\<close>

text \<open>\<open>prng\<close> is what \<open>assert_crypto\<close> of the generator does.  A context is initialized once.\<close>

definition pidr_uninit :: pid_recv where
  "pidr_uninit = (pidr_init 0 SHORT_FORM [] 0)\<lparr>r_initialized := False\<rparr>"

definition chm_new :: "unit res \<Rightarrow> frame \<Rightarrow> nat \<Rightarrow> mem_place \<Rightarrow> rng \<Rightarrow> nat \<Rightarrow> chm res" where
  "chm_new prng f base mem r calls =
     bindE prng (\<lambda>_. Inr
     \<lparr>m_frame = f, m_base = base, m_mem = mem, m_rng = r, m_rng_calls = calls, m_e_cipher = cy_uninit, m_e_hmac = None,
      m_e_pid_send = pids_default, m_e_work = alloc_default, m_d_cipher = cy_uninit, m_d_hmac = None,
      m_d_pid_recv = pidr_uninit, m_d_work = alloc_default, m_errors = []\<rparr>)"

definition chm_init_cipher ::
    "(alg_type \<Rightarrow> u8 list \<Rightarrow> cipher_mode \<Rightarrow> cipher_lib res) \<Rightarrow> nat \<Rightarrow> alg_type \<Rightarrow> u8 list \<Rightarrow> u8 list \<Rightarrow> (unit, chm) st" where
  "chm_init_cipher new max_iv c encrypt_key decrypt_key a =
     (case cy_init new max_iv c encrypt_key MODE_ENCRYPT of
        Inl e \<Rightarrow> (Inl e, a)
      | Inr x \<Rightarrow>
          (let a = a\<lparr>m_e_cipher := x\<rparr> in
           case cy_init new max_iv c decrypt_key MODE_DECRYPT of
             Inl e \<Rightarrow> (Inl e, a) | Inr x \<Rightarrow> (Inr (), a\<lparr>m_d_cipher := x\<rparr>)))"

definition chm_init_hmac ::
    "(alg_type \<Rightarrow> u8 list \<Rightarrow> hmac_ctx) \<Rightarrow> alg_type \<Rightarrow> u8 list \<Rightarrow> u8 list \<Rightarrow> (unit, chm) st" where
  "chm_init_hmac new d encrypt_key decrypt_key a =
     (case bindE (alg_size d) (\<lambda>n. ovpn_hmac_init (new d) n encrypt_key) of
        Inl e \<Rightarrow> (Inl e, a)
      | Inr h \<Rightarrow>
          (let a = a\<lparr>m_e_hmac := Some h\<rparr> in
           case bindE (alg_size d) (\<lambda>n. ovpn_hmac_init (new d) n decrypt_key) of
             Inl e \<Rightarrow> (Inl e, a) | Inr h \<Rightarrow> (Inr (), a\<lparr>m_d_hmac := Some h\<rparr>)))"

definition chm_init_pid :: "int \<Rightarrow> int \<Rightarrow> int \<Rightarrow> string \<Rightarrow> int \<Rightarrow> chm \<Rightarrow> chm" where
  "chm_init_pid send_form recv_mode recv_form name unit a =
     a\<lparr>m_e_pid_send := pids_init send_form, m_d_pid_recv := pidr_init recv_mode recv_form name unit\<rparr>"

definition chm_defined :: "alg_type \<Rightarrow> alg_type \<Rightarrow> u32" where
  "chm_defined c d =
     CRYPTO_DEFINED OR (if alg_defined c then CIPHER_DEFINED else 0) OR (if alg_defined d then HMAC_DEFINED else 0)"

end
