(* ===== verification/DataChmProps.thy ===== *)
theory DataChmProps
  imports DataChm DataCryptoProps
begin

text \<open>
  Properties of the CBC mode of the data channel: the round trip between two ends, and that a packet
  without the right HMAC is dropped before anything else is looked at.
\<close>

section \<open>Steps\<close>

abbreviation advance :: "nat \<Rightarrow> buffer \<Rightarrow> buffer" where
  "advance n b \<equiv> b\<lparr>b_off := b_off b + n, b_size := b_size b - n\<rparr>"

lemma buf_wf_skip: "buf_wf b \<Longrightarrow> n \<le> b_size b \<Longrightarrow> buf_wf (advance n b)"
  by (simp add: buf_wf_def)

lemma skip_prefix:
  assumes "buf_wf b" and "content b = p @ rest"
  shows "length p \<le> b_size b" "content (advance (length p) b) = rest" "buf_wf (advance (length p) b)"
    "buf_read (length p) b = Inr (p, advance (length p) b)"
    "buf_read_alloc (length p) b = Inr (b_off b, advance (length p) b)"
    "slice (b_off b) (length p) (b_data b) = p" "b_off b + length p \<le> length (b_data b)"
proof -
  have "b_size b = length p + length rest" using length_content [OF assms(1)] assms(2) by simp
  then show n: "length p \<le> b_size b" by simp
  show "content (advance (length p) b) = rest" using content_advance [OF n] assms(2) by simp
  show "buf_wf (advance (length p) b)" using buf_wf_skip [OF assms(1) n] .
  show "buf_read (length p) b = Inr (p, advance (length p) b)" using n assms(2) by (simp add: buf_read_eq)
  show "buf_read_alloc (length p) b = Inr (b_off b, advance (length p) b)" using n by (simp add: buf_read_alloc_def)
  have "slice (b_off b) (length p) (b_data b) = take (length p) (content b)"
    using n by (simp add: content_def slice_take_prefix)
  then show "slice (b_off b) (length p) (b_data b) = p" using assms(2) by simp
  show "b_off b + length p \<le> length (b_data b)" using assms(1) n by (simp add: buf_wf_def)
qed

text \<open>The output of a cipher in an empty work buffer.\<close>

lemma cipher_output:
  assumes w: "buf_wf w" "b_size w = 0" "b_off w + (length y + length z) \<le> b_cap w"
  obtains w1 w2 where "mem_write (b_off w) y w = Inr w1" and "mem_write (b_off w1 + length y) z w1 = Inr w2"
    and "buf_set_size (length y + length z) w2 = Inr (w2\<lparr>b_size := length y + length z\<rparr>)"
    and "content (w2\<lparr>b_size := length y + length z\<rparr>) = y @ z" and "buf_wf (w2\<lparr>b_size := length y + length z\<rparr>)"
    and "b_off w2 = b_off w" and "b_kind w2 = b_kind w" and "b_cap w2 = b_cap w" and "buf_wf w2"
proof -
  have len: "b_off w + (length y + length z) \<le> length (b_data w)" using w by (simp add: buf_wf_def)
  define w1 where "w1 = w\<lparr>b_data := blit (b_data w) (b_off w) y\<rparr>"
  define w2 where "w2 = w1\<lparr>b_data := blit (b_data w1) (b_off w + length y) z\<rparr>"
  have d1: "length (b_data w1) = length (b_data w)" using len by (simp add: w1_def)
  have d2: "length (b_data w2) = length (b_data w)" using len d1 by (simp add: w2_def)
  have "slice (b_off w) (length y) (b_data w2) = y"
    using len d1 by (simp add: w2_def slice_blit_before) (simp add: w1_def slice_blit_same)
  moreover have "slice (b_off w + length y) (length z) (b_data w2) = z"
    using len d1 by (simp add: w2_def slice_blit_same)
  ultimately have c: "content (w2\<lparr>b_size := length y + length z\<rparr>) = y @ z"
    by (simp add: content_def slice_split w2_def w1_def)
  have wf: "buf_wf w2" "buf_wf (w2\<lparr>b_size := length y + length z\<rparr>)"
    using w d2 by (simp_all add: buf_wf_def w2_def w1_def)
  have "buf_set_size (length y + length z) w2 = Inr (w2\<lparr>b_size := length y + length z\<rparr>)"
    using w wf(1) buf_max_size_eq [OF wf(1)] by (simp add: buf_set_size_def w2_def w1_def)
  with len d1 show thesis
    by (intro that [of w1 w2] c wf) (simp_all add: mem_write_def w1_def w2_def)
qed

section \<open>Decryption\<close>

text \<open>\<open>inner\<close>, the packet behind the HMAC, carries ID \<open>i\<close> and the bytes \<open>x\<close> for a cipher context with room \<open>n\<close>.\<close>

definition carries :: "nat \<Rightarrow> cipher_ctx \<Rightarrow> u8 list \<Rightarrow> u32 \<Rightarrow> u8 list \<Rightarrow> bool" where
  "carries n c inner i x \<longleftrightarrow>
     (case cy_ctx c of
        None \<Rightarrow> inner = be32 i @ x
      | Some l \<Rightarrow> cy_mode c = MODE_DECRYPT \<and> cl_cbc l \<and> 0 < cl_iv_length l \<and>
          (\<exists>iv ct y z. inner = iv @ ct \<and> length iv = cl_iv_length l \<and> length ct + cl_block_size l \<le> n
             \<and> cl_update l iv ct = Some y \<and> cl_final l iv ct = Some z \<and> y @ z = be32 i @ x
             \<and> length y + length z \<le> length ct + cl_block_size l))"

definition chm_recv_ok :: "nat \<Rightarrow> (int \<times> nat) set \<Rightarrow> chm \<Rightarrow> bool" where
  "chm_recv_ok k A a \<longleftrightarrow> ctx_ok k (m_frame a ! DECRYPT_WORK) \<and> buf_wf (m_d_work a) \<and> b_kind (m_d_work a) \<noteq> Plain
     \<and> pidr_inv A (m_d_pid_recv a) \<and> r_form (m_d_pid_recv a) \<noteq> LONG_FORM"

abbreviation chm_verdict :: "(int \<times> nat) set \<Rightarrow> int \<Rightarrow> chm \<Rightarrow> u32 \<Rightarrow> pkt_err" where
  "chm_verdict A now a i \<equiv> pidr_verdict A (pidr_expire now (m_d_pid_recv a)) \<lparr>p_id = i, p_time = 0\<rparr>"

lemma chm_verify:
  assumes b: "buf_wf b" "content b = be32 i @ x"
    and r: "pidr_inv A (m_d_pid_recv a)" "r_form (m_d_pid_recv a) \<noteq> LONG_FORM"
  obtains b' pr es where "chm_verify_id now b a = Inr (chm_verdict A now a i = SUCCESS, b', pr, es)"
    and "buf_wf b'" and "content b' = x" and "r_form pr \<noteq> LONG_FORM"
    and "pidr_inv (if chm_verdict A now a i = SUCCESS then insert (0, unat i) A else A) pr"
proof -
  let ?pr = "m_d_pid_recv a" and ?p = "\<lparr>p_id = i, p_time = 0 :: int\<rparr>"
  have "\<exists>b'. pid_read (r_form ?pr) b = Inr (?p, b') \<and> buf_wf b' \<and> content b' = x"
    using pid_read_prefix [OF b(1), of 0 i "r_form ?pr" x] b(2) r(2) by simp
  then obtain b' where b': "pid_read (r_form ?pr) b = Inr (?p, b')" "buf_wf b'" "content b' = x" by blast
  define v where "v = chm_verdict A now a i"
  obtain pr where pr: "pidr_do_test_add ?p now True ?pr = Inr (v, pr)"
    "pidr_inv (if v = SUCCESS then insert (0, unat i) A else A) pr"
    using pidr_do_test_add_spec [OF r(1), of ?p now True] by (auto simp: v_def split: if_splits)
  have "r_form pr \<noteq> LONG_FORM" using pidr_do_test_add_form [OF pr(1)] r(2) by simp
  moreover have "chm_verify_id now b a = Inr (v = SUCCESS, b', pr, if v \<noteq> SUCCESS then [v] else [])"
    using b'(1) pr(1) pidr_invD(1) [OF r(1)]
    by (simp add: chm_verify_id_def Let_def pidr_read_next_def pidr_test_add_def)
  ultimately show thesis using that b'(2,3) pr(2) by (simp add: v_def)
qed

lemma chm_check:
  assumes b: "buf_wf (dx_buf s)" "content (dx_buf s) = tag @ inner"
    and h: "case m_d_hmac (dx_obj s) of None \<Rightarrow> tag = []
      | Some h \<Rightarrow> length tag = hm_size h \<and> length (hm_mac h inner) = hm_size h"
  shows "chm_check_hmac s = (Inr (case m_d_hmac (dx_obj s) of None \<Rightarrow> True | Some h \<Rightarrow> hm_mac h inner = tag),
    s\<lparr>dx_buf := advance (length tag) (dx_buf s)\<rparr>)"
proof (cases "m_d_hmac (dx_obj s)")
  case None
  then show ?thesis using h by (simp add: chm_check_hmac_def)
next
  case (Some hm)
  note p = skip_prefix [OF b]
  have len: "hm_size hm = length tag" "length (hm_mac hm inner) = length tag" using h Some by simp_all
  obtain ar pa pb where mem: "m_mem (dx_obj s) = (ar, pa, pb)" by (cases "m_mem (dx_obj s)")
  show ?thesis
    using Some p len mem
    by (simp add: chm_check_hmac_def dx_read_alloc_def bindS_def mem_read_def memneq_iff)
qed

lemma chm_decrypt_forged:
  assumes b: "buf_wf b" "content b = tag @ inner" "content b \<noteq> []"
    and h: "m_d_hmac a = Some h" "length tag = hm_size h" "length (hm_mac h inner) = hm_size h" "tag \<noteq> hm_mac h inner"
  shows "\<exists>t. chm_decrypt now \<lparr>dx_obj = a, dx_buf = b\<rparr> = (Inr Err_HMAC_ERROR, t) \<and> dx_obj t = a \<and> content (dx_buf t) = []"
proof -
  have "b_size b \<noteq> 0" using b(3) content_empty [of b] by blast
  then show ?thesis
    using chm_check [of "\<lparr>dx_obj = a, dx_buf = b\<rparr>" tag inner] b h
    by (auto simp: chm_decrypt_def bindS_def dc_fail_def buf_reset_size_def)
qed

lemma chm_cipher_decrypts:
  assumes a: "chm_recv_ok k A a" and l: "cy_ctx (m_d_cipher a) = Some l"
    and b: "buf_wf b" "b_kind b \<noteq> Plain" "carries (f_payload (m_frame a ! DECRYPT_WORK)) (m_d_cipher a) (content b) i x"
  shows "if chm_verdict A now a i = SUCCESS
    then \<exists>t. chm_decrypt_cipher now l \<lparr>dx_obj = a, dx_buf = b\<rparr> = (Inr Err_SUCCESS, t) \<and> content (dx_buf t) = x
      \<and> chm_recv_ok k (insert (0, unat i) A) (dx_obj t) \<and> m_d_cipher (dx_obj t) = m_d_cipher a
      \<and> m_d_hmac (dx_obj t) = m_d_hmac a \<and> m_frame (dx_obj t) = m_frame a
    else \<exists>t. chm_decrypt_cipher now l \<lparr>dx_obj = a, dx_buf = b\<rparr> = (Inr Err_REPLAY_ERROR, t) \<and> content (dx_buf t) = []"
proof -
  have A: "ctx_ok k (m_frame a ! DECRYPT_WORK)" "buf_wf (m_d_work a)" "b_kind (m_d_work a) \<noteq> Plain"
    "pidr_inv A (m_d_pid_recv a)" "r_form (m_d_pid_recv a) \<noteq> LONG_FORM"
    using a by (auto simp: chm_recv_ok_def)
  obtain iv ct y z where c: "content b = iv @ ct" "length iv = cl_iv_length l" "cl_update l iv ct = Some y" "cl_final l iv ct = Some z"
    "y @ z = be32 i @ x" "cy_mode (m_d_cipher a) = MODE_DECRYPT" "cl_cbc l"
    and room: "length ct + cl_block_size l \<le> f_payload (m_frame a ! DECRYPT_WORK)" "length y + length z \<le> length ct + cl_block_size l"
    using b(3) l by (auto simp: carries_def)
  note p = skip_prefix [OF b(1) c(1)]
  define b1 where "b1 = advance (length iv) b"
  obtain w where w: "frame_prepare DECRYPT_WORK (m_base a) (m_d_work a) (m_frame a) = Inr (f_payload (m_frame a ! DECRYPT_WORK), w)"
    "buf_wf w" "b_kind w \<noteq> Plain" "b_size w = 0" "b_off w + f_payload (m_frame a ! DECRYPT_WORK) \<le> b_cap w"
    using work_with_room [OF A(1) _ A(2,3), of "m_base a"] by (auto simp: DECRYPT_WORK_def)
  have fit: "b_off w + (length y + length z) \<le> b_cap w" using w(5) room by linarith
  obtain w1 w2 where w2: "mem_write (b_off w) y w = Inr w1" "mem_write (b_off w1 + length y) z w1 = Inr w2"
    "buf_set_size (length y + length z) w2 = Inr (w2\<lparr>b_size := length y + length z\<rparr>)"
    "content (w2\<lparr>b_size := length y + length z\<rparr>) = y @ z" "buf_wf (w2\<lparr>b_size := length y + length z\<rparr>)"
    using cipher_output [OF w(2,4) fit] by metis
  let ?w = "w2\<lparr>b_size := length y + length z\<rparr>"
  have n: "length y + length z \<noteq> 0"
  proof -
    have "length (y @ z) = 4 + length x" using c(5) by simp
    then show ?thesis by simp
  qed
  let ?s = "\<lparr>dx_obj = a\<lparr>m_d_work := ?w\<rparr>, dx_buf = b1\<rparr>"
  have s1: "dx_read (cl_iv_length l) \<lparr>dx_obj = a, dx_buf = b\<rparr> = (Inr iv, \<lparr>dx_obj = a, dx_buf = b1\<rparr>)"
    using p(4) c(2) by (simp add: dx_read_def b1_def)
  have "sz_add (length ct) (cl_block_size l) \<le> length ct + cl_block_size l" by (simp add: sz_add_def)
  then have big: "\<not> buf_max_size w < sz_add (length ct) (cl_block_size l)"
    using w(2,5) room(1) by (simp add: buf_max_size_eq)
  have ct: "content b1 = ct" using p(2) by (simp add: b1_def)
  have "cy_run MODE_DECRYPT (m_d_cipher a) iv (content b1) w = Inr (length y + length z, w2)"
    using c l big w2(1,2) ct by (simp add: cy_run_def cy_encrypt_decrypt_def)
  then have run: "chm_decrypt_cipher now l \<lparr>dx_obj = a, dx_buf = b\<rparr> =
      bindS (chm_verify_work now) (\<lambda>ok.
               if \<not> ok then dc_fail Err_REPLAY_ERROR
               else (\<lambda>s. dc_return Err_SUCCESS
                 \<lparr>dx_obj = (dx_obj s)\<lparr>m_d_work := dx_buf s\<rparr>, dx_buf = m_d_work (dx_obj s)\<rparr>)) ?s"
    using s1 w(1) n w2(3) c(7) by (auto simp: chm_decrypt_cipher_def bindS_def on_md_work_def on_obj_def)
  have x: "buf_wf ?w" "content ?w = be32 i @ x" using w2(4,5) c(5) by simp_all
  obtain b' pr es where v: "chm_verify_id now ?w (dx_obj ?s) = Inr (chm_verdict A now a i = SUCCESS, b', pr, es)"
    "buf_wf b'" "content b' = x" "r_form pr \<noteq> LONG_FORM"
    "pidr_inv (if chm_verdict A now a i = SUCCESS then insert (0, unat i) A else A) pr"
    using chm_verify [OF x, of A "dx_obj ?s" now thesis] A(4,5) by auto
  have b1: "buf_wf b1" "b_kind b1 \<noteq> Plain" using p(3) b(2) by (simp_all add: b1_def)
  have step: "chm_verify_work now ?s = (Inr (chm_verdict A now a i = SUCCESS), \<lparr>dx_obj = chm_verified pr es (a\<lparr>m_d_work := b'\<rparr>), dx_buf = b1\<rparr>)"
    using v(1) by (simp add: chm_verify_work_def on_obj_def)
  show ?thesis
  proof (cases "chm_verdict A now a i = SUCCESS")
    case True
    have "chm_recv_ok k (insert (0, unat i) A) ((chm_verified pr es (a\<lparr>m_d_work := b'\<rparr>))\<lparr>m_d_work := b1\<rparr>)"
      using True A(1) b1 v(4,5) by (simp add: chm_recv_ok_def chm_verified_def)
    then show ?thesis using True run step v(3) by (simp add: bindS_def dc_return_def chm_verified_def)
  next
    case False
    then show ?thesis using run step by (simp add: bindS_def dc_fail_def buf_reset_size_def)
  qed
qed

lemma chm_plain_decrypts:
  assumes a: "chm_recv_ok k A a" and b: "buf_wf b" "content b = be32 i @ x"
  shows "if chm_verdict A now a i = SUCCESS
    then \<exists>t. chm_decrypt_plain now \<lparr>dx_obj = a, dx_buf = b\<rparr> = (Inr Err_SUCCESS, t) \<and> content (dx_buf t) = x
      \<and> chm_recv_ok k (insert (0, unat i) A) (dx_obj t) \<and> m_d_cipher (dx_obj t) = m_d_cipher a
      \<and> m_d_hmac (dx_obj t) = m_d_hmac a \<and> m_frame (dx_obj t) = m_frame a
    else \<exists>t. chm_decrypt_plain now \<lparr>dx_obj = a, dx_buf = b\<rparr> = (Inr Err_REPLAY_ERROR, t) \<and> content (dx_buf t) = []"
proof -
  obtain b' pr es where v: "chm_verify_id now b a = Inr (chm_verdict A now a i = SUCCESS, b', pr, es)"
    "buf_wf b'" "content b' = x" "r_form pr \<noteq> LONG_FORM"
    "pidr_inv (if chm_verdict A now a i = SUCCESS then insert (0, unat i) A else A) pr"
    using chm_verify [OF b, of A a now thesis] a by (auto simp: chm_recv_ok_def)
  then have step: "chm_verify_buf now \<lparr>dx_obj = a, dx_buf = b\<rparr> = (Inr (chm_verdict A now a i = SUCCESS), \<lparr>dx_obj = chm_verified pr es a, dx_buf = b'\<rparr>)"
    by (simp add: chm_verify_buf_def on_obj_def)
  show ?thesis
  proof (cases "chm_verdict A now a i = SUCCESS")
    case True
    have "chm_recv_ok k (insert (0, unat i) A) (chm_verified pr es a)"
      using True a v(4,5) by (simp add: chm_recv_ok_def chm_verified_def)
    then show ?thesis using True step v(3) by (simp add: chm_decrypt_plain_def bindS_def dc_return_def chm_verified_def)
  next
    case False
    then show ?thesis using step by (simp add: chm_decrypt_plain_def bindS_def dc_fail_def buf_reset_size_def)
  qed
qed

text \<open>The whole packet: the HMAC, then the two cases.\<close>

definition tag_of :: "hmac_ctx option \<Rightarrow> u8 list \<Rightarrow> u8 list" where
  "tag_of h inner = (case h of None \<Rightarrow> [] | Some h \<Rightarrow> hm_mac h inner)"

definition hmac_ok :: "hmac_ctx option \<Rightarrow> bool" where
  "hmac_ok h \<longleftrightarrow> (\<forall>h' x. h = Some h' \<longrightarrow> length (hm_mac h' x) = hm_size h')"

lemma chm_packet_decrypts:
  assumes a: "chm_recv_ok k A a" and h: "hmac_ok (m_d_hmac a)"
    and b: "buf_wf b" "b_kind b \<noteq> Plain" "content b = tag_of (m_d_hmac a) inner @ inner"
    and c: "carries (f_payload (m_frame a ! DECRYPT_WORK)) (m_d_cipher a) inner i x"
  shows "if chm_verdict A now a i = SUCCESS
    then \<exists>t. chm_decrypt now \<lparr>dx_obj = a, dx_buf = b\<rparr> = (Inr Err_SUCCESS, t) \<and> content (dx_buf t) = x
      \<and> chm_recv_ok k (insert (0, unat i) A) (dx_obj t) \<and> m_d_cipher (dx_obj t) = m_d_cipher a
      \<and> m_d_hmac (dx_obj t) = m_d_hmac a \<and> m_frame (dx_obj t) = m_frame a
    else \<exists>t. chm_decrypt now \<lparr>dx_obj = a, dx_buf = b\<rparr> = (Inr Err_REPLAY_ERROR, t) \<and> content (dx_buf t) = []"
proof -
  let ?b = "advance (length (tag_of (m_d_hmac a) inner)) b"
  note p = skip_prefix [OF b(1,3)]
  have "inner \<noteq> []"
  proof (cases "cy_ctx (m_d_cipher a)")
    case None
    then show ?thesis using c by (auto simp: carries_def be32_def)
  next
    case (Some l)
    then show ?thesis using c by (auto simp: carries_def)
  qed
  then have ne: "b_size b \<noteq> 0" using b(3) content_empty [of b] by fastforce
  have "chm_check_hmac \<lparr>dx_obj = a, dx_buf = b\<rparr> = (Inr True, \<lparr>dx_obj = a, dx_buf = ?b\<rparr>)"
    using chm_check [of "\<lparr>dx_obj = a, dx_buf = b\<rparr>" "tag_of (m_d_hmac a) inner" inner] b(1,3) h
    by (auto simp: tag_of_def hmac_ok_def split: option.splits)
  then have run: "chm_decrypt now \<lparr>dx_obj = a, dx_buf = b\<rparr> = (case cy_ctx (m_d_cipher a) of
      Some l \<Rightarrow> chm_decrypt_cipher now l \<lparr>dx_obj = a, dx_buf = ?b\<rparr> | None \<Rightarrow> chm_decrypt_plain now \<lparr>dx_obj = a, dx_buf = ?b\<rparr>)"
    using ne by (simp add: chm_decrypt_def bindS_def)
  show ?thesis
  proof (cases "cy_ctx (m_d_cipher a)")
    case None
    then have "content ?b = be32 i @ x" using p(2) c by (simp add: carries_def)
    from chm_plain_decrypts [OF a p(3) this, of now] show ?thesis using run None by simp
  next
    case (Some l)
    have "b_kind ?b \<noteq> Plain" "carries (f_payload (m_frame a ! DECRYPT_WORK)) (m_d_cipher a) (content ?b) i x"
      using b(2) c p(2) by simp_all
    from chm_cipher_decrypts [OF a Some p(3) this, of now] show ?thesis using run Some by simp
  qed
qed

section \<open>Encryption\<close>

text \<open>
  What the library documents of a cipher in CBC mode with padding: the output is not empty and at most a
  block longer than the input.
\<close>

definition cbc_ok :: "cipher_lib \<Rightarrow> bool" where
  "cbc_ok l \<longleftrightarrow> cl_cbc l \<and> (\<forall>iv x. length iv = cl_iv_length l \<longrightarrow>
     (\<exists>y z. cl_update l iv x = Some y \<and> cl_final l iv x = Some z \<and> y @ z \<noteq> [] \<and> length y + length z \<le> length x + cl_block_size l))"

definition cipher_text :: "cipher_lib \<Rightarrow> u8 list \<Rightarrow> u8 list \<Rightarrow> u8 list" where
  "cipher_text l iv x = the (cl_update l iv x) @ the (cl_final l iv x)"

lemma cbc_okE:
  assumes "cbc_ok l" and "length iv = cl_iv_length l"
  obtains y z where "cl_update l iv x = Some y" and "cl_final l iv x = Some z" and "y @ z \<noteq> []"
    and "length y + length z \<le> length x + cl_block_size l"
  using assms unfolding cbc_ok_def by blast

text \<open>The packet behind the HMAC.\<close>

definition chm_inner :: "cipher_ctx \<Rightarrow> u8 list \<Rightarrow> u32 \<Rightarrow> u8 list \<Rightarrow> u8 list" where
  "chm_inner c iv i x = (case cy_ctx c of None \<Rightarrow> be32 i @ x | Some l \<Rightarrow> iv @ cipher_text l iv (be32 i @ x))"

definition chm_iv :: "chm \<Rightarrow> u8 list" where
  "chm_iv a = (case cy_ctx (m_e_cipher a) of None \<Rightarrow> [] | Some l \<Rightarrow> m_rng a (m_rng_calls a) (cl_iv_length l))"

definition chm_send_ok :: "nat \<Rightarrow> chm \<Rightarrow> bool" where
  "chm_send_ok k a \<longleftrightarrow> s_form (m_e_pid_send a) \<noteq> LONG_FORM \<and> (\<forall>n j. length (m_rng a j n) = n) \<and> hmac_ok (m_e_hmac a)
     \<and> (\<forall>l. cy_ctx (m_e_cipher a) = Some l \<longrightarrow> cy_mode (m_e_cipher a) = MODE_ENCRYPT \<and> cbc_ok l)
     \<and> ctx_ok k (m_frame a ! ENCRYPT_WORK) \<and> buf_wf (m_e_work a) \<and> b_kind (m_e_work a) \<noteq> Plain"

definition tag_len :: "hmac_ctx option \<Rightarrow> nat" where
  "tag_len h = (case h of None \<Rightarrow> 0 | Some h \<Rightarrow> hm_size h)"

text \<open>There is room for what is put in front, and in the work buffer for the cipher text.\<close>

definition chm_room :: "chm \<Rightarrow> buffer \<Rightarrow> bool" where
  "chm_room a b \<longleftrightarrow>
     (case cy_ctx (m_e_cipher a) of
        None \<Rightarrow> tag_len (m_e_hmac a) + 4 \<le> b_off b
      | Some l \<Rightarrow> 4 \<le> b_off b \<and> tag_len (m_e_hmac a) + cl_iv_length l \<le> f_headroom (m_frame a ! ENCRYPT_WORK)
          \<and> 4 + b_size b + cl_block_size l \<le> f_payload (m_frame a ! ENCRYPT_WORK))"

lemma chm_write_id_ok:
  assumes "buf_wf (dx_buf s)" and "4 \<le> b_off (dx_buf s)" and "s_form (m_e_pid_send (dx_obj s)) \<noteq> LONG_FORM"
    and "unat (p_id (s_pid (m_e_pid_send (dx_obj s)))) + 1 < 2 ^ 32"
  obtains ps b where "chm_write_id now s = (Inr (), (on_obj (\<lambda>a. a\<lparr>m_e_pid_send := ps\<rparr>) s)\<lparr>dx_buf := b\<rparr>)"
    and "buf_wf b" and "content b = be32 (p_id (s_pid (m_e_pid_send (dx_obj s))) + 1) @ content (dx_buf s)"
    and "b_off b = b_off (dx_buf s) - 4" and "b_size b = b_size (dx_buf s) + 4" and "b_kind b = b_kind (dx_buf s)"
proof -
  let ?ps = "m_e_pid_send (dx_obj s)"
  obtain p where p: "pids_next now ?ps = (Inr p, ?ps\<lparr>s_pid := p\<rparr>)" "unat (p_id p) = unat (p_id (s_pid ?ps)) + 1"
    using pids_next_ok [OF assms(4)] by blast
  have i: "p_id p = p_id (s_pid ?ps) + 1"
    using p(2) assms(4) by (intro word_unat_eq_iff [THEN iffD2]) (simp add: unat_word_ariths)
  have len: "length (be32 (p_id p)) \<le> b_off (dx_buf s)" using assms(2) by simp
  obtain b where b: "buf_prepend (be32 (p_id p)) (dx_buf s) = Inr b" "buf_wf b" "content b = be32 (p_id p) @ content (dx_buf s)"
    "b_off b = b_off (dx_buf s) - 4" "b_size b = b_size (dx_buf s) + 4" "b_kind b = b_kind (dx_buf s)"
    using buf_prepend_ok [OF assms(1) len] by auto
  have "pids_write_next True now (dx_buf s) ?ps = (Inr b, ?ps\<lparr>s_pid := p\<rparr>)"
    using p(1) b(1) assms(3) by (simp add: pids_write_next_def pid_write_def Let_def)
  then show thesis using that [of b "?ps\<lparr>s_pid := p\<rparr>"] b i by (simp add: chm_write_id_def)
qed

lemma prepend_hmac_ok:
  assumes b: "buf_wf b" "tag_len h \<le> b_off b" and h: "hmac_ok h"
  obtains b' where "prepend_hmac h b = Inr b'" and "buf_wf b'" and "content b' = tag_of h (content b) @ content b"
    and "b_size b' = tag_len h + b_size b"
proof (cases h)
  case None
  then show thesis using that [of b] b by (simp add: prepend_hmac_def tag_of_def tag_len_def)
next
  case (Some hm)
  have len: "length (hm_mac hm (content b)) = hm_size hm" using h Some by (simp add: hmac_ok_def)
  then have "length (hm_mac hm (content b)) \<le> b_off b" using b(2) Some by (simp add: tag_len_def)
  from buf_prepend_ok [OF b(1) this] obtain b' where b': "buf_prepend (hm_mac hm (content b)) b = Inr b'" "buf_wf b'"
    "content b' = hm_mac hm (content b) @ content b" "b_size b' = b_size b + hm_size hm" using len by auto
  have "prepend_hmac h b = buf_prepend (hm_mac hm (content b)) b"
    using b Some len by (simp add: prepend_hmac_def buf_prepend_def buf_prepend_alloc_def tag_len_def mem_write_def buf_wf_def Let_def)
  then show thesis using that [of b'] b' Some by (simp add: tag_of_def tag_len_def)
qed

lemma chm_encrypt_ok:
  assumes a: "chm_send_ok k a" and b: "buf_wf b" "content b \<noteq> []" and room: "chm_room a b"
    and ids: "unat (p_id (s_pid (m_e_pid_send a))) + 1 < 2 ^ 32"
  obtains w t where "chm_encrypt now \<lparr>dx_obj = a, dx_buf = b\<rparr> = (Inr w, t)" and "buf_wf (dx_buf t)"
    and "content (dx_buf t) = (let inner = chm_inner (m_e_cipher a) (chm_iv a) (p_id (s_pid (m_e_pid_send a)) + 1) (content b)
      in tag_of (m_e_hmac a) inner @ inner)"
proof -
  let ?i = "p_id (s_pid (m_e_pid_send a)) + 1" and ?h = "m_e_hmac a"
  have A: "s_form (m_e_pid_send a) \<noteq> LONG_FORM" "hmac_ok ?h" "ctx_ok k (m_frame a ! ENCRYPT_WORK)" "buf_wf (m_e_work a)"
    "b_kind (m_e_work a) \<noteq> Plain" using a by (auto simp: chm_send_ok_def)
  have ne: "b_size b \<noteq> 0" using b(2) content_empty [of b] by blast
  have off: "4 \<le> b_off b" using room by (auto simp: chm_room_def split: option.splits)
  show thesis
  proof (cases "cy_ctx (m_e_cipher a)")
    case None
    obtain ps b1 where s1: "chm_write_id now \<lparr>dx_obj = a, dx_buf = b\<rparr> = (Inr (), \<lparr>dx_obj = a\<lparr>m_e_pid_send := ps\<rparr>, dx_buf = b1\<rparr>)"
      "buf_wf b1" "content b1 = be32 ?i @ content b" "b_off b1 = b_off b - 4"
      using chm_write_id_ok [of "\<lparr>dx_obj = a, dx_buf = b\<rparr>" now thesis] b(1) off A(1) ids by (auto simp: on_obj_def)
    have "tag_len ?h \<le> b_off b1" using room None s1(4) by (simp add: chm_room_def)
    then obtain b2 where b2: "prepend_hmac ?h b1 = Inr b2" "buf_wf b2" "content b2 = tag_of ?h (content b1) @ content b1"
      using prepend_hmac_ok [OF s1(2) _ A(2)] by metis
    show thesis
      by (rule that [of _ "\<lparr>dx_obj = a\<lparr>m_e_pid_send := ps\<rparr>, dx_buf = b2\<rparr>"])
        (use ne None s1 b2 in \<open>simp_all add: chm_encrypt_def bindS_def chm_encrypt_plain_def on_dbuf_def chm_inner_def Let_def\<close>)
  next
    case (Some l)
    let ?iv = "m_rng a (m_rng_calls a) (cl_iv_length l)"
    have L: "cbc_ok l" "cy_mode (m_e_cipher a) = MODE_ENCRYPT" "length ?iv = cl_iv_length l"
      using a Some by (auto simp: chm_send_ok_def)
    have R: "tag_len ?h + cl_iv_length l \<le> f_headroom (m_frame a ! ENCRYPT_WORK)"
      "4 + b_size b + cl_block_size l \<le> f_payload (m_frame a ! ENCRYPT_WORK)" using room Some by (simp_all add: chm_room_def)
    let ?a1 = "a\<lparr>m_rng_calls := m_rng_calls a + 1\<rparr>"
    obtain ps b1 where s1: "chm_write_id now \<lparr>dx_obj = ?a1, dx_buf = b\<rparr> = (Inr (), \<lparr>dx_obj = ?a1\<lparr>m_e_pid_send := ps\<rparr>, dx_buf = b1\<rparr>)"
      "content b1 = be32 ?i @ content b" "b_size b1 = b_size b + 4"
      using chm_write_id_ok [of "\<lparr>dx_obj = ?a1, dx_buf = b\<rparr>" now thesis] b(1) off A(1) ids by (auto simp: on_obj_def)
    let ?x = "be32 ?i @ content b"
    obtain y z where c: "cl_update l ?iv ?x = Some y" "cl_final l ?iv ?x = Some z" "y @ z \<noteq> []"
      "length y + length z \<le> length ?x + cl_block_size l" by (rule cbc_okE [OF L(1,3)])
    have lx: "length ?x = 4 + b_size b" using b(1) by simp
    obtain w where w: "frame_prepare ENCRYPT_WORK (m_base a) (m_e_work a) (m_frame a) = Inr (f_payload (m_frame a ! ENCRYPT_WORK), w)"
      "buf_wf w" "b_size w = 0" "f_headroom (m_frame a ! ENCRYPT_WORK) \<le> b_off w" "b_off w + f_payload (m_frame a ! ENCRYPT_WORK) \<le> b_cap w"
      using work_with_room [OF A(3) _ A(4,5), of "m_base a"] by (auto simp: ENCRYPT_WORK_def)
    have fit: "b_off w + (length y + length z) \<le> b_cap w" using w(5) R(2) c(4) lx by linarith
    obtain w1 w2 where w2: "mem_write (b_off w) y w = Inr w1" "mem_write (b_off w1 + length y) z w1 = Inr w2"
      "buf_set_size (length y + length z) w2 = Inr (w2\<lparr>b_size := length y + length z\<rparr>)"
      "content (w2\<lparr>b_size := length y + length z\<rparr>) = y @ z" "buf_wf (w2\<lparr>b_size := length y + length z\<rparr>)" "b_off w2 = b_off w"
      using cipher_output [OF w(2,3) fit] by metis
    let ?w = "w2\<lparr>b_size := length y + length z\<rparr>"
    have big: "\<not> buf_max_size w < sz_add (length ?x) (cl_block_size l)"
    proof -
      have "sz_add (length ?x) (cl_block_size l) \<le> length ?x + cl_block_size l" by (simp add: sz_add_def)
      then show ?thesis using w(2,5) R(2) lx by (simp add: buf_max_size_eq)
    qed
    have crypt: "cy_run MODE_ENCRYPT (m_e_cipher a) ?iv (content b1) w = Inr (length y + length z, w2)"
      using Some L(2) s1(2) big c(1,2) w2(1,2) by (simp add: cy_run_def cy_encrypt_decrypt_def)
    have "length ?iv \<le> b_off ?w" using R(1) w(4) w2(6) L(3) by simp
    from buf_prepend_ok [OF w2(5) this] w2(4) obtain w3 where w3: "buf_prepend ?iv ?w = Inr w3" "buf_wf w3" "content w3 = ?iv @ y @ z"
      "b_off w3 = b_off w - cl_iv_length l" using w2(6) L(3) by auto
    have "tag_len ?h \<le> b_off w3" using R(1) w(4) w3(4) by simp
    then obtain w4 where w4: "prepend_hmac ?h w3 = Inr w4" "buf_wf w4" "content w4 = tag_of ?h (content w3) @ content w3"
      using prepend_hmac_ok [OF w3(2) _ A(2)] by metis
    have n: "length y + length z \<noteq> 0" using c(3) by simp
    have "chm_encrypt_cipher now l \<lparr>dx_obj = a, dx_buf = b\<rparr> =
        (Inr (), \<lparr>dx_obj = a\<lparr>m_rng_calls := m_rng_calls a + 1, m_e_pid_send := ps, m_e_work := b1\<rparr>, dx_buf = w4\<rparr>)"
      using L(1) s1(1) w(1) crypt n w2(3) w3(1) w4(1)
      by (auto simp: chm_encrypt_cipher_def cbc_ok_def bindS_def chm_random_iv_def on_obj_def on_me_work_def chm_finish_work_def)
    then have run: "chm_encrypt now \<lparr>dx_obj = a, dx_buf = b\<rparr> =
        (Inr (pids_wrap_warning ps), \<lparr>dx_obj = a\<lparr>m_rng_calls := m_rng_calls a + 1, m_e_pid_send := ps, m_e_work := b1\<rparr>, dx_buf = w4\<rparr>)"
      using ne Some by (simp add: chm_encrypt_def bindS_def)
    show thesis
      by (rule that [OF run]) (use w4 w3 c(1,2) Some in \<open>simp_all add: chm_inner_def chm_iv_def cipher_text_def Let_def\<close>)
  qed
qed

section \<open>Properties\<close>

text \<open>The two ends have the same algorithms and keys.\<close>

definition chm_pair :: "chm \<Rightarrow> chm \<Rightarrow> bool" where
  "chm_pair a c \<longleftrightarrow> m_d_hmac c = m_e_hmac a \<and>
     (case cy_ctx (m_e_cipher a) of
        None \<Rightarrow> cy_ctx (m_d_cipher c) = None
      | Some l \<Rightarrow> (\<exists>ld. cy_ctx (m_d_cipher c) = Some ld \<and> cy_mode (m_d_cipher c) = MODE_DECRYPT \<and> cl_cbc ld
          \<and> 0 < cl_iv_length ld \<and> cl_iv_length ld = cl_iv_length l \<and> cl_block_size ld = cl_block_size l
          \<and> (\<forall>iv x. length iv = cl_iv_length l \<longrightarrow>
               (\<exists>y z. cl_update ld iv (cipher_text l iv x) = Some y \<and> cl_final ld iv (cipher_text l iv x) = Some z \<and> y @ z = x
                  \<and> length y + length z \<le> length (cipher_text l iv x) + cl_block_size l))))"

definition chm_recv_room :: "chm \<Rightarrow> chm \<Rightarrow> nat \<Rightarrow> bool" where
  "chm_recv_room a c n \<longleftrightarrow> (\<forall>l. cy_ctx (m_e_cipher a) = Some l \<longrightarrow>
     4 + n + 2 * cl_block_size l \<le> f_payload (m_frame c ! DECRYPT_WORK))"

lemma chm_carries:
  assumes a: "chm_send_ok k a" and c: "chm_pair a c" and room: "chm_recv_room a c (length x)"
  shows "carries (f_payload (m_frame c ! DECRYPT_WORK)) (m_d_cipher c) (chm_inner (m_e_cipher a) (chm_iv a) i x) i x"
proof (cases "cy_ctx (m_e_cipher a)")
  case None
  then show ?thesis using c by (simp add: chm_pair_def carries_def chm_inner_def)
next
  case (Some l)
  let ?iv = "chm_iv a" and ?x = "be32 i @ x"
  have iv: "length ?iv = cl_iv_length l" "cbc_ok l" using a Some by (auto simp: chm_send_ok_def chm_iv_def)
  from iv obtain y0 z0 where e: "cl_update l ?iv ?x = Some y0" "cl_final l ?iv ?x = Some z0"
    "length y0 + length z0 \<le> length ?x + cl_block_size l" by (metis cbc_okE)
  obtain ld where d: "cy_ctx (m_d_cipher c) = Some ld" "cy_mode (m_d_cipher c) = MODE_DECRYPT" "cl_cbc ld"
    "0 < cl_iv_length ld" "cl_iv_length ld = cl_iv_length l" "cl_block_size ld = cl_block_size l"
    and undo: "\<forall>iv x. length iv = cl_iv_length l \<longrightarrow>
      (\<exists>y z. cl_update ld iv (cipher_text l iv x) = Some y \<and> cl_final ld iv (cipher_text l iv x) = Some z \<and> y @ z = x
        \<and> length y + length z \<le> length (cipher_text l iv x) + cl_block_size l)"
    using c [unfolded chm_pair_def Some option.case] by (elim conjE exE)
  obtain y z where yz: "cl_update ld ?iv (cipher_text l ?iv ?x) = Some y" "cl_final ld ?iv (cipher_text l ?iv ?x) = Some z"
    "y @ z = ?x" "length y + length z \<le> length (cipher_text l ?iv ?x) + cl_block_size l"
    using undo [rule_format, OF iv(1), of ?x] by blast
  have fit: "length (cipher_text l ?iv ?x) + cl_block_size l \<le> f_payload (m_frame c ! DECRYPT_WORK)"
    using room Some e by (simp add: chm_recv_room_def cipher_text_def)
  have inner: "chm_inner (m_e_cipher a) ?iv i x = ?iv @ cipher_text l ?iv ?x" using Some by (simp add: chm_inner_def)
  show ?thesis
    unfolding carries_def inner d(1) option.case
    by (intro conjI exI [of _ ?iv] exI [of _ "cipher_text l ?iv ?x"] exI [of _ y] exI [of _ z])
      (use d iv(1) yz fit in simp_all)
qed

text \<open>
  C22. Round trip of the data channel in CBC mode, with or without cipher and HMAC: a packet encrypted by
  one end is decrypted by the other, which has the same keys, to the bytes that went in; a second copy
  of the packet is refused as a replay and its bytes are dropped.  Neither call throws or leaves a
  buffer.
\<close>

theorem chm_roundtrip:
  assumes a: "chm_send_ok k a" and b: "buf_wf b" "content b \<noteq> []" and room: "chm_room a b"
    and ids: "unat (p_id (s_pid (m_e_pid_send a))) + 1 < 2 ^ 32"
    and c: "chm_recv_ok k' A c" "chm_pair a c" "chm_recv_room a c (b_size b)"
    and fresh: "chm_verdict A t1 c (p_id (s_pid (m_e_pid_send a)) + 1) = SUCCESS"
  shows "\<exists>w s. chm_encrypt t0 \<lparr>dx_obj = a, dx_buf = b\<rparr> = (Inr w, s) \<and> buf_wf (dx_buf s) \<and>
    (\<forall>p. buf_wf p \<and> b_kind p \<noteq> Plain \<and> content p = content (dx_buf s) \<longrightarrow>
      (\<exists>t. chm_decrypt t1 \<lparr>dx_obj = c, dx_buf = p\<rparr> = (Inr Err_SUCCESS, t) \<and> content (dx_buf t) = content b
        \<and> (\<forall>q t2. buf_wf q \<and> b_kind q \<noteq> Plain \<and> content q = content (dx_buf s) \<longrightarrow>
            (\<exists>u. chm_decrypt t2 \<lparr>dx_obj = dx_obj t, dx_buf = q\<rparr> = (Inr Err_REPLAY_ERROR, u) \<and> content (dx_buf u) = []))))"
proof -
  let ?i = "p_id (s_pid (m_e_pid_send a)) + 1"
  let ?inner = "chm_inner (m_e_cipher a) (chm_iv a) ?i (content b)"
  obtain w s where s: "chm_encrypt t0 \<lparr>dx_obj = a, dx_buf = b\<rparr> = (Inr w, s)" "buf_wf (dx_buf s)"
    and pk: "content (dx_buf s) = tag_of (m_e_hmac a) ?inner @ ?inner"
    using chm_encrypt_ok [OF a b room ids] by (metis (no_types))
  have h: "m_d_hmac c = m_e_hmac a" "hmac_ok (m_d_hmac c)" using c(2) a by (simp_all add: chm_pair_def chm_send_ok_def)
  have carry: "carries (f_payload (m_frame c ! DECRYPT_WORK)) (m_d_cipher c) ?inner ?i (content b)"
    by (rule chm_carries [OF a c(2)]) (use c(3) b(1) in simp)
  have first: "\<exists>t. chm_decrypt t1 \<lparr>dx_obj = c, dx_buf = p\<rparr> = (Inr Err_SUCCESS, t) \<and> content (dx_buf t) = content b
      \<and> chm_recv_ok k' (insert (0, unat ?i) A) (dx_obj t) \<and> m_d_cipher (dx_obj t) = m_d_cipher c
      \<and> m_d_hmac (dx_obj t) = m_d_hmac c \<and> m_frame (dx_obj t) = m_frame c"
    if "buf_wf p" "b_kind p \<noteq> Plain" "content p = content (dx_buf s)" for p
    using chm_packet_decrypts [OF c(1) h(2) that(1,2) _ carry, of t1] that(3) pk h(1) fresh by simp
  have again: "\<exists>u. chm_decrypt t2 \<lparr>dx_obj = d, dx_buf = q\<rparr> = (Inr Err_REPLAY_ERROR, u) \<and> content (dx_buf u) = []"
    if q: "buf_wf q" "b_kind q \<noteq> Plain" "content q = content (dx_buf s)"
      and d: "chm_recv_ok k' (insert (0, unat ?i) A) d" "m_d_cipher d = m_d_cipher c" "m_d_hmac d = m_d_hmac c" "m_frame d = m_frame c"
    for q d t2
  proof -
    have "pidr_inv (insert (0, unat ?i) A) (m_d_pid_recv d)" using d(1) by (simp add: chm_recv_ok_def)
    from pidr_verdict_fresh [OF this, of _ "\<lparr>p_id = ?i, p_time = 0\<rparr>"]
    have "chm_verdict (insert (0, unat ?i) A) t2 d ?i \<noteq> SUCCESS" by auto
    moreover have "hmac_ok (m_d_hmac d)" "content q = tag_of (m_d_hmac d) ?inner @ ?inner"
      "carries (f_payload (m_frame d ! DECRYPT_WORK)) (m_d_cipher d) ?inner ?i (content b)"
      using h q(3) pk d(2-4) carry by simp_all
    ultimately show ?thesis using chm_packet_decrypts [OF d(1) _ q(1,2), of ?inner ?i "content b" t2] by simp
  qed
  show ?thesis
  proof (rule exI [of _ w], rule exI [of _ s], intro conjI allI impI)
    fix p assume "buf_wf p \<and> b_kind p \<noteq> Plain \<and> content p = content (dx_buf s)"
    then obtain t where t: "chm_decrypt t1 \<lparr>dx_obj = c, dx_buf = p\<rparr> = (Inr Err_SUCCESS, t)" "content (dx_buf t) = content b"
      "chm_recv_ok k' (insert (0, unat ?i) A) (dx_obj t)" "m_d_cipher (dx_obj t) = m_d_cipher c"
      "m_d_hmac (dx_obj t) = m_d_hmac c" "m_frame (dx_obj t) = m_frame c" using first [of p] by blast
    show "\<exists>t. chm_decrypt t1 \<lparr>dx_obj = c, dx_buf = p\<rparr> = (Inr Err_SUCCESS, t) \<and> content (dx_buf t) = content b
        \<and> (\<forall>q t2. buf_wf q \<and> b_kind q \<noteq> Plain \<and> content q = content (dx_buf s) \<longrightarrow>
            (\<exists>u. chm_decrypt t2 \<lparr>dx_obj = dx_obj t, dx_buf = q\<rparr> = (Inr Err_REPLAY_ERROR, u) \<and> content (dx_buf u) = []))"
      by (rule exI [of _ t], intro conjI allI impI, rule t(1), rule t(2), rule again)
        (use t(3-6) in simp_all)
  qed (use s in simp_all)
qed

text \<open>A cipher that adds one byte of padding and hides the bytes by a pad, and a MAC that is the length.\<close>

definition demo_enc :: cipher_lib where
  "demo_enc = \<lparr>cl_iv_length = 8, cl_block_size = 1, cl_cbc = True, cl_update = \<lambda>iv x. Some (map (\<lambda>b. b XOR 0x5A) x),
    cl_final = \<lambda>iv x. Some [1]\<rparr>"

definition demo_dec :: cipher_lib where
  "demo_dec = demo_enc\<lparr>cl_update := \<lambda>iv x. Some (map (\<lambda>b. b XOR 0x5A) (butlast x)), cl_final := \<lambda>iv x. Some []\<rparr>"

definition demo_chm :: chm where
  "demo_chm =
     \<lparr>m_frame = demo_dc_frame, m_base = 0, m_mem = (Other, 0, 0), m_rng = \<lambda>j n. replicate n (of_nat j), m_rng_calls = 0,
      m_e_cipher = \<lparr>cy_mode = MODE_ENCRYPT, cy_ctx = Some demo_enc\<rparr>,
      m_e_hmac = Some \<lparr>hm_size = 4, hm_mac = \<lambda>x. be32 (of_nat (length x))\<rparr>, m_e_pid_send = pids_init SHORT_FORM,
      m_e_work = alloc_default, m_d_cipher = \<lparr>cy_mode = MODE_DECRYPT, cy_ctx = Some demo_dec\<rparr>,
      m_d_hmac = Some \<lparr>hm_size = 4, hm_mac = \<lambda>x. be32 (of_nat (length x))\<rparr>, m_d_pid_recv = pidr_init 0 SHORT_FORM [] 0,
      m_d_work = alloc_default, m_errors = []\<rparr>"

definition demo_chm_buf :: buffer where
  "demo_chm_buf = \<lparr>b_data = [0, 0, 0, 0, 1, 2, 3], b_off = 4, b_size = 3, b_cap = 7, b_kind = Allocated 0\<rparr>"

lemma demo_chm_buf: "buf_wf demo_chm_buf" "content demo_chm_buf = [1, 2, 3]" "b_size demo_chm_buf = 3" "b_off demo_chm_buf = 4"
  by (simp_all add: demo_chm_buf_def buf_wf_def content_def slice_def)

lemma demo_chm_send: "chm_send_ok 4 demo_chm"
  using demo_ctx(1) by (simp add: chm_send_ok_def demo_chm_def demo_frame_ctx ENCRYPT_WORK_def pids_init_def
    hmac_ok_def cbc_ok_def demo_enc_def alloc_default_kind SHORT_FORM_def LONG_FORM_def)

lemma demo_chm_recv: "chm_recv_ok 4 {} demo_chm"
  using demo_ctx(1) by (simp add: chm_recv_ok_def demo_chm_def demo_frame_ctx DECRYPT_WORK_def pidr_init_def
    SHORT_FORM_def LONG_FORM_def alloc_default_kind pidr_inv_def REPLAY_WINDOW_BYTES_def)

lemma demo_chm_pair: "chm_pair demo_chm demo_chm"
  by (simp add: chm_pair_def demo_chm_def demo_enc_def demo_dec_def cipher_text_def comp_def butlast_append word_bw_assocs)

lemma demo_chm_rooms: "chm_room demo_chm demo_chm_buf" "chm_recv_room demo_chm demo_chm 3"
  by (simp_all add: chm_room_def chm_recv_room_def demo_chm_def demo_frame_ctx demo_ctx ENCRYPT_WORK_def DECRYPT_WORK_def
    demo_chm_buf tag_len_def demo_enc_def)

theorem chm_roundtrip_witness:
  "\<exists>w s t. chm_encrypt 5 \<lparr>dx_obj = demo_chm, dx_buf = demo_chm_buf\<rparr> = (Inr w, s)
    \<and> chm_decrypt 9 \<lparr>dx_obj = demo_chm, dx_buf = demo_dc_buf (content (dx_buf s))\<rparr> = (Inr Err_SUCCESS, t)
    \<and> content (dx_buf t) = [1, 2, 3]"
proof -
  have ne: "content demo_chm_buf \<noteq> []" by (simp add: demo_chm_buf)
  have ids: "unat (p_id (s_pid (m_e_pid_send demo_chm))) + 1 < 2 ^ 32" by (simp add: demo_chm_def pids_init_def)
  have fresh: "chm_verdict {} 9 demo_chm (p_id (s_pid (m_e_pid_send demo_chm)) + 1) = SUCCESS"
    using demo_fresh_id by (simp add: demo_chm_def pids_init_def)
  have room: "chm_recv_room demo_chm demo_chm (b_size demo_chm_buf)" by (simp add: demo_chm_buf demo_chm_rooms)
  obtain w s where s: "chm_encrypt 5 \<lparr>dx_obj = demo_chm, dx_buf = demo_chm_buf\<rparr> = (Inr w, s)" "buf_wf (dx_buf s)"
    and r: "\<And>p. buf_wf p \<Longrightarrow> b_kind p \<noteq> Plain \<Longrightarrow> content p = content (dx_buf s) \<Longrightarrow>
      \<exists>t. chm_decrypt 9 \<lparr>dx_obj = demo_chm, dx_buf = p\<rparr> = (Inr Err_SUCCESS, t) \<and> content (dx_buf t) = content demo_chm_buf"
    using chm_roundtrip [OF demo_chm_send demo_chm_buf(1) ne demo_chm_rooms(1) ids demo_chm_recv demo_chm_pair room fresh, of 5]
    by blast
  have "length (content (dx_buf s)) = b_size (dx_buf s)" "b_size (dx_buf s) < MAX_OBJECT"
    using s(2) by (simp_all add: buf_wf_def content_def)
  then have "buf_wf (demo_dc_buf (content (dx_buf s)))" by (intro demo_dc_buf_ok(1)) simp
  from r [OF this demo_dc_buf_ok(2,3)] s(1) demo_chm_buf(2) show ?thesis by auto
qed

end
