(* ===== verification/IPv6.thy ===== *)
theory IPv6
  imports IPv4
begin

text \<open>
  \<open>IPv6::Addr\<close> of \<open>addr/ipv6.hpp\<close>.  The union's words are named by their weight: \<open>v6_lo\<close> is
  \<open>u64[e2(0)]\<close>, \<open>v6_hi\<close> is \<open>u64[e2(1)]\<close>, \<open>v6_word i\<close> is \<open>u32[e4(i)]\<close>, which is the same on both byte
  orders; only \<open>one\<close> names a word by its place in memory.  \<open>long\<close> has 64 bits.  The text forms of asio
  are parameters of \<open>v6_from_string\<close>.
\<close>

section \<open>Addresses\<close>

datatype ipv6 = Addr6 (v6_lo: u64) (v6_hi: u64) (v6_scope: u32)

text \<open>The four relational operators come from one macro.\<close>

instantiation ipv6 :: linorder
begin

definition less_eq_ipv6 :: "ipv6 \<Rightarrow> ipv6 \<Rightarrow> bool" where
  "a \<le> b \<longleftrightarrow>
     (if v6_hi a = v6_hi b then if v6_lo a \<noteq> v6_lo b then v6_lo a \<le> v6_lo b else v6_scope a \<le> v6_scope b
      else v6_hi a \<le> v6_hi b)"

definition less_ipv6 :: "ipv6 \<Rightarrow> ipv6 \<Rightarrow> bool" where
  "a < b \<longleftrightarrow>
     (if v6_hi a = v6_hi b then if v6_lo a \<noteq> v6_lo b then v6_lo a < v6_lo b else v6_scope a < v6_scope b
      else v6_hi a < v6_hi b)"

instance
  by standard (auto simp: less_eq_ipv6_def less_ipv6_def intro: ipv6.expand split: if_splits)

end

definition V6_SIZE :: nat where "V6_SIZE = 128"

definition v6_word :: "nat \<Rightarrow> ipv6 \<Rightarrow> u32" where
  "v6_word i a = ucast (drop_bit (32 * (i mod 2)) (if i < 2 then v6_lo a else v6_hi a))"

definition v6_of_words :: "u32 \<Rightarrow> u32 \<Rightarrow> u32 \<Rightarrow> u32 \<Rightarrow> u32 \<Rightarrow> ipv6" where
  "v6_of_words w0 w1 w2 w3 scope = Addr6 (word_cat w1 w0) (word_cat w3 w2) scope"

definition v6_from_byte_string :: "u8 list \<Rightarrow> ipv6" where
  "v6_from_byte_string b =
     v6_of_words (of_be32 (slice 12 4 b)) (of_be32 (slice 8 4 b)) (of_be32 (slice 4 4 b)) (of_be32 (slice 0 4 b)) 0"

definition v6_to_byte_string :: "ipv6 \<Rightarrow> u8 list" where
  "v6_to_byte_string a = be32 (v6_word 3 a) @ be32 (v6_word 2 a) @ be32 (v6_word 1 a) @ be32 (v6_word 0 a)"

text \<open>What asio parses an address to: its bytes and scope, or a message.\<close>

definition v6_from_string :: "(string \<Rightarrow> string + (u8 list \<times> u32)) \<Rightarrow> string \<Rightarrow> string \<Rightarrow> ipv6 res" where
  "v6_from_string make_address ipstr title =
     (case make_address ipstr of
        Inl msg \<Rightarrow> Inl (ipv6_exception (ip_format_error ipstr title ''v6'' msg))
      | Inr (b, scope) \<Rightarrow> (case v6_from_byte_string b of Addr6 lo hi _ \<Rightarrow> Inr (Addr6 lo hi scope)))"

definition v6_from_zero :: ipv6 where "v6_from_zero = Addr6 0 0 0"

text \<open>\<open>one\<close> sets \<open>u64[0]\<close>, the high word of a big-endian host.\<close>

definition v6_from_one :: "bool \<Rightarrow> ipv6" where
  "v6_from_one big = (if big then Addr6 0 1 0 else Addr6 1 0 0)"

definition v6_from_zero_complement :: ipv6 where "v6_from_zero_complement = Addr6 (NOT 0) (NOT 0) 0"

definition v6_negate :: "ipv6 \<Rightarrow> ipv6" where
  "v6_negate a = Addr6 (NOT (v6_lo a)) (NOT (v6_hi a)) (v6_scope a)"

section \<open>Conversions\<close>

definition v6_from_ulong :: "u64 \<Rightarrow> ipv6" where
  "v6_from_ulong ul = Addr6 ul 0 0"

definition v6_to_ulong :: "ipv6 \<Rightarrow> u64 res" where
  "v6_to_ulong a =
     (if v6_hi a \<noteq> 0 then Inl (ipv6_exception ''overflow in conversion from IPv6.Addr to unsigned long'') else Inr (v6_lo a))"

definition v6_from_long :: "int \<Rightarrow> ipv6" where
  "v6_from_long ul = (if ul < 0 then v6_negate (Addr6 (word_of_int (- (ul + 1))) 0 0) else Addr6 (word_of_int ul) 0 0)"

text \<open>\<open>ret + 1\<close> overflows for the largest \<open>long\<close>.\<close>

definition v6_to_long :: "ipv6 \<Rightarrow> int res" where
  "v6_to_long a0 =
     (let neg = v6_hi a0 \<noteq> 0; a = (if neg then v6_negate a0 else a0); ret = sint (v6_lo a) in
      if v6_hi a \<noteq> 0 \<or> word_of_int ret \<noteq> v6_lo a
      then Inl (ipv6_exception ''overflow in conversion from IPv6.Addr to long'')
      else if neg then if ret = 2 ^ 63 - 1 then Inl undefined_behaviour else Inr (- (ret + 1))
      else Inr ret)"

definition v6_set_byte :: "nat \<Rightarrow> u8 \<Rightarrow> ipv6 \<Rightarrow> ipv6" where
  "v6_set_byte k b a =
     (let put = (\<lambda>w :: u64. (w AND NOT (push_bit (8 * (k mod 8)) 0xFF)) OR push_bit (8 * (k mod 8)) (ucast b)) in
      if k < 8 then Addr6 (put (v6_lo a)) (v6_hi a) (v6_scope a) else Addr6 (v6_lo a) (put (v6_hi a)) (v6_scope a))"

definition v6_get_byte :: "nat \<Rightarrow> ipv6 \<Rightarrow> u8" where
  "v6_get_byte k a = ucast (drop_bit (8 * (k mod 8)) (if k < 8 then v6_lo a else v6_hi a))"

text \<open>The loop of \<open>from_hex\<close>: pairs of digits from the front, a missing first digit read as zero.\<close>

fun v6_from_hex_loop :: "nat \<Rightarrow> string \<Rightarrow> ipv6 \<Rightarrow> ipv6 res" where
  "v6_from_hex_loop di (a # b # s) addr =
     (let bh = parse_hex_char a; bl = parse_hex_char b in
      if bh = -1 \<or> bl = -1 then Inl (ipv6_exception ''parse hex error'')
      else v6_from_hex_loop (di - 1) s (v6_set_byte di (word_of_int (bh * 16 + bl)) addr))"
| "v6_from_hex_loop di s addr = Inr addr"

definition v6_from_hex :: "string \<Rightarrow> ipv6 res" where
  "v6_from_hex s =
     (let s = (if s \<noteq> [] \<and> last s = CHR ''L'' then butlast s else s);
          d = (if length s \<ge> 2 \<and> s ! 0 = CHR ''0'' \<and> s ! 1 = CHR ''x'' then drop 2 s else s);
          len = length d in
      if len < 1 \<or> len > 32 then Inl (ipv6_exception ''parse hex error'')
      else v6_from_hex_loop ((len - 1) div 2) (if odd len then CHR ''0'' # d else d) v6_from_zero)"

fun v6_to_hex_loop :: "nat list \<Rightarrow> bool \<Rightarrow> ipv6 \<Rightarrow> string \<Rightarrow> string" where
  "v6_to_hex_loop [] firstnonzero a ret = ret"
| "v6_to_hex_loop (i # is) firstnonzero a ret =
     (let b = v6_get_byte (15 - i) a in
      if b \<noteq> 0 \<or> firstnonzero \<or> i = 15 then
        let bh = drop_bit 4 b;
            ret = (if bh \<noteq> 0 \<or> firstnonzero then ret @ [render_hex_char (uint bh) False] else ret) in
        v6_to_hex_loop is True a (ret @ [render_hex_char (uint (b AND 0x0F)) False])
      else v6_to_hex_loop is firstnonzero a ret)"

definition v6_to_hex :: "ipv6 \<Rightarrow> string" where
  "v6_to_hex a = v6_to_hex_loop [0..<16] False a []"

section \<open>Arithmetic\<close>

definition v6_and :: "ipv6 \<Rightarrow> ipv6 \<Rightarrow> ipv6" where
  "v6_and a b = Addr6 (v6_lo a AND v6_lo b) (v6_hi a AND v6_hi b) (v6_scope a)"

definition v6_or :: "ipv6 \<Rightarrow> ipv6 \<Rightarrow> ipv6" where
  "v6_or a b = Addr6 (v6_lo a OR v6_lo b) (v6_hi a OR v6_hi b) (v6_scope a)"

definition v6_not :: "ipv6 \<Rightarrow> ipv6" where
  "v6_not a = Addr6 (NOT (v6_lo a)) (NOT (v6_hi a)) (v6_scope a)"

definition v6_add_long :: "ipv6 \<Rightarrow> int \<Rightarrow> ipv6" where
  "v6_add_long a delta =
     (let lo = v6_lo a + word_of_int delta in
      Addr6 lo (v6_hi a + (if delta \<ge> 0 then if lo < v6_lo a then 1 else 0 else - (if lo > v6_lo a then 1 else 0)))
        (v6_scope a))"

definition v6_sub_long :: "ipv6 \<Rightarrow> int \<Rightarrow> ipv6" where
  "v6_sub_long a delta = v6_add_long a (- delta)"

definition v6_add :: "ipv6 \<Rightarrow> ipv6 \<Rightarrow> ipv6" where
  "v6_add a b =
     (let lo = v6_lo a + v6_lo b; hi = v6_hi a + v6_hi b in
      Addr6 lo (if lo < v6_lo a then hi + 1 else hi) (v6_scope a))"

definition v6_sub :: "ipv6 \<Rightarrow> ipv6 \<Rightarrow> ipv6" where
  "v6_sub a b =
     (let lo = v6_lo a - v6_lo b in
      Addr6 lo (v6_hi a - (v6_hi b + (if v6_lo a < lo then 1 else 0))) (v6_scope a))"

definition v6_inc :: "ipv6 \<Rightarrow> ipv6" where
  "v6_inc a =
     (let lo = v6_lo a + 1 in Addr6 lo (if lo = 0 then v6_hi a + 1 else v6_hi a) (v6_scope a))"

text \<open>The branch of \<open>shiftl128\<close> and of \<open>shiftr128\<close> for one place.\<close>

definition v6_shl1 :: "ipv6 \<Rightarrow> ipv6" where
  "v6_shl1 a =
     Addr6 (push_bit 1 (v6_lo a))
       (let hi = push_bit 1 (v6_hi a) in if v6_lo a AND push_bit 63 1 \<noteq> 0 then hi OR 1 else hi) (v6_scope a)"

definition v6_shr1 :: "ipv6 \<Rightarrow> ipv6" where
  "v6_shr1 a =
     Addr6 (let lo = drop_bit 1 (v6_lo a) in if v6_hi a AND 1 \<noteq> 0 then lo OR push_bit 63 1 else lo)
       (drop_bit 1 (v6_hi a)) (v6_scope a)"

text \<open>For a distance of 64 the code shifts a word by 64 places, which C++ leaves undefined.\<close>

definition v6_shl :: "ipv6 \<Rightarrow> nat \<Rightarrow> ipv6 res" where
  "v6_shl a n =
     (if n = 1 then Inr (v6_shl1 a)
      else if n = 0 then Inr a
      else if n \<le> 128 then
        (let (lo, hi, m) = (if n \<ge> 64 then (0, v6_lo a, n - 64) else (v6_lo a, v6_hi a, n)) in
         if m < 64 then
           if m = 0 then Inl undefined_behaviour
           else Inr (Addr6 (push_bit m lo) (push_bit m hi OR drop_bit (64 - m) lo) (v6_scope a))
         else Inr (Addr6 lo 0 (v6_scope a)))
      else Inl (ipv6_exception ''l-shift too large''))"

definition v6_shr :: "ipv6 \<Rightarrow> nat \<Rightarrow> ipv6 res" where
  "v6_shr a n =
     (if n = 1 then Inr (v6_shr1 a)
      else if n = 0 then Inr a
      else if n \<le> 128 then
        (let (lo, hi, m) = (if n \<ge> 64 then (v6_hi a, 0, n - 64) else (v6_lo a, v6_hi a, n)) in
         if m < 64 then
           if m = 0 then Inl undefined_behaviour
           else Inr (Addr6 (drop_bit m lo OR push_bit (64 - m) hi) (drop_bit m hi) (v6_scope a))
         else Inr (Addr6 0 hi (v6_scope a)))
      else Inl (ipv6_exception ''r-shift too large''))"

text \<open>Positions are below 128, as in all calls.\<close>

definition v6_bit :: "nat \<Rightarrow> ipv6 \<Rightarrow> bool" where
  "v6_bit pos a \<longleftrightarrow>
     (if pos < 64 then v6_lo a AND push_bit pos 1 \<noteq> 0 else v6_hi a AND push_bit (pos - 64) 1 \<noteq> 0)"

definition v6_set_bit :: "nat \<Rightarrow> bool \<Rightarrow> ipv6 \<Rightarrow> ipv6" where
  "v6_set_bit pos v a =
     (if v then
        if pos < 64 then Addr6 (v6_lo a OR push_bit pos 1) (v6_hi a) (v6_scope a)
        else Addr6 (v6_lo a) (v6_hi a OR push_bit (pos - 64) 1) (v6_scope a)
      else a)"

definition v6_set_clear_bit :: "nat \<Rightarrow> bool \<Rightarrow> ipv6 \<Rightarrow> ipv6" where
  "v6_set_clear_bit pos v a =
     (if pos < 64
      then Addr6 (if v then v6_lo a OR push_bit pos 1 else v6_lo a AND NOT (push_bit pos 1)) (v6_hi a) (v6_scope a)
      else Addr6 (v6_lo a) (if v then v6_hi a OR push_bit (pos - 64) 1 else v6_hi a AND NOT (push_bit (pos - 64) 1))
        (v6_scope a))"

definition v6_all_zeros :: "ipv6 \<Rightarrow> bool" where
  "v6_all_zeros a \<longleftrightarrow> v6_lo a = 0 \<and> v6_hi a = 0"

definition v6_all_ones :: "ipv6 \<Rightarrow> bool" where
  "v6_all_ones a \<longleftrightarrow> v6_lo a = NOT 0 \<and> v6_hi a = NOT 0"

definition v6_unspecified :: "ipv6 \<Rightarrow> bool" where "v6_unspecified a \<longleftrightarrow> v6_all_zeros a"
definition v6_specified :: "ipv6 \<Rightarrow> bool" where "v6_specified a \<longleftrightarrow> \<not> v6_unspecified a"
definition v6_is_loopback :: "ipv6 \<Rightarrow> bool" where "v6_is_loopback a \<longleftrightarrow> v6_hi a = 0 \<and> v6_lo a = 1"

text \<open>The loops of \<open>operator*\<close> and \<open>div\<close>; the state is that of the local variables before round \<open>i\<close>.\<close>

fun v6_mult_loop :: "nat list \<Rightarrow> ipv6 \<Rightarrow> ipv6 \<Rightarrow> ipv6 \<Rightarrow> ipv6" where
  "v6_mult_loop [] a m ret = ret"
| "v6_mult_loop (i # is) a m ret = v6_mult_loop is a (v6_shl1 m) (if v6_bit i a then v6_add ret m else ret)"

definition v6_mult :: "ipv6 \<Rightarrow> ipv6 \<Rightarrow> ipv6" where
  "v6_mult a d = v6_mult_loop [0..<V6_SIZE] a d v6_from_zero"

definition v6_div_step :: "nat \<Rightarrow> ipv6 \<times> ipv6 \<times> ipv6 \<times> ipv6 \<Rightarrow> ipv6 \<times> ipv6 \<times> ipv6 \<times> ipv6" where
  "v6_div_step i = (\<lambda>(q, r, ml, mh).
     let ml = v6_set_bit (V6_SIZE - 1) (v6_bit 0 mh) (v6_shr1 ml); mh = v6_shr1 mh in
     if v6_all_zeros mh \<and> r \<ge> ml then (v6_set_bit (V6_SIZE - 1 - i) True q, v6_sub r ml, ml, mh) else (q, r, ml, mh))"

definition v6_div_mod :: "ipv6 \<Rightarrow> ipv6 \<Rightarrow> (ipv6 \<times> ipv6) res" where
  "v6_div_mod n d =
     (if v6_all_zeros d then Inl (ipv6_exception ''division by 0'')
      else case fold v6_div_step [0..<V6_SIZE] (v6_from_zero, n, v6_from_zero, d) of (q, r, _) \<Rightarrow> Inr (q, r))"

definition v6_div :: "ipv6 \<Rightarrow> ipv6 \<Rightarrow> ipv6 res" where
  "v6_div a d = bindE (v6_div_mod a d) (\<lambda>(q, r). Inr q)"

definition v6_mod :: "ipv6 \<Rightarrow> ipv6 \<Rightarrow> ipv6 res" where
  "v6_mod a d = bindE (v6_div_mod a d) (\<lambda>(q, r). Inr r)"

section \<open>Netmasks\<close>

text \<open>\<open>1 << 31\<close> on \<open>int\<close> as in IPv4.\<close>

definition v6_prefix_len_to_netmask_unchecked :: "nat \<Rightarrow> u32 \<Rightarrow> ipv6" where
  "v6_prefix_len_to_netmask_unchecked n scope =
     (if n > 0 then
        let pl = n - 1; m = NOT (push_bit (31 - pl mod 32) 1 - 1) in
        if pl div 32 = 0 then v6_of_words 0 0 0 m scope
        else if pl div 32 = 1 then v6_of_words 0 0 m (NOT 0) scope
        else if pl div 32 = 2 then v6_of_words 0 m (NOT 0) (NOT 0) scope
        else v6_of_words m (NOT 0) (NOT 0) (NOT 0) scope
      else Addr6 0 0 scope)"

definition v6_netmask_from_prefix_len :: "nat \<Rightarrow> ipv6 res" where
  "v6_netmask_from_prefix_len n =
     (if n \<le> V6_SIZE then Inr (v6_prefix_len_to_netmask_unchecked n 0) else Inl (ipv6_exception ''bad prefix len''))"

fun v6_extent_search :: "nat list \<Rightarrow> ipv6 \<Rightarrow> ipv6 res" where
  "v6_extent_search [] lb = Inr v6_from_zero_complement"
| "v6_extent_search (i # is) lb =
     (let v = v6_word i lb in
      if v \<noteq> 0 then v6_netmask_from_prefix_len (V6_SIZE - (32 * i + find_last_set v)) else v6_extent_search is lb)"

definition v6_netmask_from_extent :: "ipv6 \<Rightarrow> ipv6 res" where
  "v6_netmask_from_extent a = v6_extent_search [3, 2, 1, 0] (v6_sub_long a 1)"

definition v6_network_addr :: "nat \<Rightarrow> ipv6 \<Rightarrow> ipv6 res" where
  "v6_network_addr n a = bindE (v6_netmask_from_prefix_len n) (\<lambda>m. Inr (v6_and a m))"

definition v6_prefix_len :: "ipv6 \<Rightarrow> nat res" where
  "v6_prefix_len a =
     (let idx = (if v6_word 3 a \<noteq> NOT 0 then if v6_word 0 a = 0 \<and> v6_word 1 a = 0 \<and> v6_word 2 a = 0 then 0 else -1
                 else if v6_word 2 a \<noteq> NOT 0 then if v6_word 0 a = 0 \<and> v6_word 1 a = 0 then 1 else -1
                 else if v6_word 1 a \<noteq> NOT 0 then if v6_word 0 a = 0 then 2 else -1
                 else 3 :: int) in
      if idx \<ge> 0 \<and> prefix_len_32 (v6_word (nat (3 - idx)) a) \<ge> 0
      then Inr (nat (prefix_len_32 (v6_word (nat (3 - idx)) a) + 32 * idx))
      else Inl (ipv6_exception ''malformed netmask''))"

definition v6_host_len :: "ipv6 \<Rightarrow> nat res" where
  "v6_host_len a = bindE (v6_prefix_len a) (\<lambda>n. Inr (V6_SIZE - n))"

definition v6_extent_from_netmask :: "bool \<Rightarrow> ipv6 \<Rightarrow> ipv6 res" where
  "v6_extent_from_netmask big a =
     bindE (v6_host_len a) (\<lambda>hl.
       if hl < V6_SIZE then v6_shl (v6_from_one big) hl
       else if hl = V6_SIZE then Inr v6_from_zero
       else Inl (ipv6_exception ''extent overflow''))"

end
