(* ===== verification/IPv6Props.thy ===== *)
theory IPv6Props
  imports IPv6
begin

text \<open>
  The arithmetic of \<open>IPv6::Addr\<close>, which works on two 64-bit words, is that of 128-bit words; netmasks and
  their lengths are inverse.
\<close>

section \<open>Addresses as 128-bit words\<close>

definition v6_val :: "ipv6 \<Rightarrow> 128 word" where
  "v6_val a = word_cat (v6_hi a) (v6_lo a)"

lemma v6_val_bit: "bit (v6_val a) k \<longleftrightarrow> k < 128 \<and> (if k < 64 then bit (v6_lo a) k else bit (v6_hi a) (k - 64))"
  by (simp add: v6_val_def bit_word_cat_iff)

lemma v6_val_unat: "unat (v6_val a) = unat (v6_hi a) * 2 ^ 64 + unat (v6_lo a)"
proof -
  have "v6_val a = push_bit 64 (ucast (v6_hi a)) + ucast (v6_lo a)" by (simp add: v6_val_def word_cat_eq)
  moreover have "unat (v6_hi a) * 2 ^ 64 + unat (v6_lo a) < 2 ^ 128"
  proof -
    have "unat (v6_hi a) < 2 ^ 64" "unat (v6_lo a) < 2 ^ 64"
      using unsigned_less [of "v6_hi a", where 'a = nat] unsigned_less [of "v6_lo a", where 'a = nat] by simp_all
    then show ?thesis by simp
  qed
  ultimately show ?thesis
    by (simp add: unat_word_ariths unsigned_push_bit_eq push_bit_eq_mult unsigned_ucast_eq take_bit_eq_mod mult.commute)
qed

lemma v6_val_eqI: "v6_val a = v6_val b \<longleftrightarrow> v6_hi a = v6_hi b \<and> v6_lo a = v6_lo b"
proof
  assume e: "v6_val a = v6_val b"
  have "bit (v6_lo a) k = bit (v6_lo b) k" "bit (v6_hi a) k = bit (v6_hi b) k" if "k < 64" for k
  proof -
    have "bit (v6_val a) k = bit (v6_val b) k" "bit (v6_val a) (k + 64) = bit (v6_val b) (k + 64)" using e by simp_all
    with that show "bit (v6_lo a) k = bit (v6_lo b) k" "bit (v6_hi a) k = bit (v6_hi b) k" by (simp_all add: v6_val_bit)
  qed
  then show "v6_hi a = v6_hi b \<and> v6_lo a = v6_lo b" by (auto intro: bit_word_eqI)
qed (simp add: v6_val_def)

lemma v6_val_bits:
  "v6_val (v6_and a b) = v6_val a AND v6_val b" "v6_val (v6_or a b) = v6_val a OR v6_val b" "v6_val (v6_not a) = NOT (v6_val a)"
  by (rule bit_word_eqI; auto simp: v6_val_bit v6_and_def v6_or_def v6_not_def bit_and_iff bit_or_iff bit_not_iff)+

lemma v6_val_zero: "v6_val (Addr6 0 0 s) = 0" "v6_val v6_from_zero = 0"
  by (simp_all add: v6_val_def v6_from_zero_def word_cat_eq)

lemma v6_all_zeros_val: "v6_all_zeros a \<longleftrightarrow> v6_val a = 0"
  using v6_val_eqI [of a v6_from_zero] by (auto simp: v6_all_zeros_def v6_val_zero v6_from_zero_def)

lemma bit_push_one: "bit (push_bit k 1 :: 'a::len word) n \<longleftrightarrow> n = k \<and> n < LENGTH('a)"
  by (auto simp: bit_simps)

lemma and_push_bit_one:
  fixes w :: "'a::len word"
  shows "w AND push_bit k 1 \<noteq> 0 \<longleftrightarrow> bit w k"
proof
  assume "w AND push_bit k 1 \<noteq> 0"
  then obtain n where "bit (w AND push_bit k 1) n" by (auto simp: bit_eq_iff)
  then show "bit w k" by (auto simp: bit_and_iff bit_push_one simp del: push_bit_of_1)
next
  assume "bit w k"
  then have "bit (w AND push_bit k 1) k" by (simp add: bit_and_iff bit_push_one bit_imp_le_length del: push_bit_of_1)
  then show "w AND push_bit k 1 \<noteq> 0" by (metis bit_0_eq bot_fun_def bot_bool_def)
qed

declare push_bit_of_1 [simp del]

lemma v6_bit_val: "k < 128 \<Longrightarrow> v6_bit k a \<longleftrightarrow> bit (v6_val a) k"
  by (simp add: v6_bit_def v6_val_bit and_push_bit_one)

lemma v6_set_bit_val: "k < 128 \<Longrightarrow> v6_val (v6_set_bit k v a) = (if v then v6_val a OR push_bit k 1 else v6_val a)"
  by (rule bit_word_eqI) (auto simp: v6_set_bit_def v6_val_bit bit_or_iff bit_push_one)

lemma bit_shift_one: "bit (push_bit 1 w) n \<longleftrightarrow> n < LENGTH('a) \<and> 0 < n \<and> bit w (n - 1)"
    "bit (drop_bit 1 w) n \<longleftrightarrow> bit w (Suc n)" for w :: "'a::len word"
  by (auto simp: bit_push_bit_iff bit_drop_bit_eq Suc_le_eq simp del: push_bit_Suc drop_bit_Suc)

lemma v6_shift1_val: "v6_val (v6_shl1 a) = push_bit 1 (v6_val a)" "v6_val (v6_shr1 a) = drop_bit 1 (v6_val a)"
proof -
  have h: "v6_lo a AND push_bit 63 1 \<noteq> 0 \<longleftrightarrow> bit (v6_lo a) 63" "v6_hi a AND 1 \<noteq> 0 \<longleftrightarrow> bit (v6_hi a) 0"
    using and_push_bit_one [of "v6_lo a" 63] and_push_bit_one [of "v6_hi a" 0] by (simp_all del: push_bit_of_1)
  have "bit (v6_val (v6_shl1 a)) n \<longleftrightarrow> n < LENGTH(128) \<and> 0 < n \<and> bit (v6_val a) (n - 1)" if "n < LENGTH(128)" for n
  proof -
    consider "n = 0" | "0 < n" "n < 64" | "n = 64" | "64 < n" by linarith
    then show ?thesis
      using that unfolding v6_shl1_def Let_def h
      by cases (auto simp: v6_val_bit bit_shift_one bit_or_iff bit_1_iff simp del: One_nat_def)
  qed
  then show "v6_val (v6_shl1 a) = push_bit 1 (v6_val a)" by (intro bit_word_eqI) (simp only: bit_shift_one)
  have "bit (v6_val (v6_shr1 a)) n \<longleftrightarrow> bit (v6_val a) (Suc n)" if "n < LENGTH(128)" for n
  proof -
    have out: "\<not> bit (v6_lo a) k" "\<not> bit (v6_hi a) k" if "64 \<le> k" for k
      using that bit_imp_le_length [of "v6_lo a" k] bit_imp_le_length [of "v6_hi a" k] by auto
    consider "n < 63" | "n = 63" | "63 < n" "n < 127" "Suc (n - 64) = n - 63" | "127 \<le> n" by linarith
    then show ?thesis
      using that unfolding v6_shr1_def Let_def h
      by cases (auto simp: v6_val_bit bit_shift_one bit_or_iff bit_push_one out simp del: One_nat_def)
  qed
  then show "v6_val (v6_shr1 a) = drop_bit 1 (v6_val a)" by (intro bit_word_eqI) (simp only: bit_shift_one)
qed

lemma v6_val_int: "v6_val (Addr6 lo (word_of_int h) s) = word_of_int (h * 2 ^ 64 + uint lo)"
proof -
  define q where "q = h div 2 ^ 64"
  have "uint (word_of_int h :: u64) = h - 2 ^ 64 * q" by (simp add: uint_word_of_int q_def minus_mult_div_eq_mod)
  then have "int (unat (v6_val (Addr6 lo (word_of_int h) s))) = (h - 2 ^ 64 * q) * 2 ^ 64 + uint lo"
    by (simp add: v6_val_unat flip: uint_nat)
  then have "v6_val (Addr6 lo (word_of_int h) s) = word_of_int ((h - 2 ^ 64 * q) * 2 ^ 64 + uint lo)"
    by (metis uint_nat word_of_int_uint)
  also have "(h - 2 ^ 64 * q) * 2 ^ 64 + uint lo = (h * 2 ^ 64 + uint lo) - 2 ^ 128 * q" by simp
  also have "(word_of_int ((h * 2 ^ 64 + uint lo) - 2 ^ 128 * q) :: 128 word) = word_of_int (h * 2 ^ 64 + uint lo)"
  proof -
    have "(of_int (2 ^ 128) :: 128 word) = 0" by simp
    then show ?thesis by (simp only: of_int_diff of_int_mult mult_zero_left diff_zero)
  qed
  finally show ?thesis .
qed

lemma v6_val_uint: "v6_val a = word_of_int (uint (v6_hi a) * 2 ^ 64 + uint (v6_lo a))"
  using v6_val_int [of "v6_lo a" "uint (v6_hi a)" "v6_scope a"] by simp

lemma uint_bound64: "uint (w :: u64) < 2 ^ 64"
  using unsigned_less [of w, where 'a = int] by simp

lemma v6_add_val: "v6_val (v6_add a b) = v6_val a + v6_val b"
proof -
  let ?c = "if v6_lo a + v6_lo b < v6_lo a then 1 else 0 :: int"
  have lo: "uint (v6_lo a + v6_lo b) = uint (v6_lo a) + uint (v6_lo b) - ?c * 2 ^ 64"
    using uint_add_lem [of "v6_lo a" "v6_lo b"] uint_plus_if' [of "v6_lo a" "v6_lo b"]
      uint_bound64 [of "v6_lo a"] uint_bound64 [of "v6_lo b"]
    by (auto simp: word_less_def split: if_splits)
  have "v6_add a b = Addr6 (v6_lo a + v6_lo b) (word_of_int (uint (v6_hi a) + uint (v6_hi b) + ?c)) (v6_scope a)"
    by (simp add: v6_add_def Let_def)
  then have "v6_val (v6_add a b) = word_of_int ((uint (v6_hi a) + uint (v6_hi b) + ?c) * 2 ^ 64 + uint (v6_lo a + v6_lo b))"
    by (simp only: v6_val_int)
  also have "(uint (v6_hi a) + uint (v6_hi b) + ?c) * 2 ^ 64 + uint (v6_lo a + v6_lo b)
      = (uint (v6_hi a) * 2 ^ 64 + uint (v6_lo a)) + (uint (v6_hi b) * 2 ^ 64 + uint (v6_lo b))"
    unfolding lo by (simp add: algebra_simps)
  finally show ?thesis by (simp only: v6_val_uint of_int_add)
qed

lemma v6_sub_val: "v6_val (v6_sub a b) = v6_val a - v6_val b"
proof -
  let ?c = "if v6_lo a < v6_lo a - v6_lo b then 1 else 0 :: int"
  have lo: "uint (v6_lo a - v6_lo b) = uint (v6_lo a) - uint (v6_lo b) + ?c * 2 ^ 64"
    using uint_sub_if' [of "v6_lo a" "v6_lo b"] uint_bound64 [of "v6_lo a"] uint_bound64 [of "v6_lo b"]
    by (auto simp: word_less_def split: if_splits)
  have "v6_sub a b = Addr6 (v6_lo a - v6_lo b) (word_of_int (uint (v6_hi a) - uint (v6_hi b) - ?c)) (v6_scope a)"
    by (simp add: v6_sub_def Let_def)
  then have "v6_val (v6_sub a b) = word_of_int ((uint (v6_hi a) - uint (v6_hi b) - ?c) * 2 ^ 64 + uint (v6_lo a - v6_lo b))"
    by (simp only: v6_val_int)
  also have "(uint (v6_hi a) - uint (v6_hi b) - ?c) * 2 ^ 64 + uint (v6_lo a - v6_lo b)
      = (uint (v6_hi a) * 2 ^ 64 + uint (v6_lo a)) - (uint (v6_hi b) * 2 ^ 64 + uint (v6_lo b))"
    unfolding lo by (simp add: algebra_simps)
  finally show ?thesis by (simp only: v6_val_uint of_int_diff)
qed

lemma mod_once:
  fixes u d :: int
  assumes u: "0 \<le> u" "u < 2 ^ 64" and d: "- (2 ^ 63) \<le> d" "d < 2 ^ 63"
  shows "(u + d) mod 2 ^ 64 = (if u + d < 0 then u + d + 2 ^ 64 else if u + d < 2 ^ 64 then u + d else u + d - 2 ^ 64)"
proof -
  have "(u + d) mod 2 ^ 64 = (u + d + 2 ^ 64) mod 2 ^ 64" "(u + d) mod 2 ^ 64 = (u + d - 2 ^ 64) mod 2 ^ 64" by simp_all
  then show ?thesis
    using u d mod_pos_pos_trivial [of "u + d" "2 ^ 64"] mod_pos_pos_trivial [of "u + d + 2 ^ 64" "2 ^ 64"]
      mod_pos_pos_trivial [of "u + d - 2 ^ 64" "2 ^ 64"] by simp
qed

lemma carry_once:
  fixes u d v :: int
  assumes "v = (u + d) mod 2 ^ 64" "0 \<le> u" "u < 2 ^ 64" "- (2 ^ 63) \<le> d" "d < 2 ^ 63"
  shows "v = u + d - (if d \<ge> 0 then if v < u then 1 else 0 else - (if v > u then 1 else 0)) * 2 ^ 64"
  using assms(1) [unfolded mod_once [OF assms(2-5)]] assms(2-5) by (simp split: if_splits)

lemma v6_add_long_val:
  assumes d: "- (2 ^ 63) \<le> d" "d < 2 ^ 63"
  shows "v6_val (v6_add_long a d) = v6_val a + word_of_int d"
proof -
  let ?lo = "v6_lo a + word_of_int d"
  let ?c = "if d \<ge> 0 then if ?lo < v6_lo a then 1 else 0 else - (if ?lo > v6_lo a then 1 else 0) :: int"
  have m: "uint ?lo = (uint (v6_lo a) + d) mod 2 ^ 64" by (simp add: uint_word_ariths uint_word_of_int mod_add_right_eq)
  have b: "0 \<le> uint (v6_lo a)" "uint (v6_lo a) < 2 ^ 64" using uint_bound64 by simp_all
  have lo: "uint ?lo = uint (v6_lo a) + d - ?c * 2 ^ 64"
    using carry_once [OF m b d] by (simp only: word_less_def)
  have "v6_add_long a d = Addr6 ?lo (word_of_int (uint (v6_hi a) + ?c)) (v6_scope a)"
    by (simp add: v6_add_long_def Let_def)
  then have "v6_val (v6_add_long a d) = word_of_int ((uint (v6_hi a) + ?c) * 2 ^ 64 + uint ?lo)"
    by (simp only: v6_val_int)
  also have "(uint (v6_hi a) + ?c) * 2 ^ 64 + uint ?lo = (uint (v6_hi a) * 2 ^ 64 + uint (v6_lo a)) + d"
    unfolding lo by (simp add: algebra_simps)
  finally show ?thesis by (simp only: v6_val_uint of_int_add)
qed

lemma v6_inc_val: "v6_val (v6_inc a) = v6_val a + 1"
proof -
  have "uint (v6_lo a) + 1 \<noteq> 0" using unsigned_greater_eq [of "v6_lo a", where 'a = int] by linarith
  then have "v6_lo a + 1 < v6_lo a \<longleftrightarrow> v6_lo a + 1 = 0"
    using uint_plus_if' [of "v6_lo a" 1] uint_bound64 [of "v6_lo a"]
    by (auto simp: word_less_def word_uint_eq_iff split: if_splits)
  then have "v6_inc a = v6_add_long a 1" by (simp add: v6_inc_def v6_add_long_def Let_def)
  then show ?thesis using v6_add_long_val [of 1 a] by simp
qed

lemma bit_out64: "64 \<le> k \<Longrightarrow> \<not> bit (w :: u64) k"
  using bit_imp_le_length [of w k] by auto

lemma bit_in64: "bit (w :: u64) k \<Longrightarrow> k < 64"
  using bit_imp_le_length [of w k] by simp

text \<open>Shifts by up to 128 places, but not by 64.\<close>

lemma v6_shl_val:
  assumes "n \<le> 128" "n \<noteq> 64"
  shows "\<exists>b. v6_shl a n = Inr b \<and> v6_val b = push_bit n (v6_val a)"
proof -
  consider "n = 1" | "n = 0" | "1 < n" "n < 64" | "64 < n" "n < 128" | "n = 128" using assms by linarith
  then show ?thesis
  proof cases
    case 3
    let ?b = "Addr6 (push_bit n (v6_lo a)) (push_bit n (v6_hi a) OR drop_bit (64 - n) (v6_lo a)) (v6_scope a)"
    have "v6_val ?b = push_bit n (v6_val a)"
      by (rule bit_word_eqI)
        (use 3 in \<open>auto simp: v6_val_bit bit_push_bit_iff bit_or_iff bit_drop_bit_eq bit_out64 add.commute [of n]\<close>)
    then show ?thesis using 3 by (simp add: v6_shl_def)
  next
    case 4
    let ?b = "Addr6 0 (push_bit (n - 64) (v6_lo a)) (v6_scope a)"
    have "v6_val ?b = push_bit n (v6_val a)"
      by (rule bit_word_eqI) (use 4 in \<open>auto simp: v6_val_bit bit_push_bit_iff bit_out64\<close>)
    then show ?thesis using 4 by (simp add: v6_shl_def less_diff_conv2)
  next
    case 5
    have "push_bit 128 (v6_val a) = 0" by (simp add: bit_eq_iff bit_push_bit_iff)
    then show ?thesis using 5 by (simp add: v6_shl_def v6_val_zero)
  qed (simp_all add: v6_shl_def v6_shift1_val del: One_nat_def)
qed

lemma v6_shr_val:
  assumes "n \<le> 128" "n \<noteq> 64"
  shows "\<exists>b. v6_shr a n = Inr b \<and> v6_val b = drop_bit n (v6_val a)"
proof -
  consider "n = 1" | "n = 0" | "1 < n" "n < 64" | "64 < n" "n < 128" | "n = 128" using assms by linarith
  then show ?thesis
  proof cases
    case 3
    let ?b = "Addr6 (drop_bit n (v6_lo a) OR push_bit (64 - n) (v6_hi a)) (drop_bit n (v6_hi a)) (v6_scope a)"
    have "v6_val ?b = drop_bit n (v6_val a)"
      by (rule bit_word_eqI)
        (use 3 in \<open>auto simp: v6_val_bit bit_push_bit_iff bit_or_iff bit_drop_bit_eq bit_out64 add.commute [of n]
            dest: bit_in64\<close>)
    then show ?thesis using 3 by (simp add: v6_shr_def)
  next
    case 4
    let ?b = "Addr6 (drop_bit (n - 64) (v6_hi a)) 0 (v6_scope a)"
    have "v6_val ?b = drop_bit n (v6_val a)"
      by (rule bit_word_eqI) (use 4 in \<open>auto simp: v6_val_bit bit_drop_bit_eq bit_out64 add.commute [of n] dest: bit_in64\<close>)
    then show ?thesis using 4 by (simp add: v6_shr_def less_diff_conv2)
  next
    case 5
    have "drop_bit 128 (v6_val a) = 0" by (simp add: bit_eq_iff bit_drop_bit_eq v6_val_bit)
    then show ?thesis using 5 by (simp add: v6_shr_def v6_val_zero)
  qed (simp_all add: v6_shr_def v6_shift1_val del: One_nat_def)
qed

section \<open>Multiplication and division\<close>

lemma drop_bit_step:
  fixes w :: "'a::len word"
  shows "drop_bit i w = 2 * drop_bit (Suc i) w + of_bool (bit w i)"
proof -
  have "drop_bit i w = drop_bit i w div 2 * 2 + drop_bit i w mod 2" by (rule div_mult_mod_eq [symmetric])
  also have "drop_bit i w mod 2 = of_bool (bit w i)" by (simp add: mod_2_eq_odd bit_iff_odd_drop_bit)
  finally show ?thesis by (simp add: drop_bit_Suc drop_bit_half mult.commute)
qed

lemma drop_all: "drop_bit 128 (w :: 128 word) = 0"
  by (rule bit_word_eqI) (auto simp: bit_drop_bit_eq dest: bit_imp_le_length)

lemma v6_mult_loop_val:
  "i \<le> 128 \<Longrightarrow> v6_val (v6_mult_loop [i..<128] a m ret) = v6_val ret + drop_bit i (v6_val a) * v6_val m"
proof (induction "128 - i" arbitrary: i m ret)
  case 0
  then have "i = 128" by simp
  then show ?case by (simp add: drop_all)
next
  case (Suc k)
  then have i: "i < 128" "[i..<128] = i # [Suc i..<128]" "k = 128 - Suc i" "Suc i \<le> 128" by (simp_all add: upt_conv_Cons)
  let ?r = "if v6_bit i a then v6_add ret m else ret"
  have "v6_val (v6_mult_loop [i..<128] a m ret) = v6_val ?r + drop_bit (Suc i) (v6_val a) * push_bit 1 (v6_val m)"
    using Suc(1) [OF i(3,4), of "v6_shl1 m" ?r] i(2) by (simp add: v6_shift1_val del: One_nat_def)
  also have "v6_val ?r = v6_val ret + of_bool (bit (v6_val a) i) * v6_val m"
    using i(1) by (simp add: v6_bit_val v6_add_val)
  finally show ?case
    by (subst drop_bit_step) (simp add: push_bit_eq_mult algebra_simps)
qed

lemma v6_mult_val: "v6_val (v6_mult a d) = v6_val a * v6_val d"
  using v6_mult_loop_val [of 0 a d v6_from_zero] by (simp add: v6_mult_def V6_SIZE_def v6_val_zero)

text \<open>
  Long division: before round \<open>i\<close> the shifted divisor in \<open>mh\<close> and \<open>ml\<close> is \<open>d * 2 ^ (128 - i)\<close>, the
  quotient so far is a multiple of \<open>2 ^ (128 - i)\<close> and the remainder is below the shifted divisor.
\<close>

abbreviation v6_nat :: "ipv6 \<Rightarrow> nat" where
  "v6_nat a \<equiv> unat (v6_val a)"

lemma v6_nat_bound: "v6_nat a < 2 ^ 128"
  using unsigned_less [of "v6_val a", where 'a = nat] by simp

definition div_inv :: "nat \<Rightarrow> nat \<Rightarrow> nat \<Rightarrow> ipv6 \<times> ipv6 \<times> ipv6 \<times> ipv6 \<Rightarrow> bool" where
  "div_inv n d i = (\<lambda>(q, r, ml, mh). v6_scope ml = 0 \<and> v6_nat mh * 2 ^ 128 + v6_nat ml = d * 2 ^ (128 - i)
     \<and> n = v6_nat q * d + v6_nat r \<and> v6_nat r < d * 2 ^ (128 - i) \<and> 2 ^ (128 - i) dvd v6_nat q)"

lemma unat_set_bit:
  fixes w :: "128 word"
  assumes "k < 128" "\<not> bit w k"
  shows "unat (w OR push_bit k 1) = unat w + 2 ^ k"
proof -
  have "w AND push_bit k 1 = 0" using and_push_bit_one [of w k] assms(2) by blast
  then have "unat w AND unat (push_bit k 1 :: 128 word) = 0" by (metis unsigned_and_eq unsigned_0)
  then have "unat (w OR push_bit k 1) = unat w + unat (push_bit k 1 :: 128 word)"
    by (simp add: unsigned_or_eq disjunctive_add_eq_or)
  moreover have "(2 :: nat) ^ k mod 2 ^ 128 = 2 ^ k"
    by (rule mod_less, rule power_strict_increasing) (use assms(1) in simp_all)
  then have "unat (push_bit k 1 :: 128 word) = 2 ^ k"
    unfolding unsigned_push_bit_eq by (simp add: take_bit_eq_mod push_bit_eq_mult)
  ultimately show ?thesis by simp
qed

lemma v6_le_nat: "v6_scope a = 0 \<Longrightarrow> a \<le> b \<longleftrightarrow> v6_nat a \<le> v6_nat b"
  using unsigned_less [of "v6_lo a", where 'a = nat] unsigned_less [of "v6_lo b", where 'a = nat]
  by (auto simp: less_eq_ipv6_def v6_val_unat word_le_nat_alt word_unat_eq_iff)

lemma halve_join: "(x div 2) * 2 ^ 128 + (y div 2 + (x mod 2) * 2 ^ 127) = (x * 2 ^ 128 + y) div (2 :: nat)"
proof -
  have "u * 2 ^ 128 + (z + v * 2 ^ 127) = (2 * u + v) * 2 ^ 127 + z" for u v z :: nat by simp
  from this [of "x div 2" "y div 2" "x mod 2"] show ?thesis by simp
qed

lemma v6_halve:
  defines "ml' \<equiv> \<lambda>mh ml. v6_set_bit 127 (v6_bit 0 mh) (v6_shr1 ml)"
  shows "v6_nat (v6_shr1 mh) * 2 ^ 128 + v6_nat (ml' mh ml) = (v6_nat mh * 2 ^ 128 + v6_nat ml) div 2"
    and "v6_scope (ml' mh ml) = v6_scope ml"
proof -
  have half: "v6_nat (v6_shr1 a) = v6_nat a div 2" for a
    unfolding v6_shift1_val unat_drop_bit_eq by (simp add: drop_bit_Suc)
  have top: "\<not> bit (v6_val (v6_shr1 ml)) 127"
    using bit_imp_le_length [of "v6_val ml" 128] by (auto simp: v6_shift1_val bit_shift_one simp del: One_nat_def)
  have odd: "v6_bit 0 mh \<longleftrightarrow> odd (v6_nat mh)" 
    using bit_unsigned_iff [of "v6_val mh" 0, where 'a = nat] by (simp add: v6_bit_val bit_0)
  have "v6_nat (ml' mh ml) = v6_nat ml div 2 + (v6_nat mh mod 2) * 2 ^ 127"
    using unat_set_bit [OF _ top] by (simp add: ml'_def v6_set_bit_val half odd mod2_eq_if)
  then show "v6_nat (v6_shr1 mh) * 2 ^ 128 + v6_nat (ml' mh ml) = (v6_nat mh * 2 ^ 128 + v6_nat ml) div 2"
    unfolding half using halve_join [of "v6_nat mh" "v6_nat ml"] by simp
  show "v6_scope (ml' mh ml) = v6_scope ml" by (simp add: ml'_def v6_set_bit_def v6_shr1_def)
qed

lemma v6_div_step_inv:
  assumes inv: "div_inv n d i s" and i: "i < 128"
  shows "div_inv n d (Suc i) (v6_div_step i s)"
proof -
  obtain q r ml mh where s: "s = (q, r, ml, mh)" by (cases s)
  let ?ml = "v6_set_bit 127 (v6_bit 0 mh) (v6_shr1 ml)" and ?mh = "v6_shr1 mh" and ?e = "2 ^ (127 - i) :: nat"
  have e: "(2 :: nat) ^ (128 - i) = 2 * ?e" using i by (simp add: Suc_diff_Suc flip: power_Suc)
  have I: "v6_scope ml = 0" "v6_nat mh * 2 ^ 128 + v6_nat ml = d * (2 * ?e)" "n = v6_nat q * d + v6_nat r"
    "v6_nat r < d * (2 * ?e)" "2 * ?e dvd v6_nat q" using inv s e by (simp_all add: div_inv_def)
  have m: "v6_nat ?mh * 2 ^ 128 + v6_nat ?ml = d * ?e" "v6_scope ?ml = 0"
    using v6_halve [of mh ml] I(1,2) by simp_all
  have test: "v6_all_zeros ?mh \<and> ?ml \<le> r \<longleftrightarrow> d * ?e \<le> v6_nat r"
  proof (cases "v6_nat ?mh = 0")
    case True
    then have "v6_val ?mh = 0" by (simp add: word_unat_eq_iff)
    then show ?thesis using True m v6_le_nat [OF m(2), of r] by (simp add: v6_all_zeros_val)
  next
    case False
    then have "2 ^ 128 \<le> v6_nat ?mh * 2 ^ 128" by simp
    then have "v6_nat r < d * ?e" using m(1) v6_nat_bound [of r] by linarith
    moreover have "v6_val ?mh \<noteq> 0" using False by auto
    ultimately show ?thesis by (simp add: v6_all_zeros_val)
  qed
  have nb: "\<not> bit (v6_val q) (127 - i)"
  proof -
    obtain c where c: "v6_nat q = 2 ^ Suc (127 - i) * c" using I(5) by (auto elim: dvdE)
    then have "\<not> bit (v6_nat q) (127 - i)" by (simp add: bit_iff_odd)
    then show ?thesis using i by (simp add: bit_unsigned_iff)
  qed
  show ?thesis
  proof (cases "d * ?e \<le> v6_nat r")
    case True
    have ml: "v6_nat ?ml = d * ?e" using True test m(1) by (simp add: v6_all_zeros_val)
    have "v6_nat (v6_sub r ?ml) = v6_nat r - d * ?e"
      using True ml by (simp add: v6_sub_val unat_sub_if' word_le_nat_alt)
    moreover have "v6_nat (v6_set_bit (127 - i) True q) = v6_nat q + ?e"
      using unat_set_bit [OF _ nb] by (simp add: v6_set_bit_val)
    moreover have "?e dvd v6_nat q + ?e" using I(5) by (simp add: dvd_mult_right)
    moreover have "n = (v6_nat q + ?e) * d + (v6_nat r - d * ?e)" using I(3) True by (simp add: algebra_simps)
    moreover have "v6_nat r - d * ?e < d * ?e" using I(4) True by linarith
    ultimately show ?thesis
      using s test True m by (simp add: v6_div_step_def div_inv_def V6_SIZE_def Let_def)
  next
    case False
    have "?e dvd v6_nat q" using I(5) by (simp add: dvd_mult_right)
    then show ?thesis using s test False m I(3) by (auto simp: v6_div_step_def div_inv_def V6_SIZE_def Let_def)
  qed
qed

lemma v6_div_mod_val:
  assumes "v6_val d \<noteq> 0"
  shows "\<exists>q r. v6_div_mod n d = Inr (q, r) \<and> v6_val q = v6_val n div v6_val d \<and> v6_val r = v6_val n mod v6_val d"
proof -
  let ?s = "\<lambda>i. fold v6_div_step [0..<i] (v6_from_zero, n, v6_from_zero, d)"
  have pos: "0 < v6_nat d" using assms by (simp add: unat_gt_0)
  have "div_inv (v6_nat n) (v6_nat d) i (?s i)" if "i \<le> 128" for i
    using that
  proof (induction i)
    case 0
    have "v6_nat n < v6_nat d * 2 ^ 128" using v6_nat_bound [of n] pos by (simp add: less_le_trans)
    then show ?case by (simp add: div_inv_def v6_val_zero v6_from_zero_def)
  next
    case (Suc i)
    then show ?case by (simp add: v6_div_step_inv)
  qed
  then have inv: "div_inv (v6_nat n) (v6_nat d) 128 (?s 128)" by simp
  obtain q r ml mh where s: "?s 128 = (q, r, ml, mh)" by (cases "?s 128")
  have "v6_nat n = v6_nat q * v6_nat d + v6_nat r" "v6_nat r < v6_nat d" using inv s by (simp_all add: div_inv_def)
  then have "v6_nat q = v6_nat n div v6_nat d" "v6_nat r = v6_nat n mod v6_nat d" by simp_all
  then have "v6_val q = v6_val n div v6_val d" "v6_val r = v6_val n mod v6_val d"
    by (simp_all add: word_unat_eq_iff unat_div_distrib unat_mod_distrib)
  moreover have "v6_div_mod n d = Inr (q, r)" using s assms by (simp add: v6_div_mod_def V6_SIZE_def v6_all_zeros_val)
  ultimately show ?thesis by blast
qed

section \<open>Netmasks\<close>

lemma v6_word_bit: "i < 4 \<Longrightarrow> j < 32 \<Longrightarrow> bit (v6_word i a) j \<longleftrightarrow> bit (v6_val a) (32 * i + j)"
proof -
  assume a: "i < 4" "j < 32"
  then consider "i = 0" | "i = 1" | "i = 2" | "i = 3" by linarith
  then show ?thesis using a by cases (simp_all add: v6_word_def v6_val_bit bit_ucast_iff bit_drop_bit_eq)
qed

lemma v6_words_eq: "(\<forall>i<4. v6_word i a = v6_word i b) \<Longrightarrow> v6_val a = v6_val b"
proof (rule bit_word_eqI)
  fix n assume w: "\<forall>i<4. v6_word i a = v6_word i b" and n: "n < LENGTH(128)"
  have "bit (v6_val c) n \<longleftrightarrow> bit (v6_word (n div 32) c) (n mod 32)" for c
    using n v6_word_bit [of "n div 32" "n mod 32" c] by (simp add: less_mult_imp_div_less)
  then show "bit (v6_val a) n = bit (v6_val b) n" using w n by (simp add: less_mult_imp_div_less)
qed

text \<open>Word \<open>i\<close> of the netmask of length \<open>n\<close>.\<close>

definition mask_word :: "nat \<Rightarrow> nat \<Rightarrow> u32" where
  "mask_word n i = prefix_len_to_netmask_unchecked (min 32 (n - 32 * (3 - i)))"

lemma netmask32_bit: "k \<le> 32 \<Longrightarrow> j < 32 \<Longrightarrow> bit (prefix_len_to_netmask_unchecked k) j \<longleftrightarrow> 32 - k \<le> j"
  by (auto simp: prefix_len_to_netmask_unchecked_def V4_SIZE_def extent_minus_one bit_not_iff bit_mask_iff)

lemma v6_val_netmask:
  assumes "n \<le> 128"
  shows "v6_val a = NOT (mask (128 - n)) \<longleftrightarrow> (\<forall>i<4. v6_word i a = mask_word n i)"
proof -
  have b: "bit (mask_word n i) j \<longleftrightarrow> 128 - n \<le> 32 * i + j" if "i < 4" "j < 32" for i j
    using that assms by (auto simp: mask_word_def netmask32_bit)
  have "v6_val a = NOT (mask (128 - n)) \<longleftrightarrow> (\<forall>m<128. bit (v6_val a) m \<longleftrightarrow> 128 - n \<le> m)"
    by (auto simp: bit_eq_iff bit_not_iff bit_mask_iff not_less)
  also have "\<dots> \<longleftrightarrow> (\<forall>i<4. \<forall>j<32. bit (v6_val a) (32 * i + j) \<longleftrightarrow> 128 - n \<le> 32 * i + j)"
  proof
    assume h: "\<forall>i<4. \<forall>j<32. bit (v6_val a) (32 * i + j) \<longleftrightarrow> 128 - n \<le> 32 * i + j"
    show "\<forall>m<128. bit (v6_val a) m \<longleftrightarrow> 128 - n \<le> m"
    proof (rule allI, rule impI)
      fix m assume "m < (128 :: nat)"
      then show "bit (v6_val a) m \<longleftrightarrow> 128 - n \<le> m"
        using h [rule_format, of "m div 32" "m mod 32"] by (simp add: less_mult_imp_div_less)
    qed
  qed simp
  also have "\<dots> \<longleftrightarrow> (\<forall>i<4. v6_word i a = mask_word n i)"
    by (auto simp: bit_eq_iff v6_word_bit b)
  finally show ?thesis .
qed

lemma all_below_4: "(\<forall>i<4. P i) \<longleftrightarrow> P 0 \<and> P 1 \<and> P 2 \<and> P (3 :: nat)"
  by (auto simp: numeral_eq_Suc less_Suc_eq)

lemma netmask32_full: "prefix_len_to_netmask_unchecked 32 = NOT 0" "prefix_len_to_netmask_unchecked 0 = 0"
  by (simp_all add: prefix_len_to_netmask_unchecked_def V4_SIZE_def)

lemma netmask32_not_full: "k < 32 \<Longrightarrow> prefix_len_to_netmask_unchecked k \<noteq> NOT 0"
  using prefix_len_32_inverse [of k] prefix_len_32_inverse [of 32] by (auto simp: netmask32_full)

lemma v6_prefix_len_complete:
  assumes "n \<le> 128" "\<forall>i<4. v6_word i a = mask_word n i"
  shows "v6_prefix_len a = Inr n"
proof -
  have w: "v6_word 0 a = mask_word n 0" "v6_word 1 a = mask_word n 1" "v6_word 2 a = mask_word n 2" "v6_word 3 a = mask_word n 3"
    using assms(2) by simp_all
  consider "n < 32" | "32 \<le> n" "n < 64" | "64 \<le> n" "n < 96" | "96 \<le> n" using assms(1) by linarith
  then show ?thesis
  proof cases
    case 1
    then show ?thesis using netmask32_not_full [of n] prefix_len_32_inverse [of n]
      by (simp add: v6_prefix_len_def w w(2) [simplified] mask_word_def netmask32_full)
  next
    case 2
    then show ?thesis using netmask32_not_full [of "n - 32"] prefix_len_32_inverse [of "n - 32"]
      by (simp add: v6_prefix_len_def w w(2) [simplified] mask_word_def netmask32_full)
  next
    case 3
    then show ?thesis using netmask32_not_full [of "n - 64"] prefix_len_32_inverse [of "n - 64"]
      by (simp add: v6_prefix_len_def w w(2) [simplified] mask_word_def netmask32_full)
  next
    case 4
    then show ?thesis using assms(1) prefix_len_32_inverse [of "n - 96"]
      by (simp add: v6_prefix_len_def w w(2) [simplified] mask_word_def netmask32_full)
  qed
qed

lemma v6_prefix_len_sound:
  assumes "v6_prefix_len a = Inr n"
  shows "n \<le> 128 \<and> (\<forall>i<4. v6_word i a = mask_word n i)"
proof -
  let ?w = "\<lambda>i. v6_word i a"
  have p: "nat (prefix_len_32 w) \<le> 32 \<and> prefix_len_to_netmask_unchecked (nat (prefix_len_32 w)) = w"
    if "0 \<le> prefix_len_32 w" for w using prefix_len_32_sound [OF refl that] .
  let ?k = "\<lambda>i. nat (prefix_len_32 (?w i))"
  consider "?w 3 \<noteq> NOT 0" "?w 0 = 0" "?w 1 = 0" "?w 2 = 0" "0 \<le> prefix_len_32 (?w 3)" "n = ?k 3"
    | "?w 3 = NOT 0" "?w 2 \<noteq> NOT 0" "?w 0 = 0" "?w 1 = 0" "0 \<le> prefix_len_32 (?w 2)" "n = ?k 2 + 32"
    | "?w 3 = NOT 0" "?w 2 = NOT 0" "?w 1 \<noteq> NOT 0" "?w 0 = 0" "0 \<le> prefix_len_32 (?w 1)" "n = ?k 1 + 64"
    | "?w 3 = NOT 0" "?w 2 = NOT 0" "?w 1 = NOT 0" "0 \<le> prefix_len_32 (?w 0)" "n = ?k 0 + 96"
    using assms by (auto simp: v6_prefix_len_def nat_add_distrib split: if_splits)
  then show ?thesis
  proof cases
    case 1
    then show ?thesis using p [OF 1(5)] by (simp add: all_below_4 mask_word_def netmask32_full del: One_nat_def)
  next
    case 2
    then show ?thesis using p [OF 2(5)] by (simp add: all_below_4 mask_word_def netmask32_full del: One_nat_def)
  next
    case 3
    then show ?thesis using p [OF 3(5)] by (simp add: all_below_4 mask_word_def netmask32_full del: One_nat_def)
  next
    case 4
    then show ?thesis using p [OF 4(4)] by (simp add: all_below_4 mask_word_def netmask32_full del: One_nat_def)
  qed
qed

lemma v6_of_words_word:
  "v6_word 0 (v6_of_words w0 w1 w2 w3 s) = w0" "v6_word 1 (v6_of_words w0 w1 w2 w3 s) = w1"
  "v6_word 2 (v6_of_words w0 w1 w2 w3 s) = w2" "v6_word 3 (v6_of_words w0 w1 w2 w3 s) = w3"
  by (rule bit_word_eqI; simp add: v6_word_def v6_of_words_def bit_ucast_iff bit_drop_bit_eq bit_word_cat_iff)+

lemma v6_netmask_val:
  assumes "n \<le> 128"
  shows "v6_val (v6_prefix_len_to_netmask_unchecked n s) = NOT (mask (128 - n))"
proof -
  let ?a = "v6_prefix_len_to_netmask_unchecked n s"
  have part: "NOT (push_bit (31 - (n - 1) mod 32) 1 - 1) = prefix_len_to_netmask_unchecked (n - 32 * ((n - 1) div 32))" if "0 < n"
  proof -
    have "n - 32 * ((n - 1) div 32) = Suc ((n - 1) mod 32)" using that by (simp add: minus_mult_div_eq_mod [symmetric])
    then show ?thesis by (simp add: prefix_len_to_netmask_unchecked_def V4_SIZE_def)
  qed
  have block: "(n - 1) div 32 = (if n \<le> 32 then 0 else if n \<le> 64 then 1 else if n \<le> 96 then 2 else 3)"
    using assms by (auto intro!: div_nat_eqI)
  consider "n = 0" | "0 < n" "n \<le> 32" | "32 < n" "n \<le> 64" | "64 < n" "n \<le> 96" | "96 < n" by linarith
  then have "\<forall>i<4. v6_word i ?a = mask_word n i"
  proof cases
    case 1
    then have "?a = v6_of_words 0 0 0 0 s" by (simp add: v6_prefix_len_to_netmask_unchecked_def v6_of_words_def word_cat_eq)
    then show ?thesis using 1 by (simp add: all_below_4 v6_of_words_word mask_word_def netmask32_full del: One_nat_def)
  qed (use part block assms in \<open>simp_all add: all_below_4 v6_prefix_len_to_netmask_unchecked_def Let_def v6_of_words_word mask_word_def
      netmask32_full del: One_nat_def\<close>)
  then show ?thesis using v6_val_netmask [OF assms] by blast
qed

lemma v6_netmask_from_extent_val:
  assumes a: "v6_val a = push_bit k 1" and k: "k \<le> 128"
  shows "\<exists>m. v6_netmask_from_extent a = Inr m \<and> v6_val m = NOT (mask k)"
proof -
  let ?lb = "v6_sub_long a 1"
  have lb: "v6_val ?lb = mask k"
    using a by (simp add: v6_sub_long_def v6_add_long_val mask_eq_exp_minus_1 push_bit_eq_mult)
  have w: "v6_word i ?lb = mask (min 32 (k - 32 * i))" if "i < 4" for i
    by (rule bit_word_eqI) (use that v6_word_bit [of i _ ?lb] in \<open>auto simp: lb bit_mask_iff\<close>)
  have nz: "(mask c :: u32) \<noteq> 0 \<longleftrightarrow> 0 < c" if "c \<le> 32" for c
    using find_last_set_mask [OF that] by (cases c) (auto simp: find_last_set_def)
  have hit: "v6_extent_search (i # is) ?lb = v6_netmask_from_prefix_len (V6_SIZE - k)" if "32 * i < k" "k \<le> 32 * i + 32" "i < 4" for i "is"
    using that nz [of "k - 32 * i"] find_last_set_mask [of "k - 32 * i"] by (simp add: w)
  have miss: "v6_extent_search (i # is) ?lb = v6_extent_search is ?lb" if "k \<le> 32 * i" "i < 4" for i "is"
    using that by (simp add: w)
  consider "k = 0" | "0 < k" "k \<le> 32" | "32 < k" "k \<le> 64" | "64 < k" "k \<le> 96" | "96 < k" using k by linarith
  then have "v6_netmask_from_extent a = (if k = 0 then Inr v6_from_zero_complement else v6_netmask_from_prefix_len (V6_SIZE - k))"
    by cases (use k in \<open>simp_all add: v6_netmask_from_extent_def hit miss del: v6_extent_search.simps(2)\<close>)
  moreover have "v6_val v6_from_zero_complement = NOT (mask 0)"
    using v6_val_bits(3) [of v6_from_zero] by (simp add: v6_not_def v6_from_zero_def v6_from_zero_complement_def v6_val_zero)
  ultimately show ?thesis
    using k v6_netmask_val [of "128 - k" 0] by (simp add: v6_netmask_from_prefix_len_def V6_SIZE_def)
qed

text \<open>On a little-endian host.  A netmask of length 64 makes \<open>extent_from_netmask\<close> shift by 64.\<close>

lemma v6_extent_from_netmask_val:
  assumes a: "v6_val a = NOT (mask k)" and k: "k \<le> 128"
  shows "if k = 64 then v6_extent_from_netmask big a = Inl undefined_behaviour
    else \<exists>e. v6_extent_from_netmask False a = Inr e \<and> v6_val e = push_bit k 1"
proof -
  have "v6_prefix_len a = Inr (128 - k)"
    using v6_prefix_len_complete [of "128 - k" a] v6_val_netmask [of "128 - k" a] a k by simp
  then have h: "v6_host_len a = Inr k" using k by (simp add: v6_host_len_def V6_SIZE_def)
  show ?thesis
  proof (cases "k = 64")
    case True
    then show ?thesis using h by (simp add: v6_extent_from_netmask_def V6_SIZE_def v6_shl_def)
  next
    case False
    have one: "v6_val (v6_from_one False) = 1" by (simp add: v6_from_one_def v6_val_def word_cat_eq)
    have zero: "(push_bit 128 1 :: 128 word) = 0" by (simp add: push_bit_eq_mult)
    show ?thesis
    proof (cases "k = 128")
      case True
      then show ?thesis using h zero by (simp add: v6_extent_from_netmask_def V6_SIZE_def v6_val_zero)
    next
      case nt: False
      then show ?thesis
        using h k False v6_shl_val [of k "v6_from_one False"] one by (simp add: v6_extent_from_netmask_def V6_SIZE_def)
    qed
  qed
qed

section \<open>Properties\<close>





end
