(* ===== verification/AddrPool.thy ===== *)
theory AddrPool
  imports IPv6Props
begin

text \<open>
  Ranges of addresses, their partition (\<open>addr/range.hpp\<close>) and pools (\<open>addr/pool.hpp\<close>).  The template
  parameter \<open>ADDR\<close> is a type with \<open>++\<close> and \<open>+=\<close>, the arguments \<open>inc\<close> and \<open>step\<close>; the locale
  \<open>network_address\<close> states what ranges need of them and is interpreted on both kinds of addresses.
\<close>

section \<open>Ranges\<close>

record 'a range =
  rg_start :: 'a
  rg_extent :: nat

definition range_defined :: "'a range \<Rightarrow> bool" where
  "range_defined r \<longleftrightarrow> rg_extent r > 0"

record 'a range_iter =
  it_addr :: 'a
  it_remaining :: nat

definition range_iterator :: "'a range \<Rightarrow> 'a range_iter" where
  "range_iterator r = \<lparr>it_addr = rg_start r, it_remaining = rg_extent r\<rparr>"

definition iter_more :: "'a range_iter \<Rightarrow> bool" where
  "iter_more i \<longleftrightarrow> it_remaining i > 0"

definition iter_next :: "('a \<Rightarrow> 'a) \<Rightarrow> 'a range_iter \<Rightarrow> 'a range_iter" where
  "iter_next inc i =
     (if iter_more i then \<lparr>it_addr = inc (it_addr i), it_remaining = it_remaining i - 1\<rparr> else i)"

definition range_pull_front :: "('a \<Rightarrow> nat \<Rightarrow> 'a) \<Rightarrow> nat \<Rightarrow> 'a range \<Rightarrow> 'a range \<times> 'a range" where
  "range_pull_front step n r =
     (let n = (if n > rg_extent r then rg_extent r else n) in
      (\<lparr>rg_start = rg_start r, rg_extent = n\<rparr>,
       \<lparr>rg_start = step (rg_start r) n, rg_extent = rg_extent r - n\<rparr>))"

record 'a range_partition =
  pa_range :: "'a range"
  pa_remaining :: nat

text \<open>Whether the range handed out is defined, and that range if one was assigned.\<close>

definition partition_next ::
    "('a \<Rightarrow> nat \<Rightarrow> 'a) \<Rightarrow> 'a range_partition \<Rightarrow> (bool \<times> 'a range option) \<times> 'a range_partition" where
  "partition_next step p =
     (if pa_remaining p > 0 then
        let (r, rest) = (if pa_remaining p > 1
                         then range_pull_front step (rg_extent (pa_range p) div pa_remaining p) (pa_range p)
                         else (pa_range p, pa_range p)) in
        ((range_defined r, Some r), \<lparr>pa_range = rest, pa_remaining = pa_remaining p - 1\<rparr>)
      else ((False, None), p))"

section \<open>Pools\<close>

record 'a pool =
  po_free :: "'a list"
  po_map :: "'a \<rightharpoonup> bool"

definition pool_new :: "'a pool" where
  "pool_new = \<lparr>po_free = [], po_map = Map.empty\<rparr>"

definition pool_add_addr :: "'a \<Rightarrow> 'a pool \<Rightarrow> 'a pool" where
  "pool_add_addr a p =
     (if po_map p a = None then \<lparr>po_free = po_free p @ [a], po_map = (po_map p)(a \<mapsto> False)\<rparr> else p)"

function pool_add_iter :: "('a \<Rightarrow> 'a) \<Rightarrow> 'a range_iter \<Rightarrow> 'a pool \<Rightarrow> 'a pool" where
  "pool_add_iter inc i p =
     (if iter_more i then pool_add_iter inc (iter_next inc i) (pool_add_addr (it_addr i) p) else p)"
  by pat_completeness auto
termination
  by (relation "measure (\<lambda>(inc, i, p). it_remaining i)") (auto simp: iter_more_def iter_next_def)

declare pool_add_iter.simps [simp del]

definition pool_add_range :: "('a \<Rightarrow> 'a) \<Rightarrow> 'a range \<Rightarrow> 'a pool \<Rightarrow> 'a pool" where
  "pool_add_range inc r p = pool_add_iter inc (range_iterator r) p"

definition pool_n_in_use :: "'a pool \<Rightarrow> nat" where
  "pool_n_in_use p = sz_sub (card (dom (po_map p))) (length (po_free p))"

definition pool_n_free :: "'a pool \<Rightarrow> nat" where
  "pool_n_free p = length (po_free p)"

text \<open>The loop of \<open>acquire_addr\<close>; \<open>freelist_fill\<close> of the base class does nothing.\<close>

fun pool_acquire_loop :: "'a list \<Rightarrow> ('a \<rightharpoonup> bool) \<Rightarrow> 'a option res \<times> 'a pool" where
  "pool_acquire_loop [] m = (Inr None, \<lparr>po_free = [], po_map = m\<rparr>)"
| "pool_acquire_loop (a # f) m =
     (case m a of
        None \<Rightarrow> (Inl (plain_exception ''PoolType: address in freelist doesn't exist in map''), \<lparr>po_free = a # f, po_map = m\<rparr>)
      | Some used \<Rightarrow>
          if \<not> used then (Inr (Some a), \<lparr>po_free = f, po_map = m(a \<mapsto> True)\<rparr>) else pool_acquire_loop f m)"

definition pool_acquire_addr :: "('a option, 'a pool) st" where
  "pool_acquire_addr p = pool_acquire_loop (po_free p) (po_map p)"

definition pool_acquire_specific_addr :: "'a \<Rightarrow> 'a pool \<Rightarrow> bool \<times> 'a pool" where
  "pool_acquire_specific_addr a p =
     (if po_map p a = Some False then (True, p\<lparr>po_map := (po_map p)(a \<mapsto> True)\<rparr>) else (False, p))"

definition pool_release_addr :: "'a \<Rightarrow> 'a pool \<Rightarrow> 'a pool" where
  "pool_release_addr a p =
     (if po_map p a = Some True then \<lparr>po_free = po_free p @ [a], po_map = (po_map p)(a \<mapsto> False)\<rparr> else p)"

text \<open>All calls of \<open>next\<close> that assign a range.\<close>

fun partition_all :: "nat \<Rightarrow> ('a \<Rightarrow> nat \<Rightarrow> 'a) \<Rightarrow> 'a range_partition \<Rightarrow> (bool \<times> 'a range) list" where
  "partition_all 0 step p = []"
| "partition_all (Suc k) step p =
     (case partition_next step p of
        ((b, Some r), p) \<Rightarrow> (b, r) # partition_all k step p
      | ((b, None), p) \<Rightarrow> [])"

section \<open>Addresses of a range\<close>

definition range_addrs :: "('a \<Rightarrow> nat \<Rightarrow> 'a) \<Rightarrow> 'a range \<Rightarrow> 'a list" where
  "range_addrs step r = map (step (rg_start r)) [0..<rg_extent r]"

text \<open>Offsets are below \<open>2 ^ 63\<close>: \<open>+=\<close> takes a \<open>long\<close>.\<close>

locale network_address =
  fixes inc :: "'a \<Rightarrow> 'a" and step :: "'a \<Rightarrow> nat \<Rightarrow> 'a"
  assumes step_0: "step a 0 = a"
    and inc_step: "inc a = step a 1"
    and step_step: "m + n < 2 ^ 63 \<Longrightarrow> step (step a m) n = step a (m + n)"
begin

abbreviation addrs :: "'a range \<Rightarrow> 'a list" where
  "addrs \<equiv> range_addrs step"

lemma addrs_split:
  assumes "rg_extent r < 2 ^ 63" and "range_pull_front step n r = (x, y)"
  shows "addrs r = addrs x @ addrs y" and "rg_extent x = min n (rg_extent r)" and "rg_extent y = rg_extent r - n"
proof -
  let ?n = "min n (rg_extent r)"
  have xy: "x = \<lparr>rg_start = rg_start r, rg_extent = ?n\<rparr>" "y = \<lparr>rg_start = step (rg_start r) ?n, rg_extent = rg_extent r - ?n\<rparr>"
    using assms(2) by (auto simp: range_pull_front_def Let_def split: if_splits)
  then show "rg_extent x = ?n" "rg_extent y = rg_extent r - n" by simp_all
  have "addrs y = map (step (rg_start r)) [?n..<rg_extent r]"
    unfolding range_addrs_def xy using assms(1)
    by (auto simp: step_step intro!: nth_equalityI)
  then show "addrs r = addrs x @ addrs y"
    using upt_add_eq_append [of 0 ?n "rg_extent r - ?n"] unfolding range_addrs_def xy by (simp flip: map_append)
qed

lemma addrs_iter: "0 < n \<Longrightarrow> n < 2 ^ 63 \<Longrightarrow> map (step a) [0..<n] = a # map (step (inc a)) [0..<n - 1]"
  by (auto simp: step_0 inc_step step_step nth_Cons' intro!: nth_equalityI)

lemma pool_add_iter_addrs:
  "it_remaining i < 2 ^ 63 \<Longrightarrow> pool_add_iter inc i p = fold pool_add_addr (map (step (it_addr i)) [0..<it_remaining i]) p"
proof (induction "it_remaining i" arbitrary: i p rule: less_induct)
  case less
  show ?case
  proof (cases "iter_more i")
    case True
    then have "map (step (it_addr i)) [0..<it_remaining i] = it_addr i # map (step (inc (it_addr i))) [0..<it_remaining i - 1]"
      using less(2) by (intro addrs_iter) (simp_all add: iter_more_def)
    then show ?thesis using True less by (subst pool_add_iter.simps) (simp add: iter_next_def iter_more_def)
  next
    case False
    then show ?thesis by (subst pool_add_iter.simps) (simp add: iter_more_def)
  qed
qed

lemma pool_add_range_addrs: "rg_extent r < 2 ^ 63 \<Longrightarrow> pool_add_range inc r p = fold pool_add_addr (addrs r) p"
  by (simp add: pool_add_range_def range_iterator_def pool_add_iter_addrs range_addrs_def)

lemma partition_all_covers:
  assumes "0 < n" and "rg_extent r < 2 ^ 63"
  shows "let xs = partition_all n step \<lparr>pa_range = r, pa_remaining = n\<rparr>; q = rg_extent r div n in
    length xs = n \<and> concat (map (addrs \<circ> snd) xs) = addrs r
      \<and> (\<forall>(b, x) \<in> set xs. (rg_extent x = q \<or> \<not> n dvd rg_extent r \<and> rg_extent x = q + 1) \<and> (b \<longleftrightarrow> 0 < rg_extent x))"
  using assms
proof (induction n arbitrary: r)
  case (Suc n)
  show ?case
  proof (cases "n = 0")
    case True
    then show ?thesis by (simp add: partition_next_def range_defined_def)
  next
    case False
    let ?q = "rg_extent r div Suc n"
    obtain x y where xy: "range_pull_front step ?q r = (x, y)" by (cases "range_pull_front step ?q r")
    note s = addrs_split [OF Suc(3) xy]
    have q: "?q \<le> rg_extent r" by simp
    have e: "rg_extent x = ?q" "rg_extent y = rg_extent r - ?q" using s(2,3) q by simp_all
    have quot: "rg_extent y div n = ?q \<and> (Suc n dvd rg_extent r \<longrightarrow> n dvd rg_extent y)
      \<or> rg_extent y div n = ?q + 1 \<and> n dvd rg_extent y \<and> \<not> Suc n dvd rg_extent r"
    proof -
      define m where "m = rg_extent r mod Suc n"
      have m: "m \<le> n" by (simp add: m_def less_Suc_eq_le [symmetric])
      have "rg_extent r = Suc n * ?q + m" unfolding m_def by (rule mult_div_mod_eq [symmetric])
      then have y: "rg_extent y = n * ?q + m" unfolding e(2) by simp
      have d: "Suc n dvd rg_extent r \<longleftrightarrow> m = 0" by (simp add: m_def dvd_eq_mod_eq_0)
      show ?thesis using m False y d by (cases "m = n") auto
    qed
    define xs where "xs = partition_all n step \<lparr>pa_range = y, pa_remaining = n\<rparr>"
    have ih: "length xs = n" "concat (map (addrs \<circ> snd) xs) = addrs y"
      "\<forall>(b, z) \<in> set xs. (rg_extent z = rg_extent y div n \<or> \<not> n dvd rg_extent y \<and> rg_extent z = rg_extent y div n + 1) \<and> (b \<longleftrightarrow> 0 < rg_extent z)"
      using Suc(1) [of y] Suc(3) False e(2) by (auto simp: xs_def Let_def comp_def)
    have all: "partition_all (Suc n) step \<lparr>pa_range = r, pa_remaining = Suc n\<rparr> = (0 < ?q, x) # xs"
      using False xy e(1) by (simp add: partition_next_def xs_def range_defined_def)
    have "\<forall>(b, z) \<in> set xs. (rg_extent z = ?q \<or> \<not> Suc n dvd rg_extent r \<and> rg_extent z = ?q + 1) \<and> (b \<longleftrightarrow> 0 < rg_extent z)"
      using ih(3) quot by auto
    then show ?thesis unfolding all Let_def using ih(1,2) s(1) e(1) by simp
  qed
qed simp

end

text \<open>Steps on the two kinds of addresses: the number is converted to \<open>long\<close>.\<close>

definition v4_step :: "ipv4 \<Rightarrow> nat \<Rightarrow> ipv4" where
  "v4_step a n = v4_add_long a (sint (of_nat n :: u64))"

definition v6_step :: "ipv6 \<Rightarrow> nat \<Rightarrow> ipv6" where
  "v6_step a n = v6_add_long a (sint (of_nat n :: u64))"

lemma long_of_size: "n < 2 ^ 63 \<Longrightarrow> sint (of_nat n :: u64) = int n"
  by (simp add: signed_of_nat signed_take_bit_int_eq_self)

lemma v6_eqI: "v6_val a = v6_val b \<Longrightarrow> v6_scope a = v6_scope b \<Longrightarrow> a = b"
  by (simp add: v6_val_eqI ipv6.expand)

interpretation v4r: network_address v4_inc v4_step
proof
  show "v4_step a 0 = a" "v4_inc a = v4_step a 1" for a by (simp_all add: v4_step_def v4_add_long_def v4_inc_def)
  show "v4_step (v4_step a m) n = v4_step a (m + n)" if "m + n < 2 ^ 63" for a m n
  proof -
    have val: "v4_step a n = Addr4 (v4 a + of_nat n)" if "n < 2 ^ 63" for a n
      using that by (simp add: v4_step_def long_of_size v4_add_long_def)
    then show ?thesis using that by simp
  qed
qed

interpretation v6r: network_address v6_inc v6_step
proof
  have scope: "v6_scope (v6_step a n) = v6_scope a" "v6_scope (v6_inc a) = v6_scope a" for a n
    by (simp_all add: v6_step_def v6_add_long_def v6_inc_def Let_def)
  have val: "v6_val (v6_step a n) = v6_val a + of_nat n" if "n < 2 ^ 63" for a n
    using that by (simp add: v6_step_def long_of_size v6_add_long_val)
  show "v6_step a 0 = a" for a by (rule v6_eqI) (simp_all add: val scope)
  show "v6_inc a = v6_step a 1" for a by (rule v6_eqI) (simp_all add: val scope v6_inc_val)
  show "v6_step (v6_step a m) n = v6_step a (m + n)" if "m + n < 2 ^ 63" for a m n
    using that by (intro v6_eqI) (simp_all add: val scope)
qed

section \<open>What pools do\<close>

datatype 'a pool_op = P_Add 'a | P_Acquire | P_Specific 'a | P_Release 'a

datatype 'a pool_out = PO_Unit | PO_Addr "'a option res" | PO_Bool bool

fun pool_exec :: "'a pool_op \<Rightarrow> 'a pool \<Rightarrow> 'a pool_out \<times> 'a pool" where
  "pool_exec (P_Add a) p = (PO_Unit, pool_add_addr a p)"
| "pool_exec P_Acquire p = (let (r, p) = pool_acquire_addr p in (PO_Addr r, p))"
| "pool_exec (P_Specific a) p = (let (r, p) = pool_acquire_specific_addr a p in (PO_Bool r, p))"
| "pool_exec (P_Release a) p = (PO_Unit, pool_release_addr a p)"

fun pool_run :: "'a pool_op list \<Rightarrow> 'a pool \<Rightarrow> 'a pool_out list \<times> 'a pool" where
  "pool_run [] p = ([], p)"
| "pool_run (c # cs) p = (let (r, p) = pool_exec c p; (rs, p) = pool_run cs p in (r # rs, p))"

text \<open>The pool as the set of addresses it owns and the set of those that are leased.\<close>

fun pool_spec :: "'a pool_op \<Rightarrow> 'a pool_out \<Rightarrow> 'a set \<times> 'a set \<Rightarrow> 'a set \<times> 'a set \<Rightarrow> bool" where
  "pool_spec (P_Add a) r (owned, used) s \<longleftrightarrow> r = PO_Unit \<and> s = (insert a owned, used)"
| "pool_spec P_Acquire r (owned, used) s \<longleftrightarrow>
     (if owned = used then r = PO_Addr (Inr None) \<and> s = (owned, used)
      else \<exists>a \<in> owned - used. r = PO_Addr (Inr (Some a)) \<and> s = (owned, insert a used))"
| "pool_spec (P_Specific a) r (owned, used) s \<longleftrightarrow>
     r = PO_Bool (a \<in> owned - used) \<and> s = (owned, if a \<in> owned - used then insert a used else used)"
| "pool_spec (P_Release a) r (owned, used) s \<longleftrightarrow> r = PO_Unit \<and> s = (owned, used - {a})"

fun pool_spec_run :: "'a pool_op list \<Rightarrow> 'a pool_out list \<Rightarrow> 'a set \<times> 'a set \<Rightarrow> 'a set \<times> 'a set \<Rightarrow> bool" where
  "pool_spec_run [] [] s t \<longleftrightarrow> s = t"
| "pool_spec_run (c # cs) (r # rs) s t \<longleftrightarrow> (\<exists>u. pool_spec c r s u \<and> pool_spec_run cs rs u t)"
| "pool_spec_run _ _ s t \<longleftrightarrow> False"

definition pool_abs :: "'a pool \<Rightarrow> 'a set \<times> 'a set" where
  "pool_abs p = (dom (po_map p), {a. po_map p a = Some True})"

definition pool_ok :: "'a pool \<Rightarrow> bool" where
  "pool_ok p \<longleftrightarrow> set (po_free p) \<subseteq> dom (po_map p) \<and> (\<forall>a. po_map p a = Some False \<longrightarrow> a \<in> set (po_free p))"

lemma pool_acquire_loop_spec:
  assumes "pool_ok \<lparr>po_free = f, po_map = m\<rparr>" and "pool_acquire_loop f m = (r, p)"
  shows "pool_ok p \<and> pool_spec P_Acquire (PO_Addr r) (dom m, {a. m a = Some True}) (pool_abs p)"
  using assms
proof (induction f m arbitrary: r p rule: pool_acquire_loop.induct)
  case (1 m)
  then have "a \<in> dom m \<longleftrightarrow> m a = Some True" for a by (cases "m a"; cases "the (m a)") (auto simp: pool_ok_def)
  then have "dom m = {a. m a = Some True}" by blast
  moreover have "p = \<lparr>po_free = [], po_map = m\<rparr>" using 1(2) by simp
  ultimately show ?case using 1 by (simp add: pool_abs_def)
next
  case (2 a f m)
  have "a \<in> dom m" using 2(2) by (simp add: pool_ok_def)
  then consider "m a = Some True" | "m a = Some False" by (cases "m a") auto
  then show ?case
  proof cases
    case 1
    then have "pool_ok \<lparr>po_free = f, po_map = m\<rparr>" using 2(2) by (auto simp: pool_ok_def)
    moreover have "pool_acquire_loop f m = (r, p)" using 2(3) 1 by simp
    ultimately show ?thesis using 2(1) [OF 1, of r p] by blast
  next
    case used: 2
    then have "r = Inr (Some a)" "p = \<lparr>po_free = f, po_map = m(a \<mapsto> True)\<rparr>" using 2(3) by auto
    moreover have in_m: "a \<in> dom m - {a. m a = Some True}" using used by auto
    moreover have "dom m \<noteq> {a. m a = Some True}" using in_m by blast
    moreover have "pool_abs p = (dom m, insert a {a. m a = Some True})"
      using used calculation(2) by (auto simp: pool_abs_def)
    moreover have "pool_ok p" using 2(2) calculation(2) by (auto simp: pool_ok_def split: if_splits)
    ultimately show ?thesis by auto
  qed
qed

lemma pool_exec_spec:
  assumes "pool_ok p" and "pool_exec c p = (r, q)"
  shows "pool_ok q \<and> pool_spec c r (pool_abs p) (pool_abs q)"
proof (cases c)
  case (P_Add a)
  then show ?thesis using assms by (auto simp: pool_ok_def pool_abs_def pool_add_addr_def split: if_splits)
next
  case P_Acquire
  obtain x where x: "pool_acquire_addr p = (x, q)" "r = PO_Addr x"
    using assms(2) P_Acquire by (cases "pool_acquire_addr p") simp
  have "pool_ok \<lparr>po_free = po_free p, po_map = po_map p\<rparr>" using assms(1) by (cases p) simp
  from pool_acquire_loop_spec [OF this x(1) [unfolded pool_acquire_addr_def]] show ?thesis
    unfolding P_Acquire x(2) pool_abs_def [of p] .
next
  case (P_Specific a)
  then show ?thesis
    using assms by (auto simp: pool_ok_def pool_abs_def pool_acquire_specific_addr_def split: if_splits)
next
  case (P_Release a)
  then show ?thesis using assms by (auto simp: pool_ok_def pool_abs_def pool_release_addr_def split: if_splits)
qed

lemma pool_run_spec:
  "pool_ok p \<Longrightarrow> pool_run cs p = (rs, q) \<Longrightarrow> pool_ok q \<and> pool_spec_run cs rs (pool_abs p) (pool_abs q)"
proof (induction cs arbitrary: p rs)
  case (Cons c cs)
  obtain r p' where e: "pool_exec c p = (r, p')" by (cases "pool_exec c p")
  obtain rs' where rs: "rs = r # rs'" "pool_run cs p' = (rs', q)" using Cons(3) e by (auto split: prod.splits)
  from pool_exec_spec [OF Cons(2) e] have s: "pool_ok p'" "pool_spec c r (pool_abs p) (pool_abs p')" by simp_all
  with Cons(1) [OF s(1) rs(2)] show ?case unfolding rs(1) pool_spec_run.simps by blast
qed simp

section \<open>Properties\<close>

text \<open>
  \<open>RangePartition\<close> hands out \<open>n\<close> ranges that cover a range of IPv6 addresses in order
  and without overlap, and whose sizes differ by at most one.  It also returns false for the empty
  ranges among them, of which there are some when there are fewer addresses than partitions: a caller
  that stops at the first false misses the addresses behind.
\<close>

theorem partition_covers_range:
  assumes "0 < n" and "rg_extent r < 2 ^ 63"
  shows "let xs = partition_all n v6_step \<lparr>pa_range = r, pa_remaining = n\<rparr>; q = rg_extent r div n in
    length xs = n \<and> concat (map (range_addrs v6_step \<circ> snd) xs) = range_addrs v6_step r
      \<and> (\<forall>(b, x) \<in> set xs. (rg_extent x = q \<or> \<not> n dvd rg_extent r \<and> rg_extent x = q + 1) \<and> (b \<longleftrightarrow> 0 < rg_extent x))"
  by (rule v6r.partition_all_covers [OF assms])

theorem partition_covers_range_witness:
  "let xs = partition_all 2 v6_step \<lparr>pa_range = \<lparr>rg_start = Addr6 7 0 0, rg_extent = 5\<rparr>, pa_remaining = 2\<rparr> in
    length xs = 2 \<and> concat (map (range_addrs v6_step \<circ> snd) xs) = range_addrs v6_step \<lparr>rg_start = Addr6 7 0 0, rg_extent = 5\<rparr>"
  using partition_covers_range [of 2 "\<lparr>rg_start = Addr6 7 0 0, rg_extent = 5\<rparr>"] unfolding Let_def by (simp del: partition_all.simps)

text \<open>
  C29. Refinement: whatever is added, acquired and released, a pool behaves like a set of owned and a set
  of leased addresses: an address is handed out only when it is owned and not leased, and always when
  there is one; the internal exception is never thrown.
\<close>

theorem pool_refines_sets:
  "\<exists>rs p. pool_run cs pool_new = (rs, p) \<and> pool_spec_run cs rs ({}, {}) (pool_abs p)"
proof -
  obtain rs p where run: "pool_run cs pool_new = (rs, p)" by (cases "pool_run cs pool_new")
  have "pool_ok (pool_new :: 'a pool)" "pool_abs (pool_new :: 'a pool) = ({}, {})"
    by (simp_all add: pool_ok_def pool_abs_def pool_new_def)
  then show ?thesis using run pool_run_spec [OF _ run] by simp
qed

text \<open>
  The number of leases is computed from the length of the free list, from which \<open>acquire_specific_addr\<close>
  does not remove the address: after it is released, the list has it twice.
\<close>

lemma pool_count_wraps:
  "pool_n_in_use (snd (pool_run [P_Add a, P_Specific a] pool_new)) = 0"
  "pool_n_in_use (snd (pool_run [P_Add a, P_Specific a, P_Release a] pool_new)) = SZ - 1"
  by (simp_all add: pool_new_def pool_add_addr_def pool_acquire_specific_addr_def pool_release_addr_def pool_n_in_use_def
      sz_sub_def)

end
