(* ===== verification/Unicode.thy ===== *)
theory Unicode
  imports Prelude
begin

text \<open>
  UTF-8 strings: the checks, lengths and printable forms of \<open>common/unicode.hpp\<close> over \<open>isLegalUTF8\<close> and
  \<open>trailingBytesForUTF8\<close> of \<open>common/unicode-impl.hpp\<close>.  A \<open>std::string\<close> is its bytes; reads go to \<open>c_str()\<close>,
  the bytes with the terminating null, and are \<open>undefined_behaviour\<close> behind it.
\<close>

section \<open>Sequences\<close>

definition trailing_bytes :: "u8 \<Rightarrow> nat" where
  "trailing_bytes c =
     (if c < 0xC0 then 0 else if c < 0xE0 then 1 else if c < 0xF0 then 2 else if c < 0xF8 then 3 else if c < 0xFC then 4 else 5)"

definition byte_at :: "u8 list \<Rightarrow> nat \<Rightarrow> u8 res" where
  "byte_at mem i = (if i < length mem then Inr (mem ! i) else Inl undefined_behaviour)"

text \<open>
  \<open>isLegalUTF8\<close> of the sequence at \<open>pos\<close>: the cases fall through from the last byte to the first, and each
  reads its byte only if the ones before did not return.
\<close>

definition legal_first :: "u8 list \<Rightarrow> nat \<Rightarrow> bool res" where
  "legal_first mem pos =
     bindE (byte_at mem pos) (\<lambda>s. Inr (\<not> (s \<ge> 0x80 \<and> s < 0xC2) \<and> \<not> s > 0xF4))"

definition legal_second :: "u8 list \<Rightarrow> nat \<Rightarrow> bool res" where
  "legal_second mem pos =
     bindE (byte_at mem (pos + 1)) (\<lambda>a.
       if a > 0xBF then Inr False
       else bindE (byte_at mem pos) (\<lambda>s.
         if (if s = 0xE0 then a < 0xA0 else if s = 0xED then a > 0x9F else if s = 0xF0 then a < 0x90
             else if s = 0xF4 then a > 0x8F else a < 0x80)
         then Inr False
         else legal_first mem pos))"

definition legal_trail :: "u8 list \<Rightarrow> nat \<Rightarrow> bool res \<Rightarrow> bool res" where
  "legal_trail mem i k = bindE (byte_at mem i) (\<lambda>a. if a < 0x80 \<or> a > 0xBF then Inr False else k)"

definition is_legal_utf8 :: "u8 list \<Rightarrow> nat \<Rightarrow> nat \<Rightarrow> bool res" where
  "is_legal_utf8 mem pos len =
     (if len = 4 then legal_trail mem (pos + 3) (legal_trail mem (pos + 2) (legal_second mem pos))
      else if len = 3 then legal_trail mem (pos + 2) (legal_second mem pos)
      else if len = 2 then legal_second mem pos
      else if len = 1 then legal_first mem pos
      else Inr False)"

definition c_str :: "u8 list \<Rightarrow> u8 list" where
  "c_str s = s @ [0]"

section \<open>Flags\<close>

definition UTF8_NO_CTRL :: u64 where "UTF8_NO_CTRL = push_bit 30 1"
definition UTF8_NO_SPACE :: u64 where "UTF8_NO_SPACE = NOT (mask 31)"
definition UTF8_FILTER :: u64 where "UTF8_FILTER = push_bit 30 1"

text \<open>\<open>1 << 31\<close> of \<open>int\<close> is negative and is extended by its sign to \<open>size_t\<close>.\<close>

definition UTF8_PASS_FMT :: u64 where "UTF8_PASS_FMT = NOT (mask 31)"

definition is_cntrl :: "u8 \<Rightarrow> bool" where
  "is_cntrl c \<longleftrightarrow> c < 0x20 \<or> c = 0x7F"

definition is_space_byte :: "u8 \<Rightarrow> bool" where
  "is_space_byte c \<longleftrightarrow> c = 0x20 \<or> (9 \<le> c \<and> c \<le> 13)"

section \<open>Validity\<close>

text \<open>\<open>source\<close> is at \<open>pos\<close> and \<open>size\<close> what is left of the string.\<close>

function valid_loop :: "u8 list \<Rightarrow> u64 \<Rightarrow> nat \<Rightarrow> nat \<Rightarrow> nat \<Rightarrow> bool res" where
  "valid_loop mem flags pos sz n =
     (if sz = 0 then Inr True
      else bindE (byte_at mem pos) (\<lambda>c.
        if c = 0 then Inr False
        else let len = trailing_bytes c + 1 in
          if len > sz then Inr False
          else bindE (is_legal_utf8 mem pos len) (\<lambda>ok.
            if \<not> ok then Inr False
            else if len = 1 \<and> (flags AND UTF8_NO_CTRL \<noteq> 0 \<and> is_cntrl c \<or> flags AND UTF8_NO_SPACE \<noteq> 0 \<and> is_space_byte c)
            then Inr False
            else let max_len = unat (flags AND (UTF8_NO_CTRL - 1)) in
              if max_len \<noteq> 0 \<and> n + 1 > max_len then Inr False
              else valid_loop mem flags (pos + len) (sz - len) (n + 1))))"
  by pat_completeness auto
termination by (relation "measure (\<lambda>(mem, flags, pos, sz, n). sz)") auto

declare valid_loop.simps [simp del]

definition is_valid_utf8 :: "u8 list \<Rightarrow> u64 \<Rightarrow> bool res" where
  "is_valid_utf8 s flags = valid_loop (c_str s) flags 0 (length s) 0"

section \<open>Positions\<close>

datatype utf8_status = UTF8_GOOD | UTF8_BAD | UTF8_RANGE

text \<open>The status and the reference argument \<open>index\<close>.\<close>

function index_loop :: "u8 list \<Rightarrow> nat \<Rightarrow> nat \<Rightarrow> nat \<Rightarrow> (utf8_status \<times> nat) res" where
  "index_loop s index upos pos =
     (if pos < length s then
        let len = trailing_bytes (s ! pos) + 1 in
        if pos + len > length s then Inr (UTF8_BAD, index)
        else bindE (is_legal_utf8 (c_str s) pos len) (\<lambda>ok.
          if \<not> ok then Inr (UTF8_BAD, index)
          else if upos \<ge> index then Inr (UTF8_GOOD, pos)
          else index_loop s index (upos + 1) (pos + len))
      else Inr (UTF8_RANGE, index))"
  by pat_completeness auto
termination by (relation "measure (\<lambda>(s, index, upos, pos). length s - pos)") auto

declare index_loop.simps [simp del]

definition utf8_index :: "u8 list \<Rightarrow> nat \<Rightarrow> (utf8_status \<times> nat) res" where
  "utf8_index s index = index_loop s index 0 0"

definition utf8_truncate :: "u8 list \<Rightarrow> nat \<Rightarrow> u8 list res" where
  "utf8_truncate s max_len =
     bindE (utf8_index s max_len) (\<lambda>(st, max_len). Inr (if st = UTF8_GOOD \<or> st = UTF8_BAD then take max_len s else s))"

section \<open>Printable form\<close>

text \<open>The byte for a control character or a bad byte; 0 for none.\<close>

definition printable_subst :: "u64 \<Rightarrow> u8 \<Rightarrow> u8" where
  "printable_subst flags c =
     (if c = 0x0D \<or> c = 0x0A \<or> c = 9 then if flags AND UTF8_PASS_FMT = 0 then 0x20 else c
      else if flags AND UTF8_FILTER \<noteq> 0 then 0 else 0x3F)"

definition printable_legal :: "u8 list \<Rightarrow> nat \<Rightarrow> bool res" where
  "printable_legal s pos =
     (let c = s ! pos; len = trailing_bytes c + 1 in
      if pos + len \<le> length s \<and> c \<ge> 0x20 \<and> c \<noteq> 0x7F then is_legal_utf8 (c_str s) pos len else Inr False)"

function printable_loop :: "u8 list \<Rightarrow> u64 \<Rightarrow> nat \<Rightarrow> nat \<Rightarrow> u8 list \<Rightarrow> u8 list res" where
  "printable_loop s flags upos pos ret =
     (if pos < length s then
        let max_len = unat (flags AND (UTF8_FILTER - 1)) in
        if max_len = 0 \<or> upos < max_len then
          let c = s ! pos; len = trailing_bytes c + 1 in
          bindE (printable_legal s pos) (\<lambda>ok.
            if ok then printable_loop s flags (upos + 1) (pos + len) (ret @ take len (drop pos s))
            else let x = printable_subst flags c in
              printable_loop s flags (upos + 1) (pos + 1) (if x \<noteq> 0 then ret @ [x] else ret))
        else Inr (ret @ [0x2E, 0x2E, 0x2E])
      else Inr ret)"
  by pat_completeness auto
termination by (relation "measure (\<lambda>(s, flags, upos, pos, ret). length s - pos)") auto

declare printable_loop.simps [simp del]

definition utf8_printable :: "u8 list \<Rightarrow> u64 \<Rightarrow> u8 list res" where
  "utf8_printable s flags = printable_loop s flags 0 0 []"

section \<open>Length\<close>

text \<open>The sequence is cut at the size of the whole string, not at what is left of it.\<close>

function length_loop :: "u8 list \<Rightarrow> nat \<Rightarrow> nat \<Rightarrow> nat res" where
  "length_loop s upos pos =
     (if pos < length s then
        let len = min (trailing_bytes (s ! pos) + 1) (length s) in
        bindE (is_legal_utf8 (c_str s) pos len) (\<lambda>ok. length_loop s (upos + 1) (pos + (if ok then len else 1)))
      else Inr upos)"
  by pat_completeness auto
termination by (relation "measure (\<lambda>(s, upos, pos). length s - pos)") auto

declare length_loop.simps [simp del]

definition utf8_length :: "u8 list \<Rightarrow> nat res" where
  "utf8_length s = length_loop s 0 0"

section \<open>Iterator\<close>

record utf8_char =
  uc_len :: nat
  uc_data :: "u8 list"
  uc_valid :: bool

definition utf8_char_is_valid :: "utf8_char \<Rightarrow> bool" where
  "utf8_char_is_valid c \<longleftrightarrow> uc_valid c \<and> uc_len c \<ge> 1 \<and> uc_len c \<le> 4"

definition utf8_char_str :: "utf8_char \<Rightarrow> u8 list \<Rightarrow> u8 list" where
  "utf8_char_str c malformed = (if utf8_char_is_valid c then take (uc_len c) (uc_data c) else malformed)"

text \<open>The string, \<open>str\<close> as its position and \<open>size\<close>; \<open>get\<close> writes the first bytes of \<open>data\<close>.\<close>

record utf8_iter =
  ui_str :: "u8 list"
  ui_pos :: nat
  ui_size :: nat

definition utf8_iter_new :: "u8 list \<Rightarrow> utf8_iter" where
  "utf8_iter_new s = \<lparr>ui_str = s, ui_pos = 0, ui_size = length s\<rparr>"

definition utf8_iter_get :: "utf8_char \<Rightarrow> utf8_iter \<Rightarrow> (bool \<times> utf8_char \<times> utf8_iter) res" where
  "utf8_iter_get c i =
     (if ui_size i \<noteq> 0 then
        bindE (byte_at (c_str (ui_str i)) (ui_pos i)) (\<lambda>b.
        let len = min (trailing_bytes b + 1) (ui_size i) in
        bindE (is_legal_utf8 (c_str (ui_str i)) (ui_pos i) len) (\<lambda>ok.
          let c = (if ok then let n = min len 4 in
                     c\<lparr>uc_valid := True, uc_len := n,
                       uc_data := take n (drop (ui_pos i) (c_str (ui_str i))) @ drop n (uc_data c)\<rparr>
                   else c\<lparr>uc_valid := False, uc_len := 1\<rparr>) in
          Inr (True, c, i\<lparr>ui_pos := ui_pos i + uc_len c, ui_size := ui_size i - uc_len c\<rparr>)))
      else Inr (False, c, i))"

section \<open>Reads\<close>

text \<open>A sequence that lies in the string is read without leaving it.\<close>

lemma byte_at_ok: "i < length m \<Longrightarrow> byte_at m i = Inr (m ! i)"
  by (simp add: byte_at_def)

lemma legal_first_ok: "pos < length m \<Longrightarrow> \<exists>ok. legal_first m pos = Inr ok"
  by (simp add: legal_first_def byte_at_ok)

lemma legal_second_ok: "pos + 1 < length m \<Longrightarrow> \<exists>ok. legal_second m pos = Inr ok"
  using legal_first_ok [of pos m] by (auto simp: legal_second_def byte_at_ok)

lemma legal_trail_ok: "i < length m \<Longrightarrow> \<exists>ok. k = Inr ok \<Longrightarrow> \<exists>ok. legal_trail m i k = Inr ok"
  by (auto simp: legal_trail_def byte_at_ok)

lemma is_legal_utf8_ok: "0 < len \<Longrightarrow> pos + len \<le> length m \<Longrightarrow> \<exists>ok. is_legal_utf8 m pos len = Inr ok"
  unfolding is_legal_utf8_def
  by (auto intro!: legal_first_ok legal_second_ok legal_trail_ok)

lemma length_c_str [simp]: "length (c_str s) = Suc (length s)"
  by (simp add: c_str_def)

lemma c_str_nth: "i < length s \<Longrightarrow> c_str s ! i = s ! i"
  by (simp add: c_str_def nth_append)

section \<open>Properties\<close>

text \<open>
  A text without control bytes but directly behind 0xED or 0xF4.
\<close>

fun plain_after :: "u8 \<Rightarrow> u8 list \<Rightarrow> bool" where
  "plain_after p [] \<longleftrightarrow> True"
| "plain_after p (c # t) \<longleftrightarrow> (is_cntrl c \<longrightarrow> p = 0xED \<or> p = 0xF4) \<and> plain_after c t"

abbreviation plain_text :: "u8 list \<Rightarrow> bool" where
  "plain_text \<equiv> plain_after 0"

lemma plain_after_start: "plain_text t \<Longrightarrow> plain_after p t"
  by (cases t) auto

lemma plain_text_append: "plain_after p xs \<Longrightarrow> plain_text ys \<Longrightarrow> plain_after p (xs @ ys)"
  by (induction xs arbitrary: p) (auto intro: plain_after_start)

lemma high_not_cntrl: "c \<ge> 0x80 \<Longrightarrow> \<not> is_cntrl c"
  by (auto simp: is_cntrl_def word_le_nat_alt word_less_nat_alt)

lemma legal_second_sound:
  assumes "legal_second (c_str s) pos = Inr True" "pos + 1 < length s"
  shows "is_cntrl (s ! (pos + 1)) \<Longrightarrow> s ! pos = 0xED \<or> s ! pos = 0xF4"
  using assms by (auto simp: legal_second_def byte_at_ok c_str_nth is_cntrl_def word_less_nat_alt split: if_splits)

lemma take_drop_Cons: "pos < length s \<Longrightarrow> take (Suc n) (drop pos s) = s ! pos # take n (drop (Suc pos) s)"
  by (simp add: Cons_nth_drop_Suc [symmetric])

lemma legal_sequence_plain:
  assumes l: "is_legal_utf8 (c_str s) pos len = Inr True" and fit: "pos + len \<le> length s" and c: "\<not> is_cntrl (s ! pos)"
  shows "plain_text (take len (drop pos s))"
proof -
  have trail: "\<not> is_cntrl (s ! i) \<and> k = Inr True" if "legal_trail (c_str s) i k = Inr True" "i < length s" for i k
    using that high_not_cntrl by (auto simp: legal_trail_def byte_at_ok c_str_nth not_less split: if_splits)
  consider "len = 1" | "len = 2" | "len = 3" | "len = 4" using l by (auto simp: is_legal_utf8_def split: if_splits)
  then show ?thesis
  proof cases
    case 1
    then show ?thesis using fit c by (simp add: take_drop_Cons)
  next
    case 2
    then show ?thesis using fit c l legal_second_sound [of s pos]
      by (simp add: numeral_eq_Suc take_drop_Cons is_legal_utf8_def)
  next
    case 3
    then show ?thesis using fit c l legal_second_sound [of s pos] trail [of "pos + 2" "legal_second (c_str s) pos"]
      by (simp add: numeral_eq_Suc take_drop_Cons is_legal_utf8_def)
  next
    case 4
    then show ?thesis using fit c l legal_second_sound [of s pos] trail [of "pos + 2" "legal_second (c_str s) pos"]
        trail [of "pos + 3" "legal_trail (c_str s) (pos + 2) (legal_second (c_str s) pos)"]
      by (simp add: numeral_eq_Suc take_drop_Cons is_legal_utf8_def)
  qed
qed

text \<open>A sequence that fits is checked, any other is bad.\<close>

lemma printable_legal_ok: "\<exists>ok. printable_legal s pos = Inr ok"
proof (cases "pos + (trailing_bytes (s ! pos) + 1) \<le> length s \<and> s ! pos \<ge> 0x20 \<and> s ! pos \<noteq> 0x7F")
  case True
  then show ?thesis
    unfolding printable_legal_def Let_def using is_legal_utf8_ok [of "trailing_bytes (s ! pos) + 1" pos "c_str s"]
    by (simp only: if_True) simp
next
  case False
  then show ?thesis unfolding printable_legal_def Let_def by (intro exI [of _ False]) (simp only: if_False)
qed

lemma printable_legal_plain:
  "printable_legal s pos = Inr True \<Longrightarrow> plain_text (take (trailing_bytes (s ! pos) + 1) (drop pos s))"
  using legal_sequence_plain [of s pos "trailing_bytes (s ! pos) + 1"]
  by (auto simp: printable_legal_def Let_def is_cntrl_def not_less split: if_splits)

lemma printable_loop_total: "\<exists>t. printable_loop s flags upos pos ret = Inr t"
proof (induction "length s - pos" arbitrary: upos pos ret rule: less_induct)
  case less
  let ?len = "trailing_bytes (s ! pos) + 1"
  show ?case
  proof (cases "pos < length s")
    case True
    obtain ok where "printable_legal s pos = Inr ok" using printable_legal_ok by blast
    then show ?thesis
      using less [of "pos + ?len"] less [of "pos + 1"] True
      by (subst printable_loop.simps) (simp add: Let_def)
  next
    case False
    then show ?thesis by (subst printable_loop.simps) simp
  qed
qed

lemma printable_loop_plain:
  "plain_text ret \<Longrightarrow> flags AND UTF8_PASS_FMT = 0 \<Longrightarrow> \<exists>t. printable_loop s flags upos pos ret = Inr t \<and> plain_text t"
proof (induction "length s - pos" arbitrary: upos pos ret rule: less_induct)
  case less
  let ?c = "s ! pos" and ?len = "trailing_bytes (s ! pos) + 1"
  let ?x = "printable_subst flags ?c"
  have sub: "plain_text [?x]" if "?x \<noteq> 0"
    using that less(3) by (auto simp: printable_subst_def is_cntrl_def split: if_splits)
  have dots: "plain_text [0x2E, 0x2E, 0x2E]" by (simp add: is_cntrl_def)
  show ?case
  proof (cases "pos < length s \<and> (unat (flags AND (UTF8_FILTER - 1)) = 0 \<or> upos < unat (flags AND (UTF8_FILTER - 1)))")
    case False
    then show ?thesis
      by (subst printable_loop.simps) (use less(2) plain_text_append [OF less(2) dots] in \<open>auto simp: Let_def\<close>)
  next
    case True
    obtain ok where ok: "printable_legal s pos = Inr ok" using printable_legal_ok by blast
    have step: "printable_loop s flags upos pos ret =
        (if ok then printable_loop s flags (upos + 1) (pos + ?len) (ret @ take ?len (drop pos s))
         else printable_loop s flags (upos + 1) (pos + 1) (if ?x \<noteq> 0 then ret @ [?x] else ret))"
      using True ok by (subst printable_loop.simps) (simp add: Let_def)
    have "plain_text (take ?len (drop pos s))" if ok
      using that ok printable_legal_plain [of s pos] by simp
    then have "plain_text (ret @ take ?len (drop pos s))" if ok using that less(2) by (intro plain_text_append)
    moreover have "plain_text (if ?x \<noteq> 0 then ret @ [?x] else ret)" using less(2) sub by (simp add: plain_text_append)
    ultimately show ?thesis
      using step True less(1) [of "pos + ?len" "ret @ take ?len (drop pos s)" "upos + 1"]
        less(1) [of "pos + 1" "if ?x \<noteq> 0 then ret @ [?x] else ret" "upos + 1"] less(3) by (cases ok) (simp_all only:, auto)
  qed
qed

text \<open>
  C10. Safety: \<open>utf8_printable\<close> reads no byte outside the string and does not throw; in what it returns,
  without the flag that lets \<open>\r\n\t\<close> pass, a control byte can only stand directly behind a byte 0xED or
  0xF4.  There it does pass, be it a newline: for these two first bytes \<open>isLegalUTF8\<close> tests the second
  byte only against its upper bound.
\<close>

theorem printable_control_bytes:
  "(\<exists>t. utf8_printable s flags = Inr t \<and> (flags AND UTF8_PASS_FMT = 0 \<longrightarrow> plain_text t))
   \<and> utf8_printable [0xED, 0x0A, 0x80] 0 = Inr [0xED, 0x0A, 0x80]
   \<and> is_valid_utf8 [0xED, 0x0A, 0x80] UTF8_NO_CTRL = Inr True"
proof (intro conjI)
  show "\<exists>t. utf8_printable s flags = Inr t \<and> (flags AND UTF8_PASS_FMT = 0 \<longrightarrow> plain_text t)"
    using printable_loop_total [of s flags 0 0 "[]"] printable_loop_plain [of "[]" flags s 0 0] by (auto simp: utf8_printable_def)
  show "utf8_printable [0xED, 0x0A, 0x80] 0 = Inr [0xED, 0x0A, 0x80]" by code_simp
  show "is_valid_utf8 [0xED, 0x0A, 0x80] UTF8_NO_CTRL = Inr True" by code_simp
qed

theorem printable_control_bytes_witness:
  "\<exists>t. utf8_printable [0x61, 0xED, 0x0A, 0x80, 0x0A] 64 = Inr t \<and> plain_text t"
proof -
  have "(64 :: u64) AND UTF8_PASS_FMT = 0" by code_simp
  then show ?thesis using printable_control_bytes [of "[0x61, 0xED, 0x0A, 0x80, 0x0A]" 64] by blast
qed

lemma length_loop_ascii:
  "(\<forall>c \<in> set (take n (drop pos s)). c < 0x80) \<Longrightarrow> pos + n \<le> length s \<Longrightarrow>
    length_loop s upos pos = length_loop s (upos + n) (pos + n)"
proof (induction n arbitrary: upos pos)
  case (Suc n)
  have c: "s ! pos < 0x80" using Suc(2,3) by (simp add: take_drop_Cons)
  then have "\<not> 0xC0 \<le> s ! pos" "\<not> 0x80 \<le> s ! pos" "\<not> 0xF4 < s ! pos" by (auto simp: word_le_nat_alt word_less_nat_alt)
  then have "length_loop s upos pos = length_loop s (upos + 1) (pos + 1)"
    using Suc(3) c by (subst length_loop.simps)
      (simp add: trailing_bytes_def is_legal_utf8_def legal_first_def byte_at_ok c_str_nth not_less min_def)
  also have "\<dots> = length_loop s (upos + 1 + n) (pos + 1 + n)"
    using Suc(2,3) by (intro Suc(1)) (simp_all add: take_drop_Cons)
  finally show ?case by simp
qed simp

text \<open>
  C2. Bounds: \<open>utf8_length\<close> cuts a sequence at the size of the whole string instead of at what is left of
  it: at a first byte of a sequence of four at the end of a string of three or more other bytes it reads
  two bytes behind the terminating null.
\<close>

theorem utf8_length_reads_behind_string:
  assumes "3 \<le> length s" and "\<forall>c \<in> set s. c < 0x80" and "0xF0 \<le> c" "c < 0xF8"
  shows "utf8_length (s @ [c]) = Inl undefined_behaviour"
proof -
  have "utf8_length (s @ [c]) = length_loop (s @ [c]) (length s) (length s)"
    using length_loop_ascii [where n = "length s" and pos = 0 and s = "s @ [c]"] assms(2) by (simp add: utf8_length_def)
  moreover have "trailing_bytes c = 3" using assms(3,4) by (auto simp: trailing_bytes_def word_le_nat_alt word_less_nat_alt)
  ultimately show ?thesis
    using assms(1) by (subst (asm) length_loop.simps) (simp add: is_legal_utf8_def legal_trail_def byte_at_def)
qed

theorem utf8_length_reads_behind_string_witness:
  "utf8_length [0x61, 0x62, 0x63, 0xF0] = Inl undefined_behaviour"
  using utf8_length_reads_behind_string [where s = "[0x61, 0x62, 0x63]" and c = "0xF0"] by simp

end
