(* ===== verification/Spec2Isabelle.thy ===== *)
theory Spec2Isabelle
  imports Prelude Buffers Times Frames PacketId MsgWindow Reliable RelSystem PktStream TcpLink StackInv
    HexCodec IPv4 DataLimit Psid Base64 BufComposed ProtoStack StaticKey TlsPrf CtlWrap CtlChannel CtlProps CtlRound
    DataCrypto DataCryptoProps KeyAuth AuthProps MssFix Checksum Compress KeySession Session KeyInv
    SessionInv SessionProps KeyLimit CryptoAlgs DataChm DataChmProps
    IPv6 IPv6Props AddrPool Unicode
begin

text \<open>
  A verification of the core of the OpenVPN 3 library that Free-VPN bundles, under
  OpenVPNAdapter/Sources/OpenVPN3/openvpn (file names below are relative to it).

  The program.  The Swift application starts a tunnel through an Objective-C adapter
  (OpenVPNAdapter) that calls the C++ library.  The library is layered: the transport reads and
  writes datagrams or a TCP byte stream; the protocol layer turns each packet into a control or a
  data packet; control packets pass a reliability layer that orders, acknowledges and retransmits
  them under a TLS session; data packets carry a packet ID that a replay window checks before
  they reach the tunnel interface.  All layers hand packets over in one buffer class with
  headroom, prepared by frame contexts, and read time from one fixed-point clock.  The theories
  follow these layers from below.

  \<^item> Prelude: the machine integers (\<open>u8\<close> to \<open>u64\<close>, \<open>size_t\<close> as \<open>nat\<close> below \<open>SZ\<close> with wrapped
    subtraction written out), the exceptions of the code as the type \<open>exn\<close>, results \<open>'a res\<close> as
    a sum with the exception on the left and \<open>bindE\<close> as their sequencing, big-endian
    conversions.  \<open>undefined_behaviour\<close> marks calls for which C++ gives no result.
  \<^item> Buffers (buffer/buffer.hpp): \<open>buffer\<close> is an array with the window \<open>b_off\<close>, \<open>b_size\<close> and the
    capacity; \<open>b_kind\<close> tells \<open>BufferType\<close> from \<open>BufferAllocatedType\<close> with its flags.  Invariant
    \<open>buf_wf\<close>, contents \<open>content\<close>; C1 refines every operation to a byte deque.
  \<^item> Times (time/time.hpp): durations and times as 64-bit words of 1/1024 s, saturating addition,
    conversions.
  \<^item> Frames (frame/frame.hpp): contexts and the preparation, realignment and copying of buffers,
    alignment for every power of two (C4), \<open>standardize_capacity\<close>.
  \<^item> PacketId (crypto/packet_id.hpp): wire form, send counter (C9), and the replay window
    with its circular bitmap, refined to the set of IDs admitted (C6, C7).
  \<^item> MsgWindow (common/msgwin.hpp): the window of messages as a list with head ID and span, over
    a record of the message class's operations.  The locale \<open>window_message\<close> states what the
    window needs of the class; Reliable interprets it for the receive and the send messages.
  \<^item> Reliable (reliable/*.hpp): messages, \<open>ReliableRecv\<close>, \<open>ReliableSend\<close>, \<open>ReliableAck\<close>; timers (C12),
    acknowledgement lists (C11), acknowledgement of unsent IDs (C13).
  \<^item> RelSystem (ssl/protostack.hpp, retransmission): two endpoints over a network that loses,
    duplicates and reorders, as the step function \<open>rel_exec\<close> over the code's operations and its
    reachable states \<open>rel_reach\<close>; delivery is a prefix of what was sent (C14), nothing is
    forgotten (C15), and delivery can always complete (C16).
  \<^item> PktStream (transport/pktstream.hpp): the reassembly of length-prefixed packets, one definition
    for each path of \<open>put\<close>.
  \<^item> TcpLink (transport/tcplinkcommon.hpp, transport/tcplink.hpp): send queue, free list, completion
    handlers and receive path over a socket given as its pending operations; deframing (C17) and
    the two directions together (C18).
  \<^item> HexCodec (common/hexstr.hpp): hexadecimal rendering and parsing.
  \<^item> IPv4 (addr/ipv4.hpp, addr/iperr.hpp, common/ffs.hpp): netmasks and their binary search,
    extents, the loopback test.
  \<^item> DataLimit (ssl/datalimit.hpp): byte limits of a key and their reports (C23).
  \<^item> Psid (ssl/psid.hpp, common/memneq.hpp): session IDs and the constant-time comparison in its
    variants per architecture (C24).
  \<^item> Base64 (common/base64.hpp): maps, encoding, decoding and the syntax check (C25).
  \<^item> ProtoStack (ssl/protostack.hpp): the class \<open>ProtoStackBase\<close> as a state record and one function
    per method; the TLS session, packets and the derived class's methods are the record
    \<open>stack_env\<close>.  What \<open>flush\<close> leaves behind (C26), exceptions (C27), retransmission as in the
    reliability layer (C28).  The locale \<open>ack_generator\<close> is what the loop of \<open>send_pending_acks\<close>
    needs of \<open>generate_ack\<close>; CtlProps interprets it for the control channel.
  \<^item> StaticKey (crypto/static_key.hpp, common/splitlines.hpp, common/string.hpp): static keys, their
    text form and slices.
  \<^item> CtlWrap (ssl/proto.hpp, crypto/ovpnhmac.hpp, crypto/tls_crypt.hpp): the members of the protocol
    context and the key context that the control channel uses, opcodes, packets, and the wrapping of
    outgoing packets in every mode.
  \<^item> CtlChannel (ssl/proto.hpp): the unwrapping of incoming packets.  Code with state and exceptions
    is handled with the rules for \<open>hoare\<close>, whose last argument is what holds when an exception
    leaves.  No packet makes \<open>decapsulate\<close> throw or leave a buffer (C30); a packet without the
    right tag changes nothing (C31).
  \<^item> CtlProps: the key context over the protocol stack (C32), acknowledgements of rejected packets
    (C33), the length word of a wrapped client key (C34).
  \<^item> CtlRound: what one end wraps the other end unwraps, in every mode (C35).
  \<^item> DataCrypto (crypto/crypto_aead.hpp, mbedtls/crypto/cipheraead.hpp, openssl/crypto/cipheraead.hpp):
    the AEAD data channel.  The key stream and the tag of the cipher are the record \<open>gcm\<close>, the two
    libraries' contexts are instances of the record \<open>aead_impl\<close>.
  \<^item> DataCryptoProps: round trip and replay of data packets (C36), wrong tags (C37).
  \<^item> BufComposed (buffer/buflist.hpp, buffer/bufcomplete.hpp, buffer/bufcomposed.hpp): lists of buffers
    and the reader that finds out whether they hold a complete message.
  \<^item> TlsPrf (ssl/tlsprf.hpp): the random material of the key exchange and the keys made from it.
  \<^item> KeyAuth (ssl/proto.hpp): the states of a key context, the authentication messages, and the
    callbacks \<open>raw_recv\<close>, \<open>app_recv\<close> and \<open>net_send\<close> of the stack.
  \<^item> AuthProps: the exchange of the two messages and the agreement on keys (C38).
  \<^item> MssFix (transport/mssfix.hpp, ip/*.hpp): the segment size announced in TCP packets (C39).
  \<^item> Checksum (ip/csum.hpp): the Internet checksum at every alignment (C40).
  \<^item> Compress (compress/compress.hpp, compress/compnull.hpp, compress/compstub.hpp): the framing of
    packets that are not compressed; the compressors proper are parameters.
  \<^item> KeySession (ssl/proto.hpp, class \<open>KeyContext\<close>): the key context around the stack: events and their
    times, data limits, going active, the data channel's object and its packets.
  \<^item> Session (ssl/proto.hpp, class \<open>ProtoContext\<close>): the session with its primary and secondary key,
    which share the session's members through \<open>lend\<close> and \<open>keep_key\<close>: classification and validation of
    packets, renewal of keys, flush, housekeeping, keepalives, reset, and the validation that precedes a
    session.
  \<^item> StackInv, KeyInv: the methods that the protocol stack calls back are the locale \<open>user_contract\<close>: what
    all of them keep of the key and the session, the operations of the stack keep.  KeyInv interprets it
    on the methods of the key context and derives what every method of a key keeps: role, ID, progress of
    the handshake, the objects of the data channel.
  \<^item> SessionInv: all calls of a session, the states it can reach and their type invariant (C3).
  \<^item> SessionProps: a handshake only advances (C5); what becomes of a renegotiation the peer does not
    hear (C8).  KeyLimit: what becomes of a renegotiation that a data limit asks for (C21).
  \<^item> CryptoAlgs (crypto/cryptoalgs.hpp, crypto/cryptodcsel.hpp, crypto/cryptodc.hpp): the table of
    algorithms, which of them the data channel accepts, and the settings with their cached context.
  \<^item> DataChm (crypto/crypto_chm.hpp, crypto/encrypt_chm.hpp, crypto/decrypt_chm.hpp, crypto/cipher.hpp):
    the data channel in CBC mode; the library's cipher is the record \<open>cipher_lib\<close>.  DataChmProps:
    round trip and replay (C22), packets with a wrong HMAC.
  \<^item> IPv6 (addr/ipv6.hpp): addresses as two 64-bit words with a scope, their arithmetic, shifts, netmasks,
    hexadecimal form.  IPv6Props refines them to 128-bit words (C19) and treats the netmasks (C20).
  \<^item> AddrPool (addr/range.hpp, addr/pool.hpp): ranges, their iterators and partitions, and the pool that
    leases addresses, refined to a set of owned and a set of leased addresses (C29).  The locale
    \<open>network_address\<close> is what a range needs of an address; both versions of IP interpret it.
  \<^item> Unicode (common/unicode.hpp, common/unicode-impl.hpp): UTF-8 checks, lengths, printable forms and the
    iterator: what \<open>utf8_printable\<close> lets pass (C10), where \<open>utf8_length\<close> reads (C2).

  Loops.  The loops over windows and lists are structural or measured.  The receive loop of the
  TCP link and the loops of the protocol stack that depend on the TLS session or the derived class
  are \<open>partial_function\<close>s, whose lemmas prove that they return.  No fuel is used.

  Memory.  Every access through a buffer is checked against its array.  Where the code hands raw
  pointers to a crypto library, \<open>mem_read\<close> and \<open>mem_write\<close> give \<open>undefined_behaviour\<close> outside the
  array.

  Not modelled.  asio (sockets, timers, resolvers, text forms of addresses), the TLS and crypto
  libraries and the system clock appear as parameters.  Reference counts, logging and statistics
  are left out except the counters a property speaks of; allocation is taken to succeed, and
  arrays are smaller than half of the address space.  Of the protocol context (ssl/proto.hpp), the
  parsing of the configuration and of pushed options and the rendering of packets and options as
  text are not modelled; nor are option and HTTP parsing, routes, the conversions between UTF-8, UTF-16 and
  UTF-32 (a third-party file), the compression libraries and the client's connection logic, which is asio
  timers, resolvers and threads around the session modelled here.
\<close>

end
